(* ===== verification/Rust_Prelude.thy ===== *)
theory Rust_Prelude
  imports Main "HOL-Library.Sublist"
begin

text \<open>
  Shared vocabulary of the development.

  A Rust \<open>String\<close> or \<open>&str\<close> is the list of its UTF-8 bytes, one Isabelle \<open>char\<close> (8 bits) per
  byte: \<open>len\<close>, byte slicing, \<open>starts_with\<close>, \<open>find\<close>, \<open>==\<close> and the ASCII predicates are then the
  list operations on the same bytes the program uses.  The operations that work on Unicode
  scalar values (\<open>trim\<close>, \<open>chars().count()\<close>, \<open>is_char_boundary\<close>) are written on the encoded
  bytes: \<open>trim\<close> removes the UTF-8 encodings of the characters with the White\_Space property,
  which on valid UTF-8 is the same as trimming by character because a lead byte never occurs
  inside another character.

  A Rust \<open>Result<A, E>\<close> is the sum \<open>'e + 'a\<close> with \<open>Inl\<close> for \<open>Err\<close>; \<open>usize\<close> values are \<open>nat\<close>,
  with saturation at \<open>usize_max\<close> written out where the source saturates.
\<close>

named_theorems str_simps \<open>equations of the Rust string operations\<close>
named_theorems wf_intros \<open>preservation of the component invariants\<close>

type_synonym str = string

section \<open>Results\<close>

fun and_then :: "'e + 'a \<Rightarrow> ('a \<Rightarrow> 'e + 'b) \<Rightarrow> 'e + 'b" where
  "and_then (Inl e) f = Inl e"
| "and_then (Inr a) f = f a"

fun map_err :: "('e \<Rightarrow> 'f) \<Rightarrow> 'e + 'a \<Rightarrow> 'f + 'a" where
  "map_err g (Inl e) = Inl (g e)"
| "map_err g (Inr a) = Inr a"

text \<open>\<open>iter().map(f).collect::<Result<Vec<_>, _>>()\<close>: the first error stops the iteration.\<close>

fun collect_results :: "('a \<Rightarrow> 'e + 'b) \<Rightarrow> 'a list \<Rightarrow> 'e + 'b list" where
  "collect_results f [] = Inr []"
| "collect_results f (x # xs) =
     and_then (f x) (\<lambda>y. and_then (collect_results f xs) (\<lambda>ys. Inr (y # ys)))"

text \<open>\<open>Result::ok\<close>.\<close>

fun result_ok :: "'e + 'a \<Rightarrow> 'a option" where
  "result_ok (Inl _) = None"
| "result_ok (Inr a) = Some a"

lemma result_ok_Some_iff [simp]: "result_ok r = Some a \<longleftrightarrow> r = Inr a"
  by (cases r) auto

definition ok_or :: "'e \<Rightarrow> 'a option \<Rightarrow> 'e + 'a" where
  "ok_or e x = (case x of None \<Rightarrow> Inl e | Some a \<Rightarrow> Inr a)"

lemma and_then_Inr_iff [simp]:
  "and_then r f = Inr b \<longleftrightarrow> (\<exists>a. r = Inr a \<and> f a = Inr b)"
  by (cases r) auto

lemma and_then_Inl_iff:
  "and_then r f = Inl e \<longleftrightarrow> r = Inl e \<or> (\<exists>a. r = Inr a \<and> f a = Inl e)"
  by (cases r) auto

lemma map_err_Inr_iff [simp]: "map_err g r = Inr a \<longleftrightarrow> r = Inr a"
  by (cases r) auto

lemma map_err_Inl_iff: "map_err g r = Inl e \<longleftrightarrow> (\<exists>e'. r = Inl e' \<and> e = g e')"
  by (cases r) auto

lemma ok_or_Inr_iff [simp]: "ok_or e x = Inr a \<longleftrightarrow> x = Some a"
  by (cases x) (auto simp: ok_or_def)

lemma ok_or_simps [simp]: "ok_or e None = Inl e" "ok_or e (Some a) = Inr a"
  by (simp_all add: ok_or_def)

lemma collect_results_list_all2:
  "collect_results f xs = Inr ys \<longleftrightarrow> list_all2 (\<lambda>x y. f x = Inr y) xs ys"
proof (induction xs arbitrary: ys)
  case Nil
  then show ?case by auto
next
  case (Cons x xs)
  then show ?case by (cases ys) auto
qed

lemma set_map_filter: "set (List.map_filter f xs) = {y. \<exists>x \<in> set xs. f x = Some y}"
  by (auto simp: List.map_filter_def image_iff) (metis option.sel)

lemma map_filter_append: "List.map_filter f (xs @ ys) = List.map_filter f xs @ List.map_filter f ys"
  by (simp add: List.map_filter_def)

text \<open>\<open>Iterator::max_by_key\<close>: the last of the elements whose key is largest.\<close>

fun max_by_key :: "('a \<Rightarrow> 'k::linorder) \<Rightarrow> 'a list \<Rightarrow> 'a option" where
  "max_by_key f [] = None"
| "max_by_key f (x # xs) = Some (foldl (\<lambda>best y. if f best \<le> f y then y else best) x xs)"

lemma foldl_max_by_key:
  fixes f :: "'a \<Rightarrow> 'k::linorder"
  defines "step \<equiv> \<lambda>best y. if f best \<le> f y then y else best"
  shows "foldl step x xs \<in> set (x # xs) \<and> (\<forall>y \<in> set (x # xs). f y \<le> f (foldl step x xs))"
proof (induction xs arbitrary: x)
  case Nil
  then show ?case by simp
next
  case (Cons z zs)
  have le: "f x \<le> f (step x z)" "f z \<le> f (step x z)" and mem: "step x z \<in> {x, z}"
    by (auto simp: step_def)
  show ?case using Cons.IH [of "step x z"] le mem by (auto intro: order_trans)
qed

lemma max_by_key_Some:
  assumes "max_by_key f xs = Some m"
  shows "m \<in> set xs" and "\<And>y. y \<in> set xs \<Longrightarrow> f y \<le> f m"
  using assms foldl_max_by_key [of f "hd xs" "tl xs"] by (cases xs; auto)+

lemma max_by_key_None [simp]: "max_by_key f xs = None \<longleftrightarrow> xs = []"
  by (cases xs) auto

section \<open>Machine sizes\<close>

definition usize_max :: nat where
  "usize_max = 2 ^ 64 - 1"

definition saturating_add :: "nat \<Rightarrow> nat \<Rightarrow> nat" where
  "saturating_add a b = min (a + b) usize_max"

definition saturating_mul :: "nat \<Rightarrow> nat \<Rightarrow> nat" where
  "saturating_mul a b = min (a * b) usize_max"

text \<open>\<open>saturating_sub\<close> stops at zero, as subtraction on \<open>nat\<close> does.\<close>

definition saturating_sub :: "nat \<Rightarrow> nat \<Rightarrow> nat" where
  "saturating_sub a b = a - b"

lemma saturating_add_exact: "a + b \<le> usize_max \<Longrightarrow> saturating_add a b = a + b"
  by (simp add: saturating_add_def)

lemma saturating_mul_exact: "a * b \<le> usize_max \<Longrightarrow> saturating_mul a b = a * b"
  by (simp add: saturating_mul_def)

lemma saturating_add_le: "saturating_add a b \<le> usize_max" "saturating_add a b \<le> a + b"
  by (simp_all add: saturating_add_def)

section \<open>Bytes\<close>

definition byte_val :: "char \<Rightarrow> nat" where
  "byte_val c = of_char c"

definition is_cont_byte :: "char \<Rightarrow> bool" where
  "is_cont_byte c \<longleftrightarrow> 128 \<le> byte_val c \<and> byte_val c < 192"

definition is_ascii_digit :: "char \<Rightarrow> bool" where
  "is_ascii_digit c \<longleftrightarrow> 48 \<le> byte_val c \<and> byte_val c \<le> 57"

definition is_ascii_upper :: "char \<Rightarrow> bool" where
  "is_ascii_upper c \<longleftrightarrow> 65 \<le> byte_val c \<and> byte_val c \<le> 90"

definition is_ascii_lower :: "char \<Rightarrow> bool" where
  "is_ascii_lower c \<longleftrightarrow> 97 \<le> byte_val c \<and> byte_val c \<le> 122"

definition is_ascii_alphanumeric :: "char \<Rightarrow> bool" where
  "is_ascii_alphanumeric c \<longleftrightarrow> is_ascii_digit c \<or> is_ascii_upper c \<or> is_ascii_lower c"

definition ascii_lower :: "char \<Rightarrow> char" where
  "ascii_lower c = (if is_ascii_upper c then char_of (byte_val c + 32) else c)"

definition to_ascii_lowercase :: "str \<Rightarrow> str" where
  "to_ascii_lowercase s = map ascii_lower s"

lemma byte_val_less: "byte_val c < 256"
  by (simp add: byte_val_def)

lemma byte_val_char_of: "n < 256 \<Longrightarrow> byte_val (char_of n) = n"
  by (simp add: byte_val_def)

lemma byte_val_inject: "byte_val c = byte_val d \<longleftrightarrow> c = d"
  by (simp add: byte_val_def)

lemma ascii_lower_not_upper: "\<not> is_ascii_upper (ascii_lower c)"
  by (auto simp: ascii_lower_def is_ascii_upper_def byte_val_char_of)

lemma ascii_lower_idem [simp]: "ascii_lower (ascii_lower c) = ascii_lower c"
  using ascii_lower_not_upper [of c] by (simp add: ascii_lower_def)

lemma to_ascii_lowercase_idem [simp]:
  "to_ascii_lowercase (to_ascii_lowercase s) = to_ascii_lowercase s"
  by (simp add: to_ascii_lowercase_def)

text \<open>A byte that is not an ASCII letter is its own lower-case form, and no letter maps to it.\<close>

lemma ascii_lower_eq_iff:
  assumes "\<not> is_ascii_upper d" and "\<not> is_ascii_lower d"
  shows "ascii_lower c = d \<longleftrightarrow> c = d"
proof -
  have "ascii_lower c \<noteq> d" if "is_ascii_upper c"
  proof
    assume "ascii_lower c = d"
    then have "byte_val d = byte_val c + 32"
      using that by (auto simp: ascii_lower_def is_ascii_upper_def byte_val_char_of)
    then show False using that assms by (simp add: is_ascii_upper_def is_ascii_lower_def)
  qed
  then show ?thesis using assms by (auto simp: ascii_lower_def)
qed

section \<open>Searching, stripping and splitting\<close>

definition strip_prefix :: "'a list \<Rightarrow> 'a list \<Rightarrow> 'a list option" where
  "strip_prefix p s = (if take (length p) s = p then Some (drop (length p) s) else None)"

definition strip_suffix :: "'a list \<Rightarrow> 'a list \<Rightarrow> 'a list option" where
  "strip_suffix p s = map_option rev (strip_prefix (rev p) (rev s))"

definition starts_with :: "'a list \<Rightarrow> 'a list \<Rightarrow> bool" where
  "starts_with s p \<longleftrightarrow> take (length p) s = p"

definition ends_with :: "'a list \<Rightarrow> 'a list \<Rightarrow> bool" where
  "ends_with s p \<longleftrightarrow> length p \<le> length s \<and> drop (length s - length p) s = p"

text \<open>\<open>str::find\<close>: the byte offset of the first occurrence.\<close>

fun find_str :: "'a list \<Rightarrow> 'a list \<Rightarrow> nat option" where
  "find_str [] p = (if p = [] then Some 0 else None)"
| "find_str (c # s) p =
     (if starts_with (c # s) p then Some 0 else map_option Suc (find_str s p))"

definition contains_str :: "'a list \<Rightarrow> 'a list \<Rightarrow> bool" where
  "contains_str s p \<longleftrightarrow> find_str s p \<noteq> None"

fun split_once :: "'a \<Rightarrow> 'a list \<Rightarrow> ('a list \<times> 'a list) option" where
  "split_once d [] = None"
| "split_once d (c # s) =
     (if c = d then Some ([], s) else map_option (map_prod (Cons c) id) (split_once d s))"

definition rsplit_once :: "'a \<Rightarrow> 'a list \<Rightarrow> ('a list \<times> 'a list) option" where
  "rsplit_once d s = map_option (\<lambda>(a, b). (rev b, rev a)) (split_once d (rev s))"

text \<open>\<open>s.split(d)\<close>: the fields between the separators, one field more than separators.\<close>

fun split_on :: "'a \<Rightarrow> 'a list \<Rightarrow> 'a list list" where
  "split_on d [] = [[]]"
| "split_on d (c # s) =
     (if c = d then [] # split_on d s
      else case split_on d s of [] \<Rightarrow> [[c]] | f # fs \<Rightarrow> (c # f) # fs)"

text \<open>\<open>slice.join(sep)\<close>.\<close>

fun join_with :: "'a list \<Rightarrow> 'a list list \<Rightarrow> 'a list" where
  "join_with sep [] = []"
| "join_with sep [x] = x"
| "join_with sep (x # y # zs) = x @ sep @ join_with sep (y # zs)"

lemma strip_prefix_Some_iff [str_simps]: "strip_prefix p s = Some r \<longleftrightarrow> s = p @ r"
proof
  assume "strip_prefix p s = Some r"
  then show "s = p @ r"
    by (auto simp: strip_prefix_def split: if_splits) (metis append_take_drop_id)
next
  assume "s = p @ r"
  then show "strip_prefix p s = Some r" by (simp add: strip_prefix_def)
qed

lemma strip_prefix_append [simp]: "strip_prefix p (p @ r) = Some r"
  by (simp add: strip_prefix_Some_iff)

lemma strip_prefix_None_iff: "strip_prefix p s = None \<longleftrightarrow> (\<forall>r. s \<noteq> p @ r)"
proof -
  have "strip_prefix p s \<noteq> None \<longleftrightarrow> (\<exists>r. s = p @ r)"
    by (auto simp: strip_prefix_Some_iff)
  then show ?thesis by blast
qed

lemma strip_suffix_Some_iff [str_simps]: "strip_suffix p s = Some r \<longleftrightarrow> s = r @ p"
proof -
  have "rev s = rev p @ y \<longleftrightarrow> s = rev y @ p" for y
    by (metis rev_append rev_rev_ident)
  then show ?thesis
    by (auto simp: strip_suffix_def strip_prefix_Some_iff) (metis rev_rev_ident)
qed

lemma starts_with_iff [str_simps]: "starts_with s p \<longleftrightarrow> (\<exists>r. s = p @ r)"
  by (metis append_eq_conv_conj append_take_drop_id starts_with_def)

lemma ends_with_iff [str_simps]: "ends_with s p \<longleftrightarrow> (\<exists>r. s = r @ p)"
proof
  assume e: "ends_with s p"
  then have "s = take (length s - length p) s @ p"
    by (metis append_take_drop_id ends_with_def)
  then show "\<exists>r. s = r @ p" by blast
next
  assume "\<exists>r. s = r @ p"
  then show "ends_with s p" by (auto simp: ends_with_def)
qed

lemma find_str_Some:
  "find_str s p = Some i \<Longrightarrow> \<exists>r. s = take i s @ p @ r \<and> i + length p \<le> length s"
proof (induction s arbitrary: i)
  case Nil
  then show ?case by (auto split: if_splits)
next
  case (Cons c s)
  show ?case
  proof (cases "starts_with (c # s) p")
    case True
    with Cons.prems obtain r where "i = 0" and r: "c # s = p @ r"
      by (auto simp: starts_with_iff)
    then have "length p \<le> length (c # s)" by (metis le_add1 length_append)
    with \<open>i = 0\<close> r show ?thesis by auto
  next
    case False
    with Cons.prems obtain j where j: "find_str s p = Some j" and "i = Suc j" by auto
    with Cons.IH [OF j] show ?thesis by auto
  qed
qed

lemma find_str_least:
  "find_str s p = Some i \<Longrightarrow> j < i \<Longrightarrow> \<not> starts_with (drop j s) p"
proof (induction s arbitrary: i j)
  case Nil
  then show ?case by (auto split: if_splits)
next
  case (Cons c s)
  then show ?case by (cases j) (auto split: if_splits)
qed

lemma find_str_None: "find_str s p = None \<Longrightarrow> \<not> starts_with (drop j s) p"
proof (induction s arbitrary: j)
  case Nil
  then show ?case by (auto simp: starts_with_def split: if_splits)
next
  case (Cons c s)
  then show ?case by (cases j) (auto split: if_splits)
qed

lemma split_once_Some_iff:
  "split_once d s = Some (a, b) \<longleftrightarrow> s = a @ d # b \<and> d \<notin> set a"
proof (induction s arbitrary: a b)
  case Nil
  then show ?case by simp
next
  case (Cons c s)
  then show ?case by (cases a) auto
qed

lemma split_once_None_iff: "split_once d s = None \<longleftrightarrow> d \<notin> set s"
  by (induction s) auto

lemma rsplit_once_Some_iff:
  "rsplit_once d s = Some (a, b) \<longleftrightarrow> s = a @ d # b \<and> d \<notin> set b"
proof -
  have "rsplit_once d s = Some (a, b) \<longleftrightarrow> split_once d (rev s) = Some (rev b, rev a)"
    by (auto simp: rsplit_once_def)
  also have "\<dots> \<longleftrightarrow> rev s = rev b @ d # rev a \<and> d \<notin> set b"
    by (simp add: split_once_Some_iff)
  also have "rev s = rev b @ d # rev a \<longleftrightarrow> s = a @ d # b"
    by (metis append_Cons append_assoc rev.simps(2) rev_append rev_rev_ident self_append_conv2)
  finally show ?thesis .
qed

lemma split_on_not_Nil [simp]: "split_on d s \<noteq> []"
  by (cases s) (auto split: list.splits)

lemma join_split_on: "join_with [d] (split_on d s) = s"
proof (induction s)
  case Nil
  then show ?case by simp
next
  case (Cons c s)
  obtain f fs where f: "split_on d s = f # fs"
    by (cases "split_on d s") auto
  with Cons.IH show ?case by (cases fs) auto
qed

lemma split_on_fields: "f \<in> set (split_on d s) \<Longrightarrow> d \<notin> set f"
  by (induction s arbitrary: f) (auto split: if_splits list.splits)

section \<open>Whitespace\<close>

text \<open>
  \<open>ws_len s\<close> is the number of bytes of the White\_Space character at the head of \<open>s\<close>, and 0 if
  there is none: U+0009 to U+000D, U+0020, U+0085, U+00A0, U+1680, U+2000 to U+200A, U+2028,
  U+2029, U+202F, U+205F and U+3000.
\<close>

definition is_ws_byte :: "char \<Rightarrow> bool" where
  "is_ws_byte c \<longleftrightarrow> 9 \<le> byte_val c \<and> byte_val c \<le> 13 \<or> byte_val c = 32"

definition is_ws2 :: "char \<Rightarrow> char \<Rightarrow> bool" where
  "is_ws2 a b \<longleftrightarrow> byte_val a = 0xC2 \<and> (byte_val b = 0x85 \<or> byte_val b = 0xA0)"

definition is_ws3 :: "char \<Rightarrow> char \<Rightarrow> char \<Rightarrow> bool" where
  "is_ws3 a b c \<longleftrightarrow>
     byte_val a = 0xE1 \<and> byte_val b = 0x9A \<and> byte_val c = 0x80
   \<or> byte_val a = 0xE2 \<and> byte_val b = 0x80 \<and>
       (0x80 \<le> byte_val c \<and> byte_val c \<le> 0x8A
        \<or> byte_val c = 0xA8 \<or> byte_val c = 0xA9 \<or> byte_val c = 0xAF)
   \<or> byte_val a = 0xE2 \<and> byte_val b = 0x81 \<and> byte_val c = 0x9F
   \<or> byte_val a = 0xE3 \<and> byte_val b = 0x80 \<and> byte_val c = 0x80"

fun ws_len :: "str \<Rightarrow> nat" where
  "ws_len [] = 0"
| "ws_len [a] = (if is_ws_byte a then 1 else 0)"
| "ws_len [a, b] = (if is_ws_byte a then 1 else if is_ws2 a b then 2 else 0)"
| "ws_len (a # b # c # s) =
     (if is_ws_byte a then 1 else if is_ws2 a b then 2 else if is_ws3 a b c then 3 else 0)"

text \<open>The same on the reversed string, for the end of a string.\<close>

fun ws_len_rev :: "str \<Rightarrow> nat" where
  "ws_len_rev [] = 0"
| "ws_len_rev [a] = (if is_ws_byte a then 1 else 0)"
| "ws_len_rev [b, a] = (if is_ws_byte b then 1 else if is_ws2 a b then 2 else 0)"
| "ws_len_rev (c # b # a # s) =
     (if is_ws_byte c then 1 else if is_ws2 b c then 2 else if is_ws3 a b c then 3 else 0)"

function trim_start :: "str \<Rightarrow> str" where
  "trim_start s = (if s = [] \<or> ws_len s = 0 then s else trim_start (drop (ws_len s) s))"
  by pat_completeness auto
termination
  by (relation "measure length") auto

function trim_rev :: "str \<Rightarrow> str" where
  "trim_rev s = (if s = [] \<or> ws_len_rev s = 0 then s else trim_rev (drop (ws_len_rev s) s))"
  by pat_completeness auto
termination
  by (relation "measure length") auto

declare trim_start.simps [simp del] trim_rev.simps [simp del]

definition trim_end :: "str \<Rightarrow> str" where
  "trim_end s = rev (trim_rev (rev s))"

definition trim :: "str \<Rightarrow> str" where
  "trim s = trim_end (trim_start s)"

text \<open>\<open>chars().any(char::is_whitespace)\<close>, and \<open>chars().count()\<close>.\<close>

fun has_whitespace :: "str \<Rightarrow> bool" where
  "has_whitespace [] \<longleftrightarrow> False"
| "has_whitespace (c # s) \<longleftrightarrow> 0 < ws_len (c # s) \<or> has_whitespace s"

definition char_count :: "str \<Rightarrow> nat" where
  "char_count s = length (filter (\<lambda>c. \<not> is_cont_byte c) s)"

definition is_char_boundary :: "str \<Rightarrow> nat \<Rightarrow> bool" where
  "is_char_boundary s i \<longleftrightarrow> i = length s \<or> i = 0 \<or> i < length s \<and> \<not> is_cont_byte (s ! i)"

lemma trim_start_Nil [simp]: "trim_start [] = []"
  by (simp add: trim_start.simps)

lemma trim_rev_Nil [simp]: "trim_rev [] = []"
  by (simp add: trim_rev.simps)

lemma trim_end_Nil [simp]: "trim_end [] = []"
  by (simp add: trim_end_def)

lemma trim_Nil [simp]: "trim [] = []"
  by (simp add: trim_def)

lemma trim_start_suffix: "suffix (trim_start s) s"
proof (induction s rule: trim_start.induct)
  case (1 s)
  then show ?case
    by (subst trim_start.simps) (auto intro: suffix_order.trans suffix_drop)
qed

lemma trim_rev_suffix: "suffix (trim_rev s) s"
proof (induction s rule: trim_rev.induct)
  case (1 s)
  then show ?case
    by (subst trim_rev.simps) (auto intro: suffix_order.trans suffix_drop)
qed

lemma trim_end_prefix: "prefix (trim_end s) s"
  using trim_rev_suffix [of "rev s"] by (simp add: trim_end_def suffix_to_prefix)

lemma trim_sublist: "sublist (trim s) s"
proof -
  have "sublist (trim_end (trim_start s)) (trim_start s)"
    by (rule prefix_imp_sublist [OF trim_end_prefix])
  moreover have "sublist (trim_start s) s"
    by (rule suffix_imp_sublist [OF trim_start_suffix])
  ultimately show ?thesis unfolding trim_def by (rule sublist_order.order.trans)
qed

lemma trim_start_stop: "trim_start s = [] \<or> ws_len (trim_start s) = 0"
proof (induction s rule: trim_start.induct)
  case (1 s)
  then show ?case by (cases "s = [] \<or> ws_len s = 0") (auto simp: trim_start.simps [of s])
qed

lemma trim_rev_stop: "trim_rev s = [] \<or> ws_len_rev (trim_rev s) = 0"
proof (induction s rule: trim_rev.induct)
  case (1 s)
  then show ?case by (cases "s = [] \<or> ws_len_rev s = 0") (auto simp: trim_rev.simps [of s])
qed

lemma trim_start_id: "ws_len s = 0 \<Longrightarrow> trim_start s = s"
  by (simp add: trim_start.simps)

lemma trim_rev_idem [simp]: "trim_rev (trim_rev s) = trim_rev s"
  using trim_rev_stop [of s] by (subst trim_rev.simps) auto

lemma trim_end_fixed_iff: "trim_end s = s \<longleftrightarrow> ws_len_rev (rev s) = 0"
proof
  assume "trim_end s = s"
  then have "trim_rev (rev s) = rev s" by (metis rev_rev_ident trim_end_def)
  then show "ws_len_rev (rev s) = 0" using trim_rev_stop [of "rev s"] by auto
qed (simp add: trim_end_def trim_rev.simps)

text \<open>A blank cannot be the middle or the lead byte of a longer white-space character.\<close>

lemma trim_end_after_space:
  assumes "trim_end p = p" and "p \<noteq> []"
  shows "trim_end (h @ CHR '' '' # p) = h @ CHR '' '' # p"
proof -
  obtain c q where q: "rev p = c # q" using assms(2) by (cases "rev p") auto
  have blank: "\<not> is_ws2 CHR '' '' x" "\<not> is_ws3 CHR '' '' x y" "\<not> is_ws3 x CHR '' '' y" for x y
    by (simp_all add: is_ws2_def is_ws3_def byte_val_def)
  consider "q = []" | x where "q = [x]" | x y r where "q = x # y # r"
    by (metis neq_Nil_conv)
  then have "ws_len_rev (c # q @ CHR '' '' # rev h) = 0"
    using assms(1) blank unfolding trim_end_fixed_iff q
    by cases (cases "rev h"; simp split: if_splits)+
  then show ?thesis using q by (simp add: trim_end_fixed_iff)
qed

lemma trim_end_head: "trim_end (c # s) = [] \<or> (\<exists>t. trim_end (c # s) = c # t)"
  using trim_end_prefix [of "c # s"] by (cases "trim_end (c # s)") auto

lemma split_on_append: "d \<notin> set a \<Longrightarrow> split_on d (a @ d # b) = a # split_on d b"
  by (induction a) auto

lemma split_on_none: "d \<notin> set a \<Longrightarrow> split_on d a = [a]"
  by (induction a) auto

lemma split_join:
  "ls \<noteq> [] \<Longrightarrow> list_all (\<lambda>l. d \<notin> set l) ls \<Longrightarrow> split_on d (join_with [d] ls) = ls"
  by (induction "[d]" ls rule: join_with.induct) (auto simp: split_on_append split_on_none)

lemma trim_end_idem [simp]: "trim_end (trim_end s) = trim_end s"
  by (simp add: trim_end_def)

section \<open>Lines\<close>

abbreviation lf_char :: char where "lf_char \<equiv> CHR 0x0A"
abbreviation cr_char :: char where "cr_char \<equiv> CHR 0x0D"

definition strip_cr :: "str \<Rightarrow> str" where
  "strip_cr line = (case strip_suffix [cr_char] line of Some l \<Rightarrow> l | None \<Rightarrow> line)"

text \<open>\<open>str::lines\<close>: a terminated line loses \<open>\n\<close> or \<open>\r\n\<close>; a final empty line is not a line.\<close>

definition str_lines :: "str \<Rightarrow> str list" where
  "str_lines s =
     (let fields = split_on lf_char s
      in map strip_cr (butlast fields) @ (if last fields = [] then [] else [last fields]))"

section \<open>Decimal numbers\<close>

text \<open>\<open>format!("{n}")\<close> of an unsigned integer.\<close>

fun show_nat :: "nat \<Rightarrow> str" where
  "show_nat n =
     (if n < 10 then [char_of (48 + n)] else show_nat (n div 10) @ [char_of (48 + n mod 10)])"

declare show_nat.simps [simp del]

lemma show_nat_not_Nil [simp]: "show_nat n \<noteq> []"
  by (subst show_nat.simps) simp

end
