(* ===== verification/Patch_Types.thy ===== *)
theory Patch_Types
  imports Rust_Prelude
begin

text \<open>
  The data of a patch (\<open>codex-rs/apply-patch/src/parser.rs\<close>): hunks, the chunks of an update and
  the errors of the parser.  A \<open>PathBuf\<close> of a patch is the text it was made from.
\<close>

datatype parse_error =
    InvalidPatchError str
  | InvalidHunkError str nat

record update_file_chunk =
  change_context :: "str option"
  old_lines :: "str list"
  new_lines :: "str list"
  context_line_indices :: "(nat \<times> nat) list"
  is_end_of_file :: bool

definition chunk_default :: update_file_chunk where
  "chunk_default = \<lparr>change_context = None, old_lines = [], new_lines = [],
     context_line_indices = [], is_end_of_file = False\<rparr>"

definition push_context_line :: "str \<Rightarrow> update_file_chunk \<Rightarrow> update_file_chunk" where
  "push_context_line line c =
     c\<lparr>context_line_indices := context_line_indices c @ [(length (old_lines c), length (new_lines c))],
       old_lines := old_lines c @ [line],
       new_lines := new_lines c @ [line]\<rparr>"

datatype hunk =
    AddFile str str
  | DeleteFile str
  | UpdateFile str "str option" "update_file_chunk list"

text \<open>\<open>Hunk::path\<close> names the destination of a move, \<open>resolve_path\<close> starts from the source.\<close>

fun hunk_path :: "hunk \<Rightarrow> str" where
  "hunk_path (AddFile p _) = p"
| "hunk_path (DeleteFile p) = p"
| "hunk_path (UpdateFile _ (Some p) _) = p"
| "hunk_path (UpdateFile p None _) = p"

fun hunk_source_path :: "hunk \<Rightarrow> str" where
  "hunk_source_path (UpdateFile p _ _) = p"
| "hunk_source_path h = hunk_path h"

section \<open>Well-formed chunks\<close>

text \<open>
  The context lines of a chunk are recorded in order on both sides, at positions that exist and
  hold the same line.
\<close>

definition indices_ascending :: "(nat \<times> nat) list \<Rightarrow> bool" where
  "indices_ascending is \<longleftrightarrow> sorted_wrt (\<lambda>i j. fst i < fst j \<and> snd i < snd j) is"

definition wf_chunk :: "update_file_chunk \<Rightarrow> bool" where
  "wf_chunk c \<longleftrightarrow>
     indices_ascending (context_line_indices c)
   \<and> (\<forall>(i, j) \<in> set (context_line_indices c).
        i < length (old_lines c) \<and> j < length (new_lines c) \<and> old_lines c ! i = new_lines c ! j)"

lemma wf_chunk_default [wf_intros]: "wf_chunk (chunk_default\<lparr>change_context := ctx\<rparr>)"
  by (simp add: wf_chunk_def chunk_default_def indices_ascending_def)

lemma wf_chunk_eof [wf_intros]: "wf_chunk c \<Longrightarrow> wf_chunk (c\<lparr>is_end_of_file := b\<rparr>)"
  by (simp add: wf_chunk_def)

lemma wf_chunk_push_new [wf_intros]: "wf_chunk c \<Longrightarrow> wf_chunk (c\<lparr>new_lines := new_lines c @ [l]\<rparr>)"
  by (fastforce simp: wf_chunk_def nth_append)

lemma wf_chunk_push_old [wf_intros]: "wf_chunk c \<Longrightarrow> wf_chunk (c\<lparr>old_lines := old_lines c @ [l]\<rparr>)"
  by (fastforce simp: wf_chunk_def nth_append)

lemma wf_chunk_push_context [wf_intros]: "wf_chunk c \<Longrightarrow> wf_chunk (push_context_line l c)"
  by (fastforce simp: wf_chunk_def push_context_line_def nth_append indices_ascending_def
      sorted_wrt_append)

end
