(* ===== verification/Patch_Text_File.thy ===== *)
theory Patch_Text_File
  imports Rust_Prelude
begin

text \<open>
  Text files with their line endings (\<open>codex-rs/apply-patch/src/text_file.rs\<close>).  A file is split
  into lines that keep the ending they had; replacements rebuild it.

  The cursor loop of \<open>SourceFile::parse\<close> is a recursion over the bytes that remain, with the
  bytes of the current line beside them.  A panic (the subtraction below zero that the debug
  assertion guards) is \<open>None\<close>.
\<close>

section \<open>Lines and endings\<close>

datatype line_ending = Lf | CrLf | Cr

fun ending_str :: "line_ending \<Rightarrow> str" where
  "ending_str Lf = [lf_char]"
| "ending_str CrLf = [cr_char, lf_char]"
| "ending_str Cr = [cr_char]"

record source_line =
  line_text :: str
  line_end :: "line_ending option"

record source_file =
  file_lines :: "source_line list"
  preferred_ending :: line_ending

type_synonym replacement = "nat \<times> nat \<times> str list"

text \<open>\<open>Option::get_or_insert\<close>.\<close>

definition get_or_insert :: "'a option \<Rightarrow> 'a \<Rightarrow> 'a option" where
  "get_or_insert opt x = (case opt of None \<Rightarrow> Some x | Some y \<Rightarrow> Some y)"

fun source_parse_loop ::
    "source_line list \<Rightarrow> line_ending option \<Rightarrow> str \<Rightarrow> str \<Rightarrow> source_line list \<times> line_ending option" where
  "source_parse_loop ls pref cur [] =
     (if cur = [] then ls else ls @ [\<lparr>line_text = cur, line_end = None\<rparr>], pref)"
| "source_parse_loop ls pref cur (c # s) =
     (if c = cr_char \<and> s \<noteq> [] \<and> hd s = lf_char then
        source_parse_loop (ls @ [\<lparr>line_text = cur, line_end = Some CrLf\<rparr>]) (get_or_insert pref CrLf) [] (tl s)
      else if c = cr_char then
        source_parse_loop (ls @ [\<lparr>line_text = cur, line_end = Some Cr\<rparr>]) (get_or_insert pref Cr) [] s
      else if c = lf_char then
        source_parse_loop (ls @ [\<lparr>line_text = cur, line_end = Some Lf\<rparr>]) (get_or_insert pref Lf) [] s
      else source_parse_loop ls pref (cur @ [c]) s)"

definition source_parse :: "str \<Rightarrow> source_file" where
  "source_parse contents =
     (let (ls, pref) = source_parse_loop [] None [] contents
      in \<lparr>file_lines = ls, preferred_ending = (case pref of None \<Rightarrow> Lf | Some e \<Rightarrow> e)\<rparr>)"

definition line_texts :: "source_file \<Rightarrow> str list" where
  "line_texts f = map line_text (file_lines f)"

definition line_str :: "source_line \<Rightarrow> str" where
  "line_str l = line_text l @ (case line_end l of None \<Rightarrow> [] | Some e \<Rightarrow> ending_str e)"

definition into_contents :: "source_file \<Rightarrow> str" where
  "into_contents f = concat (map line_str (file_lines f))"

section \<open>Replacements\<close>

definition new_line :: "line_ending \<Rightarrow> str \<Rightarrow> source_line" where
  "new_line e t = \<lparr>line_text = t, line_end = Some e\<rparr>"

text \<open>
  The loop over the replacements: \<open>rest\<close> is what the iterator over the old lines has left and
  \<open>source_index\<close> the position it has reached.
\<close>

fun source_replace_loop ::
    "line_ending \<Rightarrow> replacement list \<Rightarrow> nat \<Rightarrow> source_line list \<Rightarrow> source_line list \<Rightarrow>
       source_line list option" where
  "source_replace_loop e [] source_index rest new_lines = Some (new_lines @ rest)"
| "source_replace_loop e ((start_idx, old_len, new_segment) # rs) source_index rest new_lines =
     (if start_idx < source_index then None
      else
        let keep = start_idx - source_index
        in source_replace_loop e rs (start_idx + old_len) (drop old_len (drop keep rest))
             (new_lines @ take keep rest @ map (new_line e) new_segment))"

definition terminate_line :: "line_ending \<Rightarrow> source_line \<Rightarrow> source_line" where
  "terminate_line e l = l\<lparr>line_end := get_or_insert (line_end l) e\<rparr>"

definition source_apply_replacements :: "source_file \<Rightarrow> replacement list \<Rightarrow> source_file option" where
  "source_apply_replacements f rs =
     (case source_replace_loop (preferred_ending f) rs 0 (file_lines f) [] of
        None \<Rightarrow> None
      | Some ls \<Rightarrow> Some (f\<lparr>file_lines := map (terminate_line (preferred_ending f)) ls\<rparr>))"

section \<open>Round trip\<close>

lemma line_byte_cases:
  obtains (crlf) "c = cr_char" "s = lf_char # tl s"
  | (cr) "c = cr_char" "\<not> (s \<noteq> [] \<and> hd s = lf_char)"
  | (lf) "c = lf_char" "c \<noteq> cr_char"
  | (other) "c \<noteq> cr_char" "c \<noteq> lf_char"
proof -
  have "s = lf_char # tl s \<or> \<not> (s \<noteq> [] \<and> hd s = lf_char)" by (cases s) auto
  then show thesis using that by blast
qed

lemma source_parse_loop_crlf:
  "c = cr_char \<Longrightarrow> s = lf_char # tl s \<Longrightarrow>
     source_parse_loop ls pref cur (c # s) =
       source_parse_loop (ls @ [\<lparr>line_text = cur, line_end = Some CrLf\<rparr>]) (get_or_insert pref CrLf) [] (tl s)"
  by (cases s) auto

lemma source_parse_loop_contents:
  "source_parse_loop ls pref cur s = (ls', pref') \<Longrightarrow>
     concat (map line_str ls') = concat (map line_str ls) @ cur @ s"
proof (induction ls pref cur s rule: source_parse_loop.induct)
  case (1 ls pref cur)
  then show ?case by (auto simp: line_str_def split: if_splits)
next
  case (2 ls pref cur c s)
  show ?case
  proof (cases rule: line_byte_cases [of c s])
    case crlf
    then have "c = cr_char \<and> s \<noteq> [] \<and> hd s = lf_char" by (cases s) auto
    then have "concat (map line_str ls') =
        concat (map line_str (ls @ [\<lparr>line_text = cur, line_end = Some CrLf\<rparr>])) @ [] @ tl s"
      using "2.prems" by (intro "2.IH"(1)) auto
    also have "\<dots> = concat (map line_str ls) @ cur @ c # lf_char # tl s"
      using crlf(1) by (simp add: line_str_def)
    finally show ?thesis using crlf(2) by simp
  next
    case cr
    then show ?thesis using "2.IH"(2) "2.prems" by (auto simp: line_str_def split: if_splits)
  next
    case lf
    then show ?thesis using "2.IH"(3) "2.prems" by (auto simp: line_str_def)
  next
    case other
    then show ?thesis using "2.IH"(4) "2.prems" by auto
  qed
qed

text \<open>Every line of a parsed file is free of terminators, and only the last may lack its ending.\<close>

definition wf_line :: "source_line \<Rightarrow> bool" where
  "wf_line l \<longleftrightarrow> cr_char \<notin> set (line_text l) \<and> lf_char \<notin> set (line_text l)"

definition wf_lines :: "source_line list \<Rightarrow> bool" where
  "wf_lines ls \<longleftrightarrow> list_all wf_line ls \<and> list_all (\<lambda>l. line_end l \<noteq> None) (butlast ls)"

lemma source_parse_loop_wf:
  "source_parse_loop ls pref cur s = (ls', pref') \<Longrightarrow>
     list_all wf_line ls \<Longrightarrow> list_all (\<lambda>l. line_end l \<noteq> None) ls \<Longrightarrow>
     cr_char \<notin> set cur \<Longrightarrow> lf_char \<notin> set cur \<Longrightarrow> wf_lines ls'"
proof (induction ls pref cur s rule: source_parse_loop.induct)
  case (1 ls pref cur)
  then show ?case
    by (auto simp: wf_lines_def wf_line_def list_all_iff dest: in_set_butlastD split: if_splits)
next
  case (2 ls pref cur c s)
  show ?case
  proof (cases rule: line_byte_cases [of c s])
    case crlf
    then have "c = cr_char \<and> s \<noteq> [] \<and> hd s = lf_char" by (cases s) auto
    then show ?thesis using "2.prems" by (intro "2.IH"(1)) (auto simp: wf_line_def)
  next
    case cr
    then show ?thesis using "2.prems" by (intro "2.IH"(2)) (auto simp: wf_line_def split: if_splits)
  next
    case lf
    then show ?thesis using "2.prems" by (intro "2.IH"(3)) (auto simp: wf_line_def)
  next
    case other
    then show ?thesis using "2.prems" by (intro "2.IH"(4)) (auto simp: wf_line_def)
  qed
qed

lemma source_parse_wf: "wf_lines (file_lines (source_parse s))"
proof -
  obtain ls pref where "source_parse_loop [] None [] s = (ls, pref)" by fastforce
  then show ?thesis using source_parse_loop_wf [of "[]" None "[]" s ls pref]
    by (simp add: source_parse_def)
qed

text \<open>
  splitting a file into lines and writing them back gives the same bytes, whatever mixture
  of line endings the file has; no line contains a terminator and only the last line may lack
  one.
\<close>

theorem source_file_round_trip:
  "into_contents (source_parse s) = s \<and> wf_lines (file_lines (source_parse s))"
proof -
  obtain ls pref where "source_parse_loop [] None [] s = (ls, pref)" by fastforce
  then have "into_contents (source_parse s) = s"
    using source_parse_loop_contents [of "[]" None "[]" s ls pref]
    by (simp add: source_parse_def into_contents_def)
  then show ?thesis using source_parse_wf by simp
qed

section \<open>Replacements as splices\<close>

text \<open>
  The meaning of a list of replacements on any list: from position \<open>off\<close> on, copy up to the
  start, put the new elements, skip the replaced ones.
\<close>

fun splice_from :: "('b \<Rightarrow> 'a) \<Rightarrow> nat \<Rightarrow> 'a list \<Rightarrow> (nat \<times> nat \<times> 'b list) list \<Rightarrow> 'a list" where
  "splice_from f off xs [] = xs"
| "splice_from f off xs ((s, l, new) # rs) =
     take (s - off) xs @ map f new @ splice_from f (s + l) (drop (s - off + l) xs) rs"

text \<open>Replacements in order, from \<open>off\<close> on, that do not overlap and stay within \<open>n\<close>.\<close>

fun ordered_from :: "nat \<Rightarrow> nat \<Rightarrow> (nat \<times> nat \<times> 'b list) list \<Rightarrow> bool" where
  "ordered_from off n [] \<longleftrightarrow> off \<le> n"
| "ordered_from off n ((s, l, new) # rs) \<longleftrightarrow> off \<le> s \<and> ordered_from (s + l) n rs"

lemma ordered_from_le: "ordered_from off n rs \<Longrightarrow> off \<le> n"
  by (induction off n rs rule: ordered_from.induct) auto

lemma source_replace_loop_splice:
  "ordered_from off n rs \<Longrightarrow>
     source_replace_loop e rs off rest new_lines =
       Some (new_lines @ splice_from (new_line e) off rest rs)"
proof (induction e rs off rest new_lines rule: source_replace_loop.induct)
  case (1 e source_index rest new_lines)
  then show ?case by simp
next
  case (2 e s l new rs off rest new_lines)
  then show ?case by (simp add: Let_def add.commute)
qed

lemma map_splice_from:
  "map g (splice_from f off xs rs) = splice_from (g \<circ> f) off (map g xs) rs"
  by (induction f off xs rs rule: splice_from.induct) (auto simp: take_map drop_map)

text \<open>
  for replacements in order that do not overlap, the rebuilt file exists (no panic), its
  lines are the old lines with the replaced regions exchanged for the new lines, every line is
  terminated, and a line that was not replaced keeps its ending.
\<close>

theorem source_apply_replacements_splices:
  assumes "ordered_from 0 (length (file_lines f)) rs"
  shows "\<exists>f'. source_apply_replacements f rs = Some f'
    \<and> line_texts f' = splice_from id 0 (line_texts f) rs
    \<and> file_lines f' = splice_from (new_line (preferred_ending f)) 0
        (map (terminate_line (preferred_ending f)) (file_lines f)) rs
    \<and> list_all (\<lambda>l. line_end l \<noteq> None) (file_lines f')"
proof -
  let ?e = "preferred_ending f"
  let ?f' = "f\<lparr>file_lines := map (terminate_line ?e)
    (splice_from (new_line ?e) 0 (file_lines f) rs)\<rparr>"
  have f': "source_apply_replacements f rs = Some ?f'"
    using source_replace_loop_splice [OF assms] by (simp add: source_apply_replacements_def)
  have tt: "line_text (terminate_line ?e l) = line_text l" for l
    by (simp add: terminate_line_def)
  have "terminate_line ?e \<circ> new_line ?e = new_line ?e"
    by (simp add: fun_eq_iff terminate_line_def new_line_def get_or_insert_def)
  then have ls: "file_lines ?f' = splice_from (new_line ?e) 0
      (map (terminate_line ?e) (file_lines f)) rs"
    by (simp add: map_splice_from)
  have "(\<lambda>l. line_text (terminate_line ?e l)) \<circ> new_line ?e = id"
    by (simp add: fun_eq_iff terminate_line_def new_line_def)
  then have "line_texts ?f' = splice_from id 0 (line_texts f) rs"
    using map_splice_from [of "\<lambda>l. line_text (terminate_line ?e l)" "new_line ?e" 0 "file_lines f" rs]
    by (simp add: line_texts_def comp_def tt)
  moreover have "list_all (\<lambda>l. line_end l \<noteq> None) (file_lines ?f')"
    by (auto simp: list_all_iff terminate_line_def get_or_insert_def split: option.splits)
  ultimately show ?thesis using f' ls by blast
qed

theorem source_apply_replacements_splices_witness:
  "\<exists>f'. source_apply_replacements (source_parse [CHR ''a'', cr_char, lf_char, CHR ''b''])
       [(0, 1, [''x'', ''y''])] = Some f'
     \<and> line_texts f' = [''x'', ''y'', ''b'']"
proof -
  have p: "source_parse [CHR ''a'', cr_char, lf_char, CHR ''b''] =
      \<lparr>file_lines = [\<lparr>line_text = ''a'', line_end = Some CrLf\<rparr>, \<lparr>line_text = ''b'', line_end = None\<rparr>],
       preferred_ending = CrLf\<rparr>"
    by (simp add: source_parse_def get_or_insert_def)
  show ?thesis
    using source_apply_replacements_splices
      [of "source_parse [CHR ''a'', cr_char, lf_char, CHR ''b'']" "[(0, 1, [''x'', ''y''])]"]
    by (auto simp: p line_texts_def)
qed

end
