(* ===== verification/Patch_Parser.thy ===== *)
theory Patch_Parser
  imports Patch_Types Patch_Text_File
begin

text \<open>
  Parsing a patch (\<open>codex-rs/apply-patch/src/streaming_parser.rs\<close> and \<open>parser.rs\<close>).  The
  streaming parser is a state machine over lines; the batch parser checks the first and the last
  line and feeds the text to it.

  The methods that fail do so before they change the parser, so a result \<open>Inl e\<close> stands for the
  error with the parser unchanged; \<open>push_delta\<close> and \<open>finish\<close>, which have consumed input by then,
  return the parser beside the error.
\<close>

section \<open>Markers and messages\<close>

definition BEGIN_PATCH_MARKER :: str where "BEGIN_PATCH_MARKER = ''*** Begin Patch''"
definition END_PATCH_MARKER :: str where "END_PATCH_MARKER = ''*** End Patch''"
definition ADD_FILE_MARKER :: str where "ADD_FILE_MARKER = ''*** Add File: ''"
definition DELETE_FILE_MARKER :: str where "DELETE_FILE_MARKER = ''*** Delete File: ''"
definition UPDATE_FILE_MARKER :: str where "UPDATE_FILE_MARKER = ''*** Update File: ''"
definition MOVE_TO_MARKER :: str where "MOVE_TO_MARKER = ''*** Move to: ''"
definition EOF_MARKER :: str where "EOF_MARKER = ''*** End of File''"
definition CHANGE_CONTEXT_MARKER :: str where "CHANGE_CONTEXT_MARKER = ''@@ ''"
definition EMPTY_CHANGE_CONTEXT_MARKER :: str where "EMPTY_CHANGE_CONTEXT_MARKER = ''@@''"
definition ENVIRONMENT_ID_MARKER :: str where "ENVIRONMENT_ID_MARKER = ''*** Environment ID:''"

lemmas marker_defs = BEGIN_PATCH_MARKER_def END_PATCH_MARKER_def ADD_FILE_MARKER_def
  DELETE_FILE_MARKER_def UPDATE_FILE_MARKER_def MOVE_TO_MARKER_def EOF_MARKER_def
  CHANGE_CONTEXT_MARKER_def EMPTY_CHANGE_CONTEXT_MARKER_def ENVIRONMENT_ID_MARKER_def

definition quoted :: "str \<Rightarrow> str" where
  "quoted s = [CHR 0x27] @ s @ [CHR 0x27]"

definition first_line_error :: parse_error where
  "first_line_error = InvalidPatchError (''The first line of the patch must be '' @ quoted BEGIN_PATCH_MARKER)"

definition last_line_error :: parse_error where
  "last_line_error = InvalidPatchError (''The last line of the patch must be '' @ quoted END_PATCH_MARKER)"

definition invalid_header_message :: "str \<Rightarrow> str" where
  "invalid_header_message trimmed =
     quoted trimmed @ '' is not a valid hunk header. Valid hunk headers: '' @
     quoted ''*** Add File: {path}'' @ '', '' @ quoted ''*** Delete File: {path}'' @ '', '' @
     quoted ''*** Update File: {path}''"

definition unexpected_line_message :: "str \<Rightarrow> str" where
  "unexpected_line_message line =
     ''Unexpected line found in update hunk: '' @ quoted line @ ''. Every line should start with '' @
     quoted '' '' @ '' (context line), '' @ quoted ''+'' @ '' (added line), or '' @ quoted ''-'' @
     '' (removed line)''"

definition expected_context_message :: "str \<Rightarrow> str" where
  "expected_context_message line =
     ''Expected update hunk to start with a @@ context marker, got: '' @ quoted line"

section \<open>The streaming parser\<close>

datatype parser_mode =
    NotStarted
  | StartedPatch
  | InAddFile
  | InDeleteFile
  | InUpdateFile nat
  | EndedPatch

record parser =
  line_buffer :: str
  mode :: parser_mode
  hunks :: "hunk list"
  environment_id :: "str option"
  line_number :: nat

definition parser_default :: parser where
  "parser_default = \<lparr>line_buffer = [], mode = NotStarted, hunks = [], environment_id = None,
     line_number = 0\<rparr>"

definition last_hunk :: "parser \<Rightarrow> hunk option" where
  "last_hunk p = (if hunks p = [] then None else Some (last (hunks p)))"

definition set_last_hunk :: "parser \<Rightarrow> hunk \<Rightarrow> parser" where
  "set_last_hunk p h = p\<lparr>hunks := butlast (hunks p) @ [h]\<rparr>"

definition chunk_is_empty :: "update_file_chunk \<Rightarrow> bool" where
  "chunk_is_empty c \<longleftrightarrow> old_lines c = [] \<and> new_lines c = []"

definition last_chunk_empty :: "update_file_chunk list \<Rightarrow> bool" where
  "last_chunk_empty cs \<longleftrightarrow> cs \<noteq> [] \<and> chunk_is_empty (last cs)"

definition ensure_update_hunk_is_not_empty :: "parser \<Rightarrow> str \<Rightarrow> parse_error + unit" where
  "ensure_update_hunk_is_not_empty p line =
     (case last_hunk p of
        Some (UpdateFile path _ chunks) \<Rightarrow>
          (case (chunks, mode p) of
             ([], InUpdateFile hunk_line_number) \<Rightarrow>
               Inl (InvalidHunkError (''Update file hunk for path '' @ quoted path @ '' is empty'')
                 hunk_line_number)
           | _ \<Rightarrow>
             if last_chunk_empty chunks then
               (if line = END_PATCH_MARKER
                then Inl (InvalidHunkError ''Update hunk does not contain any lines'' (line_number p))
                else Inl (InvalidHunkError (unexpected_line_message line) (line_number p)))
             else Inr ())
      | _ \<Rightarrow> Inr ())"

text \<open>The result tells whether the line was a header or the end of the patch.\<close>

definition push_hunk :: "parser \<Rightarrow> hunk \<Rightarrow> parser_mode \<Rightarrow> parser" where
  "push_hunk p h m = p\<lparr>hunks := hunks p @ [h], mode := m\<rparr>"

definition handle_environment_id :: "parser \<Rightarrow> str \<Rightarrow> parse_error + (bool \<times> parser)" where
  "handle_environment_id p raw =
     (if environment_id p \<noteq> None
      then Inl (InvalidPatchError ''apply_patch environment_id cannot be specified more than once'')
      else if trim raw = []
      then Inl (InvalidPatchError ''apply_patch environment_id cannot be empty'')
      else Inr (True, p\<lparr>environment_id := Some (trim raw)\<rparr>))"

definition handle_hunk_headers_and_end_patch :: "parser \<Rightarrow> str \<Rightarrow> parse_error + (bool \<times> parser)" where
  "handle_hunk_headers_and_end_patch p trimmed =
     (case (mode p, strip_prefix ENVIRONMENT_ID_MARKER trimmed) of
        (StartedPatch, Some raw) \<Rightarrow> handle_environment_id p raw
      | _ \<Rightarrow>
        if trimmed = END_PATCH_MARKER then
          and_then (ensure_update_hunk_is_not_empty p trimmed) (\<lambda>_.
            Inr (True, p\<lparr>mode := EndedPatch\<rparr>))
        else
          (case strip_prefix ADD_FILE_MARKER trimmed of
             Some path \<Rightarrow>
               and_then (ensure_update_hunk_is_not_empty p trimmed) (\<lambda>_.
                 Inr (True, push_hunk p (AddFile path []) InAddFile))
           | None \<Rightarrow>
          (case strip_prefix DELETE_FILE_MARKER trimmed of
             Some path \<Rightarrow>
               and_then (ensure_update_hunk_is_not_empty p trimmed) (\<lambda>_.
                 Inr (True, push_hunk p (DeleteFile path) InDeleteFile))
           | None \<Rightarrow>
          (case strip_prefix UPDATE_FILE_MARKER trimmed of
             Some path \<Rightarrow>
               and_then (ensure_update_hunk_is_not_empty p trimmed) (\<lambda>_.
                 Inr (True, push_hunk p (UpdateFile path None []) (InUpdateFile (line_number p))))
           | None \<Rightarrow> Inr (False, p)))))"

text \<open>\<open>chunks.last_mut()\<close>, after a default chunk was pushed when there was none.\<close>

definition edit_last_chunk ::
    "(update_file_chunk \<Rightarrow> update_file_chunk) \<Rightarrow> update_file_chunk list \<Rightarrow> update_file_chunk list" where
  "edit_last_chunk f chunks =
     (if chunks = [] then [f chunk_default] else butlast chunks @ [f (last chunks)])"

definition is_context_marker :: "str \<Rightarrow> bool" where
  "is_context_marker update_line \<longleftrightarrow>
     update_line = EMPTY_CHANGE_CONTEXT_MARKER \<or> starts_with update_line CHANGE_CONTEXT_MARKER"

text \<open>
  The lines of an update hunk: the new move path and chunks.  The order of the tests is the
  order of the source.
\<close>

definition process_update_line ::
    "nat \<Rightarrow> str \<Rightarrow> str option \<Rightarrow> update_file_chunk list \<Rightarrow>
       parse_error + (str option \<times> update_file_chunk list)" where
  "process_update_line n line move_path chunks =
     (let update_line = trim_end line;
          after_eof = (chunks \<noteq> [] \<and> is_end_of_file (last chunks))
      in if after_eof \<and> update_line = [] then Inr (move_path, chunks)
         else if after_eof \<and> \<not> is_context_marker update_line
         then Inl (InvalidHunkError (expected_context_message line) n)
         else if chunks = [] \<and> move_path = None \<and> starts_with update_line MOVE_TO_MARKER
         then Inr (Some (drop (length MOVE_TO_MARKER) update_line), chunks)
         else if is_context_marker update_line \<and> last_chunk_empty chunks
         then Inl (InvalidHunkError (unexpected_line_message line) n)
         else if update_line = EMPTY_CHANGE_CONTEXT_MARKER
         then Inr (move_path, chunks @ [chunk_default])
         else if starts_with update_line CHANGE_CONTEXT_MARKER
         then Inr (move_path, chunks @ [chunk_default\<lparr>change_context :=
                Some (drop (length CHANGE_CONTEXT_MARKER) update_line)\<rparr>])
         else if update_line = EOF_MARKER then
           (if last_chunk_empty chunks
            then Inl (InvalidHunkError ''Update hunk does not contain any lines'' n)
            else if chunks = [] then Inr (move_path, chunks)
            else Inr (move_path, edit_last_chunk (\<lambda>c. c\<lparr>is_end_of_file := True\<rparr>) chunks))
         else
           (case line of
              [] \<Rightarrow> Inr (move_path, edit_last_chunk (push_context_line []) chunks)
            | c # r \<Rightarrow>
                if c = CHR '' '' then Inr (move_path, edit_last_chunk (push_context_line r) chunks)
                else if c = CHR ''+'' then
                  Inr (move_path, edit_last_chunk (\<lambda>k. k\<lparr>new_lines := new_lines k @ [r]\<rparr>) chunks)
                else if c = CHR ''-'' then
                  Inr (move_path, edit_last_chunk (\<lambda>k. k\<lparr>old_lines := old_lines k @ [r]\<rparr>) chunks)
                else if chunks \<noteq> [] \<and> \<not> chunk_is_empty (last chunks)
                then Inl (InvalidHunkError (expected_context_message line) n)
                else Inl (InvalidHunkError (unexpected_line_message line) n)))"

definition process_line :: "parser \<Rightarrow> str \<Rightarrow> parse_error + parser" where
  "process_line p line =
     (let trimmed = trim line;
          invalid_header = Inl (InvalidHunkError (invalid_header_message trimmed) (line_number p))
      in case mode p of
           NotStarted \<Rightarrow>
             if trimmed = BEGIN_PATCH_MARKER then Inr (p\<lparr>mode := StartedPatch\<rparr>)
             else Inl first_line_error
         | StartedPatch \<Rightarrow>
             and_then (handle_hunk_headers_and_end_patch p trimmed) (\<lambda>(handled, p').
               if handled then Inr p' else invalid_header)
         | InAddFile \<Rightarrow>
             and_then (handle_hunk_headers_and_end_patch p trimmed) (\<lambda>(handled, p').
               if handled then Inr p'
               else (case (strip_prefix ''+'' line, last_hunk p) of
                       (Some line_to_add, Some (AddFile path contents)) \<Rightarrow>
                         Inr (set_last_hunk p (AddFile path (contents @ line_to_add @ [lf_char])))
                     | _ \<Rightarrow> invalid_header))
         | InDeleteFile \<Rightarrow>
             and_then (handle_hunk_headers_and_end_patch p trimmed) (\<lambda>(handled, p').
               if handled then Inr p' else invalid_header)
         | InUpdateFile hunk_line_number \<Rightarrow>
             and_then (handle_hunk_headers_and_end_patch p (trim_end line)) (\<lambda>(handled, p').
               if handled then Inr p'
               else (case last_hunk p of
                       Some (UpdateFile path move_path chunks) \<Rightarrow>
                         and_then (process_update_line (line_number p) line move_path chunks)
                           (\<lambda>(move_path', chunks').
                             Inr (set_last_hunk p (UpdateFile path move_path' chunks')))
                     | _ \<Rightarrow> Inl (InvalidHunkError (unexpected_line_message line) (line_number p))))
         | EndedPatch \<Rightarrow>
             if trimmed = [] then Inr p else Inl last_line_error)"

text \<open>One complete line: the buffer is taken, the line counted and processed.\<close>

definition take_line :: "parser \<Rightarrow> parser" where
  "take_line p = p\<lparr>line_buffer := [], line_number := line_number p + 1\<rparr>"

fun push_delta :: "parser \<Rightarrow> str \<Rightarrow> parser \<times> parse_error option" where
  "push_delta p [] = (p, None)"
| "push_delta p (ch # delta) =
     (if ch = lf_char then
        (case process_line (take_line p) (strip_cr (line_buffer p)) of
           Inl e \<Rightarrow> (take_line p, Some e)
         | Inr p' \<Rightarrow> push_delta p' delta)
      else push_delta (p\<lparr>line_buffer := line_buffer p @ [ch]\<rparr>) delta)"

definition finish_last_line :: "parser \<Rightarrow> parser \<times> parse_error option" where
  "finish_last_line p =
     (if line_buffer p = [] then (p, None)
      else
        let line = line_buffer p; p1 = take_line p
        in if trim line = END_PATCH_MARKER then
             (case ensure_update_hunk_is_not_empty p1 (trim line) of
                Inl e \<Rightarrow> (p1, Some e)
              | Inr _ \<Rightarrow> (p1\<lparr>mode := EndedPatch\<rparr>, None))
           else
             (case process_line p1 line of
                Inl e \<Rightarrow> (p1, Some e)
              | Inr p2 \<Rightarrow> (p2, None)))"

definition finish :: "parser \<Rightarrow> parser \<times> (parse_error + hunk list)" where
  "finish p =
     (case finish_last_line p of
        (p1, Some e) \<Rightarrow> (p1, Inl e)
      | (p1, None) \<Rightarrow>
          if mode p1 \<noteq> EndedPatch then (p1, Inl last_line_error) else (p1, Inr (hunks p1)))"

section \<open>The batch parser\<close>

definition check_start_and_end_lines_strict ::
    "str option \<Rightarrow> str option \<Rightarrow> parse_error + unit" where
  "check_start_and_end_lines_strict first_line last_line =
     (case (map_option trim first_line, map_option trim last_line) of
        (Some a, Some z) \<Rightarrow>
          if a = BEGIN_PATCH_MARKER \<and> z = END_PATCH_MARKER then Inr ()
          else if a \<noteq> BEGIN_PATCH_MARKER then Inl first_line_error
          else Inl last_line_error
      | (Some a, None) \<Rightarrow> if a \<noteq> BEGIN_PATCH_MARKER then Inl first_line_error else Inl last_line_error
      | (None, _) \<Rightarrow> Inl last_line_error)"

definition check_patch_boundaries_strict :: "str list \<Rightarrow> parse_error + str list" where
  "check_patch_boundaries_strict ls =
     (let (first_line, last_line) = (if ls = [] then (None, None) else (Some (hd ls), Some (last ls)))
      in and_then (check_start_and_end_lines_strict first_line last_line) (\<lambda>_. Inr ls))"

definition is_heredoc_start :: "str \<Rightarrow> bool" where
  "is_heredoc_start l \<longleftrightarrow>
     l = ''<<EOF'' \<or> l = ''<<'' @ quoted ''EOF'' \<or> l = ''<<'' @ [CHR 0x22] @ ''EOF'' @ [CHR 0x22]"

definition check_patch_boundaries_lenient :: "str list \<Rightarrow> parse_error + str list" where
  "check_patch_boundaries_lenient ls =
     (case check_patch_boundaries_strict ls of
        Inr ls' \<Rightarrow> Inr ls'
      | Inl original_parse_error \<Rightarrow>
          if 2 \<le> length ls \<and> is_heredoc_start (hd ls) \<and> ends_with (last ls) ''EOF'' \<and> 4 \<le> length ls
          then check_patch_boundaries_strict (butlast (tl ls))
          else Inl original_parse_error)"

record apply_patch_args =
  arg_patch :: str
  arg_hunks :: "hunk list"
  arg_workdir :: "str option"
  arg_environment_id :: "str option"

datatype parse_mode = Strict | Lenient

definition parse_patch_text :: "str \<Rightarrow> parse_mode \<Rightarrow> parse_error + apply_patch_args" where
  "parse_patch_text patch m =
     and_then (case m of
         Strict \<Rightarrow> check_patch_boundaries_strict (str_lines (trim patch))
       | Lenient \<Rightarrow> check_patch_boundaries_lenient (str_lines (trim patch)))
       (\<lambda>patch_lines.
         let text = join_with [lf_char] patch_lines
         in case push_delta parser_default text of
              (p, Some e) \<Rightarrow> Inl e
            | (p, None) \<Rightarrow>
                (case finish p of
                   (p', Inl e) \<Rightarrow> Inl e
                 | (p', Inr hs) \<Rightarrow>
                     Inr \<lparr>arg_patch = text, arg_hunks = hs, arg_workdir = None,
                          arg_environment_id = environment_id p'\<rparr>))"

definition parse_patch :: "str \<Rightarrow> parse_error + apply_patch_args" where
  "parse_patch patch = parse_patch_text patch Lenient"

section \<open>The invariant of the parser\<close>

fun hunk_complete :: "hunk \<Rightarrow> bool" where
  "hunk_complete (UpdateFile _ _ cs) \<longleftrightarrow> cs \<noteq> [] \<and> list_all (\<lambda>c. \<not> chunk_is_empty c) cs"
| "hunk_complete h \<longleftrightarrow> True"

fun hunk_open :: "hunk \<Rightarrow> bool" where
  "hunk_open (UpdateFile _ _ cs) \<longleftrightarrow> list_all (\<lambda>c. \<not> chunk_is_empty c) (butlast cs)"
| "hunk_open h \<longleftrightarrow> True"

fun hunk_wf :: "hunk \<Rightarrow> bool" where
  "hunk_wf (UpdateFile _ _ cs) \<longleftrightarrow> list_all wf_chunk cs"
| "hunk_wf h \<longleftrightarrow> True"

definition mode_agrees :: "parser_mode \<Rightarrow> hunk list \<Rightarrow> bool" where
  "mode_agrees m hs \<longleftrightarrow>
     (case m of
        NotStarted \<Rightarrow> hs = []
      | StartedPatch \<Rightarrow> hs = []
      | InAddFile \<Rightarrow> hs \<noteq> [] \<and> (\<exists>path contents. last hs = AddFile path contents)
      | InDeleteFile \<Rightarrow> hs \<noteq> [] \<and> (\<exists>path. last hs = DeleteFile path)
      | InUpdateFile _ \<Rightarrow> hs \<noteq> [] \<and> (\<exists>path mv cs. last hs = UpdateFile path mv cs)
      | EndedPatch \<Rightarrow> list_all hunk_complete hs)"

definition wf_parser :: "parser \<Rightarrow> bool" where
  "wf_parser p \<longleftrightarrow>
     list_all hunk_complete (butlast (hunks p)) \<and> list_all hunk_wf (hunks p)
   \<and> (hunks p \<noteq> [] \<longrightarrow> hunk_open (last (hunks p))) \<and> mode_agrees (mode p) (hunks p)"

lemma wf_parser_default: "wf_parser parser_default"
  by (simp add: wf_parser_def parser_default_def mode_agrees_def)

lemma list_all_butlast_last: "xs \<noteq> [] \<Longrightarrow> list_all P xs \<longleftrightarrow> list_all P (butlast xs) \<and> P (last xs)"
  by (cases xs rule: rev_cases) auto

lemma ensure_complete:
  assumes "wf_parser p" and "ensure_update_hunk_is_not_empty p line = Inr ()"
  shows "list_all hunk_complete (hunks p)"
proof (cases "hunks p = []")
  case False
  have "hunk_complete (last (hunks p))"
  proof (cases "last (hunks p)")
    case (UpdateFile path mv cs)
    show ?thesis
    proof (cases "mode p")
      case (InUpdateFile n)
      then have "cs \<noteq> [] \<and> \<not> last_chunk_empty cs"
        using assms(2) False UpdateFile
        by (auto simp: ensure_update_hunk_is_not_empty_def last_hunk_def split: list.splits if_splits)
      then show ?thesis
        using assms(1) False UpdateFile
        by (auto simp: wf_parser_def last_chunk_empty_def list_all_butlast_last [of cs])
    next
      case EndedPatch
      then show ?thesis
        using assms(1) False by (simp add: wf_parser_def mode_agrees_def list_all_butlast_last)
    qed (use assms(1) False UpdateFile in \<open>auto simp: wf_parser_def mode_agrees_def\<close>)
  qed simp_all
  then show ?thesis
    using assms(1) False by (simp add: wf_parser_def list_all_butlast_last [of "hunks p"])
qed simp

lemma wf_push_hunk:
  assumes "wf_parser p" and "ensure_update_hunk_is_not_empty p line = Inr ()"
    and "hunk_open h" and "hunk_wf h" and "mode_agrees m (hunks p @ [h])"
  shows "wf_parser (push_hunk p h m)"
  using ensure_complete [OF assms(1,2)] assms by (simp add: wf_parser_def push_hunk_def)

lemma wf_end_patch:
  assumes "wf_parser p" and "ensure_update_hunk_is_not_empty p line = Inr ()"
  shows "wf_parser (p\<lparr>mode := EndedPatch\<rparr>)"
  using ensure_complete [OF assms] assms(1) by (simp add: wf_parser_def mode_agrees_def)

lemma wf_handle_hunk_headers:
  assumes "wf_parser p" and "handle_hunk_headers_and_end_patch p t = Inr (b, p')"
  shows "wf_parser p' \<and> (\<not> b \<longrightarrow> p' = p)"
proof -
  have env: "wf_parser (p\<lparr>environment_id := e\<rparr>)" for e
    using assms(1) by (simp add: wf_parser_def)
  have push: "wf_parser (push_hunk p h m)"
    if "ensure_update_hunk_is_not_empty p t = Inr ()" "hunk_open h" "hunk_wf h"
      "mode_agrees m (hunks p @ [h])" for h m
    by (rule wf_push_hunk [OF assms(1)]) fact+
  show ?thesis
    using assms env push wf_end_patch [OF assms(1)]
    by (auto simp: handle_hunk_headers_and_end_patch_def handle_environment_id_def mode_agrees_def
        split: parser_mode.splits option.splits if_splits)
qed

lemma edit_last_chunk_wf:
  assumes "list_all wf_chunk cs" and "\<And>c. wf_chunk c \<Longrightarrow> wf_chunk (f c)"
    and "list_all (\<lambda>c. \<not> chunk_is_empty c) (butlast cs)"
  shows "list_all wf_chunk (edit_last_chunk f cs)
    \<and> list_all (\<lambda>c. \<not> chunk_is_empty c) (butlast (edit_last_chunk f cs))"
proof (cases "cs = []")
  case True
  have "wf_chunk chunk_default" by (simp add: wf_chunk_def chunk_default_def indices_ascending_def)
  then show ?thesis using True assms(2) by (simp add: edit_last_chunk_def)
next
  case False
  then show ?thesis
    using assms by (simp add: edit_last_chunk_def list_all_butlast_last [of cs])
qed

lemma append_chunk_wf:
  assumes "list_all wf_chunk cs" and "list_all (\<lambda>c. \<not> chunk_is_empty c) (butlast cs)"
    and "\<not> last_chunk_empty cs" and "wf_chunk c"
  shows "list_all wf_chunk (cs @ [c]) \<and> list_all (\<lambda>c. \<not> chunk_is_empty c) (butlast (cs @ [c]))"
  using assms by (cases "cs = []") (auto simp: last_chunk_empty_def list_all_butlast_last [of cs])

lemma process_update_line_shape:
  assumes "process_update_line n line mv cs = Inr (mv', cs')"
  shows "cs' = cs
    \<or> (\<not> last_chunk_empty cs \<and> (\<exists>ctx. cs' = cs @ [chunk_default\<lparr>change_context := ctx\<rparr>]))
    \<or> cs' = edit_last_chunk (\<lambda>c. c\<lparr>is_end_of_file := True\<rparr>) cs
    \<or> (\<exists>r. cs' = edit_last_chunk (push_context_line r) cs
        \<or> cs' = edit_last_chunk (\<lambda>k. k\<lparr>new_lines := new_lines k @ [r]\<rparr>) cs
        \<or> cs' = edit_last_chunk (\<lambda>k. k\<lparr>old_lines := old_lines k @ [r]\<rparr>) cs)"
proof -
  have default: "chunk_default = chunk_default\<lparr>change_context := None\<rparr>"
    by (simp add: chunk_default_def)
  show ?thesis
    using assms default
    by (simp add: process_update_line_def Let_def is_context_marker_def split: if_splits list.splits)
       blast+
qed

lemma process_update_line_wf:
  assumes "process_update_line n line mv cs = Inr (mv', cs')"
    and wf: "list_all wf_chunk cs" and op: "list_all (\<lambda>c. \<not> chunk_is_empty c) (butlast cs)"
  shows "list_all wf_chunk cs' \<and> list_all (\<lambda>c. \<not> chunk_is_empty c) (butlast cs')"
  using process_update_line_shape [OF assms(1)] wf op
  by (auto intro!: wf_intros edit_last_chunk_wf append_chunk_wf del: conjI)

lemma wf_set_last_hunk:
  assumes "wf_parser p" and "hunks p \<noteq> []" and "hunk_wf h" and "hunk_open h"
    and "mode_agrees (mode p) (butlast (hunks p) @ [h])"
  shows "wf_parser (set_last_hunk p h)"
  using assms list_all_butlast_last [of "hunks p" hunk_wf]
  by (simp add: wf_parser_def set_last_hunk_def)

lemma process_line_wf:
  assumes "wf_parser p" and "process_line p line = Inr p'"
  shows "wf_parser p'"
proof (cases "mode p")
  case InAddFile
  then show ?thesis
    using assms wf_handle_hunk_headers [OF assms(1)]
    by (auto simp: process_line_def Let_def last_hunk_def mode_agrees_def
        intro!: wf_set_last_hunk split: sum.splits if_splits option.splits hunk.splits)
next
  case (InUpdateFile n)
  then obtain path mv cs where h: "hunks p \<noteq> []" "last (hunks p) = UpdateFile path mv cs"
    using assms(1) by (auto simp: wf_parser_def mode_agrees_def)
  then have wf: "list_all wf_chunk cs" "list_all (\<lambda>c. \<not> chunk_is_empty c) (butlast cs)"
    using assms(1) list_all_butlast_last [of "hunks p" hunk_wf] by (auto simp: wf_parser_def)
  have "wf_parser (set_last_hunk p (UpdateFile path mv' cs'))"
    if "process_update_line (line_number p) line mv cs = Inr (mv', cs')" for mv' cs'
    using process_update_line_wf [OF that wf] InUpdateFile h(1)
    by (intro wf_set_last_hunk assms(1)) (auto simp: mode_agrees_def)
  then show ?thesis
    using assms InUpdateFile h wf_handle_hunk_headers [OF assms(1)]
    by (auto simp: process_line_def Let_def last_hunk_def split: sum.splits if_splits)
qed (use assms wf_handle_hunk_headers [OF assms(1)] in
    \<open>auto simp: process_line_def Let_def wf_parser_def mode_agrees_def
       split: sum.splits if_splits\<close>)

lemma take_line_wf: "wf_parser (take_line p) \<longleftrightarrow> wf_parser p"
  by (simp add: take_line_def wf_parser_def)

lemma buffer_wf: "wf_parser (p\<lparr>line_buffer := b\<rparr>) \<longleftrightarrow> wf_parser p"
  by (simp add: wf_parser_def)

lemma push_delta_wf: "wf_parser p \<Longrightarrow> wf_parser (fst (push_delta p delta))"
proof (induction p delta rule: push_delta.induct)
  case (2 p ch delta)
  then show ?case
    using process_line_wf [of "take_line p"] by (auto simp: take_line_wf buffer_wf split: sum.splits)
qed simp

lemma finish_last_line_wf: "wf_parser p \<Longrightarrow> wf_parser (fst (finish_last_line p))"
  using wf_end_patch [of "take_line p"] process_line_wf [of "take_line p"]
  by (auto simp: finish_last_line_def Let_def take_line_wf split: sum.splits)

lemma finish_complete:
  assumes "wf_parser p" and "finish p = (p', Inr hs)"
  shows "list_all hunk_complete hs \<and> list_all hunk_wf hs"
  using assms finish_last_line_wf [OF assms(1)]
  by (auto simp: finish_def wf_parser_def mode_agrees_def split: prod.splits option.splits if_splits)

section \<open>Properties\<close>

text \<open>
  how the patch text is cut into deltas does not matter: pushing two deltas one after the
  other is pushing their concatenation, and the second is not looked at after an error.
\<close>

theorem push_delta_append:
  "push_delta p (a @ b) =
     (case push_delta p a of (p', None) \<Rightarrow> push_delta p' b | (p', Some e) \<Rightarrow> (p', Some e))"
  by (induction p a rule: push_delta.induct) (auto split: sum.splits)

lemma parse_patch_text_finish:
  assumes "parse_patch_text patch m = Inr args"
  shows "\<exists>t p p'. push_delta parser_default t = (p, None) \<and> finish p = (p', Inr (arg_hunks args))"
proof -
  obtain ls where ls: "(case push_delta parser_default (join_with [lf_char] ls) of
      (p, Some e) \<Rightarrow> Inl e
    | (p, None) \<Rightarrow>
        (case finish p of
           (p', Inl e) \<Rightarrow> Inl e
         | (p', Inr hs) \<Rightarrow>
             Inr \<lparr>arg_patch = join_with [lf_char] ls, arg_hunks = hs, arg_workdir = None,
                  arg_environment_id = environment_id p'\<rparr>)) = Inr args"
    using assms unfolding parse_patch_text_def Let_def and_then_Inr_iff by blast
  obtain p e where p: "push_delta parser_default (join_with [lf_char] ls) = (p, e)"
    by fastforce
  moreover obtain p' r where "finish p = (p', r)" by fastforce
  ultimately show ?thesis using ls by (cases e; cases r; force)
qed

lemma parse_patch_text_hunks:
  assumes "parse_patch_text patch m = Inr args"
  shows "list_all hunk_complete (arg_hunks args) \<and> list_all hunk_wf (arg_hunks args)"
proof -
  obtain t p p' where t: "push_delta parser_default t = (p, None)" "finish p = (p', Inr (arg_hunks args))"
    using parse_patch_text_finish [OF assms] by blast
  then have "wf_parser p" using push_delta_wf [OF wf_parser_default, of t] by simp
  then show ?thesis using finish_complete t(2) by blast
qed

text \<open>
  C26: a patch that parses is applicable: every update hunk has a chunk, no chunk is without lines,
  and the context line indices that the parser records point, in ascending order, to equal lines
  of the old and the new side of their chunk.
\<close>

theorem parse_patch_hunks_wf:
  assumes "parse_patch patch = Inr args"
  shows "list_all hunk_complete (arg_hunks args) \<and> list_all hunk_wf (arg_hunks args)"
  using assms parse_patch_text_hunks unfolding parse_patch_def by blast

definition sample_source :: str where
  "sample_source = join_with [lf_char]
     [''*** Begin Patch'', ''*** Update File: a'', ''@@'', '' k'', ''-o'', ''+n'', ''*** End Patch'']"

definition sample_args :: apply_patch_args where
  "sample_args = \<lparr>arg_patch = sample_source,
     arg_hunks = [UpdateFile ''a'' None
       [\<lparr>change_context = None, old_lines = [''k'', ''o''], new_lines = [''k'', ''n''],
          context_line_indices = [(0, 0)], is_end_of_file = False\<rparr>]],
     arg_workdir = None, arg_environment_id = None\<rparr>"

theorem parse_patch_hunks_wf_witness:
  "parse_patch sample_source = Inr sample_args
   \<and> list_all hunk_complete (arg_hunks sample_args) \<and> list_all hunk_wf (arg_hunks sample_args)"
proof -
  have "parse_patch sample_source = Inr sample_args" by code_simp
  then show ?thesis using parse_patch_hunks_wf by blast
qed

end
