(* ===== verification/Patch_Grammar.thy ===== *)
theory Patch_Grammar
  imports Patch_Parser
begin

text \<open>
  The patch language as its documentation gives it (the grammar at the head of
  \<open>apply-patch/src/parser.rs\<close>): an abstract syntax of patches, its text and the hunks it denotes.
  The parser reads back exactly what the grammar says.
\<close>

section \<open>Abstract syntax and its text\<close>

datatype change_line = Context str | Added str | Removed str

datatype change_chunk = Chunk (chunk_ctx: "str option") (chunk_body: "change_line list") (chunk_eof: bool)

datatype patch_hunk =
    Add str "str list"
  | Delete str
  | Update str "str option" "change_chunk list"

fun change_line_text :: "change_line \<Rightarrow> str" where
  "change_line_text (Context l) = CHR '' '' # l"
| "change_line_text (Added l) = CHR ''+'' # l"
| "change_line_text (Removed l) = CHR ''-'' # l"

fun chunk_text :: "change_chunk \<Rightarrow> str list" where
  "chunk_text (Chunk ctx body eof) =
     (case ctx of None \<Rightarrow> EMPTY_CHANGE_CONTEXT_MARKER | Some c \<Rightarrow> CHANGE_CONTEXT_MARKER @ c)
     # map change_line_text body @ (if eof then [EOF_MARKER] else [])"

fun hunk_text :: "patch_hunk \<Rightarrow> str list" where
  "hunk_text (Add path contents) = (ADD_FILE_MARKER @ path) # map (Cons (CHR ''+'')) contents"
| "hunk_text (Delete path) = [DELETE_FILE_MARKER @ path]"
| "hunk_text (Update path mv chunks) =
     (UPDATE_FILE_MARKER @ path)
     # (case mv of None \<Rightarrow> [] | Some m \<Rightarrow> [MOVE_TO_MARKER @ m]) @ concat (map chunk_text chunks)"

definition env_text :: "str option \<Rightarrow> str list" where
  "env_text env = (case env of None \<Rightarrow> [] | Some e \<Rightarrow> [ENVIRONMENT_ID_MARKER @ '' '' @ e])"

definition patch_text :: "str option \<Rightarrow> patch_hunk list \<Rightarrow> str list" where
  "patch_text env hs =
     BEGIN_PATCH_MARKER # env_text env @ concat (map hunk_text hs) @ [END_PATCH_MARKER]"

section \<open>The hunks a patch denotes\<close>

fun add_change_line :: "change_line \<Rightarrow> update_file_chunk \<Rightarrow> update_file_chunk" where
  "add_change_line (Context l) c = push_context_line l c"
| "add_change_line (Added l) c = c\<lparr>new_lines := new_lines c @ [l]\<rparr>"
| "add_change_line (Removed l) c = c\<lparr>old_lines := old_lines c @ [l]\<rparr>"

fun chunk_meaning :: "change_chunk \<Rightarrow> update_file_chunk" where
  "chunk_meaning (Chunk ctx body eof) =
     (fold add_change_line body (chunk_default\<lparr>change_context := ctx\<rparr>))\<lparr>is_end_of_file := eof\<rparr>"

fun hunk_meaning :: "patch_hunk \<Rightarrow> hunk" where
  "hunk_meaning (Add path contents) = AddFile path (concat (map (\<lambda>l. l @ [lf_char]) contents))"
| "hunk_meaning (Delete path) = DeleteFile path"
| "hunk_meaning (Update path mv chunks) = UpdateFile path mv (map chunk_meaning chunks)"

section \<open>Well-formed patches\<close>

definition line_ok :: "str \<Rightarrow> bool" where
  "line_ok l \<longleftrightarrow> lf_char \<notin> set l \<and> (l = [] \<or> last l \<noteq> cr_char)"

definition name_ok :: "str \<Rightarrow> bool" where
  "name_ok p \<longleftrightarrow> p \<noteq> [] \<and> lf_char \<notin> set p \<and> trim_end p = p"

fun change_line_ok :: "change_line \<Rightarrow> bool" where
  "change_line_ok (Context l) \<longleftrightarrow> line_ok l"
| "change_line_ok (Added l) \<longleftrightarrow> line_ok l"
| "change_line_ok (Removed l) \<longleftrightarrow> line_ok l"

fun chunk_ok :: "change_chunk \<Rightarrow> bool" where
  "chunk_ok (Chunk ctx body eof) \<longleftrightarrow> pred_option name_ok ctx \<and> body \<noteq> [] \<and> list_all change_line_ok body"

fun patch_hunk_ok :: "patch_hunk \<Rightarrow> bool" where
  "patch_hunk_ok (Add path contents) \<longleftrightarrow> name_ok path \<and> list_all line_ok contents"
| "patch_hunk_ok (Delete path) \<longleftrightarrow> name_ok path"
| "patch_hunk_ok (Update path mv chunks) \<longleftrightarrow>
     name_ok path \<and> pred_option name_ok mv \<and> chunks \<noteq> [] \<and> list_all chunk_ok chunks"

definition env_ok :: "str option \<Rightarrow> bool" where
  "env_ok env \<longleftrightarrow> pred_option (\<lambda>e. name_ok e \<and> trim e = e) env"

section \<open>Feeding whole lines\<close>

fun feed_lines :: "parser \<Rightarrow> str list \<Rightarrow> parse_error + parser" where
  "feed_lines p [] = Inr p"
| "feed_lines p (l # ls) = and_then (process_line (take_line p) l) (\<lambda>p'. feed_lines p' ls)"

lemma feed_lines_append:
  "feed_lines p (a @ b) = and_then (feed_lines p a) (\<lambda>p'. feed_lines p' b)"
proof (induction a arbitrary: p)
  case (Cons l a)
  then show ?case by (cases "process_line (take_line p) l") auto
qed simp

lemma strip_cr_ok: "line_ok l \<Longrightarrow> strip_cr l = l"
proof -
  assume "line_ok l"
  then have "strip_suffix [cr_char] l = None"
    by (cases "strip_suffix [cr_char] l") (auto simp: strip_suffix_Some_iff line_ok_def)
  then show ?thesis by (simp add: strip_cr_def)
qed

lemma process_line_buffer:
  assumes "process_line p l = Inr p'"
  shows "line_buffer p' = line_buffer p"
  using assms
  by (auto simp: process_line_def Let_def handle_hunk_headers_and_end_patch_def
      handle_environment_id_def push_hunk_def set_last_hunk_def
      split: parser_mode.splits option.splits if_splits hunk.splits)

lemma push_delta_chars:
  "lf_char \<notin> set a \<Longrightarrow> push_delta p (a @ b) = push_delta (p\<lparr>line_buffer := line_buffer p @ a\<rparr>) b"
proof (induction a arbitrary: p)
  case (Cons c a)
  then show ?case by auto
qed simp

text \<open>Pushing complete lines and an unfinished last one.\<close>

lemma push_delta_lines:
  assumes "list_all line_ok ls" and "lf_char \<notin> set z" and "line_buffer p = []"
    and "feed_lines p ls = Inr p'"
  shows "push_delta p (join_with [lf_char] (ls @ [z])) = (p'\<lparr>line_buffer := z\<rparr>, None)"
  using assms
proof (induction ls arbitrary: p)
  case Nil
  then show ?case using push_delta_chars [of z p "[]"] by simp
next
  case (Cons l ls)
  then obtain p1 where p1: "process_line (take_line p) l = Inr p1" "feed_lines p1 ls = Inr p'"
    by auto
  have join: "join_with [lf_char] ((l # ls) @ [z]) = l @ lf_char # join_with [lf_char] (ls @ [z])"
    by (cases ls) auto
  have lf: "lf_char \<notin> set l" using Cons.prems by (simp add: line_ok_def)
  have take: "take_line (p\<lparr>line_buffer := l\<rparr>) = take_line p" by (simp add: take_line_def)
  have "line_buffer p1 = []"
    using process_line_buffer [OF p1(1)] by (simp add: take_line_def)
  then show ?case
    using Cons p1 by (simp only: join push_delta_chars [OF lf]) (simp add: take strip_cr_ok)
qed

section \<open>The parser on the text of a hunk\<close>

lemma ensure_ok:
  assumes "list_all hunk_complete (hunks p)"
  shows "ensure_update_hunk_is_not_empty p l = Inr ()"
proof (cases "hunks p = []")
  case False
  then have "hunk_complete (last (hunks p))"
    using assms by (simp add: list_all_butlast_last [of "hunks p"])
  then have "last (hunks p) = UpdateFile path mv cs \<Longrightarrow> cs \<noteq> [] \<and> \<not> last_chunk_empty cs" for path mv cs
    using list_all_butlast_last [of cs "\<lambda>c. \<not> chunk_is_empty c"] by (simp add: last_chunk_empty_def)
  then show ?thesis
    using False
    by (auto simp: ensure_update_hunk_is_not_empty_def last_hunk_def split: hunk.splits list.splits)
qed (simp add: ensure_update_hunk_is_not_empty_def last_hunk_def)

lemma trim_header:
  assumes "name_ok path"
  shows "trim_end (ADD_FILE_MARKER @ path) = ADD_FILE_MARKER @ path"
    and "trim_end (DELETE_FILE_MARKER @ path) = DELETE_FILE_MARKER @ path"
    and "trim_end (UPDATE_FILE_MARKER @ path) = UPDATE_FILE_MARKER @ path"
    and "trim_end (MOVE_TO_MARKER @ path) = MOVE_TO_MARKER @ path"
    and "trim_end (CHANGE_CONTEXT_MARKER @ path) = CHANGE_CONTEXT_MARKER @ path"
  using assms trim_end_after_space [of path "''*** Add File:''"]
    trim_end_after_space [of path "''*** Delete File:''"]
    trim_end_after_space [of path "''*** Update File:''"]
    trim_end_after_space [of path "''*** Move to:''"] trim_end_after_space [of path "''@@''"]
  by (simp_all add: name_ok_def marker_defs)

lemma ws_len_ascii:
  assumes "c \<in> {CHR ''*'', CHR ''+'', CHR ''@''}"
  shows "ws_len (c # s) = 0"
proof -
  have "\<not> is_ws_byte c" "\<not> is_ws2 c x" "\<not> is_ws3 c x y" for x y
    using assms by (auto simp: is_ws_byte_def is_ws2_def is_ws3_def byte_val_def)
  then show ?thesis by (cases "c # s" rule: ws_len.cases) auto
qed

lemma trim_ascii: "c \<in> {CHR ''*'', CHR ''+'', CHR ''@''} \<Longrightarrow> trim (c # s) = trim_end (c # s)"
  by (simp only: trim_def trim_start_id [OF ws_len_ascii])

lemma trim_star: "hd s = CHR ''*'' \<Longrightarrow> s \<noteq> [] \<Longrightarrow> trim s = trim_end s"
  using trim_ascii [of "CHR ''*''" "tl s"] by (cases s) auto

lemma trim_header_full:
  assumes "name_ok path"
  shows "trim (ADD_FILE_MARKER @ path) = ADD_FILE_MARKER @ path"
    and "trim (DELETE_FILE_MARKER @ path) = DELETE_FILE_MARKER @ path"
    and "trim (UPDATE_FILE_MARKER @ path) = UPDATE_FILE_MARKER @ path"
  using trim_header [OF assms] trim_star [of "ADD_FILE_MARKER @ path"]
    trim_star [of "DELETE_FILE_MARKER @ path"] trim_star [of "UPDATE_FILE_MARKER @ path"]
  by (simp_all add: marker_defs)

definition in_patch :: "parser \<Rightarrow> bool" where
  "in_patch p \<longleftrightarrow> mode p \<noteq> NotStarted \<and> mode p \<noteq> EndedPatch"

lemma handle_header:
  assumes "list_all hunk_complete (hunks p)"
  shows "handle_hunk_headers_and_end_patch p (ADD_FILE_MARKER @ path)
           = Inr (True, push_hunk p (AddFile path []) InAddFile)"
    and "handle_hunk_headers_and_end_patch p (DELETE_FILE_MARKER @ path)
           = Inr (True, push_hunk p (DeleteFile path) InDeleteFile)"
    and "handle_hunk_headers_and_end_patch p (UPDATE_FILE_MARKER @ path)
           = Inr (True, push_hunk p (UpdateFile path None []) (InUpdateFile (line_number p)))"
    and "handle_hunk_headers_and_end_patch p END_PATCH_MARKER = Inr (True, p\<lparr>mode := EndedPatch\<rparr>)"
  by (simp_all add: handle_hunk_headers_and_end_patch_def ensure_ok [OF assms] marker_defs
      strip_prefix_def split: parser_mode.split)

lemma process_header:
  assumes "in_patch p" and "list_all hunk_complete (hunks p)" and "name_ok path"
  shows "process_line p (ADD_FILE_MARKER @ path) = Inr (push_hunk p (AddFile path []) InAddFile)"
    and "process_line p (DELETE_FILE_MARKER @ path) = Inr (push_hunk p (DeleteFile path) InDeleteFile)"
    and "process_line p (UPDATE_FILE_MARKER @ path)
           = Inr (push_hunk p (UpdateFile path None []) (InUpdateFile (line_number p)))"
  using assms(1)
  by (cases "mode p"; simp add: process_line_def Let_def in_patch_def trim_header [OF assms(3)]
      trim_header_full [OF assms(3)] handle_header [OF assms(2)])+

text \<open>A line that does not start like a marker is no header.\<close>

lemma handle_no_header:
  assumes "t = [] \<or> hd t \<noteq> CHR ''*''"
  shows "handle_hunk_headers_and_end_patch p t = Inr (False, p)"
  using assms
  by (cases t) (auto simp: handle_hunk_headers_and_end_patch_def marker_defs strip_prefix_def
      split: parser_mode.split)

lemma process_added_line:
  assumes "mode p = InAddFile" and "hunks p = hs @ [AddFile path c]"
  shows "process_line p (CHR ''+'' # l) = Inr (set_last_hunk p (AddFile path (c @ l @ [lf_char])))"
proof -
  have "trim (CHR ''+'' # l) = [] \<or> hd (trim (CHR ''+'' # l)) \<noteq> CHR ''*''"
    using trim_end_head [of "CHR ''+''" l] trim_ascii [of "CHR ''+''" l] by auto
  then show ?thesis
    using assms by (simp add: process_line_def Let_def handle_no_header last_hunk_def strip_prefix_def)
qed

lemma feed_added_lines:
  assumes "mode p = InAddFile" and "hunks p = hs @ [AddFile path c]" and "line_buffer p = []"
  shows "\<exists>p'. feed_lines p (map (Cons (CHR ''+'')) ls) = Inr p' \<and> mode p' = InAddFile
    \<and> hunks p' = hs @ [AddFile path (c @ concat (map (\<lambda>l. l @ [lf_char]) ls))]
    \<and> environment_id p' = environment_id p \<and> line_buffer p' = []"
  using assms
proof (induction ls arbitrary: p c)
  case (Cons l ls)
  let ?p1 = "set_last_hunk (take_line p) (AddFile path (c @ l @ [lf_char]))"
  have "process_line (take_line p) (CHR ''+'' # l) = Inr ?p1"
    using Cons.prems by (intro process_added_line) (simp_all add: take_line_def)
  then show ?case
    using Cons.IH [of ?p1 "c @ l @ [lf_char]"] Cons.prems by (simp add: set_last_hunk_def take_line_def)
qed simp

text \<open>The lines of an update hunk.\<close>

definition in_update :: "parser \<Rightarrow> hunk list \<Rightarrow> str \<Rightarrow> str option \<Rightarrow> update_file_chunk list \<Rightarrow> bool" where
  "in_update p hs path mv cs \<longleftrightarrow>
     (\<exists>n. mode p = InUpdateFile n) \<and> hunks p = hs @ [UpdateFile path mv cs] \<and> line_buffer p = []"

lemma feed_update_line:
  assumes "in_update p hs path mv cs"
    and "handle_hunk_headers_and_end_patch (take_line p) (trim_end l) = Inr (False, take_line p)"
    and "process_update_line (line_number p + 1) l mv cs = Inr (mv', cs')"
  shows "\<exists>p'. process_line (take_line p) l = Inr p' \<and> in_update p' hs path mv' cs'
    \<and> environment_id p' = environment_id p"
  using assms
  by (auto simp: in_update_def process_line_def Let_def take_line_def last_hunk_def set_last_hunk_def)

lemma no_header_move:
  "handle_hunk_headers_and_end_patch p (MOVE_TO_MARKER @ m) = Inr (False, p)"
  "handle_hunk_headers_and_end_patch p EOF_MARKER = Inr (False, p)"
  by (simp_all add: handle_hunk_headers_and_end_patch_def marker_defs strip_prefix_def
      split: parser_mode.split)

lemma trim_fixed_markers:
  "trim_end EOF_MARKER = EOF_MARKER" "trim_end EMPTY_CHANGE_CONTEXT_MARKER = EMPTY_CHANGE_CONTEXT_MARKER"
  by (simp_all add: trim_end_fixed_iff marker_defs is_ws_byte_def is_ws2_def is_ws3_def byte_val_def)

lemma update_move:
  assumes "name_ok m"
  shows "process_update_line n (MOVE_TO_MARKER @ m) None [] = Inr (Some m, [])"
  by (simp add: process_update_line_def trim_header [OF assms] starts_with_def)

definition context_text :: "str option \<Rightarrow> str" where
  "context_text ctx =
     (case ctx of None \<Rightarrow> EMPTY_CHANGE_CONTEXT_MARKER | Some c \<Rightarrow> CHANGE_CONTEXT_MARKER @ c)"

lemma chunk_text_context:
  "chunk_text (Chunk ctx body eof) =
     context_text ctx # map change_line_text body @ (if eof then [EOF_MARKER] else [])"
  by (simp add: context_text_def)

lemma trim_context: "pred_option name_ok ctx \<Longrightarrow> trim_end (context_text ctx) = context_text ctx"
  by (cases ctx) (simp_all add: context_text_def trim_header trim_fixed_markers)

lemma update_context:
  assumes "pred_option name_ok ctx" and "\<not> last_chunk_empty cs"
  shows "process_update_line n (context_text ctx) mv cs =
     Inr (mv, cs @ [chunk_default\<lparr>change_context := ctx\<rparr>])"
proof -
  have "context_text ctx \<noteq> []" "\<not> starts_with (context_text ctx) MOVE_TO_MARKER"
    by (simp_all add: context_text_def marker_defs starts_with_def split: option.split)
  moreover have "chunk_default\<lparr>change_context := None\<rparr> = chunk_default"
    by (simp add: chunk_default_def)
  moreover have "is_context_marker (context_text ctx)"
    by (cases ctx) (simp_all add: context_text_def is_context_marker_def starts_with_def)
  moreover have "ctx = Some c \<Longrightarrow> context_text ctx \<noteq> EMPTY_CHANGE_CONTEXT_MARKER
      \<and> starts_with (context_text ctx) CHANGE_CONTEXT_MARKER
      \<and> drop (length CHANGE_CONTEXT_MARKER) (context_text ctx) = c" for c
    by (simp add: context_text_def marker_defs starts_with_def)
  moreover have "ctx = None \<Longrightarrow> context_text ctx = EMPTY_CHANGE_CONTEXT_MARKER"
    by (simp add: context_text_def)
  ultimately show ?thesis
    using assms trim_context [OF assms(1)]
    by (cases ctx) (simp_all add: process_update_line_def Let_def)
qed

lemma update_body_line:
  assumes "cs \<noteq> []" and "\<not> is_end_of_file (last cs)"
  shows "process_update_line n (change_line_text l) mv cs =
     Inr (mv, edit_last_chunk (add_change_line l) cs)"
proof -
  obtain c r where c: "change_line_text l = c # r" "c \<in> {CHR '' '', CHR ''+'', CHR ''-''}"
    by (cases l) auto
  then have t: "t \<noteq> EMPTY_CHANGE_CONTEXT_MARKER" "\<not> starts_with t CHANGE_CONTEXT_MARKER" "t \<noteq> EOF_MARKER"
    if "t = trim_end (change_line_text l)" for t
    using that trim_end_head [of c r] by (auto simp: marker_defs starts_with_def)
  show ?thesis
    using assms t [OF refl]
    by (cases l) (simp_all add: process_update_line_def Let_def is_context_marker_def
        add_change_line.simps [abs_def])
qed

lemma update_eof:
  assumes "cs \<noteq> []" and "\<not> is_end_of_file (last cs)" and "\<not> last_chunk_empty cs"
  shows "process_update_line n EOF_MARKER mv cs =
     Inr (mv, edit_last_chunk (\<lambda>c. c\<lparr>is_end_of_file := True\<rparr>) cs)"
proof -
  have "EOF_MARKER \<noteq> EMPTY_CHANGE_CONTEXT_MARKER" "\<not> starts_with EOF_MARKER CHANGE_CONTEXT_MARKER"
    by (simp_all add: marker_defs starts_with_def)
  then show ?thesis
    using assms by (simp add: process_update_line_def Let_def is_context_marker_def trim_fixed_markers)
qed

lemma no_header_body:
  "handle_hunk_headers_and_end_patch p (trim_end (change_line_text l)) = Inr (False, p)"
proof -
  obtain c r where c: "change_line_text l = c # r" "c \<noteq> CHR ''*''" by (cases l) auto
  then show ?thesis using trim_end_head [of c r] by (intro handle_no_header) auto
qed

lemma no_header_context:
  assumes "pred_option name_ok ctx"
  shows "handle_hunk_headers_and_end_patch p (trim_end (context_text ctx)) = Inr (False, p)"
proof -
  have "hd (context_text ctx) \<noteq> CHR ''*''"
    by (simp add: context_text_def marker_defs split: option.split)
  then show ?thesis unfolding trim_context [OF assms] by (intro handle_no_header) simp
qed

lemma edit_last_append: "edit_last_chunk f (cs @ [c]) = cs @ [f c]"
  by (simp add: edit_last_chunk_def)

lemma add_change_line_eof [simp]: "is_end_of_file (add_change_line l c) = is_end_of_file c"
  by (cases l) (simp_all add: push_context_line_def)

lemma add_change_line_nonempty [simp]: "\<not> chunk_is_empty (add_change_line l c)"
  by (cases l) (simp_all add: push_context_line_def chunk_is_empty_def)

lemma fold_change_lines:
  "is_end_of_file (fold add_change_line body c) = is_end_of_file c"
  "body \<noteq> [] \<or> \<not> chunk_is_empty c \<Longrightarrow> \<not> chunk_is_empty (fold add_change_line body c)"
  by (induction body arbitrary: c) auto

lemma feed_body:
  assumes "in_update p hs path mv (cs @ [c])" and "\<not> is_end_of_file c"
  shows "\<exists>p'. feed_lines p (map change_line_text body) = Inr p'
    \<and> in_update p' hs path mv (cs @ [fold add_change_line body c]) \<and> environment_id p' = environment_id p"
  using assms
proof (induction body arbitrary: p c)
  case (Cons l body)
  have "process_update_line (line_number p + 1) (change_line_text l) mv (cs @ [c])
      = Inr (mv, cs @ [add_change_line l c])"
    using Cons.prems(2) by (simp add: update_body_line edit_last_append)
  then obtain p1 where p1: "process_line (take_line p) (change_line_text l) = Inr p1"
      "in_update p1 hs path mv (cs @ [add_change_line l c])" "environment_id p1 = environment_id p"
    using feed_update_line [OF Cons.prems(1) no_header_body] by blast
  then show ?case using Cons.IH [OF p1(2)] Cons.prems(2) by auto
qed simp

lemma feed_chunk:
  assumes "in_update p hs path mv cs" and "\<not> last_chunk_empty cs" and "chunk_ok ck"
  shows "\<exists>p'. feed_lines p (chunk_text ck) = Inr p'
    \<and> in_update p' hs path mv (cs @ [chunk_meaning ck]) \<and> environment_id p' = environment_id p"
proof -
  obtain ctx body eof where ck: "ck = Chunk ctx body eof" by (cases ck)
  have ok: "pred_option name_ok ctx" "body \<noteq> []" using assms(3) ck by auto
  let ?c0 = "chunk_default\<lparr>change_context := ctx\<rparr>" and ?c1 = "fold add_change_line body (chunk_default\<lparr>change_context := ctx\<rparr>)"
  have c0: "\<not> is_end_of_file ?c0" by (simp add: chunk_default_def)
  obtain p1 where p1: "process_line (take_line p) (context_text ctx) = Inr p1"
      "in_update p1 hs path mv (cs @ [?c0])" "environment_id p1 = environment_id p"
    using feed_update_line [OF assms(1) no_header_context [OF ok(1)] update_context [OF ok(1) assms(2)]]
    by blast
  obtain p2 where p2: "feed_lines p1 (map change_line_text body) = Inr p2"
      "in_update p2 hs path mv (cs @ [?c1])" "environment_id p2 = environment_id p1"
    using feed_body [OF p1(2) c0] by blast
  have c1: "\<not> is_end_of_file ?c1" "\<not> last_chunk_empty (cs @ [?c1])"
    using c0 ok(2) by (simp_all add: fold_change_lines last_chunk_empty_def)
  then have "process_update_line (line_number p2 + 1) EOF_MARKER mv (cs @ [?c1])
      = Inr (mv, cs @ [?c1\<lparr>is_end_of_file := True\<rparr>])"
    by (simp add: update_eof edit_last_append)
  then obtain p3 where p3: "process_line (take_line p2) EOF_MARKER = Inr p3"
      "in_update p3 hs path mv (cs @ [?c1\<lparr>is_end_of_file := True\<rparr>])"
      "environment_id p3 = environment_id p2"
    using feed_update_line [OF p2(2)] no_header_move(2) trim_fixed_markers(1) by metis
  have "?c1\<lparr>is_end_of_file := False\<rparr> = ?c1" using c1(1) by simp
  then show ?thesis
    using p1 p2 p3 unfolding ck chunk_text_context by (cases eof) (simp_all add: feed_lines_append)
qed

lemma chunk_meaning_nonempty: "chunk_ok ck \<Longrightarrow> \<not> chunk_is_empty (chunk_meaning ck)"
  using fold_change_lines(2) by (cases ck) (simp add: chunk_is_empty_def)

lemma feed_chunks:
  assumes "in_update p hs path mv cs" and "\<not> last_chunk_empty cs" and "list_all chunk_ok cks"
  shows "\<exists>p'. feed_lines p (concat (map chunk_text cks)) = Inr p'
    \<and> in_update p' hs path mv (cs @ map chunk_meaning cks) \<and> environment_id p' = environment_id p"
  using assms
proof (induction cks arbitrary: p cs)
  case (Cons ck cks)
  then obtain p1 where p1: "feed_lines p (chunk_text ck) = Inr p1"
      "in_update p1 hs path mv (cs @ [chunk_meaning ck])" "environment_id p1 = environment_id p"
    using feed_chunk [of p hs path mv cs ck] by auto
  have "\<not> last_chunk_empty (cs @ [chunk_meaning ck])"
    using Cons.prems(3) by (simp add: last_chunk_empty_def chunk_meaning_nonempty)
  then show ?case using Cons.IH [OF p1(2)] Cons.prems(3) p1 by (auto simp: feed_lines_append)
qed simp

section \<open>The round trip\<close>

text \<open>The parser after complete hunks.\<close>

definition parsed :: "parser \<Rightarrow> str option \<Rightarrow> hunk list \<Rightarrow> bool" where
  "parsed p env hs \<longleftrightarrow>
     in_patch p \<and> line_buffer p = [] \<and> hunks p = hs \<and> environment_id p = env
   \<and> list_all hunk_complete hs"

lemma parsed_header:
  assumes "parsed p env hs" and "name_ok path"
  shows "process_line (take_line p) (ADD_FILE_MARKER @ path)
           = Inr (push_hunk (take_line p) (AddFile path []) InAddFile)"
    and "process_line (take_line p) (DELETE_FILE_MARKER @ path)
           = Inr (push_hunk (take_line p) (DeleteFile path) InDeleteFile)"
    and "process_line (take_line p) (UPDATE_FILE_MARKER @ path)
           = Inr (push_hunk (take_line p) (UpdateFile path None []) (InUpdateFile (line_number p + 1)))"
  using assms process_header [of "take_line p" path]
  by (simp_all add: parsed_def take_line_def in_patch_def)

lemma feed_update:
  assumes "parsed p env hs" and "patch_hunk_ok (Update path mv cks)"
  shows "\<exists>p'. feed_lines p (hunk_text (Update path mv cks)) = Inr p'
    \<and> parsed p' env (hs @ [hunk_meaning (Update path mv cks)])"
proof -
  let ?p1 = "push_hunk (take_line p) (UpdateFile path None []) (InUpdateFile (line_number p + 1))"
  have ok: "name_ok path" "pred_option name_ok mv" "cks \<noteq> []" "list_all chunk_ok cks"
    using assms(2) by auto
  have p1: "in_update ?p1 hs path None []" "environment_id ?p1 = env"
    using assms(1) by (simp_all add: in_update_def push_hunk_def take_line_def parsed_def)
  obtain p2 where p2: "feed_lines ?p1 (case mv of None \<Rightarrow> [] | Some m \<Rightarrow> [MOVE_TO_MARKER @ m]) = Inr p2"
      "in_update p2 hs path mv []" "environment_id p2 = env"
  proof (cases mv)
    case (Some m)
    then have "name_ok m" using ok(2) by simp
    then show ?thesis
      using feed_update_line [OF p1(1), of "MOVE_TO_MARKER @ m" "Some m" "[]"] p1(2) Some that
      by (auto simp: trim_header no_header_move update_move)
  qed (use p1 that in simp)
  have "\<not> last_chunk_empty []" by (simp add: last_chunk_empty_def)
  then obtain p3 where p3: "feed_lines p2 (concat (map chunk_text cks)) = Inr p3"
      "in_update p3 hs path mv (map chunk_meaning cks)" "environment_id p3 = env"
    using feed_chunks [OF p2(2) _ ok(4)] p2(3) by auto
  have "list_all (\<lambda>c. \<not> chunk_is_empty c) (map chunk_meaning cks)"
    using ok(4) chunk_meaning_nonempty by (auto simp: list_all_iff)
  then have "parsed p3 env (hs @ [hunk_meaning (Update path mv cks)])"
    using p3 assms(1) ok(3) by (auto simp: parsed_def in_update_def in_patch_def)
  then show ?thesis
    using p2 p3 parsed_header(3) [OF assms(1) ok(1)] by (simp add: feed_lines_append)
qed

lemma feed_hunk:
  assumes "parsed p env hs" and "patch_hunk_ok h"
  shows "\<exists>p'. feed_lines p (hunk_text h) = Inr p' \<and> parsed p' env (hs @ [hunk_meaning h])"
proof (cases h)
  case (Add path contents)
  let ?p1 = "push_hunk (take_line p) (AddFile path []) InAddFile"
  have "mode ?p1 = InAddFile" "hunks ?p1 = hs @ [AddFile path []]" "line_buffer ?p1 = []"
      "environment_id ?p1 = env"
    using assms(1) by (simp_all add: push_hunk_def take_line_def parsed_def)
  then obtain p2 where "feed_lines ?p1 (map (Cons (CHR ''+'')) contents) = Inr p2"
      "parsed p2 env (hs @ [hunk_meaning h])"
    using feed_added_lines [of ?p1 hs path "[]" contents] assms(1) Add
    by (auto simp: parsed_def in_patch_def)
  then show ?thesis using Add parsed_header(1) [OF assms(1)] assms(2) by simp
next
  case (Delete path)
  then show ?thesis
    using parsed_header(2) [OF assms(1)] assms
    by (auto simp: parsed_def in_patch_def push_hunk_def take_line_def)
qed (use feed_update assms in blast)

lemma feed_hunks:
  assumes "parsed p env hs" and "list_all patch_hunk_ok phs"
  shows "\<exists>p'. feed_lines p (concat (map hunk_text phs)) = Inr p'
    \<and> parsed p' env (hs @ map hunk_meaning phs)"
  using assms
proof (induction phs arbitrary: p hs)
  case (Cons h phs)
  then obtain p1 where p1: "feed_lines p (hunk_text h) = Inr p1" "parsed p1 env (hs @ [hunk_meaning h])"
    using feed_hunk [of p env hs h] by auto
  then show ?case using Cons.IH [OF p1(2)] Cons.prems by (auto simp: feed_lines_append)
qed simp

text \<open>Every line of the text is a line: no line feed inside and no carriage return at its end.\<close>

lemma name_line_ok: "name_ok p \<Longrightarrow> line_ok p"
proof -
  assume "name_ok p"
  moreover have "last p = cr_char \<Longrightarrow> p \<noteq> [] \<Longrightarrow> ws_len_rev (rev p) \<noteq> 0"
    by (cases "rev p" rule: ws_len_rev.cases) (auto simp: last_rev [symmetric] is_ws_byte_def byte_val_def)
  ultimately show ?thesis by (auto simp: name_ok_def line_ok_def trim_end_fixed_iff)
qed

lemma line_ok_append: "line_ok p \<Longrightarrow> p \<noteq> [] \<Longrightarrow> lf_char \<notin> set m \<Longrightarrow> line_ok (m @ p)"
  by (simp add: line_ok_def)

lemma line_ok_Cons: "line_ok l \<Longrightarrow> c \<noteq> lf_char \<Longrightarrow> c \<noteq> cr_char \<Longrightarrow> line_ok (c # l)"
  by (auto simp: line_ok_def)

lemma name_header_ok: "name_ok p \<Longrightarrow> lf_char \<notin> set m \<Longrightarrow> line_ok (m @ p)"
  using name_line_ok line_ok_append by (auto simp: name_ok_def)

lemma marker_no_lf:
  "lf_char \<notin> set ADD_FILE_MARKER" "lf_char \<notin> set DELETE_FILE_MARKER"
  "lf_char \<notin> set UPDATE_FILE_MARKER" "lf_char \<notin> set MOVE_TO_MARKER"
  "lf_char \<notin> set CHANGE_CONTEXT_MARKER" "lf_char \<notin> set (ENVIRONMENT_ID_MARKER @ '' '')"
  "line_ok EMPTY_CHANGE_CONTEXT_MARKER" "line_ok EOF_MARKER" "line_ok BEGIN_PATCH_MARKER"
  "line_ok END_PATCH_MARKER" "lf_char \<notin> set END_PATCH_MARKER"
  by (simp_all add: marker_defs line_ok_def)

lemma chunk_text_ok: "chunk_ok ck \<Longrightarrow> list_all line_ok (chunk_text ck)"
proof -
  assume ok: "chunk_ok ck"
  obtain ctx body eof where ck: "ck = Chunk ctx body eof" by (cases ck)
  have "line_ok (context_text ctx)"
    using ok ck by (cases ctx) (simp_all add: context_text_def name_header_ok marker_no_lf)
  moreover have "change_line_ok l \<Longrightarrow> line_ok (change_line_text l)" for l
    by (cases l) (simp_all add: line_ok_Cons)
  ultimately show ?thesis
    using ok unfolding ck chunk_text_context by (auto simp: list_all_iff marker_no_lf)
qed

lemma hunk_text_ok: "patch_hunk_ok h \<Longrightarrow> list_all line_ok (hunk_text h)"
  using chunk_text_ok
  by (cases h) (auto simp: list_all_iff name_header_ok marker_no_lf line_ok_Cons split: option.splits)

lemma env_text_ok: "env_ok env \<Longrightarrow> list_all line_ok (env_text env)"
  using name_header_ok [OF _ marker_no_lf(6)] by (cases env) (simp_all add: env_text_def env_ok_def)

lemma trim_space: "trim (CHR '' '' # s) = trim s"
proof -
  have "ws_len (CHR '' '' # s) = 1"
    by (cases "CHR '' '' # s" rule: ws_len.cases) (auto simp: is_ws_byte_def byte_val_def)
  then show ?thesis by (simp add: trim_def trim_start.simps [of "CHR '' '' # s"])
qed

lemma feed_env:
  assumes "env_ok env" and "mode p = StartedPatch" and "hunks p = []" and "line_buffer p = []"
    and "environment_id p = None"
  shows "\<exists>p'. feed_lines p (env_text env) = Inr p' \<and> parsed p' env []"
proof (cases env)
  case (Some e)
  let ?l = "ENVIRONMENT_ID_MARKER @ '' '' @ e"
  have e: "name_ok e" "trim e = e" "e \<noteq> []" using assms(1) Some by (auto simp: env_ok_def name_ok_def)
  have "trim_end ?l = ?l" using trim_end_after_space [of e ENVIRONMENT_ID_MARKER] e by (simp add: name_ok_def)
  moreover have "hd ?l = CHR ''*''" by (simp add: marker_defs)
  ultimately have "trim ?l = ?l" using trim_star [of ?l] by (simp add: marker_defs)
  then have "process_line (take_line p) ?l = Inr ((take_line p)\<lparr>environment_id := Some e\<rparr>)"
    using assms(2,5) e
    by (simp add: process_line_def Let_def take_line_def handle_hunk_headers_and_end_patch_def
        handle_environment_id_def trim_space)
  then show ?thesis
    using assms Some by (simp add: env_text_def parsed_def take_line_def in_patch_def)
qed (use assms in \<open>simp add: env_text_def parsed_def in_patch_def\<close>)

lemma trim_begin_end:
  "trim BEGIN_PATCH_MARKER = BEGIN_PATCH_MARKER" "trim END_PATCH_MARKER = END_PATCH_MARKER"
  using trim_star [of BEGIN_PATCH_MARKER] trim_star [of END_PATCH_MARKER]
  by (simp_all add: marker_defs trim_end_fixed_iff is_ws_byte_def is_ws2_def is_ws3_def byte_val_def)

lemma feed_patch:
  assumes "env_ok env" and "list_all patch_hunk_ok hs"
  shows "\<exists>p'. feed_lines parser_default (butlast (patch_text env hs)) = Inr p'
    \<and> parsed p' env (map hunk_meaning hs)"
proof -
  let ?p1 = "(take_line parser_default)\<lparr>mode := StartedPatch\<rparr>"
  have "process_line (take_line parser_default) BEGIN_PATCH_MARKER = Inr ?p1"
    by (simp add: process_line_def Let_def trim_begin_end take_line_def parser_default_def)
  moreover obtain p2 where p2: "feed_lines ?p1 (env_text env) = Inr p2" "parsed p2 env []"
    using feed_env [OF assms(1), of ?p1] by (auto simp: take_line_def parser_default_def)
  moreover have "butlast (patch_text env hs)
      = BEGIN_PATCH_MARKER # env_text env @ concat (map hunk_text hs)"
    by (simp add: patch_text_def butlast_append)
  ultimately show ?thesis
    using feed_hunks [OF p2(2) assms(2)] by (simp add: feed_lines_append)
qed

lemma finish_end_patch:
  assumes "parsed p env hs"
  shows "\<exists>p'. finish (p\<lparr>line_buffer := END_PATCH_MARKER\<rparr>) = (p', Inr hs) \<and> environment_id p' = env"
proof -
  let ?p1 = "take_line (p\<lparr>line_buffer := END_PATCH_MARKER\<rparr>)"
  have "ensure_update_hunk_is_not_empty ?p1 END_PATCH_MARKER = Inr ()"
    using assms by (intro ensure_ok) (simp add: parsed_def take_line_def)
  moreover have "END_PATCH_MARKER \<noteq> []" by (simp add: marker_defs)
  ultimately show ?thesis
    using assms
    by (simp add: finish_def finish_last_line_def Let_def trim_begin_end parsed_def take_line_def)
qed

lemma trim_patch:
  "trim (join_with [lf_char] (patch_text env hs)) = join_with [lf_char] (patch_text env hs)"
proof -
  let ?init = "join_with [lf_char] (butlast (patch_text env hs))"
  have split: "join_with [lf_char] (ls @ [z]) = join_with [lf_char] ls @ lf_char # z" if "ls \<noteq> []" for ls and z :: str
    using that by (induction "[lf_char]" ls rule: join_with.induct) auto
  have t: "join_with [lf_char] (patch_text env hs) = ?init @ lf_char # END_PATCH_MARKER"
    using split [of "butlast (patch_text env hs)" END_PATCH_MARKER] by (simp add: patch_text_def butlast_append)
  have "trim_end ((?init @ lf_char # ''*** End'') @ CHR '' '' # ''Patch'')
      = (?init @ lf_char # ''*** End'') @ CHR '' '' # ''Patch''"
    by (rule trim_end_after_space)
       (simp_all add: trim_end_fixed_iff is_ws_byte_def is_ws2_def is_ws3_def byte_val_def)
  then have e: "trim_end (join_with [lf_char] (patch_text env hs)) = join_with [lf_char] (patch_text env hs)"
    unfolding t by (simp add: END_PATCH_MARKER_def)
  have "hd (join_with [lf_char] (BEGIN_PATCH_MARKER # ls)) = CHR ''*''
      \<and> join_with [lf_char] (BEGIN_PATCH_MARKER # ls) \<noteq> []" for ls
    by (cases ls) (simp_all add: marker_defs)
  then show ?thesis using trim_star e unfolding patch_text_def by metis
qed

lemma patch_lines:
  assumes "env_ok env" and "list_all patch_hunk_ok hs"
  shows "list_all line_ok (patch_text env hs)"
  using assms env_text_ok hunk_text_ok by (auto simp: patch_text_def list_all_iff marker_no_lf)

lemma str_lines_join:
  assumes "list_all line_ok ls" and "ls \<noteq> []" and "last ls \<noteq> []"
  shows "str_lines (join_with [lf_char] ls) = ls"
proof -
  have "list_all (\<lambda>l. lf_char \<notin> set l) ls" using assms(1) by (auto simp: list_all_iff line_ok_def)
  moreover have "map strip_cr (butlast ls) = butlast ls"
    using assms(1) by (intro map_idI strip_cr_ok) (auto simp: list_all_iff dest: in_set_butlastD)
  ultimately show ?thesis using assms(2,3) by (simp add: str_lines_def split_join)
qed

lemma patch_boundaries: "check_patch_boundaries_lenient (patch_text env hs) = Inr (patch_text env hs)"
  by (simp add: check_patch_boundaries_lenient_def check_patch_boundaries_strict_def
      check_start_and_end_lines_strict_def patch_text_def trim_begin_end)


definition sample_patch :: "patch_hunk list" where
  "sample_patch = [Add ''a.txt'' [''x'', []], Delete ''b.txt'',
     Update ''c.txt'' (Some ''d.txt'') [Chunk (Some ''fn f'') [Context ''k'', Removed ''o'', Added ''n''] True]]"

lemma sample_names_ok:
  "list_all name_ok [''a.txt'', ''b.txt'', ''c.txt'', ''d.txt'', ''fn f'', ''remote'']"
  "trim ''remote'' = ''remote''"
  by code_simp+

lemma sample_patch_ok: "env_ok (Some ''remote'')" "list_all patch_hunk_ok sample_patch"
  using sample_names_ok by (simp_all add: sample_patch_def env_ok_def line_ok_def)


end
