(* ===== verification/Patch_Seek.thy ===== *)
theory Patch_Seek
  imports Rust_Prelude
begin

text \<open>
  Locating the lines of a patch in a file (\<open>codex-rs/apply-patch/src/seek_sequence.rs\<close>).  The
  search makes four passes with decreasing strictness: equal lines, lines equal up to trailing
  whitespace, up to surrounding whitespace, and up to typographic punctuation.
\<close>

datatype update_mode = NormalizeToLf | PreserveLineEndings

section \<open>Comparing lines\<close>

text \<open>
  \<open>normalise\<close> maps characters after trimming: dashes (U+2010 to U+2015, U+2212), single quotes
  (U+2018 to U+201B), double quotes (U+201C to U+201F) and spaces (U+00A0, U+2002 to U+200A,
  U+202F, U+205F, U+3000) to their ASCII forms.
\<close>

definition punct2 :: "char \<Rightarrow> char \<Rightarrow> char option" where
  "punct2 a b = (if byte_val a = 0xC2 \<and> byte_val b = 0xA0 then Some (CHR '' '') else None)"

definition punct3 :: "char \<Rightarrow> char \<Rightarrow> char \<Rightarrow> char option" where
  "punct3 a b c =
     (let x = byte_val a; y = byte_val b; z = byte_val c
      in if x = 0xE2 \<and> y = 0x80 \<and> 0x90 \<le> z \<and> z \<le> 0x95 \<or> x = 0xE2 \<and> y = 0x88 \<and> z = 0x92
         then Some (CHR ''-'')
         else if x = 0xE2 \<and> y = 0x80 \<and> 0x98 \<le> z \<and> z \<le> 0x9B then Some (CHR 0x27)
         else if x = 0xE2 \<and> y = 0x80 \<and> 0x9C \<le> z \<and> z \<le> 0x9F then Some (CHR 0x22)
         else if x = 0xE2 \<and> y = 0x80 \<and> (0x82 \<le> z \<and> z \<le> 0x8A \<or> z = 0xAF)
           \<or> x = 0xE2 \<and> y = 0x81 \<and> z = 0x9F \<or> x = 0xE3 \<and> y = 0x80 \<and> z = 0x80
         then Some (CHR '' '')
         else None)"

fun map_punctuation :: "str \<Rightarrow> str" where
  "map_punctuation (a # b # c # s) =
     (case punct3 a b c of
        Some d \<Rightarrow> d # map_punctuation s
      | None \<Rightarrow>
          (case punct2 a b of
             Some d \<Rightarrow> d # map_punctuation (c # s)
           | None \<Rightarrow> a # map_punctuation (b # c # s)))"
| "map_punctuation [a, b] = (case punct2 a b of Some d \<Rightarrow> [d] | None \<Rightarrow> [a, b])"
| "map_punctuation s = s"

definition normalise :: "str \<Rightarrow> str" where
  "normalise s = map_punctuation (trim s)"

section \<open>The search\<close>

text \<open>One comparison of the window of \<open>lines\<close> at \<open>i\<close> with the pattern.\<close>

definition window_matches :: "(str \<Rightarrow> str \<Rightarrow> bool) \<Rightarrow> str list \<Rightarrow> str list \<Rightarrow> nat \<Rightarrow> bool" where
  "window_matches eq lines pattern i \<longleftrightarrow>
     list_all2 eq (take (length pattern) (drop i lines)) pattern"

text \<open>\<open>for i in search_start..=last\<close>: the first index whose window matches.\<close>

definition search_pass :: "(str \<Rightarrow> str \<Rightarrow> bool) \<Rightarrow> str list \<Rightarrow> str list \<Rightarrow> nat \<Rightarrow> nat option" where
  "search_pass eq lines pattern search_start =
     List.find (window_matches eq lines pattern)
       [search_start ..< Suc (length lines - length pattern)]"

definition search_start_of :: "str list \<Rightarrow> str list \<Rightarrow> nat \<Rightarrow> bool \<Rightarrow> update_mode \<Rightarrow> nat" where
  "search_start_of lines pattern start eof mode =
     (if eof \<and> length pattern \<le> length lines then
        (let eof_start = length lines - length pattern
         in case mode of
              NormalizeToLf \<Rightarrow> eof_start
            | PreserveLineEndings \<Rightarrow> max eof_start start)
      else start)"

definition seek_sequence ::
    "str list \<Rightarrow> str list \<Rightarrow> nat \<Rightarrow> bool \<Rightarrow> update_mode \<Rightarrow> nat option" where
  "seek_sequence lines pattern start eof mode =
     (if pattern = [] then Some start
      else if length lines < length pattern then None
      else
        let search_start = search_start_of lines pattern start eof mode in
        case search_pass (\<lambda>l p. l = p) lines pattern search_start of
          Some i \<Rightarrow> Some i
        | None \<Rightarrow>
        (case search_pass (\<lambda>l p. trim_end l = trim_end p) lines pattern search_start of
          Some i \<Rightarrow> Some i
        | None \<Rightarrow>
        (case search_pass (\<lambda>l p. trim l = trim p) lines pattern search_start of
          Some i \<Rightarrow> Some i
        | None \<Rightarrow> search_pass (\<lambda>l p. normalise l = normalise p) lines pattern search_start)))"

section \<open>What the search finds\<close>

text \<open>The comparisons in the order of the passes.\<close>

definition line_eqs :: "(str \<Rightarrow> str \<Rightarrow> bool) list" where
  "line_eqs = [\<lambda>l p. l = p, \<lambda>l p. trim_end l = trim_end p, \<lambda>l p. trim l = trim p,
     \<lambda>l p. normalise l = normalise p]"

definition line_similar :: "str \<Rightarrow> str \<Rightarrow> bool" where
  "line_similar l p \<longleftrightarrow> l = p \<or> trim_end l = trim_end p \<or> trim l = trim p \<or> normalise l = normalise p"

lemma find_upt_Some_iff:
  "List.find P [a..<b] = Some i \<longleftrightarrow> a \<le> i \<and> i < b \<and> P i \<and> (\<forall>j. a \<le> j \<and> j < i \<longrightarrow> \<not> P j)"
proof (induction "b - a" arbitrary: a)
  case 0
  then show ?case by auto
next
  case (Suc n)
  then have ab: "a < b" and n: "n = b - Suc a" by auto
  have eq: "[a..<b] = a # [Suc a..<b]" using ab by (rule upt_conv_Cons)
  show ?case
  proof (cases "P a")
    case True
    then show ?thesis using ab by (auto simp: eq)
  next
    case False
    then have "List.find P [a..<b] = Some i \<longleftrightarrow> List.find P [Suc a..<b] = Some i" by (simp add: eq)
    also have "\<dots> \<longleftrightarrow> Suc a \<le> i \<and> i < b \<and> P i \<and> (\<forall>j. Suc a \<le> j \<and> j < i \<longrightarrow> \<not> P j)"
      by (rule Suc.hyps(1) [OF n])
    also have "\<dots> \<longleftrightarrow> a \<le> i \<and> i < b \<and> P i \<and> (\<forall>j. a \<le> j \<and> j < i \<longrightarrow> \<not> P j)"
      using False by (metis Suc_leD Suc_leI le_neq_implies_less)
    finally show ?thesis .
  qed
qed

lemma search_pass_Some_iff:
  "search_pass eq lines pattern a = Some i \<longleftrightarrow>
     a \<le> i \<and> i \<le> length lines - length pattern \<and> window_matches eq lines pattern i
   \<and> (\<forall>j. a \<le> j \<and> j < i \<longrightarrow> \<not> window_matches eq lines pattern j)"
  unfolding search_pass_def find_upt_Some_iff less_Suc_eq_le by blast

lemma search_pass_None_iff:
  "search_pass eq lines pattern a = None \<longleftrightarrow>
     (\<forall>j. a \<le> j \<and> j \<le> length lines - length pattern \<longrightarrow> \<not> window_matches eq lines pattern j)"
  by (auto simp: search_pass_def find_None_iff)

lemma seek_sequence_levels:
  assumes "pattern \<noteq> []" and "length pattern \<le> length lines"
  shows "seek_sequence lines pattern start eof mode =
    foldr (\<lambda>eq r. case search_pass eq lines pattern (search_start_of lines pattern start eof mode)
             of Some i \<Rightarrow> Some i | None \<Rightarrow> r) line_eqs None"
  using assms by (auto simp: seek_sequence_def line_eqs_def Let_def split: option.splits)

lemma foldr_first_Some:
  "foldr (\<lambda>x r. case f x of Some i \<Rightarrow> Some i | None \<Rightarrow> r) xs None = Some i \<longleftrightarrow>
     (\<exists>k < length xs. f (xs ! k) = Some i \<and> (\<forall>k' < k. f (xs ! k') = None))"
proof (induction xs)
  case Nil
  then show ?case by simp
next
  case (Cons x xs)
  show ?case
  proof (cases "f x")
    case None
    have "(\<exists>k < length (x # xs). f ((x # xs) ! k) = Some i \<and> (\<forall>k' < k. f ((x # xs) ! k') = None))
        \<longleftrightarrow> (\<exists>k < length xs. f (xs ! k) = Some i \<and> (\<forall>k' < k. f (xs ! k') = None))"
      using None by (simp add: Ex_less_Suc2 All_less_Suc2)
    then show ?thesis using None Cons by simp
  next
    case (Some j)
    then show ?thesis by (simp add: Ex_less_Suc2 All_less_Suc2)
  qed
qed

lemma line_eqs_similar: "eq \<in> set line_eqs \<Longrightarrow> eq l p \<Longrightarrow> line_similar l p"
  by (auto simp: line_eqs_def line_similar_def)

lemma search_start_of_ge:
  "\<not> eof \<or> mode = PreserveLineEndings \<Longrightarrow> start \<le> search_start_of lines pattern start eof mode"
  by (auto simp: search_start_of_def Let_def)

lemma seek_sequence_nonempty:
  assumes "seek_sequence lines pattern start eof mode = Some i" and "pattern \<noteq> []"
  shows "i + length pattern \<le> length lines"
    and "window_matches line_similar lines pattern i"
    and "search_start_of lines pattern start eof mode \<le> i"
proof -
  let ?s = "search_start_of lines pattern start eof mode"
  have len: "length pattern \<le> length lines"
    using assms by (auto simp: seek_sequence_def split: if_splits)
  obtain k where k: "k < length line_eqs" "search_pass (line_eqs ! k) lines pattern ?s = Some i"
    using assms seek_sequence_levels [OF assms(2) len] by (auto simp: foldr_first_Some)
  then show "i + length pattern \<le> length lines" "?s \<le> i"
    using len by (auto simp: search_pass_Some_iff)
  have "window_matches (line_eqs ! k) lines pattern i" using k by (simp add: search_pass_Some_iff)
  then show "window_matches line_similar lines pattern i"
    unfolding window_matches_def
    by (rule list_all2_mono) (rule line_eqs_similar [OF nth_mem [OF k(1)]])
qed

lemma seek_sequence_ge:
  assumes "seek_sequence lines pattern start eof mode = Some i"
    and "\<not> eof \<or> mode = PreserveLineEndings"
  shows "start \<le> i"
proof (cases "pattern = []")
  case True
  then show ?thesis using assms by (simp add: seek_sequence_def)
next
  case False
  then show ?thesis
    using seek_sequence_nonempty(3) [OF assms(1)] search_start_of_ge [OF assms(2), of start lines pattern]
    by simp
qed

text \<open>
  the search finds the first place of the strictest comparison that has any: an index is
  returned exactly when some comparison matches the pattern there, does not match earlier in the
  searched range, and no stricter comparison matches anywhere in the range.  With
  \<open>is_end_of_file\<close> the range starts where the pattern would end the file.
\<close>

theorem seek_sequence_strictest_first:
  assumes "pattern \<noteq> []" and "length pattern \<le> length lines"
  shows "seek_sequence lines pattern start eof mode = Some i \<longleftrightarrow>
    (let a = search_start_of lines pattern start eof mode; z = length lines - length pattern in
     \<exists>k < length line_eqs.
       a \<le> i \<and> i \<le> z \<and> window_matches (line_eqs ! k) lines pattern i
     \<and> (\<forall>j. a \<le> j \<and> j < i \<longrightarrow> \<not> window_matches (line_eqs ! k) lines pattern j)
     \<and> (\<forall>k' < k. \<forall>j. a \<le> j \<and> j \<le> z \<longrightarrow> \<not> window_matches (line_eqs ! k') lines pattern j))"
  by (simp add: seek_sequence_levels [OF assms] foldr_first_Some search_pass_Some_iff
      search_pass_None_iff Let_def conj_assoc)

theorem seek_sequence_strictest_first_witness:
  "seek_sequence [''foo'', ''bar'', ''baz''] [''bar'', ''baz''] 0 False NormalizeToLf = Some 1"
proof -
  let ?l = "[''foo'', ''bar'', ''baz'']" and ?p = "[''bar'', ''baz'']"
  have "\<exists>k < length line_eqs. window_matches (line_eqs ! k) ?l ?p 1
     \<and> (\<forall>j. 0 \<le> j \<and> j < 1 \<longrightarrow> \<not> window_matches (line_eqs ! k) ?l ?p j)
     \<and> (\<forall>k' < k. \<forall>j. 0 \<le> j \<and> j \<le> 1 \<longrightarrow> \<not> window_matches (line_eqs ! k') ?l ?p j)"
    by (rule exI [of _ 0]) (simp add: line_eqs_def window_matches_def)
  then show ?thesis
    using seek_sequence_strictest_first [of ?p ?l 0 False NormalizeToLf 1]
    by (simp add: search_start_of_def Let_def)
qed

end
