(* ===== verification/Patch_File_Update.thy ===== *)
theory Patch_File_Update
  imports Patch_Types Patch_Seek Patch_Text_File
begin

text \<open>
  Updating the text of one file (\<open>codex-rs/apply-patch/src/file_update.rs\<close>): the chunks of the
  patch are located in the file, become replacements of line ranges, and the file is rebuilt in
  one of two modes.  Reading the file is the caller's; its contents are an argument.
\<close>

datatype update_error =
    ComputeReplacements str
  | UpdatePanic

section \<open>Computing the replacements\<close>

definition last_is_empty :: "str list \<Rightarrow> bool" where
  "last_is_empty xs \<longleftrightarrow> xs \<noteq> [] \<and> last xs = []"

definition seek_change_context ::
    "str list \<Rightarrow> str \<Rightarrow> update_file_chunk \<Rightarrow> update_mode \<Rightarrow> nat \<Rightarrow> update_error + nat" where
  "seek_change_context lines path chunk mode line_index =
     (case change_context chunk of
        None \<Rightarrow> Inr line_index
      | Some ctx_line \<Rightarrow>
          (case seek_sequence lines [ctx_line] line_index False mode of
             Some idx \<Rightarrow> Inr (idx + 1)
           | None \<Rightarrow> Inl (ComputeReplacements
               (''Failed to find context '' @ [CHR 0x27] @ ctx_line @ [CHR 0x27] @ '' in '' @ path))))"

definition insertion_index :: "str list \<Rightarrow> update_mode \<Rightarrow> nat" where
  "insertion_index lines mode =
     (case mode of
        NormalizeToLf \<Rightarrow> if last_is_empty lines then length lines - 1 else length lines
      | PreserveLineEndings \<Rightarrow> length lines)"

text \<open>The old lines are searched as they are, then without a final empty line.\<close>

definition locate_old_lines ::
    "str list \<Rightarrow> update_file_chunk \<Rightarrow> update_mode \<Rightarrow> nat \<Rightarrow> (nat \<times> nat \<times> str list) option" where
  "locate_old_lines lines chunk mode line_index =
     (let pattern = old_lines chunk; new_slice = new_lines chunk
      in case seek_sequence lines pattern line_index (is_end_of_file chunk) mode of
           Some i \<Rightarrow> Some (i, length pattern, new_slice)
         | None \<Rightarrow>
             if last_is_empty pattern then
               (let pattern' = butlast pattern;
                    new_slice' = (if last_is_empty new_slice then butlast new_slice else new_slice)
                in case seek_sequence lines pattern' line_index (is_end_of_file chunk) mode of
                     Some i \<Rightarrow> Some (i, length pattern', new_slice')
                   | None \<Rightarrow> None)
             else None)"

text \<open>
  In \<open>PreserveLineEndings\<close> mode the context lines inside the region stay in place and only the
  stretches between them are replaced.  A range that runs backwards panics.
\<close>

fun context_replacements ::
    "nat \<Rightarrow> nat \<Rightarrow> str list \<Rightarrow> nat \<Rightarrow> nat \<Rightarrow> (nat \<times> nat) list \<Rightarrow> replacement list option" where
  "context_replacements start_idx pattern_len new_slice old_start new_start [] =
     (if old_start \<noteq> pattern_len \<or> new_start \<noteq> length new_slice then
        (if pattern_len < old_start \<or> length new_slice < new_start then None
         else Some [(start_idx + old_start, pattern_len - old_start, drop new_start new_slice)])
      else Some [])"
| "context_replacements start_idx pattern_len new_slice old_start new_start ((oc, nc) # cs) =
     (if pattern_len \<le> oc \<or> length new_slice \<le> nc then
        context_replacements start_idx pattern_len new_slice old_start new_start []
      else if old_start \<noteq> oc \<or> new_start \<noteq> nc then
        (if oc < old_start \<or> nc < new_start then None
         else map_option (Cons (start_idx + old_start, oc - old_start,
                take (nc - new_start) (drop new_start new_slice)))
                (context_replacements start_idx pattern_len new_slice (oc + 1) (nc + 1) cs))
      else context_replacements start_idx pattern_len new_slice (oc + 1) (nc + 1) cs)"

definition region_replacements ::
    "update_file_chunk \<Rightarrow> update_mode \<Rightarrow> nat \<times> nat \<times> str list \<Rightarrow> update_error + replacement list" where
  "region_replacements chunk mode region =
     (case region of (start_idx, pattern_len, new_slice) \<Rightarrow>
        (case mode of
           NormalizeToLf \<Rightarrow> Inr [(start_idx, pattern_len, new_slice)]
         | PreserveLineEndings \<Rightarrow>
             ok_or UpdatePanic (context_replacements start_idx pattern_len new_slice 0 0
               (context_line_indices chunk))))"

text \<open>One chunk: its replacements and the line index after it.\<close>

definition compute_chunk ::
    "str list \<Rightarrow> str \<Rightarrow> update_mode \<Rightarrow> update_file_chunk \<Rightarrow> nat \<Rightarrow>
       update_error + (replacement list \<times> nat)" where
  "compute_chunk lines path mode chunk line_index =
     and_then (seek_change_context lines path chunk mode line_index) (\<lambda>line_index.
       if old_lines chunk = [] then
         Inr ([(insertion_index lines mode, 0, new_lines chunk)], line_index)
       else
         (case locate_old_lines lines chunk mode line_index of
            Some (start_idx, pattern_len, new_slice) \<Rightarrow>
              and_then (region_replacements chunk mode (start_idx, pattern_len, new_slice)) (\<lambda>rs.
                Inr (rs, start_idx + pattern_len))
          | None \<Rightarrow> Inl (ComputeReplacements (''Failed to find expected lines in '' @ path @ '':'' @
              [lf_char] @ join_with [lf_char] (old_lines chunk)))))"

fun compute_chunks ::
    "str list \<Rightarrow> str \<Rightarrow> update_mode \<Rightarrow> update_file_chunk list \<Rightarrow> nat \<Rightarrow>
       update_error + replacement list" where
  "compute_chunks lines path mode [] line_index = Inr []"
| "compute_chunks lines path mode (c # cs) line_index =
     and_then (compute_chunk lines path mode c line_index) (\<lambda>(rs, line_index').
       and_then (compute_chunks lines path mode cs line_index') (\<lambda>rs'. Inr (rs @ rs')))"

definition compute_replacements ::
    "str list \<Rightarrow> str \<Rightarrow> update_file_chunk list \<Rightarrow> update_mode \<Rightarrow> update_error + replacement list" where
  "compute_replacements lines path chunks mode =
     and_then (compute_chunks lines path mode chunks 0) (\<lambda>rs. Inr (sort_key fst rs))"

section \<open>Applying them to a vector of lines\<close>

fun remove_times :: "nat \<Rightarrow> nat \<Rightarrow> 'a list \<Rightarrow> 'a list" where
  "remove_times 0 start_idx lines = lines"
| "remove_times (Suc n) start_idx lines =
     remove_times n start_idx
       (if start_idx < length lines then take start_idx lines @ drop (Suc start_idx) lines
        else lines)"

text \<open>\<open>Vec::insert\<close> panics behind the end.\<close>

fun insert_lines :: "nat \<Rightarrow> 'a list \<Rightarrow> 'a list \<Rightarrow> 'a list option" where
  "insert_lines i [] lines = Some lines"
| "insert_lines i (x # xs) lines =
     (if i \<le> length lines then insert_lines (Suc i) xs (take i lines @ x # drop i lines) else None)"

definition apply_replacement :: "nat \<times> nat \<times> 'a list \<Rightarrow> 'a list \<Rightarrow> 'a list option" where
  "apply_replacement r lines =
     (case r of (start_idx, old_len, new_segment) \<Rightarrow>
        insert_lines start_idx new_segment (remove_times old_len start_idx lines))"

definition apply_replacements :: "'a list \<Rightarrow> (nat \<times> nat \<times> 'a list) list \<Rightarrow> 'a list option" where
  "apply_replacements lines rs =
     fold (\<lambda>r ls. Option.bind ls (apply_replacement r)) (rev rs) (Some lines)"

section \<open>New contents\<close>

record applied_patch =
  original_contents :: str
  new_contents :: str

definition split_lines_lf :: "str \<Rightarrow> str list" where
  "split_lines_lf s =
     (let ls = split_on lf_char s in if last_is_empty ls then butlast ls else ls)"

definition derive_new_contents ::
    "str \<Rightarrow> str \<Rightarrow> update_file_chunk list \<Rightarrow> update_mode \<Rightarrow> update_error + applied_patch" where
  "derive_new_contents original path_text chunks mode =
     and_then
       (case mode of
          NormalizeToLf \<Rightarrow>
            let original_lines = split_lines_lf original in
            and_then (compute_replacements original_lines path_text chunks mode) (\<lambda>rs.
            and_then (ok_or UpdatePanic (apply_replacements original_lines rs)) (\<lambda>ls.
              Inr (join_with [lf_char] (if last_is_empty ls then ls else ls @ [[]]))))
        | PreserveLineEndings \<Rightarrow>
            let source_file = source_parse original in
            and_then (compute_replacements (line_texts source_file) path_text chunks mode) (\<lambda>rs.
            and_then (ok_or UpdatePanic (source_apply_replacements source_file rs)) (\<lambda>f.
              Inr (into_contents f))))
       (\<lambda>contents. Inr \<lparr>original_contents = original, new_contents = contents\<rparr>)"

section \<open>Order and separation of the replacements\<close>

definition seg_end :: "nat \<times> nat \<times> 'b \<Rightarrow> nat" where
  "seg_end r = fst r + fst (snd r)"

lemma ordered_from_iff:
  "ordered_from off n rs \<longleftrightarrow> off \<le> n \<and> sorted_wrt (\<lambda>a b. seg_end a \<le> fst b) rs
     \<and> (\<forall>r \<in> set rs. off \<le> fst r \<and> seg_end r \<le> n)"
proof (induction off n rs rule: ordered_from.induct)
  case (1 off n)
  then show ?case by simp
next
  case (2 off n s l new rs)
  then show ?case by (auto simp: seg_end_def)
qed

lemma context_replacements_ordered:
  "indices_ascending is \<Longrightarrow> (\<forall>(i, j) \<in> set is. os \<le> i \<and> ns \<le> j) \<Longrightarrow>
     os \<le> plen \<Longrightarrow> ns \<le> length new \<Longrightarrow>
     \<exists>rs. context_replacements start plen new os ns is = Some rs
        \<and> ordered_from (start + os) (start + plen) rs"
proof (induction start plen new os ns "is" rule: context_replacements.induct)
  case (1 start plen new os ns)
  then show ?case by auto
next
  case (2 start plen new os ns oc nc cs)
  have asc: "indices_ascending cs" "\<forall>(i, j) \<in> set cs. oc + 1 \<le> i \<and> nc + 1 \<le> j"
    using "2.prems"(1) by (auto simp: indices_ascending_def)
  have ge: "os \<le> oc" "ns \<le> nc" using "2.prems"(2) by auto
  show ?case
  proof (cases "plen \<le> oc \<or> length new \<le> nc")
    case True
    then show ?thesis using "2.IH"(1) "2.prems"(3,4) by (simp add: indices_ascending_def)
  next
    case False
    then have "\<exists>rs. context_replacements start plen new (oc + 1) (nc + 1) cs = Some rs
        \<and> ordered_from (start + (oc + 1)) (start + plen) rs"
      using asc "2.IH"(2,3) ge by (cases "os \<noteq> oc \<or> ns \<noteq> nc") auto
    then obtain rs where rs: "context_replacements start plen new (oc + 1) (nc + 1) cs = Some rs"
      and ord: "ordered_from (start + oc + 1) (start + plen) rs" by auto
    have "ordered_from (start + oc) (start + plen) rs"
      using ord by (auto simp: ordered_from_iff)
    then show ?thesis using False ge rs by (auto simp: ordered_from_iff seg_end_def)
  qed
qed

text \<open>
  Replacements as they are computed in \<open>PreserveLineEndings\<close> mode: each starts where the earlier
  ones end, except that insertions at the end of the file may come before any of them.
\<close>

definition before_or_append :: "nat \<Rightarrow> nat \<times> nat \<times> 'b \<Rightarrow> nat \<times> nat \<times> 'b \<Rightarrow> bool" where
  "before_or_append n a b \<longleftrightarrow> seg_end a \<le> fst b \<or> fst a = n \<and> fst (snd a) = 0"

lemma insort_ordered:
  assumes "ordered_from 0 n rs" and "\<forall>r \<in> set rs. before_or_append n x r" and "seg_end x \<le> n"
  shows "ordered_from 0 n (insort_key fst x rs)"
  using assms
proof (induction rs)
  case Nil
  then show ?case by (simp add: ordered_from_iff)
next
  case (Cons r rs)
  show ?case
  proof (cases "fst x \<le> fst r")
    case True
    then have "seg_end x \<le> fst r'" if "r' \<in> set (r # rs)" for r'
      using Cons.prems that
      by (auto simp: before_or_append_def ordered_from_iff seg_end_def)
    then show ?thesis using True Cons.prems by (auto simp: ordered_from_iff)
  next
    case False
    have rs: "ordered_from 0 n rs" using Cons.prems(1) by (auto simp: ordered_from_iff)
    then have IH: "ordered_from 0 n (insort_key fst x rs)"
      using Cons.IH Cons.prems by simp
    have "fst x = n" using False Cons.prems(2) by (auto simp: before_or_append_def seg_end_def)
    then have "seg_end r \<le> fst x" using Cons.prems(1) by (auto simp: ordered_from_iff)
    then show ?thesis
      using False IH Cons.prems(1) by (auto simp: ordered_from_iff set_insort_key)
  qed
qed

lemma sort_ordered:
  "sorted_wrt (before_or_append n) rs \<Longrightarrow> \<forall>r \<in> set rs. seg_end r \<le> n \<Longrightarrow>
     ordered_from 0 n (sort_key fst rs)"
  by (induction rs) (auto simp: insort_ordered)

lemma ordered_from_chain: "ordered_from off n rs \<Longrightarrow> sorted_wrt (before_or_append m) rs"
  by (auto simp: ordered_from_iff before_or_append_def elim: sorted_wrt_mono_rel [rotated])

lemma seek_change_context_bounds:
  assumes "seek_change_context lines path c mode li = Inr li'" and "li \<le> length lines"
  shows "li \<le> li' \<and> li' \<le> length lines"
proof (cases "change_context c")
  case None
  then show ?thesis using assms by (simp add: seek_change_context_def)
next
  case (Some ctx)
  then obtain idx where idx: "seek_sequence lines [ctx] li False mode = Some idx" "li' = idx + 1"
    using assms(1) by (auto simp: seek_change_context_def split: option.splits)
  then show ?thesis
    using seek_sequence_nonempty(1) [OF idx(1)] seek_sequence_ge [OF idx(1)] by simp
qed

lemma seek_sequence_bounds:
  assumes "seek_sequence lines pattern li eof PreserveLineEndings = Some i" and "li \<le> length lines"
  shows "li \<le> i \<and> i + length pattern \<le> length lines"
proof (cases "pattern = []")
  case True
  then show ?thesis using assms by (simp add: seek_sequence_def)
next
  case False
  then show ?thesis
    using seek_sequence_nonempty(1) [OF assms(1)] seek_sequence_ge [OF assms(1)] by simp
qed

lemma locate_old_lines_bounds:
  assumes "locate_old_lines lines c PreserveLineEndings li = Some (i, n, new)"
    and "li \<le> length lines"
  shows "li \<le> i \<and> i + n \<le> length lines"
  using assms seek_sequence_bounds
  by (fastforce simp: locate_old_lines_def Let_def split: option.splits if_splits)

lemma region_replacements_ordered:
  assumes "wf_chunk c"
  shows "\<exists>rs. region_replacements c PreserveLineEndings (i, n, new) = Inr rs
    \<and> ordered_from i (i + n) rs"
  using context_replacements_ordered [of "context_line_indices c" 0 0 n new i] assms
  by (auto simp: region_replacements_def wf_chunk_def)

definition chunk_inv :: "nat \<Rightarrow> nat \<Rightarrow> nat \<Rightarrow> replacement list \<Rightarrow> bool" where
  "chunk_inv n li li' rs \<longleftrightarrow>
     li \<le> li' \<and> li' \<le> n \<and> sorted_wrt (before_or_append n) rs \<and>
     (\<forall>r \<in> set rs. seg_end r \<le> n \<and> (fst r = n \<and> fst (snd r) = 0 \<or> li \<le> fst r \<and> seg_end r \<le> li'))"

lemma compute_chunk_inv:
  assumes "wf_chunk c" and "li \<le> length lines"
    and "compute_chunk lines path PreserveLineEndings c li = r"
  shows "(\<exists>msg. r = Inl (ComputeReplacements msg)) \<or>
    (\<exists>rs li'. r = Inr (rs, li') \<and> chunk_inv (length lines) li li' rs)"
proof (cases "seek_change_context lines path c PreserveLineEndings li")
  case (Inl e)
  then show ?thesis
    using assms(3) by (auto simp: compute_chunk_def seek_change_context_def split: option.splits)
next
  case (Inr li1)
  have li1: "li \<le> li1" "li1 \<le> length lines"
    using seek_change_context_bounds [OF Inr assms(2)] by auto
  show ?thesis
  proof (cases "old_lines c = []")
    case True
    then show ?thesis
      using assms(3) Inr li1
      by (auto simp: compute_chunk_def insertion_index_def chunk_inv_def seg_end_def)
  next
    case False
    show ?thesis
    proof (cases "locate_old_lines lines c PreserveLineEndings li1")
      case None
      then show ?thesis using assms(3) Inr False by (auto simp: compute_chunk_def)
    next
      case (Some t)
      obtain i n new where t: "t = (i, n, new)" by (cases t)
      have b: "li1 \<le> i" "i + n \<le> length lines"
        using locate_old_lines_bounds Some li1(2) by (auto simp: t)
      obtain rs where rs: "region_replacements c PreserveLineEndings (i, n, new) = Inr rs"
        and ord: "ordered_from i (i + n) rs"
        using region_replacements_ordered [OF assms(1)] by blast
      have "r = Inr (rs, i + n)"
        using assms(3) Inr False Some rs by (auto simp: compute_chunk_def t)
      moreover have "chunk_inv (length lines) li (i + n) rs"
        using ordered_from_chain [OF ord] ord li1 b
        by (fastforce simp: chunk_inv_def ordered_from_iff)
      ultimately show ?thesis by blast
    qed
  qed
qed

lemma chunk_inv_append:
  assumes "chunk_inv n li li1 rs" and "sorted_wrt (before_or_append n) rs'"
    and "\<forall>r \<in> set rs'. seg_end r \<le> n \<and> li1 \<le> fst r"
  shows "sorted_wrt (before_or_append n) (rs @ rs')"
    and "\<forall>r \<in> set (rs @ rs'). seg_end r \<le> n \<and> li \<le> fst r"
proof -
  show "sorted_wrt (before_or_append n) (rs @ rs')"
    using assms by (fastforce simp: chunk_inv_def sorted_wrt_append before_or_append_def)
  show "\<forall>r \<in> set (rs @ rs'). seg_end r \<le> n \<and> li \<le> fst r"
    using assms by (fastforce simp: chunk_inv_def)
qed

lemma compute_chunks_ordered:
  "list_all wf_chunk cs \<Longrightarrow> li \<le> length lines \<Longrightarrow>
     (\<exists>msg. compute_chunks lines path PreserveLineEndings cs li = Inl (ComputeReplacements msg)) \<or>
     (\<exists>rs. compute_chunks lines path PreserveLineEndings cs li = Inr rs
        \<and> sorted_wrt (before_or_append (length lines)) rs
        \<and> (\<forall>r \<in> set rs. seg_end r \<le> length lines \<and> li \<le> fst r))"
proof (induction cs arbitrary: li)
  case Nil
  then show ?case by simp
next
  case (Cons c cs)
  have "wf_chunk c" using Cons.prems(1) by simp
  from compute_chunk_inv [OF this Cons.prems(2) refl, of path] show ?case
  proof (elim disjE exE conjE)
    fix msg
    assume "compute_chunk lines path PreserveLineEndings c li = Inl (ComputeReplacements msg)"
    then show ?thesis by simp
  next
    fix rs li'
    assume c: "compute_chunk lines path PreserveLineEndings c li = Inr (rs, li')"
      and inv: "chunk_inv (length lines) li li' rs"
    have "li' \<le> length lines" using inv by (simp add: chunk_inv_def)
    with Cons.IH [OF _ this] Cons.prems(1) show ?thesis
      using c chunk_inv_append [OF inv] by fastforce
  qed
qed

text \<open>
  in \<open>PreserveLineEndings\<close> mode, for chunks as the parser makes them, computing the
  replacements never panics: it either reports lines that were not found or yields replacements
  in order that do not overlap and stay within the file.
\<close>

theorem compute_replacements_ordered:
  assumes "list_all wf_chunk chunks"
  shows "case compute_replacements lines path chunks PreserveLineEndings of
    Inl e \<Rightarrow> (\<exists>msg. e = ComputeReplacements msg)
  | Inr rs \<Rightarrow> ordered_from 0 (length lines) rs"
  using compute_chunks_ordered [OF assms, of 0 lines path] sort_ordered
  by (auto simp: compute_replacements_def)

section \<open>The vector loop is a splice\<close>

lemma remove_times_eq:
  "i \<le> length xs \<Longrightarrow> remove_times n i xs = take i xs @ drop (i + n) xs"
proof (induction n i xs rule: remove_times.induct)
  case (1 i xs)
  then show ?case by simp
next
  case (2 n i xs)
  show ?case
  proof (cases "i < length xs")
    case True
    let ?ys = "take i xs @ drop (Suc i) xs"
    have "remove_times n i ?ys = take i ?ys @ drop (i + n) ?ys" using "2.IH" True by simp
    also have "\<dots> = take i xs @ drop (i + Suc n) xs" using True by (simp add: add.commute)
    finally show ?thesis using True by simp
  next
    case False
    then show ?thesis using 2 by simp
  qed
qed

lemma insert_lines_eq:
  "i \<le> length xs \<Longrightarrow> insert_lines i new xs = Some (take i xs @ new @ drop i xs)"
proof (induction i new xs rule: insert_lines.induct)
  case (1 i xs)
  then show ?case by simp
next
  case (2 i x new xs)
  then have "insert_lines (Suc i) new (take i xs @ x # drop i xs) =
      Some (take (Suc i) (take i xs @ x # drop i xs) @ new @ drop (Suc i) (take i xs @ x # drop i xs))"
    by simp
  then show ?case using 2 by simp
qed

lemma apply_replacement_eq:
  "s \<le> length xs \<Longrightarrow> apply_replacement (s, l, new) xs = Some (take s xs @ new @ drop (s + l) xs)"
  by (simp add: apply_replacement_def remove_times_eq insert_lines_eq)

lemma splice_from_prefix:
  assumes "ordered_from off n rs" and "off \<le> length xs"
  shows "splice_from f 0 xs rs = take off xs @ splice_from f off (drop off xs) rs"
  using assms
proof (cases rs)
  case Nil
  then show ?thesis by simp
next
  case (Cons r rs')
  obtain s l new where r: "r = (s, l, new)" by (cases r)
  have "off \<le> s" using assms(1) Cons r by simp
  then have "take s xs = take off xs @ take (s - off) (drop off xs)"
    by (metis le_add_diff_inverse take_add)
  moreover have "drop (s - off + l) (drop off xs) = drop (s + l) xs"
    using \<open>off \<le> s\<close> by (simp add: add.commute)
  ultimately show ?thesis by (simp add: Cons r)
qed

lemma apply_replacements_splice:
  "ordered_from 0 (length lines) rs \<Longrightarrow> apply_replacements lines rs = Some (splice_from id 0 lines rs)"
proof (induction rs)
  case Nil
  then show ?case by (simp add: apply_replacements_def)
next
  case (Cons r rs)
  obtain s l new where r: "r = (s, l, new)" by (cases r)
  have ord: "ordered_from (s + l) (length lines) rs" using Cons.prems by (simp add: r)
  have sl: "s + l \<le> length lines" using ordered_from_le [OF ord] .
  have "ordered_from 0 (length lines) rs" using ord by (auto simp: ordered_from_iff)
  then have IH: "apply_replacements lines rs = Some (splice_from id 0 lines rs)" by (rule Cons.IH)
  let ?t = "splice_from id (s + l) (drop (s + l) lines) rs"
  have sp: "splice_from id 0 lines rs = take (s + l) lines @ ?t"
    by (rule splice_from_prefix [OF ord sl])
  have "apply_replacement r (take (s + l) lines @ ?t) = Some (take s lines @ new @ ?t)"
    using sl by (simp add: r apply_replacement_eq)
  then have "apply_replacements lines (r # rs) = Some (take s lines @ new @ ?t)"
    using IH unfolding sp by (simp add: apply_replacements_def)
  moreover have "splice_from id 0 lines (r # rs) = take s lines @ new @ ?t"
    by (simp add: r id_def)
  ultimately show ?case by (simp only:)
qed

text \<open>
  on replacements in order that do not overlap, the loop that removes and inserts lines from
  the back computes the splice that the line-preserving mode computes, and never panics.
\<close>

theorem apply_replacements_correct:
  assumes "ordered_from 0 (length lines) rs"
  shows "apply_replacements lines rs = Some (splice_from id 0 lines rs)"
  using assms by (rule apply_replacements_splice)

lemma apply_replacements_Some:
  assumes "sorted (map fst rs)" and "\<forall>r \<in> set rs. fst r \<le> length lines"
  shows "\<exists>ls. apply_replacements lines rs = Some ls \<and> (rs \<noteq> [] \<longrightarrow> fst (hd rs) \<le> length ls)"
  using assms
proof (induction rs)
  case Nil
  then show ?case by (simp add: apply_replacements_def)
next
  case (Cons r rs)
  obtain s l new where r: "r = (s, l, new)" by (cases r)
  from Cons obtain ls where ls: "apply_replacements lines rs = Some ls"
    and len: "rs \<noteq> [] \<longrightarrow> fst (hd rs) \<le> length ls" by auto
  have "s \<le> length ls"
  proof (cases rs)
    case Nil
    then show ?thesis using ls Cons.prems(2) by (simp add: apply_replacements_def r)
  next
    case (Cons r' rs')
    then show ?thesis using len Cons.prems(1) by (simp add: r)
  qed
  then have "apply_replacement r ls = Some (take s ls @ new @ drop (s + l) ls)"
    by (simp add: r apply_replacement_eq)
  then show ?case using ls \<open>s \<le> length ls\<close> by (simp add: apply_replacements_def r)
qed

section \<open>No panic in either mode\<close>

lemma seek_sequence_le:
  assumes "seek_sequence lines pattern li eof mode = Some i" and "li \<le> length lines"
  shows "i + length pattern \<le> length lines"
  using assms seek_sequence_nonempty(1) [OF assms(1)]
  by (cases "pattern = []") (auto simp: seek_sequence_def)

lemma locate_old_lines_le:
  assumes "locate_old_lines lines c mode li = Some (i, n, new)" and "li \<le> length lines"
  shows "i + n \<le> length lines"
  using assms seek_sequence_le
  by (fastforce simp: locate_old_lines_def Let_def split: option.splits if_splits)

lemma compute_chunk_lf:
  assumes "li \<le> length lines"
  shows "(\<exists>msg. compute_chunk lines path NormalizeToLf c li = Inl (ComputeReplacements msg)) \<or>
    (\<exists>r li'. compute_chunk lines path NormalizeToLf c li = Inr ([r], li')
       \<and> li' \<le> length lines \<and> fst r \<le> length lines)"
proof (cases "seek_change_context lines path c NormalizeToLf li")
  case (Inl e)
  then show ?thesis
    by (auto simp: compute_chunk_def seek_change_context_def split: option.splits)
next
  case (Inr li1)
  have li1: "li1 \<le> length lines" using seek_change_context_bounds [OF Inr assms] by simp
  show ?thesis
  proof (cases "old_lines c = []")
    case True
    then show ?thesis using Inr li1 by (simp add: compute_chunk_def insertion_index_def)
  next
    case False
    show ?thesis
    proof (cases "locate_old_lines lines c NormalizeToLf li1")
      case None
      then show ?thesis using Inr False by (simp add: compute_chunk_def)
    next
      case (Some t)
      then show ?thesis
        using Inr False locate_old_lines_le [of lines c NormalizeToLf li1] li1
        by (cases t) (fastforce simp: compute_chunk_def region_replacements_def)
    qed
  qed
qed

lemma compute_chunks_lf:
  "li \<le> length lines \<Longrightarrow>
     (\<exists>msg. compute_chunks lines path NormalizeToLf cs li = Inl (ComputeReplacements msg)) \<or>
     (\<exists>rs. compute_chunks lines path NormalizeToLf cs li = Inr rs
        \<and> (\<forall>r \<in> set rs. fst r \<le> length lines))"
proof (induction cs arbitrary: li)
  case Nil
  then show ?case by simp
next
  case (Cons c cs)
  from compute_chunk_lf [OF Cons.prems, of path c] show ?case
  proof (elim disjE exE conjE)
    fix msg
    assume "compute_chunk lines path NormalizeToLf c li = Inl (ComputeReplacements msg)"
    then show ?thesis by simp
  next
    fix r li'
    assume "compute_chunk lines path NormalizeToLf c li = Inr ([r], li')" and "li' \<le> length lines"
      and "fst r \<le> length lines"
    then show ?thesis using Cons.IH [of li'] by auto
  qed
qed

lemma derive_lf_no_panic: "derive_new_contents original path chunks NormalizeToLf \<noteq> Inl UpdatePanic"
proof -
  let ?ls = "split_lines_lf original"
  have "(\<exists>msg. compute_replacements ?ls path chunks NormalizeToLf = Inl (ComputeReplacements msg)) \<or>
    (\<exists>rs ls. compute_replacements ?ls path chunks NormalizeToLf = Inr rs
       \<and> apply_replacements ?ls rs = Some ls)"
    using compute_chunks_lf [of 0 ?ls path chunks] apply_replacements_Some [of "sort_key fst _" ?ls]
    by (fastforce simp: compute_replacements_def)
  then show ?thesis by (auto simp: derive_new_contents_def Let_def)
qed

lemma derive_preserve_cases:
  assumes "list_all wf_chunk chunks"
  shows "(\<exists>msg. derive_new_contents original path chunks PreserveLineEndings
             = Inl (ComputeReplacements msg)) \<or>
    (\<exists>rs f. compute_replacements (line_texts (source_parse original)) path chunks PreserveLineEndings
         = Inr rs \<and> ordered_from 0 (length (file_lines (source_parse original))) rs
       \<and> source_apply_replacements (source_parse original) rs = Some f
       \<and> derive_new_contents original path chunks PreserveLineEndings
           = Inr \<lparr>original_contents = original, new_contents = into_contents f\<rparr>)"
proof -
  let ?f = "source_parse original"
  show ?thesis
  proof (cases "compute_replacements (line_texts ?f) path chunks PreserveLineEndings")
    case (Inl e)
    then show ?thesis
      using compute_chunks_ordered [OF assms, of 0 "line_texts ?f" path]
      by (auto simp: derive_new_contents_def compute_replacements_def)
  next
    case (Inr rs)
    then have ord: "ordered_from 0 (length (file_lines ?f)) rs"
      using compute_chunks_ordered [OF assms, of 0 "line_texts ?f" path] sort_ordered
      by (auto simp: compute_replacements_def line_texts_def)
    moreover obtain f where "source_apply_replacements ?f rs = Some f"
      using source_replace_loop_splice [OF ord] by (simp add: source_apply_replacements_def)
    ultimately show ?thesis using Inr by (simp add: derive_new_contents_def Let_def)
  qed
qed

section \<open>Properties of file updates\<close>

lemma derive_no_panic:
  assumes "mode = PreserveLineEndings \<longrightarrow> list_all wf_chunk chunks"
  shows "derive_new_contents original path chunks mode \<noteq> Inl UpdatePanic"
proof (cases mode)
  case NormalizeToLf
  then show ?thesis by (simp add: derive_lf_no_panic)
next
  case PreserveLineEndings
  then show ?thesis using derive_preserve_cases [of chunks original path] assms by fastforce
qed

text \<open>
  an update that preserves line endings rewrites only the replaced regions: the new contents
  are the old lines, each with the ending it had (the file's preferred one where the last line
  had none), spliced with the new lines, which take the preferred ending.
\<close>

theorem derive_preserve_splices:
  assumes "list_all wf_chunk chunks"
    and "derive_new_contents original path chunks PreserveLineEndings = Inr ap"
  shows "\<exists>rs. compute_replacements (line_texts (source_parse original)) path chunks
        PreserveLineEndings = Inr rs
    \<and> ordered_from 0 (length (file_lines (source_parse original))) rs
    \<and> original_contents ap = original
    \<and> new_contents ap = concat (map line_str
        (splice_from (new_line (preferred_ending (source_parse original))) 0
          (map (terminate_line (preferred_ending (source_parse original)))
            (file_lines (source_parse original))) rs))"
proof -
  let ?f = "source_parse original"
  obtain rs f where "compute_replacements (line_texts ?f) path chunks PreserveLineEndings = Inr rs"
    and ord: "ordered_from 0 (length (file_lines ?f)) rs"
    and f: "source_apply_replacements ?f rs = Some f"
    and ap: "ap = \<lparr>original_contents = original, new_contents = into_contents f\<rparr>"
    using derive_preserve_cases [OF assms(1), of original path] assms(2) by auto
  moreover have "file_lines f = map (terminate_line (preferred_ending ?f))
      (splice_from (new_line (preferred_ending ?f)) 0 (file_lines ?f) rs)"
    using f source_replace_loop_splice [OF ord] by (auto simp: source_apply_replacements_def)
  moreover have "terminate_line e \<circ> new_line e = new_line e" for e
    by (simp add: fun_eq_iff terminate_line_def new_line_def get_or_insert_def)
  ultimately show ?thesis by (auto simp: into_contents_def map_splice_from)
qed

text \<open>A chunk with one removed and one added line, for the witnesses.\<close>

definition sample_chunk :: update_file_chunk where
  "sample_chunk = chunk_default\<lparr>old_lines := [''a''], new_lines := [''b'']\<rparr>"

lemma sample_chunk_wf: "list_all wf_chunk [sample_chunk]"
  by (simp add: sample_chunk_def wf_chunk_def chunk_default_def indices_ascending_def)

lemma sample_chunk_replacements:
  "compute_replacements [''x'', ''a''] ''f'' [sample_chunk] PreserveLineEndings
     = Inr [(1, 1, [''b''])]"
  by (simp add: compute_replacements_def compute_chunk_def seek_change_context_def sample_chunk_def
      chunk_default_def locate_old_lines_def seek_sequence_def search_start_of_def
      search_pass_def window_matches_def region_replacements_def Let_def upt_rec)

theorem compute_replacements_ordered_witness:
  "ordered_from 0 2 [(1, 1, [''b''])]
   \<and> compute_replacements [''x'', ''a''] ''f'' [sample_chunk] PreserveLineEndings
     = Inr [(1, 1, [''b''])]"
  using compute_replacements_ordered [OF sample_chunk_wf, of "[''x'', ''a'']" "''f''"]
  by (simp add: sample_chunk_replacements)

theorem apply_replacements_correct_witness:
  "apply_replacements [''x'', ''a'', ''y''] [(0, 1, []), (2, 1, [''p'', ''q''])]
     = Some [''a'', ''p'', ''q'']"
  using apply_replacements_correct [of "[''x'', ''a'', ''y'']" "[(0, 1, []), (2, 1, [''p'', ''q''])]"]
  by simp

theorem derive_preserve_splices_witness:
  "\<exists>ap. derive_new_contents [CHR ''x'', cr_char, lf_char, CHR ''a''] ''f'' [sample_chunk]
       PreserveLineEndings = Inr ap
     \<and> new_contents ap = [CHR ''x'', cr_char, lf_char, CHR ''b'', cr_char, lf_char]"
proof -
  let ?s = "[CHR ''x'', cr_char, lf_char, CHR ''a'']"
  have p: "source_parse ?s =
      \<lparr>file_lines = [\<lparr>line_text = ''x'', line_end = Some CrLf\<rparr>, \<lparr>line_text = ''a'', line_end = None\<rparr>],
       preferred_ending = CrLf\<rparr>"
    by (simp add: source_parse_def get_or_insert_def)
  have c: "compute_replacements (line_texts (source_parse ?s)) ''f'' [sample_chunk]
      PreserveLineEndings = Inr [(1, 1, [''b''])]"
    using sample_chunk_replacements by (simp add: p line_texts_def)
  then obtain ap where ap: "derive_new_contents ?s ''f'' [sample_chunk] PreserveLineEndings = Inr ap"
    by (simp add: derive_new_contents_def Let_def source_apply_replacements_def p)
  from derive_preserve_splices [OF sample_chunk_wf ap] c ap show ?thesis
    by (auto simp: p terminate_line_def get_or_insert_def new_line_def line_str_def)
qed

section \<open>Exact patches\<close>

definition lines_text :: "str list \<Rightarrow> str" where
  "lines_text ls = concat (map (\<lambda>l. l @ [lf_char]) ls)"

lemma split_on_line: "d \<notin> set l \<Longrightarrow> split_on d (l @ d # s) = l # split_on d s"
  by (induction l) auto

lemma split_on_lines_text:
  "list_all (\<lambda>l. lf_char \<notin> set l) ls \<Longrightarrow> split_on lf_char (lines_text ls) = ls @ [[]]"
  by (induction ls) (simp_all add: lines_text_def split_on_line)

lemma split_lines_lf_lines_text:
  "list_all (\<lambda>l. lf_char \<notin> set l) ls \<Longrightarrow> split_lines_lf (lines_text ls) = ls"
  by (simp add: split_lines_lf_def split_on_lines_text last_is_empty_def)

lemma join_lines_text: "join_with [lf_char] (ls @ [[]]) = lines_text ls"
proof (induction ls)
  case Nil
  then show ?case by (simp add: lines_text_def)
next
  case (Cons l ls)
  then show ?case by (cases "ls @ [[]]") (auto simp: lines_text_def)
qed

lemma seek_sequence_exact:
  assumes "lines = pre @ pat @ post" and "pat \<noteq> []"
    and "\<forall>j < length pre. take (length pat) (drop j lines) \<noteq> pat"
  shows "seek_sequence lines pat 0 False mode = Some (length pre)"
proof -
  have "search_pass (\<lambda>l p. l = p) lines pat 0 = Some (length pre)"
    using assms by (auto simp: search_pass_Some_iff window_matches_def list.rel_eq)
  then show ?thesis using assms by (simp add: seek_sequence_def search_start_of_def)
qed

text \<open>
  a chunk that quotes its old lines exactly replaces their first occurrence in the file and
  nothing else; the rest of the file is kept byte for byte.
\<close>

theorem derive_replaces_first_occurrence:
  assumes "lines = pre @ old_lines c @ post" and "old_lines c \<noteq> []"
    and "list_all (\<lambda>l. lf_char \<notin> set l) lines"
    and "\<forall>j < length pre. take (length (old_lines c)) (drop j lines) \<noteq> old_lines c"
    and "change_context c = None" and "\<not> is_end_of_file c"
    and "\<not> last_is_empty (pre @ new_lines c @ post)"
  shows "derive_new_contents (lines_text lines) path [c] NormalizeToLf =
    Inr \<lparr>original_contents = lines_text lines, new_contents = lines_text (pre @ new_lines c @ post)\<rparr>"
proof -
  have seek: "seek_sequence lines (old_lines c) 0 False NormalizeToLf = Some (length pre)"
    by (rule seek_sequence_exact [OF assms(1,2,4)])
  have "compute_replacements lines path [c] NormalizeToLf =
      Inr [(length pre, length (old_lines c), new_lines c)]"
    using assms(2,5,6) seek
    by (simp add: compute_replacements_def compute_chunk_def seek_change_context_def
        locate_old_lines_def region_replacements_def Let_def)
  moreover have "apply_replacements lines [(length pre, length (old_lines c), new_lines c)] =
      Some (pre @ new_lines c @ post)"
    using assms(1) by (simp add: apply_replacements_def apply_replacement_eq)
  ultimately show ?thesis
    using assms(3,7) join_lines_text [of "pre @ new_lines c @ post"]
    by (simp add: derive_new_contents_def split_lines_lf_lines_text Let_def)
qed

theorem derive_replaces_first_occurrence_witness:
  "derive_new_contents (lines_text [''x'', ''a'', ''y'']) ''f'' [sample_chunk] NormalizeToLf =
     Inr \<lparr>original_contents = lines_text [''x'', ''a'', ''y''],
          new_contents = lines_text [''x'', ''b'', ''y'']\<rparr>"
  using derive_replaces_first_occurrence [of "[''x'', ''a'', ''y'']" "[''x'']" sample_chunk "[''y'']" "''f''"]
  by (simp add: sample_chunk_def chunk_default_def last_is_empty_def)

section \<open>Deviations\<close>

text \<open>
  with normalised line endings an update drops a blank line at the end of the file, although
  no chunk mentions it: the file \<open>a\<close>, \<open>y\<close>, blank becomes \<open>b\<close>, \<open>y\<close>.
\<close>

theorem normalize_drops_final_blank_line:
  "derive_new_contents (lines_text [''a'', ''y'', []]) ''f'' [sample_chunk] NormalizeToLf =
     Inr \<lparr>original_contents = lines_text [''a'', ''y'', []],
          new_contents = lines_text [''b'', ''y'']\<rparr>"
proof -
  let ?ls = "[''a'', ''y'', []]"
  have sp: "split_lines_lf (lines_text ?ls) = ?ls"
    by (rule split_lines_lf_lines_text) simp
  have "seek_sequence ?ls [''a''] 0 False NormalizeToLf = Some 0"
    using seek_sequence_exact [of ?ls "[]" "[''a'']" "[''y'', []]" NormalizeToLf] by simp
  then have "compute_replacements ?ls ''f'' [sample_chunk] NormalizeToLf = Inr [(0, 1, [''b''])]"
    by (simp add: compute_replacements_def compute_chunk_def seek_change_context_def
        locate_old_lines_def region_replacements_def Let_def sample_chunk_def chunk_default_def)
  moreover have "join_with [lf_char] [''b'', ''y'', []] = lines_text [''b'', ''y'']"
    by (simp add: lines_text_def)
  ultimately show ?thesis
    by (simp add: derive_new_contents_def sp apply_replacements_def apply_replacement_eq
        last_is_empty_def Let_def)
qed

text \<open>
  with normalised line endings a chunk marked as ending the file is searched only at the end,
  even behind the place earlier chunks have reached, so two chunks can replace the same line; the
  mode that preserves line endings refuses the second chunk.
\<close>

theorem normalize_eof_chunk_overlaps:
  "compute_replacements [''x'', ''a''] ''f'' [sample_chunk, sample_chunk\<lparr>is_end_of_file := True\<rparr>]
     NormalizeToLf = Inr [(1, 1, [''b'']), (1, 1, [''b''])]
   \<and> (\<exists>msg. compute_replacements [''x'', ''a''] ''f''
        [sample_chunk, sample_chunk\<lparr>is_end_of_file := True\<rparr>] PreserveLineEndings
        = Inl (ComputeReplacements msg))"
proof -
  have "seek_sequence [''x'', ''a''] [''a''] 0 False mode = Some 1" for mode
    using seek_sequence_exact [of "[''x'', ''a'']" "[''x'']" "[''a'']" "[]" mode] by simp
  moreover have "seek_sequence [''x'', ''a''] [''a''] (Suc (Suc 0)) True NormalizeToLf = Some 1"
    by (simp add: seek_sequence_def search_start_of_def search_pass_def window_matches_def upt_rec)
  moreover have "seek_sequence [''x'', ''a''] [''a''] (Suc (Suc 0)) True PreserveLineEndings = None"
    by (simp add: seek_sequence_def search_start_of_def search_pass_def)
  ultimately show ?thesis
    by (simp add: compute_replacements_def compute_chunk_def seek_change_context_def
        locate_old_lines_def region_replacements_def Let_def sample_chunk_def chunk_default_def
        last_is_empty_def)
qed

end
