(* ===== verification/Patch_Apply.thy ===== *)
theory Patch_Apply
  imports Patch_File_Update Patch_Parser
begin

text \<open>
  Applying a patch to a file system (\<open>codex-rs/apply-patch/src/lib.rs\<close>): the hunks in order, the
  committed changes recorded in a delta, and the flag that tells whether the delta is exact.

  The file system (\<open>ExecutorFileSystem\<close>), the path arithmetic of \<open>PathUri\<close> and the two writers are
  arguments: an operation takes the world and returns the new one.  What applying a patch relies
  on is the locale \<open>text_fs\<close>; an in-memory file system with directories and symbolic links
  satisfies it.
\<close>

section \<open>The interfaces\<close>

datatype io_kind = NotFound | InvalidInput | OtherKind

datatype io_error = IoError (io_kind: io_kind) (io_message: str)

record file_metadata =
  is_directory :: bool
  is_file :: bool
  is_symlink :: bool

record ('w, 'p) fs_ops =
  fs_read_text :: "'w \<Rightarrow> 'p \<Rightarrow> io_error + str"
  fs_metadata :: "'w \<Rightarrow> 'p \<Rightarrow> io_error + file_metadata"
  fs_write :: "'p \<Rightarrow> str \<Rightarrow> 'w \<Rightarrow> 'w \<times> (io_error + unit)"
  fs_create_directory :: "'p \<Rightarrow> 'w \<Rightarrow> 'w \<times> (io_error + unit)"
  fs_remove :: "'p \<Rightarrow> 'w \<Rightarrow> 'w \<times> (io_error + unit)"

record 'p path_ops =
  path_join :: "'p \<Rightarrow> str \<Rightarrow> str + 'p"
  path_parent :: "'p \<Rightarrow> 'p option"
  path_native :: "'p \<Rightarrow> str"

section \<open>The delta\<close>

datatype 'p applied_change =
    ChangeAdd 'p str "str option"
  | ChangeDelete 'p str
  | ChangeUpdate 'p "'p option" str "str option" str

record 'p patch_delta =
  changes :: "'p applied_change list"
  exact :: bool

definition delta_empty :: "'p patch_delta" where
  "delta_empty = \<lparr>changes = [], exact = True\<rparr>"

definition delta_append :: "'p patch_delta \<Rightarrow> 'p patch_delta \<Rightarrow> 'p patch_delta" where
  "delta_append d d' = d\<lparr>changes := changes d @ changes d', exact := exact d \<and> exact d'\<rparr>"

definition push_change :: "'p applied_change \<Rightarrow> 'p patch_delta \<Rightarrow> 'p patch_delta" where
  "push_change c d = d\<lparr>changes := changes d @ [c]\<rparr>"

text \<open>\<open>delta.exact &= b\<close>.\<close>

definition and_exact :: "bool \<Rightarrow> 'p patch_delta \<Rightarrow> 'p patch_delta" where
  "and_exact b d = d\<lparr>exact := exact d \<and> b\<rparr>"

section \<open>Errors\<close>

text \<open>
  The \<open>anyhow::Error\<close> of the application: a plain message, a path that cannot be resolved, an I/O
  error with its context (which \<open>downcast_ref::<io::Error>\<close> finds), and the \<open>ApplyPatchError\<close>s of
  reading the file to update and of computing the update.
\<close>

datatype apply_error =
    NoFilesModified
  | PathUriError str
  | IoContext str io_error
  | UpdateReadError str io_error
  | UpdateError update_error

definition with_context :: "str \<Rightarrow> io_error + 'a \<Rightarrow> apply_error + 'a" where
  "with_context ctx r = map_err (IoContext ctx) r"

section \<open>Probing the file system\<close>

definition delta_supported :: "('w, 'p) fs_ops \<Rightarrow> 'w \<Rightarrow> 'p \<Rightarrow> bool" where
  "delta_supported fs w p =
     (case fs_metadata fs w p of
        Inr m \<Rightarrow> is_file m \<and> \<not> is_symlink m
      | Inl e \<Rightarrow> io_kind e = NotFound)"

definition note_existing_path_delta_support ::
    "('w, 'p) fs_ops \<Rightarrow> 'w \<Rightarrow> 'p \<Rightarrow> bool \<Rightarrow> bool" where
  "note_existing_path_delta_support fs w p ex = (ex \<and> delta_supported fs w p)"

definition read_optional_file_text_for_delta ::
    "('w, 'p) fs_ops \<Rightarrow> 'w \<Rightarrow> 'p \<Rightarrow> bool \<Rightarrow> str option \<times> bool" where
  "read_optional_file_text_for_delta fs w p ex =
     (let ex' = note_existing_path_delta_support fs w p ex
      in case fs_read_text fs w p of
           Inr content \<Rightarrow> (Some content, ex')
         | Inl e \<Rightarrow> if io_kind e = NotFound then (None, ex') else (None, False))"

definition ensure_not_directory :: "('w, 'p) fs_ops \<Rightarrow> 'w \<Rightarrow> 'p \<Rightarrow> io_error + unit" where
  "ensure_not_directory fs w p =
     and_then (fs_metadata fs w p) (\<lambda>m.
       if is_directory m then Inl (IoError InvalidInput ''path is a directory'') else Inr ())"

definition remove_failure_was_side_effect_free ::
    "('w, 'p) fs_ops \<Rightarrow> 'w \<Rightarrow> 'p \<Rightarrow> str option \<Rightarrow> bool" where
  "remove_failure_was_side_effect_free fs w p expected =
     (case expected of
        Some e \<Rightarrow> (case fs_read_text fs w p of Inr content \<Rightarrow> content = e | Inl _ \<Rightarrow> False)
      | None \<Rightarrow> False)"

section \<open>Writing and removing\<close>

definition write_file_with_missing_parent_retry ::
    "('w, 'p) fs_ops \<Rightarrow> 'p path_ops \<Rightarrow> 'p \<Rightarrow> str \<Rightarrow> 'w \<Rightarrow> 'w \<times> (apply_error + unit)" where
  "write_file_with_missing_parent_retry fs po p contents w =
     (let failed = ''Failed to write file '' @ path_native po p
      in case fs_write fs p contents w of
           (w1, Inr _) \<Rightarrow> (w1, Inr ())
         | (w1, Inl e) \<Rightarrow>
             if io_kind e = NotFound then
               (let (w2, r) =
                  (case path_parent po p of
                     Some parent \<Rightarrow>
                       (let (w2, r) = fs_create_directory fs parent w1
                        in (w2, with_context
                             (''Failed to create parent directories for '' @ path_native po p) r))
                   | None \<Rightarrow> (w1, Inr ()))
                in case r of
                     Inl err \<Rightarrow> (w2, Inl err)
                   | Inr _ \<Rightarrow>
                       (let (w3, r3) = fs_write fs p contents w2 in (w3, with_context failed r3)))
             else (w1, Inl (IoContext failed e)))"

definition derive_new_contents_from_chunks ::
    "('w, 'p) fs_ops \<Rightarrow> 'p path_ops \<Rightarrow> 'w \<Rightarrow> 'p \<Rightarrow> update_file_chunk list \<Rightarrow> update_mode \<Rightarrow>
       apply_error + applied_patch" where
  "derive_new_contents_from_chunks fs po w p chunks um =
     and_then (map_err (UpdateReadError (''Failed to read file to update '' @ path_native po p))
                 (fs_read_text fs w p)) (\<lambda>original.
       map_err UpdateError (derive_new_contents original (path_native po p) chunks um))"

text \<open>
  \<open>ensure_not_directory\<close> and \<open>fs.remove\<close>, as the deletion and the move use them: a failed removal
  keeps the delta exact only if the file still reads as \<open>expected\<close>.
\<close>

definition remove_checked ::
    "('w, 'p) fs_ops \<Rightarrow> str \<Rightarrow> 'p \<Rightarrow> str option \<Rightarrow> 'w \<Rightarrow> 'p patch_delta \<Rightarrow>
       'w \<times> 'p patch_delta \<times> (apply_error + unit)" where
  "remove_checked fs ctx p expected w d =
     (case with_context ctx (ensure_not_directory fs w p) of
        Inl e \<Rightarrow> (w, d, Inl e)
      | Inr _ \<Rightarrow>
          (case fs_remove fs p w of
             (w1, Inr _) \<Rightarrow> (w1, d, Inr ())
           | (w1, Inl e) \<Rightarrow>
               (w1, and_exact (remove_failure_was_side_effect_free fs w1 p expected) d,
                Inl (IoContext ctx e))))"

section \<open>The hunks\<close>

record affected_paths =
  added :: "str list"
  modified :: "str list"
  deleted :: "str list"

definition affected_empty :: affected_paths where
  "affected_empty = \<lparr>added = [], modified = [], deleted = []\<rparr>"

definition apply_add ::
    "('w, 'p) fs_ops \<Rightarrow> 'p path_ops \<Rightarrow> 'p \<Rightarrow> str \<Rightarrow> 'w \<Rightarrow> 'p patch_delta \<Rightarrow>
       'w \<times> 'p patch_delta \<times> (apply_error + unit)" where
  "apply_add fs po p contents w d =
     (let (overwritten, ex) = read_optional_file_text_for_delta fs w p (exact d);
          d1 = d\<lparr>exact := ex\<rparr>
      in case write_file_with_missing_parent_retry fs po p contents w of
           (w1, Inl e) \<Rightarrow> (w1, d1\<lparr>exact := False\<rparr>, Inl e)
         | (w1, Inr _) \<Rightarrow> (w1, push_change (ChangeAdd p contents overwritten) d1, Inr ()))"

definition apply_delete ::
    "('w, 'p) fs_ops \<Rightarrow> 'p path_ops \<Rightarrow> 'p \<Rightarrow> 'w \<Rightarrow> 'p patch_delta \<Rightarrow>
       'w \<times> 'p patch_delta \<times> (apply_error + unit)" where
  "apply_delete fs po p w d =
     (let d1 = d\<lparr>exact := note_existing_path_delta_support fs w p (exact d)\<rparr>;
          content = (case fs_read_text fs w p of Inr c \<Rightarrow> Some c | Inl _ \<Rightarrow> None);
          d2 = (if content = None then d1\<lparr>exact := False\<rparr> else d1)
      in case remove_checked fs (''Failed to delete file '' @ path_native po p) p content w d2 of
           (w1, d3, Inl e) \<Rightarrow> (w1, d3, Inl e)
         | (w1, d3, Inr _) \<Rightarrow>
             (w1, (case content of Some c \<Rightarrow> push_change (ChangeDelete p c) d3 | None \<Rightarrow> d3), Inr ()))"

definition apply_move ::
    "('w, 'p) fs_ops \<Rightarrow> 'p path_ops \<Rightarrow> 'p \<Rightarrow> 'p \<Rightarrow> applied_patch \<Rightarrow> 'w \<Rightarrow> 'p patch_delta \<Rightarrow>
       'w \<times> 'p patch_delta \<times> (apply_error + unit)" where
  "apply_move fs po p dest ap w d =
     (let (overwritten, ex) = read_optional_file_text_for_delta fs w dest (exact d);
          d1 = d\<lparr>exact := ex\<rparr>
      in case write_file_with_missing_parent_retry fs po dest (new_contents ap) w of
           (w1, Inl e) \<Rightarrow> (w1, d1\<lparr>exact := False\<rparr>, Inl e)
         | (w1, Inr _) \<Rightarrow>
             (let index = length (changes d1);
                  d2 = push_change (ChangeAdd dest (new_contents ap) overwritten) d1
              in case remove_checked fs (''Failed to remove original '' @ path_native po p) p
                        (Some (original_contents ap)) w1 d2 of
                   (w2, d3, Inl e) \<Rightarrow> (w2, d3, Inl e)
                 | (w2, d3, Inr _) \<Rightarrow>
                     (w2, d3\<lparr>changes := (changes d3)[index :=
                        ChangeUpdate p (Some dest) (original_contents ap) overwritten (new_contents ap)]\<rparr>,
                      Inr ())))"

definition apply_update ::
    "('w, 'p) fs_ops \<Rightarrow> 'p path_ops \<Rightarrow> 'p \<Rightarrow> update_mode \<Rightarrow> 'p \<Rightarrow> str option \<Rightarrow>
       update_file_chunk list \<Rightarrow> 'w \<Rightarrow> 'p patch_delta \<Rightarrow> 'w \<times> 'p patch_delta \<times> (apply_error + unit)" where
  "apply_update fs po cwd um p move_path chunks w d =
     (let d1 = d\<lparr>exact := note_existing_path_delta_support fs w p (exact d)\<rparr>
      in case derive_new_contents_from_chunks fs po w p chunks um of
           Inl e \<Rightarrow> (w, d1, Inl e)
         | Inr ap \<Rightarrow>
             (case move_path of
                Some dest \<Rightarrow>
                  (case path_join po cwd dest of
                     Inl e \<Rightarrow> (w, d1, Inl (PathUriError e))
                   | Inr dest_uri \<Rightarrow> apply_move fs po p dest_uri ap w d1)
              | None \<Rightarrow>
                  (case fs_write fs p (new_contents ap) w of
                     (w1, Inl e) \<Rightarrow>
                       (w1, d1\<lparr>exact := False\<rparr>, Inl (IoContext (''Failed to write file '' @ path_native po p) e))
                   | (w1, Inr _) \<Rightarrow>
                       (w1, push_change (ChangeUpdate p None (original_contents ap) None (new_contents ap)) d1,
                        Inr ()))))"

fun note_affected :: "hunk \<Rightarrow> affected_paths \<Rightarrow> affected_paths" where
  "note_affected (AddFile path c) a = a\<lparr>added := added a @ [hunk_path (AddFile path c)]\<rparr>"
| "note_affected (DeleteFile path) a = a\<lparr>deleted := deleted a @ [hunk_path (DeleteFile path)]\<rparr>"
| "note_affected (UpdateFile path mv cs) a = a\<lparr>modified := modified a @ [hunk_path (UpdateFile path mv cs)]\<rparr>"

definition apply_hunk ::
    "('w, 'p) fs_ops \<Rightarrow> 'p path_ops \<Rightarrow> 'p \<Rightarrow> update_mode \<Rightarrow> hunk \<Rightarrow> 'w \<Rightarrow> 'p patch_delta \<Rightarrow>
       'w \<times> 'p patch_delta \<times> (apply_error + unit)" where
  "apply_hunk fs po cwd um h w d =
     (case path_join po cwd (hunk_source_path h) of
        Inl e \<Rightarrow> (w, d, Inl (PathUriError e))
      | Inr p \<Rightarrow>
          (case h of
             AddFile _ contents \<Rightarrow> apply_add fs po p contents w d
           | DeleteFile _ \<Rightarrow> apply_delete fs po p w d
           | UpdateFile _ move_path chunks \<Rightarrow> apply_update fs po cwd um p move_path chunks w d))"

fun apply_hunk_list ::
    "('w, 'p) fs_ops \<Rightarrow> 'p path_ops \<Rightarrow> 'p \<Rightarrow> update_mode \<Rightarrow> hunk list \<Rightarrow> affected_paths \<Rightarrow> 'w \<Rightarrow>
       'p patch_delta \<Rightarrow> 'w \<times> 'p patch_delta \<times> (apply_error + affected_paths)" where
  "apply_hunk_list fs po cwd um [] a w d = (w, d, Inr a)"
| "apply_hunk_list fs po cwd um (h # hs) a w d =
     (case apply_hunk fs po cwd um h w d of
        (w1, d1, Inl e) \<Rightarrow> (w1, d1, Inl e)
      | (w1, d1, Inr _) \<Rightarrow> apply_hunk_list fs po cwd um hs (note_affected h a) w1 d1)"

record apply_patch_options =
  update_file_mode :: update_mode
  follow_symlinks :: bool

definition apply_patch_options_default :: apply_patch_options where
  "apply_patch_options_default = \<lparr>update_file_mode = NormalizeToLf, follow_symlinks = True\<rparr>"

text \<open>
  The file system is selected by \<open>follow_symlinks\<close> and the sandbox, which every call passes on
  unchanged.
\<close>

definition apply_hunks_to_files ::
    "hunk list \<Rightarrow> apply_patch_options \<Rightarrow> 'p path_ops \<Rightarrow> 'p \<Rightarrow> (bool \<Rightarrow> 's option \<Rightarrow> ('w, 'p) fs_ops) \<Rightarrow>
       's option \<Rightarrow> 'w \<Rightarrow> 'p patch_delta \<Rightarrow> 'w \<times> 'p patch_delta \<times> (apply_error + affected_paths)" where
  "apply_hunks_to_files hs options po cwd fs sandbox w d =
     (if hs = [] then (w, d, Inl NoFilesModified)
      else apply_hunk_list (fs (follow_symlinks options) sandbox) po cwd (update_file_mode options) hs
             affected_empty w d)"

section \<open>The summary and the entry points\<close>

text \<open>A writer is a state and a \<open>writeln\<close> that may fail; \<open>path.display()\<close> prints the path as written.\<close>

type_synonym 'o writer = "'o \<Rightarrow> str \<Rightarrow> 'o \<times> (io_error + unit)"

fun write_lines :: "'o writer \<Rightarrow> 'o \<Rightarrow> str list \<Rightarrow> 'o \<times> (io_error + unit)" where
  "write_lines wr out [] = (out, Inr ())"
| "write_lines wr out (l # ls) =
     (case wr out (l @ [lf_char]) of
        (out1, Inl e) \<Rightarrow> (out1, Inl e)
      | (out1, Inr _) \<Rightarrow> write_lines wr out1 ls)"

definition summary_lines :: "affected_paths \<Rightarrow> str list" where
  "summary_lines a =
     ''Success. Updated the following files:''
     # map (\<lambda>p. ''A '' @ p) (added a) @ map (\<lambda>p. ''M '' @ p) (modified a) @ map (\<lambda>p. ''D '' @ p) (deleted a)"

definition print_summary :: "'o writer \<Rightarrow> affected_paths \<Rightarrow> 'o \<Rightarrow> 'o \<times> (io_error + unit)" where
  "print_summary wr a out = write_lines wr out (summary_lines a)"

datatype patch_error =
    PatchParseError parse_error
  | PatchIoError str io_error

definition from_io_error :: "io_error \<Rightarrow> patch_error" where
  "from_io_error e = PatchIoError ''I/O error'' e"

text \<open>
  What \<open>to_string\<close> shows of an error is an argument.  An error that is an \<open>io::Error\<close> underneath
  is kept as one; any other is wrapped with its message.
\<close>

definition apply_hunks_with_options ::
    "(apply_error \<Rightarrow> str) \<Rightarrow> 'o writer \<Rightarrow> hunk list \<Rightarrow> apply_patch_options \<Rightarrow> 'p path_ops \<Rightarrow> 'p \<Rightarrow>
       (bool \<Rightarrow> 's option \<Rightarrow> ('w, 'p) fs_ops) \<Rightarrow> 's option \<Rightarrow> 'o \<Rightarrow> 'o \<Rightarrow> 'w \<Rightarrow>
       'o \<times> 'o \<times> 'w \<times> ((patch_error \<times> 'p patch_delta) + 'p patch_delta)" where
  "apply_hunks_with_options show_error wr hs options po cwd fs sandbox stdout stderr w =
     (case apply_hunks_to_files hs options po cwd fs sandbox w delta_empty of
        (w1, d, Inr a) \<Rightarrow>
          (case print_summary wr a stdout of
             (stdout1, Inl e) \<Rightarrow> (stdout1, stderr, w1, Inl (from_io_error e, d))
           | (stdout1, Inr _) \<Rightarrow> (stdout1, stderr, w1, Inr d))
      | (w1, d, Inl error) \<Rightarrow>
          (case write_lines wr stderr [show_error error] of
             (stderr1, Inl e) \<Rightarrow> (stdout, stderr1, w1, Inl (from_io_error e, d))
           | (stderr1, Inr _) \<Rightarrow>
               (stdout, stderr1, w1,
                Inl (case error of
                       IoContext ctx e \<Rightarrow> from_io_error e
                     | _ \<Rightarrow> PatchIoError (show_error error) (IoError OtherKind (show_error error)), d))))"

fun parse_error_line :: "parse_error \<Rightarrow> str" where
  "parse_error_line (InvalidPatchError message) = ''Invalid patch: '' @ message"
| "parse_error_line (InvalidHunkError message n) =
     ''Invalid patch hunk on line '' @ show_nat n @ '': '' @ message"

definition apply_patch_with_options ::
    "(apply_error \<Rightarrow> str) \<Rightarrow> 'o writer \<Rightarrow> str \<Rightarrow> apply_patch_options \<Rightarrow> 'p path_ops \<Rightarrow> 'p \<Rightarrow>
       (bool \<Rightarrow> 's option \<Rightarrow> ('w, 'p) fs_ops) \<Rightarrow> 's option \<Rightarrow> 'o \<Rightarrow> 'o \<Rightarrow> 'w \<Rightarrow>
       'o \<times> 'o \<times> 'w \<times> ((patch_error \<times> 'p patch_delta) + 'p patch_delta)" where
  "apply_patch_with_options show_error wr patch options po cwd fs sandbox stdout stderr w =
     (case parse_patch patch of
        Inr args \<Rightarrow>
          apply_hunks_with_options show_error wr (arg_hunks args) options po cwd fs sandbox stdout stderr w
      | Inl e \<Rightarrow>
          (case write_lines wr stderr [parse_error_line e] of
             (stderr1, Inl io) \<Rightarrow> (stdout, stderr1, w, Inl (from_io_error io, delta_empty))
           | (stderr1, Inr _) \<Rightarrow> (stdout, stderr1, w, Inl (PatchParseError e, delta_empty))))"

definition apply_patch where
  "apply_patch show_error wr patch =
     apply_patch_with_options show_error wr patch apply_patch_options_default"

definition apply_hunks where
  "apply_hunks show_error wr hs =
     apply_hunks_with_options show_error wr hs apply_patch_options_default"

section \<open>Replaying and reverting a delta\<close>

text \<open>The files a delta speaks of, as a map from paths to text.\<close>

fun replay_change :: "'p applied_change \<Rightarrow> ('p \<rightharpoonup> str) \<Rightarrow> ('p \<rightharpoonup> str)" where
  "replay_change (ChangeAdd p c _) m = m(p \<mapsto> c)"
| "replay_change (ChangeDelete p _) m = m(p := None)"
| "replay_change (ChangeUpdate p None _ _ n) m = m(p \<mapsto> n)"
| "replay_change (ChangeUpdate p (Some dest) _ _ n) m = (m(dest \<mapsto> n))(p := None)"

fun revert_change :: "'p applied_change \<Rightarrow> ('p \<rightharpoonup> str) \<Rightarrow> ('p \<rightharpoonup> str)" where
  "revert_change (ChangeAdd p _ ov) m = m(p := ov)"
| "revert_change (ChangeDelete p c) m = m(p \<mapsto> c)"
| "revert_change (ChangeUpdate p None c _ _) m = m(p \<mapsto> c)"
| "revert_change (ChangeUpdate p (Some dest) c ov _) m = (m(dest := ov))(p \<mapsto> c)"

definition replay :: "'p applied_change list \<Rightarrow> ('p \<rightharpoonup> str) \<Rightarrow> ('p \<rightharpoonup> str)" where
  "replay cs = fold replay_change cs"

definition revert :: "'p applied_change list \<Rightarrow> ('p \<rightharpoonup> str) \<Rightarrow> ('p \<rightharpoonup> str)" where
  "revert cs = foldr revert_change cs"

text \<open>A delta tracks the way from one map to another when it replays and reverts it.\<close>

definition tracks :: "'p applied_change list \<Rightarrow> ('p \<rightharpoonup> str) \<Rightarrow> ('p \<rightharpoonup> str) \<Rightarrow> bool" where
  "tracks cs m m' \<longleftrightarrow> replay cs m = m' \<and> revert cs m' = m"

lemma tracks_Nil [simp]: "tracks [] m m' \<longleftrightarrow> m = m'"
  by (auto simp: tracks_def replay_def revert_def)

lemma tracks_append: "tracks cs m m1 \<Longrightarrow> tracks cs' m1 m' \<Longrightarrow> tracks (cs @ cs') m m'"
  by (auto simp: tracks_def replay_def revert_def)

section \<open>The laws of the file system\<close>

text \<open>
  \<open>view w p\<close> is the text of the file at \<open>p\<close>.  The laws speak only of paths for which
  \<open>delta_supported\<close> holds, that is of regular files and of paths where nothing exists: through a
  symbolic link a write changes another path.
\<close>

locale text_fs =
  fixes fs :: "('w, 'p) fs_ops" and po :: "'p path_ops" and view :: "'w \<Rightarrow> 'p \<Rightarrow> str option"
  assumes read_ok: "delta_supported fs w p \<Longrightarrow> fs_read_text fs w p = Inr s \<Longrightarrow> view w p = Some s"
    and read_missing:
      "delta_supported fs w p \<Longrightarrow> fs_read_text fs w p = Inl e \<Longrightarrow> io_kind e = NotFound \<Longrightarrow> view w p = None"
    and write_ok:
      "delta_supported fs w p \<Longrightarrow> fs_write fs p s w = (w', Inr u) \<Longrightarrow>
         view w' = (view w)(p \<mapsto> s) \<and> (\<forall>q. delta_supported fs w q \<longrightarrow> delta_supported fs w' q)"
    and write_missing:
      "delta_supported fs w p \<Longrightarrow> fs_write fs p s w = (w', Inl e) \<Longrightarrow> io_kind e = NotFound \<Longrightarrow>
         view w' = view w \<and> (\<forall>q. delta_supported fs w q \<longrightarrow> delta_supported fs w' q)"
    and create_directory_view:
      "fs_create_directory fs dir w = (w', r) \<Longrightarrow>
         view w' = view w
       \<and> (\<forall>q. delta_supported fs w q \<and> (view w q \<noteq> None \<or> path_parent po q = Some dir)
              \<longrightarrow> delta_supported fs w' q)"
    and remove_ok: "delta_supported fs w p \<Longrightarrow> fs_remove fs p w = (w', Inr u) \<Longrightarrow> view w' = (view w)(p := None)"
    and remove_failed:
      "delta_supported fs w p \<Longrightarrow> fs_remove fs p w = (w', Inl e) \<Longrightarrow>
         (view w' = view w \<or> view w' = (view w)(p := None)) \<and> delta_supported fs w' p"
begin

lemma retry_write:
  assumes "delta_supported fs w p" and "write_file_with_missing_parent_retry fs po p s w = (w', Inr u)"
  shows "view w' = (view w)(p \<mapsto> s)
    \<and> (\<forall>q. delta_supported fs w q \<and> view w q \<noteq> None \<longrightarrow> delta_supported fs w' q)"
proof -
  obtain w1 r where r: "fs_write fs p s w = (w1, r)" by fastforce
  show ?thesis
  proof (cases r)
    case (Inr b)
    then show ?thesis
      using assms r write_ok [OF assms(1), of s w1]
      by (simp add: write_file_with_missing_parent_retry_def Let_def)
  next
    case (Inl e)
    then have nf: "io_kind e = NotFound"
      using assms(2) r by (auto simp: write_file_with_missing_parent_retry_def Let_def split: if_splits)
    note w1 = write_missing [OF assms(1) r [unfolded Inl] nf]
    show ?thesis
    proof (cases "path_parent po p")
      case None
      then have "fs_write fs p s w1 = (w', Inr ())"
        using assms(2) r Inl nf
        by (auto simp: write_file_with_missing_parent_retry_def with_context_def split: prod.splits sum.splits)
      then show ?thesis using write_ok [of w1 p s w'] w1 assms(1) by auto
    next
      case (Some dir)
      obtain w2 r2 where w2: "fs_create_directory fs dir w1 = (w2, r2)" by fastforce
      then have "fs_write fs p s w2 = (w', Inr ())"
        using assms(2) r Inl nf Some
        by (auto simp: write_file_with_missing_parent_retry_def with_context_def split: prod.splits sum.splits)
      then show ?thesis
        using write_ok [of w2 p s w'] w1 assms(1) create_directory_view [OF w2] Some by auto
    qed
  qed
qed

lemma remove_checked_tracks:
  assumes "remove_checked fs ctx p expected w d = (w', d', r)" and "delta_supported fs w p"
    and "expected = Some c" and "exact d'"
  shows "changes d' = changes d \<and> exact d
    \<and> view w' = (case r of Inr _ \<Rightarrow> (view w)(p := None) | Inl _ \<Rightarrow> view w)"
proof -
  obtain w1 r1 where w1: "fs_remove fs p w = (w1, r1)" by fastforce
  show ?thesis
  proof (cases "ensure_not_directory fs w p")
    case (Inr b)
    show ?thesis
    proof (cases r1)
      case (Inl e)
      then have "fs_read_text fs w1 p = Inr c"
        using assms Inr w1
        by (auto simp: remove_checked_def and_exact_def remove_failure_was_side_effect_free_def
            with_context_def split: sum.splits)
      then have "view w1 = view w"
        using remove_failed [OF assms(2)] w1 Inl read_ok [of w1 p c] by (metis fun_upd_same option.distinct(1))
      then show ?thesis using assms Inr w1 Inl by (auto simp: remove_checked_def and_exact_def with_context_def)
    qed (use assms Inr w1 remove_ok [OF assms(2)] in \<open>auto simp: remove_checked_def with_context_def\<close>)
  qed (use assms in \<open>auto simp: remove_checked_def with_context_def\<close>)
qed

text \<open>What one hunk adds to an exact delta.\<close>

definition extends :: "'w \<Rightarrow> 'p patch_delta \<Rightarrow> 'w \<Rightarrow> 'p patch_delta \<Rightarrow> bool" where
  "extends w d w' d' \<longleftrightarrow>
     (exact d' \<longrightarrow> exact d \<and> (\<exists>cs. changes d' = changes d @ cs \<and> tracks cs (view w) (view w')))"

lemma extends_refl: "extends w d w d"
  by (simp add: extends_def)

lemma extends_trans: "extends w d w1 d1 \<Longrightarrow> extends w1 d1 w' d' \<Longrightarrow> extends w d w' d'"
  unfolding extends_def by (metis append.assoc tracks_append)

lemma extends_inexact: "\<not> exact d' \<Longrightarrow> extends w d w' d'"
  by (simp add: extends_def)

lemma read_optional:
  assumes "read_optional_file_text_for_delta fs w p ex = (ov, True)"
  shows "ex \<and> delta_supported fs w p \<and> view w p = ov"
  using assms read_ok [of w p] read_missing [of w p]
  by (auto simp: read_optional_file_text_for_delta_def note_existing_path_delta_support_def Let_def
      split: sum.splits if_splits)

lemma apply_add_extends:
  assumes "apply_add fs po p c w d = (w', d', r)"
  shows "extends w d w' d'"
proof (rule ccontr)
  assume not: "\<not> extends w d w' d'"
  then have ex: "exact d'" using extends_inexact by blast
  obtain ov e where ov: "read_optional_file_text_for_delta fs w p (exact d) = (ov, e)" by fastforce
  obtain w1 r1 where w1: "write_file_with_missing_parent_retry fs po p c w = (w1, r1)" by fastforce
  have "e \<and> w' = w1 \<and> changes d' = changes d @ [ChangeAdd p c ov] \<and> (\<exists>u. r1 = Inr u)"
    using assms ex ov w1 by (auto simp: apply_add_def Let_def push_change_def split: sum.splits)
  moreover from this have "ov = view w p" "exact d" "view w1 = (view w)(p \<mapsto> c)"
    using read_optional [of w p "exact d" ov] retry_write [of w p c w1] ov w1 by auto
  ultimately show False
    using not by (auto simp: extends_def tracks_def replay_def revert_def)
qed

lemma apply_delete_extends:
  assumes "apply_delete fs po p w d = (w', d', r)"
  shows "extends w d w' d'"
proof (rule ccontr)
  assume not: "\<not> extends w d w' d'"
  then have ex: "exact d'" using extends_inexact by blast
  let ?c = "case fs_read_text fs w p of Inr c \<Rightarrow> Some c | Inl _ \<Rightarrow> None"
  let ?ctx = "''Failed to delete file '' @ path_native po p"
  define d2 where "d2 = (let d1 = d\<lparr>exact := note_existing_path_delta_support fs w p (exact d)\<rparr>
    in if ?c = None then d1\<lparr>exact := False\<rparr> else d1)"
  obtain w1 d3 r1 where w1: "remove_checked fs ?ctx p ?c w d2 = (w1, d3, r1)" by (metis prod_cases3)
  have run: "w' = w1 \<and> exact d3 = exact d'
      \<and> changes d' = changes d3 @ (case (r1, ?c) of (Inr _, Some c) \<Rightarrow> [ChangeDelete p c] | _ \<Rightarrow> [])"
    using assms w1 unfolding d2_def
    by (auto simp: apply_delete_def Let_def push_change_def split: sum.splits option.splits if_splits)
  have "exact d2" using w1 ex run by (auto simp: remove_checked_def and_exact_def split: sum.splits prod.splits)
  then obtain c where c: "?c = Some c" "delta_supported fs w p" "exact d" "changes d2 = changes d"
    by (auto simp: d2_def Let_def note_existing_path_delta_support_def split: if_splits sum.splits)
  then have "view w p = Some c" using read_ok [of w p] by (auto split: sum.splits)
  moreover have "changes d3 = changes d
      \<and> view w1 = (case r1 of Inr _ \<Rightarrow> (view w)(p := None) | Inl _ \<Rightarrow> view w)"
    using remove_checked_tracks [OF w1 c(2,1)] ex run c(4) by simp
  ultimately show False
    using not run c by (cases r1) (auto simp: extends_def tracks_def replay_def revert_def)
qed

lemma apply_move_extends:
  assumes "apply_move fs po p dest ap w d = (w', d', r)"
    and src: "exact d \<Longrightarrow> delta_supported fs w p \<and> view w p = Some (original_contents ap)"
  shows "extends w d w' d'"
proof (rule ccontr)
  assume not: "\<not> extends w d w' d'"
  then have ex: "exact d'" using extends_inexact by blast
  let ?ctx = "''Failed to remove original '' @ path_native po p"
  obtain ov e where ov: "read_optional_file_text_for_delta fs w dest (exact d) = (ov, e)" by fastforce
  obtain w1 r1 where w1: "write_file_with_missing_parent_retry fs po dest (new_contents ap) w = (w1, r1)"
    by fastforce
  define d2 where "d2 = push_change (ChangeAdd dest (new_contents ap) ov) (d\<lparr>exact := e\<rparr>)"
  obtain w2 d3 r2 where w2: "remove_checked fs ?ctx p (Some (original_contents ap)) w1 d2 = (w2, d3, r2)"
    by (metis prod_cases3)
  have run: "w' = w2 \<and> exact d3 = exact d' \<and> (\<exists>u. r1 = Inr u)
      \<and> changes d' = (case r2 of Inl _ \<Rightarrow> changes d3
           | Inr _ \<Rightarrow> (changes d3)[length (changes d) :=
               ChangeUpdate p (Some dest) (original_contents ap) ov (new_contents ap)])"
    using assms(1) ex ov w1 w2
    by (auto simp: apply_move_def Let_def push_change_def d2_def split: sum.splits)
  have "e" using w2 ex run
    by (auto simp: remove_checked_def and_exact_def d2_def push_change_def split: sum.splits prod.splits)
  then have dest: "exact d" "delta_supported fs w dest" "view w dest = ov"
    using read_optional ov by auto
  then have v1: "view w1 = (view w)(dest \<mapsto> new_contents ap)" "delta_supported fs w1 p"
    using retry_write [of w dest "new_contents ap" w1] w1 run src by auto
  have "changes d3 = changes d2
      \<and> view w2 = (case r2 of Inr _ \<Rightarrow> (view w1)(p := None) | Inl _ \<Rightarrow> view w1)"
    using remove_checked_tracks [OF w2 v1(2) refl] ex run by simp
  then show False
    using not run dest v1(1) src
    by (cases r2) (auto simp: extends_def tracks_def replay_def revert_def d2_def push_change_def fun_upd_twist)
qed

lemma derive_reads:
  assumes "derive_new_contents_from_chunks fs po w p cs um = Inr ap"
  shows "fs_read_text fs w p = Inr (original_contents ap)"
  using assms by (auto simp: derive_new_contents_from_chunks_def derive_new_contents_def)

lemma apply_update_extends:
  assumes "apply_update fs po cwd um p mv cs w d = (w', d', r)"
  shows "extends w d w' d'"
proof -
  let ?d1 = "d\<lparr>exact := note_existing_path_delta_support fs w p (exact d)\<rparr>"
  have d1: "extends w d w ?d1" by (simp add: extends_def note_existing_path_delta_support_def)
  show ?thesis
  proof (cases "derive_new_contents_from_chunks fs po w p cs um")
    case (Inl e)
    then show ?thesis using assms d1 by (auto simp: apply_update_def)
  next
    case (Inr ap)
    have src: "exact ?d1 \<Longrightarrow> delta_supported fs w p \<and> view w p = Some (original_contents ap)"
      using derive_reads [OF Inr] read_ok by (auto simp: note_existing_path_delta_support_def)
    show ?thesis
    proof (cases mv)
      case (Some dest)
      show ?thesis
      proof (cases "path_join po cwd dest")
        case (Inr q)
        then have "apply_move fs po p q ap w ?d1 = (w', d', r)"
          using assms Some \<open>derive_new_contents_from_chunks fs po w p cs um = Inr ap\<close>
          by (simp add: apply_update_def)
        then show ?thesis using apply_move_extends src d1 extends_trans by blast
      qed (use assms Some Inr d1 in \<open>auto simp: apply_update_def\<close>)
    next
      case None
      obtain w1 r1 where w1: "fs_write fs p (new_contents ap) w = (w1, r1)" by fastforce
      show ?thesis
        using assms None Inr w1 src write_ok [of w p "new_contents ap" w1]
        by (cases r1) (auto simp: apply_update_def extends_def push_change_def tracks_def replay_def
            revert_def note_existing_path_delta_support_def fun_upd_idem)
    qed
  qed
qed

lemma apply_hunk_extends:
  assumes "apply_hunk fs po cwd um h w d = (w', d', r)"
  shows "extends w d w' d'"
  using assms apply_add_extends apply_delete_extends apply_update_extends extends_refl
  by (cases h) (auto simp: apply_hunk_def split: sum.splits)

lemma apply_hunk_list_extends:
  assumes "apply_hunk_list fs po cwd um hs a w d = (w', d', r)"
  shows "extends w d w' d'"
  using assms
proof (induction hs arbitrary: a w d)
  case (Cons h hs)
  obtain w1 d1 r1 where h: "apply_hunk fs po cwd um h w d = (w1, d1, r1)" by (metis prod_cases3)
  show ?case
    using Cons h apply_hunk_extends [OF h] extends_trans by (cases r1) auto
qed (simp add: extends_refl)

end

section \<open>An in-memory file system\<close>

datatype node = File str | Dir | Symlink str

type_synonym mem = "str \<rightharpoonup> node"

definition mem_parent :: "str \<Rightarrow> str option" where
  "mem_parent p = map_option fst (rsplit_once (CHR ''/'') p)"

definition mem_parent_ok :: "mem \<Rightarrow> str \<Rightarrow> bool" where
  "mem_parent_ok w p = (case mem_parent p of None \<Rightarrow> True | Some d \<Rightarrow> w d = Some Dir)"

text \<open>Symbolic links are followed for one step.\<close>

definition mem_target :: "mem \<Rightarrow> str \<Rightarrow> str" where
  "mem_target w p = (case w p of Some (Symlink t) \<Rightarrow> t | _ \<Rightarrow> p)"

definition mem_read :: "mem \<Rightarrow> str \<Rightarrow> io_error + str" where
  "mem_read w p =
     (case w (mem_target w p) of
        Some (File s) \<Rightarrow> Inr s
      | None \<Rightarrow> Inl (IoError NotFound ''not found'')
      | _ \<Rightarrow> Inl (IoError OtherKind ''not a file''))"

definition mem_metadata :: "mem \<Rightarrow> str \<Rightarrow> io_error + file_metadata" where
  "mem_metadata w p =
     (case w p of
        None \<Rightarrow> Inl (IoError NotFound ''not found'')
      | Some n \<Rightarrow> Inr \<lparr>is_directory = (n = Dir), is_file = (case n of Dir \<Rightarrow> False | _ \<Rightarrow> True),
                       is_symlink = (case n of Symlink _ \<Rightarrow> True | _ \<Rightarrow> False)\<rparr>)"

definition mem_write :: "str \<Rightarrow> str \<Rightarrow> mem \<Rightarrow> mem \<times> (io_error + unit)" where
  "mem_write p s w =
     (let t = mem_target w p
      in if \<not> mem_parent_ok w t then (w, Inl (IoError NotFound ''no such directory''))
         else case w t of
                Some Dir \<Rightarrow> (w, Inl (IoError OtherKind ''is a directory''))
              | Some (Symlink _) \<Rightarrow> (w, Inl (IoError OtherKind ''too many links''))
              | _ \<Rightarrow> (w(t \<mapsto> File s), Inr ()))"

definition mem_create_directory :: "str \<Rightarrow> mem \<Rightarrow> mem \<times> (io_error + unit)" where
  "mem_create_directory d w =
     (case w d of
        None \<Rightarrow> (w(d \<mapsto> Dir), Inr ())
      | Some Dir \<Rightarrow> (w, Inr ())
      | _ \<Rightarrow> (w, Inl (IoError OtherKind ''not a directory'')))"

definition mem_remove :: "str \<Rightarrow> mem \<Rightarrow> mem \<times> (io_error + unit)" where
  "mem_remove p w =
     (case w p of
        None \<Rightarrow> (w, Inl (IoError NotFound ''not found''))
      | Some Dir \<Rightarrow> (w, Inl (IoError OtherKind ''is a directory''))
      | _ \<Rightarrow> (w(p := None), Inr ()))"

definition mem_fs :: "(mem, str) fs_ops" where
  "mem_fs = \<lparr>fs_read_text = mem_read, fs_metadata = mem_metadata, fs_write = mem_write,
     fs_create_directory = mem_create_directory, fs_remove = mem_remove\<rparr>"

definition mem_paths :: "str path_ops" where
  "mem_paths = \<lparr>path_join = (\<lambda>cwd p. Inr p), path_parent = mem_parent, path_native = (\<lambda>p. p)\<rparr>"

definition mem_view :: "mem \<Rightarrow> str \<Rightarrow> str option" where
  "mem_view w p = (case w p of Some (File s) \<Rightarrow> Some s | _ \<Rightarrow> None)"

lemma mem_supported: "delta_supported mem_fs w p \<longleftrightarrow> w p = None \<or> (\<exists>s. w p = Some (File s))"
  by (auto simp: delta_supported_def mem_fs_def mem_metadata_def split: option.splits node.splits)

lemma mem_parent_differs: "mem_parent p = Some d \<Longrightarrow> p \<noteq> d"
  by (auto simp: mem_parent_def rsplit_once_Some_iff)

lemma mem_view_upd:
  "mem_view (w(p \<mapsto> File s)) = (mem_view w)(p \<mapsto> s)"
  "mem_view (w(p := None)) = (mem_view w)(p := None)"
  by (auto simp: mem_view_def)

interpretation mem: text_fs mem_fs mem_paths mem_view
proof
  fix w p s w' e u
  show "delta_supported mem_fs w p \<Longrightarrow> fs_read_text mem_fs w p = Inr s \<Longrightarrow> mem_view w p = Some s"
    unfolding mem_supported
    by (auto simp: mem_fs_def mem_read_def mem_target_def mem_view_def split: option.splits node.splits)
  show "delta_supported mem_fs w p \<Longrightarrow> fs_read_text mem_fs w p = Inl e \<Longrightarrow> io_kind e = NotFound \<Longrightarrow>
      mem_view w p = None"
    unfolding mem_supported by (auto simp: mem_fs_def mem_read_def mem_target_def mem_view_def)
  show "delta_supported mem_fs w p \<Longrightarrow> fs_write mem_fs p s w = (w', Inr u) \<Longrightarrow>
      mem_view w' = (mem_view w)(p \<mapsto> s) \<and> (\<forall>q. delta_supported mem_fs w q \<longrightarrow> delta_supported mem_fs w' q)"
    unfolding mem_supported
    by (auto simp: mem_fs_def mem_write_def mem_target_def mem_view_upd Let_def split: if_splits)
  show "delta_supported mem_fs w p \<Longrightarrow> fs_write mem_fs p s w = (w', Inl e) \<Longrightarrow> io_kind e = NotFound \<Longrightarrow>
      mem_view w' = mem_view w \<and> (\<forall>q. delta_supported mem_fs w q \<longrightarrow> delta_supported mem_fs w' q)"
    by (auto simp: mem_fs_def mem_write_def Let_def split: if_splits option.splits node.splits)
next
  fix dir w w' r
  show "fs_create_directory mem_fs dir w = (w', r) \<Longrightarrow>
      mem_view w' = mem_view w \<and> (\<forall>q. delta_supported mem_fs w q
        \<and> (mem_view w q \<noteq> None \<or> path_parent mem_paths q = Some dir) \<longrightarrow> delta_supported mem_fs w' q)"
    unfolding mem_supported
    by (auto simp: mem_fs_def mem_paths_def mem_create_directory_def mem_view_def
        dest: mem_parent_differs split: option.splits node.splits if_splits)
next
  fix w p w' u e
  show "delta_supported mem_fs w p \<Longrightarrow> fs_remove mem_fs p w = (w', Inr u) \<Longrightarrow>
      mem_view w' = (mem_view w)(p := None)"
    unfolding mem_supported by (auto simp: mem_fs_def mem_remove_def mem_view_upd)
  show "delta_supported mem_fs w p \<Longrightarrow> fs_remove mem_fs p w = (w', Inl e) \<Longrightarrow>
      (mem_view w' = mem_view w \<or> mem_view w' = (mem_view w)(p := None)) \<and> delta_supported mem_fs w' p"
    unfolding mem_supported by (auto simp: mem_fs_def mem_remove_def)
qed

section \<open>Properties\<close>


definition sample_mem :: mem where
  "sample_mem = [''a'' \<mapsto> File ''old'', ''b'' \<mapsto> File ''x'']"

definition sample_hunks :: "hunk list" where
  "sample_hunks = [AddFile ''d/n'' ''new'', DeleteFile ''a'']"

definition sample_run where
  "sample_run = apply_hunks_to_files sample_hunks apply_patch_options_default mem_paths []
     (\<lambda>_ _. mem_fs) (None :: unit option) sample_mem delta_empty"

lemma sample_run_exact:
  "changes (fst (snd sample_run)) = [ChangeAdd ''d/n'' ''new'' None, ChangeDelete ''a'' ''old'']"
  "exact (fst (snd sample_run))"
  by code_simp+


text \<open>
  a patch that does not parse changes no file: the world is returned as it was, with an empty
  exact delta, and nothing is written to standard output.
\<close>

theorem parse_failure_changes_nothing:
  assumes "parse_patch patch = Inl e"
  shows "\<exists>stderr' err. apply_patch_with_options show_error wr patch options po cwd fs sandbox stdout stderr w
    = (stdout, stderr', w, Inl (err, delta_empty))"
  using assms by (auto simp: apply_patch_with_options_def split: prod.splits sum.splits)

definition sample_writer :: "str writer" where
  "sample_writer out l = (out @ l, Inr ())"

theorem parse_failure_changes_nothing_witness:
  "parse_patch ''x'' = Inl first_line_error
   \<and> (\<exists>stderr' err. apply_patch_with_options (\<lambda>_. []) sample_writer ''x'' apply_patch_options_default
        mem_paths [] (\<lambda>_ _. mem_fs) (None :: unit option) [] [] sample_mem
      = ([], stderr', sample_mem, Inl (err, delta_empty)))"
proof -
  have "parse_patch ''x'' = Inl first_line_error" by code_simp
  then show ?thesis by (intro conjI parse_failure_changes_nothing)
qed

text \<open>A panic can only come from an update.\<close>

definition hunk_chunks :: "hunk \<Rightarrow> update_file_chunk list" where
  "hunk_chunks h = (case h of UpdateFile _ _ cs \<Rightarrow> cs | _ \<Rightarrow> [])"

lemma context_not_panic: "with_context ctx r \<noteq> Inl (UpdateError x)"
  by (cases r) (simp_all add: with_context_def)

lemma io_not_panic:
  "write_file_with_missing_parent_retry fs po p s w \<noteq> (w', Inl (UpdateError x))"
  "remove_checked fs ctx p ex w d \<noteq> (w', d', Inl (UpdateError x))"
  using context_not_panic
  by (fastforce simp: write_file_with_missing_parent_retry_def remove_checked_def Let_def
      split: prod.splits sum.splits option.splits if_splits)+

lemma apply_hunk_no_panic:
  assumes "list_all wf_chunk (hunk_chunks h)"
  shows "apply_hunk fs po cwd um h w d \<noteq> (w', d', Inl (UpdateError UpdatePanic))"
proof -
  have derive: "derive_new_contents_from_chunks fs po w p cs um \<noteq> Inl (UpdateError UpdatePanic)"
    if "list_all wf_chunk cs" for w p cs
    using derive_no_panic [of um cs _ "path_native po p"] that
    by (auto simp: derive_new_contents_from_chunks_def and_then_Inl_iff map_err_Inl_iff)
  show ?thesis
    using assms derive
    by (cases h) (auto simp: io_not_panic apply_hunk_def hunk_chunks_def apply_add_def apply_delete_def apply_update_def
        apply_move_def Let_def split: prod.splits sum.splits option.splits)
qed

lemma apply_hunk_list_no_panic:
  "list_all (\<lambda>h. list_all wf_chunk (hunk_chunks h)) hs \<Longrightarrow>
     apply_hunk_list fs po cwd um hs a w d \<noteq> (w', d', Inl (UpdateError UpdatePanic))"
proof (induction hs arbitrary: a w d)
  case (Cons h hs)
  then show ?case
    by (simp add: apply_hunk_no_panic split: prod.split sum.split) (metis apply_hunk_no_panic)
qed simp

lemma hunk_wf_chunks: "hunk_wf h \<Longrightarrow> list_all wf_chunk (hunk_chunks h)"
  by (cases h) (simp_all add: hunk_chunks_def)

text \<open>
  C27: applying a patch that the parser accepted does not panic, in either update mode and on any
  file system: no index of the update computation is out of range.
\<close>

theorem apply_parsed_patch_no_panic:
  assumes "parse_patch patch = Inr args"
  shows "apply_hunks_to_files (arg_hunks args) options po cwd fs sandbox w d
    \<noteq> (w', d', Inl (UpdateError UpdatePanic))"
proof -
  have "list_all (\<lambda>h. list_all wf_chunk (hunk_chunks h)) (arg_hunks args)"
    using parse_patch_text_hunks [of patch Lenient args] assms hunk_wf_chunks
    by (auto simp: parse_patch_def list_all_iff)
  then show ?thesis
    by (simp add: apply_hunks_to_files_def apply_hunk_list_no_panic)
qed

theorem apply_parsed_patch_no_panic_witness:
  "parse_patch sample_source = Inr sample_args
   \<and> apply_hunks_to_files (arg_hunks sample_args) apply_patch_options_default mem_paths []
      (\<lambda>_ _. mem_fs) (None :: unit option) sample_mem delta_empty
     \<noteq> (sample_mem, delta_empty, Inl (UpdateError UpdatePanic))"
proof -
  have "parse_patch sample_source = Inr sample_args" by code_simp
  then show ?thesis by (intro conjI apply_parsed_patch_no_panic)
qed

text \<open>
  when all hunks are applied the summary lists every hunk once, in order, under its kind: the
  files added, the files modified (a moved one under its new name) and the files deleted.
\<close>

theorem summary_lists_hunks:
  assumes "apply_hunks_to_files hs options po cwd fs sandbox w d = (w', d', Inr a)"
  shows "added a = [path. AddFile path contents \<leftarrow> hs]
    \<and> modified a = [hunk_path (UpdateFile path mv cs). UpdateFile path mv cs \<leftarrow> hs]
    \<and> deleted a = [path. DeleteFile path \<leftarrow> hs]"
proof -
  have "added a = added a0 @ [path. AddFile path contents \<leftarrow> hs]
      \<and> modified a = modified a0 @ [hunk_path (UpdateFile path mv cs). UpdateFile path mv cs \<leftarrow> hs]
      \<and> deleted a = deleted a0 @ [path. DeleteFile path \<leftarrow> hs]"
    if "apply_hunk_list f po cwd um hs a0 w d = (w', d', Inr a)" for f um a0
    using that
  proof (induction hs arbitrary: a0 w d)
    case (Cons h hs)
    obtain w1 d1 r1 where "apply_hunk f po cwd um h w d = (w1, d1, r1)" by (metis prod_cases3)
    then have "apply_hunk_list f po cwd um hs (note_affected h a0) w1 d1 = (w', d', Inr a)"
      using Cons.prems by (cases r1) auto
    then show ?case using Cons.IH by (cases h) fastforce+
  qed simp
  then show ?thesis
    using assms by (fastforce simp: apply_hunks_to_files_def affected_empty_def split: if_splits)
qed

theorem summary_lists_hunks_witness:
  "added (projr (snd (snd sample_run))) = [''d/n''] \<and> deleted (projr (snd (snd sample_run))) = [''a'']"
proof -
  obtain w d r where run: "sample_run = (w, d, r)" by (metis prod_cases3)
  have "\<not> isl (snd (snd sample_run))" by code_simp
  then have "\<not> isl r" unfolding run by simp
  then obtain a where "r = Inr a" by (cases r) auto
  then show ?thesis
    using summary_lists_hunks [of sample_hunks apply_patch_options_default mem_paths "[]" "\<lambda>_ _. mem_fs"
        "None :: unit option" sample_mem delta_empty w d a] run
    by (simp add: sample_run_def sample_hunks_def)
qed

section \<open>A move onto itself\<close>

definition self_move_run where
  "self_move_run = apply_hunks_to_files [UpdateFile ''a'' (Some ''a'') [sample_chunk]]
     apply_patch_options_default mem_paths [] (\<lambda>_ _. mem_fs) (None :: unit option)
     [''a'' \<mapsto> File (lines_text [''a''])] delta_empty"

text \<open>
  an update hunk whose \<open>*** Move to:\<close> names the file itself deletes the file: the new contents
  are written and then the original, which is the same path, is removed; the application succeeds
  and reports the file as modified.
\<close>

theorem move_onto_itself_deletes:
  "mem_view (fst self_move_run) ''a'' = None
   \<and> map_sum (\<lambda>_. ()) modified (snd (snd self_move_run)) = Inr [''a'']
   \<and> exact (fst (snd self_move_run))"
  by code_simp

end
