(* ===== verification/Patch_Invocation.thy ===== *)
theory Patch_Invocation
  imports Patch_Apply
begin

text \<open>
  Recognition and verification of patches (\<open>codex-rs/apply-patch/src/invocation.rs\<close>): which commands call the patch tool,
  which patch they carry, and which changes of files the patch proposes.

  Third-party code is an argument: \<open>query\<close> parses a script with tree-sitter and gives the matches of the query
  \<open>APPLY_PATCH_QUERY\<close>, each a list of named captures, \<open>diff\<close> is the unified diff of the crate \<open>similar\<close>, \<open>convention\<close> the path
  convention of a URI.  The file system and the paths are the interfaces of the theory on applying patches.  A \<open>HashMap\<close> of
  changes is the list of its entries in the order of insertion.
\<close>

section \<open>Shells\<close>

datatype path_convention = Posix | Windows

text \<open>\<open>str::split\<close> on a class of characters; empty segments are kept.\<close>

fun split_where :: "('a \<Rightarrow> bool) \<Rightarrow> 'a list \<Rightarrow> 'a list list" where
  "split_where d [] = [[]]"
| "split_where d (c # s) =
     (if d c then [] # split_where d s
      else (case split_where d s of f # fs \<Rightarrow> (c # f) # fs | [] \<Rightarrow> [[c]]))"

definition path_segments :: "path_convention \<Rightarrow> str \<Rightarrow> str list" where
  "path_segments conv p =
     split_where (\<lambda>c. case conv of Posix \<Rightarrow> c = CHR ''/'' | Windows \<Rightarrow> c = CHR ''/'' \<or> c = CHR 0x5C) p"

datatype apply_patch_shell = UnixShell | PowerShellShell | CmdShell

definition classify_shell_name :: "str \<Rightarrow> path_convention \<Rightarrow> str option" where
  "classify_shell_name shell conv =
     (case path_segments conv shell of
        [] \<Rightarrow> None
      | segments \<Rightarrow>
          (let basename = last segments;
               stem = (case rsplit_once (CHR ''.'') basename of
                         Some (stem, _) \<Rightarrow> if stem \<noteq> [] then stem else basename
                       | None \<Rightarrow> basename)
           in Some (to_ascii_lowercase stem)))"

definition classify_shell :: "str \<Rightarrow> str \<Rightarrow> path_convention \<Rightarrow> apply_patch_shell option" where
  "classify_shell shell flag conv =
     Option.bind (classify_shell_name shell conv) (\<lambda>name.
       if name \<in> {''bash'', ''zsh'', ''sh''} \<and> flag \<in> {''-lc'', ''-c''} then Some UnixShell
       else if name \<in> {''pwsh'', ''powershell''} \<and> to_ascii_lowercase flag = ''-command'' then Some PowerShellShell
       else if name = ''cmd'' \<and> to_ascii_lowercase flag = ''/c'' then Some CmdShell
       else None)"

definition can_skip_flag :: "str \<Rightarrow> str \<Rightarrow> path_convention \<Rightarrow> bool" where
  "can_skip_flag shell flag conv =
     (case classify_shell_name shell conv of
        None \<Rightarrow> False
      | Some name \<Rightarrow> name \<in> {''pwsh'', ''powershell''} \<and> to_ascii_lowercase flag = ''-noprofile'')"

definition parse_shell_script :: "('p \<Rightarrow> path_convention option) \<Rightarrow> str list \<Rightarrow> 'p \<Rightarrow> (apply_patch_shell \<times> str) option" where
  "parse_shell_script convention argv cwd =
     Option.bind (convention cwd) (\<lambda>conv.
       case argv of
         [shell, flag, script] \<Rightarrow> map_option (\<lambda>shell_type. (shell_type, script)) (classify_shell shell flag conv)
       | [shell, skip_flag, flag, script] \<Rightarrow>
           if \<not> can_skip_flag shell skip_flag conv then None
           else map_option (\<lambda>shell_type. (shell_type, script)) (classify_shell shell flag conv)
       | _ \<Rightarrow> None)"

section \<open>Patches in scripts\<close>

datatype extract_heredoc_error =
    CommandDidNotStartWithApplyPatch
  | FailedToLoadBashGrammar str
  | HeredocNotUtf8 str
  | FailedToParsePatchIntoAst
  | FailedToFindHeredocBody

text \<open>A capture is the name of the query and the text of the node, or the error of \<open>utf8_text\<close>.\<close>

type_synonym capture = "str \<times> (str + str)"

type_synonym script_query = "str \<Rightarrow> extract_heredoc_error + capture list list"

text \<open>\<open>trim_end_matches('\n')\<close>.\<close>

definition trim_end_lf :: "str \<Rightarrow> str" where
  "trim_end_lf s = rev (dropWhile (\<lambda>c. c = lf_char) (rev s))"

definition unquote_raw_string :: "str \<Rightarrow> str" where
  "unquote_raw_string raw =
     (case Option.bind (strip_prefix [CHR 0x27] raw) (strip_suffix [CHR 0x27]) of Some t \<Rightarrow> t | None \<Rightarrow> raw)"

fun read_captures ::
    "capture list \<Rightarrow> str option \<Rightarrow> str option \<Rightarrow> extract_heredoc_error + (str option \<times> str option)" where
  "read_captures [] heredoc_text cd_path = Inr (heredoc_text, cd_path)"
| "read_captures ((name, t) # cs) heredoc_text cd_path =
     (if name = ''heredoc'' then
        and_then (map_err HeredocNotUtf8 t) (\<lambda>s. read_captures cs (Some (trim_end_lf s)) cd_path)
      else if name = ''cd_path'' then
        and_then (map_err HeredocNotUtf8 t) (\<lambda>s. read_captures cs heredoc_text (Some s))
      else if name = ''cd_raw_string'' then
        and_then (map_err HeredocNotUtf8 t) (\<lambda>s. read_captures cs heredoc_text (Some (unquote_raw_string s)))
      else read_captures cs heredoc_text cd_path)"

fun first_heredoc :: "capture list list \<Rightarrow> extract_heredoc_error + (str \<times> str option)" where
  "first_heredoc [] = Inl CommandDidNotStartWithApplyPatch"
| "first_heredoc (m # ms) =
     and_then (read_captures m None None) (\<lambda>(heredoc_text, cd_path).
       case heredoc_text of Some heredoc \<Rightarrow> Inr (heredoc, cd_path) | None \<Rightarrow> first_heredoc ms)"

definition extract_apply_patch_from_bash :: "script_query \<Rightarrow> str \<Rightarrow> extract_heredoc_error + (str \<times> str option)" where
  "extract_apply_patch_from_bash query src = and_then (query src) first_heredoc"

definition extract_apply_patch_from_shell ::
    "script_query \<Rightarrow> apply_patch_shell \<Rightarrow> str \<Rightarrow> extract_heredoc_error + (str \<times> str option)" where
  "extract_apply_patch_from_shell query shell script =
     (case shell of
        UnixShell \<Rightarrow> extract_apply_patch_from_bash query script
      | PowerShellShell \<Rightarrow> extract_apply_patch_from_bash query script
      | CmdShell \<Rightarrow> extract_apply_patch_from_bash query script)"

datatype maybe_apply_patch =
    MaybeBody apply_patch_args
  | MaybeShellParseError extract_heredoc_error
  | MaybePatchParseError parse_error
  | MaybeNotApplyPatch

definition APPLY_PATCH_COMMANDS :: "str list" where
  "APPLY_PATCH_COMMANDS = [''apply_patch'', ''applypatch'']"

definition parse_script_patch :: "script_query \<Rightarrow> apply_patch_shell \<Rightarrow> str \<Rightarrow> maybe_apply_patch" where
  "parse_script_patch query shell script =
     (case extract_apply_patch_from_shell query shell script of
        Inr (body, workdir) \<Rightarrow>
          (case parse_patch body of
             Inr source \<Rightarrow> MaybeBody (source\<lparr>arg_workdir := workdir\<rparr>)
           | Inl e \<Rightarrow> MaybePatchParseError e)
      | Inl CommandDidNotStartWithApplyPatch \<Rightarrow> MaybeNotApplyPatch
      | Inl e \<Rightarrow> MaybeShellParseError e)"

definition maybe_parse_apply_patch ::
    "('p \<Rightarrow> path_convention option) \<Rightarrow> script_query \<Rightarrow> str list \<Rightarrow> 'p \<Rightarrow> maybe_apply_patch" where
  "maybe_parse_apply_patch convention query argv cwd =
     (let shell_form = (case parse_shell_script convention argv cwd of
            Some (shell, script) \<Rightarrow> parse_script_patch query shell script
          | None \<Rightarrow> MaybeNotApplyPatch)
      in case argv of
           [cmd, body] \<Rightarrow>
             if cmd \<in> set APPLY_PATCH_COMMANDS
             then (case parse_patch body of Inr source \<Rightarrow> MaybeBody source | Inl e \<Rightarrow> MaybePatchParseError e)
             else shell_form
         | _ \<Rightarrow> shell_form)"

section \<open>The changes a patch proposes\<close>

datatype 'p patch_file_change =
    PatchAdd (change_content: str)
  | PatchDelete (change_content: str)
  | PatchUpdate (unified_diff: str) (change_move_path: "'p option") (new_content: str)

record 'p apply_patch_action =
  action_changes :: "('p \<times> 'p patch_file_change) list"
  action_update_file_mode :: update_mode
  action_patch :: str
  action_cwd :: 'p

definition action_is_empty :: "'p apply_patch_action \<Rightarrow> bool" where
  "action_is_empty a \<longleftrightarrow> action_changes a = []"

text \<open>The errors of the verification.\<close>

datatype verify_error =
    VerifyParse parse_error
  | VerifyApply apply_error
  | ImplicitInvocation

datatype 'p maybe_apply_patch_verified =
    VerifiedBody "'p apply_patch_action"
  | VerifiedShellParseError extract_heredoc_error
  | CorrectnessError verify_error
  | VerifiedNotApplyPatch

text \<open>\<open>ApplyPatchFileUpdate\<close>; the diff has one line of context.\<close>

record file_update =
  update_unified_diff :: str
  update_original_content :: str
  update_content :: str

definition unified_diff_from_chunks_with_context_and_mode ::
    "(nat \<Rightarrow> str \<Rightarrow> str \<Rightarrow> str) \<Rightarrow> ('w, 'p) fs_ops \<Rightarrow> 'p path_ops \<Rightarrow> 'w \<Rightarrow> 'p \<Rightarrow> update_file_chunk list \<Rightarrow> nat \<Rightarrow>
       update_mode \<Rightarrow> apply_error + file_update" where
  "unified_diff_from_chunks_with_context_and_mode diff fs po w p chunks context_lines um =
     and_then (derive_new_contents_from_chunks fs po w p chunks um) (\<lambda>ap.
       Inr \<lparr>update_unified_diff = diff context_lines (original_contents ap) (new_contents ap),
            update_original_content = original_contents ap, update_content = new_contents ap\<rparr>)"

definition unified_diff_from_chunks_with_mode where
  "unified_diff_from_chunks_with_mode diff fs po w p chunks um =
     unified_diff_from_chunks_with_context_and_mode diff fs po w p chunks 1 um"

definition verify_hunk_change ::
    "(nat \<Rightarrow> str \<Rightarrow> str \<Rightarrow> str) \<Rightarrow> ('w, 'p) fs_ops \<Rightarrow> 'p path_ops \<Rightarrow> 'w \<Rightarrow> 'p \<Rightarrow> update_mode \<Rightarrow> 'p \<Rightarrow> hunk \<Rightarrow>
       verify_error + 'p patch_file_change" where
  "verify_hunk_change diff fs po w cwd um p h =
     (case h of
        AddFile _ contents \<Rightarrow> Inr (PatchAdd contents)
      | DeleteFile _ \<Rightarrow>
          and_then (map_err (\<lambda>e. VerifyApply (IoContext (''Failed to read '' @ path_native po p) e)) (fs_read_text fs w p))
            (\<lambda>content. Inr (PatchDelete content))
      | UpdateFile _ move_path chunks \<Rightarrow>
          and_then (map_err VerifyApply (unified_diff_from_chunks_with_mode diff fs po w p chunks um)) (\<lambda>u.
            case move_path of
              None \<Rightarrow> Inr (PatchUpdate (update_unified_diff u) None (update_content u))
            | Some dest \<Rightarrow>
                and_then (map_err (VerifyApply \<circ> PathUriError) (path_join po cwd dest)) (\<lambda>d.
                  Inr (PatchUpdate (update_unified_diff u) (Some d) (update_content u)))))"

fun verify_hunks ::
    "(nat \<Rightarrow> str \<Rightarrow> str \<Rightarrow> str) \<Rightarrow> ('w, 'p) fs_ops \<Rightarrow> 'p path_ops \<Rightarrow> 'w \<Rightarrow> 'p \<Rightarrow> update_mode \<Rightarrow> hunk list \<Rightarrow>
       ('p \<times> 'p patch_file_change) list \<Rightarrow> verify_error + ('p \<times> 'p patch_file_change) list" where
  "verify_hunks diff fs po w cwd um [] acc = Inr acc"
| "verify_hunks diff fs po w cwd um (h # hs) acc =
     and_then (map_err (VerifyApply \<circ> PathUriError) (path_join po cwd (hunk_source_path h))) (\<lambda>p.
       if p \<in> fst ` set acc
       then Inl (VerifyParse (InvalidPatchError (''multiple operations target '' @ path_native po p)))
       else and_then (verify_hunk_change diff fs po w cwd um p h) (\<lambda>c.
              verify_hunks diff fs po w cwd um hs (acc @ [(p, c)])))"

definition effective_cwd :: "'p path_ops \<Rightarrow> apply_patch_args \<Rightarrow> 'p \<Rightarrow> verify_error + 'p" where
  "effective_cwd po args cwd =
     (case arg_workdir args of
        None \<Rightarrow> Inr cwd
      | Some dir \<Rightarrow> map_err (VerifyApply \<circ> PathUriError) (path_join po cwd dir))"

definition try_verify_apply_patch_args ::
    "(nat \<Rightarrow> str \<Rightarrow> str \<Rightarrow> str) \<Rightarrow> ('w, 'p) fs_ops \<Rightarrow> 'p path_ops \<Rightarrow> 'w \<Rightarrow> apply_patch_args \<Rightarrow> 'p \<Rightarrow> update_mode \<Rightarrow>
       verify_error + 'p apply_patch_action" where
  "try_verify_apply_patch_args diff fs po w args cwd um =
     and_then (effective_cwd po args cwd) (\<lambda>ecwd.
       and_then (verify_hunks diff fs po w ecwd um (arg_hunks args) []) (\<lambda>cs.
         Inr \<lparr>action_changes = cs, action_update_file_mode = um, action_patch = arg_patch args,
              action_cwd = ecwd\<rparr>))"

definition verify_apply_patch_args_with_mode ::
    "(nat \<Rightarrow> str \<Rightarrow> str \<Rightarrow> str) \<Rightarrow> ('w, 'p) fs_ops \<Rightarrow> 'p path_ops \<Rightarrow> 'w \<Rightarrow> apply_patch_args \<Rightarrow> 'p \<Rightarrow> update_mode \<Rightarrow>
       'p maybe_apply_patch_verified" where
  "verify_apply_patch_args_with_mode diff fs po w args cwd um =
     (case try_verify_apply_patch_args diff fs po w args cwd um of
        Inr action \<Rightarrow> VerifiedBody action
      | Inl err \<Rightarrow> CorrectnessError err)"

definition is_raw_patch :: "('p \<Rightarrow> path_convention option) \<Rightarrow> str list \<Rightarrow> 'p \<Rightarrow> bool" where
  "is_raw_patch convention argv cwd \<longleftrightarrow>
     (case argv of [body] \<Rightarrow> result_ok (parse_patch body) \<noteq> None | _ \<Rightarrow> False)
   \<or> (case parse_shell_script convention argv cwd of
        Some (_, script) \<Rightarrow> result_ok (parse_patch script) \<noteq> None
      | None \<Rightarrow> False)"

definition maybe_parse_apply_patch_verified_with_mode ::
    "('p \<Rightarrow> path_convention option) \<Rightarrow> script_query \<Rightarrow> (nat \<Rightarrow> str \<Rightarrow> str \<Rightarrow> str) \<Rightarrow> ('w, 'p) fs_ops \<Rightarrow> 'p path_ops \<Rightarrow> 'w \<Rightarrow>
       str list \<Rightarrow> 'p \<Rightarrow> update_mode \<Rightarrow> 'p maybe_apply_patch_verified" where
  "maybe_parse_apply_patch_verified_with_mode convention query diff fs po w argv cwd um =
     (if is_raw_patch convention argv cwd then CorrectnessError ImplicitInvocation
      else
        (case maybe_parse_apply_patch convention query argv cwd of
           MaybeBody args \<Rightarrow> verify_apply_patch_args_with_mode diff fs po w args cwd um
         | MaybeShellParseError e \<Rightarrow> VerifiedShellParseError e
         | MaybePatchParseError e \<Rightarrow> CorrectnessError (VerifyParse e)
         | MaybeNotApplyPatch \<Rightarrow> VerifiedNotApplyPatch))"

end
