(* ===== verification/Patch_Reparse.thy ===== *)
theory Patch_Reparse
  imports Patch_Grammar Patch_Invocation
begin

text \<open>
  A patch is parsed twice: once when it is verified and approved, and again, from the text that the first parse
  keeps, when it is applied (\<open>ApplyPatchAction::patch\<close> of \<open>codex-rs/apply-patch/src/lib.rs\<close>).  This theory shows
  that the second parse succeeds and names the same files.  The contents may differ: both parses remove carriage returns at the
  end of lines.
\<close>

section \<open>Trimming around ASCII separators\<close>

definition ascii :: "char \<Rightarrow> bool" where
  "ascii c \<longleftrightarrow> byte_val c < 128"

lemma ascii_no_ws:
  assumes "ascii c"
  shows "\<not> is_ws2 a c" "\<not> is_ws2 c a" "\<not> is_ws3 a b c" "\<not> is_ws3 a c b" "\<not> is_ws3 c a b"
  using assms by (auto simp: ascii_def is_ws2_def is_ws3_def)

lemma ascii_cr_lf [simp]: "ascii cr_char" "ascii lf_char" "ascii (CHR ''*'')"
  by (simp_all add: ascii_def byte_val_def)

lemma two_cases: "(\<And>a. (s :: str) = [a] \<Longrightarrow> P) \<Longrightarrow> (\<And>a b. s = [a, b] \<Longrightarrow> P) \<Longrightarrow> (\<And>a b d t. s = a # b # d # t \<Longrightarrow> P)
    \<Longrightarrow> s \<noteq> [] \<Longrightarrow> P"
  by (cases s rule: ws_len.cases) auto

lemma ws_len_sep: "ascii c \<Longrightarrow> s \<noteq> [] \<Longrightarrow> ws_len (s @ c # x) = ws_len s"
  by (rule two_cases [of s]; cases x) (auto simp: ascii_no_ws)

lemma ws_len_rev_sep: "ascii c \<Longrightarrow> s \<noteq> [] \<Longrightarrow> ws_len_rev (s @ c # x) = ws_len_rev s"
  by (rule two_cases [of s]; cases x) (auto simp: ascii_no_ws)

lemma ws_len_le: "ws_len s \<le> length s" "ws_len_rev s \<le> length s"
  by (cases s rule: ws_len.cases; simp) (cases s rule: ws_len_rev.cases; simp)

lemma trim_start_sep:
  assumes "ascii c"
  shows "trim_start (s @ c # x) = (if trim_start s = [] then trim_start (c # x) else trim_start s @ c # x)"
proof (induction s rule: trim_start.induct)
  case (1 s)
  show ?case
  proof (cases "s = [] \<or> ws_len s = 0")
    case True
    then show ?thesis
      using ws_len_sep [OF assms, of s x] by (cases "s = []") (auto simp: trim_start_id)
  next
    case False
    then have "trim_start (s @ c # x) = trim_start (drop (ws_len s) s @ c # x)"
      using ws_len_sep [OF assms, of s x] ws_len_le(1) [of s] by (subst trim_start.simps) simp
    then show ?thesis using 1 False by (simp add: trim_start.simps [of s])
  qed
qed

lemma trim_rev_sep:
  assumes "ascii c"
  shows "trim_rev (s @ c # x) = (if trim_rev s = [] then trim_rev (c # x) else trim_rev s @ c # x)"
proof (induction s rule: trim_rev.induct)
  case (1 s)
  show ?case
  proof (cases "s = [] \<or> ws_len_rev s = 0")
    case True
    then show ?thesis
      using ws_len_rev_sep [OF assms, of s x] by (cases "s = []") (auto simp: trim_rev.simps [of "s @ c # x"] trim_rev.simps [of s])
  next
    case False
    then have "trim_rev (s @ c # x) = trim_rev (drop (ws_len_rev s) s @ c # x)"
      using ws_len_rev_sep [OF assms, of s x] ws_len_le(2) [of s] by (subst trim_rev.simps) simp
    then show ?thesis using 1 False by (simp add: trim_rev.simps [of s])
  qed
qed

lemma trim_end_sep:
  assumes "ascii c"
  shows "trim_end (x @ c # s) = (if trim_end s = [] then trim_end (x @ [c]) else x @ c # trim_end s)"
  using trim_rev_sep [OF assms, of "rev s" "rev x"] by (simp add: trim_end_def)

lemma trim_end_cr [simp]: "trim_end (l @ [cr_char]) = trim_end l"
proof -
  have "ws_len_rev (cr_char # rev l) = 1"
    by (cases "cr_char # rev l" rule: ws_len_rev.cases) (auto simp: is_ws_byte_def byte_val_def)
  then show ?thesis by (simp add: trim_end_def trim_rev.simps [of "cr_char # rev l"])
qed

lemma trim_cr [simp]: "trim (l @ [cr_char]) = trim l"
proof -
  have "trim_start [cr_char] = []"
    by (simp add: trim_start.simps [of "[cr_char]"] is_ws_byte_def byte_val_def)
  then show ?thesis by (simp add: trim_def trim_start_sep)
qed

lemma strip_cr_cases: "strip_cr l = l \<or> l = strip_cr l @ [cr_char]"
  by (auto simp: strip_cr_def strip_suffix_Some_iff split: option.splits)

lemma trim_strip_cr [simp]: "trim (strip_cr l) = trim l" "trim_end (strip_cr l) = trim_end l"
  using strip_cr_cases [of l] trim_cr [of "strip_cr l"] trim_end_cr [of "strip_cr l"] by metis+

lemma trim_trim_start: "trim (trim_start s) = trim s"
proof -
  have "trim_start (trim_start s) = trim_start s"
    using trim_start_stop [of s] by (metis trim_start_Nil trim_start_id)
  then show ?thesis by (simp add: trim_def)
qed

text \<open>A line that trims to a text beginning with a star.\<close>

lemma trim_star_split:
  assumes "trim z = CHR ''*'' # m"
  obtains u t where "z = u @ CHR ''*'' # t" "trim_start u = []" "trim_end (CHR ''*'' # t) = CHR ''*'' # m"
proof -
  obtain t where t: "trim_start z = CHR ''*'' # t"
    using assms trim_end_head unfolding trim_def
    by (metis list.exhaust list.inject list.simps(3) trim_end_Nil)
  then obtain u where u: "z = u @ CHR ''*'' # t" using trim_start_suffix [of z] by (auto simp: suffix_def)
  then have "trim_start u = []"
    using t trim_start_sep [of "CHR ''*''" u t] by (auto split: if_splits)
  then show ?thesis using that u assms t by (simp add: trim_def)
qed

lemma trim_end_star [simp]: "trim_end (x @ [CHR ''*'']) = x @ [CHR ''*'']"
  by (simp add: trim_end_fixed_iff, cases "rev x" rule: ws_len_rev.cases)
     (auto simp: is_ws_byte_def is_ws2_def is_ws3_def byte_val_def)

lemma trim_trim_end:
  assumes "trim z = CHR ''*'' # m"
  shows "trim (trim_end z) = trim z" "trim_end z \<noteq> []"
proof -
  obtain u t where u: "z = u @ CHR ''*'' # t" "trim_start u = []" "trim_end (CHR ''*'' # t) = CHR ''*'' # m"
    using trim_star_split [OF assms] .
  have end_z: "trim_end z = u @ CHR ''*'' # m"
    using u(1,3) trim_end_sep [of "CHR ''*''" u t] trim_end_sep [of "CHR ''*''" "[]" t]
      trim_end_star [of "[]"]
    by (auto split: if_splits)
  have "ws_len (CHR ''*'' # m) = 0" by (rule ws_len_ascii) simp
  then have "trim_start (u @ CHR ''*'' # m) = CHR ''*'' # m"
    using u(2) trim_start_sep [of "CHR ''*''" u m] by (simp add: trim_start_id)
  then have "trim (trim_end z) = trim_end (CHR ''*'' # m)" by (simp add: trim_def end_z)
  also have "\<dots> = CHR ''*'' # m" using u(3) by (metis trim_end_idem)
  finally show "trim (trim_end z) = trim z" using assms by simp
  show "trim_end z \<noteq> []" using end_z by simp
qed

section \<open>Parsers that read the same headers\<close>

text \<open>
  Two parsers agree when they differ in the contents of added files and of chunks only; a chunk without lines
  stays without lines, since the parser refuses those.
\<close>

definition same_chunk :: "update_file_chunk \<Rightarrow> update_file_chunk \<Rightarrow> bool" where
  "same_chunk c d \<longleftrightarrow> (chunk_is_empty c \<longleftrightarrow> chunk_is_empty d) \<and> is_end_of_file c = is_end_of_file d"

fun same_files :: "hunk \<Rightarrow> hunk \<Rightarrow> bool" where
  "same_files (AddFile p _) (AddFile q _) \<longleftrightarrow> p = q"
| "same_files (DeleteFile p) (DeleteFile q) \<longleftrightarrow> p = q"
| "same_files (UpdateFile p m cs) (UpdateFile q n ds) \<longleftrightarrow> p = q \<and> m = n \<and> list_all2 same_chunk cs ds"
| "same_files _ _ \<longleftrightarrow> False"

definition agree :: "parser \<Rightarrow> parser \<Rightarrow> bool" where
  "agree p q \<longleftrightarrow> mode p = mode q \<and> environment_id p = environment_id q \<and> line_number p = line_number q
     \<and> list_all2 same_files (hunks p) (hunks q)"

text \<open>The line as it is, or without one carriage return at its end.\<close>

definition cr_less :: "str \<Rightarrow> str \<Rightarrow> bool" where
  "cr_less l l' \<longleftrightarrow> l' = l \<or> l = l' @ [cr_char]"

lemma cr_less_trim: "cr_less l l' \<Longrightarrow> trim l' = trim l \<and> trim_end l' = trim_end l"
  by (auto simp: cr_less_def)

lemma same_files_simps [simp]:
  "same_files (AddFile p c) h \<longleftrightarrow> (\<exists>d. h = AddFile p d)"
  "same_files (DeleteFile p) h \<longleftrightarrow> h = DeleteFile p"
  "same_files (UpdateFile p m cs) h \<longleftrightarrow> (\<exists>ds. h = UpdateFile p m ds \<and> list_all2 same_chunk cs ds)"
  by (cases h; auto)+

lemma same_files_refl [simp]: "same_files h h"
  by (cases h) (auto simp: list_all2_refl same_chunk_def)

lemma list_all2_snoc: "list_all2 P (butlast xs) (butlast ys) \<Longrightarrow> P x y \<Longrightarrow> list_all2 P (butlast xs @ [x]) (butlast ys @ [y])"
  by (simp add: list_all2_appendI)

lemma list_all2_parts:
  assumes "list_all2 P xs ys"
  shows "xs = [] \<longleftrightarrow> ys = []" "list_all2 P (butlast xs) (butlast ys)" "xs \<noteq> [] \<Longrightarrow> P (last xs) (last ys)"
proof -
  have len: "length xs = length ys" by (rule list_all2_lengthD [OF assms])
  then show "xs = [] \<longleftrightarrow> ys = []" by auto
  show "list_all2 P (butlast xs) (butlast ys)"
    using assms len by (simp add: butlast_conv_take)
  show "P (last xs) (last ys)" if "xs \<noteq> []"
    using assms that len by (cases xs rule: rev_cases; cases ys rule: rev_cases) (auto simp: list_all2_append)
qed

lemma agree_last_hunk:
  assumes "agree p q"
  shows "rel_option same_files (last_hunk p) (last_hunk q)"
  using assms list_all2_parts [of same_files "hunks p" "hunks q"] by (auto simp: agree_def last_hunk_def)

lemma same_chunks_last: "list_all2 same_chunk cs ds \<Longrightarrow> last_chunk_empty cs = last_chunk_empty ds"
  using list_all2_parts [of same_chunk cs ds] by (auto simp: last_chunk_empty_def same_chunk_def)

lemma same_chunks_eof: "list_all2 same_chunk cs ds \<Longrightarrow> cs \<noteq> [] \<Longrightarrow> is_end_of_file (last cs) = is_end_of_file (last ds)"
  using list_all2_parts(3) [of same_chunk cs ds] by (simp add: same_chunk_def)

lemma agree_push: "agree p q \<Longrightarrow> same_files h h' \<Longrightarrow> agree (push_hunk p h m) (push_hunk q h' m)"
  by (simp add: agree_def push_hunk_def list_all2_appendI)

lemma agree_set_last: "agree p q \<Longrightarrow> same_files h h' \<Longrightarrow> agree (set_last_hunk p h) (set_last_hunk q h')"
  using list_all2_parts(2) [of same_files "hunks p" "hunks q"]
  by (simp add: agree_def set_last_hunk_def list_all2_appendI)

lemma ensure_agree:
  assumes "agree p q" and "ensure_update_hunk_is_not_empty p l = Inr ()"
  shows "ensure_update_hunk_is_not_empty q l = Inr ()"
proof (cases "last_hunk p")
  case None
  then show ?thesis
    using agree_last_hunk [OF assms(1)] by (simp add: ensure_update_hunk_is_not_empty_def)
next
  case (Some h)
  then obtain h' where h': "last_hunk q = Some h'" "same_files h h'"
    using agree_last_hunk [OF assms(1)] by (cases "last_hunk q") auto
  show ?thesis
  proof (cases h)
    case (UpdateFile path mv cs)
    then obtain ds where ds: "h' = UpdateFile path mv ds" "list_all2 same_chunk cs ds" using h'(2) by auto
    have "mode q = mode p" using assms(1) by (simp add: agree_def)
    then show ?thesis
      using assms(2) Some UpdateFile h'(1) ds(1) same_chunks_last [OF ds(2)] list_all2_parts(1) [OF ds(2)]
      by (auto simp: ensure_update_hunk_is_not_empty_def split: list.splits parser_mode.splits if_splits)
  qed (use h' in \<open>auto simp: ensure_update_hunk_is_not_empty_def\<close>)
qed

lemma headers_agree:
  assumes "agree p q" and "handle_hunk_headers_and_end_patch p t = Inr (b, p')"
  shows "\<exists>q'. handle_hunk_headers_and_end_patch q t = Inr (b, q') \<and> agree p' q'"
proof -
  have m: "mode q = mode p" "line_number q = line_number p" "environment_id q = environment_id p"
    using assms(1) by (simp_all add: agree_def)
  have ended: "agree (p\<lparr>mode := EndedPatch\<rparr>) (q\<lparr>mode := EndedPatch\<rparr>)"
    "agree (p\<lparr>environment_id := e\<rparr>) (q\<lparr>environment_id := e\<rparr>)" for e
    using assms(1) by (simp_all add: agree_def)
  note en = ensure_agree [OF assms(1), of t] and push = agree_push [OF assms(1)]
  show ?thesis
    using assms ended en push m
    by (auto simp: handle_hunk_headers_and_end_patch_def handle_environment_id_def
        split: parser_mode.splits option.splits if_splits)
qed

lemma same_chunk_edits:
  "same_chunk c d \<Longrightarrow> same_chunk (c\<lparr>is_end_of_file := b\<rparr>) (d\<lparr>is_end_of_file := b\<rparr>)"
  "same_chunk c d \<Longrightarrow> same_chunk (push_context_line r c) (push_context_line r' d)"
  "same_chunk c d \<Longrightarrow> same_chunk (c\<lparr>new_lines := new_lines c @ [r]\<rparr>) (d\<lparr>new_lines := new_lines d @ [r']\<rparr>)"
  "same_chunk c d \<Longrightarrow> same_chunk (c\<lparr>old_lines := old_lines c @ [r]\<rparr>) (d\<lparr>old_lines := old_lines d @ [r']\<rparr>)"
  by (simp_all add: same_chunk_def chunk_is_empty_def push_context_line_def)

lemma edit_same:
  assumes "list_all2 same_chunk cs ds" and "\<And>c d. same_chunk c d \<Longrightarrow> same_chunk (f c) (g d)"
  shows "list_all2 same_chunk (edit_last_chunk f cs) (edit_last_chunk g ds)"
proof (cases "cs = []")
  case True
  have "same_chunk chunk_default chunk_default" by (simp add: same_chunk_def)
  then show ?thesis using assms True by (auto simp: edit_last_chunk_def)
next
  case False
  then show ?thesis
    using list_all2_parts [OF assms(1)] assms(2) by (simp add: edit_last_chunk_def list_all2_appendI)
qed

lemma append_same: "list_all2 same_chunk cs ds \<Longrightarrow> list_all2 same_chunk (cs @ [c]) (ds @ [c])"
  by (simp add: list_all2_appendI same_chunk_def)

definition same_update :: "'e + ('m \<times> update_file_chunk list) \<Rightarrow> 'e + ('m \<times> update_file_chunk list) \<Rightarrow> bool" where
  "same_update r r' \<longleftrightarrow>
     (\<forall>mv cs. r = Inr (mv, cs) \<longrightarrow> (\<exists>ds. r' = Inr (mv, ds) \<and> list_all2 same_chunk cs ds))"

lemma same_update_intros:
  "same_update (Inl e) r'"
  "list_all2 same_chunk cs ds \<Longrightarrow> same_update (Inr (mv, cs)) (Inr (mv, ds))"
  "(b \<Longrightarrow> same_update x x') \<Longrightarrow> (\<not> b \<Longrightarrow> same_update y y') \<Longrightarrow> same_update (if b then x else y) (if b then x' else y')"
  by (auto simp: same_update_def)

lemma update_line_agree:
  assumes same: "list_all2 same_chunk cs ds" and "cr_less l l'"
  shows "same_update (process_update_line n l mv cs) (process_update_line n l' mv ds)"
proof -
  have t: "trim_end l' = trim_end l" using cr_less_trim [OF assms(2)] by simp
  have nil: "ds = [] \<longleftrightarrow> cs = []" using list_all2_parts(1) [OF same] by simp
  have empty: "last_chunk_empty ds = last_chunk_empty cs" using same_chunks_last [OF same] by simp
  have eof: "cs \<noteq> [] \<and> is_end_of_file (last ds) \<longleftrightarrow> cs \<noteq> [] \<and> is_end_of_file (last cs)"
    using same_chunks_eof [OF same] by auto
  have first: "l = c # r \<Longrightarrow> c \<noteq> cr_char \<Longrightarrow> \<exists>r'. l' = c # r'" "l = [] \<Longrightarrow> l' = []" for c r
    using assms(2) by (auto simp: cr_less_def Cons_eq_append_conv)
  note step = same_update_intros same append_same [OF same] edit_same [OF same] same_chunk_edits
  have body: "same_update
      (case l of [] \<Rightarrow> Inr (mv, edit_last_chunk (push_context_line []) cs)
       | c # r \<Rightarrow> if c = CHR '' '' then Inr (mv, edit_last_chunk (push_context_line r) cs)
          else if c = CHR ''+'' then Inr (mv, edit_last_chunk (\<lambda>k. k\<lparr>new_lines := new_lines k @ [r]\<rparr>) cs)
          else if c = CHR ''-'' then Inr (mv, edit_last_chunk (\<lambda>k. k\<lparr>old_lines := old_lines k @ [r]\<rparr>) cs)
          else if e then Inl (f c r) else Inl (g c r))
      (case l' of [] \<Rightarrow> Inr (mv, edit_last_chunk (push_context_line []) ds)
       | c # r \<Rightarrow> if c = CHR '' '' then Inr (mv, edit_last_chunk (push_context_line r) ds)
          else if c = CHR ''+'' then Inr (mv, edit_last_chunk (\<lambda>k. k\<lparr>new_lines := new_lines k @ [r]\<rparr>) ds)
          else if c = CHR ''-'' then Inr (mv, edit_last_chunk (\<lambda>k. k\<lparr>old_lines := old_lines k @ [r]\<rparr>) ds)
          else if e' then Inl (f' c r) else Inl (g' c r))" for e e' f f' g g'
  proof (cases l)
    case Nil
    then show ?thesis using first(2) by (auto intro: step)
  next
    case (Cons c r)
    show ?thesis
    proof (cases "c = cr_char")
      case True
      then show ?thesis using Cons by (auto intro: step)
    next
      case False
      then obtain r' where r': "l' = c # r'" using first(1) Cons by blast
      show ?thesis unfolding Cons r' list.case by (auto intro: step)
    qed
  qed
  show ?thesis
    unfolding process_update_line_def Let_def t nil empty eof
    by (intro same_update_intros body same append_same edit_same) (simp_all add: same_chunk_edits)
qed

lemma add_line_agree:
  assumes p: "agree p q" and line: "process_line p l = Inr p'" and l: "cr_less l l'" and "mode p = InAddFile"
  shows "\<exists>q'. process_line q l' = Inr q' \<and> agree p' q'"
proof -
  have t: "trim l' = trim l" "mode q = InAddFile" using cr_less_trim [OF l] p assms(4) by (simp_all add: agree_def)
  obtain b p1 where h: "handle_hunk_headers_and_end_patch p (trim l) = Inr (b, p1)"
    using line assms(4) by (auto simp: process_line_def Let_def)
  then obtain q1 where q1: "handle_hunk_headers_and_end_patch q (trim l) = Inr (b, q1)" "agree p1 q1"
    using headers_agree [OF p] by blast
  show ?thesis
  proof (cases b)
    case True
    then show ?thesis using line h q1 assms(4) t by (auto simp: process_line_def Let_def)
  next
    case False
    then obtain r path c where r: "strip_prefix ''+'' l = Some r" "last_hunk p = Some (AddFile path c)"
      "p' = set_last_hunk p (AddFile path (c @ r @ [lf_char]))"
      using line h assms(4) by (auto simp: process_line_def Let_def split: option.splits hunk.splits)
    have "l = CHR ''+'' # r" using r(1) by (auto simp: strip_prefix_Some_iff)
    then obtain r' where r': "l' = CHR ''+'' # r'" using l by (auto simp: cr_less_def Cons_eq_append_conv)
    obtain d where d: "last_hunk q = Some (AddFile path d)"
      using agree_last_hunk [OF p] r(2) by (cases "last_hunk q") auto
    then have "process_line q l' = Inr (set_last_hunk q (AddFile path (d @ r' @ [lf_char])))"
      using False h q1 t r' by (simp add: process_line_def strip_prefix_def)
    then show ?thesis using agree_set_last [OF p] r(3) by auto
  qed
qed

lemma update_file_line_agree:
  assumes p: "agree p q" and line: "process_line p l = Inr p'" and l: "cr_less l l'" and "mode p = InUpdateFile n"
  shows "\<exists>q'. process_line q l' = Inr q' \<and> agree p' q'"
proof -
  have t: "trim_end l' = trim_end l" "mode q = InUpdateFile n" "line_number q = line_number p"
    using cr_less_trim [OF l] p assms(4) by (simp_all add: agree_def)
  obtain b p1 where h: "handle_hunk_headers_and_end_patch p (trim_end l) = Inr (b, p1)"
    using line assms(4) by (auto simp: process_line_def Let_def)
  then obtain q1 where q1: "handle_hunk_headers_and_end_patch q (trim_end l) = Inr (b, q1)" "agree p1 q1"
    using headers_agree [OF p] by blast
  show ?thesis
  proof (cases b)
    case True
    then show ?thesis using line h q1 assms(4) t by (auto simp: process_line_def Let_def)
  next
    case False
    then obtain path mv cs mv' cs' where r: "last_hunk p = Some (UpdateFile path mv cs)"
      "process_update_line (line_number p) l mv cs = Inr (mv', cs')"
      "p' = set_last_hunk p (UpdateFile path mv' cs')"
      using line h assms(4) by (auto simp: process_line_def Let_def split: option.splits hunk.splits)
    obtain ds where ds: "last_hunk q = Some (UpdateFile path mv ds)" "list_all2 same_chunk cs ds"
      using agree_last_hunk [OF p] r(1) by (cases "last_hunk q") auto
    then obtain ds' where "process_update_line (line_number p) l' mv ds = Inr (mv', ds')" "list_all2 same_chunk cs' ds'"
      using update_line_agree [OF ds(2) l] r(2) unfolding same_update_def by blast
    then have "process_line q l' = Inr (set_last_hunk q (UpdateFile path mv' ds'))"
      "agree p' (set_last_hunk q (UpdateFile path mv' ds'))"
      using False h q1 t ds(1) r(3) agree_set_last [OF p] by (simp_all add: process_line_def)
    then show ?thesis by blast
  qed
qed

lemma process_line_agree:
  assumes p: "agree p q" and "process_line p l = Inr p'" and l: "cr_less l l'"
  shows "\<exists>q'. process_line q l' = Inr q' \<and> agree p' q'"
proof -
  have t: "trim l' = trim l" "mode q = mode p" "line_number q = line_number p"
    using cr_less_trim [OF l] p by (simp_all add: agree_def)
  show ?thesis
  proof (cases "mode p")
    case NotStarted
    then show ?thesis
      using assms(2) p t by (auto simp: process_line_def Let_def agree_def split: if_splits)
  next
    case EndedPatch
    then show ?thesis using assms(2) p t by (auto simp: process_line_def Let_def split: if_splits)
  next
    case InAddFile
    then show ?thesis using add_line_agree [OF assms] by simp
  next
    case (InUpdateFile n)
    then show ?thesis using update_file_line_agree [OF assms] by simp
  qed (use assms(2) headers_agree [OF p, of "trim l"] t in
      \<open>fastforce simp: process_line_def Let_def split: if_splits\<close>)+
qed

lemma feed_agree:
  assumes "agree p q" and "feed_lines p ls = Inr p'" and "list_all2 cr_less ls ls'"
  shows "\<exists>q'. feed_lines q ls' = Inr q' \<and> agree p' q'"
  using assms
proof (induction ls arbitrary: p q ls')
  case (Cons l ls)
  then obtain k ks where ks: "ls' = k # ks" "cr_less l k" "list_all2 cr_less ls ks"
    by (auto simp: list_all2_Cons1)
  obtain p1 where p1: "process_line (take_line p) l = Inr p1" "feed_lines p1 ls = Inr p'" using Cons.prems(2) by auto
  have "agree (take_line p) (take_line q)" using Cons.prems(1) by (simp add: agree_def take_line_def)
  then obtain q1 where "process_line (take_line q) k = Inr q1" "agree p1 q1"
    using process_line_agree [OF _ p1(1) ks(2)] by blast
  then show ?case using Cons.IH [OF _ p1(2) ks(3)] ks(1) by auto
qed simp

section \<open>The second parse\<close>

lemma join_snoc: "ls \<noteq> [] \<Longrightarrow> join_with [d] (ls @ [z]) = join_with [d] ls @ d # z"
  by (induction "[d]" ls rule: join_with.induct) auto

lemma join_Cons: "ls \<noteq> [] \<Longrightarrow> join_with [d] (l # ls) = l @ d # join_with [d] ls"
  by (cases ls) auto

lemma push_delta_feed:
  assumes "list_all (\<lambda>l. lf_char \<notin> set l) ls" and "lf_char \<notin> set z" and "line_buffer p = []"
  shows "push_delta p (join_with [lf_char] (ls @ [z])) = (q, None)
    \<longleftrightarrow> (\<exists>p'. feed_lines p (map strip_cr ls) = Inr p' \<and> q = p'\<lparr>line_buffer := z\<rparr>)"
  using assms
proof (induction ls arbitrary: p)
  case Nil
  then show ?case using push_delta_chars [of z p "[]"] by auto
next
  case (Cons l ls)
  have join: "join_with [lf_char] ((l # ls) @ [z]) = l @ lf_char # join_with [lf_char] (ls @ [z])"
    by (cases ls) auto
  have lf: "lf_char \<notin> set l" using Cons.prems by simp
  have take: "take_line (p\<lparr>line_buffer := l\<rparr>) = take_line p" by (simp add: take_line_def)
  show ?case
  proof (cases "process_line (take_line p) (strip_cr l)")
    case (Inl e)
    then show ?thesis using Cons.prems by (simp only: join push_delta_chars [OF lf]) (simp add: take)
  next
    case (Inr p1)
    then have "line_buffer p1 = []" using process_line_buffer [OF Inr] by (simp add: take_line_def)
    then show ?thesis
      using Cons Inr by (simp only: join push_delta_chars [OF lf]) (simp add: take)
  qed
qed

lemma finish_agree:
  assumes "agree p q" and "finish (p\<lparr>line_buffer := z\<rparr>) = (p', Inr hs)" and "trim z = END_PATCH_MARKER"
    and "trim y = END_PATCH_MARKER"
  shows "\<exists>q' ks. finish (q\<lparr>line_buffer := y\<rparr>) = (q', Inr ks) \<and> list_all2 same_files hs ks
    \<and> environment_id q' = environment_id p'"
proof -
  have ne: "z \<noteq> []" "y \<noteq> []" using assms(3,4) by (auto simp: END_PATCH_MARKER_def)
  have take: "take_line (p\<lparr>line_buffer := z\<rparr>) = take_line p" "take_line (q\<lparr>line_buffer := y\<rparr>) = take_line q"
    by (simp_all add: take_line_def)
  have same: "agree (take_line p) (take_line q)" using assms(1) by (simp add: agree_def take_line_def)
  have "ensure_update_hunk_is_not_empty (take_line p) END_PATCH_MARKER = Inr ()"
    "p' = (take_line p)\<lparr>mode := EndedPatch\<rparr>" "hs = hunks (take_line p)"
    using assms(2,3) ne take
    by (auto simp: finish_def finish_last_line_def Let_def split: prod.splits option.splits sum.splits if_splits)
  then show ?thesis
    using ensure_agree [OF same] same assms(4) ne take
    by (auto simp: finish_def finish_last_line_def Let_def agree_def)
qed

definition framed :: "str list \<Rightarrow> bool" where
  "framed ls \<longleftrightarrow> ls \<noteq> [] \<and> trim (hd ls) = BEGIN_PATCH_MARKER \<and> trim (last ls) = END_PATCH_MARKER"

lemma boundaries_strict_iff: "check_patch_boundaries_strict ls = Inr ls' \<longleftrightarrow> framed ls \<and> ls' = ls"
  by (auto simp: check_patch_boundaries_strict_def check_start_and_end_lines_strict_def framed_def split: if_splits)

lemma boundaries_lenient:
  assumes "check_patch_boundaries_lenient ls = Inr ls'"
  shows "framed ls' \<and> set ls' \<subseteq> set ls"
proof (cases "check_patch_boundaries_strict ls")
  case (Inl e)
  then have "check_patch_boundaries_strict (butlast (tl ls)) = Inr ls'"
    using assms by (auto simp: check_patch_boundaries_lenient_def split: if_splits)
  then show ?thesis
    unfolding boundaries_strict_iff by (cases ls) (auto simp: framed_def dest: in_set_butlastD)
next
  case (Inr ls2)
  then have "ls2 = ls'" using assms by (simp add: check_patch_boundaries_lenient_def)
  then show ?thesis using Inr by (simp add: boundaries_strict_iff)
qed

lemma framed_lenient: "framed ls \<Longrightarrow> check_patch_boundaries_lenient ls = Inr ls"
  using boundaries_strict_iff [of ls ls] by (simp add: check_patch_boundaries_lenient_def)

lemma framed_split:
  assumes "framed pl"
  obtains l ls z where "pl = (l # ls) @ [z]" "trim l = BEGIN_PATCH_MARKER" "trim z = END_PATCH_MARKER"
proof -
  have "tl pl \<noteq> []"
    using assms by (cases pl rule: list.exhaust; cases "tl pl") (auto simp: framed_def BEGIN_PATCH_MARKER_def END_PATCH_MARKER_def)
  then have "pl = (hd pl # butlast (tl pl)) @ [last pl]"
    using assms by (cases pl) (auto simp: framed_def)
  then show ?thesis using that assms by (metis framed_def)
qed

lemma set_trims: "set (trim_start s) \<subseteq> set s" "set (trim_end s) \<subseteq> set s" "set (strip_cr s) \<subseteq> set s"
  using trim_start_suffix [of s] trim_end_prefix [of s] strip_cr_cases [of s]
  by (auto simp: set_mono_suffix dest: set_mono_suffix set_mono_prefix) (metis UnCI set_append)

lemma str_lines_no_lf: "l \<in> set (str_lines s) \<Longrightarrow> lf_char \<notin> set l"
  using split_on_fields [of _ lf_char s] set_trims(3)
  by (fastforce simp: str_lines_def Let_def dest: in_set_butlastD split: if_splits)

text \<open>Trimming the joined text trims its first line on the left and its last line on the right.\<close>

lemma trim_joined:
  assumes "trim l = CHR ''*'' # m" and "trim z = CHR ''*'' # n"
  shows "trim (join_with [lf_char] ((l # ls) @ [z])) = join_with [lf_char] ((trim_start l # ls) @ [trim_end z])"
proof -
  have "trim_start l \<noteq> []" using assms(1) by (auto simp: trim_def)
  then have "trim_start (l @ lf_char # x) = trim_start l @ lf_char # x" for x by (simp add: trim_start_sep)
  then have "trim_start (join_with [lf_char] ((l # ls) @ [z])) = join_with [lf_char] ((trim_start l # ls) @ [z])"
    by (simp add: join_Cons)
  moreover have "trim_end (x @ lf_char # z) = x @ lf_char # trim_end z" for x
    using trim_trim_end(2) [OF assms(2)] by (simp add: trim_end_sep)
  ultimately show ?thesis by (simp only: trim_def join_snoc list.discI not_False_eq_True)
qed

lemma cr_less_strip: "cr_less l (strip_cr l)"
  using strip_cr_cases [of l] by (auto simp: cr_less_def)

lemma parse_patch_text_Inr:
  assumes "parse_patch patch = Inr args"
  obtains pl p p' where "check_patch_boundaries_lenient (str_lines (trim patch)) = Inr pl"
    "arg_patch args = join_with [lf_char] pl" "push_delta parser_default (join_with [lf_char] pl) = (p, None)"
    "finish p = (p', Inr (arg_hunks args))" "arg_environment_id args = environment_id p'"
proof -
  obtain pl where pl: "check_patch_boundaries_lenient (str_lines (trim patch)) = Inr pl"
    "(case push_delta parser_default (join_with [lf_char] pl) of
       (p, Some e) \<Rightarrow> Inl e
     | (p, None) \<Rightarrow>
         (case finish p of
            (p', Inl e) \<Rightarrow> Inl e
          | (p', Inr hs) \<Rightarrow>
              Inr \<lparr>arg_patch = join_with [lf_char] pl, arg_hunks = hs, arg_workdir = None,
                   arg_environment_id = environment_id p'\<rparr>)) = Inr args"
    using assms unfolding parse_patch_def parse_patch_text_def Let_def and_then_Inr_iff by auto
  obtain p e where p: "push_delta parser_default (join_with [lf_char] pl) = (p, e)" by fastforce
  moreover obtain p' r where p': "finish p = (p', r)" by fastforce
  ultimately show ?thesis using pl that [OF pl(1)] by (cases e; cases r; force)
qed

lemma parse_patch_textI:
  assumes "check_patch_boundaries_lenient (str_lines (trim patch)) = Inr pl"
    "push_delta parser_default (join_with [lf_char] pl) = (p, None)" "finish p = (p', Inr hs)"
  shows "parse_patch patch = Inr \<lparr>arg_patch = join_with [lf_char] pl, arg_hunks = hs, arg_workdir = None,
    arg_environment_id = environment_id p'\<rparr>"
  using assms by (simp add: parse_patch_def parse_patch_text_def)

lemma str_lines_framed:
  assumes "list_all (\<lambda>l. lf_char \<notin> set l) (ls @ [z])" and "z \<noteq> []"
  shows "str_lines (join_with [lf_char] (ls @ [z])) = map strip_cr ls @ [z]"
  using assms by (simp add: str_lines_def split_join del: join_with.simps)

text \<open>
  The second parse: whatever the first parse accepted, the text that it keeps is accepted again, with the same files,
  moves and environment in the same order.
\<close>

lemma reparse_same_files:
  assumes "parse_patch patch = Inr args"
  shows "\<exists>args'. parse_patch (arg_patch args) = Inr args' \<and> list_all2 same_files (arg_hunks args) (arg_hunks args')
    \<and> arg_environment_id args' = arg_environment_id args"
proof -
  obtain pl p p' where pl: "check_patch_boundaries_lenient (str_lines (trim patch)) = Inr pl"
    "arg_patch args = join_with [lf_char] pl" "push_delta parser_default (join_with [lf_char] pl) = (p, None)"
    "finish p = (p', Inr (arg_hunks args))" "arg_environment_id args = environment_id p'"
    by (rule parse_patch_text_Inr [OF assms])
  have "framed pl" using boundaries_lenient [OF pl(1)] by simp
  then obtain l ls z where lz: "pl = (l # ls) @ [z]" "trim l = BEGIN_PATCH_MARKER" "trim z = END_PATCH_MARKER"
    by (rule framed_split)
  have lf: "list_all (\<lambda>l. lf_char \<notin> set l) pl"
    using boundaries_lenient [OF pl(1)] str_lines_no_lf by (auto simp: list_all_iff)
  let ?l = "trim_start l" and ?z = "trim_end z"
  let ?ls = "strip_cr ?l # map strip_cr ls"
  have lf': "list_all (\<lambda>l. lf_char \<notin> set l) ((?l # ls) @ [?z])" "list_all (\<lambda>l. lf_char \<notin> set l) ?ls"
    "lf_char \<notin> set ?z"
    using lf set_trims unfolding lz(1) by (auto simp: list_all_iff) blast+
  have z: "trim ?z = END_PATCH_MARKER" "?z \<noteq> []"
    using trim_trim_end [of z] lz(3) by (simp_all add: END_PATCH_MARKER_def)
  have lines2: "str_lines (trim (arg_patch args)) = ?ls @ [?z]"
    using trim_joined [of l _ z] lz pl(2) str_lines_framed [OF lf'(1) z(2)]
    by (simp add: BEGIN_PATCH_MARKER_def END_PATCH_MARKER_def)
  have framed: "check_patch_boundaries_lenient (?ls @ [?z]) = Inr (?ls @ [?z])"
    using lz z by (intro framed_lenient) (simp add: framed_def trim_trim_start)
  obtain p1 where p1: "feed_lines parser_default (map strip_cr (l # ls)) = Inr p1" "p = p1\<lparr>line_buffer := z\<rparr>"
    using pl(3) lf unfolding lz(1) by (subst (asm) push_delta_feed) (auto simp: parser_default_def)
  define q0 where "q0 = (take_line parser_default)\<lparr>mode := StartedPatch\<rparr>"
  have first: "process_line (take_line parser_default) x = Inr q0" if "trim x = BEGIN_PATCH_MARKER" for x
    using that by (simp add: process_line_def q0_def take_line_def parser_default_def)
  have "feed_lines q0 (map strip_cr ls) = Inr p1" using p1(1) first [of "strip_cr l"] lz(2) by simp
  moreover have "list_all2 cr_less (map strip_cr ls) (map (strip_cr \<circ> strip_cr) ls)"
    by (simp add: list_all2_conv_all_nth cr_less_strip)
  moreover have "agree q0 q0" by (simp add: agree_def list_all2_refl same_files_refl)
  ultimately obtain q1 where q1: "feed_lines q0 (map (strip_cr \<circ> strip_cr) ls) = Inr q1" "agree p1 q1"
    using feed_agree by blast
  then have "feed_lines parser_default (map strip_cr ?ls) = Inr q1"
    using first [of "strip_cr (strip_cr ?l)"] lz(2) by (simp add: trim_trim_start)
  then have "push_delta parser_default (join_with [lf_char] (?ls @ [?z])) = (q1\<lparr>line_buffer := ?z\<rparr>, None)"
    using lf'(2,3) by (subst push_delta_feed) (auto simp: parser_default_def)
  moreover obtain q2 ks where "finish (q1\<lparr>line_buffer := ?z\<rparr>) = (q2, Inr ks)"
    "list_all2 same_files (arg_hunks args) ks" "environment_id q2 = environment_id p'"
    using finish_agree [OF q1(2) _ lz(3) z(1)] pl(4) p1(2) by blast
  ultimately show ?thesis using parse_patch_textI [OF _ _ , of "arg_patch args"] lines2 framed pl(5) by auto
qed

text \<open>The contents may differ: of three carriage returns at the end of a line each parse removes another one.\<close>

definition cr_source :: str where
  "cr_source = join_with [lf_char] [''*** Begin Patch'', ''*** Add File: f'', ''+a'' @ [cr_char, cr_char, cr_char], ''*** End Patch'']"

lemma reparse_may_change_contents:
  "\<exists>args args'. parse_patch cr_source = Inr args \<and> parse_patch (arg_patch args) = Inr args'
     \<and> arg_hunks args = [AddFile ''f'' [CHR ''a'', cr_char, lf_char]] \<and> arg_hunks args' = [AddFile ''f'' [CHR ''a'', lf_char]]"
proof -
  obtain args where args: "parse_patch cr_source = Inr args" "arg_hunks args = [AddFile ''f'' [CHR ''a'', cr_char, lf_char]]"
    "arg_patch args = join_with [lf_char] [''*** Begin Patch'', ''*** Add File: f'', ''+a'' @ [cr_char, cr_char], ''*** End Patch'']"
  proof
    show "parse_patch cr_source = Inr \<lparr>arg_patch = join_with [lf_char] [''*** Begin Patch'', ''*** Add File: f'',
        ''+a'' @ [cr_char, cr_char], ''*** End Patch''], arg_hunks = [AddFile ''f'' [CHR ''a'', cr_char, lf_char]],
        arg_workdir = None, arg_environment_id = None\<rparr>" by code_simp
  qed simp_all
  moreover have "parse_patch (join_with [lf_char] [''*** Begin Patch'', ''*** Add File: f'', ''+a'' @ [cr_char, cr_char], ''*** End Patch''])
      = Inr \<lparr>arg_patch = join_with [lf_char] [''*** Begin Patch'', ''*** Add File: f'', ''+a'' @ [cr_char], ''*** End Patch''],
        arg_hunks = [AddFile ''f'' [CHR ''a'', lf_char]], arg_workdir = None, arg_environment_id = None\<rparr>" by code_simp
  ultimately show ?thesis by (metis apply_patch_args.select_convs(2))
qed

end
