(* ===== verification/Patch_Footprint.thy ===== *)
theory Patch_Footprint
  imports Patch_Reparse
begin

text \<open>
  What applying a patch touches (\<open>codex-rs/apply-patch/src/lib.rs\<close>): the targets of the hunks, that is their
  paths and the destinations of their moves, and the parent directories of the targets that do not exist yet.  The
  changes that the verification of a patch reports (\<open>invocation.rs\<close>) name all of them.
\<close>

section \<open>Targets\<close>

fun hunk_move_path :: "hunk \<Rightarrow> str option" where
  "hunk_move_path (UpdateFile _ mv _) = mv"
| "hunk_move_path _ = None"

definition hunk_targets :: "'p path_ops \<Rightarrow> 'p \<Rightarrow> hunk \<Rightarrow> 'p set" where
  "hunk_targets po cwd h =
     {p. path_join po cwd (hunk_source_path h) = Inr p
       \<or> (\<exists>dest. hunk_move_path h = Some dest \<and> path_join po cwd dest = Inr p)}"

definition patch_targets :: "'p path_ops \<Rightarrow> 'p \<Rightarrow> hunk list \<Rightarrow> 'p set" where
  "patch_targets po cwd hs = (\<Union>h \<in> set hs. hunk_targets po cwd h)"

lemma patch_targets_simps [simp]:
  "patch_targets po cwd [] = {}"
  "patch_targets po cwd (h # hs) = hunk_targets po cwd h \<union> patch_targets po cwd hs"
  by (simp_all add: patch_targets_def)

lemma same_files_targets: "same_files h h' \<Longrightarrow> hunk_targets po cwd h' = hunk_targets po cwd h"
  by (cases h) (auto simp: hunk_targets_def)

lemma same_patch_targets: "list_all2 same_files hs hs' \<Longrightarrow> patch_targets po cwd hs' = patch_targets po cwd hs"
  by (induction rule: list_all2_induct) (simp_all add: same_files_targets)

section \<open>Operations on targets only\<close>

text \<open>
  The interface: an assertion \<open>holds\<close> on the state of the file system which survives writing and removing the allowed paths
  and creating their parent directories, whether these calls succeed or fail.  Applying hunks whose targets are allowed keeps
  the assertion.
\<close>

locale guarded_fs =
  fixes fs :: "('w, 'p) fs_ops" and po :: "'p path_ops" and allowed :: "'p set" and holds :: "'w \<Rightarrow> bool"
  assumes write_keeps: "p \<in> allowed \<Longrightarrow> holds w \<Longrightarrow> fs_write fs p s w = (w', r) \<Longrightarrow> holds w'"
    and remove_keeps: "p \<in> allowed \<Longrightarrow> holds w \<Longrightarrow> fs_remove fs p w = (w', r) \<Longrightarrow> holds w'"
    and create_keeps: "p \<in> allowed \<Longrightarrow> path_parent po p = Some d \<Longrightarrow> holds w \<Longrightarrow> fs_create_directory fs d w = (w', r)
      \<Longrightarrow> holds w'"
begin

lemma retry_keeps:
  assumes "p \<in> allowed" and "holds w" and "write_file_with_missing_parent_retry fs po p s w = (w', r)"
  shows "holds w'"
  using assms
  by (auto simp: write_file_with_missing_parent_retry_def Let_def
      split: prod.splits sum.splits option.splits if_splits dest: write_keeps create_keeps)

lemma remove_checked_keeps:
  assumes "p \<in> allowed" and "holds w" and "remove_checked fs ctx p expected w d = (w', d', r)"
  shows "holds w'"
  using assms by (auto simp: remove_checked_def split: prod.splits sum.splits dest: remove_keeps)

lemma add_keeps: "p \<in> allowed \<Longrightarrow> holds w \<Longrightarrow> apply_add fs po p c w d = (w', d', r) \<Longrightarrow> holds w'"
  by (auto simp: apply_add_def Let_def split: prod.splits sum.splits dest: retry_keeps)

lemma delete_keeps: "p \<in> allowed \<Longrightarrow> holds w \<Longrightarrow> apply_delete fs po p w d = (w', d', r) \<Longrightarrow> holds w'"
  by (auto simp: apply_delete_def Let_def split: prod.splits sum.splits dest: remove_checked_keeps)

lemma move_keeps:
  assumes "p \<in> allowed" and "dest \<in> allowed" and "holds w" and "apply_move fs po p dest ap w d = (w', d', r)"
  shows "holds w'"
proof -
  obtain w1 r1 where w1: "write_file_with_missing_parent_retry fs po dest (new_contents ap) w = (w1, r1)" by fastforce
  have "holds w1" by (rule retry_keeps [OF assms(2,3) w1])
  then show ?thesis
    using assms(1,4) w1
    by (auto simp: apply_move_def Let_def split: prod.splits sum.splits dest: remove_checked_keeps)
qed

lemma update_keeps:
  assumes "p \<in> allowed" and "\<And>m q. mv = Some m \<Longrightarrow> path_join po cwd m = Inr q \<Longrightarrow> q \<in> allowed" and "holds w"
    and "apply_update fs po cwd um p mv cs w d = (w', d', r)"
  shows "holds w'"
  using assms
  by (auto simp: apply_update_def Let_def split: prod.splits sum.splits option.splits dest: write_keeps move_keeps)

lemma hunk_keeps:
  assumes "hunk_targets po cwd h \<subseteq> allowed" and "holds w" and "apply_hunk fs po cwd um h w d = (w', d', r)"
  shows "holds w'"
proof (cases "path_join po cwd (hunk_source_path h)")
  case (Inl e)
  then show ?thesis using assms by (simp add: apply_hunk_def)
next
  case (Inr p)
  then have "p \<in> allowed" using assms(1) by (auto simp: hunk_targets_def)
  then show ?thesis
    using assms Inr by (cases h) (auto simp: apply_hunk_def hunk_targets_def dest: add_keeps delete_keeps update_keeps)
qed

lemma hunk_list_keeps:
  assumes "patch_targets po cwd hs \<subseteq> allowed" and "holds w" and "apply_hunk_list fs po cwd um hs a w d = (w', d', r)"
  shows "holds w'"
  using assms
proof (induction hs arbitrary: a w d)
  case (Cons h hs)
  obtain w1 d1 r1 where h: "apply_hunk fs po cwd um h w d = (w1, d1, r1)" by (metis prod_cases3)
  have "holds w1" using hunk_keeps [OF _ Cons.prems(2) h] Cons.prems(1) by simp
  then show ?case using Cons h by (cases r1) auto
qed simp

end

text \<open>The entry point: nothing happens before the hunks or after them that changes files.\<close>

lemma apply_patch_keeps:
  assumes "guarded_fs (fs (follow_symlinks options) sandbox) po allowed holds"
    and "parse_patch patch = Inr args" and "patch_targets po cwd (arg_hunks args) \<subseteq> allowed" and "holds w"
    and "apply_patch_with_options show_error wr patch options po cwd fs sandbox stdout stderr w = (stdout', stderr', w', r)"
  shows "holds w'"
proof -
  obtain w1 d1 r1 where run: "apply_hunks_to_files (arg_hunks args) options po cwd fs sandbox w delta_empty = (w1, d1, r1)"
    by (metis prod_cases3)
  then have "holds w1"
    using assms(3,4) guarded_fs.hunk_list_keeps [OF assms(1) assms(3) assms(4)]
    by (auto simp: apply_hunks_to_files_def split: if_splits)
  moreover have "w' = w1"
    using assms(2,5) run
    by (auto simp: apply_patch_with_options_def apply_hunks_with_options_def split: sum.splits prod.splits)
  ultimately show ?thesis by simp
qed

text \<open>The file system in memory, without symbolic links: the other files keep their text.\<close>

definition unlinked :: "mem \<Rightarrow> bool" where
  "unlinked w \<longleftrightarrow> (\<forall>p t. w p \<noteq> Some (Symlink t))"

lemma unlinked_target: "unlinked w \<Longrightarrow> mem_target w p = p"
  by (auto simp: unlinked_def mem_target_def split: option.splits node.splits)

lemma mem_write_unlinked:
  assumes "unlinked w" and "mem_write p s w = (w', r)"
  shows "unlinked w' \<and> (\<forall>q. q \<noteq> p \<longrightarrow> mem_view w' q = mem_view w q)"
proof -
  have "w' = w \<or> w' = w(p \<mapsto> File s)"
    using assms(2) unlinked_target [OF assms(1)]
    by (auto simp: mem_write_def Let_def split: if_splits option.splits node.splits)
  then show ?thesis using assms(1) by (auto simp: unlinked_def mem_view_upd split: if_splits)
qed

lemma mem_remove_unlinked:
  assumes "unlinked w" and "mem_remove p w = (w', r)"
  shows "unlinked w' \<and> (\<forall>q. q \<noteq> p \<longrightarrow> mem_view w' q = mem_view w q)"
proof -
  have "w' = w \<or> w' = w(p := None)"
    using assms(2) by (auto simp: mem_remove_def split: option.splits node.splits)
  then show ?thesis using assms(1) by (auto simp: unlinked_def mem_view_upd split: if_splits)
qed

lemma mem_create_unlinked:
  assumes "unlinked w" and "mem_create_directory d w = (w', r)"
  shows "unlinked w' \<and> mem_view w' = mem_view w"
proof -
  have "w' = w \<or> w d = None \<and> w' = w(d \<mapsto> Dir)"
    using assms(2) by (auto simp: mem_create_directory_def split: option.splits node.splits)
  then show ?thesis using assms(1) by (auto simp: unlinked_def mem_view_def split: if_splits)
qed

interpretation mem_guard: guarded_fs mem_fs mem_paths allowed "\<lambda>w. unlinked w \<and> (\<forall>q. q \<notin> allowed \<longrightarrow> mem_view w q = view q)"
  for allowed view
proof
  fix p w s w' r d
  let ?holds = "\<lambda>w. unlinked w \<and> (\<forall>q. q \<notin> allowed \<longrightarrow> mem_view w q = view q)"
  assume p: "p \<in> allowed" and w: "?holds w"
  show "?holds w'" if "fs_write mem_fs p s w = (w', r)"
    using mem_write_unlinked [of w p s w' r] that p w by (simp add: mem_fs_def) metis
  show "?holds w'" if "fs_remove mem_fs p w = (w', r)"
    using mem_remove_unlinked [of w p w' r] that p w by (simp add: mem_fs_def) metis
  show "?holds w'" if "fs_create_directory mem_fs d w = (w', r)"
    using mem_create_unlinked [of w d w' r] that w by (simp add: mem_fs_def)
qed

section \<open>The verified changes name the targets\<close>

definition change_targets :: "('p \<times> 'p patch_file_change) list \<Rightarrow> 'p set" where
  "change_targets cs = fst ` set cs \<union> {q. \<exists>p d n. (p, PatchUpdate d (Some q) n) \<in> set cs}"

lemma verify_hunk_targets:
  assumes "verify_hunk_change diff fs po w cwd um p h = Inr c" and "path_join po cwd (hunk_source_path h) = Inr p"
  shows "hunk_targets po cwd h = change_targets [(p, c)]"
  using assms
  by (cases h) (auto simp: verify_hunk_change_def hunk_targets_def change_targets_def split: option.splits)

lemma change_targets_append: "change_targets (a @ b) = change_targets a \<union> change_targets b"
  by (auto simp: change_targets_def)

lemma verify_hunks_targets:
  assumes "verify_hunks diff fs po w cwd um hs acc = Inr cs"
  shows "change_targets cs = change_targets acc \<union> patch_targets po cwd hs"
  using assms
proof (induction hs arbitrary: acc)
  case (Cons h hs)
  obtain p where p: "path_join po cwd (hunk_source_path h) = Inr p"
    using Cons.prems by (cases "path_join po cwd (hunk_source_path h)") auto
  obtain c where c: "verify_hunk_change diff fs po w cwd um p h = Inr c" "verify_hunks diff fs po w cwd um hs (acc @ [(p, c)]) = Inr cs"
    using Cons.prems p by (auto split: if_splits)
  show ?case
    using Cons.IH [OF c(2)] verify_hunk_targets [OF c(1) p] by (simp add: change_targets_append Un_assoc)
qed simp

lemma verified_targets:
  assumes "try_verify_apply_patch_args diff fs po w args cwd um = Inr action"
  shows "change_targets (action_changes action) = patch_targets po (action_cwd action) (arg_hunks args)
    \<and> action_patch action = arg_patch args"
proof -
  obtain ecwd cs where "verify_hunks diff fs po w ecwd um (arg_hunks args) [] = Inr cs"
    "action = \<lparr>action_changes = cs, action_update_file_mode = um, action_patch = arg_patch args, action_cwd = ecwd\<rparr>"
    using assms by (auto simp: try_verify_apply_patch_args_def)
  then show ?thesis using verify_hunks_targets [of diff fs po w ecwd um "arg_hunks args" "[]" cs] by (simp add: change_targets_def)
qed

end
