(* ===== verification/Absolute_Path.thy ===== *)
theory Absolute_Path
  imports Rust_Prelude
begin

text \<open>
  Paths of the Unix build (\<open>codex-rs/utils/absolute-path\<close>): the components that
  \<open>std::path::Path\<close> yields, lexical normalisation and the constructors of \<open>AbsolutePathBuf\<close>.

  A \<open>Path\<close> is its list of components, which is also how \<open>std\<close> compares paths for equality.
  The home directory and the current directory come from the environment of the process: they
  are arguments.  The \<open>cfg(windows)\<close> branches are not part of the Unix build.
\<close>

section \<open>Components\<close>

datatype component = RootDir | CurDir | ParentDir | Normal str

type_synonym path = "component list"

definition component_of_field :: "str \<Rightarrow> component option" where
  "component_of_field f =
     (if f = [] \<or> f = ''.'' then None
      else if f = ''..'' then Some ParentDir
      else Some (Normal f))"

text \<open>
  \<open>Path::components\<close>: repeated separators and inner \<open>.\<close> fields are dropped; a leading \<open>.\<close> of a
  relative path is kept as \<open>CurDir\<close>.
\<close>

definition path_components :: "str \<Rightarrow> path" where
  "path_components s =
     (let fields = split_on (CHR ''/'') s;
          body = List.map_filter component_of_field fields
      in if starts_with s ''/'' then RootDir # body
         else if hd fields = ''.'' then CurDir # body
         else body)"

definition is_absolute :: "path \<Rightarrow> bool" where
  "is_absolute p \<longleftrightarrow> (case p of RootDir # _ \<Rightarrow> True | _ \<Rightarrow> False)"

definition path_file_name :: "path \<Rightarrow> str option" where
  "path_file_name p = (if p = [] then None else case last p of Normal n \<Rightarrow> Some n | _ \<Rightarrow> None)"

text \<open>\<open>PathBuf::push\<close> of one component and \<open>PathBuf::pop\<close>, which never removes the root.\<close>

fun push_component :: "path \<Rightarrow> component \<Rightarrow> path" where
  "push_component p RootDir = [RootDir]"
| "push_component p c = p @ [c]"

definition pop_component :: "path \<Rightarrow> path" where
  "pop_component p = (if p = [] \<or> last p = RootDir then p else butlast p)"

definition path_join :: "path \<Rightarrow> path \<Rightarrow> path" where
  "path_join base p =
     (if is_absolute p then p
      else if base = [] then p
      else base @ filter (\<lambda>c. c \<noteq> CurDir) p)"

text \<open>\<open>Path::parent\<close>.\<close>

definition parent_of_path :: "path \<Rightarrow> path option" where
  "parent_of_path p = (if p = [] \<or> last p = RootDir then None else Some (butlast p))"

text \<open>\<open>Path::ancestors\<close>: the path, its parent, the parent of that, and so on.\<close>

function ancestors :: "path \<Rightarrow> path list" where
  "ancestors p = p # (case parent_of_path p of None \<Rightarrow> [] | Some q \<Rightarrow> ancestors q)"
  by auto
termination
  by (relation "measure length") (auto simp: parent_of_path_def split: if_splits)

declare ancestors.simps [simp del]

text \<open>\<open>Component::as_os_str\<close>, and the text of a path.\<close>

fun component_str :: "component \<Rightarrow> str" where
  "component_str RootDir = ''/''"
| "component_str CurDir = ''.''"
| "component_str ParentDir = ''..''"
| "component_str (Normal n) = n"

definition path_string :: "path \<Rightarrow> str" where
  "path_string p =
     (case p of
        RootDir # cs \<Rightarrow> ''/'' @ join_with ''/'' (map component_str cs)
      | cs \<Rightarrow> join_with ''/'' (map component_str cs))"

section \<open>Normalisation\<close>

fun normalize_step :: "path \<Rightarrow> component \<Rightarrow> path" where
  "normalize_step normalized CurDir = normalized"
| "normalize_step normalized ParentDir = pop_component normalized"
| "normalize_step normalized c = push_component normalized c"

definition normalize_path :: "path \<Rightarrow> path" where
  "normalize_path p =
     (let normalized = foldl normalize_step [] p
      in if normalized = [] then [CurDir] else normalized)"

definition path_with_base :: "path \<Rightarrow> path \<Rightarrow> path" where
  "path_with_base p base = (if is_absolute p then p else path_join base p)"

definition absolutize_from :: "path \<Rightarrow> path \<Rightarrow> path" where
  "absolutize_from p base = normalize_path (path_with_base p base)"

definition absolutize :: "'e + path \<Rightarrow> path \<Rightarrow> 'e + path" where
  "absolutize current_dir p =
     (if is_absolute p then Inr (normalize_path p)
      else and_then current_dir (\<lambda>cwd. Inr (absolutize_from p cwd)))"

section \<open>AbsolutePathBuf\<close>

text \<open>\<open>home\<close> is the thread's override or else \<open>dirs::home_dir()\<close>.\<close>

definition maybe_expand_home_directory :: "path option \<Rightarrow> str \<Rightarrow> path" where
  "maybe_expand_home_directory home s =
     (case strip_prefix ''~'' s of
        None \<Rightarrow> path_components s
      | Some rest \<Rightarrow>
          (case home of
             None \<Rightarrow> path_components s
           | Some h \<Rightarrow>
               if rest = [] then h
               else (case strip_prefix ''/'' rest of
                       None \<Rightarrow> path_components s
                     | Some r \<Rightarrow> path_join h (path_components (dropWhile (\<lambda>c. c = CHR ''/'') r)))))"

text \<open>The same expansion on the components of a path: a leading \<open>~\<close> is the home directory.\<close>

definition expand_home :: "path option \<Rightarrow> path \<Rightarrow> path" where
  "expand_home home p =
     (case p of
        Normal n # rest \<Rightarrow>
          if n = ''~'' then (case home of None \<Rightarrow> p | Some h \<Rightarrow> path_join h rest) else p
      | _ \<Rightarrow> p)"

definition resolve_path_against_base :: "path option \<Rightarrow> str \<Rightarrow> path \<Rightarrow> path" where
  "resolve_path_against_base home s base =
     absolutize_from (maybe_expand_home_directory home s) base"

definition from_absolute_path :: "path option \<Rightarrow> 'e + path \<Rightarrow> str \<Rightarrow> 'e + path" where
  "from_absolute_path home current_dir s =
     absolutize current_dir (maybe_expand_home_directory home s)"

definition from_absolute_path_checked :: "path option \<Rightarrow> str \<Rightarrow> path option" where
  "from_absolute_path_checked home s =
     (let expanded = maybe_expand_home_directory home s
      in if \<not> is_absolute expanded then None
         else Some (absolutize_from expanded [RootDir]))"

section \<open>Normalised absolute paths\<close>

definition is_normal_component :: "component \<Rightarrow> bool" where
  "is_normal_component c \<longleftrightarrow> (case c of Normal _ \<Rightarrow> True | _ \<Rightarrow> False)"

text \<open>The promise of the type: absolute, and no \<open>.\<close> or \<open>..\<close> left.\<close>

definition normalized_absolute :: "path \<Rightarrow> bool" where
  "normalized_absolute p \<longleftrightarrow> (\<exists>ns. p = RootDir # ns \<and> list_all is_normal_component ns)"

lemma is_absolute_path_components: "is_absolute (path_components s) \<longleftrightarrow> starts_with s ''/''"
proof -
  have "RootDir \<notin> set (List.map_filter component_of_field fs)" for fs
    by (auto simp: set_map_filter component_of_field_def split: if_splits)
  then show ?thesis
    by (auto simp: path_components_def is_absolute_def Let_def
        split: list.splits component.splits) (metis list.set_intros(1))+
qed

lemma fields_not_CurDir: "CurDir \<notin> set (List.map_filter component_of_field fs)"
  by (auto simp: set_map_filter component_of_field_def split: if_splits)

lemma fields_dropWhile_slash:
  "List.map_filter component_of_field (split_on (CHR ''/'') (dropWhile (\<lambda>c. c = CHR ''/'') r))
   = List.map_filter component_of_field (split_on (CHR ''/'') r)"
  by (induction r) (simp_all add: List.map_filter_simps component_of_field_def)

lemma dropWhile_not_absolute:
  "\<not> is_absolute (path_components (dropWhile (\<lambda>c. c = CHR ''/'') r))"
proof
  assume "is_absolute (path_components (dropWhile (\<lambda>c. c = CHR ''/'') r))"
  then obtain t where t: "dropWhile (\<lambda>c. c = CHR ''/'') r = CHR ''/'' # t"
    by (auto simp: is_absolute_path_components starts_with_iff)
  show False using hd_dropWhile [of "\<lambda>c. c = CHR ''/''" r] by (simp add: t)
qed

lemma map_filter_not_absolute: "\<not> is_absolute (List.map_filter component_of_field fs)"
proof
  assume "is_absolute (List.map_filter component_of_field fs)"
  then have "RootDir \<in> set (List.map_filter component_of_field fs)"
    by (cases "List.map_filter component_of_field fs") (auto simp: is_absolute_def split: component.splits)
  then show False by (auto simp: set_map_filter component_of_field_def split: if_splits)
qed

lemma path_join_dropWhile:
  assumes "h \<noteq> []"
  shows "path_join h (path_components (dropWhile (\<lambda>c. c = CHR ''/'') r))
    = path_join h (List.map_filter component_of_field (split_on (CHR ''/'') r))"
proof -
  let ?d = "dropWhile (\<lambda>c. c = CHR ''/'') r" and ?fs = "List.map_filter component_of_field (split_on (CHR ''/'') r)"
  have "\<not> starts_with ?d ''/''" using dropWhile_not_absolute [of r] by (simp add: is_absolute_path_components)
  then have "path_components ?d = ?fs \<or> path_components ?d = CurDir # ?fs"
    by (simp add: path_components_def fields_dropWhile_slash Let_def)
  then have "filter (\<lambda>c. c \<noteq> CurDir) (path_components ?d) = filter (\<lambda>c. c \<noteq> CurDir) ?fs" by auto
  then show ?thesis using assms dropWhile_not_absolute [of r] map_filter_not_absolute
    by (simp add: path_join_def)
qed

text \<open>The expansion of a text and the expansion of its components agree.\<close>

lemma path_components_head:
  assumes "c \<noteq> CHR ''/''" and "split_on (CHR ''/'') r = f # fs"
  shows "path_components (c # r) =
     (if c # f = ''.'' then CurDir # List.map_filter component_of_field fs
      else if c # f = ''..'' then ParentDir # List.map_filter component_of_field fs
      else Normal (c # f) # List.map_filter component_of_field fs)"
  using assms by (auto simp: path_components_def starts_with_iff component_of_field_def List.map_filter_simps)

lemma maybe_expand_home_components:
  assumes "home \<noteq> Some []"
  shows "maybe_expand_home_directory home s = expand_home home (path_components s)"
proof (cases s)
  case Nil
  then show ?thesis
    by (simp add: maybe_expand_home_directory_def expand_home_def strip_prefix_def path_components_def
        starts_with_iff component_of_field_def List.map_filter_simps)
next
  case (Cons c rest)
  obtain f fs where f: "split_on (CHR ''/'') rest = f # fs" by (cases "split_on (CHR ''/'') rest") auto
  show ?thesis
  proof (cases "c = CHR ''~''")
    case False
    then have "strip_prefix ''~'' s = None" by (simp add: Cons strip_prefix_def)
    moreover have "expand_home home (path_components s) = path_components s"
      using False f path_components_head [of c rest f fs]
      by (cases "c = CHR ''/''") (auto simp: Cons expand_home_def path_components_def starts_with_iff)
    ultimately show ?thesis by (simp add: maybe_expand_home_directory_def)
  next
    case True
    then have strip: "strip_prefix ''~'' s = Some rest" by (simp add: Cons strip_prefix_def)
    have comps: "path_components s = Normal (CHR ''~'' # f) # List.map_filter component_of_field fs"
      using path_components_head [OF _ f, of c] by (simp add: Cons True)
    show ?thesis
    proof (cases home)
      case None
      with strip comps show ?thesis by (simp add: maybe_expand_home_directory_def expand_home_def)
    next
      case (Some h)
      then have h: "h \<noteq> []" using assms by simp
      show ?thesis
      proof (cases rest)
        case Nil
        with f strip comps Some h show ?thesis
          by (auto simp: maybe_expand_home_directory_def expand_home_def path_join_def is_absolute_def
              List.map_filter_simps)
      next
        case (Cons d r)
        show ?thesis
        proof (cases "d = CHR ''/''")
          case True
          then have "f = []" "fs = split_on (CHR ''/'') r" using f Cons by auto
          then have e: "expand_home home (path_components s) =
              path_join h (List.map_filter component_of_field (split_on (CHR ''/'') r))"
            using comps Some by (simp add: expand_home_def)
          have m: "maybe_expand_home_directory home s
              = path_join h (path_components (dropWhile (\<lambda>c. c = CHR ''/'') r))"
            using strip Some True Cons by (simp add: maybe_expand_home_directory_def strip_prefix_def)
          show ?thesis unfolding e m by (rule path_join_dropWhile [OF h])
        next
          case False
          then have "f \<noteq> []" using f Cons by (auto split: list.splits)
          with False Cons strip comps Some show ?thesis
            by (simp add: maybe_expand_home_directory_def expand_home_def strip_prefix_def)
        qed
      qed
    qed
  qed
qed

lemma normalized_absolute_code [code]:
  "normalized_absolute p \<longleftrightarrow> (case p of RootDir # ns \<Rightarrow> list_all is_normal_component ns | _ \<Rightarrow> False)"
  by (auto simp: normalized_absolute_def split: list.splits component.splits)

lemma normalized_absolute_Cons:
  "normalized_absolute (RootDir # ns) \<longleftrightarrow> list_all is_normal_component ns"
  by (simp add: normalized_absolute_def)

lemma normalized_absolute_step:
  "normalized_absolute p \<Longrightarrow> normalized_absolute (normalize_step p c)"
proof -
  assume "normalized_absolute p"
  then obtain ns where p: "p = RootDir # ns" and ns: "list_all is_normal_component ns"
    by (auto simp: normalized_absolute_def)
  show ?thesis
  proof (cases c)
    case ParentDir
    show ?thesis
    proof (cases ns rule: rev_cases)
      case Nil
      with p ParentDir show ?thesis by (simp add: pop_component_def normalized_absolute_Cons)
    next
      case (snoc ms m)
      then have "m \<noteq> RootDir" using ns by (auto simp: is_normal_component_def)
      with p snoc ns ParentDir show ?thesis
        by (simp add: pop_component_def normalized_absolute_Cons butlast_append)
    qed
  qed (use p ns in \<open>auto simp: normalized_absolute_Cons is_normal_component_def\<close>)
qed

lemma normalized_absolute_foldl:
  "normalized_absolute p \<Longrightarrow> normalized_absolute (foldl normalize_step p cs)"
  by (induction cs arbitrary: p) (auto intro: normalized_absolute_step)

lemma normalize_path_absolute:
  assumes "is_absolute p"
  shows "normalized_absolute (normalize_path p)"
proof -
  obtain cs where p: "p = RootDir # cs"
    using assms by (auto simp: is_absolute_def split: list.splits component.splits)
  have "normalized_absolute (foldl normalize_step [RootDir] cs)"
    by (rule normalized_absolute_foldl) (simp add: normalized_absolute_Cons)
  then show ?thesis
    by (auto simp: normalize_path_def p Let_def normalized_absolute_def)
qed

lemma foldl_normalize_normal:
  "list_all is_normal_component ns \<Longrightarrow> foldl normalize_step p ns = p @ ns"
proof (induction ns arbitrary: p)
  case Nil
  then show ?case by simp
next
  case (Cons n ns)
  then obtain x where "n = Normal x" by (cases n) (auto simp: is_normal_component_def)
  with Cons show ?case by simp
qed

lemma normalize_path_id:
  "normalized_absolute p \<Longrightarrow> normalize_path p = p"
  by (auto simp: normalized_absolute_def normalize_path_def foldl_normalize_normal)

lemma path_join_absolute: "is_absolute base \<Longrightarrow> is_absolute (path_join base p)"
  by (cases base) (auto simp: path_join_def is_absolute_def split: component.splits)

lemma absolutize_from_normalized:
  "is_absolute base \<Longrightarrow> normalized_absolute (absolutize_from p base)"
  by (simp add: absolutize_from_def normalize_path_absolute path_with_base_def
      path_join_absolute)

lemma resolve_path_normalized:
  "is_absolute base \<Longrightarrow> normalized_absolute (resolve_path_against_base home s base)"
  by (simp add: resolve_path_against_base_def absolutize_from_normalized)

lemma from_absolute_path_normalized:
  assumes "from_absolute_path home cwd s = Inr p" and "\<And>d. cwd = Inr d \<Longrightarrow> is_absolute d"
  shows "normalized_absolute p"
  using assms
  by (auto simp: from_absolute_path_def absolutize_def normalize_path_absolute
      absolutize_from_normalized split: if_splits)

lemma from_absolute_path_checked_normalized:
  "from_absolute_path_checked home s = Some p \<Longrightarrow> normalized_absolute p"
  by (auto simp: from_absolute_path_checked_def Let_def absolutize_from_normalized is_absolute_def
      split: if_splits)

end
