(* ===== verification/Exec_Rule.thy ===== *)
theory Exec_Rule
  imports Absolute_Path
begin

text \<open>
  The rules of the execution policy (\<open>codex-rs/execpolicy\<close>: \<open>decision.rs\<close>, \<open>error.rs\<close>,
  \<open>executable_name.rs\<close> and the data and matching part of \<open>rule.rs\<close>).  A prefix rule matches a
  command by its leading tokens and carries a decision; a network rule names a normalised host.

  \<open>PrefixRule\<close> is the only implementation of the trait \<open>Rule\<close>, so a \<open>RuleRef\<close> is a prefix rule.
\<close>

section \<open>Errors\<close>

record text_position =
  tp_line :: nat
  tp_column :: nat

record error_location =
  loc_path :: str
  loc_start :: text_position
  loc_end :: text_position

datatype exec_error =
    InvalidDecision str
  | InvalidPattern str
  | InvalidExample str
  | InvalidRule str
  | ExampleDidNotMatch "str list" "str list" "error_location option"
  | ExampleDidMatch str str "error_location option"

fun with_location :: "exec_error \<Rightarrow> error_location \<Rightarrow> exec_error" where
  "with_location (ExampleDidNotMatch rules examples None) l =
     ExampleDidNotMatch rules examples (Some l)"
| "with_location (ExampleDidMatch rule example None) l = ExampleDidMatch rule example (Some l)"
| "with_location other l = other"

section \<open>Decisions\<close>

datatype decision = Allow | Prompt | Forbidden

text \<open>The derived \<open>Ord\<close> follows the order of declaration: a greater decision is stricter.\<close>

fun decision_rank :: "decision \<Rightarrow> nat" where
  "decision_rank Allow = 0"
| "decision_rank Prompt = 1"
| "decision_rank Forbidden = 2"

lemma decision_rank_inject: "decision_rank a = decision_rank b \<longleftrightarrow> a = b"
  by (cases a; cases b) auto

instantiation decision :: linorder
begin

definition less_eq_decision :: "decision \<Rightarrow> decision \<Rightarrow> bool" where
  "less_eq_decision a b \<longleftrightarrow> decision_rank a \<le> decision_rank b"

definition less_decision :: "decision \<Rightarrow> decision \<Rightarrow> bool" where
  "less_decision a b \<longleftrightarrow> decision_rank a < decision_rank b"

instance
  by standard (auto simp: less_eq_decision_def less_decision_def decision_rank_inject)

end

lemma Forbidden_greatest [simp]: "d \<le> Forbidden"
  by (cases d) (auto simp: less_eq_decision_def)

lemma Allow_least [simp]: "Allow \<le> d"
  by (simp add: less_eq_decision_def)

lemma decision_le_simps [simp]:
  "Prompt \<le> Allow \<longleftrightarrow> False" "Forbidden \<le> Allow \<longleftrightarrow> False" "Forbidden \<le> Prompt \<longleftrightarrow> False"
  by (simp_all add: less_eq_decision_def)

definition parse_decision :: "str \<Rightarrow> exec_error + decision" where
  "parse_decision raw =
     (if raw = ''allow'' then Inr Allow
      else if raw = ''prompt'' then Inr Prompt
      else if raw = ''forbidden'' then Inr Forbidden
      else Inl (InvalidDecision raw))"

section \<open>Executable names\<close>

text \<open>Outside Windows the lookup key is the name itself.\<close>

definition executable_lookup_key :: "str \<Rightarrow> str" where
  "executable_lookup_key raw = raw"

definition executable_path_lookup_key :: "path \<Rightarrow> str option" where
  "executable_path_lookup_key p = map_option executable_lookup_key (path_file_name p)"

section \<open>Patterns\<close>

datatype pattern_token = Single str | Alts "str list"

fun token_matches :: "pattern_token \<Rightarrow> str \<Rightarrow> bool" where
  "token_matches (Single expected) token \<longleftrightarrow> expected = token"
| "token_matches (Alts alternatives) token \<longleftrightarrow> list_ex (\<lambda>alt. alt = token) alternatives"

fun alternatives :: "pattern_token \<Rightarrow> str list" where
  "alternatives (Single expected) = [expected]"
| "alternatives (Alts alts) = alts"

record prefix_pattern =
  first :: str
  rest :: "pattern_token list"

definition matches_prefix :: "prefix_pattern \<Rightarrow> str list \<Rightarrow> str list option" where
  "matches_prefix p cmd =
     (let pattern_length = length (rest p) + 1
      in if length cmd < pattern_length \<or> cmd ! 0 \<noteq> first p then None
         else if list_all (\<lambda>(pattern_token, cmd_token). token_matches pattern_token cmd_token)
                   (zip (rest p) (drop 1 (take pattern_length cmd)))
         then Some (take pattern_length cmd)
         else None)"

lemma token_matches_alternatives: "token_matches t w \<longleftrightarrow> w \<in> set (alternatives t)"
  by (cases t) (auto simp: list_ex_iff)

lemma list_all_zip_iff:
  "length xs = length ys \<Longrightarrow>
     list_all (\<lambda>(x, y). P x y) (zip xs ys) \<longleftrightarrow> list_all2 P xs ys"
  by (induction xs ys rule: list_induct2) auto

lemma matches_prefix_Some_iff:
  "matches_prefix p cmd = Some m \<longleftrightarrow>
     (\<exists>ts us. cmd = first p # ts @ us \<and> list_all2 token_matches (rest p) ts \<and> m = first p # ts)"
proof
  assume "matches_prefix p cmd = Some m"
  then have len: "length (rest p) < length cmd" and hd: "cmd ! 0 = first p"
    and all: "list_all (\<lambda>(t, w). token_matches t w)
                (zip (rest p) (drop 1 (take (Suc (length (rest p))) cmd)))"
    and m: "m = take (Suc (length (rest p))) cmd"
    by (auto simp: matches_prefix_def Let_def split: if_splits)
  from len hd obtain cs where cmd: "cmd = first p # cs" and cs: "length (rest p) \<le> length cs"
    by (cases cmd) auto
  have "list_all2 token_matches (rest p) (take (length (rest p)) cs)"
    using all cs by (simp add: cmd list_all_zip_iff)
  then show "\<exists>ts us. cmd = first p # ts @ us \<and> list_all2 token_matches (rest p) ts \<and>
      m = first p # ts"
    using cmd m by (intro exI [of _ "take (length (rest p)) cs"]
        exI [of _ "drop (length (rest p)) cs"]) auto
next
  assume "\<exists>ts us. cmd = first p # ts @ us \<and> list_all2 token_matches (rest p) ts \<and>
      m = first p # ts"
  then obtain ts us where "cmd = first p # ts @ us"
    and all: "list_all2 token_matches (rest p) ts" and "m = first p # ts"
    by blast
  then show "matches_prefix p cmd = Some m"
    using list_all2_lengthD [OF all] all
    by (simp add: matches_prefix_def Let_def list_all_zip_iff)
qed

section \<open>Rules and matches\<close>

record prefix_rule =
  pattern :: prefix_pattern
  rule_decision :: decision
  justification :: "str option"

datatype rule_match =
    PrefixRuleMatch (matched_prefix: "str list") (match_decision: decision)
      (resolved_program: "path option") (match_justification: "str option")
  | HeuristicsRuleMatch (heuristics_command: "str list") (match_decision: decision)

fun with_resolved_program :: "rule_match \<Rightarrow> path \<Rightarrow> rule_match" where
  "with_resolved_program (PrefixRuleMatch pre d _ j) program =
     PrefixRuleMatch pre d (Some program) j"
| "with_resolved_program (HeuristicsRuleMatch cmd d) program = HeuristicsRuleMatch cmd d"

definition rule_program :: "prefix_rule \<Rightarrow> str" where
  "rule_program r = first (pattern r)"

definition rule_matches :: "prefix_rule \<Rightarrow> str list \<Rightarrow> rule_match option" where
  "rule_matches r cmd =
     map_option (\<lambda>pre. PrefixRuleMatch pre (rule_decision r) None (justification r))
       (matches_prefix (pattern r) cmd)"

lemma match_decision_with_resolved_program [simp]:
  "match_decision (with_resolved_program m program) = match_decision m"
  by (cases m) auto

lemma rule_matches_Some_decision:
  "rule_matches r cmd = Some m \<Longrightarrow> match_decision m = rule_decision r"
  by (auto simp: rule_matches_def)

lemma rule_matches_Some_program:
  "rule_matches r cmd = Some m \<Longrightarrow> \<exists>ts. cmd = rule_program r # ts"
  by (auto simp: rule_matches_def rule_program_def matches_prefix_Some_iff)

section \<open>Network rules\<close>

datatype network_rule_protocol = Http | Https | Socks5Tcp | Socks5Udp

definition protocol_error :: "str \<Rightarrow> str" where
  "protocol_error other =
     ''network_rule protocol must be one of http, https, socks5_tcp, socks5_udp (got '' @ other @ '')''"

definition parse_protocol :: "str \<Rightarrow> exec_error + network_rule_protocol" where
  "parse_protocol raw =
     (if raw = ''http'' then Inr Http
      else if raw = ''https'' \<or> raw = ''https_connect'' \<or> raw = ''http-connect'' then Inr Https
      else if raw = ''socks5_tcp'' then Inr Socks5Tcp
      else if raw = ''socks5_udp'' then Inr Socks5Udp
      else Inl (InvalidRule (protocol_error raw)))"

fun as_policy_string :: "network_rule_protocol \<Rightarrow> str" where
  "as_policy_string Http = ''http''"
| "as_policy_string Https = ''https''"
| "as_policy_string Socks5Tcp = ''socks5_tcp''"
| "as_policy_string Socks5Udp = ''socks5_udp''"

record network_rule =
  nr_host :: str
  nr_protocol :: network_rule_protocol
  nr_decision :: decision
  nr_justification :: "str option"

lemma parse_protocol_as_policy_string: "parse_protocol (as_policy_string p) = Inr p"
  by (cases p) (simp_all add: parse_protocol_def)

definition trim_end_dots :: "str \<Rightarrow> str" where
  "trim_end_dots s = rev (dropWhile (\<lambda>c. c = CHR ''.'') (rev s))"

definition all_digits :: "str \<Rightarrow> bool" where
  "all_digits s \<longleftrightarrow> s \<noteq> [] \<and> list_all is_ascii_digit s"

text \<open>The host without its port: a bracketed literal, or one trailing \<open>:port\<close>.\<close>

definition strip_host_port :: "str \<Rightarrow> str \<Rightarrow> exec_error + str" where
  "strip_host_port raw host =
     (case strip_prefix ''['' host of
        Some stripped \<Rightarrow>
          (case split_once (CHR '']'') stripped of
             None \<Rightarrow> Inl (InvalidRule ''network_rule host has an invalid bracketed IPv6 literal'')
           | Some (inside, after) \<Rightarrow>
               let port_ok = (case strip_prefix '':'' after of
                                None \<Rightarrow> False | Some port \<Rightarrow> all_digits port)
               in if after \<noteq> [] \<and> \<not> port_ok
                  then Inl (InvalidRule (''network_rule host contains an unsupported suffix: '' @ raw))
                  else Inr inside)
      | None \<Rightarrow>
          if count_list host (CHR '':'') = 1 then
            (case rsplit_once (CHR '':'') host of
               Some (candidate, port) \<Rightarrow>
                 if candidate \<noteq> [] \<and> all_digits port then Inr candidate else Inr host
             | None \<Rightarrow> Inr host)
          else Inr host)"

definition normalize_network_rule_host :: "str \<Rightarrow> exec_error + str" where
  "normalize_network_rule_host raw =
     (let host = trim raw
      in if host = [] then Inl (InvalidRule ''network_rule host cannot be empty'')
         else if contains_str host ''://'' \<or> CHR ''/'' \<in> set host \<or> CHR ''?'' \<in> set host
           \<or> CHR ''#'' \<in> set host
         then Inl (InvalidRule
                ''network_rule host must be a hostname or IP literal (without scheme or path)'')
         else and_then (strip_host_port raw host) (\<lambda>host.
           let normalized = to_ascii_lowercase (trim (trim_end_dots host))
           in if normalized = [] then Inl (InvalidRule ''network_rule host cannot be empty'')
              else if CHR ''*'' \<in> set normalized then Inl (InvalidRule
                ''network_rule host must be a specific host; wildcards are not allowed'')
              else if has_whitespace normalized
              then Inl (InvalidRule ''network_rule host cannot contain whitespace'')
              else Inr normalized))"

text \<open>What every stored host satisfies.\<close>

definition wf_network_host :: "str \<Rightarrow> bool" where
  "wf_network_host h \<longleftrightarrow>
     h \<noteq> [] \<and> \<not> has_whitespace h \<and> to_ascii_lowercase h = h
   \<and> CHR ''*'' \<notin> set h \<and> CHR ''/'' \<notin> set h \<and> CHR ''?'' \<notin> set h \<and> CHR ''#'' \<notin> set h"

lemma trim_end_dots_subset: "set (trim_end_dots s) \<subseteq> set s"
  by (auto simp: trim_end_dots_def dest: set_dropWhileD)

lemma trim_subset: "set (trim s) \<subseteq> set s"
  using trim_sublist [of s] by (rule set_mono_sublist)

lemma strip_host_port_subset: "strip_host_port raw h = Inr h' \<Longrightarrow> set h' \<subseteq> set h"
  by (auto simp: strip_host_port_def Let_def strip_prefix_Some_iff split_once_Some_iff
      rsplit_once_Some_iff split: option.splits if_splits)

lemma not_in_lowercase:
  assumes "c \<notin> set s" and "\<not> is_ascii_upper c" and "\<not> is_ascii_lower c"
  shows "c \<notin> set (to_ascii_lowercase s)"
proof
  assume "c \<in> set (to_ascii_lowercase s)"
  then obtain x where "x \<in> set s" and "ascii_lower x = c"
    by (auto simp: to_ascii_lowercase_def)
  then show False using assms ascii_lower_eq_iff [OF assms(2,3), of x] by simp
qed

lemma punctuation_not_letter [simp]:
  "\<not> is_ascii_upper (CHR ''/'')" "\<not> is_ascii_lower (CHR ''/'')"
  "\<not> is_ascii_upper (CHR ''?'')" "\<not> is_ascii_lower (CHR ''?'')"
  "\<not> is_ascii_upper (CHR ''#'')" "\<not> is_ascii_lower (CHR ''#'')"
  by (simp_all add: is_ascii_upper_def is_ascii_lower_def byte_val_def)

lemma normalize_network_rule_host_wf:
  assumes "normalize_network_rule_host raw = Inr h"
  shows "wf_network_host h"
proof -
  from assms obtain h1 where clean: "CHR ''/'' \<notin> set (trim raw)" "CHR ''?'' \<notin> set (trim raw)"
      "CHR ''#'' \<notin> set (trim raw)"
    and strip: "strip_host_port raw (trim raw) = Inr h1"
    and h: "h = to_ascii_lowercase (trim (trim_end_dots h1))"
    and rest: "h \<noteq> []" "CHR ''*'' \<notin> set h" "\<not> has_whitespace h"
    by (auto simp: normalize_network_rule_host_def Let_def split: if_splits)
  have sub: "set (trim (trim_end_dots h1)) \<subseteq> set (trim raw)"
    using trim_subset trim_end_dots_subset strip_host_port_subset [OF strip] by blast
  have "c \<notin> set h" if "c \<in> {CHR ''/'', CHR ''?'', CHR ''#''}" for c
    unfolding h by (rule not_in_lowercase) (use that clean sub in auto)
  then show ?thesis using rest h by (simp add: wf_network_host_def)
qed

end
