(* ===== verification/Exec_Policy.thy ===== *)
theory Exec_Policy
  imports Exec_Rule "HOL-Library.List_Lexorder" "HOL-Library.Char_ord" "HOL-Library.Multiset"
begin

text \<open>
  The execution policy (\<open>codex-rs/execpolicy/src/policy.rs\<close> and the example validation of
  \<open>rule.rs\<close>): the rules keyed by program, the network rules and the host executables, the
  operations that add to them, and the evaluation of a command.

  \<open>MultiMap\<close> is the type of the package \<open>multimap\<close>; its operations are the argument \<open>M\<close> of the
  definitions below and the locale \<open>multimap\<close> states the documented laws of the package.  The
  rendering of an example by \<open>shlex::try_join\<close> and the derived \<open>Debug\<close> text of a rule are
  arguments as well.  A panic is the result \<open>None\<close>.
\<close>

section \<open>The multimap interface\<close>

record 'm multimap_ops =
  mm_new :: 'm
  mm_insert :: "'m \<Rightarrow> str \<Rightarrow> prefix_rule \<Rightarrow> 'm"
  mm_get_vec :: "'m \<Rightarrow> str \<Rightarrow> prefix_rule list option"
  mm_iter_all :: "'m \<Rightarrow> (str \<times> prefix_rule list) list"

definition mm_get :: "('m, 'z) multimap_ops_scheme \<Rightarrow> 'm \<Rightarrow> str \<Rightarrow> prefix_rule list" where
  "mm_get M m k = (case mm_get_vec M m k of None \<Rightarrow> [] | Some vs \<Rightarrow> vs)"

definition mm_insert_all ::
    "('m, 'z) multimap_ops_scheme \<Rightarrow> 'm \<Rightarrow> str \<times> prefix_rule list \<Rightarrow> 'm" where
  "mm_insert_all M m e = foldl (\<lambda>m r. mm_insert M m (fst e) r) m (snd e)"

locale multimap =
  fixes M :: "('m, 'z) multimap_ops_scheme"
  assumes get_new: "mm_get_vec M (mm_new M) k = None"
    and get_insert: "mm_get_vec M (mm_insert M m k v) k' =
          (if k' = k then Some (mm_get M m k @ [v]) else mm_get_vec M m k')"
    and iter_all: "(k, vs) \<in> set (mm_iter_all M m) \<longleftrightarrow> mm_get_vec M m k = Some vs"
    and iter_keys_distinct: "distinct (map fst (mm_iter_all M m))"
begin

lemma mm_get_insert: "mm_get M (mm_insert M m k v) k' =
    (if k' = k then mm_get M m k @ [v] else mm_get M m k')"
  by (simp add: mm_get_def get_insert)

lemma mm_get_new: "mm_get M (mm_new M) k = []"
  by (simp add: mm_get_def get_new)

lemma mm_get_insert_all:
  "mm_get M (mm_insert_all M m (k, vs)) k' =
     (if k' = k then mm_get M m k @ vs else mm_get M m k')"
proof (induction vs arbitrary: m)
  case Nil
  then show ?case by (simp add: mm_insert_all_def)
next
  case (Cons v vs)
  then show ?case by (simp add: mm_insert_all_def mm_get_insert)
qed

lemma mm_get_foldl_insert_all:
  "distinct (map fst es) \<Longrightarrow>
     mm_get M (foldl (mm_insert_all M) m es) k =
       mm_get M m k @ (case map_of es k of None \<Rightarrow> [] | Some vs \<Rightarrow> vs)"
proof (induction es arbitrary: m)
  case Nil
  then show ?case by simp
next
  case (Cons e es)
  obtain k' vs where e: "e = (k', vs)" by (cases e)
  then have "map_of es k' = None" using Cons.prems by (simp add: map_of_eq_None_iff)
  then show ?case using Cons by (auto simp: e mm_get_insert_all)
qed

lemma map_of_iter_all: "map_of (mm_iter_all M m) k = mm_get_vec M m k"
proof (cases "mm_get_vec M m k")
  case None
  then have "k \<notin> fst ` set (mm_iter_all M m)" by (auto simp: iter_all)
  then show ?thesis using None by (simp add: map_of_eq_None_iff)
next
  case (Some vs)
  then show ?thesis using iter_all iter_keys_distinct by (simp add: map_of_is_SomeI)
qed

lemma mm_get_merge:
  "mm_get M (foldl (mm_insert_all M) m (mm_iter_all M n)) k = mm_get M m k @ mm_get M n k"
  by (simp add: mm_get_foldl_insert_all [OF iter_keys_distinct] map_of_iter_all)
     (simp add: mm_get_def)

end

text \<open>
  An implementation on association lists.  The entry of a key is replaced when a rule is added,
  and the iteration visits each key once.
\<close>

definition alist_insert ::
    "(str \<times> prefix_rule list) list \<Rightarrow> str \<Rightarrow> prefix_rule \<Rightarrow> (str \<times> prefix_rule list) list" where
  "alist_insert m k v =
     (k, (case map_of m k of None \<Rightarrow> [v] | Some vs \<Rightarrow> vs @ [v])) # filter (\<lambda>e. fst e \<noteq> k) m"

definition alist_iter_all ::
    "(str \<times> prefix_rule list) list \<Rightarrow> (str \<times> prefix_rule list) list" where
  "alist_iter_all m = map (\<lambda>k. (k, case map_of m k of None \<Rightarrow> [] | Some vs \<Rightarrow> vs))
     (remdups (map fst m))"

definition alist_multimap :: "(str \<times> prefix_rule list) list multimap_ops" where
  "alist_multimap =
     \<lparr>mm_new = [], mm_insert = alist_insert, mm_get_vec = map_of, mm_iter_all = alist_iter_all\<rparr>"

lemma map_of_filter_key: "map_of (filter (\<lambda>e. fst e \<noteq> k) m) k' = (if k' = k then None else map_of m k')"
  by (induction m) auto

interpretation alist_mm: multimap alist_multimap
proof
  fix m k and v :: prefix_rule and k'
  show "mm_get_vec alist_multimap (mm_new alist_multimap) k = None"
    by (simp add: alist_multimap_def)
  show "mm_get_vec alist_multimap (mm_insert alist_multimap m k v) k' =
      (if k' = k then Some (mm_get alist_multimap m k @ [v]) else mm_get_vec alist_multimap m k')"
    by (simp add: alist_multimap_def alist_insert_def mm_get_def map_of_filter_key
        split: option.splits)
next
  fix k vs m
  show "((k, vs) \<in> set (mm_iter_all alist_multimap m)) = (mm_get_vec alist_multimap m k = Some vs)"
  proof (cases "map_of m k")
    case None
    then have "k \<notin> fst ` set m" by (simp add: map_of_eq_None_iff)
    then have "(k, vs) \<notin> set (alist_iter_all m)" by (auto simp: alist_iter_all_def)
    then show ?thesis using None by (simp add: alist_multimap_def)
  next
    case (Some ws)
    then have "k \<in> fst ` set m" by (metis domI dom_map_of_conv_image_fst)
    then show ?thesis using Some
      by (auto simp: alist_multimap_def alist_iter_all_def image_iff)
  qed
next
  fix m
  show "distinct (map fst (mm_iter_all alist_multimap m))"
    by (simp add: alist_multimap_def alist_iter_all_def comp_def)
qed

section \<open>The policy and its updates\<close>

record 'm policy =
  rules_by_program :: 'm
  network_rules :: "network_rule list"
  host_executables_by_name :: "str \<rightharpoonup> path list"

definition policy_from_parts ::
    "'m \<Rightarrow> network_rule list \<Rightarrow> (str \<rightharpoonup> path list) \<Rightarrow> 'm policy" where
  "policy_from_parts rules net hosts =
     \<lparr>rules_by_program = rules, network_rules = net, host_executables_by_name = hosts\<rparr>"

definition policy_new :: "'m \<Rightarrow> 'm policy" where
  "policy_new rules = policy_from_parts rules [] Map.empty"

definition policy_empty :: "('m, 'z) multimap_ops_scheme \<Rightarrow> 'm policy" where
  "policy_empty M = policy_new (mm_new M)"

definition add_prefix_rule ::
    "('m, 'z) multimap_ops_scheme \<Rightarrow> 'm policy \<Rightarrow> str list \<Rightarrow> decision \<Rightarrow> exec_error + 'm policy" where
  "add_prefix_rule M p pre d =
     (case pre of
        [] \<Rightarrow> Inl (InvalidPattern ''prefix cannot be empty'')
      | first_token # others \<Rightarrow>
          let rule = \<lparr>pattern = \<lparr>first = first_token, rest = map Single others\<rparr>,
                      rule_decision = d, justification = None\<rparr>
          in Inr (p\<lparr>rules_by_program := mm_insert M (rules_by_program p) first_token rule\<rparr>))"

definition check_justification :: "str option \<Rightarrow> exec_error + str option" where
  "check_justification j =
     (case j of
        None \<Rightarrow> Inr None
      | Some raw \<Rightarrow>
          if trim raw = [] then Inl (InvalidRule ''justification cannot be empty'') else Inr j)"

definition add_network_rule ::
    "'m policy \<Rightarrow> str \<Rightarrow> network_rule_protocol \<Rightarrow> decision \<Rightarrow> str option \<Rightarrow>
       exec_error + 'm policy" where
  "add_network_rule p host protocol d j =
     and_then (normalize_network_rule_host host) (\<lambda>host.
       and_then (check_justification j) (\<lambda>j.
         Inr (p\<lparr>network_rules := network_rules p @
           [\<lparr>nr_host = host, nr_protocol = protocol, nr_decision = d, nr_justification = j\<rparr>]\<rparr>)))"

definition set_host_executable_paths :: "'m policy \<Rightarrow> str \<Rightarrow> path list \<Rightarrow> 'm policy" where
  "set_host_executable_paths p name paths =
     p\<lparr>host_executables_by_name := (host_executables_by_name p)(name \<mapsto> paths)\<rparr>"

definition merge_overlay ::
    "('m, 'z) multimap_ops_scheme \<Rightarrow> 'm policy \<Rightarrow> 'm policy \<Rightarrow> 'm policy" where
  "merge_overlay M p overlay =
     policy_from_parts
       (foldl (mm_insert_all M) (rules_by_program p) (mm_iter_all M (rules_by_program overlay)))
       (network_rules p @ network_rules overlay)
       (host_executables_by_name p ++ host_executables_by_name overlay)"

section \<open>Listing\<close>

fun render_pattern_token :: "pattern_token \<Rightarrow> str" where
  "render_pattern_token (Single value) = value"
| "render_pattern_token (Alts alts) = ''['' @ join_with ''|'' alts @ '']''"

definition get_allowed_prefixes :: "('m, 'z) multimap_ops_scheme \<Rightarrow> 'm policy \<Rightarrow> str list list" where
  "get_allowed_prefixes M p =
     remdups_adj (sort
       [first (pattern r) # map render_pattern_token (rest (pattern r)).
          e \<leftarrow> mm_iter_all M (rules_by_program p), r \<leftarrow> snd e, rule_decision r = Allow])"

definition fingerprint ::
    "('m, 'z) multimap_ops_scheme \<Rightarrow> (prefix_rule \<Rightarrow> str) \<Rightarrow> 'm policy \<Rightarrow> str list" where
  "fingerprint M debug p =
     sort [fst e @ '':'' @ debug r. e \<leftarrow> mm_iter_all M (rules_by_program p), r \<leftarrow> snd e]"

section \<open>Network domains\<close>

definition retain_other :: "str \<Rightarrow> str list \<Rightarrow> str list" where
  "retain_other host entries = filter (\<lambda>entry. entry \<noteq> host) entries"

definition upsert_domain :: "str list \<Rightarrow> str \<Rightarrow> str list" where
  "upsert_domain entries host = retain_other host entries @ [host]"

fun compile_domain :: "str list \<times> str list \<Rightarrow> network_rule \<Rightarrow> str list \<times> str list" where
  "compile_domain (allowed, denied) r =
     (case nr_decision r of
        Allow \<Rightarrow> (upsert_domain allowed (nr_host r), retain_other (nr_host r) denied)
      | Forbidden \<Rightarrow> (retain_other (nr_host r) allowed, upsert_domain denied (nr_host r))
      | Prompt \<Rightarrow> (allowed, denied))"

definition compiled_network_domains :: "'m policy \<Rightarrow> str list \<times> str list" where
  "compiled_network_domains p = foldl compile_domain ([], []) (network_rules p)"

section \<open>Evaluation\<close>

record process_env =
  env_home :: "path option"
  env_cwd :: "str + path"

record match_options =
  resolve_host_executables :: bool

definition default_match_options :: match_options where
  "default_match_options = \<lparr>resolve_host_executables = False\<rparr>"

definition match_exact_rules ::
    "('m, 'z) multimap_ops_scheme \<Rightarrow> 'm policy \<Rightarrow> str list \<Rightarrow> rule_match list option" where
  "match_exact_rules M p cmd =
     (case cmd of
        [] \<Rightarrow> None
      | program # _ \<Rightarrow>
          Some (case mm_get_vec M (rules_by_program p) program of
                  None \<Rightarrow> []
                | Some rules \<Rightarrow> List.map_filter (\<lambda>r. rule_matches r cmd) rules))"

definition match_host_executable_rules ::
    "('m, 'z) multimap_ops_scheme \<Rightarrow> process_env \<Rightarrow> 'm policy \<Rightarrow> str list \<Rightarrow> rule_match list" where
  "match_host_executable_rules M env p cmd =
     (case cmd of
        [] \<Rightarrow> []
      | arg0 # args \<Rightarrow>
          (case from_absolute_path (env_home env) (env_cwd env) arg0 of
             Inl _ \<Rightarrow> []
           | Inr program \<Rightarrow>
               (case executable_path_lookup_key program of
                  None \<Rightarrow> []
                | Some basename \<Rightarrow>
                    (case mm_get_vec M (rules_by_program p) basename of
                       None \<Rightarrow> []
                     | Some rules \<Rightarrow>
                         if (case host_executables_by_name p basename of
                               Some paths \<Rightarrow> \<not> list_ex (\<lambda>q. q = program) paths
                             | None \<Rightarrow> False)
                         then []
                         else map (\<lambda>m. with_resolved_program m program)
                                (List.map_filter (\<lambda>r. rule_matches r (basename # args)) rules)))))"

definition matches_for_command_with_options ::
    "('m, 'z) multimap_ops_scheme \<Rightarrow> process_env \<Rightarrow> 'm policy \<Rightarrow> str list \<Rightarrow>
       (str list \<Rightarrow> decision) option \<Rightarrow> match_options \<Rightarrow> rule_match list" where
  "matches_for_command_with_options M env p cmd heuristics options =
     (let matched_rules =
        (case match_exact_rules M p cmd of
           Some (m # ms) \<Rightarrow> m # ms
         | _ \<Rightarrow> if resolve_host_executables options then match_host_executable_rules M env p cmd
                else [])
      in case heuristics of
           Some fallback \<Rightarrow>
             if matched_rules = [] then [HeuristicsRuleMatch cmd (fallback cmd)] else matched_rules
         | None \<Rightarrow> matched_rules)"

definition matches_for_command ::
    "('m, 'z) multimap_ops_scheme \<Rightarrow> process_env \<Rightarrow> 'm policy \<Rightarrow> str list \<Rightarrow>
       (str list \<Rightarrow> decision) option \<Rightarrow> rule_match list" where
  "matches_for_command M env p cmd heuristics =
     matches_for_command_with_options M env p cmd heuristics default_match_options"

record evaluation =
  eval_decision :: decision
  matched_rules :: "rule_match list"

definition is_match :: "evaluation \<Rightarrow> bool" where
  "is_match e \<longleftrightarrow> list_ex (\<lambda>m. case m of HeuristicsRuleMatch _ _ \<Rightarrow> False | _ \<Rightarrow> True) (matched_rules e)"

text \<open>\<open>Iterator::max\<close>.\<close>

fun iter_max :: "'a::linorder list \<Rightarrow> 'a option" where
  "iter_max [] = None"
| "iter_max (x # xs) = Some (foldl max x xs)"

definition from_matches :: "rule_match list \<Rightarrow> evaluation option" where
  "from_matches ms =
     (case iter_max (map match_decision ms) of
        None \<Rightarrow> None
      | Some d \<Rightarrow> Some \<lparr>eval_decision = d, matched_rules = ms\<rparr>)"

definition check_with_options ::
    "('m, 'z) multimap_ops_scheme \<Rightarrow> process_env \<Rightarrow> 'm policy \<Rightarrow> str list \<Rightarrow>
       (str list \<Rightarrow> decision) \<Rightarrow> match_options \<Rightarrow> evaluation option" where
  "check_with_options M env p cmd heuristics options =
     from_matches (matches_for_command_with_options M env p cmd (Some heuristics) options)"

definition check ::
    "('m, 'z) multimap_ops_scheme \<Rightarrow> process_env \<Rightarrow> 'm policy \<Rightarrow> str list \<Rightarrow>
       (str list \<Rightarrow> decision) \<Rightarrow> evaluation option" where
  "check M env p cmd heuristics =
     from_matches (matches_for_command_with_options M env p cmd (Some heuristics)
       default_match_options)"

definition check_multiple_with_options ::
    "('m, 'z) multimap_ops_scheme \<Rightarrow> process_env \<Rightarrow> 'm policy \<Rightarrow> str list list \<Rightarrow>
       (str list \<Rightarrow> decision) \<Rightarrow> match_options \<Rightarrow> evaluation option" where
  "check_multiple_with_options M env p cmds heuristics options =
     from_matches (concat (map (\<lambda>cmd.
       matches_for_command_with_options M env p cmd (Some heuristics) options) cmds))"

definition check_multiple ::
    "('m, 'z) multimap_ops_scheme \<Rightarrow> process_env \<Rightarrow> 'm policy \<Rightarrow> str list list \<Rightarrow>
       (str list \<Rightarrow> decision) \<Rightarrow> evaluation option" where
  "check_multiple M env p cmds heuristics =
     check_multiple_with_options M env p cmds heuristics default_match_options"

section \<open>Validation of examples\<close>

definition render_example :: "(str list \<Rightarrow> str option) \<Rightarrow> str list \<Rightarrow> str" where
  "render_example try_join example =
     (case try_join example of None \<Rightarrow> ''unable to render example'' | Some s \<Rightarrow> s)"

definition resolving_options :: match_options where
  "resolving_options = \<lparr>resolve_host_executables = True\<rparr>"

definition validate_match_examples ::
    "('m, 'z) multimap_ops_scheme \<Rightarrow> process_env \<Rightarrow> (str list \<Rightarrow> str option) \<Rightarrow>
       (prefix_rule \<Rightarrow> str) \<Rightarrow> 'm policy \<Rightarrow> prefix_rule list \<Rightarrow> str list list \<Rightarrow>
       exec_error + unit" where
  "validate_match_examples M env try_join debug p rules examples =
     (let unmatched = map (render_example try_join)
        (filter (\<lambda>example. matches_for_command_with_options M env p example None resolving_options
                   = []) examples)
      in if unmatched = [] then Inr ()
         else Inl (ExampleDidNotMatch (map debug rules) unmatched None))"

fun validate_not_match_examples ::
    "('m, 'z) multimap_ops_scheme \<Rightarrow> process_env \<Rightarrow> (str list \<Rightarrow> str option) \<Rightarrow>
       (rule_match \<Rightarrow> str) \<Rightarrow> 'm policy \<Rightarrow> str list list \<Rightarrow> exec_error + unit" where
  "validate_not_match_examples M env try_join debug p [] = Inr ()"
| "validate_not_match_examples M env try_join debug p (example # examples) =
     (case matches_for_command_with_options M env p example None resolving_options of
        rule # _ \<Rightarrow> Inl (ExampleDidMatch (debug rule) (render_example try_join example) None)
      | [] \<Rightarrow> validate_not_match_examples M env try_join debug p examples)"

section \<open>The strictest match decides\<close>

lemma iter_max_Max: "xs \<noteq> [] \<Longrightarrow> iter_max xs = Some (Max (set xs))"
proof (cases xs)
  case (Cons x ys)
  have "foldl max x ys = Max (set (x # ys))"
    by (simp add: Max.set_eq_fold foldl_conv_fold max.commute del: set_simps)
  then show ?thesis using Cons by simp
qed simp

lemma from_matches_nonempty:
  "ms \<noteq> [] \<Longrightarrow>
     from_matches ms = Some \<lparr>eval_decision = Max (match_decision ` set ms), matched_rules = ms\<rparr>"
  by (simp add: from_matches_def iter_max_Max)

lemma from_matches_empty: "from_matches [] = None"
  by (simp add: from_matches_def)

lemma matches_with_fallback_nonempty:
  "matches_for_command_with_options M env p cmd (Some h) options \<noteq> []"
  by (auto simp: matches_for_command_with_options_def Let_def)

lemmas check_defs = check_with_options_def check_def check_multiple_def
  check_multiple_with_options_def matches_for_command_def

lemma check_with_options_total:
  "check_with_options M env p cmd h options =
     Some \<lparr>eval_decision =
             Max (match_decision ` set (matches_for_command_with_options M env p cmd (Some h) options)),
           matched_rules = matches_for_command_with_options M env p cmd (Some h) options\<rparr>"
  by (simp add: check_defs from_matches_nonempty matches_with_fallback_nonempty)

lemma check_multiple_None_iff:
  "check_multiple_with_options M env p cmds h options = None \<longleftrightarrow> cmds = []"
proof (cases cmds)
  case Nil
  then show ?thesis by (simp add: check_defs from_matches_empty)
next
  case (Cons cmd cs)
  then show ?thesis
    by (simp add: check_defs from_matches_nonempty matches_with_fallback_nonempty)
qed

lemma eval_decision_upper:
  assumes "from_matches ms = Some e" and "m \<in> set ms"
  shows "match_decision m \<le> eval_decision e"
proof -
  have "ms \<noteq> []" using assms(2) by auto
  then show ?thesis using assms by (auto simp: from_matches_nonempty)
qed

text \<open>The rules stored under the program name that match the whole command.\<close>

definition exact_matches ::
    "('m, 'z) multimap_ops_scheme \<Rightarrow> 'm policy \<Rightarrow> str list \<Rightarrow> rule_match list" where
  "exact_matches M p cmd =
     (case cmd of [] \<Rightarrow> []
      | program # _ \<Rightarrow>
          List.map_filter (\<lambda>r. rule_matches r cmd) (mm_get M (rules_by_program p) program))"

lemma match_exact_rules_eq:
  "match_exact_rules M p cmd = (if cmd = [] then None else Some (exact_matches M p cmd))"
  by (cases cmd)
     (auto simp: match_exact_rules_def exact_matches_def mm_get_def split: option.splits)

lemma matches_exact:
  "exact_matches M p cmd \<noteq> [] \<Longrightarrow>
     matches_for_command_with_options M env p cmd h options = exact_matches M p cmd"
  by (cases "exact_matches M p cmd")
     (auto simp: matches_for_command_with_options_def match_exact_rules_eq exact_matches_def
       split: option.splits list.splits)

lemma matches_not_exact:
  "exact_matches M p cmd = [] \<Longrightarrow>
     matches_for_command_with_options M env p cmd h options =
       (let ms = (if resolve_host_executables options
                  then match_host_executable_rules M env p cmd else [])
        in case h of None \<Rightarrow> ms
           | Some f \<Rightarrow> if ms = [] then [HeuristicsRuleMatch cmd (f cmd)] else ms)"
  by (auto simp: matches_for_command_with_options_def match_exact_rules_eq split: option.splits)

lemma exact_matches_iff:
  "m \<in> set (exact_matches M p cmd) \<longleftrightarrow>
     (\<exists>program args r. cmd = program # args \<and> r \<in> set (mm_get M (rules_by_program p) program)
        \<and> rule_matches r cmd = Some m)"
  by (cases cmd) (auto simp: exact_matches_def set_map_filter)

lemma exact_match_not_heuristic:
  "m \<in> set (exact_matches M p cmd) \<Longrightarrow> \<exists>pre d j. m = PrefixRuleMatch pre d None j"
  by (auto simp: exact_matches_iff rule_matches_def)

section \<open>Updates of the rules\<close>

definition rules_keyed :: "('m, 'z) multimap_ops_scheme \<Rightarrow> 'm \<Rightarrow> bool" where
  "rules_keyed M m \<longleftrightarrow> (\<forall>k. \<forall>r \<in> set (mm_get M m k). rule_program r = k)"

lemma exact_matches_merge:
  assumes "multimap M"
  shows "exact_matches M (merge_overlay M p q) cmd = exact_matches M p cmd @ exact_matches M q cmd"
  by (cases cmd) (simp_all add: exact_matches_def merge_overlay_def policy_from_parts_def
      multimap.mm_get_merge [OF assms] List.map_filter_def)

lemma add_prefix_rule_get:
  assumes "multimap M" and "add_prefix_rule M p (t # ts) d = Inr p'"
  shows "mm_get M (rules_by_program p') t = mm_get M (rules_by_program p) t @
    [\<lparr>pattern = \<lparr>first = t, rest = map Single ts\<rparr>, rule_decision = d, justification = None\<rparr>]"
  using assms(2) by (auto simp: add_prefix_rule_def multimap.mm_get_insert [OF assms(1)])

lemma list_all2_Single: "list_all2 token_matches (map Single ts) ts"
  by (induction ts) auto

lemma rules_keyed_insert:
  "multimap M \<Longrightarrow> rules_keyed M m \<Longrightarrow> rules_keyed M (mm_insert M m (rule_program r) r)"
  by (auto simp: rules_keyed_def multimap.mm_get_insert)

lemma rules_keyed_new: "multimap M \<Longrightarrow> rules_keyed M (mm_new M)"
  by (simp add: rules_keyed_def multimap.mm_get_new)

lemma rules_keyed_add_prefix_rule [wf_intros]:
  assumes "multimap M" and "rules_keyed M (rules_by_program p)"
    and "add_prefix_rule M p pre d = Inr p'"
  shows "rules_keyed M (rules_by_program p')"
proof (cases pre)
  case Nil
  then show ?thesis using assms(3) by (simp add: add_prefix_rule_def)
next
  case (Cons t ts)
  let ?r = "\<lparr>pattern = \<lparr>first = t, rest = map Single ts\<rparr>, rule_decision = d, justification = None\<rparr>"
  have "rules_by_program p' = mm_insert M (rules_by_program p) (rule_program ?r) ?r"
    using assms(3) Cons by (auto simp: add_prefix_rule_def rule_program_def)
  then show ?thesis using rules_keyed_insert [OF assms(1,2), of ?r] by simp
qed

lemma rules_keyed_merge [wf_intros]:
  assumes "multimap M" "rules_keyed M (rules_by_program p)" "rules_keyed M (rules_by_program q)"
  shows "rules_keyed M (rules_by_program (merge_overlay M p q))"
  using assms(2,3)
  by (auto simp: rules_keyed_def merge_overlay_def policy_from_parts_def
      multimap.mm_get_merge [OF assms(1)])

section \<open>Order of the hash table\<close>

lemma iter_all_mset:
  assumes "multimap M" and "\<And>k. mm_get_vec M m k = mm_get_vec M n k"
  shows "mset (mm_iter_all M m) = mset (mm_iter_all M n)"
proof -
  have "distinct (mm_iter_all M m)" "distinct (mm_iter_all M n)"
    using multimap.iter_keys_distinct [OF assms(1)] by (simp_all add: distinct_map)
  moreover have "set (mm_iter_all M m) = set (mm_iter_all M n)"
    using assms by (auto simp: multimap.iter_all [OF assms(1)])
  ultimately show ?thesis by (simp add: set_eq_iff_mset_eq_distinct)
qed

lemma sort_eq_of_mset: "mset xs = mset ys \<Longrightarrow> sort xs = sort ys"
  by (metis sorted_list_of_multiset_mset)

lemma mset_concat_map:
  "mset xs = mset ys \<Longrightarrow> mset (concat (map f xs)) = mset (concat (map f ys))"
  by (simp add: mset_concat flip: sum_mset_sum_list)

section \<open>Network domains: the last verdict wins\<close>

definition last_verdict :: "network_rule list \<Rightarrow> str \<Rightarrow> decision option" where
  "last_verdict rules host =
     foldl (\<lambda>v r. if nr_host r = host \<and> nr_decision r \<noteq> Prompt then Some (nr_decision r) else v)
       None rules"

lemma set_upsert_domain: "set (upsert_domain xs h) = insert h (set xs)"
  by (auto simp: upsert_domain_def retain_other_def)

lemma distinct_upsert_domain: "distinct xs \<Longrightarrow> distinct (upsert_domain xs h)"
  by (auto simp: upsert_domain_def retain_other_def)

lemma compile_domain_invariant:
  "case foldl compile_domain ([], []) rules of (allowed, denied) \<Rightarrow>
     distinct allowed \<and> distinct denied \<and>
     (\<forall>h. (h \<in> set allowed \<longleftrightarrow> last_verdict rules h = Some Allow) \<and>
          (h \<in> set denied \<longleftrightarrow> last_verdict rules h = Some Forbidden))"
proof (induction rules rule: rev_induct)
  case Nil
  then show ?case by (simp add: last_verdict_def)
next
  case (snoc r rules)
  obtain allowed denied where ad: "foldl compile_domain ([], []) rules = (allowed, denied)"
    by fastforce
  have lv: "last_verdict (rules @ [r]) h =
      (if nr_host r = h \<and> nr_decision r \<noteq> Prompt then Some (nr_decision r)
       else last_verdict rules h)" for h
    by (simp add: last_verdict_def)
  show ?case
    using snoc.IH
    by (cases "nr_decision r")
       (auto simp: ad lv set_upsert_domain distinct_upsert_domain retain_other_def)
qed

section \<open>Properties of the policy\<close>

text \<open>
  a prefix pattern matches a command exactly when the command starts with the pattern's
  program followed by one token per pattern element, each among the alternatives of its element;
  the reported prefix is those tokens.
\<close>

theorem matches_prefix_spec:
  "matches_prefix p cmd = Some m \<longleftrightarrow>
     (\<exists>ts us. cmd = first p # ts @ us \<and> m = first p # ts \<and>
        list_all2 (\<lambda>t w. w \<in> set (alternatives t)) (rest p) ts)"
proof -
  have "token_matches = (\<lambda>t w. w \<in> set (alternatives t))"
    by (simp add: fun_eq_iff token_matches_alternatives)
  then show ?thesis by (auto simp: matches_prefix_Some_iff)
qed

text \<open>
  \<open>check_with_options\<close> always returns, its list of matches is not empty, and its decision is
  the strictest decision of the matches it reports.
\<close>

theorem check_strictest_match:
  "\<exists>e. check_with_options M env p cmd h options = Some e
     \<and> matched_rules e = matches_for_command_with_options M env p cmd (Some h) options
     \<and> matched_rules e \<noteq> []
     \<and> eval_decision e = Max (match_decision ` set (matched_rules e))"
  using matches_with_fallback_nonempty [of M env p cmd h options]
  by (simp add: check_with_options_total Let_def)

text \<open>
  C8: a rule stored under the program of a command and matching that command bounds the outcome:
  whatever the heuristics and the options, the evaluation is a rule match and its decision is at
  least as strict as the rule's.
\<close>

theorem check_respects_rules:
  assumes "r \<in> set (mm_get M (rules_by_program p) program)"
    and "rule_matches r (program # args) = Some m"
  shows "\<exists>e. check_with_options M env p (program # args) h options = Some e
     \<and> is_match e \<and> rule_decision r \<le> eval_decision e"
proof -
  have m: "m \<in> set (exact_matches M p (program # args))"
    using assms by (auto simp: exact_matches_iff)
  let ?ms = "exact_matches M p (program # args)"
  have ms: "matches_for_command_with_options M env p (program # args) (Some h) options = ?ms"
    using m by (intro matches_exact) auto
  have "match_decision m \<le> Max (match_decision ` set ?ms)" using m by simp
  moreover have "match_decision m = rule_decision r"
    using assms(2) by (rule rule_matches_Some_decision)
  ultimately show ?thesis
    using exact_match_not_heuristic [OF m]
    by (auto simp: check_with_options_total ms is_match_def list_ex_iff intro!: bexI [OF _ m])
qed

text \<open>Witness: a forbidding rule on \<open>rm -rf\<close> against heuristics that allow everything.\<close>

theorem check_respects_rules_witness:
  "\<exists>e. check_with_options alist_multimap \<lparr>env_home = None, env_cwd = Inl []\<rparr>
       \<lparr>rules_by_program = [(''rm'', [\<lparr>pattern = \<lparr>first = ''rm'', rest = [Single ''-rf'']\<rparr>,
          rule_decision = Forbidden, justification = None\<rparr>])],
        network_rules = [], host_executables_by_name = Map.empty\<rparr>
       [''rm'', ''-rf'', ''/''] (\<lambda>_. Allow) default_match_options = Some e
     \<and> is_match e \<and> Forbidden \<le> eval_decision e"
  using check_respects_rules [where r = "\<lparr>pattern = \<lparr>first = ''rm'', rest = [Single ''-rf'']\<rparr>,
      rule_decision = Forbidden, justification = None\<rparr>" and M = alist_multimap
      and p = "\<lparr>rules_by_program = [(''rm'', [\<lparr>pattern = \<lparr>first = ''rm'', rest = [Single ''-rf'']\<rparr>,
          rule_decision = Forbidden, justification = None\<rparr>])],
        network_rules = [], host_executables_by_name = Map.empty\<rparr>"
      and program = "''rm''" and args = "[''-rf'', ''/'']"
      and m = "PrefixRuleMatch [''rm'', ''-rf''] Forbidden None None"]
  by (simp add: mm_get_def alist_multimap_def rule_matches_def matches_prefix_def)

text \<open>
  when no rule matches, neither directly nor through a host executable, the outcome is the
  decision of the heuristics and is not reported as a rule match.
\<close>

theorem check_falls_back:
  assumes "exact_matches M p cmd = []"
    and "resolve_host_executables options \<longrightarrow> match_host_executable_rules M env p cmd = []"
  shows "check_with_options M env p cmd h options =
      Some \<lparr>eval_decision = h cmd, matched_rules = [HeuristicsRuleMatch cmd (h cmd)]\<rparr>
    \<and> \<not> is_match \<lparr>eval_decision = h cmd, matched_rules = [HeuristicsRuleMatch cmd (h cmd)]\<rparr>"
  using assms by (simp add: check_with_options_total matches_not_exact Let_def is_match_def)

theorem check_falls_back_witness:
  "check_with_options alist_multimap \<lparr>env_home = None, env_cwd = Inl []\<rparr>
     (policy_empty alist_multimap) [''ls''] (\<lambda>_. Prompt) default_match_options =
     Some \<lparr>eval_decision = Prompt, matched_rules = [HeuristicsRuleMatch [''ls''] Prompt]\<rparr>"
  using check_falls_back [of alist_multimap "policy_empty alist_multimap" "[''ls'']"
      default_match_options "\<lparr>env_home = None, env_cwd = Inl []\<rparr>" "\<lambda>_. Prompt"]
  by (simp add: exact_matches_def mm_get_def policy_empty_def policy_new_def
      policy_from_parts_def alist_multimap_def default_match_options_def List.map_filter_def)

text \<open>
  checking several commands panics exactly when there is no command, and otherwise the
  decision is at least as strict as the decision for each command alone.
\<close>

theorem check_multiple_strictest:
  "(check_multiple_with_options M env p cmds h options = None \<longleftrightarrow> cmds = []) \<and>
   (\<forall>e cmd e'. check_multiple_with_options M env p cmds h options = Some e \<and> cmd \<in> set cmds \<and>
      check_with_options M env p cmd h options = Some e' \<longrightarrow> eval_decision e' \<le> eval_decision e)"
proof (intro conjI allI impI)
  show "check_multiple_with_options M env p cmds h options = None \<longleftrightarrow> cmds = []"
    by (rule check_multiple_None_iff)
next
  fix e cmd e'
  assume a: "check_multiple_with_options M env p cmds h options = Some e \<and> cmd \<in> set cmds \<and>
    check_with_options M env p cmd h options = Some e'"
  let ?f = "\<lambda>cmd. matches_for_command_with_options M env p cmd (Some h) options"
  have e: "from_matches (concat (map ?f cmds)) = Some e"
    and e': "from_matches (?f cmd) = Some e'" using a by (simp_all add: check_defs)
  have "eval_decision e' = Max (match_decision ` set (?f cmd))"
    using e' by (auto simp: from_matches_nonempty matches_with_fallback_nonempty)
  moreover have "Max (match_decision ` set (?f cmd)) \<in> match_decision ` set (?f cmd)"
    by (rule Max_in) (simp_all add: matches_with_fallback_nonempty)
  ultimately obtain m where "m \<in> set (?f cmd)" and "eval_decision e' = match_decision m" by auto
  then show "eval_decision e' \<le> eval_decision e"
    using eval_decision_upper [OF e, of m] a by auto
qed

theorem check_multiple_strictest_witness:
  "check_multiple_with_options alist_multimap \<lparr>env_home = None, env_cwd = Inl []\<rparr>
     (policy_empty alist_multimap) [] (\<lambda>_. Allow) default_match_options = None"
  using check_multiple_strictest [of alist_multimap "\<lparr>env_home = None, env_cwd = Inl []\<rparr>"
      "policy_empty alist_multimap" "[]" "\<lambda>_. Allow" default_match_options] by blast



text \<open>
  after \<open>add_prefix_rule\<close> succeeds, every command that starts with the added prefix is
  decided by a rule and at least as strictly as asked; the empty prefix is refused.
\<close>

theorem add_prefix_rule_effective:
  assumes "multimap M"
  shows "add_prefix_rule M p [] d = Inl (InvalidPattern ''prefix cannot be empty'')
    \<and> (\<exists>p'. add_prefix_rule M p (t # ts) d = Inr p' \<and>
         (\<exists>e. check_with_options M env p' ((t # ts) @ args) h options = Some e
            \<and> is_match e \<and> d \<le> eval_decision e))"
proof
  show "add_prefix_rule M p [] d = Inl (InvalidPattern ''prefix cannot be empty'')"
    by (simp add: add_prefix_rule_def)
next
  obtain p' where p': "add_prefix_rule M p (t # ts) d = Inr p'"
    by (simp add: add_prefix_rule_def)
  let ?r = "\<lparr>pattern = \<lparr>first = t, rest = map Single ts\<rparr>, rule_decision = d, justification = None\<rparr>"
  have "?r \<in> set (mm_get M (rules_by_program p') t)"
    using add_prefix_rule_get [OF assms p'] by simp
  moreover have "matches_prefix (pattern ?r) (t # ts @ args) = Some (t # ts)"
    by (auto simp: matches_prefix_Some_iff intro!: exI [of _ ts] list_all2_Single)
  then have rm: "rule_matches ?r (t # ts @ args) = Some (PrefixRuleMatch (t # ts) d None None)"
    by (simp add: rule_matches_def)
  ultimately have "PrefixRuleMatch (t # ts) d None None \<in> set (exact_matches M p' (t # ts @ args))"
    by (auto simp: exact_matches_iff)
  then have ms: "matches_for_command_with_options M env p' (t # ts @ args) (Some h) options
      = exact_matches M p' (t # ts @ args)"
    and m: "PrefixRuleMatch (t # ts) d None None \<in> set (exact_matches M p' (t # ts @ args))"
    by (auto intro: matches_exact)
  have "d \<le> Max (match_decision ` set (exact_matches M p' (t # ts @ args)))"
    using m by (intro Max_ge) (auto intro: image_eqI [OF _ m])
  then have "\<exists>e. check_with_options M env p' ((t # ts) @ args) h options = Some e
      \<and> is_match e \<and> d \<le> eval_decision e"
    by (auto simp: check_with_options_total ms is_match_def list_ex_iff intro!: bexI [OF _ m])
  with p' show "\<exists>p'. add_prefix_rule M p (t # ts) d = Inr p' \<and>
      (\<exists>e. check_with_options M env p' ((t # ts) @ args) h options = Some e
         \<and> is_match e \<and> d \<le> eval_decision e)"
    by blast
qed

theorem add_prefix_rule_effective_witness:
  "\<exists>p'. add_prefix_rule alist_multimap (policy_empty alist_multimap) [''curl''] Forbidden = Inr p' \<and>
     (\<exists>e. check_with_options alist_multimap \<lparr>env_home = None, env_cwd = Inl []\<rparr> p'
            [''curl'', ''x''] (\<lambda>_. Allow) default_match_options = Some e
        \<and> is_match e \<and> Forbidden \<le> eval_decision e)"
  using add_prefix_rule_effective [OF alist_mm.multimap_axioms,
      of "policy_empty alist_multimap" Forbidden "''curl''" "[]"
      "\<lparr>env_home = None, env_cwd = Inl []\<rparr>" "[''x'']" "\<lambda>_. Allow" default_match_options]
  by simp

text \<open>
  a rule reached through the base name of an absolute program applies only to a program that
  the policy lists for that name, when it lists any; the match records the resolved program.
\<close>

theorem host_executable_listed:
  assumes "m \<in> set (match_host_executable_rules M env p cmd)"
  shows "\<exists>arg0 args program name. cmd = arg0 # args
     \<and> from_absolute_path (env_home env) (env_cwd env) arg0 = Inr program
     \<and> path_file_name program = Some name \<and> resolved_program m = Some program
     \<and> (\<exists>r \<in> set (mm_get M (rules_by_program p) name). rule_decision r = match_decision m)
     \<and> (\<forall>paths. host_executables_by_name p name = Some paths \<longrightarrow> program \<in> set paths)"
proof -
  note def = match_host_executable_rules_def
  obtain arg0 args where cmd: "cmd = arg0 # args"
    using assms by (cases cmd) (auto simp: def)
  obtain program where program: "from_absolute_path (env_home env) (env_cwd env) arg0 = Inr program"
    using assms cmd
    by (cases "from_absolute_path (env_home env) (env_cwd env) arg0") (auto simp: def)
  obtain name where name: "executable_path_lookup_key program = Some name"
    using assms cmd program by (cases "executable_path_lookup_key program") (auto simp: def)
  obtain rules where rules: "mm_get_vec M (rules_by_program p) name = Some rules"
    using assms cmd program name
    by (cases "mm_get_vec M (rules_by_program p) name") (auto simp: def)
  let ?unlisted = "case host_executables_by_name p name of
      Some paths \<Rightarrow> \<not> list_ex (\<lambda>q. q = program) paths | None \<Rightarrow> False"
  have listed: "\<not> ?unlisted"
    using assms by (cases ?unlisted) (simp_all add: def cmd program name rules)
  then have "m \<in> set (map (\<lambda>m. with_resolved_program m program)
      (List.map_filter (\<lambda>r. rule_matches r (name # args)) rules))"
    using assms by (simp add: def cmd program name rules)
  then obtain n r where m: "m = with_resolved_program n program"
    and r: "r \<in> set rules" "rule_matches r (name # args) = Some n"
    by (auto simp: set_map_filter)
  have "resolved_program m = Some program" using r(2) m by (auto simp: rule_matches_def)
  moreover have "rule_decision r = match_decision m"
    using rule_matches_Some_decision [OF r(2)] m by simp
  moreover have "path_file_name program = Some name"
    using name by (auto simp: executable_path_lookup_key_def executable_lookup_key_def)
  ultimately show ?thesis
    using cmd program rules r(1) listed
    by (auto simp: mm_get_def list_ex_iff split: option.splits)
qed

theorem host_executable_listed_witness:
  "\<exists>m. m \<in> set (match_host_executable_rules alist_multimap \<lparr>env_home = None, env_cwd = Inl []\<rparr>
       \<lparr>rules_by_program = [(''git'', [\<lparr>pattern = \<lparr>first = ''git'', rest = []\<rparr>,
          rule_decision = Allow, justification = None\<rparr>])],
        network_rules = [],
        host_executables_by_name = [''git'' \<mapsto> [[RootDir, Normal ''bin'', Normal ''git'']]]\<rparr>
       [''/bin/git''])
     \<and> resolved_program m = Some [RootDir, Normal ''bin'', Normal ''git'']"
proof -
  let ?p = "\<lparr>rules_by_program = [(''git'', [\<lparr>pattern = \<lparr>first = ''git'', rest = []\<rparr>,
          rule_decision = Allow, justification = None\<rparr>])],
        network_rules = [],
        host_executables_by_name = [''git'' \<mapsto> [[RootDir, Normal ''bin'', Normal ''git'']]]\<rparr>"
  let ?env = "\<lparr>env_home = None, env_cwd = Inl []\<rparr>"
  have path: "from_absolute_path None (Inl [] :: str + path) ''/bin/git'' =
      Inr [RootDir, Normal ''bin'', Normal ''git'']"
    by code_simp
  have m: "PrefixRuleMatch [''git''] Allow (Some [RootDir, Normal ''bin'', Normal ''git'']) None
      \<in> set (match_host_executable_rules alist_multimap ?env ?p [''/bin/git''])"
    by (simp add: match_host_executable_rules_def path executable_path_lookup_key_def
        executable_lookup_key_def path_file_name_def alist_multimap_def rule_matches_def
        matches_prefix_def List.map_filter_def)
  from host_executable_listed [OF m] m show ?thesis by auto
qed

text \<open>
  \<open>compiled_network_domains\<close> gives two lists without repetitions; a host is in the allowed
  list exactly when the last rule for it that is not \<open>Prompt\<close> allows it, and in the denied list
  exactly when that rule forbids it, so no host is in both.
\<close>

theorem compiled_network_domains_last_wins:
  "case compiled_network_domains p of (allowed, denied) \<Rightarrow>
     distinct allowed \<and> distinct denied \<and> set allowed \<inter> set denied = {} \<and>
     (\<forall>h. (h \<in> set allowed \<longleftrightarrow> last_verdict (network_rules p) h = Some Allow) \<and>
          (h \<in> set denied \<longleftrightarrow> last_verdict (network_rules p) h = Some Forbidden))"
  using compile_domain_invariant [of "network_rules p"]
  by (auto simp: compiled_network_domains_def split: prod.splits)

text \<open>
  every network rule that \<open>add_network_rule\<close> accepts is stored last, with a host that is not
  empty, lower case and free of whitespace, wildcards, paths and schemes.
\<close>

theorem add_network_rule_normalised:
  assumes "add_network_rule p host protocol d j = Inr p'"
  shows "\<exists>r. network_rules p' = network_rules p @ [r] \<and> wf_network_host (nr_host r)
    \<and> nr_protocol r = protocol \<and> nr_decision r = d \<and> nr_justification r = j
    \<and> rules_by_program p' = rules_by_program p"
  using assms
  by (auto simp: add_network_rule_def check_justification_def normalize_network_rule_host_wf
      split: option.splits if_splits)

theorem add_network_rule_normalised_witness:
  "\<exists>p' r. add_network_rule (policy_empty alist_multimap) '' API.Example.com:443 '' Https Allow None
       = Inr p'
     \<and> network_rules p' = [r] \<and> wf_network_host (nr_host r)"
proof -
  have n: "normalize_network_rule_host '' API.Example.com:443 '' = Inr ''api.example.com''"
    by code_simp
  obtain p' where p': "add_network_rule (policy_empty alist_multimap) '' API.Example.com:443 ''
      Https Allow None = Inr p'"
    by (simp add: add_network_rule_def n check_justification_def)
  from add_network_rule_normalised [OF p'] p' show ?thesis
    by (auto simp: policy_empty_def policy_new_def policy_from_parts_def)
qed

text \<open>
  the fingerprint that compares requirement policies does not depend on the iteration order
  of the hash table: policies with the same rules under every program have the same fingerprint.
\<close>

theorem fingerprint_order_independent:
  assumes "multimap M"
    and "\<And>k. mm_get_vec M (rules_by_program p) k = mm_get_vec M (rules_by_program q) k"
  shows "fingerprint M debug p = fingerprint M debug q"
  unfolding fingerprint_def
  by (intro sort_eq_of_mset mset_concat_map iter_all_mset [OF assms])

theorem fingerprint_order_independent_witness:
  "fingerprint alist_multimap (\<lambda>_. ''r'')
     \<lparr>rules_by_program = [(''a'', []), (''b'', [])], network_rules = [],
      host_executables_by_name = Map.empty\<rparr> =
   fingerprint alist_multimap (\<lambda>_. ''r'')
     \<lparr>rules_by_program = [(''b'', []), (''a'', [])], network_rules = [],
      host_executables_by_name = Map.empty\<rparr>"
  by (rule fingerprint_order_independent [OF alist_mm.multimap_axioms])
     (auto simp: alist_multimap_def)

end
