(* ===== verification/Shell_Bash.thy ===== *)
theory Shell_Bash
  imports Absolute_Path
begin

text \<open>
  Reading of shell scripts (\<open>codex-rs/shell-command/src/bash.rs\<close> and \<open>detect_shell_type\<close> of \<open>shell_detect.rs\<close>).  The
  tree-sitter parser and its bash grammar are third-party code: the parser is the argument \<open>parse\<close>, and a
  tree is what the code reads of it.  Two readings of a script are compared: the commands
  of a script of plain words, which the policy decides on, and the literal commands of any script,
  which are searched for danger.
\<close>

section \<open>Shells\<close>

datatype shell_type = Zsh | Bash | PowerShell | Sh | Cmd

text \<open>\<open>Path::file_stem\<close>.\<close>

definition name_stem :: "str \<Rightarrow> str" where
  "name_stem n = (case rsplit_once (CHR ''.'') n of None \<Rightarrow> n | Some (a, _) \<Rightarrow> if a = [] then n else a)"

definition file_stem :: "str \<Rightarrow> str option" where
  "file_stem s = map_option name_stem (path_file_name (path_components s))"

definition shell_type_of_name :: "str \<Rightarrow> shell_type option" where
  "shell_type_of_name s =
     (if s = ''zsh'' then Some Zsh
      else if s = ''sh'' then Some Sh
      else if s = ''cmd'' then Some Cmd
      else if s = ''bash'' then Some Bash
      else if s = ''pwsh'' \<or> s = ''powershell'' then Some PowerShell
      else None)"

lemma split_on_field_length: "f \<in> set (split_on d s) \<Longrightarrow> length f \<le> length s \<and> (length f = length s \<longrightarrow> f = s)"
proof (induction s arbitrary: f)
  case (Cons c s)
  then show ?case by (cases "split_on d s") (fastforce split: if_splits)+
qed simp

lemma name_stem_length: "length (name_stem n) \<le> length n \<and> (length (name_stem n) = length n \<longrightarrow> name_stem n = n)"
  by (auto simp: name_stem_def rsplit_once_Some_iff split: option.splits)

lemma path_file_name_field:
  "path_file_name (path_components s) = Some n \<Longrightarrow> n \<in> set (split_on (CHR ''/'') s)"
proof -
  assume "path_file_name (path_components s) = Some n"
  then have "Normal n \<in> set (path_components s)"
    by (auto simp: path_file_name_def split: component.splits if_splits dest: last_in_set)
  then show ?thesis
    by (auto simp: path_components_def set_map_filter component_of_field_def Let_def split: if_splits)
qed

lemma file_stem_length: "file_stem s = Some t \<Longrightarrow> length t \<le> length s \<and> (length t = length s \<longrightarrow> t = s)"
proof -
  assume "file_stem s = Some t"
  then obtain n where n: "path_file_name (path_components s) = Some n" "t = name_stem n"
    by (auto simp: file_stem_def)
  show ?thesis
    using split_on_field_length [OF path_file_name_field [OF n(1)]] name_stem_length [of n] n(2) by auto
qed

function detect_shell_type :: "str \<Rightarrow> shell_type option" where
  "detect_shell_type s =
     (case shell_type_of_name s of
        Some t \<Rightarrow> Some t
      | None \<Rightarrow>
          (case file_stem s of
             Some name \<Rightarrow> if path_components name \<noteq> path_components s then detect_shell_type name else None
           | None \<Rightarrow> None))"
  by pat_completeness auto

termination
proof (relation "measure length")
  show "(t, s) \<in> measure length"
    if "file_stem s = Some t" "path_components t \<noteq> path_components s" for s t :: str
    using file_stem_length [OF that(1)] that(2) by (cases "length t = length s") auto
qed simp

declare detect_shell_type.simps [simp del]

section \<open>Syntax trees\<close>

text \<open>A node: its kind, whether it is named, its first byte, its text when that is UTF-8, its children.\<close>

datatype node = Node (kind: str) (is_named: bool) (start_byte: nat) (utf8_text: "str option") (children: "node list")

record tree =
  root_node :: node
  has_error :: bool

definition named_children :: "node \<Rightarrow> node list" where
  "named_children n = filter is_named (children n)"

lemma named_children_size: "m \<in> set (named_children n) \<Longrightarrow> size m < size n"
proof (cases n)
  case (Node k nm sb tx cs)
  assume "m \<in> set (named_children n)"
  then have "m \<in> set cs" by (simp add: Node named_children_def)
  then have "size m \<le> size_list size cs" by (simp add: size_list_estimation')
  then show ?thesis by (simp add: Node)
qed

lemma size_list_rev [simp]: "size_list f (rev xs) = size_list f xs"
  by (induction xs) auto

lemma size_list_children: "size_list size (children n) < size n"
  by (cases n) simp

lemma size_list_filter: "size_list size (filter P xs) \<le> size_list size xs"
  by (induction xs) auto

lemma size_list_named_children: "size_list size (named_children n) < size n"
  using size_list_filter [of is_named "children n"] size_list_children [of n] by (simp add: named_children_def)

definition expansion_char :: "char \<Rightarrow> bool" where
  "expansion_char c \<longleftrightarrow> c \<in> set (''{}*?['' @ '']'' @ [CHR 0x5C] @ ''~^#$'' @ [CHR 0x60])"

definition is_literal_word_or_number :: "node \<Rightarrow> bool" where
  "is_literal_word_or_number n \<longleftrightarrow>
     (kind n = ''word'' \<or> kind n = ''number'') \<and> named_children n = []
     \<and> (case utf8_text n of None \<Rightarrow> False | Some word \<Rightarrow> \<not> starts_with word ''='' \<and> \<not> list_ex expansion_char word)"

definition escape_pair :: "char \<Rightarrow> char \<Rightarrow> bool" where
  "escape_pair a b \<longleftrightarrow> a = CHR 0x5C \<and> (b = CHR ''$'' \<or> b = CHR 0x60 \<or> b = CHR 0x22 \<or> b = CHR 0x5C \<or> b = CHR 0x0A)"

definition parse_double_quoted_string :: "node \<Rightarrow> str option" where
  "parse_double_quoted_string n =
     (if kind n \<noteq> ''string'' then None
      else if list_ex (\<lambda>part. kind part \<noteq> ''string_content'') (named_children n) then None
      else
        Option.bind (utf8_text n) (\<lambda>raw.
        Option.bind (strip_prefix [CHR 0x22] raw) (\<lambda>t.
        Option.bind (strip_suffix [CHR 0x22] t) (\<lambda>stripped.
          if list_ex (\<lambda>(a, b). escape_pair a b) (zip stripped (tl stripped)) then None else Some stripped))))"

definition parse_raw_string :: "node \<Rightarrow> str option" where
  "parse_raw_string n =
     (if kind n \<noteq> ''raw_string'' then None
      else
        Option.bind (utf8_text n) (\<lambda>raw. Option.bind (strip_prefix [CHR 0x27] raw) (strip_suffix [CHR 0x27])))"

section \<open>Plain commands\<close>

definition plain_part :: "node \<Rightarrow> str option" where
  "plain_part part =
     (if kind part = ''word'' \<or> kind part = ''number'' then utf8_text part
      else if kind part = ''string'' then parse_double_quoted_string part
      else if kind part = ''raw_string'' then parse_raw_string part
      else None)"

definition non_empty :: "str \<Rightarrow> str option" where
  "non_empty s = (if s = [] then None else Some s)"

definition plain_word :: "node \<Rightarrow> str option" where
  "plain_word child =
     (if kind child = ''command_name'' then
        (case named_children child of
           [] \<Rightarrow> None
         | word_node # _ \<Rightarrow> if kind word_node \<noteq> ''word'' then None else utf8_text word_node)
      else if kind child = ''concatenation'' then
        Option.bind (those (map plain_part (named_children child))) (\<lambda>parts. non_empty (concat parts))
      else plain_part child)"

definition parse_plain_command_from_node :: "node \<Rightarrow> str list option" where
  "parse_plain_command_from_node cmd =
     (if kind cmd \<noteq> ''command'' then None else those (map plain_word (named_children cmd)))"

definition ALLOWED_KINDS :: "str list" where
  "ALLOWED_KINDS = [''program'', ''list'', ''pipeline'', ''command'', ''command_name'', ''word'', ''string'',
     ''string_content'', ''raw_string'', ''number'', ''concatenation'']"

definition ALLOWED_PUNCT_TOKENS :: "str list" where
  "ALLOWED_PUNCT_TOKENS = [''&&'', ''||'', '';'', ''|'', [CHR 0x22], [CHR 0x27]]"

definition rejected :: "node \<Rightarrow> bool" where
  "rejected n \<longleftrightarrow>
     (if is_named n then
        kind n \<notin> set ALLOWED_KINDS
        \<or> (kind n = ''word'' \<or> kind n = ''number'') \<and> \<not> is_literal_word_or_number n
      else
        list_ex (\<lambda>c. c \<in> set ''&;|'') (kind n) \<and> kind n \<notin> set ALLOWED_PUNCT_TOKENS
        \<or> \<not> (kind n \<in> set ALLOWED_PUNCT_TOKENS \<or> trim (kind n) = []))"

text \<open>The loop over the stack, whose top is the head of the list.\<close>

function collect_command_nodes :: "node list \<Rightarrow> node list \<Rightarrow> node list option" where
  "collect_command_nodes [] command_nodes = Some command_nodes"
| "collect_command_nodes (n # stack) command_nodes =
     (if rejected n then None
      else collect_command_nodes (rev (children n) @ stack)
             (if is_named n \<and> kind n = ''command'' then command_nodes @ [n] else command_nodes))"
  by pat_completeness auto

termination
  by (relation "measure (\<lambda>(stack, _). size_list size stack)") (auto simp: size_list_children less_SucI)

definition try_parse_word_only_commands_sequence :: "tree \<Rightarrow> str list list option" where
  "try_parse_word_only_commands_sequence t =
     (if has_error t then None
      else
        Option.bind (collect_command_nodes [root_node t] []) (\<lambda>command_nodes.
          those (map parse_plain_command_from_node (sort_key start_byte command_nodes))))"

definition parse_shell_script_into_commands :: "(str \<Rightarrow> tree option) \<Rightarrow> str \<Rightarrow> str list list option" where
  "parse_shell_script_into_commands parse script = Option.bind (parse script) try_parse_word_only_commands_sequence"

definition extract_bash_command :: "str list \<Rightarrow> (str \<times> str) option" where
  "extract_bash_command command =
     (case command of
        [shell, flag, script] \<Rightarrow>
          if (flag = ''-lc'' \<or> flag = ''-c'') \<and> detect_shell_type shell \<in> {Some Zsh, Some Bash, Some Sh}
          then Some (shell, script) else None
      | _ \<Rightarrow> None)"

definition parse_shell_lc_plain_commands :: "(str \<Rightarrow> tree option) \<Rightarrow> str list \<Rightarrow> str list list option" where
  "parse_shell_lc_plain_commands parse command =
     Option.bind (extract_bash_command command) (\<lambda>(_, script). parse_shell_script_into_commands parse script)"

section \<open>Literal commands\<close>

function parse_literal_shell_word :: "node \<Rightarrow> str option" where
  "parse_literal_shell_word n =
     (if (kind n = ''word'' \<or> kind n = ''number'') \<and> is_literal_word_or_number n then utf8_text n
      else if kind n = ''string'' then parse_double_quoted_string n
      else if kind n = ''raw_string'' then parse_raw_string n
      else if kind n = ''concatenation'' then
        Option.bind (those (map parse_literal_shell_word (named_children n))) (\<lambda>parts. non_empty (concat parts))
      else None)"
  by pat_completeness auto

termination
  by (relation "measure size") (auto simp: named_children_size)

declare parse_literal_shell_word.simps [simp del]

fun literal_command_words :: "bool \<Rightarrow> str list \<Rightarrow> node list \<Rightarrow> str list option" where
  "literal_command_words found words [] = (if found then Some words else None)"
| "literal_command_words found words (child # cs) =
     (if kind child = ''command_name'' then
        (case named_children child of
           [] \<Rightarrow> None
         | n # _ \<Rightarrow>
             (case parse_literal_shell_word n of
                None \<Rightarrow> None
              | Some w \<Rightarrow> literal_command_words True (words @ [w]) cs))
      else
        (case parse_literal_shell_word child of
           Some w \<Rightarrow> literal_command_words found (if found then words @ [w] else words) cs
         | None \<Rightarrow> literal_command_words found words cs))"

definition parse_literal_command_from_node :: "node \<Rightarrow> str list option" where
  "parse_literal_command_from_node cmd =
     (if kind cmd \<noteq> ''command'' then None else literal_command_words False [] (named_children cmd))"

function collect_literal_commands :: "node list \<Rightarrow> str list list \<Rightarrow> str list list" where
  "collect_literal_commands [] commands = commands"
| "collect_literal_commands (n # stack) commands =
     collect_literal_commands (rev (named_children n) @ stack)
       (case parse_literal_command_from_node n of Some c \<Rightarrow> commands @ [c] | None \<Rightarrow> commands)"
  by pat_completeness auto

termination
  by (relation "measure (\<lambda>(stack, _). size_list size stack)") (auto simp: size_list_named_children less_SucI)

definition parse_shell_lc_literal_commands :: "(str \<Rightarrow> tree option) \<Rightarrow> str list \<Rightarrow> str list list option" where
  "parse_shell_lc_literal_commands parse command =
     Option.bind (extract_bash_command command) (\<lambda>(_, script).
     Option.bind (parse script) (\<lambda>t. if has_error t then None else Some (collect_literal_commands [root_node t] [])))"

section \<open>The two readings agree\<close>

fun nodes :: "node \<Rightarrow> node list" where
  "nodes (Node k nm sb tx cs) = Node k nm sb tx cs # concat (map nodes cs)"

lemma nodes_unfold: "nodes n = n # concat (map nodes (children n))"
  by (cases n) simp

lemma nodes_self [simp]: "n \<in> set (nodes n)"
  by (simp add: nodes_unfold [of n])

lemma nodes_child: "m \<in> set (children n) \<Longrightarrow> x \<in> set (nodes m) \<Longrightarrow> x \<in> set (nodes n)"
  by (auto simp: nodes_unfold [of n])

lemma nodes_trans: "m \<in> set (nodes n) \<Longrightarrow> x \<in> set (nodes m) \<Longrightarrow> x \<in> set (nodes n)"
  by (induction n rule: nodes.induct) auto

abbreviation forest :: "node list \<Rightarrow> node set" where
  "forest ns \<equiv> (\<Union>n \<in> set ns. set (nodes n))"

lemma forest_step: "forest (n # stack) = insert n (forest (rev (children n) @ stack))"
  by (auto simp: nodes_unfold [of n])

lemma collect_command_nodes_spec:
  "collect_command_nodes stack acc = Some r \<Longrightarrow>
     (\<forall>m \<in> forest stack. \<not> rejected m) \<and> set r = set acc \<union> {m \<in> forest stack. is_named m \<and> kind m = ''command''}"
proof (induction stack acc rule: collect_command_nodes.induct)
  case (2 n stack acc)
  let ?acc = "if is_named n \<and> kind n = ''command'' then acc @ [n] else acc"
  have n: "\<not> rejected n" and "collect_command_nodes (rev (children n) @ stack) ?acc = Some r"
    using 2(2) by (auto split: if_splits)
  then show ?case using 2(1) [OF n] unfolding forest_step by auto
qed simp

text \<open>What the bash grammar promises of a tree: tokens have no children, and the name of a command comes first.\<close>

definition plain_kind :: "node \<Rightarrow> bool" where
  "plain_kind n \<longleftrightarrow> kind n \<in> set [''command_name'', ''word'', ''number'', ''string'', ''raw_string'', ''concatenation'']"

definition bash_tree_ok :: "node \<Rightarrow> bool" where
  "bash_tree_ok n \<longleftrightarrow> is_named n
     \<and> list_all (\<lambda>m. (is_named m \<or> children m = [])
         \<and> (kind m = ''command'' \<longrightarrow>
              (case filter plain_kind (named_children m) of [] \<Rightarrow> False | c # _ \<Rightarrow> kind c = ''command_name''))) (nodes n)"

lemma bash_tree_ok_command:
  assumes "bash_tree_ok r" "n \<in> set (nodes r)" "kind n = ''command''"
  shows "\<exists>c cs. filter plain_kind (named_children n) = c # cs \<and> kind c = ''command_name''"
proof -
  have "case filter plain_kind (named_children n) of [] \<Rightarrow> False | c # _ \<Rightarrow> kind c = ''command_name''"
    using assms unfolding bash_tree_ok_def list_all_iff by blast
  then show ?thesis by (cases "filter plain_kind (named_children n)") auto
qed

lemma collect_literal_commands_mono: "set commands \<subseteq> set (collect_literal_commands stack commands)"
proof (induction stack commands rule: collect_literal_commands.induct)
  case (2 n stack commands)
  then show ?case by (cases "parse_literal_command_from_node n") auto
qed simp

lemma collect_literal_commands_complete:
  "\<forall>x \<in> forest stack. is_named x \<or> children x = [] \<Longrightarrow> m \<in> forest stack \<Longrightarrow> is_named m \<Longrightarrow>
     parse_literal_command_from_node m = Some c \<Longrightarrow> c \<in> set (collect_literal_commands stack commands)"
proof (induction stack commands rule: collect_literal_commands.induct)
  case (2 n stack commands)
  let ?stack = "rev (named_children n) @ stack"
  let ?cs = "case parse_literal_command_from_node n of Some c \<Rightarrow> commands @ [c] | None \<Rightarrow> commands"
  show ?case
  proof (cases "m = n")
    case True
    then have "c \<in> set ?cs" using 2(5) by simp
    then show ?thesis using collect_literal_commands_mono [of ?cs ?stack] by auto
  next
    case False
    have "x \<in> forest ?stack" if "x \<in> set (nodes y)" "y \<in> set (children n)" "is_named x" for x y
    proof (cases "is_named y")
      case True
      then show ?thesis using that by (auto simp: named_children_def)
    next
      case False
      then have "children y = []" using 2(2) nodes_child [OF that(2) nodes_self] by auto
      then show ?thesis using that False by (simp add: nodes_unfold [of y])
    qed
    then have "m \<in> forest ?stack" using False 2(3,4) by (auto simp: nodes_unfold [of n])
    moreover have "\<forall>x \<in> forest ?stack. is_named x \<or> children x = []"
      using 2(2) by (auto simp: nodes_unfold [of n] named_children_def)
    ultimately show ?thesis using 2(1,4,5) by simp
  qed
qed simp

lemma list_all2_left: "list_all2 P xs ys \<Longrightarrow> x \<in> set xs \<Longrightarrow> \<exists>y \<in> set ys. P x y"
  by (induction rule: list_all2_induct) auto

lemma list_all2_right: "list_all2 P xs ys \<Longrightarrow> y \<in> set ys \<Longrightarrow> \<exists>x \<in> set xs. P x y"
  by (induction rule: list_all2_induct) auto

lemma those_map_Some_iff: "those (map f xs) = Some ys \<longleftrightarrow> list_all2 (\<lambda>x y. f x = Some y) xs ys"
  by (induction xs arbitrary: ys) (auto simp: list_all2_Cons1 split: option.splits)

lemma plain_part_literal:
  assumes "plain_part n = Some w" "\<not> rejected n" "is_named n"
  shows "parse_literal_shell_word n = Some w"
  using assms by (auto simp: parse_literal_shell_word.simps [of n] plain_part_def rejected_def split: if_splits)

lemma plain_word_literal:
  assumes "plain_word n = Some w" "kind n \<noteq> ''command_name''" "\<forall>m \<in> set (nodes n). \<not> rejected m" "is_named n"
  shows "parse_literal_shell_word n = Some w"
proof (cases "kind n = ''concatenation''")
  case True
  then obtain parts where parts: "list_all2 (\<lambda>x y. plain_part x = Some y) (named_children n) parts"
      and w: "non_empty (concat parts) = Some w"
    using assms(1) by (auto simp: plain_word_def those_map_Some_iff Option.bind_eq_Some_conv)
  have "list_all2 (\<lambda>x y. parse_literal_shell_word x = Some y) (named_children n) parts"
  proof (rule list.rel_mono_strong [OF parts])
    fix x y
    assume "x \<in> set (named_children n)" "plain_part x = Some y"
    moreover from this have "\<not> rejected x" "is_named x"
      using assms(3) nodes_child [OF _ nodes_self, of x n] by (auto simp: named_children_def)
    ultimately show "parse_literal_shell_word x = Some y" by (simp add: plain_part_literal)
  qed
  then have "those (map parse_literal_shell_word (named_children n)) = Some parts" by (simp add: those_map_Some_iff)
  then show ?thesis using True w by (simp add: parse_literal_shell_word.simps [of n] Option.bind_eq_Some_conv)
next
  case False
  then show ?thesis using assms by (auto simp: plain_word_def intro!: plain_part_literal)
qed


lemma plain_word_kind: "plain_word n = Some w \<Longrightarrow> plain_kind n"
  by (auto simp: plain_word_def plain_part_def plain_kind_def split: if_splits)

lemma command_name_literal:
  assumes "plain_word n = Some w" "kind n = ''command_name''" "\<forall>m \<in> set (nodes n). \<not> rejected m"
  shows "\<exists>x xs. named_children n = x # xs \<and> parse_literal_shell_word x = Some w"
proof -
  obtain x xs where x: "named_children n = x # xs" "kind x = ''word''" "utf8_text x = Some w"
    using assms(1,2) by (auto simp: plain_word_def split: list.splits if_splits)
  then have "x \<in> set (children n)" "is_named x" by (auto simp: named_children_def filter_eq_Cons_iff)
  then have "\<not> rejected x" using assms(3) nodes_child [OF _ nodes_self, of x n] by auto
  then have "parse_literal_shell_word x = Some w"
    using x \<open>is_named x\<close> by (auto simp: parse_literal_shell_word.simps [of x] rejected_def)
  then show ?thesis using x(1) by blast
qed

lemma literal_command_words_plain:
  "list_all2 (\<lambda>x y. plain_word x = Some y) cs ws \<Longrightarrow> \<forall>c \<in> set cs. is_named c \<and> (\<forall>m \<in> set (nodes c). \<not> rejected m) \<Longrightarrow>
     literal_command_words True words cs = Some (words @ ws)"
proof (induction arbitrary: words rule: list_all2_induct)
  case (Cons c cs w ws)
  show ?case
  proof (cases "kind c = ''command_name''")
    case True
    then show ?thesis using Cons command_name_literal [OF Cons(1) True] by fastforce
  next
    case False
    then have "parse_literal_shell_word c = Some w" using Cons by (intro plain_word_literal) auto
    then show ?thesis using Cons False by simp
  qed
qed simp

lemma parse_plain_command_literal:
  assumes "parse_plain_command_from_node n = Some ws" "\<forall>m \<in> set (nodes n). \<not> rejected m" "bash_tree_ok r" "n \<in> set (nodes r)"
  shows "parse_literal_command_from_node n = Some ws"
proof -
  have n: "kind n = ''command''" and all: "list_all2 (\<lambda>x y. plain_word x = Some y) (named_children n) ws"
    using assms(1) by (auto simp: parse_plain_command_from_node_def those_map_Some_iff split: if_splits)
  have "filter plain_kind (named_children n) = named_children n"
    using list_all2_left [OF all] plain_word_kind by (auto simp: filter_id_conv)
  then obtain c cs where c: "named_children n = c # cs" "kind c = ''command_name''"
    using bash_tree_ok_command [OF assms(3,4) n] by auto
  obtain w ws' where ws: "ws = w # ws'" "plain_word c = Some w" "list_all2 (\<lambda>x y. plain_word x = Some y) cs ws'"
    using all c(1) by (auto simp: list_all2_Cons1)
  have sub: "\<forall>c \<in> set (named_children n). is_named c \<and> (\<forall>m \<in> set (nodes c). \<not> rejected m)"
    using assms(2) nodes_child [of _ n] by (auto simp: named_children_def)
  obtain x xs where "named_children c = x # xs" "parse_literal_shell_word x = Some w"
    using command_name_literal [OF ws(2) c(2)] sub c(1) by auto
  then have "literal_command_words False [] (named_children n) = literal_command_words True [w] cs"
    using c by simp
  then show ?thesis
    using literal_command_words_plain [OF ws(3), of "[w]"] sub c(1) n ws(1)
    by (simp add: parse_literal_command_from_node_def)
qed

text \<open>C21: Every command that the policy reads from a script of plain words is among the literal commands that are
  searched for danger: nothing that is decided on escapes the search.\<close>

theorem plain_commands_are_literal:
  assumes "\<forall>script t. parse script = Some t \<longrightarrow> bash_tree_ok (root_node t)"
    and "parse_shell_lc_plain_commands parse command = Some cmds"
  shows "\<exists>literal. parse_shell_lc_literal_commands parse command = Some literal \<and> set cmds \<subseteq> set literal"
proof -
  obtain shell script t where s: "extract_bash_command command = Some (shell, script)" "parse script = Some t"
      and ok: "\<not> has_error t"
      and "try_parse_word_only_commands_sequence t = Some cmds"
    using assms(2)
    by (auto simp: parse_shell_lc_plain_commands_def parse_shell_script_into_commands_def Option.bind_eq_Some_conv
        try_parse_word_only_commands_sequence_def split: if_splits)
  then obtain ns where ns: "collect_command_nodes [root_node t] [] = Some ns"
      and cmds: "list_all2 (\<lambda>x y. parse_plain_command_from_node x = Some y) (sort_key start_byte ns) cmds"
    by (auto simp: try_parse_word_only_commands_sequence_def Option.bind_eq_Some_conv those_map_Some_iff)
  let ?lit = "collect_literal_commands [root_node t] []"
  have tree: "bash_tree_ok (root_node t)" using assms(1) s(2) by blast
  then have leaves: "\<forall>x \<in> forest [root_node t]. is_named x \<or> children x = []"
    by (auto simp: bash_tree_ok_def list_all_iff)
  have spec: "\<forall>m \<in> forest [root_node t]. \<not> rejected m"
    "set ns = {m \<in> forest [root_node t]. is_named m \<and> kind m = ''command''}"
    using collect_command_nodes_spec [OF ns] by auto
  have "c \<in> set ?lit" if c: "c \<in> set cmds" for c
  proof -
    obtain n where "n \<in> set (sort_key start_byte ns)" and n: "parse_plain_command_from_node n = Some c"
      using list_all2_right [OF cmds c] by blast
    then have m: "n \<in> set (nodes (root_node t))" "is_named n" using spec(2) by auto
    then have "\<forall>m \<in> set (nodes n). \<not> rejected m" using spec(1) nodes_trans [OF m(1)] by auto
    then have "parse_literal_command_from_node n = Some c"
      by (rule parse_plain_command_literal [OF n _ tree m(1)])
    then show ?thesis using collect_literal_commands_complete [OF leaves, of n c] m by auto
  qed
  then have "set cmds \<subseteq> set ?lit" by blast
  then show ?thesis using s ok by (auto simp: parse_shell_lc_literal_commands_def)
qed

text \<open>The script \<open>ls -1; pwd\<close> as tree-sitter parses it.\<close>

definition word_node :: "nat \<Rightarrow> str \<Rightarrow> node" where
  "word_node i w = Node ''word'' True i (Some w) []"

definition command_node :: "nat \<Rightarrow> str \<Rightarrow> node list \<Rightarrow> node" where
  "command_node i w args = Node ''command'' True i None (Node ''command_name'' True i (Some w) [word_node i w] # args)"

definition sample_parse :: "str \<Rightarrow> tree option" where
  "sample_parse script =
     (if script = ''ls -1; pwd''
      then Some \<lparr>root_node = Node ''program'' True 0 (Some script)
             [command_node 0 ''ls'' [word_node 3 ''-1''], Node '';'' False 5 (Some '';'') [], command_node 7 ''pwd'' []],
           has_error = False\<rparr>
      else None)"

lemma sample_parse_ok: "\<forall>script t. sample_parse script = Some t \<longrightarrow> bash_tree_ok (root_node t)"
  by (auto simp: sample_parse_def bash_tree_ok_def command_node_def word_node_def named_children_def plain_kind_def
      split: if_splits)

lemma sample_parse_plain:
  "parse_shell_lc_plain_commands sample_parse [''bash'', ''-lc'', ''ls -1; pwd''] = Some [[''ls'', ''-1''], [''pwd'']]"
  by code_simp

theorem plain_commands_are_literal_witness:
  "\<exists>literal. parse_shell_lc_literal_commands sample_parse [''bash'', ''-lc'', ''ls -1; pwd''] = Some literal
     \<and> {[''ls'', ''-1''], [''pwd'']} \<subseteq> set literal"
  using plain_commands_are_literal [OF sample_parse_ok sample_parse_plain] by simp


end
