(* ===== verification/Dangerous_Command.thy ===== *)
theory Dangerous_Command
  imports Shell_Bash
begin

text \<open>
  The search for dangerous commands (\<open>codex-rs/shell-command/src/command_safety/is_dangerous_command.rs\<close>, Unix build):
  \<open>rm\<close> with the force option, also behind \<open>sudo\<close>, \<open>env\<close>, \<open>trap\<close> and shell scripts.  The search gives up at a nesting
  depth of 8 and then calls the command dangerous.
\<close>

datatype danger_kind = ForcedRm | OtherDanger

definition MAX_DANGEROUS_COMMAND_WRAPPER_DEPTH :: nat where
  "MAX_DANGEROUS_COMMAND_WRAPPER_DEPTH = 8"

text \<open>\<open>Iterator::find_map\<close>.\<close>

fun find_map :: "('a \<Rightarrow> 'b option) \<Rightarrow> 'a list \<Rightarrow> 'b option" where
  "find_map f [] = None"
| "find_map f (x # xs) = (case f x of Some y \<Rightarrow> Some y | None \<Rightarrow> find_map f xs)"

lemma find_map_cong [fundef_cong]:
  "xs = ys \<Longrightarrow> (\<And>x. x \<in> set ys \<Longrightarrow> f x = g x) \<Longrightarrow> find_map f xs = find_map g ys"
  by (induction ys arbitrary: xs) (auto split: option.splits)

lemma find_map_None_iff: "find_map f xs = None \<longleftrightarrow> (\<forall>x \<in> set xs. f x = None)"
  by (induction xs) (auto split: option.splits)

lemma find_map_Some: "find_map f xs = Some y \<Longrightarrow> \<exists>x \<in> set xs. f x = Some y"
  by (induction xs) (auto split: option.splits)

definition executable_name_lookup_key :: "str \<Rightarrow> str option" where
  "executable_name_lookup_key raw = path_file_name (path_components raw)"

definition rm_args_include_force_option :: "str list \<Rightarrow> bool" where
  "rm_args_include_force_option args =
     list_ex (\<lambda>arg. arg = ''--force''
       \<or> (case strip_prefix ''-'' arg of Some flags \<Rightarrow> \<not> starts_with flags ''-'' \<and> CHR ''f'' \<in> set flags | None \<Rightarrow> False))
       (takeWhile (\<lambda>arg. arg \<noteq> ''--'') args)"

definition env_option :: "str \<Rightarrow> bool" where
  "env_option a \<longleftrightarrow> a = ''-i'' \<or> a = ''--ignore-environment''
     \<or> (case split_once (CHR ''='') a of Some (name, _) \<Rightarrow> name \<noteq> [] \<and> \<not> starts_with name ''-'' | None \<Rightarrow> False)"

fun env_command :: "str list \<Rightarrow> str list" where
  "env_command [] = []"
| "env_command (a # args) = (if a = ''--'' then args else if env_option a then env_command args else a # args)"

definition trap_action :: "str list \<Rightarrow> str option" where
  "trap_action args =
     (case (if args \<noteq> [] \<and> hd args = ''--'' then tl args else args) of
        [] \<Rightarrow> None
      | action # _ \<Rightarrow> if starts_with action ''-'' then None else Some action)"

function dangerous_command_match_with_depth ::
    "(str \<Rightarrow> tree option) \<Rightarrow> str list \<Rightarrow> nat \<Rightarrow> danger_kind option"
  and dangerous_command_match_for_exec ::
    "(str \<Rightarrow> tree option) \<Rightarrow> str list \<Rightarrow> nat \<Rightarrow> danger_kind option"
  and dangerous_command_match_for_env ::
    "(str \<Rightarrow> tree option) \<Rightarrow> str list \<Rightarrow> nat \<Rightarrow> danger_kind option"
  and dangerous_command_match_for_trap ::
    "(str \<Rightarrow> tree option) \<Rightarrow> str list \<Rightarrow> nat \<Rightarrow> danger_kind option" where
  "dangerous_command_match_with_depth parse command depth =
     (if depth > MAX_DANGEROUS_COMMAND_WRAPPER_DEPTH then Some OtherDanger
      else
        (case dangerous_command_match_for_exec parse command depth of
           Some m \<Rightarrow> Some m
         | None \<Rightarrow>
             (case parse_shell_lc_literal_commands parse command of
                None \<Rightarrow> None
              | Some commands \<Rightarrow> find_map (\<lambda>c. dangerous_command_match_with_depth parse c (depth + 1)) commands)))"
| "dangerous_command_match_for_exec parse command depth =
     (case command of
        [] \<Rightarrow> None
      | arg0 # args \<Rightarrow>
          (case executable_name_lookup_key arg0 of
             None \<Rightarrow> None
           | Some name \<Rightarrow>
               if name = ''rm'' \<and> rm_args_include_force_option args then Some ForcedRm
               else if name = ''sudo'' then dangerous_command_match_with_depth parse args (depth + 1)
               else if name = ''env'' then dangerous_command_match_for_env parse command depth
               else if name = ''trap'' then dangerous_command_match_for_trap parse command depth
               else None))"
| "dangerous_command_match_for_env parse command depth =
     dangerous_command_match_with_depth parse (env_command (drop 1 command)) (depth + 1)"
| "dangerous_command_match_for_trap parse command depth =
     (case trap_action (drop 1 command) of
        None \<Rightarrow> None
      | Some action \<Rightarrow> dangerous_command_match_with_depth parse [''sh'', ''-c'', action] (depth + 1))"
  by pat_completeness auto

termination
  by (relation "measure (\<lambda>x. case x of
        Inl (Inl (_, _, d)) \<Rightarrow> 4 * (9 - d)
      | Inl (Inr (_, _, d)) \<Rightarrow> 4 * (8 - d) + 3
      | Inr (Inl (_, _, d)) \<Rightarrow> 4 * (8 - d) + 2
      | Inr (Inr (_, _, d)) \<Rightarrow> 4 * (8 - d) + 2)")
    (auto simp: MAX_DANGEROUS_COMMAND_WRAPPER_DEPTH_def)

declare dangerous_command_match_with_depth.simps [simp del] dangerous_command_match_for_exec.simps [simp del]
  dangerous_command_match_for_env.simps [simp del] dangerous_command_match_for_trap.simps [simp del]

lemmas dangerous_unfold = dangerous_command_match_for_exec.simps dangerous_command_match_for_env.simps
  dangerous_command_match_for_trap.simps

definition dangerous_command_match :: "(str \<Rightarrow> tree option) \<Rightarrow> str list \<Rightarrow> danger_kind option" where
  "dangerous_command_match parse command = dangerous_command_match_with_depth parse command 0"

section \<open>What a command may run\<close>

text \<open>The command is itself a forced removal; or it is a wrapper around another command.\<close>

definition forced_rm :: "str list \<Rightarrow> bool" where
  "forced_rm command \<longleftrightarrow>
     (case command of [] \<Rightarrow> False
      | arg0 # args \<Rightarrow> executable_name_lookup_key arg0 = Some ''rm'' \<and> rm_args_include_force_option args)"

inductive wraps :: "(str \<Rightarrow> tree option) \<Rightarrow> str list \<Rightarrow> str list \<Rightarrow> bool" for parse where
  sudo: "executable_name_lookup_key arg0 = Some ''sudo'' \<Longrightarrow> wraps parse (arg0 # args) args"
| env: "executable_name_lookup_key arg0 = Some ''env'' \<Longrightarrow> wraps parse (arg0 # args) (env_command args)"
| trap: "executable_name_lookup_key arg0 = Some ''trap'' \<Longrightarrow> trap_action args = Some action \<Longrightarrow>
    wraps parse (arg0 # args) [''sh'', ''-c'', action]"
| script: "parse_shell_lc_literal_commands parse command = Some commands \<Longrightarrow> c \<in> set commands \<Longrightarrow> wraps parse command c"

inductive_cases wraps_elim: "wraps parse command c"

lemma dangerous_for_exec_iff:
  "dangerous_command_match_for_exec parse command d \<noteq> None \<longleftrightarrow>
     forced_rm command
     \<or> (\<exists>arg0 args. command = arg0 # args \<and>
         (executable_name_lookup_key arg0 = Some ''sudo'' \<and> dangerous_command_match_with_depth parse args (d + 1) \<noteq> None
          \<or> executable_name_lookup_key arg0 = Some ''env''
            \<and> dangerous_command_match_with_depth parse (env_command args) (d + 1) \<noteq> None
          \<or> executable_name_lookup_key arg0 = Some ''trap'' \<and> (\<exists>action. trap_action args = Some action
            \<and> dangerous_command_match_with_depth parse [''sh'', ''-c'', action] (d + 1) \<noteq> None)))"
  by (cases command) (auto simp: dangerous_unfold forced_rm_def split: option.splits if_splits)

text \<open>One step of the search.\<close>

lemma dangerous_step:
  "dangerous_command_match_with_depth parse command d \<noteq> None \<longleftrightarrow>
     8 < d \<or> forced_rm command \<or> (\<exists>c. wraps parse command c \<and> dangerous_command_match_with_depth parse c (d + 1) \<noteq> None)"
  (is "?lhs \<longleftrightarrow> ?rhs")
proof
  assume ?lhs
  then show ?rhs
    using dangerous_for_exec_iff [of parse command d]
    by (auto simp: dangerous_command_match_with_depth.simps [of parse command] MAX_DANGEROUS_COMMAND_WRAPPER_DEPTH_def
        split: option.splits if_splits dest!: find_map_Some intro: wraps.intros)
next
  assume ?rhs
  then show ?lhs
    using dangerous_for_exec_iff [of parse command d]
    by (auto simp: dangerous_command_match_with_depth.simps [of parse command] MAX_DANGEROUS_COMMAND_WRAPPER_DEPTH_def
        find_map_None_iff split: option.splits elim!: wraps_elim)
qed

text \<open>A forced removal behind wrappers is found at every depth, because the search fails closed.\<close>

lemma forced_rm_dangerous:
  assumes "(wraps parse)\<^sup>*\<^sup>* command c" "forced_rm c"
  shows "dangerous_command_match parse command \<noteq> None"
proof -
  have "dangerous_command_match_with_depth parse command d \<noteq> None" for d
    using assms
  proof (induction arbitrary: d rule: converse_rtranclp_induct)
    case base
    then show ?case using dangerous_step [of parse c d] by blast
  next
    case (step x y)
    then show ?case using dangerous_step [of parse x d] by blast
  qed
  then show ?thesis by (simp add: dangerous_command_match_def)
qed

lemma relpowp_Suc_left: "((R :: 'a \<Rightarrow> 'a \<Rightarrow> bool) ^^ Suc n) x z \<longleftrightarrow> (\<exists>y. R x y \<and> (R ^^ n) y z)"
  by (metis relpowp_Suc_D2 relpowp_Suc_I2)

lemma dangerous_within_depth:
  "d + n = 9 \<Longrightarrow> dangerous_command_match_with_depth parse command d \<noteq> None \<longleftrightarrow>
     (\<exists>k c. k < n \<and> (wraps parse ^^ k) command c \<and> forced_rm c) \<or> (\<exists>c. (wraps parse ^^ n) command c)"
proof (induction n arbitrary: d command)
  case 0
  then show ?case using dangerous_step [of parse command d] by simp
next
  case (Suc n)
  let ?danger = "\<lambda>c. (\<exists>k c'. k < n \<and> (wraps parse ^^ k) c c' \<and> forced_rm c') \<or> (\<exists>c'. (wraps parse ^^ n) c c')"
  have "dangerous_command_match_with_depth parse c (d + 1) \<noteq> None \<longleftrightarrow> ?danger c" for c
    using Suc.IH [of "d + 1" c] Suc.prems by simp
  then have "dangerous_command_match_with_depth parse command d \<noteq> None \<longleftrightarrow>
      forced_rm command \<or> (\<exists>c. wraps parse command c \<and> ?danger c)"
    using dangerous_step [of parse command d] Suc.prems by auto
  moreover have "(\<exists>k c. k < Suc n \<and> (wraps parse ^^ k) command c \<and> forced_rm c) \<longleftrightarrow>
      forced_rm command \<or> (\<exists>k c. k < n \<and> (wraps parse ^^ Suc k) command c \<and> forced_rm c)"
    by (metis (no_types, lifting) less_Suc_eq_0_disj relpowp_0_E relpowp_0_I)
  ultimately show ?case unfolding relpowp_Suc_left by blast
qed

lemma relpowp_prefix: "((R :: 'a \<Rightarrow> 'a \<Rightarrow> bool) ^^ n) x z \<Longrightarrow> m \<le> n \<Longrightarrow> \<exists>y. (R ^^ m) x y"
  using relpowp_add [of m "n - m" R] by auto

text \<open>C19: The search is exact up to its depth: a command is dangerous if and only if it runs a forced removal, directly or
  through any number of wrappers, or is nested in more than eight wrappers.\<close>

theorem dangerous_command_match_iff:
  "dangerous_command_match parse command \<noteq> None \<longleftrightarrow>
     (\<exists>c. (wraps parse)\<^sup>*\<^sup>* command c \<and> forced_rm c) \<or> (\<exists>c. (wraps parse ^^ 9) command c)"
proof -
  have "(\<exists>c. (wraps parse)\<^sup>*\<^sup>* command c \<and> forced_rm c) \<longleftrightarrow>
      (\<exists>k c. (wraps parse ^^ k) command c \<and> forced_rm c)" by (auto simp: rtranclp_power)
  moreover have "\<exists>c. (wraps parse ^^ 9) command c" if "(wraps parse ^^ k) command c" "\<not> k < 9" for k c
    using relpowp_prefix [OF that(1), of 9] that(2) by simp
  moreover have "dangerous_command_match parse command \<noteq> None \<longleftrightarrow>
      (\<exists>k c. k < 9 \<and> (wraps parse ^^ k) command c \<and> forced_rm c) \<or> (\<exists>c. (wraps parse ^^ 9) command c)"
    unfolding dangerous_command_match_def by (rule dangerous_within_depth) simp
  ultimately show ?thesis by blast
qed


end
