(* ===== verification/Fs_Policy.thy ===== *)
theory Fs_Policy
  imports Absolute_Path "HOL-Library.Product_Lexorder"
begin

text \<open>
  File-system permission policies (\<open>codex-rs/protocol/src/permissions.rs\<close>, Unix build): the entries of a policy, how an
  entry is resolved to a directory, and the decision which access a path has.

  A \<open>Path\<close> is its list of components.  What the code asks of the process and of the disk is the record \<open>fs_host\<close>: the home
  and current directories, \<open>TMPDIR\<close>, \<open>is_dir\<close>, \<open>is_file\<close>, \<open>exists\<close>, \<open>symlink_metadata\<close>, \<open>canonicalize\<close> and
  \<open>read_to_string\<close>.  A \<open>PathUri\<close> wraps the \<open>Url\<close> of a third-party crate: it is the type variable \<open>'u\<close> with the two conversions
  the policy code uses, its \<open>PartialEq\<close> is equality on \<open>'u\<close>.
\<close>

section \<open>The host\<close>

record ('u, 'e) fs_host =
  host_home :: "path option"
  host_current_dir :: "'e + path"
  host_tmpdir :: "str option"
  host_is_dir :: "path \<Rightarrow> bool"
  host_is_file :: "path \<Rightarrow> bool"
  host_exists :: "path \<Rightarrow> bool"
  host_symlink_metadata :: "path \<Rightarrow> bool option"
  host_canonicalize :: "path \<Rightarrow> 'e + path"
  host_read_to_string :: "path \<Rightarrow> 'e + str"
  uri_to_abs_path :: "'u \<Rightarrow> 'e + path"
  uri_from_abs_path :: "path \<Rightarrow> 'u"

text \<open>\<open>AbsolutePathBuf::from_absolute_path\<close> and \<open>AbsolutePathBuf::join\<close> of a \<open>Path\<close>.\<close>

definition abs_from_path :: "('u, 'e) fs_host \<Rightarrow> path \<Rightarrow> 'e + path" where
  "abs_from_path H p = absolutize (host_current_dir H) (expand_home (host_home H) p)"

definition abs_join :: "('u, 'e) fs_host \<Rightarrow> path \<Rightarrow> path \<Rightarrow> path" where
  "abs_join H base p = absolutize_from (expand_home (host_home H) p) base"

text \<open>\<open>AbsolutePathBuf::join\<close> and \<open>resolve_path_against_base\<close> of a text.\<close>

abbreviation abs_resolve :: "('u, 'e) fs_host \<Rightarrow> str \<Rightarrow> path \<Rightarrow> path" where
  "abs_resolve H s base \<equiv> resolve_path_against_base (host_home H) s base"

section \<open>Access modes\<close>

datatype access_mode = Read | Write | Deny

text \<open>The derived order is the precedence in a conflict: \<open>Deny\<close> beats \<open>Write\<close>, \<open>Write\<close> beats \<open>Read\<close>.\<close>

fun access_rank :: "access_mode \<Rightarrow> nat" where
  "access_rank Read = 0"
| "access_rank Write = 1"
| "access_rank Deny = 2"

lemma access_rank_inject [simp]: "access_rank a = access_rank b \<longleftrightarrow> a = b"
  by (cases a; cases b) auto

instantiation access_mode :: linorder
begin

definition less_eq_access_mode :: "access_mode \<Rightarrow> access_mode \<Rightarrow> bool" where
  "less_eq_access_mode a b \<longleftrightarrow> access_rank a \<le> access_rank b"

definition less_access_mode :: "access_mode \<Rightarrow> access_mode \<Rightarrow> bool" where
  "less_access_mode a b \<longleftrightarrow> access_rank a < access_rank b"

instance
  by standard (auto simp: less_eq_access_mode_def less_access_mode_def)

end

definition can_read :: "access_mode \<Rightarrow> bool" where
  "can_read a \<longleftrightarrow> a \<noteq> Deny"

definition can_write :: "access_mode \<Rightarrow> bool" where
  "can_write a \<longleftrightarrow> a = Write"

section \<open>Policies\<close>

datatype special_path =
    SpecialRoot
  | SpecialMinimal
  | ProjectRoots (project_subpath: "str option")
  | SpecialTmpdir
  | SlashTmp
  | UnknownSpecial str "str option"

datatype 'u fs_path =
    PathEntry 'u
  | GlobPattern str
  | SpecialEntry special_path

datatype missing_path_behavior = MissingSkip

record 'u fs_entry =
  entry_path :: "'u fs_path"
  entry_access :: access_mode
  missing_behavior :: "missing_path_behavior option"

definition entry_new :: "'u fs_path \<Rightarrow> access_mode \<Rightarrow> 'u fs_entry" where
  "entry_new p a = \<lparr>entry_path = p, entry_access = a, missing_behavior = None\<rparr>"

definition entry_skip_missing_path :: "'u fs_path \<Rightarrow> access_mode \<Rightarrow> 'u fs_entry" where
  "entry_skip_missing_path p a = \<lparr>entry_path = p, entry_access = a, missing_behavior = Some MissingSkip\<rparr>"

definition skips_missing_path :: "'u fs_entry \<Rightarrow> bool" where
  "skips_missing_path e \<longleftrightarrow> missing_behavior e = Some MissingSkip"

datatype fs_sandbox_kind = FsRestricted | FsUnrestricted | FsExternalSandbox

record 'e fs_sandbox_policy =
  fs_kind :: fs_sandbox_kind
  glob_scan_max_depth :: "nat option"
  fs_entries :: "'e list"

type_synonym 'u fs_policy = "'u fs_entry fs_sandbox_policy"

definition fs_unrestricted :: "'e fs_sandbox_policy" where
  "fs_unrestricted = \<lparr>fs_kind = FsUnrestricted, glob_scan_max_depth = None, fs_entries = []\<rparr>"

definition fs_external_sandbox :: "'e fs_sandbox_policy" where
  "fs_external_sandbox = \<lparr>fs_kind = FsExternalSandbox, glob_scan_max_depth = None, fs_entries = []\<rparr>"

definition fs_restricted :: "'e list \<Rightarrow> 'e fs_sandbox_policy" where
  "fs_restricted entries = \<lparr>fs_kind = FsRestricted, glob_scan_max_depth = None, fs_entries = entries\<rparr>"

definition read_only_file_system_entries :: "'u fs_entry list" where
  "read_only_file_system_entries = [entry_new (SpecialEntry SpecialRoot) Read]"

definition fs_read_only :: "'u fs_policy" where
  "fs_read_only = fs_restricted read_only_file_system_entries"

definition remove_skip_missing_path_entries :: "'u fs_policy \<Rightarrow> 'u fs_policy" where
  "remove_skip_missing_path_entries P = P\<lparr>fs_entries := filter (\<lambda>e. \<not> skips_missing_path e) (fs_entries P)\<rparr>"

section \<open>Resolution of entries\<close>

definition absolute_root_path_for_cwd :: "('u, 'e) fs_host \<Rightarrow> path \<Rightarrow> path option" where
  "absolute_root_path_for_cwd H cwd = result_ok (abs_from_path H (last (ancestors cwd)))"

fun resolve_file_system_special_path :: "('u, 'e) fs_host \<Rightarrow> special_path \<Rightarrow> path option \<Rightarrow> path option" where
  "resolve_file_system_special_path H (ProjectRoots subpath) cwd =
     (case cwd of
        None \<Rightarrow> None
      | Some cwd \<Rightarrow> (case subpath of Some s \<Rightarrow> Some (abs_resolve H s cwd) | None \<Rightarrow> Some cwd))"
| "resolve_file_system_special_path H SpecialTmpdir cwd =
     (case host_tmpdir H of
        None \<Rightarrow> None
      | Some tmpdir \<Rightarrow>
          if tmpdir = [] then None
          else result_ok (abs_from_path H (path_components tmpdir)))"
| "resolve_file_system_special_path H SlashTmp cwd =
     (case abs_from_path H (path_components ''/tmp'') of
        Inl _ \<Rightarrow> None
      | Inr slash_tmp \<Rightarrow> if host_is_dir H slash_tmp then Some slash_tmp else None)"
| "resolve_file_system_special_path H _ cwd = None"

fun resolve_file_system_path :: "('u, 'e) fs_host \<Rightarrow> 'u fs_path \<Rightarrow> path option \<Rightarrow> path option" where
  "resolve_file_system_path H (PathEntry u) cwd = result_ok (uri_to_abs_path H u)"
| "resolve_file_system_path H (GlobPattern _) cwd = None"
| "resolve_file_system_path H (SpecialEntry v) cwd = resolve_file_system_special_path H v cwd"

definition resolve_entry_path :: "('u, 'e) fs_host \<Rightarrow> 'u fs_path \<Rightarrow> path option \<Rightarrow> path option" where
  "resolve_entry_path H p cwd =
     (if p = SpecialEntry SpecialRoot
      then (case cwd of None \<Rightarrow> None | Some cwd \<Rightarrow> absolute_root_path_for_cwd H cwd)
      else resolve_file_system_path H p cwd)"

definition resolve_candidate_path :: "('u, 'e) fs_host \<Rightarrow> path \<Rightarrow> path \<Rightarrow> path option" where
  "resolve_candidate_path H p cwd =
     (if is_absolute p then result_ok (abs_from_path H p)
      else (case result_ok (abs_from_path H cwd) of
              None \<Rightarrow> None
            | Some cwd \<Rightarrow> Some (abs_join H cwd p)))"

record resolved_entry =
  res_path :: path
  res_access :: access_mode

definition resolved_entries_with_cwd :: "('u, 'e) fs_host \<Rightarrow> 'u fs_policy \<Rightarrow> path \<Rightarrow> resolved_entry list" where
  "resolved_entries_with_cwd H P cwd =
     (let cwd_absolute = result_ok (abs_from_path H cwd)
      in List.map_filter (\<lambda>e.
           map_option (\<lambda>p. \<lparr>res_path = p, res_access = entry_access e\<rparr>)
             (resolve_entry_path H (entry_path e) cwd_absolute)) (fs_entries P))"

definition resolved_entry_precedence :: "resolved_entry \<Rightarrow> nat \<times> access_mode" where
  "resolved_entry_precedence e = (length (res_path e), res_access e)"

section \<open>The access of a path\<close>

definition resolve_access_with_cwd :: "('u, 'e) fs_host \<Rightarrow> 'u fs_policy \<Rightarrow> path \<Rightarrow> path \<Rightarrow> access_mode" where
  "resolve_access_with_cwd H P p cwd =
     (case fs_kind P of
        FsRestricted \<Rightarrow>
          (case resolve_candidate_path H p cwd of
             None \<Rightarrow> Deny
           | Some p \<Rightarrow>
               (case max_by_key resolved_entry_precedence
                       (filter (\<lambda>e. starts_with p (res_path e)) (resolved_entries_with_cwd H P cwd)) of
                  None \<Rightarrow> Deny
                | Some e \<Rightarrow> res_access e))
      | _ \<Rightarrow> Write)"

definition can_read_path_with_cwd :: "('u, 'e) fs_host \<Rightarrow> 'u fs_policy \<Rightarrow> path \<Rightarrow> path \<Rightarrow> bool" where
  "can_read_path_with_cwd H P p cwd \<longleftrightarrow> can_read (resolve_access_with_cwd H P p cwd)"

definition has_explicit_non_write_entry_for_path_with_cwd ::
    "('u, 'e) fs_host \<Rightarrow> 'u fs_policy \<Rightarrow> path \<Rightarrow> path \<Rightarrow> bool" where
  "has_explicit_non_write_entry_for_path_with_cwd H P p cwd \<longleftrightarrow>
     (case resolve_candidate_path H p cwd of
        None \<Rightarrow> False
      | Some p \<Rightarrow>
          (let cwd = result_ok (abs_from_path H cwd)
           in list_ex (\<lambda>e. \<not> skips_missing_path e \<and> \<not> can_write (entry_access e)
                \<and> resolve_entry_path H (entry_path e) cwd = Some p) (fs_entries P)))"

section \<open>Access to the whole disk\<close>

definition has_root_access :: "'u fs_policy \<Rightarrow> (access_mode \<Rightarrow> bool) \<Rightarrow> bool" where
  "has_root_access P predicate \<longleftrightarrow>
     fs_kind P = FsRestricted
     \<and> list_ex (\<lambda>e. entry_path e = SpecialEntry SpecialRoot \<and> predicate (entry_access e)) (fs_entries P)"

text \<open>The exception for \<open>SlashTmp\<close> is for builds that are not Unix.\<close>

definition has_denied_read_restrictions :: "'u fs_policy \<Rightarrow> bool" where
  "has_denied_read_restrictions P \<longleftrightarrow>
     fs_kind P = FsRestricted \<and> list_ex (\<lambda>e. entry_access e = Deny) (fs_entries P)"

fun special_paths_share_target :: "special_path \<Rightarrow> special_path \<Rightarrow> bool" where
  "special_paths_share_target SpecialRoot SpecialRoot = True"
| "special_paths_share_target SpecialMinimal SpecialMinimal = True"
| "special_paths_share_target SpecialTmpdir SpecialTmpdir = True"
| "special_paths_share_target SlashTmp SlashTmp = True"
| "special_paths_share_target (ProjectRoots l) (ProjectRoots r) = (l = r)"
| "special_paths_share_target (UnknownSpecial l ls) (UnknownSpecial r rs) = (l = r \<and> ls = rs)"
| "special_paths_share_target _ _ = False"

fun special_path_matches_absolute_path :: "special_path \<Rightarrow> path \<Rightarrow> bool" where
  "special_path_matches_absolute_path SpecialRoot p = (parent_of_path p = None)"
| "special_path_matches_absolute_path SlashTmp p = (p = path_components ''/tmp'')"
| "special_path_matches_absolute_path _ p = False"

fun file_system_paths_share_target :: "('u, 'e) fs_host \<Rightarrow> 'u fs_path \<Rightarrow> 'u fs_path \<Rightarrow> bool" where
  "file_system_paths_share_target H (PathEntry l) (PathEntry r) = (l = r)"
| "file_system_paths_share_target H (SpecialEntry l) (SpecialEntry r) = special_paths_share_target l r"
| "file_system_paths_share_target H (PathEntry u) (SpecialEntry v) =
     (case uri_to_abs_path H u of Inl _ \<Rightarrow> False | Inr p \<Rightarrow> special_path_matches_absolute_path v p)"
| "file_system_paths_share_target H (SpecialEntry v) (PathEntry u) =
     (case uri_to_abs_path H u of Inl _ \<Rightarrow> False | Inr p \<Rightarrow> special_path_matches_absolute_path v p)"
| "file_system_paths_share_target H (GlobPattern l) (GlobPattern r) = (l = r)"
| "file_system_paths_share_target H _ _ = False"

definition has_same_target_write_override :: "('u, 'e) fs_host \<Rightarrow> 'u fs_policy \<Rightarrow> 'u fs_entry \<Rightarrow> bool" where
  "has_same_target_write_override H P e \<longleftrightarrow>
     list_ex (\<lambda>c. can_write (entry_access c) \<and> entry_access e < entry_access c
       \<and> file_system_paths_share_target H (entry_path c) (entry_path e)) (fs_entries P)"

definition narrows_write :: "('u, 'e) fs_host \<Rightarrow> 'u fs_policy \<Rightarrow> 'u fs_entry \<Rightarrow> bool" where
  "narrows_write H P e \<longleftrightarrow>
     (if can_write (entry_access e) then False
      else (case entry_path e of
              PathEntry _ \<Rightarrow> \<not> has_same_target_write_override H P e
            | GlobPattern _ \<Rightarrow> True
            | SpecialEntry v \<Rightarrow>
                (case v of
                   SpecialRoot \<Rightarrow> entry_access e = Deny
                 | SpecialMinimal \<Rightarrow> False
                 | UnknownSpecial _ _ \<Rightarrow> False
                 | _ \<Rightarrow> \<not> has_same_target_write_override H P e)))"

definition has_write_narrowing_entries :: "('u, 'e) fs_host \<Rightarrow> 'u fs_policy \<Rightarrow> bool" where
  "has_write_narrowing_entries H P \<longleftrightarrow> fs_kind P = FsRestricted \<and> list_ex (narrows_write H P) (fs_entries P)"

definition has_full_disk_read_access :: "'u fs_policy \<Rightarrow> bool" where
  "has_full_disk_read_access P \<longleftrightarrow>
     (case fs_kind P of
        FsRestricted \<Rightarrow> has_root_access P can_read \<and> \<not> has_denied_read_restrictions P
      | _ \<Rightarrow> True)"

definition has_full_disk_write_access :: "('u, 'e) fs_host \<Rightarrow> 'u fs_policy \<Rightarrow> bool" where
  "has_full_disk_write_access H P \<longleftrightarrow>
     (case fs_kind P of
        FsRestricted \<Rightarrow> has_root_access P can_write \<and> \<not> has_write_narrowing_entries H P
      | _ \<Rightarrow> True)"

definition include_platform_defaults :: "'u fs_policy \<Rightarrow> bool" where
  "include_platform_defaults P \<longleftrightarrow>
     \<not> has_full_disk_read_access P
     \<and> fs_kind P = FsRestricted
     \<and> list_ex (\<lambda>e. entry_path e = SpecialEntry SpecialMinimal \<and> can_read (entry_access e)) (fs_entries P)"

section \<open>Protected metadata\<close>

definition PROTECTED_METADATA_PATH_NAMES :: "str list" where
  "PROTECTED_METADATA_PATH_NAMES = [''.git'', ''.agents'', ''.codex'']"

definition is_protected_metadata_name :: "str \<Rightarrow> bool" where
  "is_protected_metadata_name n \<longleftrightarrow> list_ex (\<lambda>m. n = m) PROTECTED_METADATA_PATH_NAMES"

definition metadata_path_name :: "str \<Rightarrow> str option" where
  "metadata_path_name n = find (\<lambda>m. n = m) PROTECTED_METADATA_PATH_NAMES"

definition metadata_child :: "('u, 'e) fs_host \<Rightarrow> path \<Rightarrow> resolved_entry \<Rightarrow> (path \<times> str) option" where
  "metadata_child H target e =
     (case strip_prefix (res_path e) target of
        None \<Rightarrow> None
      | Some relative_path \<Rightarrow>
          (case relative_path of
             [] \<Rightarrow> None
           | first_component # _ \<Rightarrow>
               (case metadata_path_name (component_str first_component) of
                  None \<Rightarrow> None
                | Some name \<Rightarrow> Some (abs_join H (res_path e) [Normal name], name))))"

definition metadata_child_of_writable_root ::
    "('u, 'e) fs_host \<Rightarrow> 'u fs_policy \<Rightarrow> path \<Rightarrow> path \<Rightarrow> (path \<times> str) option" where
  "metadata_child_of_writable_root H P target cwd =
     (case List.map_filter (metadata_child H target)
             (filter (\<lambda>e. can_write (res_access e)) (resolved_entries_with_cwd H P cwd)) of
        [] \<Rightarrow> None
      | c # _ \<Rightarrow> Some c)"

definition has_explicit_write_entry_for_metadata_path ::
    "('u, 'e) fs_host \<Rightarrow> 'u fs_policy \<Rightarrow> path \<Rightarrow> path \<Rightarrow> path \<Rightarrow> bool" where
  "has_explicit_write_entry_for_metadata_path H P protected_metadata_path target cwd \<longleftrightarrow>
     list_ex (\<lambda>e. can_write (res_access e) \<and> starts_with target (res_path e)
       \<and> starts_with (res_path e) protected_metadata_path) (resolved_entries_with_cwd H P cwd)"

definition is_metadata_write_denied :: "('u, 'e) fs_host \<Rightarrow> 'u fs_policy \<Rightarrow> path \<Rightarrow> path \<Rightarrow> bool" where
  "is_metadata_write_denied H P p cwd \<longleftrightarrow>
     (if fs_kind P \<noteq> FsRestricted then False
      else (case resolve_candidate_path H p cwd of
              None \<Rightarrow> True
            | Some target \<Rightarrow>
                (case metadata_child_of_writable_root H P target cwd of
                   None \<Rightarrow> False
                 | Some (protected_metadata_path, _) \<Rightarrow>
                     \<not> has_explicit_write_entry_for_metadata_path H P protected_metadata_path target cwd)))"

definition can_write_path_with_cwd :: "('u, 'e) fs_host \<Rightarrow> 'u fs_policy \<Rightarrow> path \<Rightarrow> path \<Rightarrow> bool" where
  "can_write_path_with_cwd H P p cwd \<longleftrightarrow>
     (if \<not> can_write (resolve_access_with_cwd H P p cwd) then False
      else if has_full_disk_write_access H P then True
      else \<not> is_metadata_write_denied H P p cwd)"

definition forbidden_agent_metadata_write :: "('u, 'e) fs_host \<Rightarrow> path \<Rightarrow> path \<Rightarrow> 'u fs_policy \<Rightarrow> str option" where
  "forbidden_agent_metadata_write H p cwd P =
     (if fs_kind P \<noteq> FsRestricted then None
      else (case resolve_candidate_path H p cwd of
              None \<Rightarrow> None
            | Some target \<Rightarrow>
                (case metadata_child_of_writable_root H P target cwd of
                   None \<Rightarrow> None
                 | Some (protected_metadata_path, metadata_name) \<Rightarrow>
                     if has_explicit_write_entry_for_metadata_path H P protected_metadata_path target cwd then None
                     else if \<not> can_write_path_with_cwd H P target cwd then Some metadata_name
                     else None)))"

section \<open>The decision, over the resolved entries\<close>

definition access_of :: "resolved_entry list \<Rightarrow> path \<Rightarrow> access_mode" where
  "access_of rs p =
     (case max_by_key resolved_entry_precedence (filter (\<lambda>e. starts_with p (res_path e)) rs) of
        None \<Rightarrow> Deny
      | Some e \<Rightarrow> res_access e)"

text \<open>
  What the code promises: the entry with the longest matching path decides, and among entries for the same path the one
  that comes last in the order \<open>Read < Write < Deny\<close>; a path that no entry matches is denied.
\<close>

definition decided_by :: "resolved_entry list \<Rightarrow> path \<Rightarrow> resolved_entry \<Rightarrow> bool" where
  "decided_by rs p e \<longleftrightarrow>
     e \<in> set rs \<and> prefix (res_path e) p
     \<and> (\<forall>e' \<in> set rs. prefix (res_path e') p \<longrightarrow>
          length (res_path e') < length (res_path e)
          \<or> res_path e' = res_path e \<and> res_access e' \<le> res_access e)"

lemma starts_with_prefix: "starts_with p q \<longleftrightarrow> prefix q p"
  by (auto simp: starts_with_iff prefix_def)

lemma prefix_same_length: "prefix a p \<Longrightarrow> prefix b p \<Longrightarrow> length a = length b \<Longrightarrow> a = b"
  by (auto simp: prefix_def append_eq_append_conv)

lemma access_mode_le [simp]: "a \<le> Deny" "Read \<le> a" "Deny \<le> a \<longleftrightarrow> a = Deny" "a \<le> Read \<longleftrightarrow> a = Read"
  by (cases a; simp add: less_eq_access_mode_def)+

lemma decided_byD:
  assumes "decided_by rs p e"
  shows "e \<in> set rs" and "prefix (res_path e) p"
    and "\<And>e'. e' \<in> set rs \<Longrightarrow> prefix (res_path e') p \<Longrightarrow>
      length (res_path e') < length (res_path e) \<or> res_path e' = res_path e \<and> res_access e' \<le> res_access e"
  using assms by (auto simp: decided_by_def)

lemma decided_by_unique_access:
  assumes "decided_by rs p e" "decided_by rs p e'"
  shows "res_path e = res_path e' \<and> res_access e = res_access e'"
  using decided_byD(3) [OF assms(1) decided_byD(1,2) [OF assms(2)]]
    decided_byD(3) [OF assms(2) decided_byD(1,2) [OF assms(1)]] by auto

lemma decided_by_ex:
  assumes "e \<in> set rs" "prefix (res_path e) p"
  shows "\<exists>m. decided_by rs p m \<and> access_of rs p = res_access m"
proof -
  let ?ms = "filter (\<lambda>e. starts_with p (res_path e)) rs"
  have "e \<in> set ?ms" using assms by (simp add: starts_with_prefix)
  then obtain m where m: "max_by_key resolved_entry_precedence ?ms = Some m"
    by (cases "max_by_key resolved_entry_precedence ?ms") (auto simp del: set_filter)
  have in_m: "m \<in> set rs" "prefix (res_path m) p"
    using max_by_key_Some(1) [OF m] by (auto simp: starts_with_prefix)
  have "length (res_path e') < length (res_path m)
      \<or> res_path e' = res_path m \<and> res_access e' \<le> res_access m"
    if "e' \<in> set rs" "prefix (res_path e') p" for e'
    using max_by_key_Some(2) [OF m, of e'] that prefix_same_length [OF that(2) in_m(2)]
    by (auto simp: resolved_entry_precedence_def starts_with_prefix less_eq_prod_def)
  with in_m have "decided_by rs p m" by (auto simp: decided_by_def)
  then show ?thesis using m by (auto simp: access_of_def)
qed

lemma access_of_decided: "decided_by rs p e \<Longrightarrow> access_of rs p = res_access e"
  using decided_by_ex [OF decided_byD(1,2)] decided_by_unique_access by metis

lemma decided_by_own_path:
  assumes "e \<in> set rs" "res_path e = p"
    and "\<And>e'. e' \<in> set rs \<Longrightarrow> res_path e' = p \<Longrightarrow> res_access e' \<le> res_access e"
  shows "decided_by rs p e"
  using assms prefix_length_less [of _ p] by (auto simp: decided_by_def strict_prefix_def)

lemma access_of_none:
  "(\<And>e. e \<in> set rs \<Longrightarrow> \<not> prefix (res_path e) p) \<Longrightarrow> access_of rs p = Deny"
  by (simp add: access_of_def starts_with_prefix)

lemma access_of_allows:
  "access_of rs p \<noteq> Deny \<Longrightarrow> \<exists>e. decided_by rs p e \<and> access_of rs p = res_access e"
  using access_of_none decided_by_ex by metis

lemma access_of_Deny_entry:
  assumes "e \<in> set rs" "prefix (res_path e) p" "res_access e = Deny"
    and "\<And>e'. e' \<in> set rs \<Longrightarrow> prefix (res_path e') p \<Longrightarrow> length (res_path e') \<le> length (res_path e)"
  shows "access_of rs p = Deny"
proof -
  obtain m where m: "decided_by rs p m" "access_of rs p = res_access m"
    using decided_by_ex [OF assms(1,2)] by blast
  then have "res_path e = res_path m \<and> res_access e \<le> res_access m"
    using assms by (fastforce simp: decided_by_def)
  then show ?thesis using assms(3) m by simp
qed

text \<open>The order of the entries is irrelevant to the access of a path.\<close>

lemma access_of_cong_set: "set rs = set rs' \<Longrightarrow> access_of rs p = access_of rs' p"
proof (cases "\<exists>e \<in> set rs. prefix (res_path e) p")
  case True
  assume eq: "set rs = set rs'"
  obtain m where "decided_by rs p m" "access_of rs p = res_access m" using True decided_by_ex by blast
  moreover from this(1) have "decided_by rs' p m" by (simp add: decided_by_def eq)
  ultimately show ?thesis by (simp add: access_of_decided)
qed (metis access_of_none)

lemma resolve_access_restricted:
  assumes "fs_kind P = FsRestricted" "resolve_candidate_path H p cwd = Some q"
  shows "resolve_access_with_cwd H P p cwd = access_of (resolved_entries_with_cwd H P cwd) q"
  using assms by (simp add: resolve_access_with_cwd_def access_of_def)


section \<open>Paths on a host\<close>

text \<open>
  What the code relies on: \<open>std::env::current_dir\<close> is absolute; a \<open>PathUri\<close> converts to an \<open>AbsolutePathBuf\<close>, which is
  absolute and normalised; and the URI of such a path converts back to it.
\<close>

definition host_ok :: "('u, 'e) fs_host \<Rightarrow> bool" where
  "host_ok H \<longleftrightarrow>
     (\<forall>d. host_current_dir H = Inr d \<longrightarrow> is_absolute d)
     \<and> (\<forall>u p. uri_to_abs_path H u = Inr p \<longrightarrow> normalized_absolute p)
     \<and> (\<forall>p. normalized_absolute p \<longrightarrow> uri_to_abs_path H (uri_from_abs_path H p) = Inr p)"

named_theorems host_simps \<open>resolution of absolute paths on a host\<close>

lemma normalized_is_absolute: "normalized_absolute p \<Longrightarrow> is_absolute p"
  by (auto simp: normalized_absolute_def is_absolute_def)

lemma normalized_root [simp]: "normalized_absolute [RootDir]"
  by (simp add: normalized_absolute_Cons)

lemma normalized_snoc [simp]: "normalized_absolute (p @ [Normal n]) \<longleftrightarrow> normalized_absolute p"
  by (cases p) (auto simp: normalized_absolute_def is_normal_component_def)

lemma expand_home_absolute [host_simps]: "is_absolute p \<Longrightarrow> expand_home home p = p"
  by (cases p) (auto simp: expand_home_def is_absolute_def split: component.splits)

lemma abs_from_path_id [host_simps]: "normalized_absolute p \<Longrightarrow> abs_from_path H p = Inr p"
  by (simp add: abs_from_path_def host_simps normalized_is_absolute absolutize_def normalize_path_id)

lemma abs_from_path_normalized:
  "host_ok H \<Longrightarrow> abs_from_path H p = Inr q \<Longrightarrow> normalized_absolute q"
  by (auto simp: abs_from_path_def absolutize_def host_ok_def normalize_path_absolute absolutize_from_normalized
      split: if_splits)

lemma abs_join_normalized: "is_absolute base \<Longrightarrow> normalized_absolute (abs_join H base p)"
  by (simp add: abs_join_def absolutize_from_normalized)

lemma abs_join_name [host_simps]:
  assumes "normalized_absolute base" "n \<noteq> ''~''"
  shows "abs_join H base [Normal n] = base @ [Normal n]"
proof -
  have "path_join base [Normal n] = base @ [Normal n]"
    using assms(1) by (auto simp: path_join_def is_absolute_def normalized_absolute_def)
  moreover have "\<not> is_absolute [Normal n]" by (simp add: is_absolute_def)
  ultimately show ?thesis
    using assms by (simp add: abs_join_def absolutize_from_def path_with_base_def expand_home_def normalize_path_id)
qed

lemma resolve_candidate_id [host_simps]: "normalized_absolute p \<Longrightarrow> resolve_candidate_path H p cwd = Some p"
  by (simp add: resolve_candidate_path_def normalized_is_absolute host_simps)

lemma resolve_candidate_normalized:
  assumes "host_ok H" "resolve_candidate_path H p cwd = Some q"
  shows "normalized_absolute q"
  using assms abs_from_path_normalized [OF assms(1)]
  by (auto simp: resolve_candidate_path_def intro!: abs_join_normalized normalized_is_absolute
      split: if_splits option.splits)

lemma ancestors_last:
  "list_all is_normal_component ns \<Longrightarrow> last (ancestors (RootDir # ns)) = [RootDir]"
proof (induction ns rule: rev_induct)
  case Nil
  then show ?case by (simp add: ancestors.simps parent_of_path_def)
next
  case (snoc n ns)
  then have "parent_of_path (RootDir # ns @ [n]) = Some (RootDir # ns)"
    by (auto simp: parent_of_path_def is_normal_component_def butlast_append)
  with snoc show ?case by (simp add: ancestors.simps [of "RootDir # ns @ [n]"] ancestors.simps [of "RootDir # ns"])
qed

lemma absolute_root_path_for_cwd_root [host_simps]:
  "normalized_absolute cwd \<Longrightarrow> absolute_root_path_for_cwd H cwd = Some [RootDir]"
  by (auto simp: absolute_root_path_for_cwd_def normalized_absolute_def ancestors_last host_simps)

lemma slash_tmp_components: "path_components ''/tmp'' = [RootDir, Normal ''tmp'']"
  by code_simp

lemma normalized_slash_tmp: "normalized_absolute [RootDir, Normal ''tmp'']"
  by (simp add: normalized_absolute_Cons is_normal_component_def)

lemma resolve_slash_tmp [host_simps]:
  "resolve_file_system_special_path H SlashTmp cwd =
     (if host_is_dir H [RootDir, Normal ''tmp''] then Some [RootDir, Normal ''tmp''] else None)"
  by (simp add: slash_tmp_components abs_from_path_id normalized_slash_tmp)

lemma resolve_special_normalized:
  assumes "host_ok H" "\<And>c. cwd = Some c \<Longrightarrow> normalized_absolute c"
    and "resolve_file_system_special_path H v cwd = Some p"
  shows "normalized_absolute p"
  using assms(2,3) abs_from_path_normalized [OF assms(1)] normalized_slash_tmp
  by (cases v) (auto simp: resolve_slash_tmp intro!: resolve_path_normalized normalized_is_absolute
      simp del: resolve_file_system_special_path.simps(3) split: option.splits if_splits)

lemma resolve_entry_normalized:
  assumes "host_ok H" "\<And>c. cwd = Some c \<Longrightarrow> normalized_absolute c" "resolve_entry_path H p cwd = Some q"
  shows "normalized_absolute q"
proof (cases "p = SpecialEntry SpecialRoot")
  case True
  with assms(2,3) show ?thesis by (auto simp: resolve_entry_path_def host_simps split: option.splits)
next
  case False
  with assms show ?thesis
    by (cases p) (auto simp: resolve_entry_path_def host_ok_def intro: resolve_special_normalized [OF assms(1,2)])
qed

lemma set_resolved_entries:
  "set (resolved_entries_with_cwd H P cwd) =
     {\<lparr>res_path = p, res_access = entry_access e\<rparr> | e p.
        e \<in> set (fs_entries P) \<and> resolve_entry_path H (entry_path e) (result_ok (abs_from_path H cwd)) = Some p}"
  by (auto simp: resolved_entries_with_cwd_def set_map_filter)

lemma resolved_entriesI:
  "e \<in> set (fs_entries P) \<Longrightarrow> resolve_entry_path H (entry_path e) (result_ok (abs_from_path H cwd)) = Some p \<Longrightarrow>
    a = entry_access e \<Longrightarrow> \<lparr>res_path = p, res_access = a\<rparr> \<in> set (resolved_entries_with_cwd H P cwd)"
  by (auto simp: set_resolved_entries)

lemma resolved_entries_normalized:
  "host_ok H \<Longrightarrow> e \<in> set (resolved_entries_with_cwd H P cwd) \<Longrightarrow> normalized_absolute (res_path e)"
  using abs_from_path_normalized [of H cwd]
  by (auto simp: set_resolved_entries elim!: resolve_entry_normalized [rotated 2])


section \<open>What the decision means\<close>

text \<open>
  C12: The access of a path under a restricted policy is that of the most specific entry above it, where \<open>Deny\<close> beats \<open>Write\<close>
  and \<open>Write\<close> beats \<open>Read\<close> between entries for the same path; a path below no entry is denied.
\<close>

theorem most_specific_entry_decides:
  assumes "fs_kind P = FsRestricted" and "resolve_candidate_path H p cwd = Some q"
  shows "resolve_access_with_cwd H P p cwd = a \<longleftrightarrow>
     (\<exists>e. decided_by (resolved_entries_with_cwd H P cwd) q e \<and> res_access e = a)
     \<or> (a = Deny \<and> (\<forall>e \<in> set (resolved_entries_with_cwd H P cwd). \<not> prefix (res_path e) q))"
proof (cases "\<exists>e \<in> set (resolved_entries_with_cwd H P cwd). prefix (res_path e) q")
  case True
  then obtain m where m: "decided_by (resolved_entries_with_cwd H P cwd) q m" using decided_by_ex by blast
  show ?thesis unfolding resolve_access_restricted [OF assms]
    using True m access_of_decided [OF m] decided_by_unique_access [OF m] by metis
next
  case False
  then show ?thesis unfolding resolve_access_restricted [OF assms]
    using access_of_none [of _ q] by (auto simp: decided_by_def)
qed

lemma resolve_access_not_restricted: "fs_kind P \<noteq> FsRestricted \<Longrightarrow> resolve_access_with_cwd H P p cwd = Write"
  by (cases "fs_kind P") (simp_all add: resolve_access_with_cwd_def)

lemma parent_none_root: "normalized_absolute p \<Longrightarrow> parent_of_path p = None \<Longrightarrow> p = [RootDir]"
proof -
  assume "normalized_absolute p" "parent_of_path p = None"
  then obtain ns where "p = RootDir # ns" "list_all is_normal_component ns" "last p = RootDir"
    by (auto simp: normalized_absolute_def parent_of_path_def split: if_splits)
  then show ?thesis by (cases ns rule: rev_cases) (auto simp: is_normal_component_def)
qed

lemma share_target_resolves:
  assumes ok: "host_ok H" and c: "normalized_absolute c" and tmp: "host_is_dir H [RootDir, Normal ''tmp'']"
    and share: "file_system_paths_share_target H a b" and b: "resolve_entry_path H b (Some c) = Some p"
  shows "resolve_entry_path H a (Some c) = Some p"
proof -
  have special: "v = SpecialRoot \<and> p' = [RootDir] \<or> v = SlashTmp \<and> p' = [RootDir, Normal ''tmp'']"
    if "uri_to_abs_path H u = Inr p'" "special_path_matches_absolute_path v p'" for u v p'
    using that ok by (cases v) (auto simp: host_ok_def slash_tmp_components dest: parent_none_root)
  have specials: "l = r" if "special_paths_share_target l r" for l r
    using that by (cases l; cases r) auto
  have root: "resolve_entry_path H (SpecialEntry SpecialRoot) (Some c) = Some [RootDir]"
    and slash: "resolve_entry_path H (SpecialEntry SlashTmp) (Some c) = Some [RootDir, Normal ''tmp'']"
    and path: "\<And>u. resolve_entry_path H (PathEntry u) (Some c) = result_ok (uri_to_abs_path H u)"
    using c tmp resolve_slash_tmp [of H "Some c"] by (simp_all add: resolve_entry_path_def host_simps)
  show ?thesis
  proof (cases a)
    case (PathEntry u)
    show ?thesis
    proof (cases b)
      case (SpecialEntry v)
      then obtain p' where "uri_to_abs_path H u = Inr p'" "special_path_matches_absolute_path v p'"
        using share PathEntry by (auto split: sum.splits)
      then show ?thesis using special [of u p' v] b SpecialEntry PathEntry root slash path by auto
    qed (use share PathEntry b in auto)
  next
    case (GlobPattern g)
    with share b show ?thesis by (cases b) auto
  next
    case (SpecialEntry v)
    show ?thesis
    proof (cases b)
      case (PathEntry u)
      then obtain p' where "uri_to_abs_path H u = Inr p'" "special_path_matches_absolute_path v p'"
        using share SpecialEntry by (auto split: sum.splits)
      then show ?thesis using special [of u p' v] b SpecialEntry PathEntry root slash path by auto
    qed (use share SpecialEntry b specials in auto)
  qed
qed

lemma root_entry_resolves:
  assumes "host_ok H" "abs_from_path H cwd = Inr c" "e \<in> set (fs_entries P)" "entry_path e = SpecialEntry SpecialRoot"
  shows "\<lparr>res_path = [RootDir], res_access = entry_access e\<rparr> \<in> set (resolved_entries_with_cwd H P cwd)"
  using assms abs_from_path_normalized [OF assms(1,2)]
  by (auto simp: set_resolved_entries resolve_entry_path_def host_simps)

lemma root_prefix: "normalized_absolute q \<Longrightarrow> prefix [RootDir] q"
  by (auto simp: normalized_absolute_def)

lemma unnarrowed_entry_overridden:
  assumes ok: "host_ok H" and c: "abs_from_path H cwd = Inr c" and tmp: "host_is_dir H [RootDir, Normal ''tmp'']"
    and root: "has_root_access P can_write"
    and e: "e \<in> set (fs_entries P)" "\<not> narrows_write H P e" "entry_access e \<noteq> Write"
    and p: "resolve_entry_path H (entry_path e) (Some c) = Some p"
  shows "entry_access e = Read \<and> \<lparr>res_path = p, res_access = Write\<rparr> \<in> set (resolved_entries_with_cwd H P cwd)"
proof -
  have nc: "normalized_absolute c" by (rule abs_from_path_normalized [OF ok c])
  have override: ?thesis if same: "has_same_target_write_override H P e"
  proof -
    obtain d where d: "d \<in> set (fs_entries P)" "entry_access d = Write" "entry_access e < Write"
        "file_system_paths_share_target H (entry_path d) (entry_path e)"
      using same by (auto simp: has_same_target_write_override_def list_ex_iff can_write_def)
    have "\<lparr>res_path = p, res_access = Write\<rparr> \<in> set (resolved_entries_with_cwd H P cwd)"
      using share_target_resolves [OF ok nc tmp d(4) p] d(2) by (intro resolved_entriesI [OF d(1)]) (simp_all add: c)
    then show ?thesis using d(3) by (cases "entry_access e") (auto simp: less_access_mode_def)
  qed
  obtain r where r: "r \<in> set (fs_entries P)" "entry_path r = SpecialEntry SpecialRoot" "entry_access r = Write"
    using root by (auto simp: has_root_access_def list_ex_iff can_write_def)
  show ?thesis
  proof (cases "entry_path e = SpecialEntry SpecialRoot")
    case True
    then have "p = [RootDir]" using p nc by (simp add: resolve_entry_path_def host_simps)
    moreover have "entry_access e = Read" using True e(2,3) by (cases "entry_access e") (auto simp: narrows_write_def can_write_def)
    ultimately show ?thesis using root_entry_resolves [OF ok c r(1,2)] r(3) by simp
  next
    case False
    then show ?thesis using e p override
      by (auto simp: narrows_write_def can_write_def resolve_entry_path_def split: fs_path.splits special_path.splits)
  qed
qed

text \<open>
  C13: A policy reported as having write access to the whole disk lets every path be written, provided the working directory
  resolves and \<open>/tmp\<close> is a directory.
\<close>

theorem full_disk_write_access_sound:
  assumes "host_ok H" and "abs_from_path H cwd = Inr c" and "host_is_dir H [RootDir, Normal ''tmp'']"
    and full: "has_full_disk_write_access H P" and q: "resolve_candidate_path H p cwd = Some q"
  shows "can_write_path_with_cwd H P p cwd"
proof (cases "fs_kind P = FsRestricted")
  case False
  then show ?thesis using full by (simp add: can_write_path_with_cwd_def resolve_access_not_restricted can_write_def)
next
  case True
  let ?rs = "resolved_entries_with_cwd H P cwd"
  have root: "has_root_access P can_write" and narrow: "\<not> has_write_narrowing_entries H P"
    using full True by (auto simp: has_full_disk_write_access_def)
  obtain r where r: "r \<in> set ?rs" "prefix (res_path r) q"
    using root root_entry_resolves [OF assms(1,2)] root_prefix [OF resolve_candidate_normalized [OF assms(1) q]]
    by (fastforce simp: has_root_access_def list_ex_iff)
  obtain m where m: "decided_by ?rs q m" using decided_by_ex [OF r] by blast
  obtain e where e: "e \<in> set (fs_entries P)" "resolve_entry_path H (entry_path e) (Some c) = Some (res_path m)"
      "res_access m = entry_access e"
    using decided_byD(1) [OF m] assms(2) by (auto simp: set_resolved_entries)
  have "res_access m = Write"
  proof (rule ccontr)
    assume "res_access m \<noteq> Write"
    with e narrow True have "entry_access e = Read \<and> \<lparr>res_path = res_path m, res_access = Write\<rparr> \<in> set ?rs"
      by (intro unnarrowed_entry_overridden [OF assms(1-3) root]) (auto simp: has_write_narrowing_entries_def list_ex_iff)
    then show False using decided_byD(3) [OF m, of "\<lparr>res_path = res_path m, res_access = Write\<rparr>"] decided_byD(2) [OF m] e(3)
      by (auto simp: less_eq_access_mode_def)
  qed
  then have "resolve_access_with_cwd H P p cwd = Write"
    by (simp add: resolve_access_restricted [OF True q] access_of_decided [OF m])
  then show ?thesis using full by (simp add: can_write_path_with_cwd_def can_write_def)
qed

text \<open>
  A policy reported as having read access to the whole disk lets every path be read, provided the working directory resolves.
\<close>

theorem full_disk_read_access_sound:
  assumes "host_ok H" and "abs_from_path H cwd = Inr c"
    and full: "has_full_disk_read_access P" and q: "resolve_candidate_path H p cwd = Some q"
  shows "can_read_path_with_cwd H P p cwd"
proof (cases "fs_kind P = FsRestricted")
  case False
  then show ?thesis by (simp add: can_read_path_with_cwd_def resolve_access_not_restricted can_read_def)
next
  case True
  let ?rs = "resolved_entries_with_cwd H P cwd"
  obtain r where r: "r \<in> set ?rs" "prefix (res_path r) q"
    using full True root_entry_resolves [OF assms(1,2)] root_prefix [OF resolve_candidate_normalized [OF assms(1) q]]
    by (fastforce simp: has_full_disk_read_access_def has_root_access_def list_ex_iff)
  obtain m where m: "decided_by ?rs q m" using decided_by_ex [OF r] by blast
  have "res_access m \<noteq> Deny"
    using decided_byD(1) [OF m] full True
    by (auto simp: set_resolved_entries has_full_disk_read_access_def has_denied_read_restrictions_def list_ex_iff)
  then show ?thesis
    by (simp add: can_read_path_with_cwd_def resolve_access_restricted [OF True q] access_of_decided [OF m] can_read_def)
qed


section \<open>Metadata of a writable root\<close>

lemma metadata_path_name_Some [simp]:
  "metadata_path_name n = Some m \<longleftrightarrow> n = m \<and> m \<in> set PROTECTED_METADATA_PATH_NAMES"
  by (auto simp: metadata_path_name_def PROTECTED_METADATA_PATH_NAMES_def)

lemma protected_name_not_home: "n \<in> set PROTECTED_METADATA_PATH_NAMES \<Longrightarrow> n \<noteq> ''~''"
  by (auto simp: PROTECTED_METADATA_PATH_NAMES_def)

lemma normalized_component_str:
  assumes "normalized_absolute (p @ c # r)" "normalized_absolute p"
  shows "c = Normal (component_str c)"
  using assms by (auto simp: normalized_absolute_def is_normal_component_def split: component.splits)

lemma metadata_child_Some_iff:
  assumes "normalized_absolute (res_path e)" "normalized_absolute q"
  shows "metadata_child H q e = Some (d, n) \<longleftrightarrow>
     n \<in> set PROTECTED_METADATA_PATH_NAMES \<and> d = res_path e @ [Normal n] \<and> prefix d q"
proof
  assume "metadata_child H q e = Some (d, n)"
  then obtain c r where q: "q = res_path e @ c # r" "component_str c = n" "n \<in> set PROTECTED_METADATA_PATH_NAMES"
      "d = abs_join H (res_path e) [Normal n]"
    by (auto simp: metadata_child_def strip_prefix_Some_iff split: option.splits list.splits)
  then have "c = Normal n" using normalized_component_str assms by metis
  with q show "n \<in> set PROTECTED_METADATA_PATH_NAMES \<and> d = res_path e @ [Normal n] \<and> prefix d q"
    by (simp add: host_simps assms protected_name_not_home)
next
  assume "n \<in> set PROTECTED_METADATA_PATH_NAMES \<and> d = res_path e @ [Normal n] \<and> prefix d q"
  moreover from this have "metadata_path_name n = Some n" by simp
  ultimately show "metadata_child H q e = Some (d, n)"
    by (auto simp del: metadata_path_name_Some simp: metadata_child_def prefix_def host_simps assms protected_name_not_home)
qed

lemma metadata_child_of_writable_root_Some:
  assumes "metadata_child_of_writable_root H P q cwd = Some (d, n)"
  shows "\<exists>e \<in> set (resolved_entries_with_cwd H P cwd). res_access e = Write \<and> metadata_child H q e = Some (d, n)"
proof -
  have "(d, n) \<in> set (List.map_filter (metadata_child H q)
      (filter (\<lambda>e. can_write (res_access e)) (resolved_entries_with_cwd H P cwd)))"
    using assms by (auto simp: metadata_child_of_writable_root_def split: list.splits)
  then show ?thesis by (auto simp: set_map_filter can_write_def)
qed

lemma metadata_child_of_writable_root_None:
  assumes "metadata_child_of_writable_root H P q cwd = None" "e \<in> set (resolved_entries_with_cwd H P cwd)"
    "res_access e = Write"
  shows "metadata_child H q e = None"
proof (rule ccontr)
  assume "metadata_child H q e \<noteq> None"
  then obtain c where c: "metadata_child H q e = Some c" by auto
  have "List.map_filter (metadata_child H q)
      (filter (\<lambda>e. can_write (res_access e)) (resolved_entries_with_cwd H P cwd)) = []"
    using assms(1) by (auto simp: metadata_child_of_writable_root_def split: list.splits)
  moreover have "c \<in> set (List.map_filter (metadata_child H q)
      (filter (\<lambda>e. can_write (res_access e)) (resolved_entries_with_cwd H P cwd)))"
    using assms(2,3) c by (auto simp: set_map_filter can_write_def)
  ultimately show False by simp
qed

lemma can_write_candidate:
  assumes "resolve_candidate_path H p cwd = resolve_candidate_path H q cwd"
  shows "can_write_path_with_cwd H P p cwd = can_write_path_with_cwd H P q cwd"
  unfolding can_write_path_with_cwd_def resolve_access_with_cwd_def is_metadata_write_denied_def assms by (rule refl)

lemma can_write_resolves:
  assumes "can_write_path_with_cwd H P p cwd" "fs_kind P = FsRestricted"
  shows "\<exists>q. resolve_candidate_path H p cwd = Some q \<and> access_of (resolved_entries_with_cwd H P cwd) q = Write"
proof (cases "resolve_candidate_path H p cwd")
  case None
  with assms show ?thesis
    by (simp add: can_write_path_with_cwd_def resolve_access_with_cwd_def can_write_def split: if_splits)
next
  case (Some q)
  with assms show ?thesis
    by (simp add: can_write_path_with_cwd_def resolve_access_restricted [OF assms(2) Some] can_write_def split: if_splits)
qed

text \<open>
  Unless the whole disk is writable, nothing at or below \<open>.git\<close>, \<open>.agents\<close> or \<open>.codex\<close> of a writable root can be written
  without a \<open>Write\<close> entry above the path that itself lies at or below the metadata directory of a writable root.
\<close>

theorem metadata_write_needs_explicit_entry:
  assumes "host_ok H" and "fs_kind P = FsRestricted" and "\<not> has_full_disk_write_access H P"
    and can: "can_write_path_with_cwd H P p cwd" and q: "resolve_candidate_path H p cwd = Some q"
    and w: "w \<in> set (resolved_entries_with_cwd H P cwd)" "res_access w = Write"
    and n: "is_protected_metadata_name n" "prefix (res_path w @ [Normal n]) q"
  shows "\<exists>r \<in> set (resolved_entries_with_cwd H P cwd). \<exists>e \<in> set (resolved_entries_with_cwd H P cwd). \<exists>m.
     res_access r = Write \<and> res_access e = Write \<and> is_protected_metadata_name m
     \<and> prefix (res_path r @ [Normal m]) (res_path e) \<and> prefix (res_path e) q"
proof -
  let ?rs = "resolved_entries_with_cwd H P cwd"
  have nq: "normalized_absolute q" using resolve_candidate_normalized [OF assms(1) q] .
  have npath: "normalized_absolute (res_path e)" if "e \<in> set ?rs" for e
    using resolved_entries_normalized [OF assms(1) that] .
  have "metadata_child H q w = Some (res_path w @ [Normal n], n)"
    using n by (simp add: metadata_child_Some_iff npath w nq is_protected_metadata_name_def list_ex_iff)
  then obtain d m where dm: "metadata_child_of_writable_root H P q cwd = Some (d, m)"
    using metadata_child_of_writable_root_None [OF _ w, of q] by (cases "metadata_child_of_writable_root H P q cwd") auto
  then obtain r where r: "r \<in> set ?rs" "res_access r = Write" "metadata_child H q r = Some (d, m)"
    using metadata_child_of_writable_root_Some by blast
  have d: "d = res_path r @ [Normal m]" "is_protected_metadata_name m"
    using r metadata_child_Some_iff [OF npath [OF r(1)] nq] by (auto simp: is_protected_metadata_name_def list_ex_iff)
  have "\<not> is_metadata_write_denied H P p cwd"
    using can assms(3) by (simp add: can_write_path_with_cwd_def split: if_splits)
  then obtain e where "e \<in> set ?rs" "res_access e = Write" "prefix (res_path e) q" "prefix d (res_path e)"
    using dm q assms(2) by (auto simp: is_metadata_write_denied_def has_explicit_write_entry_for_metadata_path_def
        list_ex_iff can_write_def starts_with_prefix)
  with r d show ?thesis by blast
qed

text \<open>Whatever an agent is told it may not write because of its metadata is not writable.\<close>

lemma forbidden_metadata_not_writable:
  assumes "host_ok H" "forbidden_agent_metadata_write H p cwd P = Some n"
  shows "\<not> can_write_path_with_cwd H P p cwd" and "is_protected_metadata_name n"
proof -
  obtain q d where q: "resolve_candidate_path H p cwd = Some q"
      "metadata_child_of_writable_root H P q cwd = Some (d, n)" "\<not> can_write_path_with_cwd H P q cwd"
    using assms(2) by (auto simp: forbidden_agent_metadata_write_def split: if_splits option.splits)
  have nq: "normalized_absolute q" by (rule resolve_candidate_normalized [OF assms(1) q(1)])
  then show "\<not> can_write_path_with_cwd H P p cwd"
    using q can_write_candidate [of H p cwd q P] by (simp add: host_simps)
  show "is_protected_metadata_name n"
    using metadata_child_of_writable_root_Some [OF q(2)] resolved_entries_normalized [OF assms(1)] nq
    by (fastforce simp: metadata_child_Some_iff is_protected_metadata_name_def list_ex_iff)
qed

section \<open>A concrete host\<close>

text \<open>A process in \<open>/\<close> whose URIs are paths, on a disk where \<open>/tmp\<close> is a directory.\<close>

definition plain_host :: "(path, str) fs_host" where
  "plain_host =
     \<lparr>host_home = Some [RootDir, Normal ''home''],
      host_current_dir = Inr [RootDir],
      host_tmpdir = None,
      host_is_dir = (\<lambda>p. p = [RootDir, Normal ''tmp'']),
      host_is_file = (\<lambda>_. False),
      host_exists = (\<lambda>p. p = [RootDir, Normal ''tmp'']),
      host_symlink_metadata = (\<lambda>p. if p = [RootDir, Normal ''tmp''] then Some False else None),
      host_canonicalize = (\<lambda>p. if p = [RootDir, Normal ''tmp''] then Inr p else Inl ''not found''),
      host_read_to_string = (\<lambda>_. Inl ''not found''),
      uri_to_abs_path = (\<lambda>p. if normalized_absolute p then Inr p else Inl ''not absolute''),
      uri_from_abs_path = (\<lambda>p. p)\<rparr>"

lemma plain_host_ok: "host_ok plain_host"
  by (auto simp: host_ok_def plain_host_def is_absolute_def split: if_splits)

definition abs_names :: "str list \<Rightarrow> path" where
  "abs_names ns = RootDir # map Normal ns"


section \<open>Examples\<close>

text \<open>A policy that reads the disk, writes \<open>/w\<close> and denies \<open>/w/secret\<close>.\<close>

definition sample_policy :: "path fs_policy" where
  "sample_policy = fs_restricted
     [entry_new (SpecialEntry SpecialRoot) Read,
      entry_new (PathEntry (abs_names [''w''])) Write,
      entry_new (PathEntry (abs_names [''w'', ''secret''])) Deny]"

definition full_write_policy :: "path fs_policy" where
  "full_write_policy = fs_restricted
     [entry_new (SpecialEntry SpecialRoot) Write,
      entry_new (PathEntry (abs_names [''tmp''])) Read,
      entry_new (SpecialEntry SlashTmp) Write]"

theorem most_specific_entry_decides_witness:
  "resolve_access_with_cwd plain_host sample_policy (abs_names [''w'', ''secret'', ''k'']) (abs_names []) = Deny \<longleftrightarrow>
     (\<exists>e. decided_by (resolved_entries_with_cwd plain_host sample_policy (abs_names []))
        (abs_names [''w'', ''secret'', ''k'']) e \<and> res_access e = Deny)
     \<or> (Deny = Deny \<and> (\<forall>e \<in> set (resolved_entries_with_cwd plain_host sample_policy (abs_names [])).
        \<not> prefix (res_path e) (abs_names [''w'', ''secret'', ''k''])))"
proof (rule most_specific_entry_decides)
  show "fs_kind sample_policy = FsRestricted" by code_simp
  show "resolve_candidate_path plain_host (abs_names [''w'', ''secret'', ''k'']) (abs_names [])
    = Some (abs_names [''w'', ''secret'', ''k''])" by code_simp
qed

theorem full_disk_write_access_sound_witness:
  "can_write_path_with_cwd plain_host full_write_policy (abs_names [''tmp'', ''x'']) (abs_names [''w''])"
proof (rule full_disk_write_access_sound [OF plain_host_ok])
  show "abs_from_path plain_host (abs_names [''w'']) = Inr (abs_names [''w''])" by code_simp
  show "host_is_dir plain_host [RootDir, Normal ''tmp'']" by code_simp
  show "has_full_disk_write_access plain_host full_write_policy" by code_simp
  show "resolve_candidate_path plain_host (abs_names [''tmp'', ''x'']) (abs_names [''w''])
    = Some (abs_names [''tmp'', ''x''])" by code_simp
qed

text \<open>
  The condition on \<open>/tmp\<close> is needed: where it is missing, the entry that is taken to override another one does not
  resolve, and the path is read-only under a policy reported as writable everywhere.
\<close>

lemma full_disk_write_without_slash_tmp:
  "has_full_disk_write_access (plain_host\<lparr>host_is_dir := \<lambda>_. False\<rparr>) full_write_policy
   \<and> resolve_access_with_cwd (plain_host\<lparr>host_is_dir := \<lambda>_. False\<rparr>) full_write_policy
       (abs_names [''tmp'', ''x'']) (abs_names [''w'']) = Read"
  by code_simp

theorem full_disk_read_access_sound_witness:
  "can_read_path_with_cwd plain_host full_write_policy (abs_names [''x'']) (abs_names [''w''])"
proof (rule full_disk_read_access_sound [OF plain_host_ok])
  show "abs_from_path plain_host (abs_names [''w'']) = Inr (abs_names [''w''])" by code_simp
  show "has_full_disk_read_access full_write_policy" by code_simp
  show "resolve_candidate_path plain_host (abs_names [''x'']) (abs_names [''w'']) = Some (abs_names [''x''])" by code_simp
qed

text \<open>Nested writable roots: \<open>/w\<close> and, inside its metadata, \<open>/w/.git/sub\<close>.\<close>

definition nested_entries :: "path fs_entry list" where
  "nested_entries =
     [entry_new (PathEntry (abs_names [''w''])) Write, entry_new (PathEntry (abs_names [''w'', ''.git'', ''sub''])) Write]"

theorem metadata_write_needs_explicit_entry_witness:
  "\<exists>r \<in> set (resolved_entries_with_cwd plain_host (fs_restricted nested_entries) (abs_names [])).
   \<exists>e \<in> set (resolved_entries_with_cwd plain_host (fs_restricted nested_entries) (abs_names [])). \<exists>m.
     res_access r = Write \<and> res_access e = Write \<and> is_protected_metadata_name m
     \<and> prefix (res_path r @ [Normal m]) (res_path e) \<and> prefix (res_path e) (abs_names [''w'', ''.git'', ''sub'', ''f''])"
proof (rule metadata_write_needs_explicit_entry [OF plain_host_ok])
  show "fs_kind (fs_restricted nested_entries) = FsRestricted" by code_simp
  show "\<not> has_full_disk_write_access plain_host (fs_restricted nested_entries)" by code_simp
  show "can_write_path_with_cwd plain_host (fs_restricted nested_entries) (abs_names [''w'', ''.git'', ''sub'', ''f''])
    (abs_names [])" by code_simp
  show "resolve_candidate_path plain_host (abs_names [''w'', ''.git'', ''sub'', ''f'']) (abs_names [])
    = Some (abs_names [''w'', ''.git'', ''sub'', ''f''])" by code_simp
  show "\<lparr>res_path = abs_names [''w''], res_access = Write\<rparr>
    \<in> set (resolved_entries_with_cwd plain_host (fs_restricted nested_entries) (abs_names []))" by code_simp
  show "res_access \<lparr>res_path = abs_names [''w''], res_access = Write\<rparr> = Write" by simp
  show "is_protected_metadata_name ''.git''" by code_simp
  show "prefix (res_path \<lparr>res_path = abs_names [''w''], res_access = Write\<rparr> @ [Normal ''.git''])
    (abs_names [''w'', ''.git'', ''sub'', ''f''])" by code_simp
qed

text \<open>
  The order of the entries decides whether the metadata of the inner root is protected: the protected directory is taken
  from the first writable entry above the path, and an inner writable root counts as an explicit entry of the outer one.
\<close>

theorem metadata_protection_depends_on_order:
  "\<exists>entries target.
     can_write_path_with_cwd plain_host (fs_restricted entries) target (abs_names [])
     \<and> \<not> can_write_path_with_cwd plain_host (fs_restricted (rev entries)) target (abs_names [])"
  by (rule exI [of _ nested_entries], rule exI [of _ "abs_names [''w'', ''.git'', ''sub'', ''.git'', ''hooks'']"])
    code_simp


end
