(* ===== verification/Fs_Policy_Update.thy ===== *)
theory Fs_Policy_Update
  imports Fs_Policy
begin

text \<open>
  How file-system permission policies are built and changed (\<open>codex-rs/protocol/src/permissions.rs\<close> and the sandbox
  policies of \<open>codex-rs/protocol/src/protocol.rs\<close>): the workspace policy with its default read-only paths, the translation of
  the older sandbox policies, further readable and writable roots, the denials that are kept when a policy is
  replaced, and the replacement of symbolic project roots by directories.
\<close>

section \<open>Sandbox policies\<close>

datatype network_access = NetworkAccessRestricted | NetworkAccessEnabled

datatype network_sandbox_policy = NetworkRestricted | NetworkEnabled

definition network_is_enabled :: "network_sandbox_policy \<Rightarrow> bool" where
  "network_is_enabled n \<longleftrightarrow> n = NetworkEnabled"

datatype sandbox_policy =
    DangerFullAccess
  | ReadOnly (read_only_network: bool)
  | ExternalSandbox (external_network: network_access)
  | WorkspaceWrite (writable_roots: "path list") (workspace_network: bool)
      (exclude_tmpdir_env_var: bool) (exclude_slash_tmp: bool)

definition new_read_only_policy :: sandbox_policy where
  "new_read_only_policy = ReadOnly False"

definition new_workspace_write_policy :: sandbox_policy where
  "new_workspace_write_policy = WorkspaceWrite [] False False False"

fun sandbox_has_full_disk_write_access :: "sandbox_policy \<Rightarrow> bool" where
  "sandbox_has_full_disk_write_access DangerFullAccess = True"
| "sandbox_has_full_disk_write_access (ExternalSandbox _) = True"
| "sandbox_has_full_disk_write_access (ReadOnly _) = False"
| "sandbox_has_full_disk_write_access (WorkspaceWrite _ _ _ _) = False"

fun has_full_network_access :: "sandbox_policy \<Rightarrow> bool" where
  "has_full_network_access DangerFullAccess = True"
| "has_full_network_access (ExternalSandbox n) = (n = NetworkAccessEnabled)"
| "has_full_network_access (ReadOnly n) = n"
| "has_full_network_access (WorkspaceWrite _ n _ _) = n"

definition network_policy_from :: "sandbox_policy \<Rightarrow> network_sandbox_policy" where
  "network_policy_from L = (if has_full_network_access L then NetworkEnabled else NetworkRestricted)"

section \<open>Effective paths\<close>

definition should_preserve_logical_path :: "('u, 'e) fs_host \<Rightarrow> path \<Rightarrow> bool" where
  "should_preserve_logical_path H logical \<longleftrightarrow>
     list_ex (\<lambda>ancestor.
       (case host_symlink_metadata H ancestor of
          None \<Rightarrow> False
        | Some is_symlink \<Rightarrow>
            is_symlink \<and> (case parent_of_path ancestor of None \<Rightarrow> False | Some q \<Rightarrow> parent_of_path q \<noteq> None)))
       (ancestors logical)"

definition canonicalize_preserving_symlinks :: "('u, 'e) fs_host \<Rightarrow> path \<Rightarrow> 'e + path" where
  "canonicalize_preserving_symlinks H p =
     and_then (abs_from_path H p) (\<lambda>logical.
       let preserve_logical_path = should_preserve_logical_path H logical
       in case host_canonicalize H p of
            Inr canonical \<Rightarrow>
              if preserve_logical_path \<and> canonical \<noteq> logical then Inr logical else Inr canonical
          | Inl _ \<Rightarrow> Inr logical)"

text \<open>The loop over the ancestors: the first one that exists and can be normalised is replaced.\<close>

fun normalize_effective_loop :: "('u, 'e) fs_host \<Rightarrow> path \<Rightarrow> path list \<Rightarrow> path" where
  "normalize_effective_loop H raw [] = raw"
| "normalize_effective_loop H raw (ancestor # rest) =
     (if host_symlink_metadata H ancestor = None then normalize_effective_loop H raw rest
      else (case canonicalize_preserving_symlinks H ancestor of
              Inl _ \<Rightarrow> normalize_effective_loop H raw rest
            | Inr normalized_ancestor \<Rightarrow>
                (case strip_prefix ancestor raw of
                   None \<Rightarrow> normalize_effective_loop H raw rest
                 | Some rel \<Rightarrow>
                     (case abs_from_path H (path_join normalized_ancestor rel) of
                        Inr normalized_path \<Rightarrow> normalized_path
                      | Inl _ \<Rightarrow> normalize_effective_loop H raw rest))))"

definition normalize_effective_absolute_path :: "('u, 'e) fs_host \<Rightarrow> path \<Rightarrow> path" where
  "normalize_effective_absolute_path H p = normalize_effective_loop H p (ancestors p)"

text \<open>\<open>deduped\<close> holds what the set \<open>seen\<close> of the code holds.\<close>

definition dedup_absolute_paths :: "('u, 'e) fs_host \<Rightarrow> path list \<Rightarrow> bool \<Rightarrow> path list" where
  "dedup_absolute_paths H paths normalize_effective_paths =
     foldl (\<lambda>deduped p.
       let dedup_path = (if normalize_effective_paths then normalize_effective_absolute_path H p else p)
       in if dedup_path \<in> set deduped then deduped else deduped @ [dedup_path]) [] paths"

section \<open>Read-only paths of a writable root\<close>

definition is_git_pointer_file :: "('u, 'e) fs_host \<Rightarrow> path \<Rightarrow> bool" where
  "is_git_pointer_file H p \<longleftrightarrow> host_is_file H p \<and> path_file_name p = Some ''.git''"

definition resolve_gitdir_from_file :: "('u, 'e) fs_host \<Rightarrow> path \<Rightarrow> path option" where
  "resolve_gitdir_from_file H dot_git =
     (case host_read_to_string H dot_git of
        Inl _ \<Rightarrow> None
      | Inr contents \<Rightarrow>
          (case split_once (CHR '':'') (trim contents) of
             None \<Rightarrow> None
           | Some (pre, gitdir_raw) \<Rightarrow>
               if trim pre \<noteq> ''gitdir'' then None
               else
                 (let gitdir_raw = trim gitdir_raw
                  in if gitdir_raw = [] then None
                     else (case parent_of_path dot_git of
                             None \<Rightarrow> None
                           | Some base \<Rightarrow>
                               (let gitdir_path = abs_resolve H gitdir_raw base
                                in if \<not> host_exists H gitdir_path then None else Some gitdir_path)))))"

definition default_read_only_subpaths_for_writable_root :: "('u, 'e) fs_host \<Rightarrow> path \<Rightarrow> bool \<Rightarrow> path list" where
  "default_read_only_subpaths_for_writable_root H writable_root protect_missing_dot_codex =
     (let top_level_git = abs_join H writable_root [Normal ''.git''];
          top_level_git_is_file = host_is_file H top_level_git;
          top_level_git_is_dir = host_is_dir H top_level_git;
          git = (if top_level_git_is_dir \<or> top_level_git_is_file
                 then (if top_level_git_is_file \<and> is_git_pointer_file H top_level_git
                       then (case resolve_gitdir_from_file H top_level_git of None \<Rightarrow> [] | Some gitdir \<Rightarrow> [gitdir])
                       else []) @ [top_level_git]
                 else []);
          top_level_agents = abs_join H writable_root [Normal ''.agents''];
          agents = (if host_is_dir H top_level_agents then [top_level_agents] else []);
          top_level_codex = abs_join H writable_root [Normal ''.codex''];
          codex = (if protect_missing_dot_codex \<or> host_is_dir H top_level_codex then [top_level_codex] else [])
      in dedup_absolute_paths H (git @ agents @ codex) False)"

definition append_default_read_only_entry_if_no_explicit_rule ::
    "('u, 'e) fs_host \<Rightarrow> 'u fs_entry list \<Rightarrow> 'u fs_path \<Rightarrow> 'u fs_entry list" where
  "append_default_read_only_entry_if_no_explicit_rule H entries p =
     (if list_ex (\<lambda>e. file_system_paths_share_target H (entry_path e) p) entries then entries
      else entries @ [entry_skip_missing_path p Read])"

definition append_default_read_only_path_if_no_explicit_rule ::
    "('u, 'e) fs_host \<Rightarrow> 'u fs_entry list \<Rightarrow> path \<Rightarrow> 'u fs_entry list" where
  "append_default_read_only_path_if_no_explicit_rule H entries p =
     append_default_read_only_entry_if_no_explicit_rule H entries (PathEntry (uri_from_abs_path H p))"

definition append_default_read_only_project_root_subpath_if_no_explicit_rule ::
    "('u, 'e) fs_host \<Rightarrow> 'u fs_entry list \<Rightarrow> str \<Rightarrow> 'u fs_entry list" where
  "append_default_read_only_project_root_subpath_if_no_explicit_rule H entries subpath =
     append_default_read_only_entry_if_no_explicit_rule H entries (SpecialEntry (ProjectRoots (Some subpath)))"

text \<open>The loop over the default read-only paths of a root.\<close>

definition append_default_read_only_paths :: "('u, 'e) fs_host \<Rightarrow> bool \<Rightarrow> 'u fs_entry list \<Rightarrow> path \<Rightarrow> 'u fs_entry list" where
  "append_default_read_only_paths H protect_missing_dot_codex entries root =
     foldl (append_default_read_only_path_if_no_explicit_rule H) entries
       (default_read_only_subpaths_for_writable_root H root protect_missing_dot_codex)"

section \<open>The workspace policy and the older policies\<close>

definition workspace_base_entries :: "('u, 'e) fs_host \<Rightarrow> path list \<Rightarrow> bool \<Rightarrow> bool \<Rightarrow> 'u fs_entry list" where
  "workspace_base_entries H roots ex_tmpdir ex_slash_tmp =
     [entry_new (SpecialEntry SpecialRoot) Read, entry_new (SpecialEntry (ProjectRoots None)) Write]
     @ (if \<not> ex_slash_tmp then [entry_new (SpecialEntry SlashTmp) Write] else [])
     @ (if \<not> ex_tmpdir then [entry_new (SpecialEntry SpecialTmpdir) Write] else [])
     @ map (\<lambda>p. entry_new (PathEntry (uri_from_abs_path H p)) Write) roots"

definition fs_workspace_write :: "('u, 'e) fs_host \<Rightarrow> path list \<Rightarrow> bool \<Rightarrow> bool \<Rightarrow> 'u fs_policy" where
  "fs_workspace_write H roots ex_tmpdir ex_slash_tmp =
     (let entries = workspace_base_entries H roots ex_tmpdir ex_slash_tmp;
          entries = append_default_read_only_project_root_subpath_if_no_explicit_rule H entries ''.git'';
          entries = append_default_read_only_project_root_subpath_if_no_explicit_rule H entries ''.agents'';
          entries = append_default_read_only_project_root_subpath_if_no_explicit_rule H entries ''.codex''
      in fs_restricted (foldl (append_default_read_only_paths H False) entries roots))"

fun fs_policy_from :: "('u, 'e) fs_host \<Rightarrow> sandbox_policy \<Rightarrow> 'u fs_policy" where
  "fs_policy_from H DangerFullAccess = fs_unrestricted"
| "fs_policy_from H (ExternalSandbox _) = fs_external_sandbox"
| "fs_policy_from H (ReadOnly _) = fs_restricted [entry_new (SpecialEntry SpecialRoot) Read]"
| "fs_policy_from H (WorkspaceWrite roots _ ex_tmpdir ex_slash_tmp) = fs_workspace_write H roots ex_tmpdir ex_slash_tmp"

text \<open>The default read-only paths of the working directory and of every writable root.\<close>

definition append_workspace_defaults ::
    "('u, 'e) fs_host \<Rightarrow> path list \<Rightarrow> path \<Rightarrow> 'u fs_entry list \<Rightarrow> 'u fs_entry list" where
  "append_workspace_defaults H roots cwd entries =
     (let entries = (case abs_from_path H cwd of
                       Inr cwd_root \<Rightarrow> append_default_read_only_paths H True entries cwd_root
                     | Inl _ \<Rightarrow> entries)
      in foldl (append_default_read_only_paths H False) entries roots)"

definition from_legacy_sandbox_policy_for_cwd :: "('u, 'e) fs_host \<Rightarrow> sandbox_policy \<Rightarrow> path \<Rightarrow> 'u fs_policy" where
  "from_legacy_sandbox_policy_for_cwd H L cwd =
     (let P = fs_policy_from H L
      in case L of
           WorkspaceWrite roots _ _ _ \<Rightarrow> P\<lparr>fs_entries := append_workspace_defaults H roots cwd (fs_entries P)\<rparr>
         | _ \<Rightarrow> P)"

definition legacy_runtime_file_system_policy_for_cwd :: "('u, 'e) fs_host \<Rightarrow> sandbox_policy \<Rightarrow> path \<Rightarrow> 'u fs_policy" where
  "legacy_runtime_file_system_policy_for_cwd H L cwd =
     (case L of
        WorkspaceWrite roots _ ex_tmpdir ex_slash_tmp \<Rightarrow>
          fs_restricted (append_workspace_defaults H roots cwd (workspace_base_entries H roots ex_tmpdir ex_slash_tmp))
      | _ \<Rightarrow> fs_policy_from H L)"

section \<open>Denials that are kept\<close>

definition push_missing_entries :: "'u fs_entry list \<Rightarrow> 'u fs_entry list \<Rightarrow> 'u fs_entry list" where
  "push_missing_entries entries new = foldl (\<lambda>es e. if e \<in> set es then es else es @ [e]) entries new"

definition deny_entries :: "'u fs_policy \<Rightarrow> 'u fs_entry list" where
  "deny_entries P = filter (\<lambda>e. entry_access e = Deny) (fs_entries P)"

definition from_legacy_sandbox_policy_preserving_deny_entries ::
    "('u, 'e) fs_host \<Rightarrow> sandbox_policy \<Rightarrow> path \<Rightarrow> 'u fs_policy \<Rightarrow> 'u fs_policy" where
  "from_legacy_sandbox_policy_preserving_deny_entries H L cwd existing =
     (let rebuilt = from_legacy_sandbox_policy_for_cwd H L cwd
      in if fs_kind rebuilt \<noteq> FsRestricted then rebuilt
         else rebuilt\<lparr>glob_scan_max_depth := glob_scan_max_depth existing,
                      fs_entries := push_missing_entries (fs_entries rebuilt) (deny_entries existing)\<rparr>)"

definition preserve_deny_read_restrictions_from :: "'u fs_policy \<Rightarrow> 'u fs_policy \<Rightarrow> 'u fs_policy" where
  "preserve_deny_read_restrictions_from P existing =
     (let has_deny_read_entries = list_ex (\<lambda>e. entry_access e = Deny) (fs_entries existing);
          P = (if fs_kind P = FsUnrestricted \<and> has_deny_read_entries
               then fs_restricted [entry_new (SpecialEntry SpecialRoot) Write] else P)
      in if fs_kind P \<noteq> FsRestricted then P
         else P\<lparr>glob_scan_max_depth := (case glob_scan_max_depth P of
                                          None \<Rightarrow> glob_scan_max_depth existing
                                        | Some d \<Rightarrow> Some d),
                fs_entries := push_missing_entries (fs_entries P) (deny_entries existing)\<rparr>)"

section \<open>Symbolic project roots\<close>

definition PROJECT_ROOTS_GLOB_PATTERN_PREFIX :: str where
  "PROJECT_ROOTS_GLOB_PATTERN_PREFIX = ''codex-project-roots://''"

definition project_roots_glob_pattern :: "str \<Rightarrow> str" where
  "project_roots_glob_pattern subpath = PROJECT_ROOTS_GLOB_PATTERN_PREFIX @ subpath"

definition parse_project_roots_glob_pattern :: "str \<Rightarrow> str option" where
  "parse_project_roots_glob_pattern pattern = strip_prefix PROJECT_ROOTS_GLOB_PATTERN_PREFIX pattern"

definition resolve_project_roots_glob_pattern :: "('u, 'e) fs_host \<Rightarrow> str \<Rightarrow> path \<Rightarrow> str" where
  "resolve_project_roots_glob_pattern H subpath root = path_string (abs_resolve H subpath root)"

definition materialize_entry_with_cwd :: "('u, 'e) fs_host \<Rightarrow> path option \<Rightarrow> 'u fs_entry \<Rightarrow> 'u fs_entry" where
  "materialize_entry_with_cwd H cwd e =
     (case entry_path e of
        SpecialEntry (ProjectRoots _) \<Rightarrow>
          (case resolve_file_system_path H (entry_path e) cwd of
             None \<Rightarrow> e
           | Some p \<Rightarrow> e\<lparr>entry_path := PathEntry (uri_from_abs_path H p)\<rparr>)
      | GlobPattern pattern \<Rightarrow>
          (case (cwd, parse_project_roots_glob_pattern pattern) of
             (Some cwd, Some subpath) \<Rightarrow>
               e\<lparr>entry_path := GlobPattern (resolve_project_roots_glob_pattern H subpath cwd)\<rparr>
           | _ \<Rightarrow> e)
      | _ \<Rightarrow> e)"

definition materialize_project_roots_with_cwd :: "('u, 'e) fs_host \<Rightarrow> 'u fs_policy \<Rightarrow> path \<Rightarrow> 'u fs_policy" where
  "materialize_project_roots_with_cwd H P cwd =
     P\<lparr>fs_entries := map (materialize_entry_with_cwd H (result_ok (abs_from_path H cwd))) (fs_entries P)\<rparr>"

definition materialize_entry_with_workspace_roots ::
    "('u, 'e) fs_host \<Rightarrow> path list \<Rightarrow> 'u fs_entry \<Rightarrow> 'u fs_entry list" where
  "materialize_entry_with_workspace_roots H workspace_roots e =
     (case entry_path e of
        SpecialEntry (ProjectRoots subpath) \<Rightarrow>
          map (\<lambda>root. e\<lparr>entry_path := PathEntry (uri_from_abs_path H
                 (case subpath of Some s \<Rightarrow> abs_resolve H s root | None \<Rightarrow> root))\<rparr>) workspace_roots
      | GlobPattern pattern \<Rightarrow>
          (case parse_project_roots_glob_pattern pattern of
             Some subpath \<Rightarrow>
               map (\<lambda>root. e\<lparr>entry_path := GlobPattern (resolve_project_roots_glob_pattern H subpath root)\<rparr>)
                 workspace_roots
           | None \<Rightarrow> [e])
      | _ \<Rightarrow> [e])"

definition materialize_project_roots_with_workspace_roots ::
    "('u, 'e) fs_host \<Rightarrow> 'u fs_policy \<Rightarrow> path list \<Rightarrow> 'u fs_policy" where
  "materialize_project_roots_with_workspace_roots H P workspace_roots =
     P\<lparr>fs_entries := concat (map (materialize_entry_with_workspace_roots H workspace_roots) (fs_entries P))\<rparr>"

definition with_materialized_project_roots_for_workspace_roots ::
    "('u, 'e) fs_host \<Rightarrow> 'u fs_policy \<Rightarrow> path list \<Rightarrow> 'u fs_policy" where
  "with_materialized_project_roots_for_workspace_roots H P workspace_roots =
     P\<lparr>fs_entries := push_missing_entries (fs_entries P)
         (fs_entries (materialize_project_roots_with_workspace_roots H P workspace_roots))\<rparr>"

section \<open>Further roots\<close>

definition push_entry :: "'u fs_policy \<Rightarrow> 'u fs_entry \<Rightarrow> 'u fs_policy" where
  "push_entry P e = P\<lparr>fs_entries := fs_entries P @ [e]\<rparr>"

definition with_additional_readable_roots :: "('u, 'e) fs_host \<Rightarrow> 'u fs_policy \<Rightarrow> path \<Rightarrow> path list \<Rightarrow> 'u fs_policy" where
  "with_additional_readable_roots H P cwd roots =
     (if has_full_disk_read_access P then P
      else foldl (\<lambda>P p.
             if can_read_path_with_cwd H P p cwd then P
             else push_entry P (entry_new (PathEntry (uri_from_abs_path H p)) Read)) P roots)"

definition with_additional_writable_roots :: "('u, 'e) fs_host \<Rightarrow> 'u fs_policy \<Rightarrow> path \<Rightarrow> path list \<Rightarrow> 'u fs_policy" where
  "with_additional_writable_roots H P cwd roots =
     foldl (\<lambda>P p.
       if can_write_path_with_cwd H P p cwd then P
       else push_entry P (entry_new (PathEntry (uri_from_abs_path H p)) Write)) P roots"

definition with_additional_legacy_workspace_writable_roots ::
    "('u, 'e) fs_host \<Rightarrow> 'u fs_policy \<Rightarrow> path list \<Rightarrow> 'u fs_policy" where
  "with_additional_legacy_workspace_writable_roots H P roots =
     (if fs_kind P \<noteq> FsRestricted then P
      else foldl (\<lambda>P p.
             let P = (if list_ex (\<lambda>e. can_write (entry_access e)
                            \<and> entry_path e = PathEntry (uri_from_abs_path H p)) (fs_entries P) then P
                      else push_entry P (entry_new (PathEntry (uri_from_abs_path H p)) Write))
             in P\<lparr>fs_entries := append_default_read_only_paths H False (fs_entries P) p\<rparr>) P roots)"

section \<open>Updates that append entries\<close>

text \<open>
  The contract several updates share: a restricted policy stays restricted and keeps its entries, and the entries
  that are appended have one of the given access modes.
\<close>

locale entry_appending =
  fixes upd :: "'u fs_policy \<Rightarrow> 'u fs_policy" and added :: "access_mode set"
  assumes appends: "fs_kind P = FsRestricted \<Longrightarrow>
    fs_kind (upd P) = FsRestricted
    \<and> (\<exists>new. fs_entries (upd P) = fs_entries P @ new \<and> entry_access ` set new \<subseteq> added)"

lemma resolved_entries_append:
  assumes "fs_entries Q = fs_entries P @ new"
  shows "resolved_entries_with_cwd H Q cwd = resolved_entries_with_cwd H P cwd
    @ resolved_entries_with_cwd H (P\<lparr>fs_entries := new\<rparr>) cwd"
  by (simp add: resolved_entries_with_cwd_def assms map_filter_append Let_def)

lemma access_of_append:
  "access_of (rs @ new) q = access_of rs q \<or>
     (\<exists>e \<in> set new. prefix (res_path e) q \<and> decided_by (rs @ new) q e \<and> access_of (rs @ new) q = res_access e)"
proof (cases "\<exists>e \<in> set (rs @ new). prefix (res_path e) q")
  case True
  then obtain m where m: "decided_by (rs @ new) q m" "access_of (rs @ new) q = res_access m"
    using decided_by_ex by blast
  show ?thesis
  proof (cases "m \<in> set rs")
    case True
    then have "decided_by rs q m" using m(1) by (simp add: decided_by_def)
    then show ?thesis using m(2) by (simp add: access_of_decided)
  next
    case False
    then show ?thesis using m decided_byD(1,2) [OF m(1)] by auto
  qed
next
  case False
  then show ?thesis using access_of_none [of "rs @ new" q] access_of_none [of rs q] by fastforce
qed

context entry_appending
begin

lemma access_after:
  assumes "fs_kind P = FsRestricted"
  shows "resolve_access_with_cwd H (upd P) q cwd \<in> insert (resolve_access_with_cwd H P q cwd) added"
proof (cases "resolve_candidate_path H q cwd")
  case None
  then show ?thesis using assms appends [OF assms] by (simp add: resolve_access_with_cwd_def)
next
  case (Some q')
  obtain new where new: "fs_entries (upd P) = fs_entries P @ new" "entry_access ` set new \<subseteq> added"
    using appends [OF assms] by blast
  have "res_access e \<in> added" if "e \<in> set (resolved_entries_with_cwd H (P\<lparr>fs_entries := new\<rparr>) cwd)" for e
    using that new(2) by (auto simp: set_resolved_entries)
  then show ?thesis
    using access_of_append [of "resolved_entries_with_cwd H P cwd" "resolved_entries_with_cwd H (P\<lparr>fs_entries := new\<rparr>) cwd" q']
    by (auto simp: resolve_access_restricted [OF assms Some] appends [OF assms] resolve_access_restricted [OF _ Some]
        resolved_entries_append [OF new(1)])
qed

lemma root_access_kept:
  "has_root_access P pred \<Longrightarrow> has_root_access (upd P) pred"
  using appends [of P] by (auto simp: has_root_access_def)

lemma entries_kept:
  "fs_kind P = FsRestricted \<Longrightarrow> e \<in> set (fs_entries P) \<Longrightarrow> e \<in> set (fs_entries (upd P))"
  using appends [of P] by auto

end

text \<open>A fold of appending steps appends.\<close>

definition appends_to :: "access_mode set \<Rightarrow> 'u fs_policy \<Rightarrow> 'u fs_policy \<Rightarrow> bool" where
  "appends_to A P Q \<longleftrightarrow>
     fs_kind Q = fs_kind P \<and> (\<exists>new. fs_entries Q = fs_entries P @ new \<and> entry_access ` set new \<subseteq> A)"

lemma appends_to_refl [simp, intro]: "appends_to A P P"
  by (simp add: appends_to_def)

lemma appends_to_trans: "appends_to A P Q \<Longrightarrow> appends_to A Q R \<Longrightarrow> appends_to A P R"
  by (fastforce simp: appends_to_def)

lemma appends_to_push: "entry_access e \<in> A \<Longrightarrow> appends_to A P (push_entry P e)"
  by (simp add: appends_to_def push_entry_def)

lemma appends_to_foldl:
  "(\<And>Q x. appends_to A Q (step Q x)) \<Longrightarrow> appends_to A P (foldl step P xs)"
  by (induction xs rule: rev_induct) (auto intro: appends_to_trans)

lemma push_missing_appends:
  "\<exists>new. push_missing_entries es xs = es @ new \<and> set new \<subseteq> set xs"
proof (induction xs rule: rev_induct)
  case (snoc x xs)
  then obtain new where "push_missing_entries es xs = es @ new" "set new \<subseteq> set xs" by blast
  then show ?case
    by (cases "x \<in> set es \<union> set new") (auto simp: push_missing_entries_def intro: exI [of _ "new @ [x]"])
qed (simp add: push_missing_entries_def)

lemma set_push_missing: "set (push_missing_entries es xs) = set es \<union> set xs"
  by (induction xs rule: rev_induct) (auto simp: push_missing_entries_def)

lemma append_default_appends:
  "\<exists>new. append_default_read_only_entry_if_no_explicit_rule H es p = es @ new \<and> entry_access ` set new \<subseteq> {Read}"
  by (simp add: append_default_read_only_entry_if_no_explicit_rule_def entry_skip_missing_path_def)

lemma foldl_appends:
  assumes "\<And>es x. \<exists>new. f es x = es @ new \<and> Q new" "Q []" "\<And>a b. Q a \<Longrightarrow> Q b \<Longrightarrow> Q (a @ b)"
  shows "\<exists>new. foldl f es xs = es @ new \<and> Q new"
proof (induction xs rule: rev_induct)
  case Nil
  then show ?case using assms(2) by simp
next
  case (snoc x xs)
  then obtain new where new: "foldl f es xs = es @ new" "Q new" by blast
  obtain more where "f (es @ new) x = (es @ new) @ more" "Q more" using assms(1) by blast
  with new assms(3) show ?case by auto
qed

lemma append_default_paths_appends:
  "\<exists>new. append_default_read_only_paths H b es root = es @ new \<and> entry_access ` set new \<subseteq> {Read}"
  unfolding append_default_read_only_paths_def append_default_read_only_path_if_no_explicit_rule_def
  using append_default_appends by (intro foldl_appends) auto

interpretation readable_roots: entry_appending "\<lambda>P. with_additional_readable_roots H P cwd roots" "{Read}" for H cwd roots
proof
  fix P :: "'a fs_policy"
  have "appends_to {Read} P (with_additional_readable_roots H P cwd roots)"
    unfolding with_additional_readable_roots_def
    by (auto intro!: appends_to_foldl appends_to_push simp: entry_new_def)
  then show "fs_kind P = FsRestricted \<Longrightarrow> fs_kind (with_additional_readable_roots H P cwd roots) = FsRestricted
    \<and> (\<exists>new. fs_entries (with_additional_readable_roots H P cwd roots) = fs_entries P @ new \<and> entry_access ` set new \<subseteq> {Read})"
    by (simp add: appends_to_def)
qed

interpretation writable_roots: entry_appending "\<lambda>P. with_additional_writable_roots H P cwd roots" "{Write}" for H cwd roots
proof
  fix P :: "'a fs_policy"
  have "appends_to {Write} P (with_additional_writable_roots H P cwd roots)"
    unfolding with_additional_writable_roots_def
    by (auto intro!: appends_to_foldl appends_to_push simp: entry_new_def)
  then show "fs_kind P = FsRestricted \<Longrightarrow> fs_kind (with_additional_writable_roots H P cwd roots) = FsRestricted
    \<and> (\<exists>new. fs_entries (with_additional_writable_roots H P cwd roots) = fs_entries P @ new \<and> entry_access ` set new \<subseteq> {Write})"
    by (simp add: appends_to_def)
qed

interpretation deny_kept: entry_appending "\<lambda>P. preserve_deny_read_restrictions_from P existing" "{Deny}" for existing
proof
  fix P :: "'a fs_policy"
  assume "fs_kind P = FsRestricted"
  then show "fs_kind (preserve_deny_read_restrictions_from P existing) = FsRestricted
    \<and> (\<exists>new. fs_entries (preserve_deny_read_restrictions_from P existing) = fs_entries P @ new \<and> entry_access ` set new \<subseteq> {Deny})"
    using push_missing_appends [of "fs_entries P" "deny_entries existing"]
    by (fastforce simp: preserve_deny_read_restrictions_from_def Let_def deny_entries_def)
qed


interpretation legacy_roots: entry_appending "\<lambda>P. with_additional_legacy_workspace_writable_roots H P roots" "{Read, Write}"
  for H roots
proof
  fix P :: "'a fs_policy"
  have step: "appends_to {Read, Write} P (P\<lparr>fs_entries := append_default_read_only_paths H False (fs_entries P) p\<rparr>)"
    for P :: "'a fs_policy" and p
    using append_default_paths_appends [of H False "fs_entries P" p] by (fastforce simp: appends_to_def)
  have "appends_to {Read, Write} P (with_additional_legacy_workspace_writable_roots H P roots)"
    unfolding with_additional_legacy_workspace_writable_roots_def Let_def
    by (auto intro!: appends_to_foldl appends_to_trans [OF appends_to_push step] step simp: entry_new_def)
  then show "fs_kind P = FsRestricted \<Longrightarrow> fs_kind (with_additional_legacy_workspace_writable_roots H P roots) = FsRestricted
    \<and> (\<exists>new. fs_entries (with_additional_legacy_workspace_writable_roots H P roots) = fs_entries P @ new
        \<and> entry_access ` set new \<subseteq> {Read, Write})"
    by (simp add: appends_to_def)
qed

section \<open>Further roots only add access\<close>

lemma resolved_entries_push_path:
  assumes "host_ok H" "normalized_absolute p"
  shows "resolved_entries_with_cwd H (push_entry P (entry_new (PathEntry (uri_from_abs_path H p)) a)) cwd
    = resolved_entries_with_cwd H P cwd @ [\<lparr>res_path = p, res_access = a\<rparr>]"
  using assms by (simp add: resolved_entries_with_cwd_def push_entry_def entry_new_def map_filter_append
      resolve_entry_path_def host_ok_def List.map_filter_simps Let_def)

lemma push_kind [simp]: "fs_kind (push_entry P e) = fs_kind P"
  by (simp add: push_entry_def)

lemma full_disk_write_push:
  assumes "has_full_disk_write_access H P" "entry_access e = Write"
  shows "has_full_disk_write_access H (push_entry P e)"
proof -
  have "narrows_write H P d" if "narrows_write H (push_entry P e) d" for d
    using that by (auto simp: narrows_write_def has_same_target_write_override_def push_entry_def
        split: if_splits fs_path.splits special_path.splits)
  moreover have "\<not> narrows_write H (push_entry P e) e" using assms(2) by (simp add: narrows_write_def can_write_def)
  ultimately show ?thesis using assms
    by (auto simp: has_full_disk_write_access_def has_root_access_def has_write_narrowing_entries_def push_entry_def
        list_ex_iff split: fs_sandbox_kind.splits)
qed

lemma prefix_decided:
  assumes "decided_by rs q m" "prefix (res_path m) p" "prefix p q"
  shows "decided_by rs p m"
  using assms prefix_order.trans [of _ p q] by (fastforce simp: decided_by_def)

lemma metadata_child_push:
  assumes "resolved_entries_with_cwd H Q cwd = resolved_entries_with_cwd H P cwd @ [e]" "res_access e = Write"
  shows "metadata_child_of_writable_root H Q q cwd =
     (case metadata_child_of_writable_root H P q cwd of Some c \<Rightarrow> Some c | None \<Rightarrow> metadata_child H q e)"
  using assms by (auto simp: metadata_child_of_writable_root_def map_filter_append can_write_def List.map_filter_simps
      split: list.splits option.splits)

lemma metadata_child_below:
  assumes "host_ok H" "normalized_absolute p" "normalized_absolute q" "prefix p q"
    and "metadata_child_of_writable_root H P p cwd = Some c"
  shows "metadata_child_of_writable_root H P q cwd \<noteq> None"
proof
  assume none: "metadata_child_of_writable_root H P q cwd = None"
  obtain d n where c: "c = (d, n)" by (cases c)
  obtain r where r: "r \<in> set (resolved_entries_with_cwd H P cwd)" "res_access r = Write" "metadata_child H p r = Some (d, n)"
    using metadata_child_of_writable_root_Some assms(5) c by blast
  have nr: "normalized_absolute (res_path r)" by (rule resolved_entries_normalized [OF assms(1) r(1)])
  have "metadata_child H q r = Some (d, n)"
    using r(3) assms(4) prefix_order.trans [of _ p q] by (auto simp: metadata_child_Some_iff [OF nr] assms(2,3))
  then show False using metadata_child_of_writable_root_None [OF none r(1,2)] by simp
qed

text \<open>One further writable root that was not writable before takes no write access away.\<close>

lemma push_writable_root_keeps:
  assumes ok: "host_ok H" and p: "normalized_absolute p" and R: "fs_kind P = FsRestricted"
    and not_p: "\<not> can_write_path_with_cwd H P p cwd" and can: "can_write_path_with_cwd H P q cwd"
  shows "can_write_path_with_cwd H (push_entry P (entry_new (PathEntry (uri_from_abs_path H p)) Write)) q cwd"
proof -
  let ?rs = "resolved_entries_with_cwd H P cwd" and ?e = "\<lparr>res_path = p, res_access = Write\<rparr>"
  let ?Q = "push_entry P (entry_new (PathEntry (uri_from_abs_path H p)) Write)"
  have rs: "resolved_entries_with_cwd H ?Q cwd = ?rs @ [?e]" by (rule resolved_entries_push_path [OF ok p])
  have RQ: "fs_kind ?Q = FsRestricted" using R by simp
  obtain q' where q': "resolve_candidate_path H q cwd = Some q'" "access_of ?rs q' = Write"
    using can_write_resolves [OF can R] by blast
  have nq: "normalized_absolute q'" by (rule resolve_candidate_normalized [OF ok q'(1)])
  have "access_of (?rs @ [?e]) q' = Write" using access_of_append [of ?rs "[?e]" q'] q'(2) by auto
  then have acc: "can_write (resolve_access_with_cwd H ?Q q cwd)"
    by (simp add: resolve_access_restricted [OF RQ q'(1)] rs can_write_def)
  have "\<not> is_metadata_write_denied H ?Q q cwd" if nf: "\<not> has_full_disk_write_access H P"
  proof (cases "metadata_child_of_writable_root H P q' cwd")
    case (Some c)
    have "\<not> is_metadata_write_denied H P q cwd" using can nf by (simp add: can_write_path_with_cwd_def split: if_splits)
    then show ?thesis using R q' Some metadata_child_push [OF rs, of q']
      by (auto simp: is_metadata_write_denied_def has_explicit_write_entry_for_metadata_path_def rs split: prod.splits)
  next
    case None
    have child: "metadata_child_of_writable_root H ?Q q' cwd = metadata_child H q' ?e"
      using metadata_child_push [OF rs, of q'] None by simp
    obtain m where m: "decided_by ?rs q' m" "res_access m = Write" using access_of_allows [of ?rs q'] q'(2) by auto
    have explicit: "prefix d (res_path m)" if "metadata_child H q' ?e = Some (d, n)" for d n
    proof -
      have d: "d = p @ [Normal n]" "prefix d q'" using that metadata_child_Some_iff [of ?e q'] p nq by auto
      have "\<not> prefix (res_path m) p"
      proof
        assume mp: "prefix (res_path m) p"
        have pq: "prefix p q'" using d by (simp add: append_prefixD)
        have "access_of ?rs p = Write" using access_of_decided [OF prefix_decided [OF m(1) mp pq]] m(2) by simp
        then have "is_metadata_write_denied H P p cwd"
          using not_p nf resolve_access_restricted [OF R resolve_candidate_id [OF p, of H cwd]]
          by (simp add: can_write_path_with_cwd_def can_write_def split: if_splits)
        then obtain c where "metadata_child_of_writable_root H P p cwd = Some c"
          using R by (auto simp: is_metadata_write_denied_def resolve_candidate_id [OF p] split: option.splits)
        then show False using metadata_child_below [OF ok p nq pq] None by blast
      qed
      then show ?thesis using d decided_byD(2) [OF m(1)] prefix_same_cases [of "res_path m" q' d]
        by (auto simp: prefix_snoc)
    qed
    show ?thesis using R q'(1) child explicit decided_byD(1,2) [OF m(1)] m(2)
      by (auto simp: is_metadata_write_denied_def has_explicit_write_entry_for_metadata_path_def rs starts_with_prefix
          can_write_def list_ex_iff split: option.splits)
  qed
  moreover have "has_full_disk_write_access H ?Q" if "has_full_disk_write_access H P"
    by (rule full_disk_write_push [OF that]) (simp add: entry_new_def)
  ultimately show ?thesis using acc by (auto simp: can_write_path_with_cwd_def)
qed

text \<open>After the push the root itself is writable, unless an entry denies exactly this path.\<close>

lemma push_writable_root_grants:
  assumes ok: "host_ok H" and p: "normalized_absolute p" and R: "fs_kind P = FsRestricted"
    and no_deny: "\<lparr>res_path = p, res_access = Deny\<rparr> \<notin> set (resolved_entries_with_cwd H P cwd)"
  shows "can_write_path_with_cwd H (push_entry P (entry_new (PathEntry (uri_from_abs_path H p)) Write)) p cwd"
proof -
  let ?rs = "resolved_entries_with_cwd H P cwd" and ?e = "\<lparr>res_path = p, res_access = Write\<rparr>"
  let ?Q = "push_entry P (entry_new (PathEntry (uri_from_abs_path H p)) Write)"
  have rs: "resolved_entries_with_cwd H ?Q cwd = ?rs @ [?e]" by (rule resolved_entries_push_path [OF ok p])
  have RQ: "fs_kind ?Q = FsRestricted" using R by simp
  have "res_access e \<le> Write" if "e \<in> set ?rs" "res_path e = p" for e
    using no_deny that by (cases e; cases "res_access e") (auto simp: less_eq_access_mode_def)
  then have "res_access e \<le> res_access ?e" if "e \<in> set (?rs @ [?e])" "res_path e = p" for e
    using that by (cases "e = ?e") auto
  then have "decided_by (?rs @ [?e]) p ?e" by (intro decided_by_own_path) simp_all
  then have acc: "can_write (resolve_access_with_cwd H ?Q p cwd)"
    by (simp add: resolve_access_restricted [OF RQ resolve_candidate_id [OF p]] rs access_of_decided can_write_def)
  have "prefix d p" if child: "metadata_child_of_writable_root H ?Q p cwd = Some (d, n)" for d n
  proof -
    obtain r where r: "r \<in> set (?rs @ [?e])" "metadata_child H p r = Some (d, n)"
      using metadata_child_of_writable_root_Some [OF child] rs by auto
    then have "normalized_absolute (res_path r)" using resolved_entries_normalized [OF ok] p by auto
    then show ?thesis using r(2) by (auto simp: metadata_child_Some_iff p)
  qed
  then have "\<not> is_metadata_write_denied H ?Q p cwd"
    by (auto simp: is_metadata_write_denied_def resolve_candidate_id [OF p] starts_with_prefix rs can_write_def
        has_explicit_write_entry_for_metadata_path_def split: option.splits)
  then show ?thesis using acc by (simp add: can_write_path_with_cwd_def)
qed


lemma with_additional_writable_roots_Nil [simp]: "with_additional_writable_roots H P cwd [] = P"
  by (simp add: with_additional_writable_roots_def)

lemma with_additional_writable_roots_Cons:
  "with_additional_writable_roots H P cwd (p # roots) =
     with_additional_writable_roots H
       (if can_write_path_with_cwd H P p cwd then P
        else push_entry P (entry_new (PathEntry (uri_from_abs_path H p)) Write)) cwd roots"
  by (simp add: with_additional_writable_roots_def)

lemma unrestricted_can_write: "fs_kind P \<noteq> FsRestricted \<Longrightarrow> can_write_path_with_cwd H P p cwd"
  by (cases "fs_kind P") (simp_all add: can_write_path_with_cwd_def resolve_access_not_restricted can_write_def
      has_full_disk_write_access_def)

lemma additional_writable_roots_keep:
  assumes "host_ok H" "list_all normalized_absolute roots" "can_write_path_with_cwd H P q cwd"
  shows "can_write_path_with_cwd H (with_additional_writable_roots H P cwd roots) q cwd"
  using assms(2,3)
proof (induction roots arbitrary: P)
  case (Cons p roots)
  let ?Q = "push_entry P (entry_new (PathEntry (uri_from_abs_path H p)) Write)"
  have "can_write_path_with_cwd H ?Q q cwd" if "\<not> can_write_path_with_cwd H P p cwd"
  proof (cases "fs_kind P = FsRestricted")
    case True
    show ?thesis using push_writable_root_keeps [OF assms(1) _ True that Cons.prems(2)] Cons.prems(1) by simp
  next
    case False
    then show ?thesis using unrestricted_can_write [of ?Q] by simp
  qed
  then show ?case using Cons by (simp add: with_additional_writable_roots_Cons)
qed simp

text \<open>
  Adding writable roots takes no write access away: what could be written before can be written after.
\<close>

theorem additional_writable_roots_keep_access:
  assumes "host_ok H" and "list_all normalized_absolute roots" and "can_write_path_with_cwd H P q cwd"
  shows "can_write_path_with_cwd H (with_additional_writable_roots H P cwd roots) q cwd"
  using assms by (rule additional_writable_roots_keep)

lemma deny_entry_not_writable:
  assumes "normalized_absolute p" "fs_kind P = FsRestricted"
    and "\<lparr>res_path = p, res_access = Deny\<rparr> \<in> set (resolved_entries_with_cwd H P cwd)"
  shows "resolve_access_with_cwd H P p cwd = Deny" and "\<not> can_write_path_with_cwd H P p cwd"
proof -
  have "access_of (resolved_entries_with_cwd H P cwd) p = Deny"
    by (rule access_of_Deny_entry [OF assms(3)]) (auto dest: prefix_length_le)
  then show "resolve_access_with_cwd H P p cwd = Deny"
    by (simp add: resolve_access_restricted [OF assms(2) resolve_candidate_id [OF assms(1)]])
  then show "\<not> can_write_path_with_cwd H P p cwd" by (simp add: can_write_path_with_cwd_def can_write_def)
qed

lemma resolved_writable_roots:
  assumes "fs_kind P = FsRestricted"
  shows "\<exists>new. resolved_entries_with_cwd H (with_additional_writable_roots H P cwd roots) c
    = resolved_entries_with_cwd H P c @ new \<and> (\<forall>e \<in> set new. res_access e = Write)"
proof -
  obtain new where new: "fs_entries (with_additional_writable_roots H P cwd roots) = fs_entries P @ new"
      "entry_access ` set new \<subseteq> {Write}"
    using writable_roots.appends [OF assms] by blast
  show ?thesis unfolding resolved_entries_append [OF new(1)] using new(2) by (fastforce simp: set_resolved_entries)
qed

text \<open>
  After adding writable roots to a restricted policy, each of these roots is writable, unless an entry of the policy denies
  exactly its path, in which case the root stays denied.
\<close>

theorem additional_writable_roots_granted:
  assumes "host_ok H" and "list_all normalized_absolute roots" and "fs_kind P = FsRestricted" and "root \<in> set roots"
  shows "can_write_path_with_cwd H (with_additional_writable_roots H P cwd roots) root cwd \<longleftrightarrow>
     \<lparr>res_path = root, res_access = Deny\<rparr> \<notin> set (resolved_entries_with_cwd H P cwd)"
proof
  have norm: "normalized_absolute root" using assms(2,4) by (simp add: list_all_iff)
  have R: "fs_kind (with_additional_writable_roots H P cwd roots) = FsRestricted"
    using writable_roots.appends [OF assms(3)] by blast
  assume "can_write_path_with_cwd H (with_additional_writable_roots H P cwd roots) root cwd"
  then show "\<lparr>res_path = root, res_access = Deny\<rparr> \<notin> set (resolved_entries_with_cwd H P cwd)"
    using deny_entry_not_writable(2) [OF norm R, of H cwd] resolved_writable_roots [OF assms(3), of H cwd roots cwd] by auto
next
  assume "\<lparr>res_path = root, res_access = Deny\<rparr> \<notin> set (resolved_entries_with_cwd H P cwd)"
  then show "can_write_path_with_cwd H (with_additional_writable_roots H P cwd roots) root cwd"
    using assms(2-4)
  proof (induction roots arbitrary: P)
    case (Cons p roots)
    let ?Q = "push_entry P (entry_new (PathEntry (uri_from_abs_path H p)) Write)"
    have p: "normalized_absolute p" and roots: "list_all normalized_absolute roots" using Cons.prems(2) by simp_all
    have Q: "\<lparr>res_path = root, res_access = Deny\<rparr> \<notin> set (resolved_entries_with_cwd H ?Q cwd)"
      using Cons.prems(1) by (simp add: resolved_entries_push_path [OF assms(1) p])
    show ?case
    proof (cases "root = p")
      case True
      then have "can_write_path_with_cwd H ?Q root cwd"
        using push_writable_root_grants [OF assms(1) p Cons.prems(3)] Cons.prems(1) by simp
      then show ?thesis using additional_writable_roots_keep [OF assms(1) roots] True
        by (simp add: with_additional_writable_roots_Cons)
    next
      case False
      then show ?thesis using Cons.IH [of P] Cons.IH [of ?Q] Cons.prems Q
        by (auto simp: with_additional_writable_roots_Cons)
    qed
  qed simp
qed


section \<open>Denials survive the replacement of a policy\<close>

lemma preserve_deny_restricted:
  assumes "fs_kind P \<noteq> FsExternalSandbox" "list_ex (\<lambda>e. entry_access e = Deny) (fs_entries existing)"
  shows "fs_kind (preserve_deny_read_restrictions_from P existing) = FsRestricted
    \<and> fs_entries (preserve_deny_read_restrictions_from P existing) =
        push_missing_entries (if fs_kind P = FsRestricted then fs_entries P else [entry_new (SpecialEntry SpecialRoot) Write])
          (deny_entries existing)"
  using assms by (cases "fs_kind P") (simp_all add: preserve_deny_read_restrictions_from_def fs_restricted_def)

text \<open>
  When the allow side of a policy is replaced and the denials of the old policy are preserved, a path below a denied
  directory of the old policy is denied by the result, unless the new policy has an entry between the denied directory
  and the path.  An unrestricted policy becomes a restricted one for this; only a policy that stands for an external sandbox
  ignores the denials.
\<close>

theorem preserved_denials_deny:
  assumes ok: "host_ok H" and kind: "fs_kind P \<noteq> FsExternalSandbox"
    and e: "e \<in> set (fs_entries existing)" "entry_access e = Deny"
    and d: "resolve_entry_path H (entry_path e) (result_ok (abs_from_path H cwd)) = Some d"
    and q: "resolve_candidate_path H p cwd = Some q" "prefix d q"
    and specific: "\<forall>r \<in> set (resolved_entries_with_cwd H P cwd). prefix (res_path r) q \<longrightarrow> length (res_path r) \<le> length d"
  shows "resolve_access_with_cwd H (preserve_deny_read_restrictions_from P existing) p cwd = Deny"
proof -
  let ?Q = "preserve_deny_read_restrictions_from P existing"
  let ?rs = "resolved_entries_with_cwd H ?Q cwd"
  have "list_ex (\<lambda>e. entry_access e = Deny) (fs_entries existing)" using e by (auto simp: list_ex_iff)
  then have Q: "fs_kind ?Q = FsRestricted" "fs_entries ?Q = push_missing_entries
      (if fs_kind P = FsRestricted then fs_entries P else [entry_new (SpecialEntry SpecialRoot) Write]) (deny_entries existing)"
    using preserve_deny_restricted [OF kind, of existing] by simp_all
  have in_rs: "\<lparr>res_path = d, res_access = Deny\<rparr> \<in> set ?rs"
    by (rule resolved_entriesI [of e]) (use e d in \<open>simp_all add: Q(2) set_push_missing deny_entries_def\<close>)
  have "d \<noteq> []" using resolved_entries_normalized [OF ok in_rs] by (auto simp: normalized_absolute_def)
  have short: "res_access r = Deny \<or> length (res_path r) \<le> length d" if r: "r \<in> set ?rs" "prefix (res_path r) q" for r
  proof -
    obtain f where f: "f \<in> set (fs_entries ?Q)" "resolve_entry_path H (entry_path f) (result_ok (abs_from_path H cwd)) = Some (res_path r)"
        "res_access r = entry_access f"
      using r(1) by (auto simp: set_resolved_entries)
    consider "f \<in> set (deny_entries existing)" | "fs_kind P = FsRestricted" "f \<in> set (fs_entries P)"
      | "entry_path f = SpecialEntry SpecialRoot"
      using f(1) by (auto simp: Q(2) set_push_missing entry_new_def split: if_splits)
    then show ?thesis
    proof cases
      case 1
      then show ?thesis using f(3) by (simp add: deny_entries_def)
    next
      case 2
      have "r \<in> set (resolved_entries_with_cwd H P cwd)"
        using resolved_entriesI [OF 2(2) f(2,3)] by (cases r) simp
      then show ?thesis using specific r(2) by blast
    next
      case 3
      then have "res_path r = [RootDir]" using f(2) abs_from_path_normalized [OF ok]
        by (auto simp: resolve_entry_path_def absolute_root_path_for_cwd_root split: option.splits)
      then show ?thesis using \<open>d \<noteq> []\<close> by (cases d) auto
    qed
  qed
  obtain m where m: "decided_by ?rs q m" "access_of ?rs q = res_access m"
    using decided_by_ex [OF in_rs] q(2) by auto
  have "length d < length (res_path m) \<or> d = res_path m \<and> Deny \<le> res_access m"
    using decided_byD(3) [OF m(1) in_rs] q(2) by simp
  then have "res_access m = Deny" using short [OF decided_byD(1,2) [OF m(1)]] by auto
  then show ?thesis using m(2) by (simp add: resolve_access_restricted [OF Q(1) q(1)])
qed

section \<open>Materialised project roots\<close>

lemma materialize_entry_resolves:
  assumes "host_ok H" "normalized_absolute c" "normalized_absolute c'"
  shows "resolve_entry_path H (entry_path (materialize_entry_with_cwd H (Some c) e)) (Some c') =
    resolve_entry_path H (entry_path e) (Some c)"
proof (cases "entry_path e")
  case (PathEntry u)
  then show ?thesis by (simp add: materialize_entry_with_cwd_def resolve_entry_path_def)
next
  case (GlobPattern g)
  then show ?thesis by (simp add: materialize_entry_with_cwd_def resolve_entry_path_def split: option.splits)
next
  case (SpecialEntry v)
  show ?thesis
  proof (cases v)
    case (ProjectRoots s)
    then obtain p where p: "resolve_file_system_special_path H v (Some c) = Some p" by (cases s) auto
    then have "normalized_absolute p" using resolve_special_normalized [OF assms(1), of "Some c" v p] assms(2) by simp
    then show ?thesis using assms(1) p SpecialEntry ProjectRoots
      by (simp add: materialize_entry_with_cwd_def resolve_entry_path_def host_ok_def)
  qed (use SpecialEntry assms in \<open>simp_all add: materialize_entry_with_cwd_def resolve_entry_path_def host_simps\<close>)
qed

lemma materialize_entry_access [simp]: "entry_access (materialize_entry_with_cwd H c e) = entry_access e"
  by (auto simp: materialize_entry_with_cwd_def split: fs_path.splits special_path.splits option.splits)

lemma materialize_resolved_entries:
  assumes "host_ok H" "abs_from_path H cwd = Inr c" "abs_from_path H cwd' = Inr c'"
  shows "resolved_entries_with_cwd H (materialize_project_roots_with_cwd H P cwd) cwd' = resolved_entries_with_cwd H P cwd"
  using assms abs_from_path_normalized [OF assms(1,2)] abs_from_path_normalized [OF assms(1,3)]
  by (simp add: resolved_entries_with_cwd_def materialize_project_roots_with_cwd_def Let_def
      List.map_filter_def comp_def materialize_entry_resolves filter_map)

text \<open>
  A policy whose project roots were made concrete in one working directory decides every absolute path in any other working
  directory as the symbolic policy did in the first: a change of the working directory does not move its authority.
\<close>

theorem materialized_policy_survives_cwd_change:
  assumes "host_ok H" and "abs_from_path H cwd = Inr c" and "abs_from_path H cwd' = Inr c'" and "is_absolute p"
  shows "resolve_access_with_cwd H (materialize_project_roots_with_cwd H P cwd) p cwd' = resolve_access_with_cwd H P p cwd"
proof -
  have "resolve_candidate_path H p cwd' = resolve_candidate_path H p cwd" using assms(4) by (simp add: resolve_candidate_path_def)
  moreover have "fs_kind (materialize_project_roots_with_cwd H P cwd) = fs_kind P"
    by (simp add: materialize_project_roots_with_cwd_def)
  ultimately show ?thesis
    unfolding resolve_access_with_cwd_def by (simp only: materialize_resolved_entries [OF assms(1-3)])
qed


section \<open>The workspace policy protects its metadata\<close>

lemma append_workspace_defaults_appends:
  "\<exists>new. append_workspace_defaults H roots cwd es = es @ new \<and> entry_access ` set new \<subseteq> {Read}"
proof -
  have fold: "\<exists>new. foldl (append_default_read_only_paths H False) es roots = es @ new \<and> entry_access ` set new \<subseteq> {Read}" for es
    by (rule foldl_appends) (use append_default_paths_appends [of H False] in auto)
  have "\<exists>a. (case abs_from_path H cwd of Inr cwd_root \<Rightarrow> append_default_read_only_paths H True es cwd_root | Inl _ \<Rightarrow> es)
      = es @ a \<and> entry_access ` set a \<subseteq> {Read}"
    using append_default_paths_appends [of H True es] by (cases "abs_from_path H cwd") simp_all
  then obtain a where a: "(case abs_from_path H cwd of Inr cwd_root \<Rightarrow> append_default_read_only_paths H True es cwd_root | Inl _ \<Rightarrow> es)
      = es @ a" "entry_access ` set a \<subseteq> {Read}"
    by blast
  obtain b where "foldl (append_default_read_only_paths H False) (es @ a) roots = (es @ a) @ b" "entry_access ` set b \<subseteq> {Read}"
    using fold [of "es @ a"] by blast
  with a show ?thesis by (auto simp: append_workspace_defaults_def intro!: exI [of _ "a @ b"])
qed

lemma append_default_subpath_appends:
  "\<exists>new. append_default_read_only_project_root_subpath_if_no_explicit_rule H es s = es @ new \<and> entry_access ` set new \<subseteq> {Read}"
  unfolding append_default_read_only_project_root_subpath_if_no_explicit_rule_def by (rule append_default_appends)

lemma workspace_write_entries:
  "\<exists>new. fs_entries (fs_workspace_write H roots a b) = workspace_base_entries H roots a b @ new \<and> entry_access ` set new \<subseteq> {Read}"
proof -
  let ?f = "append_default_read_only_project_root_subpath_if_no_explicit_rule H"
  have fold: "\<exists>new. foldl (append_default_read_only_paths H False) es roots = es @ new \<and> entry_access ` set new \<subseteq> {Read}" for es
    by (rule foldl_appends) (use append_default_paths_appends [of H False] in auto)
  have "\<exists>new. foldl ?f (workspace_base_entries H roots a b) [''.git'', ''.agents'', ''.codex''] = workspace_base_entries H roots a b @ new
      \<and> entry_access ` set new \<subseteq> {Read}"
    by (rule foldl_appends) (use append_default_subpath_appends [of H] in auto)
  then obtain x where x: "?f (?f (?f (workspace_base_entries H roots a b) ''.git'') ''.agents'') ''.codex'' = workspace_base_entries H roots a b @ x"
      "entry_access ` set x \<subseteq> {Read}"
    by auto
  obtain y where "foldl (append_default_read_only_paths H False) (workspace_base_entries H roots a b @ x) roots
      = (workspace_base_entries H roots a b @ x) @ y" "entry_access ` set y \<subseteq> {Read}"
    using fold [of "workspace_base_entries H roots a b @ x"] by blast
  with x show ?thesis by (auto simp: fs_workspace_write_def fs_restricted_def Let_def intro!: exI [of _ "x @ y"])
qed

lemma legacy_workspace_entries:
  "\<exists>new. from_legacy_sandbox_policy_for_cwd H (WorkspaceWrite roots net a b) cwd
       = fs_restricted (workspace_base_entries H roots a b @ new) \<and> entry_access ` set new \<subseteq> {Read}"
proof -
  obtain x where x: "fs_entries (fs_workspace_write H roots a b) = workspace_base_entries H roots a b @ x"
      "entry_access ` set x \<subseteq> {Read}"
    using workspace_write_entries by blast
  obtain y where "append_workspace_defaults H roots cwd (workspace_base_entries H roots a b @ x)
      = (workspace_base_entries H roots a b @ x) @ y" "entry_access ` set y \<subseteq> {Read}"
    using append_workspace_defaults_appends by blast
  moreover have "fs_workspace_write H roots a b = fs_restricted (fs_entries (fs_workspace_write H roots a b))"
    by (simp add: fs_workspace_write_def fs_restricted_def Let_def)
  ultimately show ?thesis using x
    by (auto simp: from_legacy_sandbox_policy_for_cwd_def fs_restricted_def intro!: exI [of _ "x @ y"])
qed

text \<open>The directories a workspace policy lets be written besides the working directory.\<close>

definition extra_writable_dir :: "('u, 'e) fs_host \<Rightarrow> path list \<Rightarrow> bool \<Rightarrow> bool \<Rightarrow> path \<Rightarrow> bool" where
  "extra_writable_dir H roots ex_tmpdir ex_slash_tmp d \<longleftrightarrow>
     d \<in> set roots
     \<or> \<not> ex_slash_tmp \<and> resolve_file_system_special_path H SlashTmp None = Some d
     \<or> \<not> ex_tmpdir \<and> resolve_file_system_special_path H SpecialTmpdir None = Some d"

lemma workspace_write_entry:
  assumes "host_ok H" "list_all normalized_absolute roots" "abs_from_path H cwd = Inr c" "entry_access ` set new \<subseteq> {Read}"
    and "r \<in> set (resolved_entries_with_cwd H (fs_restricted (workspace_base_entries H roots a b @ new)) cwd)" "res_access r = Write"
  shows "res_path r = c \<or> extra_writable_dir H roots a b (res_path r)"
proof -
  obtain e where e: "e \<in> set (workspace_base_entries H roots a b)" "entry_access e = Write"
      "resolve_entry_path H (entry_path e) (Some c) = Some (res_path r)"
    using assms(3-6) by (fastforce simp: set_resolved_entries fs_restricted_def)
  then show ?thesis using assms(1,2)
    by (auto simp: workspace_base_entries_def entry_new_def resolve_entry_path_def extra_writable_dir_def host_ok_def
        list_all_iff resolve_slash_tmp simp del: resolve_file_system_special_path.simps(3) split: if_splits)
qed

lemma workspace_first_child:
  assumes "host_ok H" "abs_from_path H cwd = Inr c" "normalized_absolute q" "prefix (c @ [Normal n]) q" "is_protected_metadata_name n"
  shows "metadata_child_of_writable_root H (fs_restricted (workspace_base_entries H roots a b @ new)) q cwd = Some (c @ [Normal n], n)"
proof -
  have c: "normalized_absolute c" by (rule abs_from_path_normalized [OF assms(1,2)])
  have "metadata_child H q \<lparr>res_path = c, res_access = Write\<rparr> = Some (c @ [Normal n], n)"
    using assms(3-5) c by (simp add: metadata_child_Some_iff is_protected_metadata_name_def list_ex_iff)
  moreover obtain rest where "resolved_entries_with_cwd H (fs_restricted (workspace_base_entries H roots a b @ new)) cwd
      = \<lparr>res_path = [RootDir], res_access = Read\<rparr> # \<lparr>res_path = c, res_access = Write\<rparr> # rest"
    using assms(2) c by (simp add: resolved_entries_with_cwd_def fs_restricted_def workspace_base_entries_def entry_new_def
        resolve_entry_path_def host_simps List.map_filter_simps Let_def)
  ultimately show ?thesis
    by (simp add: metadata_child_of_writable_root_def can_write_def List.map_filter_simps)
qed

text \<open>
  C10: Under the policy for \<open>workspace-write\<close>, a path at or below \<open>.git\<close>, \<open>.agents\<close> or \<open>.codex\<close> of the working directory can be
  written only below a configured root, \<open>/tmp\<close> or \<open>TMPDIR\<close> that itself lies inside that metadata directory.
\<close>

theorem workspace_metadata_protected:
  assumes "host_ok H" and "list_all normalized_absolute roots" and "abs_from_path H cwd = Inr c"
    and "is_protected_metadata_name n" and q: "resolve_candidate_path H p cwd = Some q" "prefix (c @ [Normal n]) q"
    and can: "can_write_path_with_cwd H (from_legacy_sandbox_policy_for_cwd H (WorkspaceWrite roots net ex_tmpdir ex_slash_tmp) cwd) p cwd"
  shows "\<exists>d. extra_writable_dir H roots ex_tmpdir ex_slash_tmp d \<and> prefix (c @ [Normal n]) d \<and> prefix d q"
proof -
  obtain new where P: "from_legacy_sandbox_policy_for_cwd H (WorkspaceWrite roots net ex_tmpdir ex_slash_tmp) cwd
      = fs_restricted (workspace_base_entries H roots ex_tmpdir ex_slash_tmp @ new)" and new: "entry_access ` set new \<subseteq> {Read}"
    using legacy_workspace_entries by blast
  let ?P = "fs_restricted (workspace_base_entries H roots ex_tmpdir ex_slash_tmp @ new) :: 'a fs_policy"
  have "\<not> has_full_disk_write_access H ?P"
    using new by (auto simp: has_full_disk_write_access_def has_root_access_def fs_restricted_def workspace_base_entries_def
        entry_new_def can_write_def list_ex_iff)
  then have "\<not> is_metadata_write_denied H ?P p cwd"
    using can unfolding P by (simp add: can_write_path_with_cwd_def split: if_splits)
  then obtain e where e: "e \<in> set (resolved_entries_with_cwd H ?P cwd)" "res_access e = Write" "prefix (res_path e) q"
      "prefix (c @ [Normal n]) (res_path e)"
    using q workspace_first_child [OF assms(1,3) resolve_candidate_normalized [OF assms(1) q(1)] q(2) assms(4)]
    by (auto simp: is_metadata_write_denied_def has_explicit_write_entry_for_metadata_path_def list_ex_iff can_write_def
        starts_with_prefix fs_restricted_def)
  moreover have "res_path e \<noteq> c" using e(4) by (auto dest: prefix_length_le)
  ultimately show ?thesis using workspace_write_entry [OF assms(1-3) new e(1,2)] by blast
qed

section \<open>A disk without aliases\<close>

definition no_aliases :: "('u, 'e) fs_host \<Rightarrow> bool" where
  "no_aliases H \<longleftrightarrow> (\<forall>p c. host_canonicalize H p = Inr c \<longrightarrow> c = p)"

lemma ancestors_normalized:
  "a \<in> set (ancestors (RootDir # ns)) \<Longrightarrow> list_all is_normal_component ns \<Longrightarrow> normalized_absolute a \<and> prefix a (RootDir # ns)"
proof (induction ns rule: rev_induct)
  case Nil
  then show ?case by (simp add: ancestors.simps parent_of_path_def)
next
  case (snoc n ns)
  then have "parent_of_path (RootDir # ns @ [n]) = Some (RootDir # ns)"
    by (auto simp: parent_of_path_def is_normal_component_def butlast_append)
  then have "a = RootDir # ns @ [n] \<or> a \<in> set (ancestors (RootDir # ns))"
    using snoc.prems(1) ancestors.simps [of "RootDir # ns @ [n]"] by simp
  then show ?case
  proof
    assume "a = RootDir # ns @ [n]"
    then show ?thesis using snoc.prems(2) by (simp add: normalized_absolute_Cons)
  next
    assume "a \<in> set (ancestors (RootDir # ns))"
    then have "normalized_absolute a \<and> prefix a (RootDir # ns)" using snoc by simp
    then show ?thesis using prefix_snoc [of a "RootDir # ns" n] by simp
  qed
qed

lemma canonicalize_preserving_id:
  "no_aliases H \<Longrightarrow> normalized_absolute a \<Longrightarrow> canonicalize_preserving_symlinks H a = Inr a"
  by (auto simp: canonicalize_preserving_symlinks_def no_aliases_def abs_from_path_id Let_def split: sum.splits)

lemma path_join_suffix:
  assumes "normalized_absolute (a @ rel)" "normalized_absolute a"
  shows "path_join a rel = a @ rel"
proof -
  have rel: "list_all is_normal_component rel" using assms by (auto simp: normalized_absolute_def)
  then have "\<not> is_absolute rel" by (cases rel) (auto simp: is_absolute_def is_normal_component_def split: component.splits)
  moreover have "filter (\<lambda>c. c \<noteq> CurDir) rel = rel" using rel by (auto simp: list_all_iff is_normal_component_def filter_id_conv)
  moreover have "a \<noteq> []" using assms(2) by (auto simp: normalized_absolute_def)
  ultimately show ?thesis by (simp add: path_join_def)
qed

lemma normalize_effective_id:
  assumes "no_aliases H" "normalized_absolute p"
  shows "normalize_effective_absolute_path H p = p"
proof -
  have loop: "normalize_effective_loop H p as = p" if "\<forall>a \<in> set as. normalized_absolute a \<and> prefix a p" for as
    using that
  proof (induction as)
    case (Cons a as)
    then obtain rel where rel: "p = a @ rel" "normalized_absolute a" by (auto simp: prefix_def)
    have "abs_from_path H (path_join a rel) = Inr p"
      using path_join_suffix [of a rel] rel assms(2) by (simp add: abs_from_path_id)
    then show ?case using Cons rel canonicalize_preserving_id [OF assms(1)] by (simp add: rel(1))
  qed simp
  obtain ns where "p = RootDir # ns" "list_all is_normal_component ns" using assms(2) by (auto simp: normalized_absolute_def)
  then show ?thesis unfolding normalize_effective_absolute_path_def using ancestors_normalized loop by blast
qed

section \<open>Examples\<close>

theorem additional_writable_roots_keep_access_witness:
  "can_write_path_with_cwd plain_host
     (with_additional_writable_roots plain_host sample_policy (abs_names []) [abs_names [''v''], abs_names [''w'', ''secret'']])
     (abs_names [''w'', ''x'']) (abs_names [])"
proof (rule additional_writable_roots_keep_access [OF plain_host_ok])
  show "list_all normalized_absolute [abs_names [''v''], abs_names [''w'', ''secret'']]" by code_simp
  show "can_write_path_with_cwd plain_host sample_policy (abs_names [''w'', ''x'']) (abs_names [])" by code_simp
qed

theorem additional_writable_roots_granted_witness:
  "can_write_path_with_cwd plain_host
     (with_additional_writable_roots plain_host sample_policy (abs_names []) [abs_names [''v''], abs_names [''w'', ''secret'']])
     (abs_names [''v'']) (abs_names []) \<longleftrightarrow>
   \<lparr>res_path = abs_names [''v''], res_access = Deny\<rparr> \<notin> set (resolved_entries_with_cwd plain_host sample_policy (abs_names []))"
proof (rule additional_writable_roots_granted [OF plain_host_ok])
  show "list_all normalized_absolute [abs_names [''v''], abs_names [''w'', ''secret'']]" by code_simp
  show "fs_kind sample_policy = FsRestricted" by code_simp
  show "abs_names [''v''] \<in> set [abs_names [''v''], abs_names [''w'', ''secret'']]" by simp
qed

theorem preserved_denials_deny_witness:
  "resolve_access_with_cwd plain_host (preserve_deny_read_restrictions_from fs_unrestricted sample_policy)
     (abs_names [''w'', ''secret'', ''k'']) (abs_names []) = Deny"
proof (rule preserved_denials_deny [OF plain_host_ok])
  show "fs_kind (fs_unrestricted :: path fs_policy) \<noteq> FsExternalSandbox" by code_simp
  show "entry_new (PathEntry (abs_names [''w'', ''secret''])) Deny \<in> set (fs_entries sample_policy)"
    by (simp add: sample_policy_def fs_restricted_def)
  show "entry_access (entry_new (PathEntry (abs_names [''w'', ''secret''])) Deny) = Deny" by code_simp
  show "resolve_entry_path plain_host (entry_path (entry_new (PathEntry (abs_names [''w'', ''secret''])) Deny))
    (result_ok (abs_from_path plain_host (abs_names []))) = Some (abs_names [''w'', ''secret''])" by code_simp
  show "resolve_candidate_path plain_host (abs_names [''w'', ''secret'', ''k'']) (abs_names [])
    = Some (abs_names [''w'', ''secret'', ''k''])" by code_simp
  show "prefix (abs_names [''w'', ''secret'']) (abs_names [''w'', ''secret'', ''k''])" by code_simp
  show "\<forall>r \<in> set (resolved_entries_with_cwd plain_host fs_unrestricted (abs_names [])).
    prefix (res_path r) (abs_names [''w'', ''secret'', ''k'']) \<longrightarrow> length (res_path r) \<le> length (abs_names [''w'', ''secret''])"
    by code_simp
qed

definition project_policy :: "path fs_policy" where
  "project_policy = fs_restricted
     [entry_new (SpecialEntry SpecialRoot) Read,
      entry_new (SpecialEntry (ProjectRoots None)) Write,
      entry_new (SpecialEntry (ProjectRoots (Some ''secret''))) Deny]"

theorem materialized_policy_survives_cwd_change_witness:
  "resolve_access_with_cwd plain_host (materialize_project_roots_with_cwd plain_host project_policy (abs_names [''w'']))
     (abs_names [''w'', ''secret'', ''k'']) (abs_names [''v''])
   = resolve_access_with_cwd plain_host project_policy (abs_names [''w'', ''secret'', ''k'']) (abs_names [''w''])"
proof (rule materialized_policy_survives_cwd_change [OF plain_host_ok])
  show "abs_from_path plain_host (abs_names [''w'']) = Inr (abs_names [''w''])" by code_simp
  show "abs_from_path plain_host (abs_names [''v'']) = Inr (abs_names [''v''])" by code_simp
  show "is_absolute (abs_names [''w'', ''secret'', ''k''])" by code_simp
qed

theorem workspace_metadata_protected_witness:
  "\<exists>d. extra_writable_dir plain_host [abs_names [''w'', ''.git'', ''sub'']] True True d
     \<and> prefix (abs_names [''w''] @ [Normal ''.git'']) d \<and> prefix d (abs_names [''w'', ''.git'', ''sub'', ''f''])"
proof (rule workspace_metadata_protected [OF plain_host_ok])
  show "list_all normalized_absolute [abs_names [''w'', ''.git'', ''sub'']]" by code_simp
  show "abs_from_path plain_host (abs_names [''w'']) = Inr (abs_names [''w''])" by code_simp
  show "is_protected_metadata_name ''.git''" by code_simp
  show "resolve_candidate_path plain_host (abs_names [''w'', ''.git'', ''sub'', ''f'']) (abs_names [''w''])
    = Some (abs_names [''w'', ''.git'', ''sub'', ''f''])" by code_simp
  show "prefix (abs_names [''w''] @ [Normal ''.git'']) (abs_names [''w'', ''.git'', ''sub'', ''f''])" by code_simp
  show "can_write_path_with_cwd plain_host (from_legacy_sandbox_policy_for_cwd plain_host
    (WorkspaceWrite [abs_names [''w'', ''.git'', ''sub'']] False True True) (abs_names [''w'']))
    (abs_names [''w'', ''.git'', ''sub'', ''f'']) (abs_names [''w''])" by code_simp
qed


end
