(* ===== verification/Fs_Policy_Roots.thy ===== *)
theory Fs_Policy_Roots
  imports Fs_Policy_Update "HOL-Library.List_Lexorder" "HOL-Library.Char_ord"
begin

text \<open>
  What sandboxes are given of a file-system permission policy (\<open>codex-rs/protocol/src/permissions.rs\<close> and the writable roots
  of \<open>codex-rs/protocol/src/protocol.rs\<close>): the readable, writable and unreadable roots, the globs of unreadable files,
  the older sandbox policy, and the matcher that refuses reads.  The glob compiler is a third-party crate: it is an argument
  that gives an error or the predicate of the compiled pattern.
\<close>

section \<open>Writable roots\<close>

record writable_root =
  wr_root :: path
  wr_read_only_subpaths :: "path list"
  wr_protected_metadata_names :: "str list"

definition path_contains_protected_metadata_name :: "writable_root \<Rightarrow> path \<Rightarrow> bool" where
  "path_contains_protected_metadata_name w p \<longleftrightarrow>
     (case strip_prefix (wr_root w) p of
        None \<Rightarrow> False
      | Some relative_path \<Rightarrow>
          (case relative_path of
             [] \<Rightarrow> False
           | first_component # _ \<Rightarrow>
               list_ex (\<lambda>name. component_str first_component = name) (wr_protected_metadata_names w)))"

definition is_path_writable :: "writable_root \<Rightarrow> path \<Rightarrow> bool" where
  "is_path_writable w p \<longleftrightarrow>
     (if \<not> starts_with p (wr_root w) then False
      else if list_ex (\<lambda>subpath. starts_with p subpath) (wr_read_only_subpaths w) then False
      else if path_contains_protected_metadata_name w p then False
      else True)"

text \<open>\<open>SandboxPolicy::get_writable_roots_with_cwd\<close>.\<close>

fun sandbox_writable_roots_with_cwd :: "('u, 'e) fs_host \<Rightarrow> sandbox_policy \<Rightarrow> path \<Rightarrow> writable_root list" where
  "sandbox_writable_roots_with_cwd H (WorkspaceWrite roots _ ex_tmpdir ex_slash_tmp) cwd =
     (let cwd_root = result_ok (abs_from_path H cwd);
          roots = roots @ (case cwd_root of Some c \<Rightarrow> [c] | None \<Rightarrow> []);
          roots = roots @
            (if \<not> ex_slash_tmp
             then (case abs_from_path H (path_components ''/tmp'') of
                     Inr slash_tmp \<Rightarrow> if host_is_dir H slash_tmp then [slash_tmp] else []
                   | Inl _ \<Rightarrow> [])
             else []);
          roots = roots @
            (case host_tmpdir H of
               Some tmpdir \<Rightarrow>
                 if \<not> ex_tmpdir \<and> tmpdir \<noteq> []
                 then (case abs_from_path H (path_components tmpdir) of Inr t \<Rightarrow> [t] | Inl _ \<Rightarrow> [])
                 else []
             | None \<Rightarrow> [])
      in map (\<lambda>root.
           \<lparr>wr_root = root,
            wr_read_only_subpaths = default_read_only_subpaths_for_writable_root H root (cwd_root = Some root),
            wr_protected_metadata_names = []\<rparr>) roots)"
| "sandbox_writable_roots_with_cwd H _ cwd = []"

section \<open>Roots of a policy\<close>

definition get_readable_roots_with_cwd :: "('u, 'e) fs_host \<Rightarrow> 'u fs_policy \<Rightarrow> path \<Rightarrow> path list" where
  "get_readable_roots_with_cwd H P cwd =
     (if has_full_disk_read_access P then []
      else dedup_absolute_paths H
             (map res_path
                (filter (\<lambda>e. can_read_path_with_cwd H P (res_path e) cwd)
                   (filter (\<lambda>e. can_read (res_access e)) (resolved_entries_with_cwd H P cwd)))) True)"

definition has_explicit_resolved_path_entry :: "resolved_entry list \<Rightarrow> path \<Rightarrow> bool" where
  "has_explicit_resolved_path_entry entries p \<longleftrightarrow> list_ex (\<lambda>e. res_path e = p) entries"

definition protected_metadata_names_for_writable_root ::
    "('u, 'e) fs_host \<Rightarrow> 'u fs_policy \<Rightarrow> path \<Rightarrow> path list \<Rightarrow> path \<Rightarrow> str list" where
  "protected_metadata_names_for_writable_root H P root raw_writable_roots cwd =
     filter (\<lambda>metadata_name.
       list_all (\<lambda>metadata_path. \<not> can_write_path_with_cwd H P metadata_path cwd)
         (abs_join H root [Normal metadata_name]
          # map (\<lambda>raw_root. abs_join H raw_root [Normal metadata_name]) raw_writable_roots))
       PROTECTED_METADATA_PATH_NAMES"

text \<open>The path masked for an entry that is not writable, below a writable root.\<close>

definition raw_carveout_path :: "('u, 'e) fs_host \<Rightarrow> path \<Rightarrow> path list \<Rightarrow> path \<Rightarrow> path option" where
  "raw_carveout_path H root raw_writable_roots p =
     (if parent_of_path root \<noteq> None
      then (if p = root then None
            else if starts_with p root then Some p
            else (case List.map_filter (\<lambda>raw_root.
                     (case strip_prefix raw_root p of
                        None \<Rightarrow> None
                      | Some rel \<Rightarrow> if rel = [] then None else Some (abs_join H root rel))) raw_writable_roots of
                    [] \<Rightarrow> None
                  | q # _ \<Rightarrow> Some q))
      else None)"

definition carveout_path :: "('u, 'e) fs_host \<Rightarrow> path \<Rightarrow> path list \<Rightarrow> resolved_entry \<Rightarrow> path option" where
  "carveout_path H root raw_writable_roots e =
     (let effective_path = normalize_effective_absolute_path H (res_path e)
      in case raw_carveout_path H root raw_writable_roots (res_path e) of
           Some p \<Rightarrow> Some p
         | None \<Rightarrow>
             if effective_path = root \<or> \<not> starts_with effective_path root then None else Some effective_path)"

definition writable_root_for :: "('u, 'e) fs_host \<Rightarrow> 'u fs_policy \<Rightarrow> path \<Rightarrow> path list \<Rightarrow> path \<Rightarrow> writable_root" where
  "writable_root_for H P cwd writable_entries root =
     (let resolved_entries = resolved_entries_with_cwd H P cwd;
          raw_writable_roots = filter (\<lambda>p. normalize_effective_absolute_path H p = root) writable_entries;
          protect_missing_dot_codex =
            (case result_ok (abs_from_path H cwd) of
               None \<Rightarrow> False
             | Some c \<Rightarrow> normalize_effective_absolute_path H c = root);
          read_only_subpaths =
            filter (\<lambda>p. \<not> has_explicit_resolved_path_entry resolved_entries p)
              (default_read_only_subpaths_for_writable_root H root protect_missing_dot_codex)
            @ List.map_filter (carveout_path H root raw_writable_roots)
                (filter (\<lambda>e. \<not> can_write_path_with_cwd H P (res_path e) cwd)
                   (filter (\<lambda>e. \<not> can_write (res_access e)) resolved_entries))
      in \<lparr>wr_root = root,
          wr_read_only_subpaths = dedup_absolute_paths H read_only_subpaths False,
          wr_protected_metadata_names = protected_metadata_names_for_writable_root H P root raw_writable_roots cwd\<rparr>)"

definition get_writable_roots_with_cwd :: "('u, 'e) fs_host \<Rightarrow> 'u fs_policy \<Rightarrow> path \<Rightarrow> writable_root list" where
  "get_writable_roots_with_cwd H P cwd =
     (if has_full_disk_write_access H P then []
      else
        (let writable_entries =
               map res_path
                 (filter (\<lambda>e. can_write_path_with_cwd H P (res_path e) cwd)
                    (filter (\<lambda>e. can_write (res_access e)) (resolved_entries_with_cwd H P cwd)))
         in map (writable_root_for H P cwd writable_entries) (dedup_absolute_paths H writable_entries True)))"

definition get_unreadable_roots_with_cwd :: "('u, 'e) fs_host \<Rightarrow> 'u fs_policy \<Rightarrow> path \<Rightarrow> path list" where
  "get_unreadable_roots_with_cwd H P cwd =
     (if fs_kind P \<noteq> FsRestricted then []
      else
        (let root = (case result_ok (abs_from_path H cwd) of None \<Rightarrow> None | Some c \<Rightarrow> absolute_root_path_for_cwd H c)
         in dedup_absolute_paths H
              (map res_path
                 (filter (\<lambda>e. root \<noteq> Some (res_path e))
                    (filter (\<lambda>e. \<not> can_read_path_with_cwd H P (res_path e) cwd)
                       (filter (\<lambda>e. res_access e = Deny) (resolved_entries_with_cwd H P cwd))))) True))"

text \<open>\<open>patterns.sort()\<close> and \<open>patterns.dedup()\<close>.\<close>

definition get_unreadable_globs_with_cwd :: "('u, 'e) fs_host \<Rightarrow> 'u fs_policy \<Rightarrow> path \<Rightarrow> str list" where
  "get_unreadable_globs_with_cwd H P cwd =
     (if fs_kind P \<noteq> FsRestricted then []
      else remdups_adj (sort
             (List.map_filter (\<lambda>e.
                (case entry_path e of
                   GlobPattern pattern \<Rightarrow> Some (path_string (abs_resolve H pattern cwd))
                 | _ \<Rightarrow> None))
                (filter (\<lambda>e. entry_access e = Deny) (fs_entries P)))))"

section \<open>The older sandbox policy\<close>

datatype 'e legacy_error = LegacyIo 'e | LegacyInvalidInput str

record legacy_scan =
  workspace_root_writable :: bool
  scan_writable_roots :: "path list"
  tmpdir_writable :: bool
  slash_tmp_writable :: bool
  unbridgeable_root_write :: bool

definition legacy_scan_empty :: legacy_scan where
  "legacy_scan_empty =
     \<lparr>workspace_root_writable = False, scan_writable_roots = [], tmpdir_writable = False, slash_tmp_writable = False,
      unbridgeable_root_write = False\<rparr>"

definition legacy_scan_entry ::
    "('u, 'e) fs_host \<Rightarrow> path option \<Rightarrow> legacy_scan \<Rightarrow> 'u fs_entry \<Rightarrow> 'e legacy_error + legacy_scan" where
  "legacy_scan_entry H cwd st e =
     (case entry_path e of
        GlobPattern _ \<Rightarrow> Inr st
      | PathEntry u \<Rightarrow>
          if can_write (entry_access e)
          then (case uri_to_abs_path H u of
                  Inl err \<Rightarrow> Inl (LegacyIo err)
                | Inr p \<Rightarrow>
                    if cwd = Some p then Inr (st\<lparr>workspace_root_writable := True\<rparr>)
                    else Inr (st\<lparr>scan_writable_roots := scan_writable_roots st @ [p]\<rparr>))
          else Inr st
      | SpecialEntry v \<Rightarrow>
          (case v of
             SpecialRoot \<Rightarrow>
               if entry_access e = Write then Inr (st\<lparr>unbridgeable_root_write := True\<rparr>) else Inr st
           | SpecialMinimal \<Rightarrow> Inr st
           | ProjectRoots subpath \<Rightarrow>
               if subpath = None \<and> can_write (entry_access e) then Inr (st\<lparr>workspace_root_writable := True\<rparr>)
               else (case resolve_file_system_special_path H v cwd of
                       Some p \<Rightarrow>
                         if can_write (entry_access e)
                         then Inr (st\<lparr>scan_writable_roots := scan_writable_roots st @ [p]\<rparr>) else Inr st
                     | None \<Rightarrow> Inr st)
           | SpecialTmpdir \<Rightarrow> if can_write (entry_access e) then Inr (st\<lparr>tmpdir_writable := True\<rparr>) else Inr st
           | SlashTmp \<Rightarrow> if can_write (entry_access e) then Inr (st\<lparr>slash_tmp_writable := True\<rparr>) else Inr st
           | UnknownSpecial _ _ \<Rightarrow> Inr st))"

fun legacy_scan_entries ::
    "('u, 'e) fs_host \<Rightarrow> path option \<Rightarrow> legacy_scan \<Rightarrow> 'u fs_entry list \<Rightarrow> 'e legacy_error + legacy_scan" where
  "legacy_scan_entries H cwd st [] = Inr st"
| "legacy_scan_entries H cwd st (e # es) =
     and_then (legacy_scan_entry H cwd st e) (\<lambda>st. legacy_scan_entries H cwd st es)"

definition UNSUPPORTED_WRITES :: str where
  "UNSUPPORTED_WRITES = ''permissions profile requests filesystem writes outside the workspace root, which is not supported until the runtime enforces FileSystemSandboxPolicy directly''"

definition full_access_policy :: "network_sandbox_policy \<Rightarrow> sandbox_policy" where
  "full_access_policy n = (if network_is_enabled n then DangerFullAccess else ExternalSandbox NetworkAccessRestricted)"

definition to_legacy_sandbox_policy ::
    "('u, 'e) fs_host \<Rightarrow> 'u fs_policy \<Rightarrow> network_sandbox_policy \<Rightarrow> path \<Rightarrow> 'e legacy_error + sandbox_policy" where
  "to_legacy_sandbox_policy H P n cwd =
     (case fs_kind P of
        FsExternalSandbox \<Rightarrow>
          Inr (ExternalSandbox (if network_is_enabled n then NetworkAccessEnabled else NetworkAccessRestricted))
      | FsUnrestricted \<Rightarrow> Inr (full_access_policy n)
      | FsRestricted \<Rightarrow>
          and_then (legacy_scan_entries H (result_ok (abs_from_path H cwd)) legacy_scan_empty (fs_entries P)) (\<lambda>st.
            if has_full_disk_write_access H P then Inr (full_access_policy n)
            else if workspace_root_writable st then
              Inr (WorkspaceWrite (dedup_absolute_paths H (scan_writable_roots st) False) (network_is_enabled n)
                     (\<not> tmpdir_writable st) (\<not> slash_tmp_writable st))
            else if unbridgeable_root_write st \<or> scan_writable_roots st \<noteq> [] \<or> tmpdir_writable st \<or> slash_tmp_writable st
            then Inl (LegacyInvalidInput UNSUPPORTED_WRITES)
            else Inr (ReadOnly (network_is_enabled n))))"

section \<open>Comparison of policies\<close>

text \<open>The derived order of \<open>Component\<close>.\<close>

instantiation component :: linorder
begin

fun component_key :: "component \<Rightarrow> nat \<times> str" where
  "component_key RootDir = (0, [])"
| "component_key CurDir = (1, [])"
| "component_key ParentDir = (2, [])"
| "component_key (Normal n) = (3, n)"

definition less_eq_component :: "component \<Rightarrow> component \<Rightarrow> bool" where
  "less_eq_component a b \<longleftrightarrow> component_key a \<le> component_key b"

definition less_component :: "component \<Rightarrow> component \<Rightarrow> bool" where
  "less_component a b \<longleftrightarrow> component_key a < component_key b"

instance
proof
  fix a b :: component
  show "a \<le> b \<Longrightarrow> b \<le> a \<Longrightarrow> a = b"
    by (cases a; cases b) (auto simp: less_eq_component_def)
qed (auto simp: less_eq_component_def less_component_def)

end

definition sorted_absolute_paths :: "path list \<Rightarrow> path list" where
  "sorted_absolute_paths paths = sort paths"

definition sorted_writable_roots :: "writable_root list \<Rightarrow> writable_root list" where
  "sorted_writable_roots roots =
     sort_key wr_root
       (map (\<lambda>w. w\<lparr>wr_read_only_subpaths := sorted_absolute_paths (wr_read_only_subpaths w),
                   wr_protected_metadata_names := remdups_adj (sort (wr_protected_metadata_names w))\<rparr>) roots)"

record fs_signature =
  sig_full_disk_read :: bool
  sig_full_disk_write :: bool
  sig_platform_defaults :: bool
  sig_readable_roots :: "path list"
  sig_writable_roots :: "writable_root list"
  sig_unreadable_roots :: "path list"
  sig_unreadable_globs :: "str list"

definition semantic_signature :: "('u, 'e) fs_host \<Rightarrow> 'u fs_policy \<Rightarrow> path \<Rightarrow> fs_signature" where
  "semantic_signature H P cwd =
     \<lparr>sig_full_disk_read = has_full_disk_read_access P,
      sig_full_disk_write = has_full_disk_write_access H P,
      sig_platform_defaults = include_platform_defaults P,
      sig_readable_roots = sorted_absolute_paths (get_readable_roots_with_cwd H P cwd),
      sig_writable_roots = sorted_writable_roots (get_writable_roots_with_cwd H P cwd),
      sig_unreadable_roots = sorted_absolute_paths (get_unreadable_roots_with_cwd H P cwd),
      sig_unreadable_globs = get_unreadable_globs_with_cwd H P cwd\<rparr>"

definition is_semantically_equivalent_to :: "('u, 'e) fs_host \<Rightarrow> 'u fs_policy \<Rightarrow> 'u fs_policy \<Rightarrow> path \<Rightarrow> bool" where
  "is_semantically_equivalent_to H P Q cwd \<longleftrightarrow> semantic_signature H P cwd = semantic_signature H Q cwd"

definition protected_metadata_names_need_direct_runtime_enforcement ::
    "('u, 'e) fs_host \<Rightarrow> 'u fs_policy \<Rightarrow> sandbox_policy \<Rightarrow> path \<Rightarrow> bool" where
  "protected_metadata_names_need_direct_runtime_enforcement H P L cwd \<longleftrightarrow>
     (let legacy_roots = sandbox_writable_roots_with_cwd H L cwd
      in list_ex (\<lambda>w.
           (case find (\<lambda>c. wr_root c = wr_root w) legacy_roots of
              None \<Rightarrow> wr_protected_metadata_names w \<noteq> []
            | Some legacy_root \<Rightarrow>
                list_ex (\<lambda>name.
                  \<not> list_ex (\<lambda>subpath. subpath = abs_resolve H name (wr_root w)) (wr_read_only_subpaths legacy_root))
                  (wr_protected_metadata_names w)))
           (get_writable_roots_with_cwd H P cwd))"

definition needs_direct_runtime_enforcement :: "('u, 'e) fs_host \<Rightarrow> 'u fs_policy \<Rightarrow> network_sandbox_policy \<Rightarrow> path \<Rightarrow> bool" where
  "needs_direct_runtime_enforcement H P n cwd \<longleftrightarrow>
     (if fs_kind P \<noteq> FsRestricted then False
      else (case to_legacy_sandbox_policy H P n cwd of
              Inl _ \<Rightarrow> True
            | Inr L \<Rightarrow>
                if protected_metadata_names_need_direct_runtime_enforcement H P L cwd then True
                else semantic_signature H P cwd
                  \<noteq> semantic_signature H (legacy_runtime_file_system_policy_for_cwd H L cwd) cwd))"

section \<open>The matcher that refuses reads\<close>

record read_deny_matcher =
  denied_candidates :: "path list list"
  deny_read_matchers :: "(path \<Rightarrow> bool) list"
  invalid_pattern :: bool

datatype invalid_glob_behavior = FailClosed | ReturnError

definition push_unique :: "path list \<Rightarrow> path \<Rightarrow> path list" where
  "push_unique candidates c = (if list_ex (\<lambda>existing. existing = c) candidates then candidates else candidates @ [c])"

definition normalized_and_canonical_candidates :: "('u, 'e) fs_host \<Rightarrow> path \<Rightarrow> path list" where
  "normalized_and_canonical_candidates H p =
     (let candidates = (case abs_from_path H p of
                          Inr normalized \<Rightarrow> push_unique [] normalized
                        | Inl _ \<Rightarrow> push_unique [] p)
      in case host_canonicalize H p of
           Inr canonical \<Rightarrow>
             (case abs_from_path H canonical of
                Inr canonical_absolute \<Rightarrow> push_unique candidates canonical_absolute
              | Inl _ \<Rightarrow> candidates)
         | Inl _ \<Rightarrow> candidates)"

text \<open>The loop over the patterns.\<close>

fun build_deny_matchers ::
    "(str \<Rightarrow> str + (path \<Rightarrow> bool)) \<Rightarrow> invalid_glob_behavior \<Rightarrow> str list \<Rightarrow> (path \<Rightarrow> bool) list \<Rightarrow> bool
       \<Rightarrow> str + (path \<Rightarrow> bool) list \<times> bool" where
  "build_deny_matchers glob behavior [] matchers invalid = Inr (matchers, invalid)"
| "build_deny_matchers glob behavior (pattern # patterns) matchers invalid =
     (case glob pattern of
        Inr matcher \<Rightarrow> build_deny_matchers glob behavior patterns (matchers @ [matcher]) invalid
      | Inl err \<Rightarrow>
          (case behavior of
             FailClosed \<Rightarrow> build_deny_matchers glob behavior patterns matchers True
           | ReturnError \<Rightarrow> Inl (''invalid deny-read glob pattern `'' @ pattern @ ''`: '' @ err)))"

definition read_deny_matcher_build ::
    "(str \<Rightarrow> str + (path \<Rightarrow> bool)) \<Rightarrow> ('u, 'e) fs_host \<Rightarrow> 'u fs_policy \<Rightarrow> path \<Rightarrow> invalid_glob_behavior
       \<Rightarrow> str + read_deny_matcher option" where
  "read_deny_matcher_build glob H P cwd behavior =
     (if \<not> has_denied_read_restrictions P then Inr None
      else
        (let candidates = map (normalized_and_canonical_candidates H) (get_unreadable_roots_with_cwd H P cwd)
         in and_then (build_deny_matchers glob behavior (get_unreadable_globs_with_cwd H P cwd) [] False)
              (\<lambda>(matchers, invalid).
                Inr (Some \<lparr>denied_candidates = candidates, deny_read_matchers = matchers, invalid_pattern = invalid\<rparr>))))"

text \<open>\<open>None\<close> is the panic of \<open>unreachable!\<close>.\<close>

definition read_deny_matcher_new ::
    "(str \<Rightarrow> str + (path \<Rightarrow> bool)) \<Rightarrow> ('u, 'e) fs_host \<Rightarrow> 'u fs_policy \<Rightarrow> path \<Rightarrow> read_deny_matcher option option" where
  "read_deny_matcher_new glob H P cwd = result_ok (read_deny_matcher_build glob H P cwd FailClosed)"

definition read_deny_matcher_try_new ::
    "(str \<Rightarrow> str + (path \<Rightarrow> bool)) \<Rightarrow> ('u, 'e) fs_host \<Rightarrow> 'u fs_policy \<Rightarrow> path \<Rightarrow> str + read_deny_matcher option" where
  "read_deny_matcher_try_new glob H P cwd = read_deny_matcher_build glob H P cwd ReturnError"

definition is_read_denied :: "('u, 'e) fs_host \<Rightarrow> read_deny_matcher \<Rightarrow> path \<Rightarrow> bool" where
  "is_read_denied H m p \<longleftrightarrow>
     (if invalid_pattern m then True
      else
        (let path_candidates = normalized_and_canonical_candidates H p
         in if list_ex (\<lambda>denied. list_ex (\<lambda>c. list_ex (\<lambda>d. c = d \<or> starts_with c d) denied) path_candidates)
                 (denied_candidates m)
            then True
            else list_ex (\<lambda>matcher. list_ex matcher path_candidates) (deny_read_matchers m)))"

section \<open>Sets of roots\<close>

lemma set_dedup_absolute_paths:
  "set (dedup_absolute_paths H ps b) = (\<lambda>p. if b then normalize_effective_absolute_path H p else p) ` set ps"
  by (induction ps rule: rev_induct) (auto simp: dedup_absolute_paths_def Let_def)

lemma distinct_dedup_absolute_paths: "distinct (dedup_absolute_paths H ps b)"
  by (induction ps rule: rev_induct) (auto simp: dedup_absolute_paths_def Let_def)

lemma set_unreadable_roots:
  assumes "host_ok H" "fs_kind P = FsRestricted"
  shows "set (get_unreadable_roots_with_cwd H P cwd) = normalize_effective_absolute_path H `
    {res_path e | e. e \<in> set (resolved_entries_with_cwd H P cwd) \<and> res_access e = Deny
       \<and> (\<forall>c. abs_from_path H cwd = Inr c \<longrightarrow> res_path e \<noteq> [RootDir])}"
proof -
  let ?rs = "resolved_entries_with_cwd H P cwd"
  have deny: "\<not> can_read_path_with_cwd H P (res_path e) cwd" if "e \<in> set ?rs" "res_access e = Deny" for e
  proof -
    have "e = \<lparr>res_path = res_path e, res_access = Deny\<rparr>" using that(2) by (cases e) simp
    then have "resolve_access_with_cwd H P (res_path e) cwd = Deny"
      using deny_entry_not_writable(1) [OF resolved_entries_normalized [OF assms(1) that(1)] assms(2), of H cwd] that(1) by simp
    then show ?thesis by (simp add: can_read_path_with_cwd_def can_read_def)
  qed
  have root: "(case result_ok (abs_from_path H cwd) of None \<Rightarrow> None | Some c \<Rightarrow> absolute_root_path_for_cwd H c) \<noteq> Some p
      \<longleftrightarrow> (\<forall>c. abs_from_path H cwd = Inr c \<longrightarrow> p \<noteq> [RootDir])" for p
    using abs_from_path_normalized [OF assms(1)] by (cases "abs_from_path H cwd") (auto simp: host_simps)
  show ?thesis unfolding get_unreadable_roots_with_cwd_def
    using assms(2) deny by (auto simp: Let_def set_dedup_absolute_paths root)
qed

section \<open>The matcher refuses what the policy denies\<close>

lemma normalized_in_candidates:
  "abs_from_path H p = Inr q \<Longrightarrow> q \<in> set (normalized_and_canonical_candidates H p)"
  by (auto simp: normalized_and_canonical_candidates_def push_unique_def Let_def split: sum.splits)

lemma build_deny_matchers_fail_closed:
  "\<exists>ms. build_deny_matchers glob FailClosed patterns matchers invalid
     = Inr (ms, invalid \<or> list_ex (\<lambda>p. isl (glob p)) patterns)"
proof (induction patterns arbitrary: matchers invalid)
  case (Cons p patterns)
  then show ?case using Cons.IH [of matchers True] by (cases "glob p") auto
qed simp

lemma read_deny_matcher_new_Some:
  assumes "has_denied_read_restrictions P"
  shows "\<exists>m. read_deny_matcher_new glob H P cwd = Some (Some m)
    \<and> denied_candidates m = map (normalized_and_canonical_candidates H) (get_unreadable_roots_with_cwd H P cwd)
    \<and> (invalid_pattern m \<longleftrightarrow> list_ex (\<lambda>p. isl (glob p)) (get_unreadable_globs_with_cwd H P cwd))"
  using build_deny_matchers_fail_closed [of glob "get_unreadable_globs_with_cwd H P cwd" "[]" False] assms
  by (auto simp: read_deny_matcher_new_def read_deny_matcher_build_def Let_def)

lemma build_deny_matchers_return_error:
  "list_ex (\<lambda>p. isl (glob p)) patterns \<Longrightarrow> \<exists>err. build_deny_matchers glob ReturnError patterns matchers invalid = Inl err"
  by (induction patterns arbitrary: matchers) (auto split: sum.splits)

text \<open>
  The matcher never panics, and a path at or below a denied directory is refused: for every entry that denies a directory
  other than the root of the disk, the matcher built from the policy refuses each path whose absolute form lies below it,
  provided the directory is not an alias of another one.
\<close>

theorem read_deny_matcher_refuses_denied:
  assumes ok: "host_ok H" and R: "fs_kind P = FsRestricted"
    and d: "\<lparr>res_path = d, res_access = Deny\<rparr> \<in> set (resolved_entries_with_cwd H P cwd)" "d \<noteq> [RootDir]"
    and canon: "normalize_effective_absolute_path H d = d"
    and q: "abs_from_path H p = Inr q" "prefix d q"
  shows "\<exists>m. read_deny_matcher_new glob H P cwd = Some (Some m) \<and> is_read_denied H m p"
proof -
  have "has_denied_read_restrictions P"
    using R d(1) by (auto simp: has_denied_read_restrictions_def list_ex_iff set_resolved_entries intro: sym)
  then obtain m where m: "read_deny_matcher_new glob H P cwd = Some (Some m)"
      "denied_candidates m = map (normalized_and_canonical_candidates H) (get_unreadable_roots_with_cwd H P cwd)"
    using read_deny_matcher_new_Some by blast
  have "d \<in> set (get_unreadable_roots_with_cwd H P cwd)"
    unfolding set_unreadable_roots [OF ok R]
    by (rule image_eqI [where x = d]) (use d canon in \<open>auto intro!: exI [of _ "\<lparr>res_path = d, res_access = Deny\<rparr>"]\<close>)
  moreover have "d \<in> set (normalized_and_canonical_candidates H d)"
    by (rule normalized_in_candidates) (use resolved_entries_normalized [OF ok d(1)] in \<open>simp add: abs_from_path_id\<close>)
  ultimately have "is_read_denied H m p"
    using normalized_in_candidates [OF q(1)] q(2) m(2)
    by (auto simp: is_read_denied_def Let_def list_ex_iff starts_with_prefix)
  with m(1) show ?thesis by blast
qed

text \<open>
  When a deny pattern does not compile, the matcher for direct reads refuses every path, and the constructor for callers
  that must reject such patterns returns an error.
\<close>

theorem invalid_deny_glob_fails_closed:
  assumes "has_denied_read_restrictions P" and "pattern \<in> set (get_unreadable_globs_with_cwd H P cwd)" and "glob pattern = Inl err"
  shows "(\<exists>m. read_deny_matcher_new glob H P cwd = Some (Some m) \<and> (\<forall>p. is_read_denied H m p))
     \<and> (\<exists>e. read_deny_matcher_try_new glob H P cwd = Inl e)"
proof -
  have bad: "list_ex (\<lambda>p. isl (glob p)) (get_unreadable_globs_with_cwd H P cwd)"
    using assms(2,3) by (auto simp: list_ex_iff intro!: bexI [of _ pattern])
  obtain m where "read_deny_matcher_new glob H P cwd = Some (Some m)" "invalid_pattern m"
    using read_deny_matcher_new_Some [OF assms(1)] bad by blast
  moreover have "\<exists>e. read_deny_matcher_try_new glob H P cwd = Inl e"
    using build_deny_matchers_return_error [OF bad, of "[]" False] assms(1)
    by (auto simp: read_deny_matcher_try_new_def read_deny_matcher_build_def Let_def)
  ultimately show ?thesis by (auto simp: is_read_denied_def)
qed

section \<open>Writable roots grant no more than the policy\<close>

lemma carveout_below_root:
  assumes "normalize_effective_absolute_path H (res_path e) = res_path e" "prefix root (res_path e)" "res_path e \<noteq> root"
  shows "carveout_path H root raws e = Some (res_path e)"
  using assms by (simp add: carveout_path_def raw_carveout_path_def starts_with_prefix Let_def)



section \<open>Older policies and back\<close>

lemma legacy_scan_append:
  "legacy_scan_entries H cwd st (xs @ ys) = and_then (legacy_scan_entries H cwd st xs) (\<lambda>st. legacy_scan_entries H cwd st ys)"
proof (induction xs arbitrary: st)
  case (Cons e xs)
  then show ?case by (cases "legacy_scan_entry H cwd st e") simp_all
qed simp

lemma legacy_scan_not_write:
  "\<forall>e \<in> set es. entry_access e \<noteq> Write \<Longrightarrow> legacy_scan_entries H cwd st es = Inr st"
  by (induction es) (auto simp: legacy_scan_entry_def can_write_def split: fs_path.splits special_path.splits option.splits)

lemma legacy_scan_roots:
  assumes "host_ok H" "list_all normalized_absolute roots"
  shows "legacy_scan_entries H (Some c) st (map (\<lambda>p. entry_new (PathEntry (uri_from_abs_path H p)) Write) roots) =
    Inr (st\<lparr>workspace_root_writable := workspace_root_writable st \<or> c \<in> set roots,
            scan_writable_roots := scan_writable_roots st @ filter (\<lambda>p. p \<noteq> c) roots\<rparr>)"
  using assms(2)
proof (induction roots arbitrary: st)
  case (Cons p roots)
  then have "uri_to_abs_path H (uri_from_abs_path H p) = Inr p" using assms(1) by (simp add: host_ok_def)
  with Cons show ?case by (auto simp: legacy_scan_entry_def entry_new_def can_write_def)
qed simp

lemma legacy_scan_workspace:
  assumes "host_ok H" "list_all normalized_absolute roots" "\<forall>e \<in> set new. entry_access e \<noteq> Write"
  shows "legacy_scan_entries H (Some c) legacy_scan_empty (workspace_base_entries H roots a b @ new) =
    Inr \<lparr>workspace_root_writable = True, scan_writable_roots = filter (\<lambda>p. p \<noteq> c) roots, tmpdir_writable = \<not> a,
         slash_tmp_writable = \<not> b, unbridgeable_root_write = False\<rparr>"
proof -
  have root: "legacy_scan_entry H (Some c) st (entry_new (SpecialEntry SpecialRoot) Read) = Inr st" for st
    by (simp add: legacy_scan_entry_def entry_new_def)
  have project: "legacy_scan_entry H (Some c) st (entry_new (SpecialEntry (ProjectRoots None)) Write)
      = Inr (st\<lparr>workspace_root_writable := True\<rparr>)" for st
    by (simp add: legacy_scan_entry_def entry_new_def can_write_def)
  have slash: "legacy_scan_entry H (Some c) st (entry_new (SpecialEntry SlashTmp) Write) = Inr (st\<lparr>slash_tmp_writable := True\<rparr>)" for st
    by (simp add: legacy_scan_entry_def entry_new_def can_write_def)
  have tmpdir: "legacy_scan_entry H (Some c) st (entry_new (SpecialEntry SpecialTmpdir) Write) = Inr (st\<lparr>tmpdir_writable := True\<rparr>)" for st
    by (simp add: legacy_scan_entry_def entry_new_def can_write_def)
  show ?thesis
    by (cases a; cases b) (simp_all add: legacy_scan_not_write [OF assms(3)] workspace_base_entries_def legacy_scan_append root project slash tmpdir
        legacy_scan_roots [OF assms(1,2)] legacy_scan_empty_def)
qed

text \<open>The working directory is always a root of a workspace policy: listing it, or a root twice, adds nothing.\<close>

fun canonical_sandbox_policy :: "('u, 'e) fs_host \<Rightarrow> path \<Rightarrow> sandbox_policy \<Rightarrow> sandbox_policy" where
  "canonical_sandbox_policy H c (WorkspaceWrite roots net a b) =
     WorkspaceWrite (dedup_absolute_paths H (filter (\<lambda>p. p \<noteq> c) roots) False) net a b"
| "canonical_sandbox_policy H c L = L"

text \<open>
  Translating an older sandbox policy to a file-system policy for a working directory and back gives the same policy, up to
  repetitions and the working directory itself in the list of writable roots.
\<close>

theorem legacy_policy_round_trip:
  assumes "host_ok H" and "abs_from_path H cwd = Inr c" and "\<forall>roots net a b. L = WorkspaceWrite roots net a b \<longrightarrow> list_all normalized_absolute roots"
  shows "to_legacy_sandbox_policy H (from_legacy_sandbox_policy_for_cwd H L cwd) (network_policy_from L) cwd
    = Inr (canonical_sandbox_policy H c L)"
proof (cases L)
  case DangerFullAccess
  then show ?thesis by (simp add: to_legacy_sandbox_policy_def from_legacy_sandbox_policy_for_cwd_def fs_unrestricted_def
        full_access_policy_def network_policy_from_def network_is_enabled_def)
next
  case (ReadOnly n)
  then show ?thesis by (simp add: to_legacy_sandbox_policy_def from_legacy_sandbox_policy_for_cwd_def fs_restricted_def
        legacy_scan_entry_def legacy_scan_empty_def entry_new_def has_full_disk_write_access_def has_root_access_def
        can_write_def network_policy_from_def network_is_enabled_def)
next
  case (ExternalSandbox n)
  then show ?thesis by (cases n) (simp_all add: to_legacy_sandbox_policy_def from_legacy_sandbox_policy_for_cwd_def
        fs_external_sandbox_def network_policy_from_def network_is_enabled_def)
next
  case (WorkspaceWrite roots net a b)
  obtain new where P: "from_legacy_sandbox_policy_for_cwd H L cwd = fs_restricted (workspace_base_entries H roots a b @ new)"
      and new: "entry_access ` set new \<subseteq> {Read}"
    using legacy_workspace_entries WorkspaceWrite by metis
  have "\<not> has_full_disk_write_access H (fs_restricted (workspace_base_entries H roots a b @ new))"
    using new by (auto simp: has_full_disk_write_access_def has_root_access_def fs_restricted_def workspace_base_entries_def
        entry_new_def can_write_def list_ex_iff)
  moreover have "\<forall>e \<in> set new. entry_access e \<noteq> Write" using new by auto
  ultimately show ?thesis unfolding P using assms(2,3) WorkspaceWrite
    by (simp add: to_legacy_sandbox_policy_def fs_restricted_def legacy_scan_workspace [OF assms(1)]
        network_policy_from_def network_is_enabled_def)
qed

section \<open>Examples\<close>

definition no_globs :: "str \<Rightarrow> str + (path \<Rightarrow> bool)" where
  "no_globs pattern = Inl ''invalid''"

theorem read_deny_matcher_refuses_denied_witness:
  "\<exists>m. read_deny_matcher_new no_globs plain_host sample_policy (abs_names []) = Some (Some m)
     \<and> is_read_denied plain_host m (abs_names [''w'', ''secret'', ''k''])"
proof (rule read_deny_matcher_refuses_denied [OF plain_host_ok])
  show "fs_kind sample_policy = FsRestricted" by code_simp
  show "\<lparr>res_path = abs_names [''w'', ''secret''], res_access = Deny\<rparr>
    \<in> set (resolved_entries_with_cwd plain_host sample_policy (abs_names []))" by code_simp
  show "abs_names [''w'', ''secret''] \<noteq> [RootDir]" by code_simp
  show "normalize_effective_absolute_path plain_host (abs_names [''w'', ''secret'']) = abs_names [''w'', ''secret'']" by code_simp
  show "abs_from_path plain_host (abs_names [''w'', ''secret'', ''k'']) = Inr (abs_names [''w'', ''secret'', ''k''])" by code_simp
  show "prefix (abs_names [''w'', ''secret'']) (abs_names [''w'', ''secret'', ''k''])" by code_simp
qed

definition glob_policy :: "path fs_policy" where
  "glob_policy = fs_restricted
     [entry_new (SpecialEntry SpecialRoot) Read, entry_new (GlobPattern ''**/[.env'') Deny]"

theorem invalid_deny_glob_fails_closed_witness:
  "(\<exists>m. read_deny_matcher_new no_globs plain_host glob_policy (abs_names [''w'']) = Some (Some m)
      \<and> (\<forall>p. is_read_denied plain_host m p))
   \<and> (\<exists>e. read_deny_matcher_try_new no_globs plain_host glob_policy (abs_names [''w'']) = Inl e)"
proof (rule invalid_deny_glob_fails_closed)
  show "has_denied_read_restrictions glob_policy" by code_simp
  show "''/w/**/[.env'' \<in> set (get_unreadable_globs_with_cwd plain_host glob_policy (abs_names [''w'']))" by code_simp
  show "no_globs ''/w/**/[.env'' = Inl ''invalid''" by (simp add: no_globs_def)
qed


theorem legacy_policy_round_trip_witness:
  "to_legacy_sandbox_policy plain_host
     (from_legacy_sandbox_policy_for_cwd plain_host
        (WorkspaceWrite [abs_names [''v''], abs_names [''w''], abs_names [''v'']] True False True) (abs_names [''w'']))
     (network_policy_from (WorkspaceWrite [abs_names [''v''], abs_names [''w''], abs_names [''v'']] True False True)) (abs_names [''w''])
   = Inr (canonical_sandbox_policy plain_host (abs_names [''w''])
       (WorkspaceWrite [abs_names [''v''], abs_names [''w''], abs_names [''v'']] True False True))"
proof (rule legacy_policy_round_trip [OF plain_host_ok])
  show "abs_from_path plain_host (abs_names [''w'']) = Inr (abs_names [''w''])" by code_simp
  have "list_all normalized_absolute [abs_names [''v''], abs_names [''w''], abs_names [''v'']]" by code_simp
  then show "\<forall>roots net a b. WorkspaceWrite [abs_names [''v''], abs_names [''w''], abs_names [''v'']] True False True
    = WorkspaceWrite roots net a b \<longrightarrow> list_all normalized_absolute roots" by simp
qed


end
