(* ===== verification/Permission_Profile.thy ===== *)
theory Permission_Profile
  imports Fs_Policy_Roots
begin

text \<open>
  Permission profiles (\<open>codex-rs/protocol/src/models.rs\<close>): the profile of a conversation, its translation to and from the
  policies that are enforced at run time and the older sandbox policies, and the further permissions a command may
  ask for.  A panic of \<open>unreachable!\<close> is \<open>None\<close>.  A \<open>NonZeroUsize\<close> is a natural number that the well-formedness predicate
  keeps from being zero.
\<close>

section \<open>Profiles\<close>

datatype 'e managed_fs = ManagedRestricted "'e list" "nat option" | ManagedUnrestricted

fun to_sandbox_policy :: "'e managed_fs \<Rightarrow> 'e fs_sandbox_policy" where
  "to_sandbox_policy (ManagedRestricted entries depth) =
     \<lparr>fs_kind = FsRestricted, glob_scan_max_depth = depth, fs_entries = entries\<rparr>"
| "to_sandbox_policy ManagedUnrestricted = fs_unrestricted"

datatype ('e, 'n) permission_profile = Managed "'e managed_fs" 'n | Disabled | External 'n

fun file_system_sandbox_policy :: "('e, 'n) permission_profile \<Rightarrow> 'e fs_sandbox_policy" where
  "file_system_sandbox_policy (Managed file_system _) = to_sandbox_policy file_system"
| "file_system_sandbox_policy Disabled = fs_unrestricted"
| "file_system_sandbox_policy (External _) = fs_external_sandbox"

definition managed_from_sandbox_policy :: "'e fs_sandbox_policy \<Rightarrow> 'e managed_fs option" where
  "managed_from_sandbox_policy P =
     (case fs_kind P of
        FsRestricted \<Rightarrow>
          Some (ManagedRestricted (fs_entries P)
            (case glob_scan_max_depth P of None \<Rightarrow> None | Some d \<Rightarrow> if d = 0 then None else Some d))
      | FsUnrestricted \<Rightarrow> Some ManagedUnrestricted
      | FsExternalSandbox \<Rightarrow> None)"

datatype sandbox_enforcement = EnforceManaged | EnforceDisabled | EnforceExternal

fun enforcement_from_legacy_sandbox_policy :: "sandbox_policy \<Rightarrow> sandbox_enforcement" where
  "enforcement_from_legacy_sandbox_policy DangerFullAccess = EnforceDisabled"
| "enforcement_from_legacy_sandbox_policy (ExternalSandbox _) = EnforceExternal"
| "enforcement_from_legacy_sandbox_policy (ReadOnly _) = EnforceManaged"
| "enforcement_from_legacy_sandbox_policy (WorkspaceWrite _ _ _ _) = EnforceManaged"

type_synonym 'u profile = "('u fs_entry, network_sandbox_policy) permission_profile"

definition profile_default :: "'u profile" where
  "profile_default = Managed (ManagedRestricted [] None) NetworkRestricted"

definition profile_read_only :: "'u profile option" where
  "profile_read_only = map_option (\<lambda>fs. Managed fs NetworkRestricted) (managed_from_sandbox_policy fs_read_only)"

definition from_runtime_permissions_with_enforcement ::
    "sandbox_enforcement \<Rightarrow> 'u fs_policy \<Rightarrow> network_sandbox_policy \<Rightarrow> 'u profile option" where
  "from_runtime_permissions_with_enforcement enforcement P n =
     (case fs_kind P of
        FsExternalSandbox \<Rightarrow> Some (External n)
      | FsUnrestricted \<Rightarrow>
          if enforcement = EnforceDisabled then Some Disabled
          else map_option (\<lambda>fs. Managed fs n) (managed_from_sandbox_policy P)
      | FsRestricted \<Rightarrow> map_option (\<lambda>fs. Managed fs n) (managed_from_sandbox_policy P))"

definition from_runtime_permissions :: "'u fs_policy \<Rightarrow> network_sandbox_policy \<Rightarrow> 'u profile option" where
  "from_runtime_permissions P n =
     from_runtime_permissions_with_enforcement
       (case fs_kind P of FsExternalSandbox \<Rightarrow> EnforceExternal | _ \<Rightarrow> EnforceManaged) P n"

fun read_only_access :: "access_mode \<Rightarrow> access_mode" where
  "read_only_access Read = Read"
| "read_only_access Write = Read"
| "read_only_access Deny = Deny"

text \<open>The outer option of the result is the panic, the inner one the \<open>Option\<close> of the code.\<close>

definition intersect_with_read_only :: "'u profile \<Rightarrow> 'u profile option option" where
  "intersect_with_read_only p =
     (let P = file_system_sandbox_policy p
      in case fs_kind P of
           FsRestricted \<Rightarrow>
             map_option Some (from_runtime_permissions
               (P\<lparr>fs_entries := map (\<lambda>e. e\<lparr>entry_access := read_only_access (entry_access e)\<rparr>) (fs_entries P)\<rparr>)
               NetworkRestricted)
         | FsUnrestricted \<Rightarrow> map_option Some (from_runtime_permissions fs_read_only NetworkRestricted)
         | FsExternalSandbox \<Rightarrow> Some None)"

definition profile_workspace_write_with ::
    "('u, 'e) fs_host \<Rightarrow> path list \<Rightarrow> network_sandbox_policy \<Rightarrow> bool \<Rightarrow> bool \<Rightarrow> 'u profile option" where
  "profile_workspace_write_with H roots n ex_tmpdir ex_slash_tmp =
     map_option (\<lambda>fs. Managed fs n) (managed_from_sandbox_policy (fs_workspace_write H roots ex_tmpdir ex_slash_tmp))"

definition profile_workspace_write :: "('u, 'e) fs_host \<Rightarrow> 'u profile option" where
  "profile_workspace_write H = profile_workspace_write_with H [] NetworkRestricted False False"

fun profile_materialize_project_roots :: "('u, 'e) fs_host \<Rightarrow> 'u profile \<Rightarrow> path list \<Rightarrow> 'u profile option" where
  "profile_materialize_project_roots H (Managed fs n) roots =
     map_option (\<lambda>fs. Managed fs n) (managed_from_sandbox_policy
       (materialize_project_roots_with_workspace_roots H (to_sandbox_policy fs) roots))"
| "profile_materialize_project_roots H Disabled roots = Some Disabled"
| "profile_materialize_project_roots H (External n) roots = Some (External n)"

definition profile_from_legacy_sandbox_policy :: "('u, 'e) fs_host \<Rightarrow> sandbox_policy \<Rightarrow> 'u profile option" where
  "profile_from_legacy_sandbox_policy H L =
     from_runtime_permissions_with_enforcement (enforcement_from_legacy_sandbox_policy L)
       (fs_policy_from H L) (network_policy_from L)"

definition profile_from_legacy_sandbox_policy_for_cwd :: "('u, 'e) fs_host \<Rightarrow> sandbox_policy \<Rightarrow> path \<Rightarrow> 'u profile option" where
  "profile_from_legacy_sandbox_policy_for_cwd H L cwd =
     from_runtime_permissions_with_enforcement (enforcement_from_legacy_sandbox_policy L)
       (from_legacy_sandbox_policy_for_cwd H L cwd) (network_policy_from L)"

fun profile_enforcement :: "('e, 'n) permission_profile \<Rightarrow> sandbox_enforcement" where
  "profile_enforcement (Managed _ _) = EnforceManaged"
| "profile_enforcement Disabled = EnforceDisabled"
| "profile_enforcement (External _) = EnforceExternal"

fun profile_network :: "('e, network_sandbox_policy) permission_profile \<Rightarrow> network_sandbox_policy" where
  "profile_network (Managed _ n) = n"
| "profile_network (External n) = n"
| "profile_network Disabled = NetworkEnabled"

fun profile_to_legacy_sandbox_policy :: "('u, 'e) fs_host \<Rightarrow> 'u profile \<Rightarrow> path \<Rightarrow> 'e legacy_error + sandbox_policy" where
  "profile_to_legacy_sandbox_policy H (Managed fs n) cwd = to_legacy_sandbox_policy H (to_sandbox_policy fs) n cwd"
| "profile_to_legacy_sandbox_policy H Disabled cwd = Inr DangerFullAccess"
| "profile_to_legacy_sandbox_policy H (External n) cwd =
     Inr (ExternalSandbox (if network_is_enabled n then NetworkAccessEnabled else NetworkAccessRestricted))"

definition to_runtime_permissions :: "'u profile \<Rightarrow> 'u fs_policy \<times> network_sandbox_policy" where
  "to_runtime_permissions p = (file_system_sandbox_policy p, profile_network p)"

section \<open>Further permissions\<close>

record 'u file_system_permissions =
  perm_entries :: "'u fs_entry list"
  perm_glob_scan_max_depth :: "nat option"

definition fs_permissions_default :: "'u file_system_permissions" where
  "fs_permissions_default = \<lparr>perm_entries = [], perm_glob_scan_max_depth = None\<rparr>"

definition fs_permissions_is_empty :: "'u file_system_permissions \<Rightarrow> bool" where
  "fs_permissions_is_empty p \<longleftrightarrow> perm_entries p = []"

definition permissions_from_paths :: "('p \<Rightarrow> 'u fs_path) \<Rightarrow> 'p list option \<Rightarrow> 'p list option \<Rightarrow> 'u file_system_permissions" where
  "permissions_from_paths into read write =
     \<lparr>perm_entries =
        (case read of None \<Rightarrow> [] | Some ps \<Rightarrow> map (\<lambda>p. entry_new (into p) Read) ps)
        @ (case write of None \<Rightarrow> [] | Some ps \<Rightarrow> map (\<lambda>p. entry_new (into p) Write) ps),
      perm_glob_scan_max_depth = None\<rparr>"

definition from_read_write_roots ::
    "('u, 'e) fs_host \<Rightarrow> path list option \<Rightarrow> path list option \<Rightarrow> 'u file_system_permissions" where
  "from_read_write_roots H read write = permissions_from_paths (\<lambda>p. PathEntry (uri_from_abs_path H p)) read write"

definition from_read_write_path_uris :: "'u list option \<Rightarrow> 'u list option \<Rightarrow> 'u file_system_permissions" where
  "from_read_write_path_uris read write = permissions_from_paths PathEntry read write"

record legacy_read_write_roots =
  legacy_read :: "path list option"
  legacy_write :: "path list option"

fun legacy_permissions_loop :: "('u, 'e) fs_host \<Rightarrow> 'u fs_entry list \<Rightarrow> path list \<Rightarrow> path list \<Rightarrow> (path list \<times> path list) option" where
  "legacy_permissions_loop H [] read write = Some (read, write)"
| "legacy_permissions_loop H (e # es) read write =
     (case entry_path e of
        PathEntry u \<Rightarrow>
          (case uri_to_abs_path H u of
             Inl _ \<Rightarrow> None
           | Inr p \<Rightarrow>
               (case entry_access e of
                  Read \<Rightarrow> legacy_permissions_loop H es (read @ [p]) write
                | Write \<Rightarrow> legacy_permissions_loop H es read (write @ [p])
                | Deny \<Rightarrow> None))
      | _ \<Rightarrow> None)"

definition as_legacy_permissions :: "('u, 'e) fs_host \<Rightarrow> 'u file_system_permissions \<Rightarrow> legacy_read_write_roots option" where
  "as_legacy_permissions H p =
     (if perm_glob_scan_max_depth p \<noteq> None then None
      else map_option (\<lambda>(read, write).
             \<lparr>legacy_read = (if read \<noteq> [] then Some read else None),
              legacy_write = (if write \<noteq> [] then Some write else None)\<rparr>)
             (legacy_permissions_loop H (perm_entries p) [] []))"

record network_permissions =
  net_enabled :: "bool option"

definition network_permissions_is_empty :: "network_permissions \<Rightarrow> bool" where
  "network_permissions_is_empty n \<longleftrightarrow> net_enabled n = None"

record 'u additional_permission_profile =
  add_network :: "network_permissions option"
  add_file_system :: "'u file_system_permissions option"

definition additional_is_empty :: "'u additional_permission_profile \<Rightarrow> bool" where
  "additional_is_empty p \<longleftrightarrow> add_network p = None \<and> add_file_system p = None"

text \<open>The profile written before enforcement was explicit has the fields of the further permissions.\<close>

definition profile_from_legacy_profile :: "'u additional_permission_profile \<Rightarrow> 'u profile" where
  "profile_from_legacy_profile v =
     Managed
       (case add_file_system v of
          None \<Rightarrow> ManagedRestricted [] None
        | Some p \<Rightarrow> ManagedRestricted (perm_entries p) (perm_glob_scan_max_depth p))
       (if (case add_network v of None \<Rightarrow> False | Some n \<Rightarrow> net_enabled n = Some True)
        then NetworkEnabled else NetworkRestricted)"

section \<open>Profiles and what is enforced\<close>

fun profile_ok :: "('e, 'n) permission_profile \<Rightarrow> bool" where
  "profile_ok (Managed (ManagedRestricted _ depth) _) = (depth \<noteq> Some 0)"
| "profile_ok _ = True"

lemma managed_from_sandbox_policy_Some:
  "fs_kind P \<noteq> FsExternalSandbox \<Longrightarrow> \<exists>m. managed_from_sandbox_policy P = Some m"
  by (cases "fs_kind P") (simp_all add: managed_from_sandbox_policy_def)

lemma managed_from_restricted:
  "fs_kind P = FsRestricted \<Longrightarrow> \<exists>depth. managed_from_sandbox_policy P = Some (ManagedRestricted (fs_entries P) depth) \<and> depth \<noteq> Some 0"
  by (simp add: managed_from_sandbox_policy_def split: option.splits)

text \<open>No policy makes the constructor of a profile panic.\<close>

lemma from_runtime_permissions_no_panic:
  "\<exists>p. from_runtime_permissions_with_enforcement enforcement P n = Some p"
  using managed_from_sandbox_policy_Some [of P]
  by (cases "fs_kind P") (auto simp: from_runtime_permissions_with_enforcement_def)

text \<open>
  A well-formed profile is recovered from what is enforced at run time: its file-system policy, its network policy and who
  enforces them.
\<close>

theorem profile_runtime_round_trip:
  fixes p :: "'u profile"
  assumes "profile_ok p"
  shows "from_runtime_permissions_with_enforcement (profile_enforcement p) (fst (to_runtime_permissions p))
    (snd (to_runtime_permissions p)) = Some p"
proof (cases p)
  case (Managed fs n)
  with assms show ?thesis
    by (cases fs) (auto simp: to_runtime_permissions_def from_runtime_permissions_with_enforcement_def fs_unrestricted_def
        managed_from_sandbox_policy_def split: option.splits)
qed (simp_all add: to_runtime_permissions_def from_runtime_permissions_with_enforcement_def fs_unrestricted_def fs_external_sandbox_def)

lemma resolved_entries_map_access:
  assumes "P' = P\<lparr>fs_entries := map (\<lambda>e. e\<lparr>entry_access := f (entry_access e)\<rparr>) (fs_entries P)\<rparr>"
  shows "resolved_entries_with_cwd H P' cwd = map (\<lambda>r. r\<lparr>res_access := f (res_access r)\<rparr>) (resolved_entries_with_cwd H P cwd)"
proof -
  have "List.map_filter (\<lambda>e. map_option (\<lambda>p. \<lparr>res_path = p, res_access = entry_access e\<rparr>) (resolve_entry_path H (entry_path e) c))
      (map (\<lambda>e. e\<lparr>entry_access := f (entry_access e)\<rparr>) es)
    = map (\<lambda>r. r\<lparr>res_access := f (res_access r)\<rparr>)
      (List.map_filter (\<lambda>e. map_option (\<lambda>p. \<lparr>res_path = p, res_access = entry_access e\<rparr>) (resolve_entry_path H (entry_path e) c)) es)"
    for es :: "'a fs_entry list" and c
    by (induction es) (auto simp: List.map_filter_simps split: option.splits)
  then show ?thesis by (simp add: assms resolved_entries_with_cwd_def Let_def)
qed

lemma read_only_access_mono: "a \<le> b \<Longrightarrow> read_only_access a \<le> read_only_access b"
  by (cases a; cases b) (auto simp: less_eq_access_mode_def)

lemma access_of_read_only:
  "access_of (map (\<lambda>r. r\<lparr>res_access := read_only_access (res_access r)\<rparr>) rs) q = read_only_access (access_of rs q)"
proof (cases "\<exists>e \<in> set rs. prefix (res_path e) q")
  case True
  then obtain m where m: "decided_by rs q m" "access_of rs q = res_access m" using decided_by_ex by blast
  then have "decided_by (map (\<lambda>r. r\<lparr>res_access := read_only_access (res_access r)\<rparr>) rs) q
      (m\<lparr>res_access := read_only_access (res_access m)\<rparr>)"
    by (fastforce simp: decided_by_def intro: read_only_access_mono)
  then show ?thesis using m(2) by (simp add: access_of_decided)
next
  case False
  then show ?thesis using access_of_none [of rs q]
      access_of_none [of "map (\<lambda>r. r\<lparr>res_access := read_only_access (res_access r)\<rparr>) rs" q] by fastforce
qed

text \<open>
  Intersecting a profile with read-only access keeps every path that could be read readable, lets nothing be written, and
  denies exactly what was denied; the network is cut off.  Only for a profile that an outside caller enforces there is no
  result.
\<close>

theorem intersect_with_read_only_exact:
  assumes R: "fs_kind (file_system_sandbox_policy p) = FsRestricted"
  shows "\<exists>r. intersect_with_read_only p = Some (Some r) \<and> profile_network r = NetworkRestricted
     \<and> (\<forall>q. resolve_access_with_cwd H (file_system_sandbox_policy r) q cwd =
          read_only_access (resolve_access_with_cwd H (file_system_sandbox_policy p) q cwd))"
proof -
  let ?P = "file_system_sandbox_policy p"
  let ?Q = "?P\<lparr>fs_entries := map (\<lambda>e. e\<lparr>entry_access := read_only_access (entry_access e)\<rparr>) (fs_entries ?P)\<rparr>"
  obtain depth where m: "managed_from_sandbox_policy ?Q = Some (ManagedRestricted (fs_entries ?Q) depth)"
    using managed_from_restricted [of ?Q] R by auto
  let ?r = "Managed (ManagedRestricted (fs_entries ?Q) depth) NetworkRestricted"
  have "intersect_with_read_only p = Some (Some ?r)"
    using m R by (simp add: intersect_with_read_only_def from_runtime_permissions_def
        from_runtime_permissions_with_enforcement_def Let_def)
  moreover have "resolve_access_with_cwd H (file_system_sandbox_policy ?r) q cwd
      = read_only_access (resolve_access_with_cwd H ?P q cwd)" for q
  proof (cases "resolve_candidate_path H q cwd")
    case None
    then show ?thesis using R by (simp add: resolve_access_with_cwd_def)
  next
    case (Some q')
    have "resolved_entries_with_cwd H (file_system_sandbox_policy ?r) cwd = resolved_entries_with_cwd H ?Q cwd"
      by (simp add: resolved_entries_with_cwd_def)
    then show ?thesis using resolved_entries_map_access [of ?Q read_only_access ?P H cwd]
      by (simp add: resolve_access_restricted [OF _ Some] R access_of_read_only)
  qed
  ultimately show ?thesis by auto
qed

text \<open>Further permissions given as lists of paths are recovered from the entries made of them.\<close>

lemma legacy_permissions_loop_reads:
  assumes "host_ok H" "list_all normalized_absolute ps"
  shows "legacy_permissions_loop H (map (\<lambda>p. entry_new (PathEntry (uri_from_abs_path H p)) Read) ps @ es) rs ws
    = legacy_permissions_loop H es (rs @ ps) ws"
  using assms(2)
proof (induction ps arbitrary: rs)
  case (Cons p ps)
  then have "uri_to_abs_path H (uri_from_abs_path H p) = Inr p" using assms(1) by (simp add: host_ok_def)
  with Cons show ?case by (simp add: entry_new_def)
qed simp

lemma legacy_permissions_loop_writes:
  assumes "host_ok H" "list_all normalized_absolute ps"
  shows "legacy_permissions_loop H (map (\<lambda>p. entry_new (PathEntry (uri_from_abs_path H p)) Write) ps) rs ws
    = Some (rs, ws @ ps)"
  using assms(2)
proof (induction ps arbitrary: ws)
  case (Cons p ps)
  then have "uri_to_abs_path H (uri_from_abs_path H p) = Inr p" using assms(1) by (simp add: host_ok_def)
  with Cons show ?case by (simp add: entry_new_def)
qed simp

lemma read_write_roots_round_trip:
  assumes "host_ok H" "list_all normalized_absolute rs" "list_all normalized_absolute ws" "rs \<noteq> []" "ws \<noteq> []"
  shows "as_legacy_permissions H (from_read_write_roots H (Some rs) (Some ws)) = Some \<lparr>legacy_read = Some rs, legacy_write = Some ws\<rparr>"
  using assms by (simp add: as_legacy_permissions_def from_read_write_roots_def permissions_from_paths_def
      legacy_permissions_loop_reads legacy_permissions_loop_writes)

section \<open>Examples\<close>

definition sample_profile :: "path profile" where
  "sample_profile = Managed (ManagedRestricted (fs_entries sample_policy) (Some 3)) NetworkEnabled"

theorem profile_runtime_round_trip_witness:
  "from_runtime_permissions_with_enforcement (profile_enforcement sample_profile) (fst (to_runtime_permissions sample_profile))
    (snd (to_runtime_permissions sample_profile)) = Some sample_profile"
proof (rule profile_runtime_round_trip)
  show "profile_ok sample_profile" by code_simp
qed

theorem intersect_with_read_only_exact_witness:
  "\<exists>r. intersect_with_read_only sample_profile = Some (Some r) \<and> profile_network r = NetworkRestricted
     \<and> (\<forall>q. resolve_access_with_cwd plain_host (file_system_sandbox_policy r) q (abs_names []) =
          read_only_access (resolve_access_with_cwd plain_host (file_system_sandbox_policy sample_profile) q (abs_names [])))"
proof (rule intersect_with_read_only_exact)
  show "fs_kind (file_system_sandbox_policy sample_profile) = FsRestricted" by code_simp
qed

end
