(* ===== verification/Exec_Approval.thy ===== *)
theory Exec_Approval
  imports Exec_Policy Dangerous_Command Permission_Profile
begin

text \<open>
  What must happen before a command runs (\<open>codex-rs/core/src/exec_policy.rs\<close> with \<open>exec_policy/model_policy.rs\<close> and
  \<open>exec_policy/executable_identity.rs\<close>, and the appended rules of \<open>codex-rs/execpolicy/src/amend.rs\<close>; Unix build): a command
  is split into the commands of its script, each is decided by the execution policy or, when no rule matches, by the
  approval mode and the search for danger, and the outcome is to run it, to ask or to refuse.  The bash
  parser, shell quoting, JSON strings and the writing of files are arguments.  The command origin has a single value on Unix
  and is left out.
\<close>

section \<open>Approval modes and permissions\<close>

record granular_config =
  sandbox_approval :: bool
  rules_approval :: bool
  skill_approval :: bool
  request_permissions :: bool
  mcp_elicitations :: bool

datatype ask_for_approval = UnlessTrusted | OnRequest | Granular granular_config | Never

datatype sandbox_permissions = UseDefault | RequireEscalated | WithAdditionalPermissions

definition requests_sandbox_override :: "sandbox_permissions \<Rightarrow> bool" where
  "requests_sandbox_override p \<longleftrightarrow> p \<noteq> UseDefault"

record amendment =
  amendment_command :: "str list"

definition amendment_of :: "str list \<Rightarrow> amendment" where
  "amendment_of cmd = \<lparr>amendment_command = cmd\<rparr>"

datatype exec_approval_requirement =
    Skip (bypass_sandbox: bool) (skip_amendment: "amendment option")
  | NeedsApproval (approval_reason: "str option") (approval_amendment: "amendment option")
  | Refuse (refuse_reason: str)

datatype allow_prefix_rules = Honor | IgnoreForCyberModel

record ('e, 'n, 'm) approval_request =
  req_command :: "str list"
  req_approval_policy :: ask_for_approval
  req_permission_profile :: "('e, 'n) permission_profile"
  req_environment_policy :: "'m policy option"
  req_sandbox_permissions :: sandbox_permissions
  req_prefix_rule :: "str list option"
  req_allow_prefix_rules :: allow_prefix_rules

section \<open>Constants\<close>

definition PROMPT_CONFLICT_REASON :: str where
  "PROMPT_CONFLICT_REASON = ''approval required by policy, but AskForApproval is set to Never''"

definition REJECT_SANDBOX_APPROVAL_REASON :: str where
  "REJECT_SANDBOX_APPROVAL_REASON =
     ''approval required by policy, but AskForApproval::Granular.sandbox_approval is false''"

definition REJECT_RULES_APPROVAL_REASON :: str where
  "REJECT_RULES_APPROVAL_REASON = ''approval required by policy rule, but AskForApproval::Granular.rules is false''"

definition BANNED_PREFIX_SUGGESTIONS :: "str list list" where
  "BANNED_PREFIX_SUGGESTIONS =
    [[''/bin/bash''], [''/bin/bash'', ''-c''], [''/bin/bash'', ''-lc''], [''/bin/sh''], [''/bin/sh'', ''-c''],
     [''/bin/sh'', ''-lc''], [''/bin/zsh''], [''/bin/zsh'', ''-c''], [''/bin/zsh'', ''-lc''], [''Rscript''],
     [''bash''], [''bash'', ''-c''], [''bash'', ''-lc''], [''bun''], [''bun'', ''-e''], [''bun'', ''run''],
     [''cmd''], [''cmd'', ''/c''], [''cmd'', ''/k''], [''cmd.exe''], [''cmd.exe'', ''/c''],
     [''cmd.exe'', ''/k''], [''dash''], [''dash'', ''-c''], [''deno''], [''deno'', ''eval''], [''env''],
     [''fish''], [''fish'', ''-c''], [''git''], [''julia''], [''julia'', ''-e''], [''ksh''], [''ksh'', ''-c''],
     [''lua''], [''lua'', ''-e''], [''node''], [''node'', ''-e''], [''nodejs''], [''nodejs'', ''-e''],
     [''npm'', ''run''], [''osascript''], [''perl''], [''perl'', ''-e''], [''php''], [''php'', ''-r''],
     [''pnpm'', ''run''], [''powershell''], [''powershell'', ''-Command''],
     [''powershell'', ''-EncodedCommand''], [''powershell'', ''-File''], [''powershell'', ''-c''],
     [''powershell.exe''], [''powershell.exe'', ''-Command''], [''powershell.exe'', ''-EncodedCommand''],
     [''powershell.exe'', ''-File''], [''powershell.exe'', ''-c''], [''pwsh''], [''pwsh'', ''-Command''],
     [''pwsh'', ''-EncodedCommand''], [''pwsh'', ''-File''], [''pwsh'', ''-c''], [''pwsh'', ''-e''],
     [''pwsh'', ''-ec''], [''pwsh'', ''-f''], [''py''], [''py'', ''-3''], [''pypy''], [''pypy3''],
     [''python''], [''python'', ''-''], [''python'', ''-c''], [''python3''], [''python3'', ''-''],
     [''python3'', ''-c''], [''pythonw''], [''pyw''], [''rm''], [''ruby''], [''ruby'', ''-e''], [''sh''],
     [''sh'', ''-c''], [''sh'', ''-lc''], [''sudo''], [''yarn'', ''run''], [''zsh''], [''zsh'', ''-c''],
     [''zsh'', ''-lc'']]"

section \<open>The policy in force\<close>

definition current_for_prefix_rules ::
    "('m, 'z) multimap_ops_scheme \<Rightarrow> 'm policy \<Rightarrow> allow_prefix_rules \<Rightarrow> 'm policy" where
  "current_for_prefix_rules M p mode =
     (case mode of
        Honor \<Rightarrow> p
      | IgnoreForCyberModel \<Rightarrow>
          policy_from_parts
            (foldl (mm_insert_all M) (mm_new M)
              (map (\<lambda>(program, rules). (program, filter (\<lambda>r. rule_decision r \<noteq> Allow) rules))
                (mm_iter_all M (rules_by_program p))))
            (network_rules p) (host_executables_by_name p))"

definition current_for_environment ::
    "('m, 'z) multimap_ops_scheme \<Rightarrow> 'm policy \<Rightarrow> 'm policy option \<Rightarrow> allow_prefix_rules \<Rightarrow> 'm policy" where
  "current_for_environment M p environment_policy mode =
     (case environment_policy of
        Some overlay \<Rightarrow> merge_overlay M (current_for_prefix_rules M p mode) overlay
      | None \<Rightarrow> current_for_prefix_rules M p mode)"

section \<open>Commands without a rule\<close>

definition render_decision_for_unmatched_command ::
    "(str \<Rightarrow> tree option) \<Rightarrow> ask_for_approval \<Rightarrow> ('e, 'n) permission_profile \<Rightarrow> sandbox_permissions \<Rightarrow> str list \<Rightarrow> decision" where
  "render_decision_for_unmatched_command parse approval_policy profile sandbox_perms command =
     (if dangerous_command_match parse command \<noteq> None then
        (case approval_policy of Never \<Rightarrow> Forbidden | _ \<Rightarrow> Prompt)
      else
        (case approval_policy of
           Never \<Rightarrow> Allow
         | UnlessTrusted \<Rightarrow> Prompt
         | _ \<Rightarrow>
             (case fs_kind (file_system_sandbox_policy profile) of
                FsRestricted \<Rightarrow> if requests_sandbox_override sandbox_perms then Prompt else Allow
              | _ \<Rightarrow> Allow)))"

definition commands_for_exec_policy :: "(str \<Rightarrow> tree option) \<Rightarrow> str list \<Rightarrow> str list list" where
  "commands_for_exec_policy parse command =
     (case parse_shell_lc_plain_commands parse command of
        Some (c # cs) \<Rightarrow> c # cs
      | _ \<Rightarrow> [command])"

section \<open>Reasons and amendments\<close>

fun is_policy_match :: "rule_match \<Rightarrow> bool" where
  "is_policy_match (PrefixRuleMatch _ _ _ _) = True"
| "is_policy_match (HeuristicsRuleMatch _ _) = False"

definition prompt_is_rejected_by_policy :: "ask_for_approval \<Rightarrow> bool \<Rightarrow> str option" where
  "prompt_is_rejected_by_policy approval_policy prompt_is_rule =
     (case approval_policy of
        Never \<Rightarrow> Some PROMPT_CONFLICT_REASON
      | OnRequest \<Rightarrow> None
      | UnlessTrusted \<Rightarrow> None
      | Granular g \<Rightarrow>
          if prompt_is_rule then (if \<not> rules_approval g then Some REJECT_RULES_APPROVAL_REASON else None)
          else if \<not> sandbox_approval g then Some REJECT_SANDBOX_APPROVAL_REASON
          else None)"

definition dangerous_command_match_for_heuristics ::
    "(str \<Rightarrow> tree option) \<Rightarrow> rule_match list \<Rightarrow> decision \<Rightarrow> danger_kind option" where
  "dangerous_command_match_for_heuristics parse ms d =
     find_map (\<lambda>m. case m of
         HeuristicsRuleMatch command d' \<Rightarrow> if d' = d then dangerous_command_match parse command else None
       | _ \<Rightarrow> None) ms"

definition heuristics_amendment :: "decision \<Rightarrow> rule_match list \<Rightarrow> amendment option" where
  "heuristics_amendment d ms =
     find_map (\<lambda>m. case m of
         HeuristicsRuleMatch command d' \<Rightarrow> if d' = d then Some (amendment_of command) else None
       | _ \<Rightarrow> None) ms"

definition try_derive_execpolicy_amendment_for_prompt_rules :: "rule_match list \<Rightarrow> amendment option" where
  "try_derive_execpolicy_amendment_for_prompt_rules ms =
     (if list_ex (\<lambda>m. is_policy_match m \<and> match_decision m = Prompt) ms then None else heuristics_amendment Prompt ms)"

definition try_derive_execpolicy_amendment_for_allow_rules :: "rule_match list \<Rightarrow> amendment option" where
  "try_derive_execpolicy_amendment_for_allow_rules ms =
     (if list_ex is_policy_match ms then None else heuristics_amendment Allow ms)"

definition prefix_rule_would_approve_all_commands ::
    "('m, 'z) multimap_ops_scheme \<Rightarrow> process_env \<Rightarrow> 'm policy \<Rightarrow> str list \<Rightarrow> str list list \<Rightarrow> (str list \<Rightarrow> decision) \<Rightarrow>
       match_options \<Rightarrow> bool" where
  "prefix_rule_would_approve_all_commands M env p pre commands fallback options =
     (case add_prefix_rule M p pre Allow of
        Inl _ \<Rightarrow> False
      | Inr p' \<Rightarrow>
          list_all (\<lambda>command. map_option eval_decision (check_with_options M env p' command fallback options) = Some Allow)
            commands)"

definition derive_requested_execpolicy_amendment_from_prefix_rule ::
    "('m, 'z) multimap_ops_scheme \<Rightarrow> process_env \<Rightarrow> str list option \<Rightarrow> rule_match list \<Rightarrow> 'm policy \<Rightarrow> str list list \<Rightarrow>
       (str list \<Rightarrow> decision) \<Rightarrow> match_options \<Rightarrow> amendment option" where
  "derive_requested_execpolicy_amendment_from_prefix_rule M env prefix_rule ms p commands fallback options =
     (case prefix_rule of
        None \<Rightarrow> None
      | Some pre \<Rightarrow>
          if pre = [] then None
          else if list_ex (\<lambda>banned. pre = banned) BANNED_PREFIX_SUGGESTIONS then None
          else if list_ex is_policy_match ms then None
          else if prefix_rule_would_approve_all_commands M env p pre commands fallback options
          then Some (amendment_of pre)
          else None)"

definition render_shlex_command :: "(str list \<Rightarrow> str option) \<Rightarrow> str list \<Rightarrow> str" where
  "render_shlex_command try_join args = (case try_join args of Some s \<Rightarrow> s | None \<Rightarrow> join_with '' '' args)"

definition most_specific :: "decision \<Rightarrow> rule_match list \<Rightarrow> (str list \<times> str option) option" where
  "most_specific d ms =
     max_by_key (\<lambda>(pre, _). length pre)
       (List.map_filter (\<lambda>m. case m of
           PrefixRuleMatch pre d' _ j \<Rightarrow> if d' = d then Some (pre, j) else None
         | _ \<Rightarrow> None) ms)"

definition quoted :: "str \<Rightarrow> str" where
  "quoted s = [CHR 0x60] @ s @ [CHR 0x60]"

definition derive_prompt_reason :: "(str list \<Rightarrow> str option) \<Rightarrow> str list \<Rightarrow> rule_match list \<Rightarrow> str option" where
  "derive_prompt_reason try_join args ms =
     (let command = render_shlex_command try_join args
      in case most_specific Prompt ms of
           Some (_, Some j) \<Rightarrow> Some (quoted command @ '' requires approval: '' @ j)
         | Some (_, None) \<Rightarrow> Some (quoted command @ '' requires approval by policy'')
         | None \<Rightarrow> None)"

fun dangerous_command_rejection_reason :: "danger_kind \<Rightarrow> str" where
  "dangerous_command_rejection_reason ForcedRm = ''rm -f style commands are not permitted. Use a safer approach''"
| "dangerous_command_rejection_reason OtherDanger = ''blocked by policy''"

definition derive_forbidden_reason ::
    "(str list \<Rightarrow> str option) \<Rightarrow> str list \<Rightarrow> rule_match list \<Rightarrow> danger_kind option \<Rightarrow> str" where
  "derive_forbidden_reason try_join args ms danger =
     (let command = render_shlex_command try_join args
      in case most_specific Forbidden ms of
           Some (_, Some j) \<Rightarrow> quoted command @ '' rejected: '' @ j
         | Some (pre, None) \<Rightarrow>
             quoted command @ '' rejected: policy forbids commands starting with '' @ quoted (render_shlex_command try_join pre)
         | None \<Rightarrow>
             (case danger of
                Some m \<Rightarrow> quoted command @ '' rejected: '' @ dangerous_command_rejection_reason m
              | None \<Rightarrow> quoted command @ '' rejected: blocked by policy''))"

definition derive_rejected_prompt_reason :: "str \<Rightarrow> danger_kind option \<Rightarrow> str" where
  "derive_rejected_prompt_reason fallback_reason danger =
     (case danger of Some ForcedRm \<Rightarrow> dangerous_command_rejection_reason ForcedRm | _ \<Rightarrow> fallback_reason)"

section \<open>The requirement\<close>

definition request_fallback ::
    "(str \<Rightarrow> tree option) \<Rightarrow> ('e, 'n, 'm) approval_request \<Rightarrow> str list \<Rightarrow> decision" where
  "request_fallback parse req =
     render_decision_for_unmatched_command parse (req_approval_policy req) (req_permission_profile req)
       (req_sandbox_permissions req)"

definition request_policy ::
    "('m, 'z) multimap_ops_scheme \<Rightarrow> 'm policy \<Rightarrow> ('e, 'n, 'm) approval_request \<Rightarrow> 'm policy" where
  "request_policy M p req = current_for_environment M p (req_environment_policy req) (req_allow_prefix_rules req)"

definition explicitly_allowed ::
    "('m, 'z) multimap_ops_scheme \<Rightarrow> process_env \<Rightarrow> 'm policy \<Rightarrow> str list \<Rightarrow> bool" where
  "explicitly_allowed M env p command =
     list_ex (\<lambda>m. is_policy_match m \<and> match_decision m = Allow)
       (matches_for_command_with_options M env p command None resolving_options)"

text \<open>\<open>None\<close> is the panic of the evaluation of no command at all.\<close>

definition create_exec_approval_requirement_for_parsed_commands ::
    "('m, 'z) multimap_ops_scheme \<Rightarrow> process_env \<Rightarrow> (str \<Rightarrow> tree option) \<Rightarrow> (str list \<Rightarrow> str option) \<Rightarrow> 'm policy \<Rightarrow>
       ('e, 'n, 'm) approval_request \<Rightarrow> str list list \<Rightarrow> exec_approval_requirement option" where
  "create_exec_approval_requirement_for_parsed_commands M env parse try_join policy req commands =
     (let p = request_policy M policy req; fallback = request_fallback parse req;
          auto = (req_allow_prefix_rules req = Honor)
      in case check_multiple_with_options M env p commands fallback resolving_options of
           None \<Rightarrow> None
         | Some e \<Rightarrow>
             (let ms = matched_rules e;
                  requested = (if auto
                    then derive_requested_execpolicy_amendment_from_prefix_rule M env (req_prefix_rule req) ms p commands
                           fallback resolving_options
                    else None)
              in Some (case eval_decision e of
                   Forbidden \<Rightarrow> Refuse (derive_forbidden_reason try_join (req_command req) ms
                     (dangerous_command_match_for_heuristics parse ms Forbidden))
                 | Prompt \<Rightarrow>
                     (let prompt_is_rule = list_ex (\<lambda>m. is_policy_match m \<and> match_decision m = Prompt) ms
                      in case prompt_is_rejected_by_policy (req_approval_policy req) prompt_is_rule of
                           Some reason \<Rightarrow>
                             if prompt_is_rule then Refuse reason
                             else Refuse (derive_rejected_prompt_reason reason
                               (dangerous_command_match_for_heuristics parse ms Prompt))
                         | None \<Rightarrow>
                             NeedsApproval (derive_prompt_reason try_join (req_command req) ms)
                               (case requested of
                                  Some a \<Rightarrow> Some a
                                | None \<Rightarrow> if auto then try_derive_execpolicy_amendment_for_prompt_rules ms else None))
                 | Allow \<Rightarrow>
                     Skip (list_all (explicitly_allowed M env p) commands)
                       (if auto then try_derive_execpolicy_amendment_for_allow_rules ms else None))))"

definition create_exec_approval_requirement_for_command ::
    "('m, 'z) multimap_ops_scheme \<Rightarrow> process_env \<Rightarrow> (str \<Rightarrow> tree option) \<Rightarrow> (str list \<Rightarrow> str option) \<Rightarrow> 'm policy \<Rightarrow>
       ('e, 'n, 'm) approval_request \<Rightarrow> exec_approval_requirement option" where
  "create_exec_approval_requirement_for_command M env parse try_join policy req =
     create_exec_approval_requirement_for_parsed_commands M env parse try_join policy req
       (commands_for_exec_policy parse (req_command req))"

section \<open>The identity of the shell\<close>

datatype 'z shell_mode = Direct | ZshFork 'z

definition shell_approval_command :: "str list \<Rightarrow> path \<Rightarrow> 'z shell_mode \<Rightarrow> str list" where
  "shell_approval_command command configured_shell mode =
     (case command of
        [] \<Rightarrow> command
      | executable # _ \<Rightarrow>
          (let p = path_components executable;
               is_system_shell = (parent_of_path p = Some (path_components ''/bin'')
                 \<or> parent_of_path p = Some (path_components ''/usr/bin''))
           in if p = configured_shell \<or> is_system_shell \<or> (case mode of ZshFork _ \<Rightarrow> True | Direct \<Rightarrow> False)
              then command else [executable]))"

definition create_exec_approval_requirement_for_shell ::
    "('m, 'z) multimap_ops_scheme \<Rightarrow> process_env \<Rightarrow> (str \<Rightarrow> tree option) \<Rightarrow> (str list \<Rightarrow> str option) \<Rightarrow> 'm policy \<Rightarrow>
       ('e, 'n, 'm) approval_request \<Rightarrow> path \<Rightarrow> 'y shell_mode \<Rightarrow> exec_approval_requirement option" where
  "create_exec_approval_requirement_for_shell M env parse try_join policy req configured_shell mode =
     (let command = req_command req; executable = shell_approval_command command configured_shell mode
      in if length executable = length command
         then create_exec_approval_requirement_for_command M env parse try_join policy req
         else create_exec_approval_requirement_for_parsed_commands M env parse try_join policy (req\<lparr>req_command := executable\<rparr>)
                (executable # commands_for_exec_policy parse command))"

section \<open>Running without approval\<close>

lemma matches_with_fallback:
  "matches_for_command_with_options M env p cmd (Some h) options =
     (let ms = matches_for_command_with_options M env p cmd None options
      in if ms = [] then [HeuristicsRuleMatch cmd (h cmd)] else ms)"
  by (simp add: matches_for_command_with_options_def Let_def)

lemma check_multiple_matches:
  "check_multiple_with_options M env p commands h options = Some e \<Longrightarrow>
     matched_rules e = concat (map (\<lambda>c. matches_for_command_with_options M env p c (Some h) options) commands)"
  by (auto simp: check_multiple_with_options_def from_matches_def split: option.splits)

lemma check_multiple_allow:
  assumes "check_multiple_with_options M env p commands h options = Some e" "eval_decision e = Allow" "c \<in> set commands"
  shows "\<forall>m \<in> set (matches_for_command_with_options M env p c None options). match_decision m = Allow"
    and "matches_for_command_with_options M env p c None options = [] \<Longrightarrow> h c = Allow"
proof -
  have all: "match_decision m = Allow" if "m \<in> set (matches_for_command_with_options M env p c (Some h) options)" for m
  proof -
    have "match_decision m \<le> Allow"
      using eval_decision_upper [of "matched_rules e" e m] assms check_multiple_matches [OF assms(1)] that
      by (auto simp: check_multiple_with_options_def)
    then show ?thesis by (cases "match_decision m") auto
  qed
  then show "\<forall>m \<in> set (matches_for_command_with_options M env p c None options). match_decision m = Allow"
    by (cases "matches_for_command_with_options M env p c None options = []") (auto simp: matches_with_fallback)
  show "h c = Allow" if "matches_for_command_with_options M env p c None options = []"
    using all [of "HeuristicsRuleMatch c (h c)"] that by (simp add: matches_with_fallback)
qed

lemma requirement_Skip:
  assumes "create_exec_approval_requirement_for_parsed_commands M env parse try_join policy req commands = Some (Skip b a)"
  obtains e where
    "check_multiple_with_options M env (request_policy M policy req) commands (request_fallback parse req) resolving_options
       = Some e"
    "eval_decision e = Allow" "b = list_all (explicitly_allowed M env (request_policy M policy req)) commands"
  using assms
  by (auto simp: create_exec_approval_requirement_for_parsed_commands_def Let_def
      split: option.splits decision.splits if_splits)

lemma requirement_NeedsApproval:
  assumes "create_exec_approval_requirement_for_parsed_commands M env parse try_join policy req commands =
    Some (NeedsApproval r a)"
  obtains e where
    "check_multiple_with_options M env (request_policy M policy req) commands (request_fallback parse req) resolving_options
       = Some e"
    "eval_decision e = Prompt"
    "prompt_is_rejected_by_policy (req_approval_policy req)
       (list_ex (\<lambda>m. is_policy_match m \<and> match_decision m = Prompt) (matched_rules e)) = None"
  using assms
  by (auto simp: create_exec_approval_requirement_for_parsed_commands_def Let_def
      split: option.splits decision.splits if_splits)

lemma unmatched_allowed:
  "render_decision_for_unmatched_command parse approval profile sandbox_perms c = Allow \<longleftrightarrow>
     dangerous_command_match parse c = None \<and> approval \<noteq> UnlessTrusted
     \<and> (approval = Never \<or> fs_kind (file_system_sandbox_policy profile) \<noteq> FsRestricted
        \<or> \<not> requests_sandbox_override sandbox_perms)"
  by (auto simp: render_decision_for_unmatched_command_def split: ask_for_approval.splits fs_sandbox_kind.splits)

text \<open>The conditions under which a single command may run without a question.\<close>

definition runs_freely ::
    "('m, 'z) multimap_ops_scheme \<Rightarrow> process_env \<Rightarrow> (str \<Rightarrow> tree option) \<Rightarrow> 'm policy \<Rightarrow> ('e, 'n, 'm) approval_request \<Rightarrow>
       str list \<Rightarrow> bool" where
  "runs_freely M env parse p req c \<longleftrightarrow>
     (let ms = matches_for_command_with_options M env p c None resolving_options
      in if ms = [] then
           dangerous_command_match parse c = None \<and> req_approval_policy req \<noteq> UnlessTrusted
           \<and> (req_approval_policy req = Never
              \<or> fs_kind (file_system_sandbox_policy (req_permission_profile req)) \<noteq> FsRestricted
              \<or> \<not> requests_sandbox_override (req_sandbox_permissions req))
         else list_all (\<lambda>m. match_decision m = Allow) ms)"

lemma request_command_irrelevant [simp]:
  "runs_freely M env parse p (req\<lparr>req_command := x\<rparr>) c = runs_freely M env parse p req c"
  "request_policy M policy (req\<lparr>req_command := x\<rparr>) = request_policy M policy req"
  by (simp_all add: runs_freely_def request_policy_def)

lemma skip_segment:
  assumes "create_exec_approval_requirement_for_parsed_commands M env parse try_join policy req commands = Some (Skip b a)"
    and "c \<in> set commands"
  shows "runs_freely M env parse (request_policy M policy req) req c"
    and "b \<Longrightarrow> explicitly_allowed M env (request_policy M policy req) c"
proof -
  obtain e where e: "check_multiple_with_options M env (request_policy M policy req) commands (request_fallback parse req)
      resolving_options = Some e" "eval_decision e = Allow"
    and b: "b = list_all (explicitly_allowed M env (request_policy M policy req)) commands"
    using requirement_Skip [OF assms(1)] .
  show "runs_freely M env parse (request_policy M policy req) req c"
    using check_multiple_allow [OF e assms(2)]
    by (auto simp: runs_freely_def Let_def list_all_iff request_fallback_def unmatched_allowed)
  show "explicitly_allowed M env (request_policy M policy req) c" if b
    using that b assms(2) by (simp add: list_all_iff)
qed

lemma unresolved_matches_are_rules:
  "m \<in> set (matches_for_command_with_options M env p c None options) \<Longrightarrow> is_policy_match m"
proof (cases "exact_matches M p c = []")
  case True
  moreover assume "m \<in> set (matches_for_command_with_options M env p c None options)"
  ultimately have "m \<in> set (match_host_executable_rules M env p c)"
    by (auto simp: matches_not_exact Let_def split: if_splits)
  then show ?thesis
    by (auto simp: match_host_executable_rules_def set_map_filter rule_matches_def
        split: list.splits sum.splits option.splits if_splits)
next
  case False
  moreover assume "m \<in> set (matches_for_command_with_options M env p c None options)"
  ultimately show ?thesis using exact_match_not_heuristic [of m M p c] by (auto simp: matches_exact)
qed

lemma policy_match_iff:
  "m \<in> set (matches_for_command_with_options M env p c (Some h) options) \<and> is_policy_match m \<longleftrightarrow>
     m \<in> set (matches_for_command_with_options M env p c None options)"
  using unresolved_matches_are_rules [of m M env p c options] by (auto simp: matches_with_fallback Let_def)

text \<open>C9: A command runs without a question only if each command of its script does so by right: either rules match it and
  all of them allow it, or no rule does, and then it is not dangerous, the project is not untrusted, and it does not ask
  to leave a restricted sandbox; and the sandbox is skipped only if a rule allows every command.\<close>

theorem skip_means_harmless:
  assumes "create_exec_approval_requirement_for_command M env parse try_join policy req = Some (Skip b a)"
    and "c \<in> set (commands_for_exec_policy parse (req_command req))"
  shows "runs_freely M env parse (request_policy M policy req) req c
    \<and> (b \<longrightarrow> explicitly_allowed M env (request_policy M policy req) c)"
  using skip_segment [OF assms(1) [unfolded create_exec_approval_requirement_for_command_def] assms(2)] by blast

text \<open>C22: An executable that is not the configured shell nor a system shell gains no trust from the script it is given: when
  such a command runs without a question, its executable alone does so by right, and the sandbox is skipped only if a rule
  allows the executable.\<close>

theorem unfamiliar_shell_gains_no_trust:
  assumes "create_exec_approval_requirement_for_shell M env parse try_join policy req configured_shell mode = Some (Skip b a)"
    and "req_command req = executable # args"
    and "shell_approval_command (req_command req) configured_shell mode = [executable]"
  shows "args = [] \<or> runs_freely M env parse (request_policy M policy req) req [executable]
    \<and> (b \<longrightarrow> explicitly_allowed M env (request_policy M policy req) [executable])"
proof (cases "args = []")
  case False
  let ?req = "req\<lparr>req_command := [executable]\<rparr>"
  have "create_exec_approval_requirement_for_parsed_commands M env parse try_join policy ?req
      ([executable] # commands_for_exec_policy parse (req_command req)) = Some (Skip b a)"
    using assms False by (simp add: create_exec_approval_requirement_for_shell_def Let_def)
  from skip_segment [OF this, of "[executable]"] show ?thesis by auto
qed simp

text \<open>No question is put to a user who does not want it: a command needs approval only if the mode is not \<open>Never\<close> and the
  granular mode admits questions of that origin, by a rule or by the sandbox.\<close>

theorem prompts_respect_mode:
  assumes "create_exec_approval_requirement_for_parsed_commands M env parse try_join policy req commands =
    Some (NeedsApproval r a)"
  shows "req_approval_policy req \<noteq> Never
    \<and> (\<forall>g. req_approval_policy req = Granular g \<longrightarrow>
        (if \<exists>c \<in> set commands. \<exists>m \<in> set (matches_for_command_with_options M env (request_policy M policy req) c None
              resolving_options). match_decision m = Prompt
         then rules_approval g else sandbox_approval g))"
proof -
  obtain e where e: "check_multiple_with_options M env (request_policy M policy req) commands (request_fallback parse req)
      resolving_options = Some e"
    and mode: "prompt_is_rejected_by_policy (req_approval_policy req)
      (list_ex (\<lambda>m. is_policy_match m \<and> match_decision m = Prompt) (matched_rules e)) = None"
    using requirement_NeedsApproval [OF assms] .
  have "list_ex (\<lambda>m. is_policy_match m \<and> match_decision m = Prompt) (matched_rules e) \<longleftrightarrow>
      (\<exists>c \<in> set commands. \<exists>m \<in> set (matches_for_command_with_options M env (request_policy M policy req) c None
         resolving_options). match_decision m = Prompt)"
    unfolding check_multiple_matches [OF e] list_ex_iff
    using policy_match_iff [of _ M env "request_policy M policy req" _ "request_fallback parse req" resolving_options]
    by (simp, blast)
  then show ?thesis using mode by (auto simp: prompt_is_rejected_by_policy_def split: if_splits)
qed


section \<open>Models that do not honour allowing rules\<close>

abbreviation not_allowing :: "prefix_rule \<Rightarrow> bool" where
  "not_allowing r \<equiv> rule_decision r \<noteq> Allow"

abbreviation restricting :: "rule_match \<Rightarrow> bool" where
  "restricting m \<equiv> match_decision m \<noteq> Allow"

lemma ignored_rules:
  assumes "multimap M"
  shows "mm_get M (rules_by_program (current_for_prefix_rules M p IgnoreForCyberModel)) k =
    filter not_allowing (mm_get M (rules_by_program p) k)"
proof -
  let ?es = "map (\<lambda>(program, rules). (program, filter not_allowing rules)) (mm_iter_all M (rules_by_program p))"
  have "map fst ?es = map fst (mm_iter_all M (rules_by_program p))" by auto
  then have d: "distinct (map fst ?es)" using multimap.iter_keys_distinct [OF assms] by metis
  have m: "map_of ?es k = map_option (filter not_allowing) (mm_get_vec M (rules_by_program p) k)"
    unfolding map_of_map by (simp add: multimap.map_of_iter_all [OF assms])
  have "mm_get M (foldl (mm_insert_all M) (mm_new M) ?es) k =
      mm_get M (mm_new M) k @ (case map_of ?es k of None \<Rightarrow> [] | Some vs \<Rightarrow> vs)"
    by (rule multimap.mm_get_foldl_insert_all [OF assms d])
  also have "\<dots> = filter not_allowing (mm_get M (rules_by_program p) k)"
    unfolding m multimap.mm_get_new [OF assms] by (simp add: mm_get_def split: option.split)
  finally show ?thesis by (simp add: current_for_prefix_rules_def policy_from_parts_def)
qed

lemma map_filter_restricting:
  "List.map_filter (\<lambda>r. rule_matches r cmd) (filter not_allowing rs) =
     filter restricting (List.map_filter (\<lambda>r. rule_matches r cmd) rs)"
proof (induction rs)
  case (Cons r rs)
  then show ?case
    by (cases "rule_matches r cmd") (auto simp: List.map_filter_simps dest: rule_matches_Some_decision)
qed (simp add: List.map_filter_simps)

lemma ignored_exact_matches:
  assumes "multimap M"
  shows "exact_matches M (current_for_prefix_rules M p IgnoreForCyberModel) cmd = filter restricting (exact_matches M p cmd)"
  by (cases cmd) (simp_all add: exact_matches_def ignored_rules [OF assms] map_filter_restricting)

lemma host_matches_eq:
  "match_host_executable_rules M env p cmd =
     (case cmd of
        [] \<Rightarrow> []
      | arg0 # args \<Rightarrow>
          (case from_absolute_path (env_home env) (env_cwd env) arg0 of
             Inl _ \<Rightarrow> []
           | Inr program \<Rightarrow>
               (case executable_path_lookup_key program of
                  None \<Rightarrow> []
                | Some basename \<Rightarrow>
                    if (case host_executables_by_name p basename of
                          Some paths \<Rightarrow> \<not> list_ex (\<lambda>q. q = program) paths | None \<Rightarrow> False)
                    then []
                    else map (\<lambda>m. with_resolved_program m program)
                           (List.map_filter (\<lambda>r. rule_matches r (basename # args))
                             (mm_get M (rules_by_program p) basename)))))"
  by (auto simp: match_host_executable_rules_def mm_get_def List.map_filter_def
      split: list.split sum.split option.split)

lemma ignored_host_matches:
  assumes "multimap M"
  shows "match_host_executable_rules M env (current_for_prefix_rules M p IgnoreForCyberModel) cmd =
    filter restricting (match_host_executable_rules M env p cmd)"
proof -
  have "host_executables_by_name (current_for_prefix_rules M p IgnoreForCyberModel) = host_executables_by_name p"
    by (simp add: current_for_prefix_rules_def policy_from_parts_def)
  then show ?thesis
    by (auto simp: host_matches_eq ignored_rules [OF assms] map_filter_restricting filter_map comp_def
        split: list.split sum.split option.split)
qed

lemma eval_decision_Allow_iff:
  assumes "check_with_options M env p cmd h options = Some e"
  shows "eval_decision e = Max (match_decision ` set (matches_for_command_with_options M env p cmd (Some h) options))"
  using assms by (auto simp: check_with_options_total)

lemma ignored_matches:
  assumes "multimap M" "m \<in> set (matches_for_command_with_options M env p cmd (Some h) options)" "restricting m"
  shows "m \<in> set (matches_for_command_with_options M env (current_for_prefix_rules M p IgnoreForCyberModel) cmd (Some h) options)"
proof (cases "exact_matches M p cmd = []")
  case True
  then show ?thesis using assms
    by (auto simp: matches_not_exact ignored_exact_matches ignored_host_matches Let_def filter_empty_conv split: if_splits)
next
  case False
  then have m: "m \<in> set (filter restricting (exact_matches M p cmd))" using assms by (auto simp: matches_exact)
  then have "filter restricting (exact_matches M p cmd) \<noteq> []" by (metis empty_iff empty_set)
  then show ?thesis
    using m matches_exact [of M "current_for_prefix_rules M p IgnoreForCyberModel" cmd]
    by (simp add: ignored_exact_matches [OF assms(1)])
qed

text \<open>For a model whose allowing rules are not honoured no command is decided less strictly than with them.\<close>

theorem ignoring_allow_rules_never_relaxes:
  assumes "multimap M"
    and "check_with_options M env p cmd h options = Some e"
    and "check_with_options M env (current_for_prefix_rules M p IgnoreForCyberModel) cmd h options = Some e'"
  shows "eval_decision e \<le> eval_decision e'"
proof -
  let ?ms = "matches_for_command_with_options M env p cmd (Some h) options"
  have e: "eval_decision e = Max (match_decision ` set ?ms)" by (rule eval_decision_Allow_iff [OF assms(2)])
  have "Max (match_decision ` set ?ms) \<in> match_decision ` set ?ms"
    by (rule Max_in) (simp_all add: matches_with_fallback_nonempty)
  then obtain m where m: "m \<in> set ?ms" "eval_decision e = match_decision m" using e by auto
  show ?thesis
  proof (cases "restricting m")
    case True
    then show ?thesis
      using ignored_matches [OF assms(1) m(1) True] m(2) eval_decision_upper [OF assms(3) [unfolded check_with_options_def]]
      by simp
  next
    case False
    then show ?thesis using m(2) by simp
  qed
qed

section \<open>Amendments\<close>

lemma from_matches_allow:
  assumes "ms \<noteq> []" "\<forall>m \<in> set ms. match_decision m = Allow"
  shows "\<exists>e. from_matches ms = Some e \<and> eval_decision e = Allow"
proof -
  have "match_decision ` set ms = {Allow}" using assms by (cases ms) auto
  then show ?thesis using assms(1) by (simp add: from_matches_nonempty)
qed

text \<open>When a prefix rule that the model asked for is proposed to the user, it is not one of the banned ones, no rule
  has matched so far, and with that rule in the policy every command of the request is allowed, so that the
  same request will not ask again.\<close>

theorem proposed_prefix_rule_effective:
  assumes "derive_requested_execpolicy_amendment_from_prefix_rule M env (Some pre) ms p commands h options = Some am"
    and "commands \<noteq> []"
  shows "am = amendment_of pre \<and> pre \<notin> set BANNED_PREFIX_SUGGESTIONS \<and> \<not> list_ex is_policy_match ms
    \<and> (\<exists>p' e. add_prefix_rule M p pre Allow = Inr p' \<and> check_multiple_with_options M env p' commands h options = Some e
         \<and> eval_decision e = Allow)"
proof -
  have *: "am = amendment_of pre" "pre \<notin> set BANNED_PREFIX_SUGGESTIONS" "\<not> list_ex is_policy_match ms"
    "prefix_rule_would_approve_all_commands M env p pre commands h options"
    using assms(1)
    by (auto simp: derive_requested_execpolicy_amendment_from_prefix_rule_def list_ex_iff split: if_splits)
  then obtain p' where p': "add_prefix_rule M p pre Allow = Inr p'"
    and all: "\<forall>c \<in> set commands. map_option eval_decision (check_with_options M env p' c h options) = Some Allow"
    by (auto simp: prefix_rule_would_approve_all_commands_def list_all_iff split: sum.splits)
  let ?ms = "\<lambda>c. matches_for_command_with_options M env p' c (Some h) options"
  have "match_decision m = Allow" if "c \<in> set commands" "m \<in> set (?ms c)" for c m
  proof -
    have "match_decision m \<le> Max (match_decision ` set (?ms c))" using that(2) by simp
    also have "\<dots> = Allow" using all that(1) by (auto simp: check_with_options_total)
    finally show ?thesis by (cases "match_decision m") auto
  qed
  moreover have "concat (map ?ms commands) \<noteq> []"
    using assms(2) by (cases commands) (simp_all add: matches_with_fallback_nonempty)
  ultimately have "\<exists>e. from_matches (concat (map ?ms commands)) = Some e \<and> eval_decision e = Allow"
    by (intro from_matches_allow) auto
  then show ?thesis using * p' by (auto simp: check_multiple_with_options_def)
qed


section \<open>Examples\<close>

definition no_env :: process_env where
  "no_env = \<lparr>env_home = None, env_cwd = Inl []\<rparr>"

definition git_policy :: "(str \<times> prefix_rule list) list policy" where
  "git_policy = \<lparr>rules_by_program = [(''git'', [\<lparr>pattern = \<lparr>first = ''git'', rest = [Single ''status'']\<rparr>,
       rule_decision = Allow, justification = None\<rparr>, \<lparr>pattern = \<lparr>first = ''git'', rest = [Single ''push'']\<rparr>,
       rule_decision = Prompt, justification = None\<rparr>])],
     network_rules = [], host_executables_by_name = Map.empty\<rparr>"

definition sample_request :: "str list \<Rightarrow> (nat, nat, (str \<times> prefix_rule list) list) approval_request" where
  "sample_request command = \<lparr>req_command = command, req_approval_policy = OnRequest, req_permission_profile = Disabled,
     req_environment_policy = None, req_sandbox_permissions = UseDefault, req_prefix_rule = None,
     req_allow_prefix_rules = Honor\<rparr>"

lemma sample_skip:
  "create_exec_approval_requirement_for_command alist_multimap no_env sample_parse (\<lambda>_. None) git_policy
     (sample_request [''git'', ''status'']) = Some (Skip True None)"
  by code_simp

theorem skip_means_harmless_witness:
  "runs_freely alist_multimap no_env sample_parse (request_policy alist_multimap git_policy (sample_request [''git'', ''status'']))
     (sample_request [''git'', ''status'']) [''git'', ''status'']"
proof -
  have "[''git'', ''status''] \<in> set (commands_for_exec_policy sample_parse (req_command (sample_request [''git'', ''status''])))"
    by code_simp
  from skip_means_harmless [OF sample_skip this] show ?thesis by simp
qed

theorem unfamiliar_shell_gains_no_trust_witness:
  "runs_freely alist_multimap no_env sample_parse
     (request_policy alist_multimap git_policy (sample_request [''/tmp/bash'', ''-lc'', ''ls -1; pwd'']))
     (sample_request [''/tmp/bash'', ''-lc'', ''ls -1; pwd'']) [''/tmp/bash'']"
proof -
  have "create_exec_approval_requirement_for_shell alist_multimap no_env sample_parse (\<lambda>_. None) git_policy
      (sample_request [''/tmp/bash'', ''-lc'', ''ls -1; pwd'']) [RootDir, Normal ''sh''] (Direct :: nat shell_mode)
      = Some (Skip False (Some (amendment_of [''/tmp/bash''])))"
    by code_simp
  moreover have "req_command (sample_request [''/tmp/bash'', ''-lc'', ''ls -1; pwd'']) =
      ''/tmp/bash'' # [''-lc'', ''ls -1; pwd'']"
    by (simp add: sample_request_def)
  moreover have "shell_approval_command (req_command (sample_request [''/tmp/bash'', ''-lc'', ''ls -1; pwd'']))
      [RootDir, Normal ''sh''] (Direct :: nat shell_mode) = [''/tmp/bash'']"
    by code_simp
  ultimately show ?thesis using unfamiliar_shell_gains_no_trust by fastforce
qed

theorem prompts_respect_mode_witness:
  "\<exists>r a. create_exec_approval_requirement_for_parsed_commands alist_multimap no_env sample_parse (\<lambda>_. None) git_policy
     (sample_request [''git'', ''push'']) [[''git'', ''push'']] = Some (NeedsApproval r a)
     \<and> req_approval_policy (sample_request [''git'', ''push'']) \<noteq> Never"
proof -
  have "create_exec_approval_requirement_for_parsed_commands alist_multimap no_env sample_parse (\<lambda>_. None) git_policy
      (sample_request [''git'', ''push'']) [[''git'', ''push'']] =
      Some (NeedsApproval (Some (quoted ''git push'' @ '' requires approval by policy'')) None)"
    by code_simp
  from this prompts_respect_mode [OF this] show ?thesis by blast
qed

theorem ignoring_allow_rules_never_relaxes_witness:
  "\<exists>e e'. check_with_options alist_multimap no_env git_policy [''git'', ''status''] (\<lambda>_. Prompt) resolving_options = Some e
     \<and> check_with_options alist_multimap no_env (current_for_prefix_rules alist_multimap git_policy IgnoreForCyberModel)
         [''git'', ''status''] (\<lambda>_. Prompt) resolving_options = Some e'
     \<and> eval_decision e \<le> eval_decision e' \<and> eval_decision e' = Prompt"
proof -
  have "check_with_options alist_multimap no_env git_policy [''git'', ''status''] (\<lambda>_. Prompt) resolving_options =
      Some \<lparr>eval_decision = Allow, matched_rules = [PrefixRuleMatch [''git'', ''status''] Allow None None]\<rparr>"
    by code_simp
  moreover have "check_with_options alist_multimap no_env (current_for_prefix_rules alist_multimap git_policy IgnoreForCyberModel)
      [''git'', ''status''] (\<lambda>_. Prompt) resolving_options =
      Some \<lparr>eval_decision = Prompt, matched_rules = [HeuristicsRuleMatch [''git'', ''status''] Prompt]\<rparr>"
    by code_simp
  ultimately show ?thesis using ignoring_allow_rules_never_relaxes [OF alist_mm.multimap_axioms] by fastforce
qed

theorem proposed_prefix_rule_effective_witness:
  "\<exists>p' e. add_prefix_rule alist_multimap git_policy [''make'', ''test''] Allow = Inr p'
     \<and> check_multiple_with_options alist_multimap no_env p' [[''make'', ''test'', ''-j'']] (\<lambda>_. Prompt) resolving_options = Some e
     \<and> eval_decision e = Allow"
proof -
  have "derive_requested_execpolicy_amendment_from_prefix_rule alist_multimap no_env (Some [''make'', ''test''])
      [HeuristicsRuleMatch [''make'', ''test'', ''-j''] Prompt] git_policy [[''make'', ''test'', ''-j'']] (\<lambda>_. Prompt)
      resolving_options = Some (amendment_of [''make'', ''test''])"
    by code_simp
  from proposed_prefix_rule_effective [OF this] show ?thesis by blast
qed


end
