(* ===== verification/Permission_Transforms.thy ===== *)
theory Permission_Transforms
  imports Permission_Profile
begin

text \<open>
  Requested and granted permissions (\<open>codex-rs/sandboxing/src/policy_transforms.rs\<close>): the permissions a command asks for are
  normalised, merged with what was granted before, or cut down to what was both asked for and granted; and they widen
  the policy of the turn.  The glob compiler is an argument, as in the matcher that refuses reads.
\<close>

section \<open>Resolution\<close>

fun resolve_permission_path :: "('u, 'e) fs_host \<Rightarrow> 'u fs_path \<Rightarrow> path \<Rightarrow> path option" where
  "resolve_permission_path H (PathEntry u) cwd = result_ok (uri_to_abs_path H u)"
| "resolve_permission_path H (GlobPattern _) cwd = None"
| "resolve_permission_path H (SpecialEntry v) cwd =
     (case v of
        SpecialRoot \<Rightarrow> result_ok (abs_from_path H (last (ancestors cwd)))
      | ProjectRoots subpath \<Rightarrow>
          (case result_ok (abs_from_path H cwd) of
             None \<Rightarrow> None
           | Some cwd \<Rightarrow> Some (case subpath of Some s \<Rightarrow> abs_resolve H s cwd | None \<Rightarrow> cwd))
      | SpecialTmpdir \<Rightarrow>
          (case host_tmpdir H of
             None \<Rightarrow> None
           | Some tmpdir \<Rightarrow> if tmpdir = [] then None else result_ok (abs_from_path H (path_components tmpdir)))
      | SlashTmp \<Rightarrow>
          (case abs_from_path H (path_components ''/tmp'') of
             Inr p \<Rightarrow> if host_is_dir H p then Some p else None
           | Inl _ \<Rightarrow> None)
      | SpecialMinimal \<Rightarrow> None
      | UnknownSpecial _ _ \<Rightarrow> None)"

definition materialize_cwd_dependent_entry :: "('u, 'e) fs_host \<Rightarrow> 'u fs_entry \<Rightarrow> path \<Rightarrow> 'u fs_entry" where
  "materialize_cwd_dependent_entry H e cwd =
     (case entry_path e of
        SpecialEntry (ProjectRoots _) \<Rightarrow>
          (case resolve_permission_path H (entry_path e) cwd of
             Some p \<Rightarrow> e\<lparr>entry_path := PathEntry (uri_from_abs_path H p)\<rparr>
           | None \<Rightarrow> e)
      | GlobPattern pattern \<Rightarrow> e\<lparr>entry_path := GlobPattern (path_string (abs_resolve H pattern cwd))\<rparr>
      | _ \<Rightarrow> e)"

definition access_covers :: "access_mode \<Rightarrow> access_mode \<Rightarrow> bool" where
  "access_covers requested granted \<longleftrightarrow>
     (case granted of Read \<Rightarrow> can_read requested | Write \<Rightarrow> can_write requested | Deny \<Rightarrow> False)"

definition paths_overlap :: "path \<Rightarrow> path \<Rightarrow> bool" where
  "paths_overlap left right \<longleftrightarrow> starts_with left right \<or> starts_with right left"

definition glob_static_prefix_path :: "('u, 'e) fs_host \<Rightarrow> str \<Rightarrow> path \<Rightarrow> path option" where
  "glob_static_prefix_path H pattern cwd =
     (let resolved_pattern = path_string (abs_resolve H pattern cwd);
          pre = takeWhile (\<lambda>c. c \<notin> set ''*?[]'') resolved_pattern
      in case (if pre = resolved_pattern then Some (path_components resolved_pattern)
               else if pre = [] then None
               else if ends_with pre ''/'' \<or> ends_with pre [CHR 0x5C] then Some (path_components pre)
               else parent_of_path (path_components pre)) of
           None \<Rightarrow> None
         | Some p \<Rightarrow> result_ok (abs_from_path H p))"

section \<open>Normalising and merging\<close>

definition normalize_permission_path :: "('u, 'e) fs_host \<Rightarrow> 'u fs_path \<Rightarrow> 'u fs_path" where
  "normalize_permission_path H p =
     (case p of
        PathEntry u \<Rightarrow>
          (case uri_to_abs_path H u of
             Inl _ \<Rightarrow> PathEntry u
           | Inr q \<Rightarrow>
               (case canonicalize_preserving_symlinks H q of
                  Inl _ \<Rightarrow> PathEntry u
                | Inr q \<Rightarrow>
                    (case abs_from_path H q of
                       Inl _ \<Rightarrow> PathEntry u
                     | Inr q \<Rightarrow> PathEntry (uri_from_abs_path H q))))
      | _ \<Rightarrow> p)"

definition GLOB_DENY_ONLY :: str where
  "GLOB_DENY_ONLY = ''glob file system permissions only support deny-read entries''"

fun normalize_entries_loop :: "('u, 'e) fs_host \<Rightarrow> 'u fs_entry list \<Rightarrow> 'u fs_entry list \<Rightarrow> str + 'u fs_entry list" where
  "normalize_entries_loop H entries [] = Inr entries"
| "normalize_entries_loop H entries (e # es) =
     (if (case entry_path e of GlobPattern _ \<Rightarrow> True | _ \<Rightarrow> False) \<and> entry_access e \<noteq> Deny then Inl GLOB_DENY_ONLY
      else
        (let normalized_entry = e\<lparr>entry_path := normalize_permission_path H (entry_path e)\<rparr>
         in normalize_entries_loop H
              (if normalized_entry \<in> set entries then entries else entries @ [normalized_entry]) es))"

definition normalize_additional_permissions ::
    "('u, 'e) fs_host \<Rightarrow> 'u additional_permission_profile \<Rightarrow> str + 'u additional_permission_profile" where
  "normalize_additional_permissions H p =
     (let network = (case add_network p of
                       None \<Rightarrow> None
                     | Some n \<Rightarrow> if network_permissions_is_empty n then None else Some n)
      in case add_file_system p of
           None \<Rightarrow> Inr \<lparr>add_network = network, add_file_system = None\<rparr>
         | Some fs \<Rightarrow>
             and_then (normalize_entries_loop H [] (perm_entries fs)) (\<lambda>entries.
               Inr \<lparr>add_network = network,
                    add_file_system =
                      (if entries = [] then None
                       else Some \<lparr>perm_entries = entries, perm_glob_scan_max_depth = perm_glob_scan_max_depth fs\<rparr>)\<rparr>))"

definition materialize_additional_permissions ::
    "('u, 'e) fs_host \<Rightarrow> 'u additional_permission_profile \<Rightarrow> path \<Rightarrow> str + 'u additional_permission_profile" where
  "materialize_additional_permissions H p cwd =
     normalize_additional_permissions H
       (p\<lparr>add_file_system :=
          map_option (\<lambda>fs. fs\<lparr>perm_entries := map (\<lambda>e. materialize_cwd_dependent_entry H e cwd) (perm_entries fs)\<rparr>)
            (add_file_system p)\<rparr>)"

datatype glob_scan_depth = Bounded nat | Unbounded

definition effective_glob_scan_depth :: "'u fs_entry list \<Rightarrow> nat option \<Rightarrow> glob_scan_depth option" where
  "effective_glob_scan_depth entries depth =
     (if list_ex (\<lambda>e. entry_access e = Deny \<and> (case entry_path e of GlobPattern _ \<Rightarrow> True | _ \<Rightarrow> False)) entries
      then Some (case depth of Some d \<Rightarrow> Bounded d | None \<Rightarrow> Unbounded)
      else None)"

definition merge_glob_scan_max_depth ::
    "'u fs_entry list \<Rightarrow> nat option \<Rightarrow> 'u fs_entry list \<Rightarrow> nat option \<Rightarrow> nat option" where
  "merge_glob_scan_max_depth left_entries left_depth right_entries right_depth =
     (case (effective_glob_scan_depth left_entries left_depth, effective_glob_scan_depth right_entries right_depth) of
        (Some Unbounded, _) \<Rightarrow> None
      | (_, Some Unbounded) \<Rightarrow> None
      | (Some (Bounded l), Some (Bounded r)) \<Rightarrow> Some (max l r)
      | (Some (Bounded d), None) \<Rightarrow> Some d
      | (None, Some (Bounded d)) \<Rightarrow> Some d
      | (None, None) \<Rightarrow> None)"

text \<open>\<open>NonZeroUsize::new\<close>.\<close>

definition non_zero :: "nat \<Rightarrow> nat option" where
  "non_zero n = (if n = 0 then None else Some n)"

definition merge_permission_entries :: "'u fs_entry list \<Rightarrow> 'u fs_entry list \<Rightarrow> 'u fs_entry list" where
  "merge_permission_entries base permissions = push_missing_entries [] (base @ permissions)"

definition network_on :: "network_permissions option \<Rightarrow> bool" where
  "network_on n \<longleftrightarrow> n = Some \<lparr>net_enabled = Some True\<rparr>"

definition merge_additional_profiles ::
    "'u additional_permission_profile option \<Rightarrow> 'u additional_permission_profile option \<Rightarrow> 'u additional_permission_profile option" where
  "merge_additional_profiles base permissions =
     (case permissions of
        None \<Rightarrow> base
      | Some permissions \<Rightarrow>
          (case base of
             None \<Rightarrow> if additional_is_empty permissions then None else Some permissions
           | Some base \<Rightarrow>
               (let network = (if network_on (add_network base) \<or> network_on (add_network permissions)
                               then Some \<lparr>net_enabled = Some True\<rparr> else None);
                    file_system =
                      (case (add_file_system base, add_file_system permissions) of
                         (Some b, Some p) \<Rightarrow>
                           (let fs = \<lparr>perm_entries = merge_permission_entries (perm_entries b) (perm_entries p),
                                      perm_glob_scan_max_depth =
                                        Option.bind (merge_glob_scan_max_depth (perm_entries b) (perm_glob_scan_max_depth b)
                                          (perm_entries p) (perm_glob_scan_max_depth p)) non_zero\<rparr>
                            in if fs_permissions_is_empty fs then None else Some fs)
                       | (Some b, None) \<Rightarrow> Some b
                       | (None, Some p) \<Rightarrow> Some p
                       | (None, None) \<Rightarrow> None);
                    merged = \<lparr>add_network = network, add_file_system = file_system\<rparr>
                in if additional_is_empty merged then None else Some merged)))"

section \<open>What was both requested and granted\<close>

definition granted_file_system_entry_within_request ::
    "('u, 'e) fs_host \<Rightarrow> 'u file_system_permissions \<Rightarrow> 'u fs_policy \<Rightarrow> read_deny_matcher option \<Rightarrow> 'u fs_entry \<Rightarrow> path \<Rightarrow> bool" where
  "granted_file_system_entry_within_request H requested requested_policy matcher granted_entry cwd \<longleftrightarrow>
     (if \<not> can_read (entry_access granted_entry) then False
      else (case resolve_permission_path H (entry_path granted_entry) cwd of
              Some p \<Rightarrow>
                if (case matcher of Some m \<Rightarrow> is_read_denied H m p | None \<Rightarrow> False) then False
                else access_covers (resolve_access_with_cwd H requested_policy p cwd) (entry_access granted_entry)
            | None \<Rightarrow>
                list_ex (\<lambda>r. access_covers (entry_access r) (entry_access granted_entry)
                  \<and> entry_path r = entry_path granted_entry) (perm_entries requested)))"

definition deny_entry_constrains_accepted_grant :: "('u, 'e) fs_host \<Rightarrow> 'u fs_entry \<Rightarrow> 'u fs_entry list \<Rightarrow> path \<Rightarrow> bool" where
  "deny_entry_constrains_accepted_grant H deny_entry accepted_entries cwd \<longleftrightarrow>
     list_ex (\<lambda>e.
       (case resolve_permission_path H (entry_path e) cwd of
          None \<Rightarrow> False
        | Some grant_path \<Rightarrow>
            (case entry_path deny_entry of
               GlobPattern pattern \<Rightarrow>
                 (case glob_static_prefix_path H pattern cwd of None \<Rightarrow> False | Some pre \<Rightarrow> paths_overlap pre grant_path)
             | _ \<Rightarrow>
                 (case resolve_permission_path H (entry_path deny_entry) cwd of
                    None \<Rightarrow> False
                  | Some deny_path \<Rightarrow> paths_overlap deny_path grant_path))))
       (filter (\<lambda>e. can_read (entry_access e)) accepted_entries)"

text \<open>The loop gives the output entries and the retained entries.\<close>

definition retain_constraining_deny_entries ::
    "('u, 'e) fs_host \<Rightarrow> 'u fs_entry list \<Rightarrow> 'u fs_entry list \<Rightarrow> path \<Rightarrow> 'u fs_entry list \<Rightarrow> 'u fs_entry list \<times> 'u fs_entry list" where
  "retain_constraining_deny_entries H source_entries accepted_entries cwd output_entries =
     foldl (\<lambda>(output_entries, retained) e.
       if \<not> deny_entry_constrains_accepted_grant H e accepted_entries cwd then (output_entries, retained)
       else
         (let e = materialize_cwd_dependent_entry H e cwd
          in (if e \<in> set output_entries then output_entries else output_entries @ [e], retained @ [e])))
       (output_entries, []) (filter (\<lambda>e. entry_access e = Deny) source_entries)"

definition intersect_file_systems ::
    "('u, 'e) fs_host \<Rightarrow> 'u file_system_permissions \<Rightarrow> 'u file_system_permissions \<Rightarrow> read_deny_matcher option \<Rightarrow> path
       \<Rightarrow> 'u file_system_permissions" where
  "intersect_file_systems H requested granted matcher cwd =
     (let requested_policy = fs_restricted (perm_entries requested);
          accepted_entries = push_missing_entries []
            (map (\<lambda>e. materialize_cwd_dependent_entry H e cwd)
               (filter (\<lambda>e. granted_file_system_entry_within_request H requested requested_policy matcher e cwd)
                  (perm_entries granted)));
          (entries, requested_retained) =
            retain_constraining_deny_entries H (perm_entries requested) accepted_entries cwd accepted_entries;
          (entries, granted_retained) =
            retain_constraining_deny_entries H (perm_entries granted) accepted_entries cwd entries
      in \<lparr>perm_entries = entries,
          perm_glob_scan_max_depth =
            Option.bind (merge_glob_scan_max_depth requested_retained (perm_glob_scan_max_depth requested)
              granted_retained (perm_glob_scan_max_depth granted)) non_zero\<rparr>)"

text \<open>\<open>None\<close> would be the panic in the constructor of the matcher.\<close>

definition intersect_additional_profiles ::
    "(str \<Rightarrow> str + (path \<Rightarrow> bool)) \<Rightarrow> ('u, 'e) fs_host \<Rightarrow> 'u additional_permission_profile \<Rightarrow> 'u additional_permission_profile
       \<Rightarrow> path \<Rightarrow> 'u additional_permission_profile option" where
  "intersect_additional_profiles glob H requested granted cwd =
     (let network = (if network_on (add_network requested) \<and> network_on (add_network granted)
                     then Some \<lparr>net_enabled = Some True\<rparr> else None)
      in case add_file_system requested of
           None \<Rightarrow> Some \<lparr>add_network = network, add_file_system = None\<rparr>
         | Some rfs \<Rightarrow>
             (case read_deny_matcher_new glob H (fs_restricted (perm_entries rfs)) cwd of
                None \<Rightarrow> None
              | Some matcher \<Rightarrow>
                  (let gfs = (case add_file_system granted of Some g \<Rightarrow> g | None \<Rightarrow> fs_permissions_default);
                       fs = intersect_file_systems H rfs gfs matcher cwd
                   in Some \<lparr>add_network = network,
                            add_file_system = (if fs_permissions_is_empty fs then None else Some fs)\<rparr>)))"

section \<open>The effective policy of a command\<close>

definition merge_file_system_policy_with_additional_permissions ::
    "'u fs_policy \<Rightarrow> 'u file_system_permissions \<Rightarrow> 'u fs_policy" where
  "merge_file_system_policy_with_additional_permissions P additional =
     (case fs_kind P of
        FsRestricted \<Rightarrow>
          P\<lparr>fs_entries := push_missing_entries (fs_entries P) (perm_entries additional),
            glob_scan_max_depth := merge_glob_scan_max_depth (fs_entries P) (glob_scan_max_depth P)
              (perm_entries additional) (perm_glob_scan_max_depth additional)\<rparr>
      | _ \<Rightarrow> P)"

definition effective_file_system_sandbox_policy :: "'u fs_policy \<Rightarrow> 'u additional_permission_profile option \<Rightarrow> 'u fs_policy" where
  "effective_file_system_sandbox_policy P additional =
     (case additional of
        None \<Rightarrow> P
      | Some a \<Rightarrow>
          (case add_file_system a of
             None \<Rightarrow> P
           | Some fs \<Rightarrow>
               if fs_permissions_is_empty fs then P
               else merge_file_system_policy_with_additional_permissions P fs))"

definition merge_network_access :: "bool \<Rightarrow> 'u additional_permission_profile \<Rightarrow> bool" where
  "merge_network_access base a \<longleftrightarrow>
     base \<or> (case add_network a of None \<Rightarrow> False | Some n \<Rightarrow> net_enabled n = Some True)"

definition effective_network_sandbox_policy ::
    "network_sandbox_policy \<Rightarrow> 'u additional_permission_profile option \<Rightarrow> network_sandbox_policy" where
  "effective_network_sandbox_policy n additional =
     (case additional of
        Some a \<Rightarrow> if merge_network_access (network_is_enabled n) a then NetworkEnabled else NetworkRestricted
      | None \<Rightarrow> n)"

definition effective_permission_profile :: "'u profile \<Rightarrow> 'u additional_permission_profile option \<Rightarrow> 'u profile option" where
  "effective_permission_profile p additional =
     (case to_runtime_permissions p of (P, n) \<Rightarrow>
        from_runtime_permissions_with_enforcement (profile_enforcement p)
          (effective_file_system_sandbox_policy P additional) (effective_network_sandbox_policy n additional))"

definition should_require_platform_sandbox :: "('u, 'e) fs_host \<Rightarrow> 'u fs_policy \<Rightarrow> network_sandbox_policy \<Rightarrow> bool \<Rightarrow> bool" where
  "should_require_platform_sandbox H P n has_managed_network_requirements \<longleftrightarrow>
     (if has_managed_network_requirements then True
      else if \<not> network_is_enabled n then fs_kind P \<noteq> FsExternalSandbox
      else (case fs_kind P of FsRestricted \<Rightarrow> \<not> has_full_disk_write_access H P | _ \<Rightarrow> False))"

section \<open>Entries of the intersection\<close>

lemma materialize_cwd_access [simp]: "entry_access (materialize_cwd_dependent_entry H e cwd) = entry_access e"
  by (auto simp: materialize_cwd_dependent_entry_def split: fs_path.splits special_path.splits option.splits)

lemma resolve_permission_eq:
  assumes "host_ok H" "normalized_absolute cwd"
  shows "resolve_permission_path H p cwd = resolve_entry_path H p (Some cwd)"
proof (cases p)
  case (SpecialEntry v)
  then show ?thesis using assms abs_from_path_id [OF assms(2), of H]
    by (cases v) (auto simp: resolve_entry_path_def absolute_root_path_for_cwd_def split: option.splits sum.splits)
qed (simp_all add: resolve_entry_path_def)

lemma materialize_cwd_resolves:
  assumes "host_ok H" "normalized_absolute cwd"
  shows "resolve_entry_path H (entry_path (materialize_cwd_dependent_entry H e cwd)) (Some cwd)
    = resolve_entry_path H (entry_path e) (Some cwd)"
proof (cases "entry_path e")
  case (SpecialEntry v)
  show ?thesis
  proof (cases v)
    case (ProjectRoots s)
    then obtain p where p: "resolve_entry_path H (entry_path e) (Some cwd) = Some p"
      using SpecialEntry by (cases s) (auto simp: resolve_entry_path_def)
    then have "normalized_absolute p" using resolve_entry_normalized [OF assms(1), of "Some cwd"] assms(2) by simp
    then show ?thesis using p assms(1) resolve_permission_eq [OF assms, of "entry_path e"] SpecialEntry ProjectRoots
      by (simp add: materialize_cwd_dependent_entry_def resolve_entry_path_def host_ok_def)
  qed (use SpecialEntry in \<open>simp_all add: materialize_cwd_dependent_entry_def\<close>)
qed (simp_all add: materialize_cwd_dependent_entry_def resolve_entry_path_def)

lemma set_retain_constraining:
  "set (fst (retain_constraining_deny_entries H src acc cwd out)) = set out \<union>
     (\<lambda>e. materialize_cwd_dependent_entry H e cwd) `
       {e \<in> set src. entry_access e = Deny \<and> deny_entry_constrains_accepted_grant H e acc cwd}"
proof -
  let ?step = "\<lambda>(output_entries, retained) e.
    if \<not> deny_entry_constrains_accepted_grant H e acc cwd then (output_entries, retained)
    else (let e = materialize_cwd_dependent_entry H e cwd
          in (if e \<in> set output_entries then output_entries else output_entries @ [e], retained @ [e]))"
  have "set (fst (foldl ?step (out, r) es)) = set out \<union> (\<lambda>e. materialize_cwd_dependent_entry H e cwd) `
       {e \<in> set es. deny_entry_constrains_accepted_grant H e acc cwd}" for es r
  proof (induction es arbitrary: out r)
    case (Cons e es)
    show ?case using Cons.IH by (auto simp: Let_def)
  qed simp
  then show ?thesis by (auto simp: retain_constraining_deny_entries_def)
qed

definition accepted_grants ::
    "('u, 'e) fs_host \<Rightarrow> 'u file_system_permissions \<Rightarrow> 'u file_system_permissions \<Rightarrow> read_deny_matcher option \<Rightarrow> path \<Rightarrow> 'u fs_entry set" where
  "accepted_grants H requested granted matcher cwd =
     {e \<in> set (perm_entries granted).
        granted_file_system_entry_within_request H requested (fs_restricted (perm_entries requested)) matcher e cwd}"

lemma set_intersect_entries:
  "\<exists>acc. set acc = (\<lambda>e. materialize_cwd_dependent_entry H e cwd) ` accepted_grants H requested granted matcher cwd
     \<and> set (perm_entries (intersect_file_systems H requested granted matcher cwd)) = set acc \<union>
       (\<lambda>e. materialize_cwd_dependent_entry H e cwd) `
         {e \<in> set (perm_entries requested) \<union> set (perm_entries granted).
            entry_access e = Deny \<and> deny_entry_constrains_accepted_grant H e acc cwd}"
proof -
  define acc where "acc = push_missing_entries [] (map (\<lambda>e. materialize_cwd_dependent_entry H e cwd)
    (filter (\<lambda>e. granted_file_system_entry_within_request H requested (fs_restricted (perm_entries requested)) matcher e cwd)
       (perm_entries granted)))"
  have acc: "set acc = (\<lambda>e. materialize_cwd_dependent_entry H e cwd) ` accepted_grants H requested granted matcher cwd"
    by (auto simp: acc_def set_push_missing accepted_grants_def)
  have "perm_entries (intersect_file_systems H requested granted matcher cwd) =
      fst (retain_constraining_deny_entries H (perm_entries granted) acc cwd
        (fst (retain_constraining_deny_entries H (perm_entries requested) acc cwd acc)))"
    by (simp add: intersect_file_systems_def acc_def Let_def split: prod.splits)
  then have "set (perm_entries (intersect_file_systems H requested granted matcher cwd)) = set acc \<union>
       (\<lambda>e. materialize_cwd_dependent_entry H e cwd) `
         {e \<in> set (perm_entries requested) \<union> set (perm_entries granted).
            entry_access e = Deny \<and> deny_entry_constrains_accepted_grant H e acc cwd}"
    by (auto simp: set_retain_constraining)
  with acc show ?thesis by blast
qed

lemma within_request_readable:
  "granted_file_system_entry_within_request H r P m e cwd \<Longrightarrow> entry_access e \<noteq> Deny"
  by (auto simp: granted_file_system_entry_within_request_def can_read_def split: if_splits)

abbreviation intersection_policy where
  "intersection_policy H requested granted matcher cwd \<equiv>
     fs_restricted (perm_entries (intersect_file_systems H requested granted matcher cwd))"

lemma intersection_accepted:
  assumes ok: "host_ok H" "normalized_absolute cwd"
    and m: "m \<in> set (resolved_entries_with_cwd H (intersection_policy H requested granted matcher cwd) cwd)" "res_access m \<noteq> Deny"
  shows "\<exists>e \<in> accepted_grants H requested granted matcher cwd.
    resolve_entry_path H (entry_path e) (Some cwd) = Some (res_path m) \<and> entry_access e = res_access m"
proof -
  obtain o' where "o' \<in> set (perm_entries (intersect_file_systems H requested granted matcher cwd))"
      "resolve_entry_path H (entry_path o') (Some cwd) = Some (res_path m)" "res_access m = entry_access o'"
    using m(1) abs_from_path_id [OF ok(2), of H] by (auto simp: set_resolved_entries fs_restricted_def)
  moreover from this have "o' \<in> (\<lambda>e. materialize_cwd_dependent_entry H e cwd) ` accepted_grants H requested granted matcher cwd"
    using set_intersect_entries [of H cwd requested granted matcher] m(2) by auto
  then obtain e where "e \<in> accepted_grants H requested granted matcher cwd" "o' = materialize_cwd_dependent_entry H e cwd" by blast
  ultimately show ?thesis by (intro bexI [of _ e]) (simp_all add: materialize_cwd_resolves [OF ok])
qed

lemma accepted_in_intersection:
  assumes ok: "host_ok H" "normalized_absolute cwd" and e: "e \<in> accepted_grants H requested granted matcher cwd"
    and d: "resolve_entry_path H (entry_path e) (Some cwd) = Some d"
  shows "\<lparr>res_path = d, res_access = entry_access e\<rparr>
    \<in> set (resolved_entries_with_cwd H (intersection_policy H requested granted matcher cwd) cwd)"
proof (rule resolved_entriesI [where e = "materialize_cwd_dependent_entry H e cwd"])
  show "materialize_cwd_dependent_entry H e cwd \<in> set (fs_entries (intersection_policy H requested granted matcher cwd))"
    using e set_intersect_entries [of H cwd requested granted matcher] by (auto simp: fs_restricted_def)
  show "resolve_entry_path H (entry_path (materialize_cwd_dependent_entry H e cwd)) (result_ok (abs_from_path H cwd)) = Some d"
    using d by (simp add: abs_from_path_id [OF ok(2)] materialize_cwd_resolves [OF ok])
qed simp

lemma deny_retained:
  assumes ok: "host_ok H" "normalized_absolute cwd" and e: "e \<in> accepted_grants H requested granted matcher cwd"
    and d: "resolve_entry_path H (entry_path e) (Some cwd) = Some d"
    and f: "f \<in> set (perm_entries requested) \<union> set (perm_entries granted)" "entry_access f = Deny"
      "resolve_entry_path H (entry_path f) (Some cwd) = Some r" "prefix d r"
  shows "\<lparr>res_path = r, res_access = Deny\<rparr>
    \<in> set (resolved_entries_with_cwd H (intersection_policy H requested granted matcher cwd) cwd)"
proof -
  obtain acc where acc: "set acc = (\<lambda>e. materialize_cwd_dependent_entry H e cwd) ` accepted_grants H requested granted matcher cwd"
      "set (perm_entries (intersect_file_systems H requested granted matcher cwd)) = set acc \<union>
       (\<lambda>e. materialize_cwd_dependent_entry H e cwd) `
         {e \<in> set (perm_entries requested) \<union> set (perm_entries granted).
            entry_access e = Deny \<and> deny_entry_constrains_accepted_grant H e acc cwd}"
    using set_intersect_entries [of H cwd requested granted matcher] by blast
  have a: "materialize_cwd_dependent_entry H e cwd \<in> set acc" using e acc(1) by blast
  have "can_read (entry_access (materialize_cwd_dependent_entry H e cwd))"
    using e by (auto simp: accepted_grants_def can_read_def dest: within_request_readable)
  moreover have "resolve_permission_path H (entry_path (materialize_cwd_dependent_entry H e cwd)) cwd = Some d"
    using d by (simp add: resolve_permission_eq [OF ok] materialize_cwd_resolves [OF ok])
  moreover have "resolve_permission_path H (entry_path f) cwd = Some r" using f(3) by (simp add: resolve_permission_eq [OF ok])
  moreover from this have "\<not> (\<exists>g. entry_path f = GlobPattern g)" by auto
  ultimately have "deny_entry_constrains_accepted_grant H f acc cwd"
    using a f(4) unfolding deny_entry_constrains_accepted_grant_def list_ex_iff
    by (intro bexI [where x = "materialize_cwd_dependent_entry H e cwd"])
      (auto simp: paths_overlap_def starts_with_prefix split: fs_path.splits)
  then have "materialize_cwd_dependent_entry H f cwd \<in> set (fs_entries (intersection_policy H requested granted matcher cwd))"
    using f(1,2) acc(2) by (simp add: fs_restricted_def)
  then show ?thesis
    by (rule resolved_entriesI) (use f in \<open>simp_all add: abs_from_path_id [OF ok(2)] materialize_cwd_resolves [OF ok]\<close>)
qed


section \<open>The intersection stays within the request and the grant\<close>

lemma accepted_covered:
  assumes ok: "host_ok H" "normalized_absolute cwd" and e: "e \<in> accepted_grants H requested granted matcher cwd"
    and d: "resolve_entry_path H (entry_path e) (Some cwd) = Some d"
  shows "access_covers (resolve_access_with_cwd H (fs_restricted (perm_entries requested)) d cwd) (entry_access e)"
    and "\<And>m. matcher = Some m \<Longrightarrow> \<not> is_read_denied H m d"
  using e d by (auto simp: accepted_grants_def granted_file_system_entry_within_request_def resolve_permission_eq [OF ok]
      split: if_splits option.splits)

lemma resolved_restricted_entry:
  assumes "normalized_absolute cwd" "r \<in> set (resolved_entries_with_cwd H (fs_restricted es) cwd)"
  shows "\<exists>f \<in> set es. resolve_entry_path H (entry_path f) (Some cwd) = Some (res_path r) \<and> entry_access f = res_access r"
  using assms(2) abs_from_path_id [OF assms(1), of H] by (auto simp: set_resolved_entries fs_restricted_def)

lemma resolve_access_restricted_normalized:
  assumes "normalized_absolute q"
  shows "resolve_access_with_cwd H (fs_restricted es) q cwd = access_of (resolved_entries_with_cwd H (fs_restricted es) cwd) q"
  by (rule resolve_access_restricted [OF _ resolve_candidate_id [OF assms]]) (simp add: fs_restricted_def)

text \<open>
  Nothing of the request denies a path between an accepted grant and a path that the grant decides: such a denial
  would have been kept.
\<close>

lemma request_readable_below_grant:
  assumes ok: "host_ok H" "normalized_absolute cwd" and e: "e \<in> accepted_grants H requested granted matcher cwd"
    and d: "resolve_entry_path H (entry_path e) (Some cwd) = Some d"
    and m: "decided_by (resolved_entries_with_cwd H (intersection_policy H requested granted matcher cwd) cwd) q m" "res_path m = d"
    and g: "prefix d g" "prefix g q" and q: "normalized_absolute g"
  shows "resolve_access_with_cwd H (fs_restricted (perm_entries requested)) g cwd \<noteq> Deny"
proof
  let ?rs = "resolved_entries_with_cwd H (fs_restricted (perm_entries requested)) cwd"
  assume "resolve_access_with_cwd H (fs_restricted (perm_entries requested)) g cwd = Deny"
  then have deny: "access_of ?rs g = Deny" by (simp add: resolve_access_restricted_normalized [OF q])
  have nd: "normalized_absolute d" using resolve_entry_normalized [OF ok(1) _ d] ok(2) by simp
  have "access_of ?rs d \<noteq> Deny"
    using accepted_covered(1) [OF ok e d] unfolding resolve_access_restricted_normalized [OF nd]
    by (cases "entry_access e") (auto simp: access_covers_def can_read_def can_write_def)
  then obtain k where k: "decided_by ?rs d k" "res_access k \<noteq> Deny" using access_of_allows by fastforce
  then have "\<exists>r. decided_by ?rs g r \<and> res_access r = Deny"
    using decided_by_ex [of k ?rs g] decided_byD(1,2) [OF k(1)] g(1) deny prefix_order.trans by metis
  then obtain r where r: "decided_by ?rs g r" "res_access r = Deny" by blast
  have "\<not> prefix (res_path r) d"
    using prefix_decided [OF r(1) _ g(1)] decided_by_unique_access [OF k(1)] r(2) k(2) by auto
  then have dr: "prefix d (res_path r)" "d \<noteq> res_path r"
    using prefix_same_cases [OF decided_byD(2) [OF r(1)] g(1)] by auto
  obtain f where f: "f \<in> set (perm_entries requested)" "resolve_entry_path H (entry_path f) (Some cwd) = Some (res_path r)"
      "entry_access f = Deny"
    using resolved_restricted_entry [OF ok(2) decided_byD(1) [OF r(1)]] r(2) by auto
  have "\<lparr>res_path = res_path r, res_access = Deny\<rparr>
      \<in> set (resolved_entries_with_cwd H (intersection_policy H requested granted matcher cwd) cwd)"
    by (rule deny_retained [OF ok e d]) (use f dr in auto)
  from decided_byD(3) [OF m(1) this] have "length (res_path r) < length d \<or> res_path r = d"
    using decided_byD(2) [OF r(1)] g(2) m(2) prefix_order.trans [of "res_path r" g q] by auto
  with dr show False by (auto dest: prefix_length_le)
qed

lemma intersection_readable:
  assumes ok: "host_ok H" and cwd: "normalized_absolute cwd" and q: "normalized_absolute q"
    and read: "can_read_path_with_cwd H (intersection_policy H requested granted matcher cwd) q cwd"
  shows "can_read_path_with_cwd H (fs_restricted (perm_entries requested)) q cwd
     \<and> can_read_path_with_cwd H (fs_restricted (perm_entries granted)) q cwd"
proof -
  let ?out = "resolved_entries_with_cwd H (intersection_policy H requested granted matcher cwd) cwd"
  let ?gs = "resolved_entries_with_cwd H (fs_restricted (perm_entries granted)) cwd"
  have "access_of ?out q \<noteq> Deny"
    using read by (simp add: can_read_path_with_cwd_def can_read_def resolve_access_restricted_normalized [OF q])
  then obtain m where m: "decided_by ?out q m" "res_access m \<noteq> Deny" using access_of_allows by fastforce
  obtain e where e: "e \<in> accepted_grants H requested granted matcher cwd"
      "resolve_entry_path H (entry_path e) (Some cwd) = Some (res_path m)" "entry_access e = res_access m"
    using intersection_accepted [OF ok cwd decided_byD(1) [OF m(1)] m(2)] by blast
  have dq: "prefix (res_path m) q" by (rule decided_byD(2) [OF m(1)])
  have "resolve_access_with_cwd H (fs_restricted (perm_entries requested)) q cwd \<noteq> Deny"
    by (rule request_readable_below_grant [OF ok cwd e(1,2) m(1) refl dq _ q]) simp
  moreover have "access_of ?gs q \<noteq> Deny"
  proof
    assume deny: "access_of ?gs q = Deny"
    have in_gs: "\<lparr>res_path = res_path m, res_access = entry_access e\<rparr> \<in> set ?gs"
      by (rule resolved_entriesI [of e]) (use e in \<open>simp_all add: accepted_grants_def fs_restricted_def abs_from_path_id [OF cwd]\<close>)
    then obtain g where g: "decided_by ?gs q g" "res_access g = Deny"
      using decided_by_ex [of _ ?gs q] dq deny by fastforce
    have mg: "prefix (res_path m) (res_path g)"
      using decided_byD(3) [OF g(1) in_gs] dq decided_byD(2) [OF g(1)] prefix_length_prefix [of "res_path m" q "res_path g"] by auto
    obtain f where f: "f \<in> set (perm_entries granted)" "resolve_entry_path H (entry_path f) (Some cwd) = Some (res_path g)"
        "entry_access f = Deny"
      using resolved_restricted_entry [OF cwd decided_byD(1) [OF g(1)]] g(2) by auto
    have "\<lparr>res_path = res_path g, res_access = Deny\<rparr> \<in> set ?out"
      by (rule deny_retained [OF ok cwd e(1,2)]) (use f mg in auto)
    from decided_byD(3) [OF m(1) this] m(2) mg decided_byD(2) [OF g(1)] show False
      by (auto dest: prefix_length_le)
  qed
  ultimately show ?thesis by (simp add: can_read_path_with_cwd_def can_read_def resolve_access_restricted_normalized [OF q])
qed

lemma candidates_no_aliases:
  "no_aliases H \<Longrightarrow> normalized_absolute p \<Longrightarrow> normalized_and_canonical_candidates H p = [p]"
proof -
  assume a: "no_aliases H" and p: "normalized_absolute p"
  have "abs_from_path H c = Inr p" if "host_canonicalize H p = Inr c" for c
    using a that abs_from_path_id [OF p] unfolding no_aliases_def by metis
  with p show ?thesis
    by (auto simp: normalized_and_canonical_candidates_def abs_from_path_id push_unique_def Let_def split: sum.splits)
qed

lemma matcher_denies_only_below_roots:
  assumes ok: "host_ok H" and alias': "no_aliases H" and globs: "\<forall>e \<in> set es. entry_access e = Deny \<longrightarrow> (\<forall>p. entry_path e \<noteq> GlobPattern p)"
    and new: "read_deny_matcher_new glob H (fs_restricted es) cwd = Some (Some m)"
    and g: "normalized_absolute g" "is_read_denied H m g"
  shows "\<exists>u. \<lparr>res_path = u, res_access = Deny\<rparr> \<in> set (resolved_entries_with_cwd H (fs_restricted es) cwd) \<and> prefix u g
     \<and> (\<forall>p. normalized_absolute p \<longrightarrow> prefix u p \<longrightarrow> is_read_denied H m p)"
proof -
  let ?P = "fs_restricted es"
  have no: "get_unreadable_globs_with_cwd H ?P cwd = []"
  proof -
    have "List.map_filter (\<lambda>e. case entry_path e of GlobPattern pattern \<Rightarrow> Some (path_string (abs_resolve H pattern cwd)) | _ \<Rightarrow> None)
        (filter (\<lambda>e. entry_access e = Deny) es) = []"
      using globs by (induction es) (auto simp: List.map_filter_simps split: fs_path.splits)
    then show ?thesis by (simp add: get_unreadable_globs_with_cwd_def fs_restricted_def)
  qed
  have m: "m = \<lparr>denied_candidates = map (normalized_and_canonical_candidates H) (get_unreadable_roots_with_cwd H ?P cwd),
      deny_read_matchers = [], invalid_pattern = False\<rparr>"
    using new by (auto simp: read_deny_matcher_new_def read_deny_matcher_build_def no Let_def split: if_splits)
  have R: "fs_kind ?P = FsRestricted" by (simp add: fs_restricted_def)
  have roots: "\<lparr>res_path = u, res_access = Deny\<rparr> \<in> set (resolved_entries_with_cwd H ?P cwd) \<and> normalized_absolute u"
    if "u \<in> set (get_unreadable_roots_with_cwd H ?P cwd)" for u
  proof -
    obtain r where r: "r \<in> set (resolved_entries_with_cwd H ?P cwd)" "res_access r = Deny"
        "u = normalize_effective_absolute_path H (res_path r)"
      using \<open>u \<in> _\<close> unfolding set_unreadable_roots [OF ok R] by auto
    have "normalized_absolute (res_path r)" by (rule resolved_entries_normalized [OF ok r(1)])
    then show ?thesis using r normalize_effective_id [OF alias'] by (cases r) simp
  qed
  have denied: "is_read_denied H m p \<longleftrightarrow> (\<exists>u \<in> set (get_unreadable_roots_with_cwd H ?P cwd). prefix u p)"
    if "normalized_absolute p" for p
    using roots candidates_no_aliases [OF alias'] that
    by (auto simp: is_read_denied_def m Let_def list_ex_iff starts_with_prefix)
  show ?thesis using g roots denied by meson
qed

lemma grant_not_denied:
  assumes ok: "host_ok H" "normalized_absolute cwd" and alias': "no_aliases H"
    and globs: "\<forall>e \<in> set (perm_entries requested). entry_access e = Deny \<longrightarrow> (\<forall>p. entry_path e \<noteq> GlobPattern p)"
    and new: "read_deny_matcher_new glob H (fs_restricted (perm_entries requested)) cwd = Some matcher"
    and e: "e \<in> accepted_grants H requested granted matcher cwd"
    and d: "resolve_entry_path H (entry_path e) (Some cwd) = Some d"
    and m: "decided_by (resolved_entries_with_cwd H (intersection_policy H requested granted matcher cwd) cwd) q m" "res_path m = d"
    and g: "prefix d g" "prefix g q" "normalized_absolute g" and mt: "matcher = Some mt"
  shows "\<not> is_read_denied H mt g"
proof
  assume "is_read_denied H mt g"
  then obtain u where u: "\<lparr>res_path = u, res_access = Deny\<rparr> \<in> set (resolved_entries_with_cwd H (fs_restricted (perm_entries requested)) cwd)"
      "prefix u g" "\<And>p. normalized_absolute p \<Longrightarrow> prefix u p \<Longrightarrow> is_read_denied H mt p"
    using matcher_denies_only_below_roots [OF ok(1) alias' globs new [unfolded mt] g(3)] by blast
  have "normalized_absolute d" using resolve_entry_normalized [OF ok(1) _ d] ok(2) by simp
  then have "\<not> prefix u d" using u(3) accepted_covered(2) [OF ok e d mt] by blast
  then have du: "prefix d u" "d \<noteq> u" using prefix_same_cases [OF u(2) g(1)] by auto
  obtain f where f: "f \<in> set (perm_entries requested)" "resolve_entry_path H (entry_path f) (Some cwd) = Some u" "entry_access f = Deny"
    using resolved_restricted_entry [OF ok(2) u(1)] by auto
  have "\<lparr>res_path = u, res_access = Deny\<rparr>
      \<in> set (resolved_entries_with_cwd H (intersection_policy H requested granted matcher cwd) cwd)"
    by (rule deny_retained [OF ok e d]) (use f du in auto)
  from decided_byD(3) [OF m(1) this] have "length u < length d \<or> u = d"
    using u(2) g(2) m(2) prefix_order.trans [of u g q] by auto
  with du show False by (auto dest: prefix_length_le)
qed

lemma intersection_writable:
  assumes ok: "host_ok H" and cwd: "normalized_absolute cwd" and q: "normalized_absolute q" and alias': "no_aliases H"
    and globs: "\<forall>e \<in> set (perm_entries requested). entry_access e = Deny \<longrightarrow> (\<forall>p. entry_path e \<noteq> GlobPattern p)"
    and new: "read_deny_matcher_new glob H (fs_restricted (perm_entries requested)) cwd = Some matcher"
    and wr: "resolve_access_with_cwd H (intersection_policy H requested granted matcher cwd) q cwd = Write"
  shows "resolve_access_with_cwd H (fs_restricted (perm_entries granted)) q cwd = Write"
proof -
  let ?out = "resolved_entries_with_cwd H (intersection_policy H requested granted matcher cwd) cwd"
  let ?gs = "resolved_entries_with_cwd H (fs_restricted (perm_entries granted)) cwd"
  have "access_of ?out q = Write" using wr by (simp add: resolve_access_restricted_normalized [OF q])
  then obtain m where m: "decided_by ?out q m" "res_access m = Write" using access_of_allows [of ?out q] by auto
  obtain e where e: "e \<in> accepted_grants H requested granted matcher cwd"
      "resolve_entry_path H (entry_path e) (Some cwd) = Some (res_path m)" "entry_access e = Write"
    using intersection_accepted [OF ok cwd decided_byD(1) [OF m(1)]] m(2) by auto
  have dq: "prefix (res_path m) q" by (rule decided_byD(2) [OF m(1)])
  have in_gs: "\<lparr>res_path = res_path m, res_access = Write\<rparr> \<in> set ?gs"
    by (rule resolved_entriesI [of e]) (use e in \<open>simp_all add: accepted_grants_def fs_restricted_def abs_from_path_id [OF cwd]\<close>)
  obtain g where g: "decided_by ?gs q g" "access_of ?gs q = res_access g" using decided_by_ex [OF in_gs] dq by auto
  have not_deny: "res_access g \<noteq> Deny"
    using g(2) intersection_readable [OF ok cwd q, of requested granted matcher] wr
    by (simp add: can_read_path_with_cwd_def can_read_def resolve_access_restricted_normalized [OF q])
  have "res_access g \<noteq> Read"
  proof
    assume read: "res_access g = Read"
    have dg: "length (res_path m) < length (res_path g)"
      using decided_byD(3) [OF g(1) in_gs] dq read by (auto simp: less_eq_access_mode_def)
    then have pre: "prefix (res_path m) (res_path g)"
      using prefix_length_prefix [OF dq decided_byD(2) [OF g(1)]] by simp
    have ng: "normalized_absolute (res_path g)" by (rule resolved_entries_normalized [OF ok decided_byD(1) [OF g(1)]])
    obtain f where f: "f \<in> set (perm_entries granted)" "resolve_entry_path H (entry_path f) (Some cwd) = Some (res_path g)"
        "entry_access f = Read"
      using resolved_restricted_entry [OF cwd decided_byD(1) [OF g(1)]] read by auto
    have "f \<in> accepted_grants H requested granted matcher cwd"
      using f grant_not_denied [OF ok cwd alias' globs new e(1,2) m(1) refl pre decided_byD(2) [OF g(1)] ng]
        request_readable_below_grant [OF ok cwd e(1,2) m(1) refl pre decided_byD(2) [OF g(1)] ng]
      by (auto simp: accepted_grants_def granted_file_system_entry_within_request_def resolve_permission_eq [OF ok cwd]
          can_read_def access_covers_def split: option.splits)
    from decided_byD(3) [OF m(1) accepted_in_intersection [OF ok cwd this f(2)]] dg decided_byD(2) [OF g(1)]
    show False by auto
  qed
  with not_deny have "res_access g = Write" by (cases "res_access g") auto
  then show ?thesis using g(2) by (simp add: resolve_access_restricted_normalized [OF q])
qed


text \<open>No request makes the intersection panic, and the result has the network only when both sides have it.\<close>

lemma read_deny_matcher_new_no_panic: "\<exists>m. read_deny_matcher_new glob H P cwd = Some m"
  using build_deny_matchers_fail_closed [of glob "get_unreadable_globs_with_cwd H P cwd" "[]" False]
  by (auto simp: read_deny_matcher_new_def read_deny_matcher_build_def Let_def)

lemma intersect_additional_profiles_total:
  "\<exists>out. intersect_additional_profiles glob H requested granted cwd = Some out
     \<and> (network_on (add_network out) \<longleftrightarrow> network_on (add_network requested) \<and> network_on (add_network granted))"
proof (cases "add_file_system requested")
  case None
  then show ?thesis by (simp add: intersect_additional_profiles_def Let_def network_on_def)
next
  case (Some rfs)
  obtain m where "read_deny_matcher_new glob H (fs_restricted (perm_entries rfs)) cwd = Some m"
    using read_deny_matcher_new_no_panic by blast
  then show ?thesis using Some by (simp add: intersect_additional_profiles_def Let_def network_on_def)
qed

lemma intersection_file_system:
  assumes "intersect_additional_profiles glob H requested granted cwd = Some out" "add_file_system out = Some fs"
  shows "\<exists>rfs matcher. add_file_system requested = Some rfs
     \<and> read_deny_matcher_new glob H (fs_restricted (perm_entries rfs)) cwd = Some matcher
     \<and> fs = intersect_file_systems H rfs (case add_file_system granted of Some g \<Rightarrow> g | None \<Rightarrow> fs_permissions_default) matcher cwd"
  using assms by (auto simp: intersect_additional_profiles_def Let_def split: option.splits if_splits)

lemma empty_policy_denies: "resolve_access_with_cwd H (fs_restricted (perm_entries fs_permissions_default)) q cwd = Deny"
  by (simp add: resolve_access_with_cwd_def fs_restricted_def fs_permissions_default_def resolved_entries_with_cwd_def
      List.map_filter_simps split: option.splits)

text \<open>
  C11: What can be read under the permissions both requested and granted can be read under the request and under the grant: the
  denials of either side are kept wherever they bear on an accepted grant.
\<close>

theorem intersection_reads_within:
  assumes ok: "host_ok H" "normalized_absolute cwd" "normalized_absolute q"
    and out: "intersect_additional_profiles glob H requested granted cwd = Some out" "add_file_system out = Some fs"
    and q: "can_read_path_with_cwd H (fs_restricted (perm_entries fs)) q cwd"
  shows "\<exists>rfs gfs. add_file_system requested = Some rfs \<and> add_file_system granted = Some gfs
     \<and> can_read_path_with_cwd H (fs_restricted (perm_entries rfs)) q cwd
     \<and> can_read_path_with_cwd H (fs_restricted (perm_entries gfs)) q cwd"
proof -
  obtain rfs matcher where r: "add_file_system requested = Some rfs"
      "fs = intersect_file_systems H rfs (case add_file_system granted of Some g \<Rightarrow> g | None \<Rightarrow> fs_permissions_default) matcher cwd"
    using intersection_file_system [OF out] by blast
  show ?thesis using intersection_readable [OF ok q [unfolded r(2)]] r(1) empty_policy_denies [of H q cwd]
    by (cases "add_file_system granted") (auto simp: can_read_path_with_cwd_def can_read_def)
qed

text \<open>
  What can be written under the permissions both requested and granted can be written under the grant, on a disk without
  aliases and for a request without deny patterns: no read-only entry of the grant is lost when the write entry around it
  is accepted.
\<close>

theorem intersection_writes_within_grant:
  assumes ok: "host_ok H" "normalized_absolute cwd" "normalized_absolute q" "no_aliases H"
    and out: "intersect_additional_profiles glob H requested granted cwd = Some out" "add_file_system out = Some fs"
    and globs: "\<forall>rfs. add_file_system requested = Some rfs \<longrightarrow>
      list_all (\<lambda>e. entry_access e = Deny \<longrightarrow> (\<forall>p. entry_path e \<noteq> GlobPattern p)) (perm_entries rfs)"
    and q: "resolve_access_with_cwd H (fs_restricted (perm_entries fs)) q cwd = Write"
  shows "\<exists>gfs. add_file_system granted = Some gfs \<and> resolve_access_with_cwd H (fs_restricted (perm_entries gfs)) q cwd = Write"
proof -
  obtain rfs matcher where r: "add_file_system requested = Some rfs"
      "read_deny_matcher_new glob H (fs_restricted (perm_entries rfs)) cwd = Some matcher"
      "fs = intersect_file_systems H rfs (case add_file_system granted of Some g \<Rightarrow> g | None \<Rightarrow> fs_permissions_default) matcher cwd"
    using intersection_file_system [OF out] by blast
  have "\<forall>e \<in> set (perm_entries rfs). entry_access e = Deny \<longrightarrow> (\<forall>p. entry_path e \<noteq> GlobPattern p)"
    using globs r(1) by (simp add: list_all_iff)
  from intersection_writable [OF ok this r(2) q [unfolded r(3)]] show ?thesis
    using empty_policy_denies [of H q cwd] by (cases "add_file_system granted") auto
qed

section \<open>The effective policy\<close>

lemma merge_policy_appends:
  "fs_kind P = FsRestricted \<Longrightarrow>
     fs_kind (merge_file_system_policy_with_additional_permissions P a) = FsRestricted
     \<and> (\<exists>new. fs_entries (merge_file_system_policy_with_additional_permissions P a) = fs_entries P @ new
        \<and> entry_access ` set new \<subseteq> entry_access ` set (perm_entries a))"
  using push_missing_appends [of "fs_entries P" "perm_entries a"]
  by (auto simp: merge_file_system_policy_with_additional_permissions_def)

interpretation additional_grants: entry_appending "\<lambda>P. merge_file_system_policy_with_additional_permissions P a"
  "entry_access ` set (perm_entries a)" for a
  by unfold_locales (rule merge_policy_appends)

text \<open>
  Further permissions that deny nothing take no read access away from the policy of the turn, and the network stays on when
  it was on.
\<close>

theorem effective_policy_keeps_reads:
  assumes "add_file_system a = Some fs" and "list_all (\<lambda>e. entry_access e \<noteq> Deny) (perm_entries fs)"
    and "can_read_path_with_cwd H P q cwd"
  shows "can_read_path_with_cwd H (effective_file_system_sandbox_policy P (Some a)) q cwd
     \<and> (n = NetworkEnabled \<longrightarrow> effective_network_sandbox_policy n (Some a) = NetworkEnabled)"
proof -
  have "can_read_path_with_cwd H (merge_file_system_policy_with_additional_permissions P fs) q cwd"
  proof (cases "fs_kind P = FsRestricted")
    case True
    have "Deny \<notin> entry_access ` set (perm_entries fs)" using assms(2) by (auto simp: list_all_iff)
    then show ?thesis using additional_grants.access_after [OF True, of H fs q cwd] assms(3)
      unfolding can_read_path_with_cwd_def can_read_def by (metis insert_iff)
  next
    case False
    then show ?thesis using assms(3) by (cases "fs_kind P") (simp_all add: merge_file_system_policy_with_additional_permissions_def)
  qed
  then show ?thesis using assms(1,3)
    by (simp add: effective_file_system_sandbox_policy_def effective_network_sandbox_policy_def merge_network_access_def
        network_is_enabled_def)
qed

lemma effective_permission_profile_no_panic: "\<exists>p'. effective_permission_profile p a = Some p'"
  by (cases "to_runtime_permissions p") (simp add: effective_permission_profile_def from_runtime_permissions_no_panic)

section \<open>Examples\<close>

definition grant_of :: "path fs_entry list \<Rightarrow> path additional_permission_profile" where
  "grant_of es = \<lparr>add_network = None, add_file_system = Some \<lparr>perm_entries = es, perm_glob_scan_max_depth = None\<rparr>\<rparr>"

definition requested_entries :: "path fs_entry list" where
  "requested_entries = [entry_new (PathEntry (abs_names [''a''])) Write, entry_new (PathEntry (abs_names [''a'', ''ro''])) Read]"

definition granted_entries :: "path fs_entry list" where
  "granted_entries = [entry_new (PathEntry (abs_names [''a''])) Write, entry_new (PathEntry (abs_names [''b''])) Write]"

definition sample_intersection :: "path additional_permission_profile" where
  "sample_intersection = grant_of [entry_new (PathEntry (abs_names [''a''])) Write]"

lemma sample_intersection_eq:
  "intersect_additional_profiles no_globs plain_host (grant_of requested_entries) (grant_of granted_entries) (abs_names [])
   = Some sample_intersection"
  by code_simp

theorem intersection_reads_within_witness:
  "\<exists>rfs gfs. add_file_system (grant_of requested_entries) = Some rfs \<and> add_file_system (grant_of granted_entries) = Some gfs
     \<and> can_read_path_with_cwd plain_host (fs_restricted (perm_entries rfs)) (abs_names [''a'', ''x'']) (abs_names [])
     \<and> can_read_path_with_cwd plain_host (fs_restricted (perm_entries gfs)) (abs_names [''a'', ''x'']) (abs_names [])"
proof (rule intersection_reads_within [OF plain_host_ok _ _ sample_intersection_eq])
  show "normalized_absolute (abs_names [])" by code_simp
  show "normalized_absolute (abs_names [''a'', ''x''])" by code_simp
  show "add_file_system sample_intersection
    = Some \<lparr>perm_entries = [entry_new (PathEntry (abs_names [''a''])) Write], perm_glob_scan_max_depth = None\<rparr>" by code_simp
  show "can_read_path_with_cwd plain_host (fs_restricted (perm_entries
    \<lparr>perm_entries = [entry_new (PathEntry (abs_names [''a''])) Write], perm_glob_scan_max_depth = None\<rparr>))
    (abs_names [''a'', ''x'']) (abs_names [])" by code_simp
qed

lemma plain_host_no_aliases: "no_aliases plain_host"
  by (auto simp: no_aliases_def plain_host_def split: if_splits)

theorem intersection_writes_within_grant_witness:
  "\<exists>gfs. add_file_system (grant_of granted_entries) = Some gfs
     \<and> resolve_access_with_cwd plain_host (fs_restricted (perm_entries gfs)) (abs_names [''a'', ''x'']) (abs_names []) = Write"
proof (rule intersection_writes_within_grant [OF plain_host_ok _ _ plain_host_no_aliases sample_intersection_eq])
  show "normalized_absolute (abs_names [])" by code_simp
  show "normalized_absolute (abs_names [''a'', ''x''])" by code_simp
  show "add_file_system sample_intersection
    = Some \<lparr>perm_entries = [entry_new (PathEntry (abs_names [''a''])) Write], perm_glob_scan_max_depth = None\<rparr>" by code_simp
  have "list_all (\<lambda>e. entry_access e = Deny \<longrightarrow> (\<forall>p. entry_path e \<noteq> GlobPattern p)) requested_entries"
    by (simp add: requested_entries_def entry_new_def)
  then show "\<forall>rfs. add_file_system (grant_of requested_entries) = Some rfs \<longrightarrow>
    list_all (\<lambda>e. entry_access e = Deny \<longrightarrow> (\<forall>p. entry_path e \<noteq> GlobPattern p)) (perm_entries rfs)"
    by (auto simp: grant_of_def)
  show "resolve_access_with_cwd plain_host (fs_restricted (perm_entries
    \<lparr>perm_entries = [entry_new (PathEntry (abs_names [''a''])) Write], perm_glob_scan_max_depth = None\<rparr>))
    (abs_names [''a'', ''x'']) (abs_names []) = Write" by code_simp
qed

text \<open>
  The request is not respected in the same way for writes: a read-only entry of the request below an accepted write grant is
  dropped, and the intersection lets a path be written that the request asked only to read.
\<close>

theorem intersection_may_write_beyond_request:
  "\<exists>requested granted out rfs fs q.
     intersect_additional_profiles no_globs plain_host requested granted (abs_names []) = Some out
     \<and> add_file_system requested = Some rfs \<and> add_file_system out = Some fs
     \<and> resolve_access_with_cwd plain_host (fs_restricted (perm_entries rfs)) q (abs_names []) = Read
     \<and> resolve_access_with_cwd plain_host (fs_restricted (perm_entries fs)) q (abs_names []) = Write"
proof (intro exI conjI)
  show "intersect_additional_profiles no_globs plain_host (grant_of requested_entries) (grant_of granted_entries) (abs_names [])
    = Some sample_intersection" by (rule sample_intersection_eq)
  show "add_file_system (grant_of requested_entries) = Some \<lparr>perm_entries = requested_entries, perm_glob_scan_max_depth = None\<rparr>"
    by (simp add: grant_of_def)
  show "add_file_system sample_intersection
    = Some \<lparr>perm_entries = [entry_new (PathEntry (abs_names [''a''])) Write], perm_glob_scan_max_depth = None\<rparr>"
    by (simp add: sample_intersection_def grant_of_def)
  show "resolve_access_with_cwd plain_host (fs_restricted (perm_entries \<lparr>perm_entries = requested_entries, perm_glob_scan_max_depth = None\<rparr>))
    (abs_names [''a'', ''ro'']) (abs_names []) = Read" by code_simp
  show "resolve_access_with_cwd plain_host (fs_restricted (perm_entries
    \<lparr>perm_entries = [entry_new (PathEntry (abs_names [''a''])) Write], perm_glob_scan_max_depth = None\<rparr>))
    (abs_names [''a'', ''ro'']) (abs_names []) = Write" by code_simp
qed

theorem effective_policy_keeps_reads_witness:
  "can_read_path_with_cwd plain_host (effective_file_system_sandbox_policy sample_policy (Some (grant_of granted_entries)))
     (abs_names [''w'', ''x'']) (abs_names [])
   \<and> (NetworkEnabled = NetworkEnabled \<longrightarrow> effective_network_sandbox_policy NetworkEnabled (Some (grant_of granted_entries)) = NetworkEnabled)"
proof (rule effective_policy_keeps_reads)
  show "add_file_system (grant_of granted_entries) = Some \<lparr>perm_entries = granted_entries, perm_glob_scan_max_depth = None\<rparr>"
    by (simp add: grant_of_def)
  show "list_all (\<lambda>e. entry_access e \<noteq> Deny) (perm_entries \<lparr>perm_entries = granted_entries, perm_glob_scan_max_depth = None\<rparr>)"
    by code_simp
  show "can_read_path_with_cwd plain_host sample_policy (abs_names [''w'', ''x'']) (abs_names [])" by code_simp
qed


end
