(* ===== verification/Utf8_Text.thy ===== *)
theory Utf8_Text
  imports Rust_Prelude
begin

text \<open>
  UTF-8: the characters of a string, validation as \<open>std::str::from_utf8\<close> does it, and the reason
  why strings can be modelled by their bytes: on valid text, trimming bytes is trimming characters.
\<close>

section \<open>Characters\<close>

text \<open>
  \<open>chars()\<close> of a string is the list of its encoded characters: a byte with the continuation bytes
  after it.
\<close>

function utf8_chars :: "str \<Rightarrow> str list" where
  "utf8_chars [] = []"
| "utf8_chars (c # s) = (c # takeWhile is_cont_byte s) # utf8_chars (dropWhile is_cont_byte s)"
  by pat_completeness auto
termination
  by (relation "measure length") (auto simp: le_imp_less_Suc length_dropWhile_le)

text \<open>A Rust string, and so every chunk of text, never starts inside a character.\<close>

definition char_aligned :: "str \<Rightarrow> bool" where
  "char_aligned s \<longleftrightarrow> s = [] \<or> \<not> is_cont_byte (hd s)"

lemma concat_utf8_chars [simp]: "concat (utf8_chars s) = s"
  by (induction s rule: utf8_chars.induct) auto

lemma utf8_chars_append: "char_aligned b \<Longrightarrow> utf8_chars (a @ b) = utf8_chars a @ utf8_chars b"
proof (induction a rule: utf8_chars.induct)
  case (2 c s)
  have t: "takeWhile is_cont_byte (s @ b) = takeWhile is_cont_byte s"
    using 2(2) by (cases b) (auto simp: char_aligned_def takeWhile_append, metis takeWhile_eq_all_conv)
  have "dropWhile is_cont_byte (s @ b) = dropWhile is_cont_byte s @ b"
    using 2(2) by (cases b) (auto simp: char_aligned_def dropWhile_append)
  then show ?case using 2 t by simp
qed simp

section \<open>Validation\<close>

text \<open>
  The next character of a byte string: its length, or the length of the invalid sequence
  (\<open>error_len\<close>), which is \<open>None\<close> when the input ends inside a character.
\<close>

definition utf8_width :: "char \<Rightarrow> nat" where
  "utf8_width c =
     (let b = byte_val c
      in if b < 0x80 then 1 else if b < 0xC2 then 0 else if b < 0xE0 then 2
         else if b < 0xF0 then 3 else if b < 0xF5 then 4 else 0)"

definition second_ok :: "char \<Rightarrow> char \<Rightarrow> bool" where
  "second_ok a c =
     (let f = byte_val a; b = byte_val c
      in if f = 0xE0 then 0xA0 \<le> b \<and> b < 0xC0
         else if f = 0xED then 0x80 \<le> b \<and> b < 0xA0
         else if f = 0xF0 then 0x90 \<le> b \<and> b < 0xC0
         else if f = 0xF4 then 0x80 \<le> b \<and> b < 0x90
         else 0x80 \<le> b \<and> b < 0xC0)"

fun continuation :: "nat \<Rightarrow> nat \<Rightarrow> str \<Rightarrow> nat option + nat" where
  "continuation done 0 s = Inr done"
| "continuation done (Suc n) [] = Inl None"
| "continuation done (Suc n) (c # s) =
     (if is_cont_byte c then continuation (Suc done) n s else Inl (Some done))"

fun next_char :: "str \<Rightarrow> nat option + nat" where
  "next_char [] = Inr 0"
| "next_char (a # s) =
     (if utf8_width a = 0 then Inl (Some 1)
      else if utf8_width a = 1 then Inr 1
      else case s of
             [] \<Rightarrow> Inl None
           | b # r \<Rightarrow> if second_ok a b then continuation 2 (utf8_width a - 2) r else Inl (Some 1))"

text \<open>\<open>None\<close> if the bytes are valid, and otherwise \<open>valid_up_to\<close> and \<open>error_len\<close>.\<close>

lemma continuation_bounds: "continuation d n s = Inr k \<Longrightarrow> k = d + n \<and> n \<le> length s"
  by (induction d n s rule: continuation.induct) (auto split: if_splits)

lemma next_char_bounds: "next_char (a # s) = Inr k \<Longrightarrow> 1 \<le> k \<and> k \<le> length (a # s) \<and> k = utf8_width a"
proof -
  assume n: "next_char (a # s) = Inr k"
  consider "utf8_width a = 1" "k = 1" | b r where "2 \<le> utf8_width a" "s = b # r"
      "continuation 2 (utf8_width a - 2) r = Inr k"
    using n by (cases "utf8_width a = 0"; cases "utf8_width a = 1"; cases s) (auto split: if_splits)
  then show ?thesis
  proof cases
    case 2
    then show ?thesis using continuation_bounds [OF 2(3)] by simp
  qed simp
qed

definition shift_err :: "nat \<Rightarrow> (nat \<times> nat option) option \<Rightarrow> (nat \<times> nat option) option" where
  "shift_err k r = (case r of None \<Rightarrow> None | Some (n, e) \<Rightarrow> Some (k + n, e))"

lemma shift_err_simps [simp]:
  "shift_err k None = None" "shift_err k (Some (n, e)) = Some (k + n, e)"
  "shift_err k r = None \<longleftrightarrow> r = None" "shift_err 0 r = r"
  "shift_err k r = Some (n, e) \<longleftrightarrow> (\<exists>m. r = Some (m, e) \<and> n = k + m)"
  by (auto simp: shift_err_def split: option.splits)

lemma shift_err_shift: "shift_err k (shift_err m r) = shift_err (k + m) r"
  by (auto simp: shift_err_def split: option.splits)

function from_utf8 :: "str \<Rightarrow> (nat \<times> nat option) option" where
  "from_utf8 [] = None"
| "from_utf8 (a # s) =
     (case next_char (a # s) of
        Inl e \<Rightarrow> Some (0, e)
      | Inr k \<Rightarrow> shift_err k (from_utf8 (drop k (a # s))))"
  by pat_completeness (simp_all del: next_char.simps)
termination
proof (relation "measure length", goal_cases)
  case (2 a s k)
  then show ?case using next_char_bounds [of a s k] by (auto simp del: next_char.simps)
qed simp

declare from_utf8.simps(2) [simp del]

definition valid_utf8 :: "str \<Rightarrow> bool" where
  "valid_utf8 s \<longleftrightarrow> from_utf8 s = None"

section \<open>Well-formed characters\<close>

text \<open>What the rest of the development needs of a character: the number of its continuation bytes.\<close>

definition wf_char :: "str \<Rightarrow> bool" where
  "wf_char c \<longleftrightarrow> c \<noteq> [] \<and> length c = utf8_width (hd c) \<and> list_all is_cont_byte (tl c) \<and> \<not> is_cont_byte (hd c)"

lemma continuation_cont: "continuation d n s = Inr k \<Longrightarrow> list_all is_cont_byte (take n s)"
  by (induction d n s rule: continuation.induct) (auto split: if_splits)

lemma second_ok_cont: "second_ok a b \<Longrightarrow> is_cont_byte b"
  by (auto simp: second_ok_def is_cont_byte_def Let_def split: if_splits)

lemma next_char_wf: "next_char (a # s) = Inr k \<Longrightarrow> wf_char (take k (a # s))"
proof -
  assume n: "next_char (a # s) = Inr k"
  note b = next_char_bounds [OF n]
  have lead: "\<not> is_cont_byte a"
    using b by (auto simp: utf8_width_def is_cont_byte_def Let_def split: if_splits)
  have "list_all is_cont_byte (take (k - 1) s)"
  proof (cases "k = 1")
    case False
    then obtain c r where r: "s = c # r" "second_ok a c" "continuation 2 (utf8_width a - 2) r = Inr k"
      using n b by (auto split: if_splits list.splits)
    have "utf8_width a - 2 = k - 2" "k \<ge> 2" using False b by auto
    then obtain m where "k = Suc (Suc m)" "utf8_width a - 2 = m" by (metis add_2_eq_Suc le_add_diff_inverse)
    then show ?thesis
      using r second_ok_cont continuation_cont [OF r(3)] by simp
  qed simp
  moreover obtain m where "k = Suc m" using b not0_implies_Suc [of k] by auto
  ultimately show ?thesis using b lead by (simp add: wf_char_def)
qed

lemma utf8_chars_wf_Cons:
  assumes "wf_char c" and "char_aligned s"
  shows "utf8_chars (c @ s) = c # utf8_chars s"
proof -
  obtain a k where c: "c = a # k" "list_all is_cont_byte k" using assms(1) by (cases c) (auto simp: wf_char_def)
  then have "takeWhile is_cont_byte (k @ s) = k" "dropWhile is_cont_byte (k @ s) = s"
    using assms(2) by (auto simp: char_aligned_def list_all_iff takeWhile_append dropWhile_append dropWhile_eq_self_iff)
      (cases s; auto simp: takeWhile_append)+
  then show ?thesis using c by simp
qed

declare next_char.simps(2) [simp del]

section \<open>Validation of a prefix\<close>

lemma continuation_append:
  "continuation d n s = Inr k \<Longrightarrow> continuation d n (s @ b) = Inr k"
  "continuation d n s = Inl (Some e) \<Longrightarrow> continuation d n (s @ b) = Inl (Some e)"
  by (induction d n s rule: continuation.induct) (auto split: if_splits)

lemma next_char_append:
  "next_char (a # s) = Inr k \<Longrightarrow> next_char (a # s @ b) = Inr k"
  "next_char (a # s) = Inl (Some e) \<Longrightarrow> next_char (a # s @ b) = Inl (Some e)"
  by (cases s; auto simp: next_char.simps continuation_append split: if_splits)+

lemma from_utf8_step:
  "next_char (a # s) = Inr k \<Longrightarrow>
     from_utf8 (a # s) = shift_err k (from_utf8 (drop k (a # s)))"
  "next_char (a # s) = Inl e \<Longrightarrow> from_utf8 (a # s) = Some (0, e)"
  by (simp_all add: from_utf8.simps(2))

text \<open>What is valid stays valid; what is invalid stays invalid at the same place.\<close>

lemma continuation_take:
  "continuation d n s = Inr k \<Longrightarrow> n \<le> m \<Longrightarrow> continuation d n (take m s) = Inr k"
proof (induction d n s arbitrary: m rule: continuation.induct)
  case (3 d n c s)
  then show ?case by (cases m) (auto split: if_splits)
qed auto

lemma next_char_take:
  assumes "next_char (a # s) = Inr k" and "k \<le> n"
  shows "next_char (take n (a # s)) = Inr k"
proof -
  note b = next_char_bounds [OF assms(1)]
  then obtain m where n: "n = Suc m" using assms(2) by (cases n) auto
  show ?thesis
  proof (cases "utf8_width a = 1")
    case False
    then obtain c r where r: "s = c # r" "second_ok a c" "continuation 2 (utf8_width a - 2) r = Inr k"
      using assms(1) b by (auto simp: next_char.simps split: if_splits list.splits)
    have "2 \<le> utf8_width a" using b False by auto
    then obtain l where m: "m = Suc l" using b assms(2) n by (cases m) auto
    have "continuation 2 (utf8_width a - 2) (take l r) = Inr k"
      using continuation_take [OF r(3)] b assms(2) n m by simp
    then show ?thesis using r n m False b by (simp add: next_char.simps)
  qed (use assms n in \<open>simp add: next_char.simps\<close>)
qed

lemma from_utf8_cut:
  assumes "next_char (a # s) = Inr k"
  shows "from_utf8 (a # s @ b) = shift_err k (from_utf8 (drop k (a # s) @ b))"
proof -
  have "1 \<le> k" "k \<le> length (a # s)" using next_char_bounds [OF assms] by simp_all
  then have "drop k (a # s @ b) = drop k (a # s) @ b" by (cases k) auto
  then show ?thesis using from_utf8_step(1) [OF next_char_append(1) [OF assms, of b]] by simp
qed

lemma from_utf8_valid_append:
  "from_utf8 x = None \<Longrightarrow> from_utf8 (x @ b) = shift_err (length x) (from_utf8 b)"
proof (induction x rule: from_utf8.induct)
  case 1
  then show ?case by (cases "from_utf8 b") auto
next
  case (2 a s)
  then obtain k where k: "next_char (a # s) = Inr k"
    by (cases "next_char (a # s)") (auto simp: from_utf8_step)
  have "k \<le> Suc (length s)" using next_char_bounds [OF k] by simp
  then show ?case
    using 2 k from_utf8_cut [OF k, of b] by (simp add: from_utf8_step(1) shift_err_shift)
qed

lemma from_utf8_invalid_append:
  "from_utf8 x = Some (n, Some e) \<Longrightarrow> from_utf8 (x @ b) = Some (n, Some e)"
proof (induction x arbitrary: n rule: from_utf8.induct)
  case (2 a s)
  show ?case
  proof (cases "next_char (a # s)")
    case (Inl r)
    then show ?thesis using 2(2) next_char_append(2) [of a s e b] by (simp add: from_utf8_step)
  next
    case (Inr k)
    then show ?thesis using 2 from_utf8_cut [OF Inr, of b] by (auto simp: from_utf8_step(1))
  qed
qed simp

text \<open>An incomplete character at the end is decided by what follows.\<close>

lemma from_utf8_incomplete:
  "from_utf8 x = Some (n, None) \<Longrightarrow>
     n < length x \<and> from_utf8 (take n x) = None
     \<and> from_utf8 (x @ b) = shift_err n (from_utf8 (drop n x @ b))"
proof (induction x arbitrary: n rule: from_utf8.induct)
  case (2 a s)
  show ?case
  proof (cases "next_char (a # s)")
    case (Inl r)
    then show ?thesis using 2(2) by (cases "from_utf8 (a # s @ b)") (auto simp: from_utf8_step)
  next
    case (Inr k)
    note b = next_char_bounds [OF Inr]
    obtain m where m: "from_utf8 (drop k (a # s)) = Some (m, None)" "n = k + m"
      using 2(2) Inr by (auto simp: from_utf8_step(1))
    note ih = 2(1) [OF Inr m(1)]
    have t: "next_char (take n (a # s)) = Inr k" using next_char_take [OF Inr, of n] m(2) by simp
    have "1 \<le> k" using b by simp
    then obtain l where l: "k = Suc l" by (cases k) auto
    have "from_utf8 (take n (a # s)) = shift_err k (from_utf8 (drop k (take n (a # s))))"
      using t m(2) l from_utf8_step(1) [of a "take (n - 1) s" k] by simp
    moreover have "drop k (take n (a # s)) = take m (drop k (a # s))" using m(2) by (simp add: drop_take)
    ultimately have "from_utf8 (take n (a # s)) = None" using ih by simp
    moreover have "n < length (a # s)" "drop n (a # s) = drop m (drop k (a # s))"
      using ih m(2) b by (auto simp: add.commute)
    ultimately show ?thesis
      using ih from_utf8_cut [OF Inr, of b] m(2) by (simp add: shift_err_shift)
  qed
qed simp

section \<open>Text\<close>

definition wf_text :: "str \<Rightarrow> bool" where
  "wf_text s \<longleftrightarrow> list_all wf_char (utf8_chars s)"

lemma valid_utf8_aligned: "valid_utf8 s \<Longrightarrow> char_aligned s"
proof (cases s)
  case (Cons a r)
  assume "valid_utf8 s"
  then obtain k where "next_char (a # r) = Inr k"
    using Cons by (cases "next_char (a # r)") (auto simp: valid_utf8_def from_utf8_step)
  then have "wf_char (take k (a # r))" "1 \<le> k" using next_char_wf next_char_bounds by auto
  then show ?thesis using Cons by (cases k) (auto simp: wf_char_def char_aligned_def)
qed (simp add: char_aligned_def)

lemma valid_utf8_wf_text: "valid_utf8 s \<Longrightarrow> wf_text s"
proof (induction s rule: from_utf8.induct)
  case (2 a s)
  then obtain k where k: "next_char (a # s) = Inr k"
    by (cases "next_char (a # s)") (auto simp: valid_utf8_def from_utf8_step)
  then have v: "valid_utf8 (drop k (a # s))" using 2(2) by (simp add: valid_utf8_def from_utf8_step)
  have "utf8_chars (take k (a # s) @ drop k (a # s)) = take k (a # s) # utf8_chars (drop k (a # s))"
    by (rule utf8_chars_wf_Cons [OF next_char_wf [OF k] valid_utf8_aligned [OF v]])
  then show ?case using 2(1) [OF k v] next_char_wf [OF k] by (simp add: wf_text_def)
qed (simp add: wf_text_def)

definition is_ws_char :: "str \<Rightarrow> bool" where
  "is_ws_char c \<longleftrightarrow> c \<noteq> [] \<and> ws_len c = length c"

lemma wf_char_cases:
  assumes "wf_char c"
  obtains a where "c = [a]" "byte_val a < 128"
  | a b where "c = [a, b]" "is_cont_byte b" "0xC2 \<le> byte_val a" "byte_val a < 0xE0"
  | a b d where "c = [a, b, d]" "is_cont_byte b" "is_cont_byte d" "0xE0 \<le> byte_val a" "byte_val a < 0xF0"
  | a b d e where "c = [a, b, d, e]" "is_cont_byte b" "is_cont_byte d" "is_cont_byte e" "0xF0 \<le> byte_val a"
proof -
  obtain a r where c: "c = a # r" "length c = utf8_width a" "list_all is_cont_byte r"
    using assms by (cases c) (auto simp: wf_char_def)
  have "utf8_width a \<in> {1, 2, 3, 4}"
    using c by (auto simp: utf8_width_def Let_def split: if_splits)
  then consider "utf8_width a = 1" "byte_val a < 128" | "utf8_width a = 2" "0xC2 \<le> byte_val a" "byte_val a < 0xE0"
    | "utf8_width a = 3" "0xE0 \<le> byte_val a" "byte_val a < 0xF0" | "utf8_width a = 4" "0xF0 \<le> byte_val a"
    by (auto simp: utf8_width_def Let_def split: if_splits)
  then show thesis
  proof cases
    case 1
    then show thesis using c that(1) by simp
  next
    case 2
    then obtain b where "r = [b]" using c by (cases r) auto
    then show thesis using 2 c that(2) by simp
  next
    case 3
    then obtain b d where "r = [b, d]" using c by (cases r; cases "tl r") auto
    then show thesis using 3 c that(3) by simp
  next
    case 4
    then obtain b d e where "r = [b, d, e]" using c by (cases r; cases "tl r"; cases "tl (tl r)") auto
    then show thesis using 4 c that(4) by simp
  qed
qed

lemma ws_len_char:
  assumes "wf_char c"
  shows "ws_len (c @ s) = (if is_ws_char c then length c else 0)"
  using assms
proof (cases rule: wf_char_cases)
  case (1 a)
  then show ?thesis
    by (cases "[a] @ s" rule: ws_len.cases) (auto simp: is_ws_char_def is_ws2_def is_ws3_def)
next
  case (2 a b)
  then show ?thesis
    by (cases "[a, b] @ s" rule: ws_len.cases) (auto simp: is_ws_char_def is_ws_byte_def is_ws3_def)
next
  case (3 a b d)
  then show ?thesis by (auto simp: is_ws_char_def is_ws_byte_def is_ws2_def)
next
  case (4 a b d e)
  then show ?thesis by (auto simp: is_ws_char_def is_ws_byte_def is_ws2_def is_ws3_def)
qed

lemma ws_len_rev_char:
  assumes "wf_char c"
  shows "ws_len_rev (rev c @ s) = (if is_ws_char c then length c else 0)"
  using assms
proof (cases rule: wf_char_cases)
  case (1 a)
  then show ?thesis
    by (cases "[a] @ s" rule: ws_len_rev.cases) (auto simp: is_ws_char_def is_ws2_def is_ws3_def)
next
  case (2 a b)
  then show ?thesis
    by (cases "[b, a] @ s" rule: ws_len_rev.cases)
       (auto simp: is_ws_char_def is_ws_byte_def is_ws3_def is_cont_byte_def)
next
  case (3 a b d)
  then show ?thesis by (auto simp: is_ws_char_def is_ws_byte_def is_ws2_def is_cont_byte_def)
next
  case (4 a b d e)
  then show ?thesis by (auto simp: is_ws_char_def is_ws_byte_def is_ws2_def is_ws3_def is_cont_byte_def)
qed

text \<open>Trimming bytes is trimming characters.\<close>

lemma trim_start_chars: "list_all wf_char cs \<Longrightarrow> trim_start (concat cs) = concat (dropWhile is_ws_char cs)"
proof (induction cs)
  case (Cons c cs)
  then have c: "wf_char c" by simp
  then have "c \<noteq> []" by (simp add: wf_char_def)
  then show ?case
    using Cons ws_len_char [OF c, of "concat cs"]
    by (subst trim_start.simps) auto
qed simp

lemma trim_rev_chars:
  "list_all wf_char cs \<Longrightarrow> trim_rev (concat (map rev cs)) = concat (map rev (dropWhile is_ws_char cs))"
proof (induction cs)
  case (Cons c cs)
  then have c: "wf_char c" by simp
  then have "c \<noteq> []" by (simp add: wf_char_def)
  then show ?case
    using Cons ws_len_rev_char [OF c, of "concat (map rev cs)"]
    by (subst trim_rev.simps) auto
qed simp

lemma trim_end_chars:
  assumes "list_all wf_char cs"
  shows "trim_end (concat cs) = concat (rev (dropWhile is_ws_char (rev cs)))"
proof -
  have "rev (concat cs) = concat (map rev (rev cs))" by (simp add: rev_concat rev_map)
  then have "trim_rev (rev (concat cs)) = concat (map rev (dropWhile is_ws_char (rev cs)))"
    using trim_rev_chars [of "rev cs"] assms by (simp add: list_all_iff)
  then show ?thesis by (simp add: trim_end_def rev_concat rev_map)
qed

end
