(* ===== verification/Tool_Sandboxing.thy ===== *)
theory Tool_Sandboxing
  imports Exec_Approval Permission_Transforms Utf8_Text
begin

text \<open>
  What a tool call may do and how it is confined: the choice of a sandbox (\<open>codex-rs/sandboxing/src/manager.rs\<close>), approvals and
  their cache (\<open>core/src/tools/sandboxing.rs\<close>), and the permissions that were granted before (\<open>core/src/tools/handlers/mod.rs\<close>).

  Whether the build is for macOS is the argument \<open>macos\<close>; the text of the Seatbelt profile, the serialisation of keys, the state of
  the session and its answers are arguments.
\<close>

section \<open>The sandbox manager\<close>

datatype sandbox_type = NoSandbox | MacosSeatbelt

definition as_metric_tag :: "sandbox_type \<Rightarrow> str" where
  "as_metric_tag t = (case t of NoSandbox \<Rightarrow> ''none'' | MacosSeatbelt \<Rightarrow> ''seatbelt'')"

datatype sandboxable_preference = PreferAuto | PreferRequire | PreferForbid

definition get_platform_sandbox :: "bool \<Rightarrow> sandbox_type option" where
  "get_platform_sandbox macos = (if macos then Some MacosSeatbelt else None)"

definition with_managed_mitm_ca_readable_root ::
    "('u, 'e) fs_host \<Rightarrow> 'u profile \<Rightarrow> path option \<Rightarrow> path \<Rightarrow> 'u profile option" where
  "with_managed_mitm_ca_readable_root H p bundle_path cwd =
     (case bundle_path of
        None \<Rightarrow> Some p
      | Some bundle \<Rightarrow>
          (case to_runtime_permissions p of (P, n) \<Rightarrow>
             from_runtime_permissions_with_enforcement (profile_enforcement p)
               (with_additional_readable_roots H P cwd [bundle]) n))"

definition should_sandbox :: "('u, 'e) fs_host \<Rightarrow> 'u profile \<Rightarrow> sandboxable_preference \<Rightarrow> bool \<Rightarrow> bool" where
  "should_sandbox H p pref has_managed_network_requirements =
     (case pref of
        PreferForbid \<Rightarrow> False
      | PreferRequire \<Rightarrow> True
      | PreferAuto \<Rightarrow>
          (case to_runtime_permissions p of (P, n) \<Rightarrow>
             should_require_platform_sandbox H P n has_managed_network_requirements))"

definition select_initial :: "bool \<Rightarrow> ('u, 'e) fs_host \<Rightarrow> 'u profile \<Rightarrow> sandboxable_preference \<Rightarrow> bool \<Rightarrow> sandbox_type" where
  "select_initial macos H p pref has_managed_network_requirements =
     (if should_sandbox H p pref has_managed_network_requirements
      then (case get_platform_sandbox macos of Some t \<Rightarrow> t | None \<Rightarrow> NoSandbox)
      else NoSandbox)"

subsection \<open>The command that is launched\<close>

record ('u, 'm) sandbox_command =
  cmd_program :: str
  cmd_args :: "str list"
  cmd_cwd :: 'u
  cmd_env :: "(str \<times> str) list"
  cmd_managed_network :: "'m option"
  cmd_additional_permissions :: "'u additional_permission_profile option"

record ('u, 'x) sandbox_exec_request =
  exec_command :: "str list"
  exec_cwd :: 'u
  exec_sandbox_policy_cwd :: 'u
  exec_env :: "(str \<times> str) list"
  exec_network :: "'x option"
  exec_network_environment_id :: "str option"
  exec_sandbox :: sandbox_type
  exec_permission_profile :: "'u profile"
  exec_arg0 :: "str option"

record ('u, 'm, 'x) sandbox_transform_request =
  tr_command :: "('u, 'm) sandbox_command"
  tr_permissions :: "'u profile"
  tr_sandbox :: sandbox_type
  tr_enforce_managed_network :: bool
  tr_environment_id :: "str option"
  tr_network :: "'x option"
  tr_sandbox_policy_cwd :: 'u

datatype ('u, 'e) sandbox_transform_error =
    InvalidCommandCwd 'u 'e
  | InvalidSandboxPolicyCwd 'u 'e
  | EnvironmentNetworkProxy str
  | SeatbeltPreparation str
  | SeatbeltUnavailable

datatype seatbelt_preparation_error = SeatbeltFileSystem str | SeatbeltNetworkProxy str

record 'u pending_sandboxed_exec_request =
  native_sandbox_policy_cwd :: path
  pending_permission_profile :: "'u profile"

text \<open>\<open>PendingSandboxedExecRequest::new\<close>; \<open>None\<close> is a panic of the conversion of profiles.\<close>

definition pending_new ::
    "('u, 'e) fs_host \<Rightarrow> 'u \<Rightarrow> 'u profile \<Rightarrow> path option \<Rightarrow>
       (('u, 'e) sandbox_transform_error + 'u pending_sandboxed_exec_request) option" where
  "pending_new H sandbox_policy_cwd p bundle_path =
     (case uri_to_abs_path H sandbox_policy_cwd of
        Inl source \<Rightarrow> Some (Inl (InvalidSandboxPolicyCwd sandbox_policy_cwd source))
      | Inr native \<Rightarrow>
          map_option (\<lambda>q. Inr \<lparr>native_sandbox_policy_cwd = native, pending_permission_profile = q\<rparr>)
            (with_managed_mitm_ca_readable_root H p bundle_path native))"

definition os_string_to_command_component :: "(str \<Rightarrow> str) \<Rightarrow> str \<Rightarrow> str" where
  "os_string_to_command_component lossy v = (if valid_utf8 v then v else lossy v)"

definition MACOS_PATH_TO_SEATBELT_EXECUTABLE :: str where
  "MACOS_PATH_TO_SEATBELT_EXECUTABLE = ''/usr/bin/sandbox-exec''"

text \<open>
  \<open>seatbelt\<close> is \<open>create_seatbelt_command_args_with_profile\<close> on macOS and \<open>None\<close> elsewhere; it gets the command, the policy, the
  network policy, the native directory, and the network settings of the request.
\<close>

definition transform_argv ::
    "(str list \<Rightarrow> 'u fs_policy \<Rightarrow> network_sandbox_policy \<Rightarrow> path \<Rightarrow> ('u, 'm, 'x) sandbox_transform_request \<Rightarrow>
        seatbelt_preparation_error + str list) option \<Rightarrow>
     ('u, 'm, 'x) sandbox_transform_request \<Rightarrow> str list \<Rightarrow>
     ('u, 'e) sandbox_transform_error + 'u pending_sandboxed_exec_request \<Rightarrow>
     ('u, 'e) sandbox_transform_error + (str list \<times> 'u pending_sandboxed_exec_request option)" where
  "transform_argv seatbelt req argv pending =
     (case tr_sandbox req of
        NoSandbox \<Rightarrow> Inr (argv, None)
      | MacosSeatbelt \<Rightarrow>
          (case seatbelt of
             None \<Rightarrow> Inl SeatbeltUnavailable
           | Some create \<Rightarrow>
               and_then pending (\<lambda>p.
                 (case to_runtime_permissions (pending_permission_profile p) of (P, n) \<Rightarrow>
                   and_then
                     (map_err (\<lambda>e. case e of SeatbeltFileSystem m \<Rightarrow> SeatbeltPreparation m
                                      | SeatbeltNetworkProxy m \<Rightarrow> EnvironmentNetworkProxy m)
                        (create argv P n (native_sandbox_policy_cwd p) req)) (\<lambda>args.
                     Inr (MACOS_PATH_TO_SEATBELT_EXECUTABLE # args, Some p))))))"

definition sandbox_transform ::
    "('u, 'e) fs_host \<Rightarrow> (str \<Rightarrow> str) \<Rightarrow> ('x \<Rightarrow> path option) \<Rightarrow>
     (str list \<Rightarrow> 'u fs_policy \<Rightarrow> network_sandbox_policy \<Rightarrow> path \<Rightarrow> ('u, 'm, 'x) sandbox_transform_request \<Rightarrow>
        seatbelt_preparation_error + str list) option \<Rightarrow>
     ('u, 'm, 'x) sandbox_transform_request \<Rightarrow>
     (('u, 'e) sandbox_transform_error + ('u, 'x) sandbox_exec_request) option" where
  "sandbox_transform H lossy bundle_path_of seatbelt req =
     (let command = tr_command req
      in case effective_permission_profile (tr_permissions req) (cmd_additional_permissions command) of
           None \<Rightarrow> None
         | Some base \<Rightarrow>
             map_option (\<lambda>pending.
               let argv = map (os_string_to_command_component lossy) (cmd_program command # cmd_args command)
               in and_then (transform_argv seatbelt req argv pending) (\<lambda>(argv, pending).
                    Inr \<lparr>exec_command = argv,
                         exec_cwd = cmd_cwd command,
                         exec_sandbox_policy_cwd = tr_sandbox_policy_cwd req,
                         exec_env = cmd_env command,
                         exec_network = tr_network req,
                         exec_network_environment_id = tr_environment_id req,
                         exec_sandbox = tr_sandbox req,
                         exec_permission_profile =
                           (case pending of None \<Rightarrow> base | Some p \<Rightarrow> pending_permission_profile p),
                         exec_arg0 = None\<rparr>))
               (pending_new H (tr_sandbox_policy_cwd req) base (Option.bind (tr_network req) bundle_path_of)))"

subsection \<open>The policy of older clients\<close>

definition compatibility_workspace_write_policy ::
    "('u, 'e) fs_host \<Rightarrow> 'u fs_policy \<Rightarrow> network_sandbox_policy \<Rightarrow> path \<Rightarrow> sandbox_policy" where
  "compatibility_workspace_write_policy H P n cwd =
     (let cwd_abs = result_ok (abs_from_path H cwd);
          writable_roots = filter (\<lambda>r. cwd_abs \<noteq> Some r) (map wr_root (get_writable_roots_with_cwd H P cwd));
          tmpdir_writable =
            (case host_tmpdir H of
               None \<Rightarrow> False
             | Some d \<Rightarrow>
                 if d = [] then False
                 else (case result_ok (abs_from_path H (path_components d)) of
                         None \<Rightarrow> False
                       | Some t \<Rightarrow> can_write_path_with_cwd H P t cwd));
          slash_tmp = path_components ''/tmp'';
          slash_tmp_writable =
            (is_absolute slash_tmp \<and> host_is_dir H slash_tmp \<and> can_write_path_with_cwd H P slash_tmp cwd)
      in WorkspaceWrite writable_roots (network_is_enabled n) (\<not> tmpdir_writable) (\<not> slash_tmp_writable))"

definition compatibility_sandbox_policy_for_permission_profile ::
    "('u, 'e) fs_host \<Rightarrow> 'u profile \<Rightarrow> path \<Rightarrow> sandbox_policy" where
  "compatibility_sandbox_policy_for_permission_profile H p cwd =
     (case profile_to_legacy_sandbox_policy H p cwd of
        Inr s \<Rightarrow> s
      | Inl _ \<Rightarrow> (case to_runtime_permissions p of (P, n) \<Rightarrow> compatibility_workspace_write_policy H P n cwd))"

section \<open>Approvals\<close>

datatype ('n) review_decision =
    Approved
  | ApprovedExecpolicyAmendment amendment
  | ApprovedForSession
  | ApprovedMcpPolicyAmendment
  | NetworkPolicyAmendment 'n
  | Denied (rejection: str)
  | TimedOut
  | Abort

text \<open>The cache maps the serialised key to the decision; a key that cannot be serialised is never stored or found.\<close>

type_synonym 'n approval_store = "str \<rightharpoonup> 'n review_decision"

definition store_get :: "('k \<Rightarrow> str option) \<Rightarrow> 'n approval_store \<Rightarrow> 'k \<Rightarrow> 'n review_decision option" where
  "store_get json store key = Option.bind (json key) store"

definition store_put :: "('k \<Rightarrow> str option) \<Rightarrow> 'k \<Rightarrow> 'n review_decision \<Rightarrow> 'n approval_store \<Rightarrow> 'n approval_store" where
  "store_put json key v store = (case json key of Some s \<Rightarrow> store(s \<mapsto> v) | None \<Rightarrow> store)"

text \<open>\<open>fetch\<close> asks, on the state of the session; the lock of the store is not held while it does.\<close>

definition with_cached_approval ::
    "('k \<Rightarrow> str option) \<Rightarrow> 'k list \<Rightarrow> ('n approval_store \<times> 's \<Rightarrow> ('n approval_store \<times> 's) \<times> 'n review_decision) \<Rightarrow>
       'n approval_store \<times> 's \<Rightarrow> ('n approval_store \<times> 's) \<times> 'n review_decision" where
  "with_cached_approval json keys fetch st =
     (if keys = [] then fetch st
      else if list_all (\<lambda>k. store_get json (fst st) k = Some ApprovedForSession) keys
      then (st, ApprovedForSession)
      else
        (let (st1, decision) = fetch st
         in if decision = ApprovedForSession
            then ((foldl (\<lambda>store k. store_put json k ApprovedForSession store) (fst st1) keys, snd st1), decision)
            else (st1, decision)))"

definition default_exec_approval_requirement :: "ask_for_approval \<Rightarrow> 'e fs_sandbox_policy \<Rightarrow> exec_approval_requirement" where
  "default_exec_approval_requirement policy P =
     (let needs_approval =
            (case policy of
               Never \<Rightarrow> False
             | OnRequest \<Rightarrow> fs_kind P = FsRestricted
             | Granular _ \<Rightarrow> fs_kind P = FsRestricted
             | UnlessTrusted \<Rightarrow> True)
      in if needs_approval \<and> (case policy of Granular g \<Rightarrow> \<not> sandbox_approval g | _ \<Rightarrow> False)
         then Refuse ''approval policy disallowed sandbox approval prompt''
         else if needs_approval then NeedsApproval None None
         else Skip False None)"

definition requires_escalated_permissions :: "sandbox_permissions \<Rightarrow> bool" where
  "requires_escalated_permissions p \<longleftrightarrow> p = RequireEscalated"

definition uses_additional_permissions :: "sandbox_permissions \<Rightarrow> bool" where
  "uses_additional_permissions p \<longleftrightarrow> p = WithAdditionalPermissions"

datatype sandbox_override = NoOverride | BypassSandboxFirstAttempt

definition unsandboxed_execution_allowed :: "'u fs_policy \<Rightarrow> bool" where
  "unsandboxed_execution_allowed P \<longleftrightarrow> \<not> has_denied_read_restrictions P"

definition sandbox_override_for_first_attempt ::
    "sandbox_permissions \<Rightarrow> exec_approval_requirement \<Rightarrow> 'u fs_policy \<Rightarrow> sandbox_override" where
  "sandbox_override_for_first_attempt sp requirement P =
     (if \<not> unsandboxed_execution_allowed P then NoOverride
      else if (case requirement of Skip b _ \<Rightarrow> b | _ \<Rightarrow> False) then BypassSandboxFirstAttempt
      else if requires_escalated_permissions sp then BypassSandboxFirstAttempt
      else NoOverride)"

definition sandbox_permissions_preserving_denied_reads :: "sandbox_permissions \<Rightarrow> 'u fs_policy \<Rightarrow> sandbox_permissions" where
  "sandbox_permissions_preserving_denied_reads sp P =
     (if requires_escalated_permissions sp \<and> \<not> unsandboxed_execution_allowed P then UseDefault else sp)"

definition managed_network_for_sandbox_permissions :: "'x option \<Rightarrow> sandbox_permissions \<Rightarrow> 'x option" where
  "managed_network_for_sandbox_permissions network sp =
     (if requires_escalated_permissions sp then None else network)"

section \<open>Permissions granted before\<close>

definition resolve_sandbox_permissions :: "sandbox_permissions option \<Rightarrow> str option \<Rightarrow> str + sandbox_permissions" where
  "resolve_sandbox_permissions sp why =
     (if why \<noteq> None \<and> sp = None
      then Inl (''`justification` requires an explicit `sandbox_permissions`; use `sandbox_permissions: '' @ [CHR 0x22]
        @ ''require_escalated'' @ [CHR 0x22] @ ''` for unsandboxed execution, or omit `justification`.'')
      else Inr (case sp of Some p \<Rightarrow> p | None \<Rightarrow> UseDefault))"

text \<open>\<open>show\<close> prints the approval policy.\<close>

definition normalize_and_validate_additional_permissions ::
    "('u, 'e) fs_host \<Rightarrow> (ask_for_approval \<Rightarrow> str) \<Rightarrow> bool \<Rightarrow> ask_for_approval \<Rightarrow> sandbox_permissions \<Rightarrow>
       'u additional_permission_profile option \<Rightarrow> bool \<Rightarrow> str + 'u additional_permission_profile option" where
  "normalize_and_validate_additional_permissions H show_policy allowed policy sp additional preapproved =
     (let uses = (sp = WithAdditionalPermissions)
      in if \<not> preapproved \<and> \<not> allowed \<and> (uses \<or> additional \<noteq> None)
         then Inl ''additional permissions are disabled; enable `features.exec_permission_approvals` before using `with_additional_permissions`''
         else if uses then
           (if \<not> preapproved \<and> policy \<noteq> OnRequest
            then Inl (''approval policy is '' @ show_policy policy @ ''; reject command '' @ map char_of [0xE2 :: nat, 0x80, 0x94]
              @ '' you cannot request additional permissions unless the approval policy is OnRequest'')
            else
              (case additional of
                 None \<Rightarrow> Inl ''missing `additional_permissions`; provide at least one of `network` or `file_system` when using `with_additional_permissions`''
               | Some a \<Rightarrow>
                   and_then (normalize_additional_permissions H a) (\<lambda>normalized.
                     if additional_is_empty normalized
                     then Inl ''`additional_permissions` must include at least one requested permission in `network` or `file_system`''
                     else Inr (Some normalized))))
         else if additional \<noteq> None
         then Inl ''`additional_permissions` requires `sandbox_permissions` set to `with_additional_permissions`''
         else Inr None)"

record 'u effective_additional_permissions =
  eff_sandbox_permissions :: sandbox_permissions
  eff_additional_permissions :: "'u additional_permission_profile option"
  eff_permissions_preapproved :: bool

definition implicit_granted_permissions ::
    "sandbox_permissions \<Rightarrow> 'u additional_permission_profile option \<Rightarrow> 'u effective_additional_permissions \<Rightarrow>
       'u additional_permission_profile option" where
  "implicit_granted_permissions sp additional eff =
     (if \<not> uses_additional_permissions sp \<and> sp \<noteq> RequireEscalated \<and> additional = None
      then eff_additional_permissions eff else None)"

definition preapproved_permission_profile ::
    "('u, 'e) fs_host \<Rightarrow> 'u additional_permission_profile \<Rightarrow> 'u additional_permission_profile \<Rightarrow> path \<Rightarrow>
       'u additional_permission_profile option" where
  "preapproved_permission_profile H effective granted cwd =
     (case (materialize_additional_permissions H effective cwd, materialize_additional_permissions H granted cwd) of
        (Inr e, Inr g) \<Rightarrow>
          if add_network e \<noteq> add_network g then None
          else
            (let unchanged =
                   (case (add_file_system e, add_file_system g) of
                      (Some ef, Some gf) \<Rightarrow>
                        perm_glob_scan_max_depth ef = perm_glob_scan_max_depth gf
                        \<and> length (perm_entries ef) = length (perm_entries gf)
                        \<and> list_all (\<lambda>x. x \<in> set (perm_entries gf)) (perm_entries ef)
                    | (None, None) \<Rightarrow> True
                    | _ \<Rightarrow> False)
             in if unchanged then Some granted else None)
      | _ \<Rightarrow> None)"

text \<open>\<open>session\<close> and \<open>turn\<close> are the permissions granted for the session and for the turn.\<close>

definition apply_granted_turn_permissions ::
    "('u, 'e) fs_host \<Rightarrow> 'u additional_permission_profile option \<Rightarrow> 'u additional_permission_profile option \<Rightarrow> path \<Rightarrow>
       sandbox_permissions \<Rightarrow> 'u additional_permission_profile option \<Rightarrow> 'u effective_additional_permissions" where
  "apply_granted_turn_permissions H session turn cwd sp additional =
     (if sp = RequireEscalated
      then \<lparr>eff_sandbox_permissions = sp, eff_additional_permissions = additional, eff_permissions_preapproved = False\<rparr>
      else
        (let granted = merge_additional_profiles session turn;
             effective = merge_additional_profiles additional granted;
             preapproved =
               Option.bind granted (\<lambda>g.
                 if additional = None then Some g
                 else Option.bind effective (\<lambda>e. preapproved_permission_profile H e g cwd));
             effective = (case preapproved of Some p \<Rightarrow> Some p | None \<Rightarrow> effective)
         in \<lparr>eff_sandbox_permissions =
               (if effective \<noteq> None \<and> \<not> uses_additional_permissions sp then WithAdditionalPermissions else sp),
             eff_additional_permissions = effective,
             eff_permissions_preapproved = (preapproved \<noteq> None)\<rparr>))"

section \<open>Properties\<close>

definition permission_entries :: "'u additional_permission_profile \<Rightarrow> 'u fs_entry list" where
  "permission_entries p = (case add_file_system p of None \<Rightarrow> [] | Some fs \<Rightarrow> perm_entries fs)"

text \<open>An entry as it is compared: relative to the directory of the call, with a normalised path.\<close>

definition canonical_entry :: "('u, 'e) fs_host \<Rightarrow> path \<Rightarrow> 'u fs_entry \<Rightarrow> 'u fs_entry" where
  "canonical_entry H cwd e =
     (let e' = materialize_cwd_dependent_entry H e cwd in e'\<lparr>entry_path := normalize_permission_path H (entry_path e')\<rparr>)"

lemma normalize_loop_set:
  assumes "normalize_entries_loop H acc es = Inr r"
  shows "set r = set acc \<union> (\<lambda>e. e\<lparr>entry_path := normalize_permission_path H (entry_path e)\<rparr>) ` set es"
  using assms
proof (induction es arbitrary: acc)
  case (Cons e es)
  let ?n = "e\<lparr>entry_path := normalize_permission_path H (entry_path e)\<rparr>"
  have "normalize_entries_loop H (if ?n \<in> set acc then acc else acc @ [?n]) es = Inr r"
    using Cons.prems by (auto simp: Let_def split: if_splits)
  from Cons.IH [OF this] show ?case by auto
qed simp

lemma materialized_entries:
  assumes "materialize_additional_permissions H p cwd = Inr q"
  shows "set (permission_entries q) = canonical_entry H cwd ` set (permission_entries p)"
proof (cases "add_file_system p")
  case None
  then show ?thesis
    using assms by (auto simp: materialize_additional_permissions_def normalize_additional_permissions_def permission_entries_def Let_def)
next
  case (Some fs)
  let ?es = "map (\<lambda>e. materialize_cwd_dependent_entry H e cwd) (perm_entries fs)"
  obtain r where r: "normalize_entries_loop H [] ?es = Inr r"
    "add_file_system q = (if r = [] then None
       else Some \<lparr>perm_entries = r, perm_glob_scan_max_depth = perm_glob_scan_max_depth fs\<rparr>)"
    using assms Some
    by (auto simp: materialize_additional_permissions_def normalize_additional_permissions_def Let_def and_then_Inr_iff)
  have "set (permission_entries q) = set r" using r(2) by (simp add: permission_entries_def)
  then show ?thesis
    using normalize_loop_set [OF r(1)] Some by (simp add: permission_entries_def canonical_entry_def Let_def image_image)
qed

lemma push_missing_Nil_iff: "push_missing_entries [] xs = [] \<longleftrightarrow> xs = []"
  using set_push_missing [of "[]" xs] by (metis set_empty sup_bot_left)

lemma merged_entries:
  assumes "merge_additional_profiles (Some a) (Some g) = Some e"
  shows "set (permission_entries a) \<subseteq> set (permission_entries e)"
    "network_on (add_network a) \<Longrightarrow> network_on (add_network e)"
  using assms
  by (auto simp: merge_additional_profiles_def Let_def permission_entries_def merge_permission_entries_def network_on_def
      fs_permissions_is_empty_def set_push_missing push_missing_Nil_iff split: option.splits if_splits)

lemma materialized_network:
  assumes "materialize_additional_permissions H p cwd = Inr q"
  shows "network_on (add_network q) \<longleftrightarrow> network_on (add_network p)"
  using assms
  by (auto simp: materialize_additional_permissions_def normalize_additional_permissions_def Let_def and_then_Inr_iff
      network_on_def network_permissions_is_empty_def split: option.splits if_splits)

lemma preapproved_covers:
  assumes "preapproved_permission_profile H e g cwd = Some q"
  shows "q = g" "canonical_entry H cwd ` set (permission_entries e) \<subseteq> canonical_entry H cwd ` set (permission_entries g)"
    "network_on (add_network e) \<Longrightarrow> network_on (add_network g)"
proof -
  obtain e' g' where m: "materialize_additional_permissions H e cwd = Inr e'" "materialize_additional_permissions H g cwd = Inr g'"
    using assms by (auto simp: preapproved_permission_profile_def split: sum.splits)
  have same: "q = g" "add_network e' = add_network g'" "set (permission_entries e') \<subseteq> set (permission_entries g')"
    using assms m
    by (auto simp: preapproved_permission_profile_def Let_def permission_entries_def list_all_iff split: option.splits if_splits)
  show "q = g" by (rule same(1))
  show "canonical_entry H cwd ` set (permission_entries e) \<subseteq> canonical_entry H cwd ` set (permission_entries g)"
    using same(3) by (simp add: materialized_entries [OF m(1)] materialized_entries [OF m(2)])
  show "network_on (add_network g)" if "network_on (add_network e)"
    using same(2) that materialized_network [OF m(1)] materialized_network [OF m(2)] by simp
qed

text \<open>
  C14: a request that counts as approved before runs with the stored authority and asks for no more.  Its permissions are exactly
  those granted for the session and the turn, and every entry that the request names, relative to its directory, and its access to the
  network are among them.
\<close>

theorem preapproved_requests_stay_within_grant:
  assumes "eff_permissions_preapproved (apply_granted_turn_permissions H session turn cwd sp additional)"
  shows "\<exists>g. merge_additional_profiles session turn = Some g
    \<and> eff_additional_permissions (apply_granted_turn_permissions H session turn cwd sp additional) = Some g
    \<and> (\<forall>a. additional = Some a \<longrightarrow>
         canonical_entry H cwd ` set (permission_entries a) \<subseteq> canonical_entry H cwd ` set (permission_entries g)
       \<and> (network_on (add_network a) \<longrightarrow> network_on (add_network g)))"
proof -
  obtain g where g: "merge_additional_profiles session turn = Some g"
    using assms by (auto simp: apply_granted_turn_permissions_def Let_def split: if_splits bind_splits)
  show ?thesis
  proof (cases additional)
    case None
    then show ?thesis using assms g by (auto simp: apply_granted_turn_permissions_def Let_def split: if_splits)
  next
    case (Some a)
    obtain e q where e: "merge_additional_profiles (Some a) (Some g) = Some e" "preapproved_permission_profile H e g cwd = Some q"
      using assms g Some by (auto simp: apply_granted_turn_permissions_def Let_def split: if_splits bind_splits)
    have "eff_additional_permissions (apply_granted_turn_permissions H session turn cwd sp additional) = Some g"
      using assms g Some e preapproved_covers(1) [OF e(2)] by (auto simp: apply_granted_turn_permissions_def Let_def split: if_splits)
    moreover have "canonical_entry H cwd ` set (permission_entries a) \<subseteq> canonical_entry H cwd ` set (permission_entries g)"
      using merged_entries(1) [OF e(1)] preapproved_covers(2) [OF e(2)] by blast
    ultimately show ?thesis
      using g Some merged_entries(2) [OF e(1)] preapproved_covers(3) [OF e(2)] by blast
  qed
qed

definition grant_w :: "path additional_permission_profile" where
  "grant_w = \<lparr>add_network = None,
     add_file_system = Some \<lparr>perm_entries = [entry_new (PathEntry (abs_names [''w''])) Write], perm_glob_scan_max_depth = None\<rparr>\<rparr>"

theorem preapproved_requests_stay_within_grant_witness:
  "eff_additional_permissions
     (apply_granted_turn_permissions plain_host (Some grant_w) None (abs_names [''w'']) WithAdditionalPermissions (Some grant_w))
   = Some grant_w"
proof -
  have "eff_permissions_preapproved
      (apply_granted_turn_permissions plain_host (Some grant_w) None (abs_names [''w'']) WithAdditionalPermissions (Some grant_w))"
    "merge_additional_profiles (Some grant_w) None = Some grant_w" by code_simp+
  then show ?thesis using preapproved_requests_stay_within_grant by (metis option.inject)
qed

text \<open>An approval for the session is remembered for every key and asks no more about them.\<close>

lemma store_put_get:
  "store_get json (foldl (\<lambda>store k. store_put json k ApprovedForSession store) store keys) k =
     (if json k \<noteq> None \<and> json k \<in> json ` set keys then Some ApprovedForSession else store_get json store k)"
proof (induction keys arbitrary: store)
  case (Cons x keys)
  have "store_get json (store_put json x ApprovedForSession store) k =
      (if json k \<noteq> None \<and> json k = json x then Some ApprovedForSession else store_get json store k)"
    by (cases "json x"; cases "json k") (auto simp: store_get_def store_put_def)
  then show ?case by (simp add: Cons.IH) auto
qed (auto simp: store_get_def)

lemma session_approval_is_remembered:
  assumes "with_cached_approval json keys fetch st = (st', ApprovedForSession)" and "keys \<noteq> []"
    and "\<forall>k \<in> set keys. json k \<noteq> None" and "set keys2 \<subseteq> set keys" and "keys2 \<noteq> []"
  shows "with_cached_approval json keys2 fetch' st' = (st', ApprovedForSession)"
proof -
  have "store_get json (fst st') k = Some ApprovedForSession" if "k \<in> set keys" for k
    using assms(1,2,3) that
    by (auto simp: with_cached_approval_def Let_def list_all_iff store_put_get split: if_splits prod.splits)
  then show ?thesis using assms(4,5) by (auto simp: with_cached_approval_def list_all_iff subset_iff)
qed

end
