(* ===== verification/Network_Types.thy ===== *)
theory Network_Types
  imports Main
begin

text \<open>
  The decisions of the network proxy that other parts of the runtime receive
  (\<open>NetworkPolicyDecision\<close> and \<open>NetworkDecisionSource\<close> of \<open>codex-rs/network-proxy/src/network_policy.rs\<close>).
\<close>

datatype network_policy_decision = NetDeny | NetAsk

datatype network_decision_source = BaselinePolicy | ModeGuard | ProxyState | Decider

end
