(* ===== verification/Tool_Orchestrator.thy ===== *)
theory Tool_Orchestrator
  imports Tool_Sandboxing Network_Types
begin

text \<open>
  The run of one tool call (\<open>codex-rs/core/src/tools/orchestrator.rs\<close>): approval, choice of the sandbox, first attempt, and a
  second attempt after the sandbox denied the first.

  A tool is the record of what the traits \<open>Approvable\<close>, \<open>Sandboxable\<close> and \<open>ToolRuntime\<close> give for one request.  The session is a
  state \<open>'s\<close> with the effects of the record \<open>tool_effects\<close>: asking for an approval, running one attempt, and beginning
  and finishing the approval of network access.  Telemetry and durations are left out.
\<close>

section \<open>Errors and decisions on network access\<close>

record 'p network_policy_decision_payload =
  npd_decision :: network_policy_decision
  npd_source :: network_decision_source
  npd_protocol :: "'p option"
  npd_host :: "str option"
  npd_reason :: "str option"
  npd_port :: "nat option"

definition is_ask_from_decider :: "'p network_policy_decision_payload \<Rightarrow> bool" where
  "is_ask_from_decider p \<longleftrightarrow> npd_decision p = NetAsk \<and> npd_source p = Decider"

record 'p network_approval_context =
  nac_host :: str
  nac_protocol :: 'p

definition network_approval_context_from_payload ::
    "'p network_policy_decision_payload \<Rightarrow> 'p network_approval_context option" where
  "network_approval_context_from_payload payload =
     (if \<not> is_ask_from_decider payload then None
      else
        Option.bind (npd_protocol payload) (\<lambda>protocol.
          Option.bind (map_option trim (npd_host payload)) (\<lambda>host.
            if host = [] then None else Some \<lparr>nac_host = host, nac_protocol = protocol\<rparr>)))"

text \<open>The errors of a tool; of the sandbox errors the code tells apart denials, time-outs and signals.\<close>

datatype ('o, 'p, 'c) tool_error =
    ToolRejected str
  | SandboxDenied 'o "'p network_policy_decision_payload option"
  | SandboxTimeout 'o
  | SandboxSignal int
  | CodexOther 'c

fun sandbox_outcome_from_tool_error :: "('o, 'p, 'c) tool_error \<Rightarrow> str option" where
  "sandbox_outcome_from_tool_error (SandboxDenied _ _) = Some ''denied''"
| "sandbox_outcome_from_tool_error (SandboxTimeout _) = Some ''timed_out''"
| "sandbox_outcome_from_tool_error (SandboxSignal _) = Some ''signal''"
| "sandbox_outcome_from_tool_error (CodexOther _) = None"
| "sandbox_outcome_from_tool_error (ToolRejected _) = None"

definition build_denial_reason_from_output :: "'o \<Rightarrow> str" where
  "build_denial_reason_from_output _ = ''command failed; retry without sandbox?''"

section \<open>Tools and their effects\<close>

record ('u, 'a) tool_runtime =
  tool_permission_profile :: "'u profile"
  tool_profile_with_workspace_roots :: "'u profile"
  tool_executor_managed :: bool
  tool_exec_approval_requirement :: "exec_approval_requirement option"
  tool_sandbox_permissions :: sandbox_permissions
  tool_preference :: sandboxable_preference
  tool_escalate_on_failure :: bool
  tool_wants_no_sandbox_approval :: "ask_for_approval \<Rightarrow> bool"
  tool_approval_action :: "str + 'a"
  tool_cwd :: 'u

text \<open>The defaults of the trait \<open>Approvable\<close>; no tool overrides \<open>should_bypass_approval\<close>.\<close>

definition should_bypass_approval :: "ask_for_approval \<Rightarrow> bool \<Rightarrow> bool" where
  "should_bypass_approval policy already_approved = (if already_approved then True else policy = Never)"

definition wants_no_sandbox_approval_default :: "ask_for_approval \<Rightarrow> bool" where
  "wants_no_sandbox_approval_default policy =
     (case policy of
        UnlessTrusted \<Rightarrow> True
      | Never \<Rightarrow> False
      | OnRequest \<Rightarrow> False
      | Granular g \<Rightarrow> sandbox_approval g)"

record 'p approval_context =
  ctx_strict_auto_review :: bool
  ctx_approval_reason :: "str option"
  ctx_retry_reason :: "str option"
  ctx_network_approval_context :: "'p network_approval_context option"

record ('u, 'x) sandbox_attempt =
  att_sandbox :: sandbox_type
  att_sandbox_requested :: bool
  att_permissions :: "'u profile"
  att_exec_server_permissions :: "'u profile"
  att_enforce_managed_network :: bool
  att_sandbox_cwd :: 'u
  att_network_approval :: "'x option"

datatype network_approval_mode = Immediate | Deferred

record ('s, 'u, 'a, 'x, 'y, 'o, 'p, 'c, 'out) tool_effects =
  do_request_approval :: "'a \<Rightarrow> 'p approval_context \<Rightarrow> 's \<Rightarrow> 's \<times> (('o, 'p, 'c) tool_error + unit)"
  do_run :: "('u, 'x) sandbox_attempt \<Rightarrow> 's \<Rightarrow> 's \<times> (('o, 'p, 'c) tool_error + 'out)"
  do_begin_network :: "bool \<Rightarrow> 's \<Rightarrow> 's \<times> (('o, 'p, 'c) tool_error + 'x option)"
  network_mode :: "'x \<Rightarrow> network_approval_mode"
  do_finish_immediate :: "'x \<Rightarrow> 's \<Rightarrow> 's \<times> (('o, 'p, 'c) tool_error + unit)"
  into_deferred :: "'x \<Rightarrow> 'y option"
  do_finish_deferred :: "'y option \<Rightarrow> 's \<Rightarrow> 's \<times> (('o, 'p, 'c) tool_error + unit)"

section \<open>One attempt\<close>

text \<open>The result carries the network approval that is still open.\<close>

definition run_attempt ::
    "('s, 'u, 'a, 'x, 'y, 'o, 'p, 'c, 'out) tool_effects \<Rightarrow> ('u, 'x) sandbox_attempt \<Rightarrow> bool \<Rightarrow> 's \<Rightarrow>
       's \<times> (('o, 'p, 'c) tool_error + 'out) \<times> 'y option" where
  "run_attempt E attempt managed_network_active s =
     (case do_begin_network E managed_network_active s of
        (s1, Inl err) \<Rightarrow> (s1, Inl err, None)
      | (s1, Inr network_approval) \<Rightarrow>
          (case do_run E (attempt\<lparr>att_network_approval := network_approval\<rparr>) s1 of
             (s2, run_result) \<Rightarrow>
               (case network_approval of
                  None \<Rightarrow> (s2, run_result, None)
                | Some x \<Rightarrow>
                    (case network_mode E x of
                       Immediate \<Rightarrow>
                         (case do_finish_immediate E x s2 of
                            (s3, Inl err) \<Rightarrow> (s3, Inl err, None)
                          | (s3, Inr _) \<Rightarrow> (s3, run_result, None))
                     | Deferred \<Rightarrow>
                         (case run_result of
                            Inl _ \<Rightarrow>
                              (case do_finish_immediate E x s2 of
                                 (s3, Inl err) \<Rightarrow> (s3, Inl err, None)
                               | (s3, Inr _) \<Rightarrow> (s3, run_result, None))
                          | Inr _ \<Rightarrow> (s2, run_result, into_deferred E x))))))"

section \<open>The run\<close>

definition request_tool_approval ::
    "('s, 'u, 'a, 'x, 'y, 'o, 'p, 'c, 'out) tool_effects \<Rightarrow> ('u, 'a) tool_runtime \<Rightarrow> 'p approval_context \<Rightarrow> 's \<Rightarrow>
       's \<times> (('o, 'p, 'c) tool_error + unit)" where
  "request_tool_approval E tool ctx s =
     (case tool_approval_action tool of
        Inl err \<Rightarrow> (s, Inl (ToolRejected (''could not prepare approval action: '' @ err)))
      | Inr action \<Rightarrow> do_request_approval E action ctx s)"

text \<open>Approval before the first attempt: whether the call has been approved.\<close>

definition first_approval ::
    "('s, 'u, 'a, 'x, 'y, 'o, 'p, 'c, 'out) tool_effects \<Rightarrow> ('u, 'a) tool_runtime \<Rightarrow> bool \<Rightarrow> exec_approval_requirement \<Rightarrow> 's \<Rightarrow>
       's \<times> (('o, 'p, 'c) tool_error + bool)" where
  "first_approval E tool strict_auto_review requirement s =
     (let ask = (\<lambda>reason.
            case request_tool_approval E tool
                   \<lparr>ctx_strict_auto_review = strict_auto_review, ctx_approval_reason = reason, ctx_retry_reason = None,
                    ctx_network_approval_context = None\<rparr> s of
              (s1, Inl e) \<Rightarrow> (s1, Inl e)
            | (s1, Inr _) \<Rightarrow> (s1, Inr True))
      in case requirement of
           Skip _ _ \<Rightarrow> if strict_auto_review then ask None else (s, Inr False)
         | Refuse reason \<Rightarrow> (s, Inl (ToolRejected reason))
         | NeedsApproval reason _ \<Rightarrow> ask reason)"

definition tool_permissions :: "('u, 'a) tool_runtime \<Rightarrow> 'u profile" where
  "tool_permissions tool =
     (if tool_executor_managed tool then tool_permission_profile tool else tool_profile_with_workspace_roots tool)"

definition tool_requirement :: "('u, 'a) tool_runtime \<Rightarrow> ask_for_approval \<Rightarrow> exec_approval_requirement" where
  "tool_requirement tool policy =
     (case tool_exec_approval_requirement tool of
        Some r \<Rightarrow> r
      | None \<Rightarrow> default_exec_approval_requirement policy (file_system_sandbox_policy (tool_permissions tool)))"

definition make_attempt ::
    "bool \<Rightarrow> ('u, 'e) fs_host \<Rightarrow> ('u, 'a) tool_runtime \<Rightarrow> bool \<Rightarrow> bool \<Rightarrow> ('u, 'x) sandbox_attempt" where
  "make_attempt macos H tool managed_network_active requested =
     \<lparr>att_sandbox = (if requested \<and> \<not> tool_executor_managed tool
        then select_initial macos H (tool_permissions tool) (tool_preference tool) managed_network_active else NoSandbox),
      att_sandbox_requested = requested,
      att_permissions = tool_permissions tool,
      att_exec_server_permissions = tool_permission_profile tool,
      att_enforce_managed_network = managed_network_active,
      att_sandbox_cwd = tool_cwd tool,
      att_network_approval = None\<rparr>"

definition first_sandbox_requested ::
    "('u, 'e) fs_host \<Rightarrow> ('u, 'a) tool_runtime \<Rightarrow> exec_approval_requirement \<Rightarrow> bool \<Rightarrow> bool" where
  "first_sandbox_requested H tool requirement managed_network_active =
     (case sandbox_override_for_first_attempt (tool_sandbox_permissions tool) requirement
             (file_system_sandbox_policy (tool_permissions tool)) of
        BypassSandboxFirstAttempt \<Rightarrow> False
      | NoOverride \<Rightarrow> should_sandbox H (tool_permissions tool) (tool_preference tool) managed_network_active)"

definition retry_sandbox_requested :: "('u, 'e) fs_host \<Rightarrow> ('u, 'a) tool_runtime \<Rightarrow> bool \<Rightarrow> bool" where
  "retry_sandbox_requested H tool managed_network_active \<longleftrightarrow>
     \<not> unsandboxed_execution_allowed (file_system_sandbox_policy (tool_permissions tool))
     \<and> should_sandbox H (tool_permissions tool) (tool_preference tool) managed_network_active"

text \<open>Whether a denied attempt is tried again; \<open>nac\<close> is the network approval that the denial asks for.\<close>

definition may_retry ::
    "('u, 'a) tool_runtime \<Rightarrow> ask_for_approval \<Rightarrow> bool \<Rightarrow> 'p network_approval_context option \<Rightarrow> bool" where
  "may_retry tool policy has_network_decision nac =
     (let P = file_system_sandbox_policy (tool_permissions tool)
      in if has_network_decision \<and> nac = None then False
         else if \<not> tool_escalate_on_failure tool then False
         else if \<not> tool_wants_no_sandbox_approval tool policy
              \<and> \<not> (policy = OnRequest \<and> nac \<noteq> None
                    \<and> (case default_exec_approval_requirement policy P of NeedsApproval _ _ \<Rightarrow> True | _ \<Rightarrow> False))
         then False
         else if \<not> unsandboxed_execution_allowed P \<and> nac = None then False
         else True)"

definition retry_approval ::
    "('s, 'u, 'a, 'x, 'y, 'o, 'p, 'c, 'out) tool_effects \<Rightarrow> ('u, 'a) tool_runtime \<Rightarrow> ask_for_approval \<Rightarrow> bool \<Rightarrow>
       exec_approval_requirement \<Rightarrow> bool \<Rightarrow> 'o \<Rightarrow> 'p network_approval_context option \<Rightarrow> 's \<Rightarrow>
       's \<times> (('o, 'p, 'c) tool_error + unit)" where
  "retry_approval E tool policy strict_auto_review requirement already_approved output nac s =
     (let retry_reason =
            (case nac of
               Some n \<Rightarrow> ''Network access to '' @ [CHR 0x22] @ nac_host n @ [CHR 0x22] @ '' is blocked by policy.''
             | None \<Rightarrow> build_denial_reason_from_output output);
          bypass = (\<not> strict_auto_review \<and> should_bypass_approval policy already_approved \<and> nac = None)
      in if bypass then (s, Inr ())
         else request_tool_approval E tool
                \<lparr>ctx_strict_auto_review = strict_auto_review,
                 ctx_approval_reason = (case requirement of NeedsApproval reason _ \<Rightarrow> reason | _ \<Rightarrow> None),
                 ctx_retry_reason = Some retry_reason,
                 ctx_network_approval_context = nac\<rparr> s)"

text \<open>After a denial of the sandbox.\<close>

definition orchestrator_retry ::
    "bool \<Rightarrow> ('u, 'e) fs_host \<Rightarrow> ('s, 'u, 'a, 'x, 'y, 'o, 'p, 'c, 'out) tool_effects \<Rightarrow> ('u, 'a) tool_runtime \<Rightarrow>
       ask_for_approval \<Rightarrow> bool \<Rightarrow> bool \<Rightarrow> bool \<Rightarrow> 'o \<Rightarrow> 'p network_policy_decision_payload option \<Rightarrow> 's \<Rightarrow>
       's \<times> (('o, 'p, 'c) tool_error + 'out \<times> 'y option)" where
  "orchestrator_retry macos H E tool policy strict_auto_review managed_network_active already_approved output decision s =
     (let nac = (if managed_network_active then Option.bind decision network_approval_context_from_payload else None)
      in if \<not> may_retry tool policy (decision \<noteq> None) nac then (s, Inl (SandboxDenied output decision))
         else
           (case retry_approval E tool policy strict_auto_review (tool_requirement tool policy) already_approved output nac s of
              (s1, Inl e) \<Rightarrow> (s1, Inl e)
            | (s1, Inr _) \<Rightarrow>
                (case run_attempt E
                        (make_attempt macos H tool managed_network_active
                           (retry_sandbox_requested H tool managed_network_active))
                        managed_network_active s1 of
                   (s2, Inr out, deferred) \<Rightarrow> (s2, Inr (out, deferred))
                 | (s2, Inl e, _) \<Rightarrow> (s2, Inl e))))"

definition orchestrator_run ::
    "bool \<Rightarrow> ('u, 'e) fs_host \<Rightarrow> ('s, 'u, 'a, 'x, 'y, 'o, 'p, 'c, 'out) tool_effects \<Rightarrow> ('u, 'a) tool_runtime \<Rightarrow>
       ask_for_approval \<Rightarrow> bool \<Rightarrow> bool \<Rightarrow> 's \<Rightarrow> 's \<times> (('o, 'p, 'c) tool_error + 'out \<times> 'y option)" where
  "orchestrator_run macos H E tool policy strict_auto_review managed_network_active s =
     (let requirement = tool_requirement tool policy
      in case first_approval E tool strict_auto_review requirement s of
           (s1, Inl e) \<Rightarrow> (s1, Inl e)
         | (s1, Inr already_approved) \<Rightarrow>
             (case run_attempt E
                     (make_attempt macos H tool managed_network_active
                        (first_sandbox_requested H tool requirement managed_network_active))
                     managed_network_active s1 of
                (s2, Inr out, deferred) \<Rightarrow> (s2, Inr (out, deferred))
              | (s2, Inl (SandboxDenied output decision), _) \<Rightarrow>
                  orchestrator_retry macos H E tool policy strict_auto_review managed_network_active already_approved
                    output decision s2
              | (s2, Inl e, _) \<Rightarrow> (s2, Inl e)))"

section \<open>The trace of a run\<close>

text \<open>What was asked, with the answer, and what was attempted, with its success, in order.\<close>

datatype ('u, 'x, 'p) event = Asked "'p approval_context" bool | Ran "('u, 'x) sandbox_attempt" bool

fun is_ok :: "'e + 'a \<Rightarrow> bool" where
  "is_ok (Inr _) = True"
| "is_ok (Inl _) = False"

definition keep_log :: "('s \<Rightarrow> 's \<times> 'r) \<Rightarrow> 's \<times> 'l \<Rightarrow> ('s \<times> 'l) \<times> 'r" where
  "keep_log f st = (case f (fst st) of (s', r) \<Rightarrow> ((s', snd st), r))"

definition logged ::
    "('s, 'u, 'a, 'x, 'y, 'o, 'p, 'c, 'out) tool_effects \<Rightarrow>
       ('s \<times> ('u, 'x, 'p) event list, 'u, 'a, 'x, 'y, 'o, 'p, 'c, 'out) tool_effects" where
  "logged E =
     \<lparr>do_request_approval = (\<lambda>action ctx st.
        case do_request_approval E action ctx (fst st) of (s', r) \<Rightarrow> ((s', snd st @ [Asked ctx (is_ok r)]), r)),
      do_run = (\<lambda>a st. case do_run E a (fst st) of (s', r) \<Rightarrow> ((s', snd st @ [Ran a (is_ok r)]), r)),
      do_begin_network = (\<lambda>m. keep_log (do_begin_network E m)),
      network_mode = network_mode E,
      do_finish_immediate = (\<lambda>x. keep_log (do_finish_immediate E x)),
      into_deferred = into_deferred E,
      do_finish_deferred = (\<lambda>y. keep_log (do_finish_deferred E y))\<rparr>"

lemma keep_log_eq: "keep_log f st = (st', r) \<Longrightarrow> snd st' = snd st"
  by (auto simp: keep_log_def split: prod.splits)

lemma logged_simps:
  "do_begin_network (logged E) m st = keep_log (do_begin_network E m) st"
  "do_finish_immediate (logged E) x st = keep_log (do_finish_immediate E x) st"
  "do_finish_deferred (logged E) y st = keep_log (do_finish_deferred E y) st"
  "network_mode (logged E) = network_mode E" "into_deferred (logged E) = into_deferred E"
  by (simp_all add: logged_def)

lemma logged_run:
  assumes "do_run (logged E) a st = (st', r)"
  shows "snd st' = snd st @ [Ran a (is_ok r)]"
  using assms by (auto simp: logged_def split: prod.splits)

lemma run_attempt_log:
  assumes "run_attempt (logged E) a m st = (st', r, d)"
  shows "snd st' = snd st \<or> (\<exists>x b. snd st' = snd st @ [Ran (a\<lparr>att_network_approval := x\<rparr>) b])"
proof -
  obtain st1 n where n: "do_begin_network (logged E) m st = (st1, n)" by fastforce
  then have 1: "snd st1 = snd st" by (simp add: logged_simps keep_log_eq)
  show ?thesis
  proof (cases n)
    case (Inl e)
    then show ?thesis using assms n 1 by (simp add: run_attempt_def)
  next
    case (Inr x)
    obtain st2 q where q: "do_run (logged E) (a\<lparr>att_network_approval := x\<rparr>) st1 = (st2, q)" by fastforce
    have "snd st' = snd st2"
      using assms n q Inr
      by (auto simp: run_attempt_def logged_simps keep_log_eq
          split: option.splits network_approval_mode.splits sum.splits prod.splits dest!: keep_log_eq)
    then show ?thesis using logged_run [OF q] 1 by auto
  qed
qed

lemma request_log:
  assumes "request_tool_approval (logged E) tool ctx st = (st', r)"
  shows "r = Inr u \<Longrightarrow> snd st' = snd st @ [Asked ctx True]"
    "snd st' = snd st \<or> snd st' = snd st @ [Asked ctx (is_ok r)]"
  using assms
  by (auto simp: request_tool_approval_def logged_def split: sum.splits prod.splits)

text \<open>A property of every attempt and of what happened before it.\<close>

definition each_attempt :: "(('u, 'x, 'p) event list \<Rightarrow> ('u, 'x) sandbox_attempt \<Rightarrow> bool) \<Rightarrow> ('u, 'x, 'p) event list \<Rightarrow> bool" where
  "each_attempt Q l \<longleftrightarrow> (\<forall>before a b after. l = before @ Ran a b # after \<longrightarrow> Q before a)"

lemma each_attemptD: "each_attempt Q l \<Longrightarrow> l = before @ Ran a b # after \<Longrightarrow> Q before a"
  by (auto simp: each_attempt_def)

lemma each_attempt_simps [simp]:
  "each_attempt Q []"
  "each_attempt Q (l @ [Asked c b]) \<longleftrightarrow> each_attempt Q l"
  "each_attempt Q (l @ [Ran a b]) \<longleftrightarrow> each_attempt Q l \<and> Q l a"
proof -
  have snoc: "l @ [y] = before @ Ran a b # after \<longleftrightarrow>
      (after = [] \<and> before = l \<and> y = Ran a b) \<or> (\<exists>xs. after = xs @ [y] \<and> l = before @ Ran a b # xs)"
    for l before after :: "('u, 'x, 'p) event list" and a b y
    by (cases after rule: rev_cases) auto
  show "each_attempt Q []" by (simp add: each_attempt_def)
  show "each_attempt Q (l @ [Asked c b]) \<longleftrightarrow> each_attempt Q l"
    unfolding each_attempt_def snoc by auto
  show "each_attempt Q (l @ [Ran a b]) \<longleftrightarrow> each_attempt Q l \<and> Q l a"
    unfolding each_attempt_def snoc by auto
qed

lemma each_attempt_request:
  assumes "request_tool_approval (logged E) tool ctx st = (st', r)" and "each_attempt Q (snd st)"
  shows "each_attempt Q (snd st')"
  using request_log(2) [OF assms(1)] assms(2) by auto

lemma each_attempt_run:
  assumes "run_attempt (logged E) a m st = (st', r, d)" and "each_attempt Q (snd st)"
    and "\<And>x. Q (snd st) (a\<lparr>att_network_approval := x\<rparr>)"
  shows "each_attempt Q (snd st')"
  using run_attempt_log [OF assms(1)] assms(2,3) by auto

text \<open>Before the first attempt the call was approved, or no approval was required.\<close>

lemma first_approval_log:
  assumes "first_approval (logged E) tool strict requirement (s, []) = (st, r)"
  shows "each_attempt Q (snd st)"
    "r = Inr approved \<Longrightarrow> (if approved then \<exists>c. snd st = [Asked c True]
       else snd st = [] \<and> \<not> strict \<and> (\<exists>b a. requirement = Skip b a))"
    "requirement = Refuse reason \<Longrightarrow> snd st = []"
proof -
  have ask: "each_attempt Q (snd st) \<and> (r = Inr approved \<longrightarrow> approved \<and> (\<exists>c. snd st = [Asked c True]))"
    if "(case request_tool_approval (logged E) tool ctx (s, []) of
           (s1, Inl e) \<Rightarrow> (s1, Inl e) | (s1, Inr _) \<Rightarrow> (s1, Inr True)) = (st, r)" for ctx
  proof -
    obtain st1 q where q: "request_tool_approval (logged E) tool ctx (s, []) = (st1, q)" by fastforce
    show ?thesis
      using that q request_log(1) [OF q] each_attempt_request [OF q, of Q] by (cases q) auto
  qed
  show "each_attempt Q (snd st)"
    using assms ask by (auto simp: first_approval_def Let_def split: exec_approval_requirement.splits if_splits)
  show "if approved then \<exists>c. snd st = [Asked c True] else snd st = [] \<and> \<not> strict \<and> (\<exists>b a. requirement = Skip b a)"
    if "r = Inr approved"
    using assms ask that
    by (auto simp: first_approval_def Let_def split: exec_approval_requirement.splits if_splits)
  show "snd st = []" if "requirement = Refuse reason" using assms that by (auto simp: first_approval_def Let_def)
qed

lemma retry_approval_log:
  assumes "retry_approval (logged E) tool policy strict requirement approved out nac st = (st', r)"
  shows "each_attempt Q (snd st) \<Longrightarrow> each_attempt Q (snd st')" "set (snd st) \<subseteq> set (snd st')"
    "r = Inr u \<Longrightarrow> (\<exists>c. Asked c True \<in> set (snd st')) \<or> \<not> strict \<and> (approved \<or> policy = Never)"
proof -
  obtain ctx where "st' = st \<and> \<not> strict \<and> (approved \<or> policy = Never)
      \<or> request_tool_approval (logged E) tool ctx st = (st', r)"
    using assms by (auto simp: retry_approval_def Let_def should_bypass_approval_def split: if_splits)
  then show "each_attempt Q (snd st) \<Longrightarrow> each_attempt Q (snd st')" "set (snd st) \<subseteq> set (snd st')"
    "r = Inr u \<Longrightarrow> (\<exists>c. Asked c True \<in> set (snd st')) \<or> \<not> strict \<and> (approved \<or> policy = Never)"
    using each_attempt_request request_log [of E tool ctx st st' r] by fastforce+
qed

section \<open>The attempts of a run\<close>

text \<open>
  The rule for properties of attempts: what is known when the first attempt starts, and what is known when the second one does.
\<close>

lemma retry_attempts:
  fixes E :: "('s, 'u, 'a, 'x, 'y, 'o, 'p, 'c, 'out) tool_effects"
  assumes run: "orchestrator_retry macos H (logged E) tool policy strict m approved out dec st = (st', r)"
    and "each_attempt Q (snd st)" and "approved \<Longrightarrow> \<exists>c. Asked c True \<in> set (snd st)"
    and second: "\<And>before x d nac. may_retry tool policy d (nac :: 'p network_approval_context option) \<Longrightarrow>
        (\<exists>c. Asked c True \<in> set before) \<or> \<not> strict \<and> policy = Never \<Longrightarrow>
        Q before ((make_attempt macos H tool m (retry_sandbox_requested H tool m))\<lparr>att_network_approval := x\<rparr>)"
  shows "each_attempt Q (snd st')"
proof -
  let ?a = "make_attempt macos H tool m (retry_sandbox_requested H tool m) :: ('u, 'x) sandbox_attempt"
  define nac where "nac = (if m then Option.bind dec network_approval_context_from_payload else None)"
  show ?thesis
  proof (cases "may_retry tool policy (dec \<noteq> None) nac")
    case False
    then show ?thesis using run assms(2) by (simp add: orchestrator_retry_def Let_def nac_def)
  next
    case True
    obtain st1 r1 where 1: "retry_approval (logged E) tool policy strict (tool_requirement tool policy) approved out nac st = (st1, r1)"
      by fastforce
    note log = retry_approval_log [OF 1]
    show ?thesis
    proof (cases r1)
      case (Inl e)
      then show ?thesis
        using run 1 True log(1) assms(2) by (simp add: orchestrator_retry_def Let_def nac_def)
    next
      case (Inr u)
      obtain st2 r2 d2 where 2: "run_attempt (logged E) ?a m st1 = (st2, r2, d2)" by (metis prod_cases3)
      have "(\<exists>c. Asked c True \<in> set (snd st1)) \<or> \<not> strict \<and> policy = Never"
        using log(3) [OF Inr] log(2) assms(3) by auto
      then have "each_attempt Q (snd st2)"
        using log(1) [OF assms(2)] by (intro each_attempt_run [OF 2] second [OF True])
      moreover have "st' = st2"
        using run 1 2 Inr True by (auto simp: orchestrator_retry_def Let_def nac_def split: sum.splits)
      ultimately show ?thesis by simp
    qed
  qed
qed

lemma orchestrator_attempts:
  fixes E :: "('s, 'u, 'a, 'x, 'y, 'o, 'p, 'c, 'out) tool_effects"
  assumes run: "orchestrator_run macos H (logged E) tool policy strict m (s, []) = ((s', l), r)"
    and first: "\<And>before x. (\<exists>c. before = [Asked c True]) \<or>
        before = [] \<and> \<not> strict \<and> (\<exists>b a. tool_requirement tool policy = Skip b a) \<Longrightarrow>
        Q before ((make_attempt macos H tool m (first_sandbox_requested H tool (tool_requirement tool policy) m))
          \<lparr>att_network_approval := x\<rparr>)"
    and second: "\<And>before x d nac. may_retry tool policy d (nac :: 'p network_approval_context option) \<Longrightarrow>
        (\<exists>c. Asked c True \<in> set before) \<or> \<not> strict \<and> policy = Never \<Longrightarrow>
        Q before ((make_attempt macos H tool m (retry_sandbox_requested H tool m))\<lparr>att_network_approval := x\<rparr>)"
  shows "each_attempt Q l"
proof -
  let ?req = "tool_requirement tool policy"
  let ?a = "make_attempt macos H tool m (first_sandbox_requested H tool ?req m) :: ('u, 'x) sandbox_attempt"
  obtain st1 r1 where 1: "first_approval (logged E) tool strict ?req (s, []) = (st1, r1)" by fastforce
  note log = first_approval_log [OF 1]
  show ?thesis
  proof (cases r1)
    case (Inl e)
    then show ?thesis using run 1 log(1) by (simp add: orchestrator_run_def Let_def)
  next
    case (Inr approved)
    obtain st2 r2 d2 where 2: "run_attempt (logged E) ?a m st1 = (st2, r2, d2)" by (metis prod_cases3)
    have q2: "each_attempt Q (snd st2)" "set (snd st1) \<subseteq> set (snd st2)"
      using log(1) log(2) [OF Inr] run_attempt_log [OF 2]
      by (auto intro!: each_attempt_run [OF 2] first split: if_splits)
    show ?thesis
    proof (cases "\<exists>out dec. r2 = Inl (SandboxDenied out dec)")
      case False
      then show ?thesis
        using run 1 2 Inr q2(1)
        by (auto simp: orchestrator_run_def Let_def split: sum.splits tool_error.splits)
    next
      case True
      then obtain out dec where retry: "orchestrator_retry macos H (logged E) tool policy strict m approved out dec st2 = ((s', l), r)"
        using run 1 2 Inr by (auto simp: orchestrator_run_def)
      have approved: "\<exists>c. Asked c True \<in> set (snd st2)" if approved
        using log(2) [OF Inr] that q2(2) by auto
      have "each_attempt Q (snd (s', l))"
        by (rule retry_attempts [OF retry q2(1)]) (fact approved, rule second)
      then show ?thesis by simp
    qed
  qed
qed

section \<open>Properties\<close>

definition sample_tool :: "path profile \<Rightarrow> (path, unit) tool_runtime" where
  "sample_tool p =
     \<lparr>tool_permission_profile = p, tool_profile_with_workspace_roots = p, tool_executor_managed = False,
      tool_exec_approval_requirement = None, tool_sandbox_permissions = UseDefault, tool_preference = PreferAuto,
      tool_escalate_on_failure = True, tool_wants_no_sandbox_approval = wants_no_sandbox_approval_default,
      tool_approval_action = Inr (), tool_cwd = abs_names [''w'']\<rparr>"

text \<open>Every question is answered yes, and the sandbox denies every attempt that it confines.\<close>

definition sample_effects :: "(nat, 'u, unit, unit, unit, str, unit, unit, str) tool_effects" where
  "sample_effects =
     \<lparr>do_request_approval = (\<lambda>_ _ s. (s + 1, Inr ())),
      do_run = (\<lambda>a s. (s + 1, if att_sandbox_requested a then Inl (SandboxDenied ''denied'' None) else Inr ''done'')),
      do_begin_network = (\<lambda>_ s. (s, Inr None)),
      network_mode = (\<lambda>_. Immediate),
      do_finish_immediate = (\<lambda>_ s. (s, Inr ())),
      into_deferred = (\<lambda>_. None),
      do_finish_deferred = (\<lambda>_ s. (s, Inr ()))\<rparr>"

definition confined_profile :: "path profile" where
  "confined_profile = Managed (ManagedRestricted [entry_new (SpecialEntry SpecialRoot) Read] None) NetworkRestricted"

text \<open>
  C6: no attempt escapes the sandbox unasked.  When the permissions require a sandbox, an attempt that runs without one comes
  after an approval, or the requirement was waived beforehand: the call needs no approval, strict review is off, and either the
  rules exempt it from the sandbox or it was made with escalated permissions.  The policy then denies no reads.
\<close>

theorem unsandboxed_attempts_were_approved:
  fixes E :: "('s, 'u, 'a, 'x, 'y, 'o, 'p, 'c, 'out) tool_effects"
  assumes "orchestrator_run macos H (logged E) tool policy strict m (s, []) = ((s', l), r)"
    and "\<not> tool_wants_no_sandbox_approval tool Never"
    and "l = before @ Ran a b # after" and "\<not> att_sandbox_requested a"
    and "should_sandbox H (tool_permissions tool) (tool_preference tool) m"
  shows "unsandboxed_execution_allowed (file_system_sandbox_policy (tool_permissions tool))
    \<and> ((\<exists>c. Asked c True \<in> set before)
       \<or> \<not> strict \<and> (\<exists>bypass am. tool_requirement tool policy = Skip bypass am
             \<and> (bypass \<or> tool_sandbox_permissions tool = RequireEscalated)))"
proof -
  define Q where "Q before a \<longleftrightarrow> att_sandbox_requested a \<or>
      unsandboxed_execution_allowed (file_system_sandbox_policy (tool_permissions tool))
    \<and> ((\<exists>c. Asked c True \<in> set before)
       \<or> \<not> strict \<and> (\<exists>bypass am. tool_requirement tool policy = Skip bypass am
             \<and> (bypass \<or> tool_sandbox_permissions tool = RequireEscalated)))"
    for before :: "('u, 'x, 'p) event list" and a :: "('u, 'x) sandbox_attempt"
  have "each_attempt Q l"
  proof (rule orchestrator_attempts [OF assms(1)])
    fix before :: "('u, 'x, 'p) event list" and x
    assume "(\<exists>c. before = [Asked c True]) \<or>
        before = [] \<and> \<not> strict \<and> (\<exists>b a. tool_requirement tool policy = Skip b a)"
    then show "Q before ((make_attempt macos H tool m (first_sandbox_requested H tool (tool_requirement tool policy) m))
        \<lparr>att_network_approval := x\<rparr>)"
      using assms(5)
      by (auto simp: Q_def make_attempt_def first_sandbox_requested_def sandbox_override_for_first_attempt_def
          requires_escalated_permissions_def split: if_splits)
  next
    fix before :: "('u, 'x, 'p) event list" and x d and nac :: "'p network_approval_context option"
    assume "may_retry tool policy d nac" "(\<exists>c. Asked c True \<in> set before) \<or> \<not> strict \<and> policy = Never"
    then show "Q before ((make_attempt macos H tool m (retry_sandbox_requested H tool m))\<lparr>att_network_approval := x\<rparr>)"
      using assms(2,5)
      by (auto simp: Q_def make_attempt_def retry_sandbox_requested_def may_retry_def Let_def split: if_splits)
  qed
  then show ?thesis using each_attemptD [of Q l before a b after] assms(3,4) by (simp add: Q_def)
qed

definition sample_question :: "unit approval_context" where
  "sample_question =
     \<lparr>ctx_strict_auto_review = False, ctx_approval_reason = None, ctx_retry_reason = None, ctx_network_approval_context = None\<rparr>"

definition sample_attempt :: "path profile \<Rightarrow> bool \<Rightarrow> (path, unit) sandbox_attempt" where
  "sample_attempt p requested = make_attempt False plain_host (sample_tool p) False requested"

lemma sample_run:
  "orchestrator_run False plain_host (logged sample_effects) (sample_tool confined_profile) UnlessTrusted False False (0, [])
   = ((3, [Asked sample_question True, Ran (sample_attempt confined_profile True) False,
           Ran (sample_attempt confined_profile False) True]), Inr (''done'', None))"
  by code_simp

theorem unsandboxed_attempts_were_approved_witness:
  "\<exists>c. Asked c True \<in> set [Asked sample_question True, Ran (sample_attempt confined_profile True) False]"
proof -
  have "\<not> tool_wants_no_sandbox_approval (sample_tool confined_profile) Never"
    "\<not> att_sandbox_requested (sample_attempt confined_profile False)"
    "should_sandbox plain_host (tool_permissions (sample_tool confined_profile)) (tool_preference (sample_tool confined_profile)) False"
    "tool_requirement (sample_tool confined_profile) UnlessTrusted = NeedsApproval None None"
    by code_simp+
  then show ?thesis
    using unsandboxed_attempts_were_approved [OF sample_run, of
        "[Asked sample_question True, Ran (sample_attempt confined_profile True) False]"
        "sample_attempt confined_profile False" True "[]"] by simp
qed

text \<open>
  Where approval is required, every attempt comes after an approval, and a call that is refused is not attempted at all.
\<close>

lemma attempts_follow_requirement:
  fixes E :: "('s, 'u, 'a, 'x, 'y, 'o, 'p, 'c, 'out) tool_effects"
  assumes run: "orchestrator_run macos H (logged E) tool policy strict m (s, []) = ((s', l), r)"
    and "\<not> tool_wants_no_sandbox_approval tool Never"
    and "\<And>bypass am. tool_requirement tool policy = Skip bypass am \<Longrightarrow> strict"
  shows "(l = before @ Ran a b # after \<longrightarrow> (\<exists>c. Asked c True \<in> set before))
    \<and> (tool_requirement tool policy = Refuse reason \<longrightarrow> l = [] \<and> r = Inl (ToolRejected reason))"
proof -
  have "each_attempt (\<lambda>before a. \<exists>c. Asked c True \<in> set before) l"
    using assms(2,3) by (intro orchestrator_attempts [OF run]) (auto simp: may_retry_def Let_def split: if_splits)
  moreover have "l = [] \<and> r = Inl (ToolRejected reason)" if "tool_requirement tool policy = Refuse reason"
    using run that by (simp add: orchestrator_run_def first_approval_def Let_def)
  ultimately show ?thesis using each_attemptD by blast
qed

text \<open>A denial that is more than the symbolic entries that never resolve to a directory.\<close>

definition denies_reads :: "'u fs_policy \<Rightarrow> bool" where
  "denies_reads P \<longleftrightarrow> fs_kind P = FsRestricted \<and> list_ex (\<lambda>e. entry_access e = Deny
     \<and> (case entry_path e of SpecialEntry SpecialMinimal \<Rightarrow> False | SpecialEntry (UnknownSpecial _ _) \<Rightarrow> False | _ \<Rightarrow> True))
     (fs_entries P)"

lemma denies_reads_restricted: "denies_reads P \<Longrightarrow> has_denied_read_restrictions P"
  by (auto simp: denies_reads_def has_denied_read_restrictions_def list_ex_iff)

lemma denies_reads_narrows:
  assumes "denies_reads P"
  shows "\<not> has_full_disk_write_access H P"
proof -
  obtain e where e: "e \<in> set (fs_entries P)" "entry_access e = Deny" "fs_kind P = FsRestricted"
    "case entry_path e of SpecialEntry SpecialMinimal \<Rightarrow> False | SpecialEntry (UnknownSpecial _ _) \<Rightarrow> False | _ \<Rightarrow> True"
    using assms by (auto simp: denies_reads_def list_ex_iff)
  have "\<not> has_same_target_write_override H P e"
    using e(2) by (auto simp: has_same_target_write_override_def list_ex_iff can_write_def less_access_mode_def)
  then have "narrows_write H P e"
    using e(2,4) by (auto simp: narrows_write_def can_write_def split: fs_path.splits special_path.splits)
  then show ?thesis
    using e(1,3) by (auto simp: has_full_disk_write_access_def has_write_narrowing_entries_def list_ex_iff)
qed

text \<open>
  C7: denied reads stay denied.  When the policy of a tool call denies reading, every attempt, the retry after a denial included, asks
  for the sandbox with the permissions of the call, whatever was approved and whatever the rules exempt.
\<close>

theorem denied_reads_stay_confined:
  fixes E :: "('s, 'u, 'a, 'x, 'y, 'o, 'p, 'c, 'out) tool_effects"
  assumes run: "orchestrator_run macos H (logged E) tool policy strict m (s, []) = ((s', l), r)"
    and denies: "denies_reads (file_system_sandbox_policy (tool_permissions tool))"
    and pref: "tool_preference tool \<noteq> PreferForbid"
    and "Ran a b \<in> set l"
  shows "att_sandbox_requested a \<and> att_permissions a = tool_permissions tool
    \<and> (macos \<and> \<not> tool_executor_managed tool \<longrightarrow> att_sandbox a = MacosSeatbelt)"
proof -
  have "fs_kind (file_system_sandbox_policy (tool_permissions tool)) = FsRestricted"
    using denies by (simp add: denies_reads_def)
  then have sandbox: "should_sandbox H (tool_permissions tool) (tool_preference tool) m"
    using pref denies_reads_narrows [OF denies, of H]
    by (cases "tool_preference tool") (auto simp: should_sandbox_def to_runtime_permissions_def should_require_platform_sandbox_def)
  have kept: "\<not> unsandboxed_execution_allowed (file_system_sandbox_policy (tool_permissions tool))"
    using denies_reads_restricted [OF denies] by (simp add: unsandboxed_execution_allowed_def)
  have "each_attempt (\<lambda>before a. att_sandbox_requested a \<and> att_permissions a = tool_permissions tool
      \<and> (macos \<and> \<not> tool_executor_managed tool \<longrightarrow> att_sandbox a = MacosSeatbelt)) l"
    using sandbox kept
    by (intro orchestrator_attempts [OF run])
       (auto simp: make_attempt_def first_sandbox_requested_def sandbox_override_for_first_attempt_def
          retry_sandbox_requested_def select_initial_def get_platform_sandbox_def)
  moreover obtain before after where "l = before @ Ran a b # after" using assms(4) by (meson split_list)
  ultimately show ?thesis by (rule each_attemptD)
qed

definition denying_profile :: "path profile" where
  "denying_profile = Managed (ManagedRestricted
     [entry_new (SpecialEntry SpecialRoot) Write, entry_new (PathEntry (abs_names [''secret''])) Deny] None) NetworkEnabled"

theorem denied_reads_stay_confined_witness:
  "att_sandbox_requested (sample_attempt denying_profile True)"
proof -
  have "orchestrator_run False plain_host (logged sample_effects) (sample_tool denying_profile) UnlessTrusted False False (0, [])
    = ((2, [Asked sample_question True, Ran (sample_attempt denying_profile True) False]), Inl (SandboxDenied ''denied'' None))"
    by code_simp
  moreover have "denies_reads (file_system_sandbox_policy (tool_permissions (sample_tool denying_profile)))"
    "tool_preference (sample_tool denying_profile) \<noteq> PreferForbid"
    by code_simp+
  ultimately show ?thesis using denied_reads_stay_confined by (metis list.set_intros(1,2))
qed

end
