(* ===== verification/Patch_Safety.thy ===== *)
theory Patch_Safety
  imports Patch_Footprint Tool_Orchestrator
begin

text \<open>
  The patch tool of the agent: whether a verified patch is applied, confirmed or rejected (\<open>codex-rs/core/src/safety.rs\<close>,
  \<open>core/src/apply_patch.rs\<close>), the permissions it gets and the progress it reports (\<open>core/src/tools/handlers/apply_patch.rs\<close>), and
  its execution (\<open>core/src/tools/runtimes/apply_patch.rs\<close>, \<open>sandboxing/src/denial.rs\<close>).

  A path of a patch is a URI of the host record.  The clock, \<open>to_lowercase\<close>, \<open>from_utf8_lossy\<close> and \<open>to_path_buf\<close> are arguments.
\<close>

section \<open>The safety check\<close>

datatype safety_check = AutoApprove | AskUser | Reject (reject_reason: str)

definition PATCH_REJECTED_OUTSIDE_PROJECT_REASON :: str where
  "PATCH_REJECTED_OUTSIDE_PROJECT_REASON = ''writing outside of the project; rejected by user approval settings''"

definition PATCH_REJECTED_READ_ONLY_REASON :: str where
  "PATCH_REJECTED_READ_ONLY_REASON = ''writing is blocked by read-only sandbox; rejected by user approval settings''"

text \<open>The inner function \<open>normalize\<close>.\<close>

definition normalize_patch_path :: "path \<Rightarrow> path" where
  "normalize_patch_path p = foldl normalize_step [] p"

definition patch_path_writable :: "('u, 'e) fs_host \<Rightarrow> 'u fs_policy \<Rightarrow> path \<Rightarrow> 'u \<Rightarrow> bool" where
  "patch_path_writable H P native_cwd u =
     (case uri_to_abs_path H u of
        Inl _ \<Rightarrow> False
      | Inr p \<Rightarrow> can_write_path_with_cwd H P (normalize_patch_path p) native_cwd)"

definition change_is_writable :: "('u, 'e) fs_host \<Rightarrow> 'u fs_policy \<Rightarrow> path \<Rightarrow> 'u \<times> 'u patch_file_change \<Rightarrow> bool" where
  "change_is_writable H P native_cwd c =
     (case c of (u, ch) \<Rightarrow>
        (case ch of
           PatchUpdate _ move_path _ \<Rightarrow>
             patch_path_writable H P native_cwd u
             \<and> (case move_path of Some dest \<Rightarrow> patch_path_writable H P native_cwd dest | None \<Rightarrow> True)
         | _ \<Rightarrow> patch_path_writable H P native_cwd u))"

definition is_write_patch_constrained_to_writable_paths ::
    "('u, 'e) fs_host \<Rightarrow> 'u apply_patch_action \<Rightarrow> 'u fs_policy \<Rightarrow> 'u \<Rightarrow> bool" where
  "is_write_patch_constrained_to_writable_paths H action P cwd =
     (if has_full_disk_write_access H P then True
      else (case uri_to_abs_path H cwd of
              Inl _ \<Rightarrow> False
            | Inr native_cwd \<Rightarrow> list_all (change_is_writable H P native_cwd) (action_changes action)))"

definition patch_rejection_reason :: "('u, 'e) fs_host \<Rightarrow> 'u profile \<Rightarrow> 'u fs_policy \<Rightarrow> 'u \<Rightarrow> str" where
  "patch_rejection_reason H profile P cwd =
     (let has_no_writable_roots =
            (case uri_to_abs_path H cwd of Inr c \<Rightarrow> get_writable_roots_with_cwd H P c = [] | Inl _ \<Rightarrow> False)
      in case profile of
           Managed _ _ \<Rightarrow>
             if \<not> has_full_disk_write_access H P \<and> has_no_writable_roots then PATCH_REJECTED_READ_ONLY_REASON
             else PATCH_REJECTED_OUTSIDE_PROJECT_REASON
         | _ \<Rightarrow> PATCH_REJECTED_OUTSIDE_PROJECT_REASON)"

definition rejects_sandbox_approval :: "ask_for_approval \<Rightarrow> bool" where
  "rejects_sandbox_approval policy =
     (case policy of Never \<Rightarrow> True | Granular g \<Rightarrow> \<not> sandbox_approval g | _ \<Rightarrow> False)"

definition assess_patch_safety ::
    "bool \<Rightarrow> ('u, 'e) fs_host \<Rightarrow> 'u apply_patch_action \<Rightarrow> ask_for_approval \<Rightarrow> 'u profile \<Rightarrow> 'u fs_policy \<Rightarrow> 'u \<Rightarrow> safety_check" where
  "assess_patch_safety macos H action policy profile P cwd =
     (if action_is_empty action then Reject ''empty patch''
      else if policy = UnlessTrusted then AskUser
      else if is_write_patch_constrained_to_writable_paths H action P cwd then
        (if (case profile of Managed _ _ \<Rightarrow> False | _ \<Rightarrow> True) then AutoApprove
         else (case get_platform_sandbox macos of
                 Some _ \<Rightarrow> AutoApprove
               | None \<Rightarrow>
                   if rejects_sandbox_approval policy then Reject (patch_rejection_reason H profile P cwd) else AskUser))
      else if rejects_sandbox_approval policy then Reject (patch_rejection_reason H profile P cwd)
      else AskUser)"

section \<open>Preparation\<close>

record 'u apply_patch_runtime_invocation =
  inv_action :: "'u apply_patch_action"
  inv_auto_approved :: bool
  inv_exec_approval_requirement :: exec_approval_requirement

definition prepare_apply_patch ::
    "bool \<Rightarrow> ('u, 'e) fs_host \<Rightarrow> ask_for_approval \<Rightarrow> 'u profile \<Rightarrow> 'u fs_policy \<Rightarrow> 'u apply_patch_action \<Rightarrow>
       str + 'u apply_patch_runtime_invocation" where
  "prepare_apply_patch macos H policy profile P action =
     (case assess_patch_safety macos H action policy profile P (action_cwd action) of
        AutoApprove \<Rightarrow>
          Inr \<lparr>inv_action = action, inv_auto_approved = True, inv_exec_approval_requirement = Skip False None\<rparr>
      | AskUser \<Rightarrow>
          Inr \<lparr>inv_action = action, inv_auto_approved = False, inv_exec_approval_requirement = NeedsApproval None None\<rparr>
      | Reject reason \<Rightarrow> Inl (''patch rejected: '' @ reason))"

datatype file_change =
    FileAdd str
  | FileDelete str
  | FileUpdate str "str option"

definition convert_apply_patch_to_protocol :: "('u \<Rightarrow> str) \<Rightarrow> 'u apply_patch_action \<Rightarrow> (str \<rightharpoonup> file_change)" where
  "convert_apply_patch_to_protocol to_path_buf action =
     foldl (\<lambda>m (u, ch). m(to_path_buf u \<mapsto>
         (case ch of
            PatchAdd content \<Rightarrow> FileAdd content
          | PatchDelete content \<Rightarrow> FileDelete content
          | PatchUpdate diff move_path _ \<Rightarrow> FileUpdate diff (map_option to_path_buf move_path))))
       Map.empty (action_changes action)"

section \<open>Progress\<close>

definition chunk_progress :: "update_file_chunk \<Rightarrow> str" where
  "chunk_progress c =
     (case change_context c of Some ctx \<Rightarrow> ''@@ '' @ ctx @ [lf_char] | None \<Rightarrow> ''@@'' @ [lf_char])
     @ concat (map (\<lambda>l. ''-'' @ l @ [lf_char]) (old_lines c))
     @ concat (map (\<lambda>l. ''+'' @ l @ [lf_char]) (new_lines c))
     @ (if is_end_of_file c then ''*** End of File'' @ [lf_char] else [])"

definition format_update_chunks_for_progress :: "update_file_chunk list \<Rightarrow> str" where
  "format_update_chunks_for_progress chunks = concat (map chunk_progress chunks)"

definition hunk_progress :: "hunk \<Rightarrow> file_change" where
  "hunk_progress h =
     (case h of
        AddFile _ contents \<Rightarrow> FileAdd contents
      | DeleteFile _ \<Rightarrow> FileDelete []
      | UpdateFile _ move_path chunks \<Rightarrow> FileUpdate (format_update_chunks_for_progress chunks) move_path)"

definition convert_apply_patch_hunks_to_protocol :: "hunk list \<Rightarrow> (str \<rightharpoonup> file_change)" where
  "convert_apply_patch_hunks_to_protocol hs =
     foldl (\<lambda>m h. m(hunk_source_path h \<mapsto> hunk_progress h)) Map.empty hs"

text \<open>Times are in milliseconds.  The events of one call carry its id, which is left out.\<close>

definition APPLY_PATCH_ARGUMENT_DIFF_BUFFER_INTERVAL :: nat where
  "APPLY_PATCH_ARGUMENT_DIFF_BUFFER_INTERVAL = 500"

record diff_consumer =
  dc_parser :: parser
  dc_last_sent_at :: "nat option"
  dc_pending :: "(str \<rightharpoonup> file_change) option"

definition diff_consumer_default :: diff_consumer where
  "diff_consumer_default = \<lparr>dc_parser = parser_default, dc_last_sent_at = None, dc_pending = None\<rparr>"

text \<open>The parser returns the hunks read so far.\<close>

definition consume_delta :: "nat \<Rightarrow> str \<Rightarrow> diff_consumer \<Rightarrow> diff_consumer \<times> (str \<rightharpoonup> file_change) option" where
  "consume_delta now delta d =
     (case push_delta (dc_parser d) delta of
        (p, Some _) \<Rightarrow> (d\<lparr>dc_parser := p\<rparr>, None)
      | (p, None) \<Rightarrow>
          if hunks p = [] then (d\<lparr>dc_parser := p\<rparr>, None)
          else
            (let event = convert_apply_patch_hunks_to_protocol (hunks p)
             in case dc_last_sent_at d of
                  Some last_sent_at \<Rightarrow>
                    if now - last_sent_at < APPLY_PATCH_ARGUMENT_DIFF_BUFFER_INTERVAL
                    then (d\<lparr>dc_parser := p, dc_pending := Some event\<rparr>, None)
                    else (d\<lparr>dc_parser := p, dc_pending := None, dc_last_sent_at := Some now\<rparr>, Some event)
                | None \<Rightarrow> (d\<lparr>dc_parser := p, dc_pending := None, dc_last_sent_at := Some now\<rparr>, Some event)))"

text \<open>\<open>show\<close> prints the error of the parser.\<close>

definition finish_update_on_complete ::
    "(parse_error \<Rightarrow> str) \<Rightarrow> nat \<Rightarrow> diff_consumer \<Rightarrow> diff_consumer \<times> (str + (str \<rightharpoonup> file_change) option)" where
  "finish_update_on_complete show_error now d =
     (case finish (dc_parser d) of
        (p, Inl e) \<Rightarrow> (d\<lparr>dc_parser := p\<rparr>, Inl (''failed to parse apply_patch: '' @ show_error e))
      | (p, Inr _) \<Rightarrow>
          (case dc_pending d of
             None \<Rightarrow> (d\<lparr>dc_parser := p\<rparr>, Inr None)
           | Some event \<Rightarrow>
               (d\<lparr>dc_parser := p, dc_pending := None, dc_last_sent_at := Some now\<rparr>, Inr (Some event))))"

section \<open>Permissions\<close>

definition file_paths_for_action :: "'u apply_patch_action \<Rightarrow> 'u list" where
  "file_paths_for_action action =
     concat (map (\<lambda>(u, ch). u # (case ch of PatchUpdate _ (Some dest) _ \<Rightarrow> [dest] | _ \<Rightarrow> [])) (action_changes action))"

text \<open>A \<open>BTreeSet\<close> is the sorted list of its elements.\<close>

definition write_permissions_for_paths ::
    "('u, 'e) fs_host \<Rightarrow> path list \<Rightarrow> 'u fs_policy \<Rightarrow> path \<Rightarrow> 'u additional_permission_profile option" where
  "write_permissions_for_paths H file_paths P cwd =
     (let parents = map (\<lambda>p. case parent_of_path p of Some d \<Rightarrow> d | None \<Rightarrow> p)
            (filter (\<lambda>p. \<not> can_write_path_with_cwd H P p cwd) file_paths);
          outside = sorted_list_of_set (set (filter (\<lambda>p. \<not> can_write_path_with_cwd H P p cwd) parents))
      in Option.bind (result_ok (collect_results (abs_from_path H) outside)) (\<lambda>write_paths.
           if write_paths = [] then None
           else result_ok (normalize_additional_permissions H
                  \<lparr>add_network = None, add_file_system = Some (from_read_write_roots H (Some []) (Some write_paths))\<rparr>)))"

text \<open>The permissions in force: \<open>session\<close> and \<open>turn\<close> are those granted before, \<open>base\<close> the profile with workspace roots.\<close>

definition effective_patch_permissions ::
    "('u, 'e) fs_host \<Rightarrow> 'u additional_permission_profile option \<Rightarrow> 'u additional_permission_profile option \<Rightarrow> 'u profile \<Rightarrow>
       'u apply_patch_action \<Rightarrow> 'u \<Rightarrow> 'e + ('u list \<times> 'u effective_additional_permissions \<times> 'u fs_policy)" where
  "effective_patch_permissions H session turn base action cwd =
     (let file_paths = file_paths_for_action action
      in and_then (uri_to_abs_path H cwd) (\<lambda>native_cwd.
           let P = effective_file_system_sandbox_policy (file_system_sandbox_policy base)
                     (merge_additional_profiles session turn)
           in and_then (collect_results (uri_to_abs_path H) file_paths) (\<lambda>native_paths.
                Inr (file_paths,
                     apply_granted_turn_permissions H session turn native_cwd UseDefault
                       (write_permissions_for_paths H native_paths P native_cwd),
                     P))))"

definition patch_permissions_without_path_matching ::
    "'u apply_patch_action \<Rightarrow> 'u list \<times> 'u effective_additional_permissions \<times> 'u fs_policy" where
  "patch_permissions_without_path_matching action =
     (file_paths_for_action action,
      \<lparr>eff_sandbox_permissions = UseDefault, eff_additional_permissions = None, eff_permissions_preapproved = False\<rparr>,
      fs_unrestricted)"

text \<open>The first half of \<open>execute_verified_patch\<close>: the paths, the permissions and the requirement of the request.\<close>

definition prepare_verified_patch ::
    "bool \<Rightarrow> ('u, 'e) fs_host \<Rightarrow> ask_for_approval \<Rightarrow> 'u additional_permission_profile option \<Rightarrow>
       'u additional_permission_profile option \<Rightarrow> 'u profile \<Rightarrow> 'u profile \<Rightarrow> 'u apply_patch_action \<Rightarrow> 'u \<Rightarrow>
       str + ('u list \<times> 'u effective_additional_permissions \<times> 'u fs_policy \<times> 'u apply_patch_runtime_invocation)" where
  "prepare_verified_patch macos H policy session turn profile profile_with_roots action cwd =
     (let (file_paths, permissions, P) =
            (case effective_patch_permissions H session turn profile_with_roots action cwd of
               Inr r \<Rightarrow> r
             | Inl _ \<Rightarrow> patch_permissions_without_path_matching action)
      in and_then (prepare_apply_patch macos H policy profile P action) (\<lambda>inv. Inr (file_paths, permissions, P, inv)))"

definition require_environment_id :: "str option \<Rightarrow> bool \<Rightarrow> str + str option" where
  "require_environment_id env_id allow =
     (case env_id of
        Some e \<Rightarrow>
          if \<not> allow then Inl ''apply_patch environment selection is unavailable for this turn'' else Inr (Some e)
      | None \<Rightarrow> Inr None)"

section \<open>Execution\<close>

record exec_tool_call_output =
  out_exit_code :: int
  out_stdout :: str
  out_stderr :: str
  out_aggregated :: str
  out_timed_out :: bool

definition SANDBOX_DENIED_KEYWORDS :: "str list" where
  "SANDBOX_DENIED_KEYWORDS =
     [''operation not permitted'', ''permission denied'', ''read-only file system'', ''seccomp'', ''sandbox'', ''landlock'',
      ''failed to write file'']"

definition is_likely_executor_managed_sandbox_denied :: "(str \<Rightarrow> str) \<Rightarrow> exec_tool_call_output \<Rightarrow> bool" where
  "is_likely_executor_managed_sandbox_denied to_lowercase out =
     (if out_exit_code out = 0 then False
      else list_ex (\<lambda>section. list_ex (contains_str (to_lowercase section)) SANDBOX_DENIED_KEYWORDS)
             [out_stderr out, out_stdout out, out_aggregated out])"

text \<open>The test for quick exit codes changes nothing.\<close>

definition is_likely_sandbox_denied :: "(str \<Rightarrow> str) \<Rightarrow> sandbox_type \<Rightarrow> exec_tool_call_output \<Rightarrow> bool" where
  "is_likely_sandbox_denied to_lowercase t out =
     (if t = NoSandbox \<or> out_exit_code out = 0 then False
      else if is_likely_executor_managed_sandbox_denied to_lowercase out then True
      else if out_exit_code out \<in> {2, 126, 127} then False
      else False)"

definition patch_wants_no_sandbox_approval :: "ask_for_approval \<Rightarrow> bool" where
  "patch_wants_no_sandbox_approval policy =
     (case policy of
        Never \<Rightarrow> False
      | Granular g \<Rightarrow> sandbox_approval g
      | OnRequest \<Rightarrow> True
      | UnlessTrusted \<Rightarrow> True)"

definition patch_options :: "('u, 'e) fs_host \<Rightarrow> 'u apply_patch_action \<Rightarrow> ('u, 'x) sandbox_attempt \<Rightarrow> apply_patch_options" where
  "patch_options H action attempt =
     \<lparr>update_file_mode = action_update_file_mode action,
      follow_symlinks = (att_sandbox_requested attempt
        \<or> \<not> should_sandbox H (att_permissions attempt) PreferAuto (att_enforce_managed_network attempt))\<rparr>"

text \<open>The sandbox of the file system: \<open>None\<close> of the outer option is a panic of the conversion of profiles.\<close>

definition file_system_sandbox_context_for_attempt ::
    "'u additional_permission_profile option \<Rightarrow> ('u, 'x) sandbox_attempt \<Rightarrow> ('u profile \<times> 'u) option option" where
  "file_system_sandbox_context_for_attempt additional attempt =
     (if \<not> att_sandbox_requested attempt then Some None
      else map_option (\<lambda>p. Some (p, att_sandbox_cwd attempt))
             (effective_permission_profile (att_exec_server_permissions attempt) additional))"

text \<open>The writers of the outputs cannot fail.  The delta of the runtime accumulates over its attempts.\<close>

definition vec_writer :: "str writer" where
  "vec_writer out l = (out @ l, Inr ())"

definition patch_runtime_run ::
    "('u, 'e) fs_host \<Rightarrow> (str \<Rightarrow> str) \<Rightarrow> (str \<Rightarrow> str) \<Rightarrow> (apply_error \<Rightarrow> str) \<Rightarrow> 'u path_ops \<Rightarrow>
       (bool \<Rightarrow> ('u profile \<times> 'u) option \<Rightarrow> ('w, 'u) fs_ops) \<Rightarrow> 'u apply_patch_action \<Rightarrow>
       'u additional_permission_profile option \<Rightarrow> ('u, 'x) sandbox_attempt \<Rightarrow> 'w \<times> 'u patch_delta \<Rightarrow>
       (('w \<times> 'u patch_delta) \<times> ((exec_tool_call_output, 'p, 'c) tool_error + exec_tool_call_output \<times> 'u patch_delta)) option" where
  "patch_runtime_run H lossy to_lowercase show_error po fs action additional attempt st =
     map_option (\<lambda>sandbox.
       (case apply_patch_with_options show_error vec_writer (action_patch action) (patch_options H action attempt) po
               (action_cwd action) fs sandbox [] [] (fst st) of
          (stdout, stderr, w, result) \<Rightarrow>
            (let failed = (case result of Inl _ \<Rightarrow> True | Inr _ \<Rightarrow> False);
                 delta = (case result of Inr d \<Rightarrow> d | Inl (_, d) \<Rightarrow> d);
                 committed = delta_append (snd st) delta;
                 output = \<lparr>out_exit_code = (if failed then 1 else 0), out_stdout = lossy stdout, out_stderr = lossy stderr,
                           out_aggregated = lossy stdout @ lossy stderr, out_timed_out = False\<rparr>;
                 sandbox_denied = (failed
                   \<and> (if att_sandbox attempt = NoSandbox
                      then att_sandbox_requested attempt \<and> is_likely_executor_managed_sandbox_denied to_lowercase output
                      else is_likely_sandbox_denied to_lowercase (att_sandbox attempt) output))
             in ((w, committed),
                 if sandbox_denied then Inl (SandboxDenied output None) else Inr (output, committed)))))
       (file_system_sandbox_context_for_attempt additional attempt)"

section \<open>What an approved patch changes\<close>

definition patch_may_write :: "('u, 'e) fs_host \<Rightarrow> 'u fs_policy \<Rightarrow> 'u \<Rightarrow> 'u \<Rightarrow> bool" where
  "patch_may_write H P cwd u \<longleftrightarrow>
     has_full_disk_write_access H P
     \<or> (\<exists>native_cwd p. uri_to_abs_path H cwd = Inr native_cwd \<and> uri_to_abs_path H u = Inr p
           \<and> can_write_path_with_cwd H P (normalize_patch_path p) native_cwd)"

lemma change_is_writable_path:
  "change_is_writable H P native_cwd (u, ch) \<Longrightarrow> patch_path_writable H P native_cwd u"
  "change_is_writable H P native_cwd (v, PatchUpdate d (Some u) n) \<Longrightarrow> patch_path_writable H P native_cwd u"
  by (cases ch) (simp_all add: change_is_writable_def)

lemma change_writable_targets:
  assumes "list_all (change_is_writable H P native_cwd) cs" and "u \<in> change_targets cs"
  shows "patch_path_writable H P native_cwd u"
proof -
  consider ch where "(u, ch) \<in> set cs" | v d n where "(v, PatchUpdate d (Some u) n) \<in> set cs"
    using assms(2) by (auto simp: change_targets_def)
  then show ?thesis
    using assms(1) by cases (blast intro: change_is_writable_path dest: list_all_iff [THEN iffD1])+
qed

lemma constrained_targets:
  assumes "is_write_patch_constrained_to_writable_paths H action P cwd" and "u \<in> change_targets (action_changes action)"
  shows "patch_may_write H P cwd u"
proof (cases "has_full_disk_write_access H P")
  case False
  then obtain c where c: "uri_to_abs_path H cwd = Inr c" "list_all (change_is_writable H P c) (action_changes action)"
    using assms(1) by (auto simp: is_write_patch_constrained_to_writable_paths_def split: sum.splits)
  have "patch_path_writable H P c u" by (rule change_writable_targets [OF c(2) assms(2)])
  then show ?thesis
    using c(1) by (cases "uri_to_abs_path H u") (simp_all add: patch_path_writable_def patch_may_write_def)
qed (simp add: patch_may_write_def)

lemma auto_approve_constrained:
  assumes "assess_patch_safety macos H action policy profile P cwd = AutoApprove"
  shows "is_write_patch_constrained_to_writable_paths H action P cwd \<and> policy \<noteq> UnlessTrusted
    \<and> (macos \<or> (\<forall>fs n. profile \<noteq> Managed fs n))"
  using assms
  by (auto simp: assess_patch_safety_def get_platform_sandbox_def split: if_splits permission_profile.splits)

text \<open>
  C5: a patch that is applied without asking changes nothing that the policy does not let the agent write.  Take the changes that the
  verification of a parsed patch reports.  If the safety check approves them, then the text that is applied
  later parses again, and the application keeps every assertion on the file system that survives writing and removing the paths
  which the policy makes writable (and creating their directories), whether it succeeds or fails half way.  Such an approval is only given
  where a sandbox can be enforced or the profile asks for none.
\<close>

theorem auto_approved_patch_within_policy:
  assumes "parse_patch source = Inr args"
    and "try_verify_apply_patch_args diff fs0 po w0 (args\<lparr>arg_workdir := workdir\<rparr>) cwd um = Inr action"
    and "assess_patch_safety macos H action policy profile P (action_cwd action) = AutoApprove"
    and "guarded_fs (fs (follow_symlinks options) sandbox) po {u. patch_may_write H P (action_cwd action) u} holds"
    and "holds w"
    and "apply_patch_with_options show_error wr (action_patch action) options po (action_cwd action) fs sandbox stdout stderr w
      = (stdout', stderr', w', r)"
  shows "holds w' \<and> (\<exists>args'. parse_patch (action_patch action) = Inr args') \<and> (macos \<or> (\<forall>f n. profile \<noteq> Managed f n))"
proof -
  note auto = auto_approve_constrained [OF assms(3)]
  note verified = verified_targets [OF assms(2)]
  obtain args' where args': "parse_patch (action_patch action) = Inr args'"
    "list_all2 same_files (arg_hunks args) (arg_hunks args')"
    using reparse_same_files [OF assms(1)] verified by auto
  have "patch_targets po (action_cwd action) (arg_hunks args') = change_targets (action_changes action)"
    using same_patch_targets [OF args'(2)] verified by simp
  then have targets: "patch_targets po (action_cwd action) (arg_hunks args') \<subseteq> {u. patch_may_write H P (action_cwd action) u}"
    using constrained_targets [OF auto [THEN conjunct1]] by auto
  have "holds w'" by (rule apply_patch_keeps [OF assms(4) args'(1) targets assms(5,6)])
  then show ?thesis using args'(1) auto by simp
qed

text \<open>A host whose URIs are the texts of absolute paths.\<close>

definition text_host :: "(str, str) fs_host" where
  "text_host =
     \<lparr>host_home = None, host_current_dir = Inr [RootDir], host_tmpdir = None,
      host_is_dir = (\<lambda>_. False), host_is_file = (\<lambda>_. False), host_exists = (\<lambda>_. False),
      host_symlink_metadata = (\<lambda>_. None), host_canonicalize = (\<lambda>_. Inl ''not found''),
      host_read_to_string = (\<lambda>_. Inl ''not found''),
      uri_to_abs_path = (\<lambda>s. if normalized_absolute (path_components s) then Inr (path_components s) else Inl ''not absolute''),
      uri_from_abs_path = path_string\<rparr>"

definition text_policy :: "str fs_policy" where
  "text_policy = fs_restricted [entry_new (SpecialEntry SpecialRoot) Read, entry_new (PathEntry ''/w'') Write]"

definition add_source :: str where
  "add_source = join_with [lf_char] [''*** Begin Patch'', ''*** Add File: /w/a'', ''+x'', ''*** End Patch'']"

definition add_args :: apply_patch_args where
  "add_args = \<lparr>arg_patch = add_source, arg_hunks = [AddFile ''/w/a'' (''x'' @ [lf_char])], arg_workdir = None,
     arg_environment_id = None\<rparr>"

definition add_action :: "str apply_patch_action" where
  "add_action = \<lparr>action_changes = [(''/w/a'', PatchAdd (''x'' @ [lf_char]))], action_update_file_mode = NormalizeToLf,
     action_patch = add_source, action_cwd = ''/w''\<rparr>"

definition add_mem :: mem where
  "add_mem = [''/w'' \<mapsto> Dir, ''/etc/x'' \<mapsto> File ''s'']"

definition add_run :: "str \<times> str \<times> mem \<times> ((patch_error \<times> str patch_delta) + str patch_delta)" where
  "add_run = apply_patch_with_options (\<lambda>_. []) vec_writer add_source apply_patch_options_default mem_paths ''/w''
     (\<lambda>_ _. mem_fs) (None :: unit option) [] [] add_mem"

theorem auto_approved_patch_within_policy_witness:
  "mem_view (fst (snd (snd add_run))) ''/etc/x'' = Some ''s'' \<and> mem_view (fst (snd (snd add_run))) ''/w/a'' = Some (''x'' @ [lf_char])"
proof -
  let ?allowed = "{u. patch_may_write text_host text_policy (action_cwd add_action) u}"
  let ?holds = "\<lambda>w. unlinked w \<and> (\<forall>q. q \<notin> ?allowed \<longrightarrow> mem_view w q = mem_view add_mem q)"
  have parse: "parse_patch add_source = Inr add_args" by code_simp
  have verify: "try_verify_apply_patch_args (\<lambda>_ _ _. []) mem_fs mem_paths add_mem (add_args\<lparr>arg_workdir := None\<rparr>) ''/w''
      NormalizeToLf = Inr add_action" by code_simp
  have approve: "assess_patch_safety True text_host add_action OnRequest
      (Managed (ManagedRestricted (fs_entries text_policy) None) NetworkRestricted) text_policy (action_cwd add_action) = AutoApprove"
    by code_simp
  have start: "?holds add_mem" by (auto simp: unlinked_def add_mem_def split: if_splits)
  obtain out err w r where run: "add_run = (out, err, w, r)" by (metis prod_cases4)
  then have run': "apply_patch_with_options (\<lambda>_. []) vec_writer (action_patch add_action) apply_patch_options_default mem_paths
      (action_cwd add_action) (\<lambda>_ _. mem_fs) (None :: unit option) [] [] add_mem = (out, err, w, r)"
    by (simp add: add_run_def add_action_def)
  have "?holds w"
    using auto_approved_patch_within_policy [where fs = "\<lambda>_ _. mem_fs" and holds = ?holds, OF parse verify approve _ start run']
      mem_guard.guarded_fs_axioms by blast
  moreover have "\<not> can_write_path_with_cwd text_host text_policy (normalize_patch_path (path_components ''/etc/x'')) (path_components ''/w'')"
    "\<not> has_full_disk_write_access text_host text_policy" by code_simp+
  then have "\<not> patch_may_write text_host text_policy (action_cwd add_action) ''/etc/x''"
    by (auto simp: patch_may_write_def add_action_def text_host_def split: if_splits)
  ultimately have "mem_view w ''/etc/x'' = mem_view add_mem ''/etc/x''" by blast
  moreover have "mem_view (fst (snd (snd add_run))) ''/w/a'' = Some (''x'' @ [lf_char])" "mem_view add_mem ''/etc/x'' = Some ''s''"
    by code_simp+
  ultimately show ?thesis unfolding run by simp
qed

end
