(* ===== verification/Fs_Policy_Raw.thy ===== *)
theory Fs_Policy_Raw
  imports Permission_Profile
begin

text \<open>
  The serialised forms of file-system permissions (\<open>codex-rs/protocol/src/permissions.rs\<close> and \<open>models.rs\<close>): paths become texts,
  and a policy is converted only when its paths can be recovered; permissions that consist of plain read and write paths are
  written in an older form.  JSON itself is left out: the wire types are the values that serde reads and writes.  The
  parsing of a text as URI and the text of a URI rest on the URL crate and are arguments.
\<close>

section \<open>Paths as texts\<close>

record 'u uri_text =
  uri_of_text :: "str \<Rightarrow> str + 'u"
  text_of_uri :: "'u \<Rightarrow> str"

text \<open>
  \<open>AbsolutePathBuf::deserialize\<close>; \<open>base\<close> is the base path that a guard of the thread provides.
\<close>

definition deserialize_absolute :: "('u, str) fs_host \<Rightarrow> path option \<Rightarrow> str \<Rightarrow> str + path" where
  "deserialize_absolute H base s =
     (case base of
        Some b \<Rightarrow> Inr (abs_resolve H s b)
      | None \<Rightarrow>
          if is_absolute (path_components s) then from_absolute_path (host_home H) (host_current_dir H) s
          else Inl ''AbsolutePathBuf deserialized without a base path'')"

definition path_uri_from_raw :: "('u, str) fs_host \<Rightarrow> 'u uri_text \<Rightarrow> path option \<Rightarrow> str \<Rightarrow> str + 'u" where
  "path_uri_from_raw H T base s =
     (case deserialize_absolute H base s of
        Inr p \<Rightarrow> Inr (uri_from_abs_path H p)
      | Inl _ \<Rightarrow> uri_of_text T s)"

definition raw_path_from_uri :: "('u, str) fs_host \<Rightarrow> 'u uri_text \<Rightarrow> path option \<Rightarrow> 'u \<Rightarrow> str + str" where
  "raw_path_from_uri H T base u =
     (let raw_path = text_of_uri T u
      in if path_uri_from_raw H T base raw_path = Inr u then Inr raw_path
         else Inl ''permission path cannot be represented losslessly'')"

section \<open>Raw policies\<close>

datatype raw_fs_path = RawPath str | RawGlobPattern str | RawSpecial special_path

record raw_fs_entry =
  raw_path :: raw_fs_path
  raw_access :: access_mode
  raw_missing_behavior :: "missing_path_behavior option"

record raw_fs_policy =
  raw_kind :: fs_sandbox_kind
  raw_glob_scan_max_depth :: "nat option"
  raw_entries :: "raw_fs_entry list"

fun fs_path_from_raw :: "('u, str) fs_host \<Rightarrow> 'u uri_text \<Rightarrow> path option \<Rightarrow> raw_fs_path \<Rightarrow> str + 'u fs_path" where
  "fs_path_from_raw H T base (RawPath s) = and_then (path_uri_from_raw H T base s) (\<lambda>u. Inr (PathEntry u))"
| "fs_path_from_raw H T base (RawGlobPattern g) = Inr (GlobPattern g)"
| "fs_path_from_raw H T base (RawSpecial v) = Inr (SpecialEntry v)"

fun fs_path_to_raw :: "('u, str) fs_host \<Rightarrow> 'u uri_text \<Rightarrow> path option \<Rightarrow> 'u fs_path \<Rightarrow> str + raw_fs_path" where
  "fs_path_to_raw H T base (PathEntry u) = and_then (raw_path_from_uri H T base u) (\<lambda>s. Inr (RawPath s))"
| "fs_path_to_raw H T base (GlobPattern g) = Inr (RawGlobPattern g)"
| "fs_path_to_raw H T base (SpecialEntry v) = Inr (RawSpecial v)"

definition fs_entry_from_raw :: "('u, str) fs_host \<Rightarrow> 'u uri_text \<Rightarrow> path option \<Rightarrow> raw_fs_entry \<Rightarrow> str + 'u fs_entry" where
  "fs_entry_from_raw H T base e =
     and_then (fs_path_from_raw H T base (raw_path e)) (\<lambda>p.
       Inr \<lparr>entry_path = p, entry_access = raw_access e, missing_behavior = raw_missing_behavior e\<rparr>)"

definition fs_entry_to_raw :: "('u, str) fs_host \<Rightarrow> 'u uri_text \<Rightarrow> path option \<Rightarrow> 'u fs_entry \<Rightarrow> str + raw_fs_entry" where
  "fs_entry_to_raw H T base e =
     and_then (fs_path_to_raw H T base (entry_path e)) (\<lambda>p.
       Inr \<lparr>raw_path = p, raw_access = entry_access e, raw_missing_behavior = missing_behavior e\<rparr>)"

definition fs_policy_from_raw :: "('u, str) fs_host \<Rightarrow> 'u uri_text \<Rightarrow> path option \<Rightarrow> raw_fs_policy \<Rightarrow> str + 'u fs_policy" where
  "fs_policy_from_raw H T base R =
     and_then (collect_results (fs_entry_from_raw H T base) (raw_entries R)) (\<lambda>es.
       Inr \<lparr>fs_kind = raw_kind R, glob_scan_max_depth = raw_glob_scan_max_depth R, fs_entries = es\<rparr>)"

definition fs_policy_to_raw :: "('u, str) fs_host \<Rightarrow> 'u uri_text \<Rightarrow> path option \<Rightarrow> 'u fs_policy \<Rightarrow> str + raw_fs_policy" where
  "fs_policy_to_raw H T base P =
     and_then (collect_results (fs_entry_to_raw H T base) (fs_entries P)) (\<lambda>es.
       Inr \<lparr>raw_kind = fs_kind P, raw_glob_scan_max_depth = glob_scan_max_depth P, raw_entries = es\<rparr>)"

section \<open>Wire forms of permissions\<close>

datatype fs_permissions_wire =
    WireCanonical "raw_fs_entry list" "nat option"
  | WireLegacy legacy_read_write_roots

definition serialize_fs_permissions ::
    "('u, str) fs_host \<Rightarrow> 'u uri_text \<Rightarrow> path option \<Rightarrow> 'u file_system_permissions \<Rightarrow> str + fs_permissions_wire" where
  "serialize_fs_permissions H T base p =
     (case as_legacy_permissions H p of
        Some legacy \<Rightarrow> Inr (WireLegacy legacy)
      | None \<Rightarrow>
          and_then (collect_results (fs_entry_to_raw H T base) (perm_entries p)) (\<lambda>es.
            Inr (WireCanonical es (perm_glob_scan_max_depth p))))"

fun deserialize_fs_permissions ::
    "('u, str) fs_host \<Rightarrow> 'u uri_text \<Rightarrow> path option \<Rightarrow> fs_permissions_wire \<Rightarrow> str + 'u file_system_permissions" where
  "deserialize_fs_permissions H T base (WireCanonical es depth) =
     and_then (collect_results (fs_entry_from_raw H T base) es) (\<lambda>es.
       Inr \<lparr>perm_entries = es, perm_glob_scan_max_depth = depth\<rparr>)"
| "deserialize_fs_permissions H T base (WireLegacy legacy) =
     Inr (from_read_write_roots H (legacy_read legacy) (legacy_write legacy))"

datatype managed_fs_wire = WireRestricted "raw_fs_entry list" "nat option" | WireUnrestricted

fun serialize_managed_fs ::
    "('u, str) fs_host \<Rightarrow> 'u uri_text \<Rightarrow> path option \<Rightarrow> 'u fs_entry managed_fs \<Rightarrow> str + managed_fs_wire" where
  "serialize_managed_fs H T base (ManagedRestricted es depth) =
     and_then (collect_results (fs_entry_to_raw H T base) es) (\<lambda>es. Inr (WireRestricted es depth))"
| "serialize_managed_fs H T base ManagedUnrestricted = Inr WireUnrestricted"

fun deserialize_managed_fs ::
    "('u, str) fs_host \<Rightarrow> 'u uri_text \<Rightarrow> path option \<Rightarrow> managed_fs_wire \<Rightarrow> str + 'u fs_entry managed_fs" where
  "deserialize_managed_fs H T base (WireRestricted es depth) =
     and_then (collect_results (fs_entry_from_raw H T base) es) (\<lambda>es. Inr (ManagedRestricted es depth))"
| "deserialize_managed_fs H T base WireUnrestricted = Inr ManagedUnrestricted"

section \<open>Round trips\<close>

lemma fs_entry_raw_inverse:
  "fs_entry_to_raw H T base e = Inr r \<Longrightarrow> fs_entry_from_raw H T base r = Inr e"
  by (cases "entry_path e")
    (auto simp: fs_entry_to_raw_def fs_entry_from_raw_def raw_path_from_uri_def Let_def split: if_splits)

lemma collect_results_inverse:
  assumes "\<And>x y. f x = Inr y \<Longrightarrow> g y = Inr x"
  shows "collect_results f xs = Inr ys \<Longrightarrow> collect_results g ys = Inr xs"
proof (induction xs arbitrary: ys)
  case (Cons x xs)
  then show ?case using assms by auto
qed simp

lemma raw_entries_inverse:
  "collect_results (fs_entry_to_raw H T base) es = Inr rs \<Longrightarrow> collect_results (fs_entry_from_raw H T base) rs = Inr es"
  by (rule collect_results_inverse [OF fs_entry_raw_inverse])

text \<open>
  A policy that can be written in its raw form is read back unchanged: every entry whose path would be lost is an error.
\<close>

theorem raw_policy_round_trip:
  assumes "fs_policy_to_raw H T base P = Inr R"
  shows "fs_policy_from_raw H T base R = Inr P"
proof -
  obtain es where es: "collect_results (fs_entry_to_raw H T base) (fs_entries P) = Inr es"
      "R = \<lparr>raw_kind = fs_kind P, raw_glob_scan_max_depth = glob_scan_max_depth P, raw_entries = es\<rparr>"
    using assms by (auto simp: fs_policy_to_raw_def)
  have "collect_results (fs_entry_from_raw H T base) es = Inr (fs_entries P)"
    by (rule raw_entries_inverse [OF es(1)])
  then show ?thesis by (simp add: fs_policy_from_raw_def es(2))
qed

lemma managed_fs_round_trip:
  "serialize_managed_fs H T base m = Inr w \<Longrightarrow> deserialize_managed_fs H T base w = Inr m"
  by (cases m) (auto dest: raw_entries_inverse)

lemma legacy_loop_entries:
  assumes "legacy_permissions_loop H es rs ws = Some (rs', ws')"
  shows "set rs' = set rs \<union> {p. \<exists>e \<in> set es. entry_access e = Read \<and> (\<exists>u. entry_path e = PathEntry u \<and> uri_to_abs_path H u = Inr p)}
     \<and> set ws' = set ws \<union> {p. \<exists>e \<in> set es. entry_access e = Write \<and> (\<exists>u. entry_path e = PathEntry u \<and> uri_to_abs_path H u = Inr p)}
     \<and> (\<forall>e \<in> set es. entry_access e \<noteq> Deny \<and> (\<exists>u p. entry_path e = PathEntry u \<and> uri_to_abs_path H u = Inr p))"
  using assms
proof (induction es arbitrary: rs ws)
  case (Cons e es)
  obtain u p where u: "entry_path e = PathEntry u" "uri_to_abs_path H u = Inr p" "entry_access e \<noteq> Deny"
    using Cons.prems by (auto split: fs_path.splits sum.splits access_mode.splits)
  show ?case
  proof (cases "entry_access e")
    case Read
    with Cons.prems u have "legacy_permissions_loop H es (rs @ [p]) ws = Some (rs', ws')" by simp
    from Cons.IH [OF this] show ?thesis using u Read by auto
  next
    case Write
    with Cons.prems u have "legacy_permissions_loop H es rs (ws @ [p]) = Some (rs', ws')" by simp
    from Cons.IH [OF this] show ?thesis using u Write by auto
  qed (use u in simp)
qed simp

lemma resolved_entries_restricted_append:
  "resolved_entries_with_cwd H (fs_restricted (xs @ ys)) cwd
    = resolved_entries_with_cwd H (fs_restricted xs) cwd @ resolved_entries_with_cwd H (fs_restricted ys) cwd"
  by (simp add: resolved_entries_with_cwd_def fs_restricted_def map_filter_append Let_def)

lemma resolved_path_entries:
  assumes "host_ok H" "\<And>q. q \<in> set ps \<Longrightarrow> normalized_absolute q"
  shows "resolved_entries_with_cwd H (fs_restricted (map (\<lambda>p. entry_new (PathEntry (uri_from_abs_path H p)) a) ps)) cwd
    = map (\<lambda>q. \<lparr>res_path = q, res_access = a\<rparr>) ps"
  using assms(2)
proof (induction ps)
  case (Cons p ps)
  then have "uri_to_abs_path H (uri_from_abs_path H p) = Inr p" using assms(1) by (simp add: host_ok_def)
  with Cons show ?case
    by (simp add: resolved_entries_with_cwd_def fs_restricted_def List.map_filter_simps entry_new_def resolve_entry_path_def Let_def)
qed (simp add: resolved_entries_with_cwd_def fs_restricted_def List.map_filter_simps)

lemma legacy_resolved_entries:
  assumes ok: "host_ok H" and "as_legacy_permissions H p = Some L"
  shows "set (resolved_entries_with_cwd H (fs_restricted (perm_entries (from_read_write_roots H (legacy_read L) (legacy_write L)))) cwd)
    = set (resolved_entries_with_cwd H (fs_restricted (perm_entries p)) cwd)"
proof -
  obtain rs ws where loop: "legacy_permissions_loop H (perm_entries p) [] [] = Some (rs, ws)"
      and L: "L = \<lparr>legacy_read = (if rs \<noteq> [] then Some rs else None), legacy_write = (if ws \<noteq> [] then Some ws else None)\<rparr>"
    using assms(2) by (auto simp: as_legacy_permissions_def split: if_splits)
  note entries = legacy_loop_entries [OF loop, simplified]
  have norm: "normalized_absolute q" if "q \<in> set rs \<union> set ws" for q using entries that ok by (auto simp: host_ok_def)
  have es: "perm_entries (from_read_write_roots H (legacy_read L) (legacy_write L))
      = map (\<lambda>p. entry_new (PathEntry (uri_from_abs_path H p)) Read) rs @ map (\<lambda>p. entry_new (PathEntry (uri_from_abs_path H p)) Write) ws"
    by (simp add: L from_read_write_roots_def permissions_from_paths_def)
  have left: "resolved_entries_with_cwd H (fs_restricted (perm_entries (from_read_write_roots H (legacy_read L) (legacy_write L)))) cwd
      = map (\<lambda>q. \<lparr>res_path = q, res_access = Read\<rparr>) rs @ map (\<lambda>q. \<lparr>res_path = q, res_access = Write\<rparr>) ws"
    unfolding es using norm by (simp add: resolved_path_entries [OF ok] resolved_entries_restricted_append)
  have resolve: "resolve_entry_path H (PathEntry u) c = result_ok (uri_to_abs_path H u)" for u c
    by (simp add: resolve_entry_path_def)
  show ?thesis
  proof (intro set_eqI iffI)
    fix r
    assume "r \<in> set (resolved_entries_with_cwd H (fs_restricted (perm_entries (from_read_write_roots H (legacy_read L) (legacy_write L)))) cwd)"
    then obtain e u where "e \<in> set (perm_entries p)" "entry_path e = PathEntry u" "uri_to_abs_path H u = Inr (res_path r)"
        "r = \<lparr>res_path = res_path r, res_access = entry_access e\<rparr>"
      unfolding left using entries by auto
    then show "r \<in> set (resolved_entries_with_cwd H (fs_restricted (perm_entries p)) cwd)"
      using resolved_entriesI [of e "fs_restricted (perm_entries p)" H cwd "res_path r" "entry_access e"] resolve
      by (simp add: fs_restricted_def)
  next
    fix r
    assume "r \<in> set (resolved_entries_with_cwd H (fs_restricted (perm_entries p)) cwd)"
    then obtain e where e: "e \<in> set (perm_entries p)" "r = \<lparr>res_path = res_path r, res_access = entry_access e\<rparr>"
        "resolve_entry_path H (entry_path e) (result_ok (abs_from_path H cwd)) = Some (res_path r)"
      by (auto simp: set_resolved_entries fs_restricted_def)
    then obtain u where "entry_path e = PathEntry u" "uri_to_abs_path H u = Inr (res_path r)" "entry_access e \<noteq> Deny"
      using entries resolve by fastforce
    then have "entry_access e = Read \<and> res_path r \<in> set rs \<or> entry_access e = Write \<and> res_path r \<in> set ws"
      using entries e(1) by (cases "entry_access e") auto
    then show "r \<in> set (resolved_entries_with_cwd H (fs_restricted (perm_entries (from_read_write_roots H (legacy_read L) (legacy_write L)))) cwd)"
      unfolding left using e(2) by auto
  qed
qed

text \<open>
  Permissions written to the wire are read back with the same access for every path, in the older form and in the canonical
  one.
\<close>

theorem fs_permissions_wire_keeps_access:
  assumes "host_ok H" and "serialize_fs_permissions H T base p = Inr w"
  shows "\<exists>p'. deserialize_fs_permissions H T base w = Inr p'
     \<and> (\<forall>q cwd. resolve_access_with_cwd H (fs_restricted (perm_entries p')) q cwd =
          resolve_access_with_cwd H (fs_restricted (perm_entries p)) q cwd)"
proof (cases "as_legacy_permissions H p")
  case None
  then obtain es where "collect_results (fs_entry_to_raw H T base) (perm_entries p) = Inr es"
      "w = WireCanonical es (perm_glob_scan_max_depth p)"
    using assms(2) by (auto simp: serialize_fs_permissions_def)
  then have "deserialize_fs_permissions H T base w = Inr \<lparr>perm_entries = perm_entries p, perm_glob_scan_max_depth = perm_glob_scan_max_depth p\<rparr>"
    using raw_entries_inverse by auto
  then show ?thesis by auto
next
  case (Some L)
  let ?p = "from_read_write_roots H (legacy_read L) (legacy_write L)"
  have "resolve_access_with_cwd H (fs_restricted (perm_entries ?p)) q cwd = resolve_access_with_cwd H (fs_restricted (perm_entries p)) q cwd"
    for q cwd
  proof (cases "resolve_candidate_path H q cwd")
    case (Some q')
    have "access_of (resolved_entries_with_cwd H (fs_restricted (perm_entries ?p)) cwd) q'
        = access_of (resolved_entries_with_cwd H (fs_restricted (perm_entries p)) cwd) q'"
      by (rule access_of_cong_set [OF legacy_resolved_entries [OF assms(1) \<open>as_legacy_permissions H p = Some L\<close>]])
    then show ?thesis using resolve_access_restricted [OF _ Some] by (simp add: fs_restricted_def)
  qed (simp add: resolve_access_with_cwd_def fs_restricted_def)
  moreover have "deserialize_fs_permissions H T base w = Inr ?p"
    using assms(2) Some by (auto simp: serialize_fs_permissions_def)
  ultimately show ?thesis by blast
qed

section \<open>Examples\<close>

definition plain_uri_text :: "path uri_text" where
  "plain_uri_text = \<lparr>uri_of_text = (\<lambda>s. Inl ''not absolute''), text_of_uri = path_string\<rparr>"

theorem raw_policy_round_trip_witness:
  "\<exists>R. fs_policy_to_raw plain_host plain_uri_text None sample_policy = Inr R
     \<and> fs_policy_from_raw plain_host plain_uri_text None R = Inr sample_policy"
proof -
  have "\<not> isl (fs_policy_to_raw plain_host plain_uri_text None sample_policy)" by code_simp
  then obtain R where R: "fs_policy_to_raw plain_host plain_uri_text None sample_policy = Inr R"
    by (cases "fs_policy_to_raw plain_host plain_uri_text None sample_policy") auto
  then show ?thesis using raw_policy_round_trip [OF R] by blast
qed

text \<open>The order of the entries is not kept, nor is the mark that a missing path is to be skipped.\<close>

definition marked_permissions :: "path file_system_permissions" where
  "marked_permissions =
     \<lparr>perm_entries = [entry_new (PathEntry (abs_names [''w''])) Write, entry_skip_missing_path (PathEntry (abs_names [''r''])) Read],
      perm_glob_scan_max_depth = None\<rparr>"

theorem fs_permissions_wire_keeps_access_witness:
  "\<exists>w p'. serialize_fs_permissions plain_host plain_uri_text None marked_permissions = Inr w
     \<and> deserialize_fs_permissions plain_host plain_uri_text None w = Inr p'
     \<and> (\<forall>q cwd. resolve_access_with_cwd plain_host (fs_restricted (perm_entries p')) q cwd =
          resolve_access_with_cwd plain_host (fs_restricted (perm_entries marked_permissions)) q cwd)"
proof -
  have "\<not> isl (serialize_fs_permissions plain_host plain_uri_text None marked_permissions)" by code_simp
  then obtain w where w: "serialize_fs_permissions plain_host plain_uri_text None marked_permissions = Inr w"
    by (cases "serialize_fs_permissions plain_host plain_uri_text None marked_permissions") auto
  then show ?thesis using fs_permissions_wire_keeps_access [OF plain_host_ok w] by blast
qed

lemma wire_loses_mark:
  "\<exists>w p'. serialize_fs_permissions plain_host plain_uri_text None marked_permissions = Inr w
     \<and> deserialize_fs_permissions plain_host plain_uri_text None w = Inr p'
     \<and> list_ex skips_missing_path (perm_entries marked_permissions) \<and> \<not> list_ex skips_missing_path (perm_entries p')"
  by (rule exI [of _ "WireLegacy \<lparr>legacy_read = Some [abs_names [''r'']], legacy_write = Some [abs_names [''w'']]\<rparr>"],
      rule exI [of _ "from_read_write_roots plain_host (Some [abs_names [''r'']]) (Some [abs_names [''w'']])"]) code_simp

end
