(* ===== verification/Exec_Policy_Parser.thy ===== *)
theory Exec_Policy_Parser
  imports Exec_Policy
begin

text \<open>
  Building a policy from policy files (\<open>codex-rs/execpolicy/src/parser.rs\<close>).

  The files are Starlark programs.  The interpreter is the package \<open>starlark\<close>: a value is an
  element of the type \<open>'v\<close>, inspected through the operations of \<open>V\<close>, and the evaluation of a
  module is the sequence of calls it makes to the three builtins, together with the error it ends
  with, if any.  Every builtin returns \<open>None\<close> to the Starlark program, so the calls a module makes
  do not depend on the builder.  A builtin that fails stops the evaluation and leaves the builder
  as the earlier calls made it; so does the model, which returns the builder beside the result.
\<close>

section \<open>Values\<close>

record 'v value_ops =
  unpack_str :: "'v \<Rightarrow> str option"
  list_content :: "'v \<Rightarrow> 'v list option"
  get_type :: "'v \<Rightarrow> str"

definition unpack_pattern_alternative :: "'v value_ops \<Rightarrow> 'v \<Rightarrow> exec_error + str" where
  "unpack_pattern_alternative V v =
     ok_or (InvalidPattern (''pattern alternative must be a string (got '' @ get_type V v @ '')''))
       (unpack_str V v)"

definition parse_pattern_token :: "'v value_ops \<Rightarrow> 'v \<Rightarrow> exec_error + pattern_token" where
  "parse_pattern_token V v =
     (case unpack_str V v of
        Some s \<Rightarrow> Inr (Single s)
      | None \<Rightarrow>
          (case list_content V v of
             Some vs \<Rightarrow>
               and_then (collect_results (unpack_pattern_alternative V) vs) (\<lambda>tokens.
                 case tokens of
                   [] \<Rightarrow> Inl (InvalidPattern ''pattern alternatives cannot be empty'')
                 | [single] \<Rightarrow> Inr (Single single)
                 | _ \<Rightarrow> Inr (Alts tokens))
           | None \<Rightarrow> Inl (InvalidPattern
               (''pattern element must be a string or list of strings (got '' @ get_type V v @ '')''))))"

definition parse_pattern :: "'v value_ops \<Rightarrow> 'v list \<Rightarrow> exec_error + pattern_token list" where
  "parse_pattern V items =
     and_then (collect_results (parse_pattern_token V) items) (\<lambda>tokens.
       if tokens = [] then Inl (InvalidPattern ''pattern cannot be empty'') else Inr tokens)"

section \<open>Examples\<close>

definition parse_string_example :: "(str \<Rightarrow> str list option) \<Rightarrow> str \<Rightarrow> exec_error + str list" where
  "parse_string_example shlex_split raw =
     and_then (ok_or (InvalidExample ''example string has invalid shell syntax'') (shlex_split raw))
       (\<lambda>tokens. if tokens = [] then Inl (InvalidExample ''example cannot be an empty string'')
                 else Inr tokens)"

definition unpack_example_token :: "'v value_ops \<Rightarrow> 'v \<Rightarrow> exec_error + str" where
  "unpack_example_token V v =
     ok_or (InvalidExample (''example tokens must be strings (got '' @ get_type V v @ '')''))
       (unpack_str V v)"

definition parse_list_example :: "'v value_ops \<Rightarrow> 'v list \<Rightarrow> exec_error + str list" where
  "parse_list_example V vs =
     and_then (collect_results (unpack_example_token V) vs) (\<lambda>tokens.
       if tokens = [] then Inl (InvalidExample ''example cannot be an empty list'') else Inr tokens)"

definition parse_example ::
    "'v value_ops \<Rightarrow> (str \<Rightarrow> str list option) \<Rightarrow> 'v \<Rightarrow> exec_error + str list" where
  "parse_example V shlex_split v =
     (case unpack_str V v of
        Some raw \<Rightarrow> parse_string_example shlex_split raw
      | None \<Rightarrow>
          (case list_content V v of
             Some vs \<Rightarrow> parse_list_example V vs
           | None \<Rightarrow> Inl (InvalidExample
               (''example must be a string or list of strings (got '' @ get_type V v @ '')''))))"

definition parse_examples ::
    "'v value_ops \<Rightarrow> (str \<Rightarrow> str list option) \<Rightarrow> 'v list option \<Rightarrow> exec_error + str list list" where
  "parse_examples V shlex_split examples =
     (case examples of None \<Rightarrow> Inr [] | Some vs \<Rightarrow> collect_results (parse_example V shlex_split) vs)"

section \<open>Host executables\<close>

definition parse_literal_absolute_path :: "process_env \<Rightarrow> str \<Rightarrow> exec_error + path" where
  "parse_literal_absolute_path env raw =
     (if \<not> is_absolute (path_components raw)
      then Inl (InvalidRule (''host_executable paths must be absolute (got '' @ raw @ '')''))
      else map_err (\<lambda>error. InvalidRule (''invalid absolute path `'' @ raw @ ''`: '' @ error))
             (from_absolute_path (env_home env) (env_cwd env) raw))"

definition validate_host_executable_name :: "str \<Rightarrow> exec_error + unit" where
  "validate_host_executable_name name =
     (if name = [] then Inl (InvalidRule ''host_executable name cannot be empty'')
      else if length (path_components name) \<noteq> 1 \<or> path_file_name (path_components name) \<noteq> Some name
      then Inl (InvalidRule
        (''host_executable name must be a bare executable name (got '' @ name @ '')''))
      else Inr ())"

definition parse_network_rule_decision :: "str \<Rightarrow> exec_error + decision" where
  "parse_network_rule_decision raw =
     (if raw = ''deny'' then Inr Forbidden else parse_decision raw)"

text \<open>The loop over the paths of one \<open>host_executable\<close> call.\<close>

fun parse_executable_paths ::
    "'v value_ops \<Rightarrow> process_env \<Rightarrow> str \<Rightarrow> path list \<Rightarrow> 'v list \<Rightarrow> exec_error + path list" where
  "parse_executable_paths V env name parsed [] = Inr parsed"
| "parse_executable_paths V env name parsed (v # vs) =
     and_then (ok_or (InvalidRule
         (''host_executable paths must be strings (got '' @ get_type V v @ '')'')) (unpack_str V v))
       (\<lambda>raw. and_then (parse_literal_absolute_path env raw) (\<lambda>p.
         let wrong = InvalidRule (''host_executable path `'' @ raw @ ''` must have basename `'' @ name @ ''`'')
         in case executable_path_lookup_key p of
              None \<Rightarrow> Inl wrong
            | Some path_name \<Rightarrow>
                if path_name \<noteq> executable_lookup_key name then Inl wrong
                else parse_executable_paths V env name
                       (if list_ex (\<lambda>existing. existing = p) parsed then parsed else parsed @ [p]) vs))"

section \<open>The builder\<close>

record pending_validation =
  pv_rules :: "prefix_rule list"
  pv_matches :: "str list list"
  pv_not_matches :: "str list list"
  pv_location :: "error_location option"

record 'm builder =
  b_rules :: 'm
  b_network_rules :: "network_rule list"
  b_hosts :: "str \<rightharpoonup> path list"
  b_pending :: "pending_validation list"

definition builder_new :: "('m, 'z) multimap_ops_scheme \<Rightarrow> 'm builder" where
  "builder_new M = \<lparr>b_rules = mm_new M, b_network_rules = [], b_hosts = Map.empty, b_pending = []\<rparr>"

definition add_rule :: "('m, 'z) multimap_ops_scheme \<Rightarrow> 'm builder \<Rightarrow> prefix_rule \<Rightarrow> 'm builder" where
  "add_rule M b r = b\<lparr>b_rules := mm_insert M (b_rules b) (rule_program r) r\<rparr>"

definition add_host_executable :: "'m builder \<Rightarrow> str \<Rightarrow> path list \<Rightarrow> 'm builder" where
  "add_host_executable b name paths = b\<lparr>b_hosts := (b_hosts b)(name \<mapsto> paths)\<rparr>"

definition add_pending_example_validation :: "'m builder \<Rightarrow> pending_validation \<Rightarrow> 'm builder" where
  "add_pending_example_validation b v = b\<lparr>b_pending := b_pending b @ [v]\<rparr>"

definition build :: "'m builder \<Rightarrow> 'm policy" where
  "build b = policy_from_parts (b_rules b) (b_network_rules b) (b_hosts b)"

definition attach_validation_location :: "error_location option \<Rightarrow> exec_error \<Rightarrow> exec_error" where
  "attach_validation_location l error =
     (case l of None \<Rightarrow> error | Some location \<Rightarrow> with_location error location)"

text \<open>The policy that holds only the rules of one call, with the current host executables.\<close>

definition validation_policy ::
    "('m, 'z) multimap_ops_scheme \<Rightarrow> (str \<rightharpoonup> path list) \<Rightarrow> prefix_rule list \<Rightarrow> 'm policy" where
  "validation_policy M hosts rules =
     policy_from_parts (foldl (\<lambda>m r. mm_insert M m (rule_program r) r) (mm_new M) rules) [] hosts"

record renderers =
  try_join :: "str list \<Rightarrow> str option"
  debug_rule :: "prefix_rule \<Rightarrow> str"
  debug_match :: "rule_match \<Rightarrow> str"

definition validate_pending ::
    "('m, 'z) multimap_ops_scheme \<Rightarrow> process_env \<Rightarrow> renderers \<Rightarrow> (str \<rightharpoonup> path list) \<Rightarrow>
       pending_validation \<Rightarrow> exec_error + unit" where
  "validate_pending M env R hosts v =
     (let p = validation_policy M hosts (pv_rules v)
      in and_then (map_err (attach_validation_location (pv_location v))
             (validate_not_match_examples M env (try_join R) (debug_match R) p (pv_not_matches v)))
           (\<lambda>_. map_err (attach_validation_location (pv_location v))
             (validate_match_examples M env (try_join R) (debug_rule R) p (pv_rules v)
               (pv_matches v))))"

definition validate_pending_examples_from ::
    "('m, 'z) multimap_ops_scheme \<Rightarrow> process_env \<Rightarrow> renderers \<Rightarrow> 'm builder \<Rightarrow> nat \<Rightarrow>
       exec_error + unit" where
  "validate_pending_examples_from M env R b start =
     and_then (collect_results (validate_pending M env R (b_hosts b)) (drop start (b_pending b)))
       (\<lambda>_. Inr ())"

section \<open>The builtins\<close>

datatype 'v builtin_call =
    PrefixRuleCall "'v list" "str option" "'v list option" "'v list option" "str option"
      "error_location option"
  | NetworkRuleCall str str str "str option"
  | HostExecutableCall str "'v list"

definition make_rules ::
    "pattern_token \<Rightarrow> pattern_token list \<Rightarrow> decision \<Rightarrow> str option \<Rightarrow> prefix_rule list" where
  "make_rules first_token remaining d j =
     map (\<lambda>head. \<lparr>pattern = \<lparr>first = head, rest = remaining\<rparr>, rule_decision = d, justification = j\<rparr>)
       (alternatives first_token)"

definition builtin_prefix_rule ::
    "('m, 'z) multimap_ops_scheme \<Rightarrow> 'v value_ops \<Rightarrow> (str \<Rightarrow> str list option) \<Rightarrow> 'm builder \<Rightarrow>
       'v list \<Rightarrow> str option \<Rightarrow> 'v list option \<Rightarrow> 'v list option \<Rightarrow> str option \<Rightarrow>
       error_location option \<Rightarrow> exec_error + 'm builder" where
  "builtin_prefix_rule M V shlex_split b items d match_ex not_match_ex j location =
     and_then (case d of Some raw \<Rightarrow> parse_decision raw | None \<Rightarrow> Inr Allow) (\<lambda>d.
     and_then (check_justification j) (\<lambda>j.
     and_then (parse_pattern V items) (\<lambda>pattern_tokens.
     and_then (parse_examples V shlex_split match_ex) (\<lambda>matches.
     and_then (parse_examples V shlex_split not_match_ex) (\<lambda>not_matches.
       case pattern_tokens of
         [] \<Rightarrow> Inl (InvalidPattern ''pattern cannot be empty'')
       | first_token # remaining_tokens \<Rightarrow>
           let rules = make_rules first_token remaining_tokens d j;
               b1 = add_pending_example_validation b \<lparr>pv_rules = rules, pv_matches = matches,
                      pv_not_matches = not_matches, pv_location = location\<rparr>
           in Inr (foldl (add_rule M) b1 rules))))))"

definition builtin_network_rule ::
    "'m builder \<Rightarrow> str \<Rightarrow> str \<Rightarrow> str \<Rightarrow> str option \<Rightarrow> exec_error + 'm builder" where
  "builtin_network_rule b host protocol d j =
     and_then (parse_protocol protocol) (\<lambda>protocol.
     and_then (parse_network_rule_decision d) (\<lambda>d.
     and_then (check_justification j) (\<lambda>j.
     and_then (normalize_network_rule_host host) (\<lambda>host.
       Inr (b\<lparr>b_network_rules := b_network_rules b @
         [\<lparr>nr_host = host, nr_protocol = protocol, nr_decision = d, nr_justification = j\<rparr>]\<rparr>)))))"

definition builtin_host_executable ::
    "'v value_ops \<Rightarrow> process_env \<Rightarrow> 'm builder \<Rightarrow> str \<Rightarrow> 'v list \<Rightarrow> exec_error + 'm builder" where
  "builtin_host_executable V env b name paths =
     and_then (validate_host_executable_name name) (\<lambda>_.
     and_then (parse_executable_paths V env name [] paths) (\<lambda>parsed.
       Inr (add_host_executable b (executable_lookup_key name) parsed)))"

fun run_builtin ::
    "('m, 'z) multimap_ops_scheme \<Rightarrow> 'v value_ops \<Rightarrow> (str \<Rightarrow> str list option) \<Rightarrow> process_env \<Rightarrow>
       'm builder \<Rightarrow> 'v builtin_call \<Rightarrow> exec_error + 'm builder" where
  "run_builtin M V shlex_split env b (PrefixRuleCall items d m nm j l) =
     builtin_prefix_rule M V shlex_split b items d m nm j l"
| "run_builtin M V shlex_split env b (NetworkRuleCall host protocol d j) =
     builtin_network_rule b host protocol d j"
| "run_builtin M V shlex_split env b (HostExecutableCall name paths) =
     builtin_host_executable V env b name paths"

section \<open>Parsing a policy file\<close>

text \<open>
  What the interpreter reports of a file: the calls its evaluation makes and the error it ends
  with.  A syntax error is an evaluation without calls.
\<close>

record 'v module_run =
  calls :: "'v builtin_call list"
  eval_error :: "str option"

datatype parse_outcome = ParseOk | PolicyError exec_error | StarlarkError str

fun eval_calls ::
    "('m, 'z) multimap_ops_scheme \<Rightarrow> 'v value_ops \<Rightarrow> (str \<Rightarrow> str list option) \<Rightarrow> process_env \<Rightarrow>
       'm builder \<Rightarrow> 'v builtin_call list \<Rightarrow> 'm builder \<times> exec_error option" where
  "eval_calls M V shlex_split env b [] = (b, None)"
| "eval_calls M V shlex_split env b (c # cs) =
     (case run_builtin M V shlex_split env b c of
        Inl e \<Rightarrow> (b, Some e)
      | Inr b' \<Rightarrow> eval_calls M V shlex_split env b' cs)"

definition parse_policy ::
    "('m, 'z) multimap_ops_scheme \<Rightarrow> 'v value_ops \<Rightarrow> (str \<Rightarrow> str list option) \<Rightarrow> process_env \<Rightarrow>
       renderers \<Rightarrow> 'm builder \<Rightarrow> 'v module_run \<Rightarrow> 'm builder \<times> parse_outcome" where
  "parse_policy M V shlex_split env R b run =
     (let pending_validation_count = length (b_pending b);
          (b', failed) = eval_calls M V shlex_split env b (calls run)
      in case failed of
           Some e \<Rightarrow> (b', PolicyError e)
         | None \<Rightarrow>
             (case eval_error run of
                Some msg \<Rightarrow> (b', StarlarkError msg)
              | None \<Rightarrow>
                  (case validate_pending_examples_from M env R b' pending_validation_count of
                     Inl e \<Rightarrow> (b', PolicyError e)
                   | Inr _ \<Rightarrow> (b', ParseOk))))"

section \<open>The invariant of the builder\<close>

definition wf_host_entry :: "str \<Rightarrow> path list \<Rightarrow> bool" where
  "wf_host_entry name paths \<longleftrightarrow>
     distinct paths \<and> (\<forall>p \<in> set paths. path_file_name p = Some name \<and> normalized_absolute p)"

definition wf_builder :: "('m, 'z) multimap_ops_scheme \<Rightarrow> 'm builder \<Rightarrow> bool" where
  "wf_builder M b \<longleftrightarrow>
     rules_keyed M (b_rules b)
   \<and> (\<forall>r \<in> set (b_network_rules b). wf_network_host (nr_host r))
   \<and> (\<forall>name paths. b_hosts b name = Some paths \<longrightarrow> wf_host_entry name paths)"

lemma wf_builder_new: "multimap M \<Longrightarrow> wf_builder M (builder_new M)"
  by (simp add: wf_builder_def builder_new_def rules_keyed_new)

lemma literal_absolute_path_normalized:
  assumes "parse_literal_absolute_path env raw = Inr p"
  shows "normalized_absolute p"
proof -
  have abs: "is_absolute (path_components raw)"
    and p: "from_absolute_path (env_home env) (env_cwd env) raw = Inr p"
    using assms by (auto simp: parse_literal_absolute_path_def split: if_splits)
  have "starts_with raw ''/''" using abs by (simp add: is_absolute_path_components)
  then obtain r where "raw = CHR ''/'' # r" by (auto simp: starts_with_iff)
  then have "maybe_expand_home_directory (env_home env) raw = path_components raw"
    by (simp add: maybe_expand_home_directory_def strip_prefix_def)
  then show ?thesis
    using p abs by (auto simp: from_absolute_path_def absolutize_def normalize_path_absolute)
qed

lemma parse_executable_paths_wf:
  "parse_executable_paths V env name parsed vs = Inr paths \<Longrightarrow>
     wf_host_entry name parsed \<Longrightarrow> wf_host_entry name paths"
proof (induction vs arbitrary: parsed)
  case Nil
  then show ?case by simp
next
  case (Cons v vs)
  from Cons.prems(1) obtain raw p where p: "parse_literal_absolute_path env raw = Inr p"
    and key: "executable_path_lookup_key p = Some (executable_lookup_key name)"
    and go: "parse_executable_paths V env name
               (if list_ex (\<lambda>existing. existing = p) parsed then parsed else parsed @ [p]) vs
             = Inr paths"
    by (auto simp: Let_def split: option.splits if_splits)
  have "path_file_name p = Some name"
    using key by (auto simp: executable_path_lookup_key_def executable_lookup_key_def)
  with Cons.prems(2) literal_absolute_path_normalized [OF p]
  have "wf_host_entry name (if list_ex (\<lambda>existing. existing = p) parsed then parsed else parsed @ [p])"
    by (auto simp: wf_host_entry_def list_ex_iff)
  then show ?case by (rule Cons.IH [OF go])
qed

lemma foldl_add_rule_fields:
  "b_network_rules (foldl (add_rule M) b rs) = b_network_rules b
   \<and> b_hosts (foldl (add_rule M) b rs) = b_hosts b
   \<and> b_pending (foldl (add_rule M) b rs) = b_pending b"
  by (induction rs arbitrary: b) (auto simp: add_rule_def)

lemma foldl_add_rule_get:
  assumes "multimap M"
  shows "mm_get M (b_rules (foldl (add_rule M) b rs)) k =
    mm_get M (b_rules b) k @ filter (\<lambda>r. rule_program r = k) rs"
  by (induction rs arbitrary: b) (auto simp: add_rule_def multimap.mm_get_insert [OF assms])

lemma foldl_add_rule_keyed:
  "multimap M \<Longrightarrow> rules_keyed M (b_rules b) \<Longrightarrow>
     rules_keyed M (b_rules (foldl (add_rule M) b rs))"
  by (auto simp: rules_keyed_def foldl_add_rule_get)

lemma builtin_prefix_rule_Inr:
  assumes "builtin_prefix_rule M V sh b items d m nm j l = Inr b'"
  shows "\<exists>d' j' t ts ms ns. parse_pattern V items = Inr (t # ts)
    \<and> (case d of None \<Rightarrow> Inr Allow | Some raw \<Rightarrow> parse_decision raw) = Inr d'
    \<and> check_justification j = Inr j'
    \<and> parse_examples V sh m = Inr ms \<and> parse_examples V sh nm = Inr ns
    \<and> b' = foldl (add_rule M) (add_pending_example_validation b \<lparr>pv_rules = make_rules t ts d' j',
             pv_matches = ms, pv_not_matches = ns, pv_location = l\<rparr>) (make_rules t ts d' j')"
  using assms unfolding builtin_prefix_rule_def and_then_Inr_iff Let_def
  by (elim exE conjE) (auto split: list.split_asm)

lemma wf_builder_prefix_rule [wf_intros]:
  assumes "multimap M" and "wf_builder M b"
    and "builtin_prefix_rule M V sh b items d m nm j l = Inr b'"
  shows "wf_builder M b'"
  using builtin_prefix_rule_Inr [OF assms(3)] assms(1,2)
  by (auto simp: wf_builder_def foldl_add_rule_keyed foldl_add_rule_fields
      add_pending_example_validation_def)

lemma wf_builder_network_rule [wf_intros]:
  "wf_builder M b \<Longrightarrow> builtin_network_rule b host protocol d j = Inr b' \<Longrightarrow> wf_builder M b'"
  by (auto simp: wf_builder_def builtin_network_rule_def normalize_network_rule_host_wf)

lemma wf_builder_host_executable [wf_intros]:
  assumes "wf_builder M b" and "builtin_host_executable V env b name paths = Inr b'"
  shows "wf_builder M b'"
proof -
  obtain parsed where parsed: "parse_executable_paths V env name [] paths = Inr parsed"
    and b': "b' = add_host_executable b name parsed"
    using assms(2) by (auto simp: builtin_host_executable_def executable_lookup_key_def)
  have "wf_host_entry name parsed"
    using parse_executable_paths_wf [OF parsed] by (simp add: wf_host_entry_def)
  then show ?thesis using assms(1) by (auto simp: b' wf_builder_def add_host_executable_def)
qed

lemma wf_builder_run_builtin:
  "multimap M \<Longrightarrow> wf_builder M b \<Longrightarrow> run_builtin M V sh env b c = Inr b' \<Longrightarrow> wf_builder M b'"
  by (cases c) (auto intro: wf_intros)

lemma wf_builder_eval_calls:
  "multimap M \<Longrightarrow> wf_builder M b \<Longrightarrow> eval_calls M V sh env b cs = (b', e) \<Longrightarrow> wf_builder M b'"
proof (induction cs arbitrary: b)
  case Nil
  then show ?case by simp
next
  case (Cons c cs)
  then show ?case by (auto split: sum.splits intro: wf_builder_run_builtin)
qed

section \<open>Validated examples\<close>

lemma validate_not_match_examples_Inr:
  "validate_not_match_examples M env tj dbg p exs = Inr () \<Longrightarrow>
     \<forall>ex \<in> set exs. matches_for_command_with_options M env p ex None resolving_options = []"
  by (induction exs) (auto split: list.splits)

lemma validate_match_examples_Inr:
  "validate_match_examples M env tj dbg p rules exs = Inr () \<Longrightarrow>
     \<forall>ex \<in> set exs. matches_for_command_with_options M env p ex None resolving_options \<noteq> []"
  by (auto simp: validate_match_examples_def Let_def filter_empty_conv split: if_splits)

definition examples_hold ::
    "('m, 'z) multimap_ops_scheme \<Rightarrow> process_env \<Rightarrow> (str \<rightharpoonup> path list) \<Rightarrow> pending_validation \<Rightarrow>
       bool" where
  "examples_hold M env hosts v \<longleftrightarrow>
     (\<forall>ex \<in> set (pv_matches v). matches_for_command_with_options M env
        (validation_policy M hosts (pv_rules v)) ex None resolving_options \<noteq> []) \<and>
     (\<forall>ex \<in> set (pv_not_matches v). matches_for_command_with_options M env
        (validation_policy M hosts (pv_rules v)) ex None resolving_options = [])"

lemma validate_pending_Inr:
  "validate_pending M env R hosts v = Inr () \<Longrightarrow> examples_hold M env hosts v"
  by (auto simp: validate_pending_def Let_def examples_hold_def
      dest!: validate_match_examples_Inr validate_not_match_examples_Inr)

lemma validate_pending_examples_Inr:
  assumes "validate_pending_examples_from M env R b start = Inr u"
  shows "\<forall>v \<in> set (drop start (b_pending b)). examples_hold M env (b_hosts b) v"
proof
  fix v
  assume v: "v \<in> set (drop start (b_pending b))"
  obtain us where
    "list_all2 (\<lambda>v y. validate_pending M env R (b_hosts b) v = Inr y) (drop start (b_pending b)) us"
    using assms by (auto simp: validate_pending_examples_from_def collect_results_list_all2)
  then obtain y where "validate_pending M env R (b_hosts b) v = Inr y"
    using v by (auto simp: list_all2_conv_all_nth in_set_conv_nth)
  then show "examples_hold M env (b_hosts b) v" by (cases y) (auto intro: validate_pending_Inr)
qed

section \<open>Properties of the parser\<close>

text \<open>
  whatever a policy file does, and whether or not it is accepted, the builder keeps its
  invariant: each rule is stored under its own program, each network host is normalised, and
  each host executable entry holds distinct normalised absolute paths with that base name.
\<close>

theorem parse_policy_keeps_invariant:
  assumes "multimap M" and "wf_builder M b"
    and "parse_policy M V sh env R b run = (b', outcome)"
  shows "wf_builder M b'"
proof -
  obtain b1 e where b1: "eval_calls M V sh env b (calls run) = (b1, e)" by fastforce
  then have "b' = b1"
    using assms(3) by (auto simp: parse_policy_def split: option.splits sum.splits)
  then show ?thesis using wf_builder_eval_calls [OF assms(1,2) b1] by simp
qed

text \<open>
  when a policy file is accepted, every example of its rules has been checked against the
  rules of its own call with the host executables of the whole file: each positive example is
  matched by one of them and no negative example is.
\<close>

theorem parse_policy_examples_hold:
  assumes "parse_policy M V sh env R b run = (b', ParseOk)"
  shows "\<forall>v \<in> set (drop (length (b_pending b)) (b_pending b')). examples_hold M env (b_hosts b') v"
proof -
  obtain b1 e where b1: "eval_calls M V sh env b (calls run) = (b1, e)" by fastforce
  then have "b' = b1" and
    "\<exists>u. validate_pending_examples_from M env R b1 (length (b_pending b)) = Inr u"
    using assms by (auto simp: parse_policy_def split: option.splits sum.splits)
  then show ?thesis using validate_pending_examples_Inr by blast
qed

text \<open>
  a \<open>prefix_rule\<close> call that succeeds appends, under each program, exactly the rules for the
  alternatives of its first pattern element that name this program.
\<close>

theorem builtin_prefix_rule_adds:
  assumes "multimap M" and "builtin_prefix_rule M V sh b items d m nm j l = Inr b'"
  shows "\<exists>t ts d' j'. parse_pattern V items = Inr (t # ts) \<and>
    (\<forall>k. mm_get M (b_rules b') k = mm_get M (b_rules b) k @
       (if k \<in> set (alternatives t)
        then replicate (count_list (alternatives t) k)
          \<lparr>pattern = \<lparr>first = k, rest = ts\<rparr>, rule_decision = d', justification = j'\<rparr>
        else []))"
proof -
  have filter_make: "filter (\<lambda>r. rule_program r = k) (make_rules t ts d' j') =
      replicate (count_list (alternatives t) k)
        \<lparr>pattern = \<lparr>first = k, rest = ts\<rparr>, rule_decision = d', justification = j'\<rparr>"
    for k t ts d' j'
  proof -
    have "filter (\<lambda>r. rule_program r = k) (map (\<lambda>head.
        \<lparr>pattern = \<lparr>first = head, rest = ts\<rparr>, rule_decision = d', justification = j'\<rparr>) xs) =
        replicate (count_list xs k)
          \<lparr>pattern = \<lparr>first = k, rest = ts\<rparr>, rule_decision = d', justification = j'\<rparr>" for xs
      by (induction xs) (auto simp: rule_program_def)
    then show ?thesis by (simp add: make_rules_def)
  qed
  from builtin_prefix_rule_Inr [OF assms(2)] obtain d' j' t ts v where
    "parse_pattern V items = Inr (t # ts)" and
    b': "b' = foldl (add_rule M) (add_pending_example_validation b v) (make_rules t ts d' j')"
    by blast
  moreover have "count_list (alternatives t) k = 0" if "k \<notin> set (alternatives t)" for k
    using that by (simp add: count_list_0_iff)
  ultimately show ?thesis
    by (intro exI [of _ t] exI [of _ ts] exI [of _ d'] exI [of _ j'])
       (auto simp: foldl_add_rule_get [OF assms(1)] filter_make add_pending_example_validation_def)
qed

text \<open>
  Values for the witnesses: strings and lists of strings, an empty home, renderers that return
  fixed text, and a file with one rule, one positive and one negative example.
\<close>

datatype sample_value = SStr str | SList "sample_value list"

definition sample_values :: "sample_value value_ops" where
  "sample_values =
     \<lparr>unpack_str = (\<lambda>v. case v of SStr s \<Rightarrow> Some s | SList _ \<Rightarrow> None),
      list_content = (\<lambda>v. case v of SList vs \<Rightarrow> Some vs | SStr _ \<Rightarrow> None),
      get_type = (\<lambda>_. ''value'')\<rparr>"

definition sample_env :: process_env where
  "sample_env = \<lparr>env_home = None, env_cwd = Inl []\<rparr>"

definition sample_renderers :: renderers where
  "sample_renderers =
     \<lparr>try_join = (\<lambda>_. None), debug_rule = (\<lambda>_. ''rule''), debug_match = (\<lambda>_. ''match'')\<rparr>"

definition sample_run :: "sample_value module_run" where
  "sample_run =
     \<lparr>calls = [PrefixRuleCall [SList [SStr ''git'', SStr ''hg''], SStr ''push''] (Some ''prompt'')
        (Some [SList [SStr ''hg'', SStr ''push'']]) (Some [SList [SStr ''git'', SStr ''pull'']]) None None],
      eval_error = None\<rparr>"

lemma sample_run_accepted:
  "snd (parse_policy alist_multimap sample_values (\<lambda>_. None) sample_env sample_renderers
     (builder_new alist_multimap) sample_run) = ParseOk"
  by (simp add: parse_policy_def sample_run_def builtin_prefix_rule_def parse_decision_def
      check_justification_def parse_pattern_def parse_pattern_token_def sample_values_def
      unpack_pattern_alternative_def parse_examples_def parse_example_def parse_list_example_def
      unpack_example_token_def make_rules_def add_pending_example_validation_def builder_new_def
      add_rule_def validate_pending_examples_from_def validate_pending_def validation_policy_def
      policy_from_parts_def validate_match_examples_def matches_for_command_with_options_def
      match_exact_rules_def rule_program_def rule_matches_def matches_prefix_def
      alist_multimap_def alist_insert_def List.map_filter_def resolving_options_def
      match_host_executable_rules_def sample_env_def sample_renderers_def from_absolute_path_def
      absolutize_def maybe_expand_home_directory_def strip_prefix_def path_components_def
      component_of_field_def is_absolute_def starts_with_def Let_def)

theorem parse_policy_keeps_invariant_witness:
  "wf_builder alist_multimap (fst (parse_policy alist_multimap sample_values (\<lambda>_. None) sample_env
     sample_renderers (builder_new alist_multimap) sample_run))"
  by (rule parse_policy_keeps_invariant [OF alist_mm.multimap_axioms
        wf_builder_new [OF alist_mm.multimap_axioms] prod.collapse [symmetric]])

theorem parse_policy_examples_hold_witness:
  "list_all (examples_hold alist_multimap sample_env
       (b_hosts (fst (parse_policy alist_multimap sample_values (\<lambda>_. None) sample_env
          sample_renderers (builder_new alist_multimap) sample_run))))
     (b_pending (fst (parse_policy alist_multimap sample_values (\<lambda>_. None) sample_env
       sample_renderers (builder_new alist_multimap) sample_run)))"
proof -
  let ?r = "parse_policy alist_multimap sample_values (\<lambda>_. None) sample_env sample_renderers
    (builder_new alist_multimap) sample_run"
  have "?r = (fst ?r, ParseOk)" using sample_run_accepted by (metis prod.collapse)
  from parse_policy_examples_hold [OF this] show ?thesis
    by (simp add: builder_new_def list_all_iff)
qed

theorem builtin_prefix_rule_adds_witness:
  "\<exists>b' t ts d' j'.
     builtin_prefix_rule alist_multimap sample_values (\<lambda>_. None) (builder_new alist_multimap)
       [SList [SStr ''git'', SStr ''hg''], SStr ''push''] None None None None None = Inr b'
     \<and> parse_pattern sample_values [SList [SStr ''git'', SStr ''hg''], SStr ''push''] = Inr (t # ts)
     \<and> (\<forall>k. mm_get alist_multimap (b_rules b') k =
          mm_get alist_multimap (b_rules (builder_new alist_multimap)) k @
          (if k \<in> set (alternatives t)
           then replicate (count_list (alternatives t) k)
             \<lparr>pattern = \<lparr>first = k, rest = ts\<rparr>, rule_decision = d', justification = j'\<rparr>
           else []))"
proof -
  obtain b' where b': "builtin_prefix_rule alist_multimap sample_values (\<lambda>_. None)
      (builder_new alist_multimap) [SList [SStr ''git'', SStr ''hg''], SStr ''push'']
      None None None None None = Inr b'"
    by (simp add: builtin_prefix_rule_def check_justification_def parse_pattern_def
        parse_pattern_token_def sample_values_def unpack_pattern_alternative_def
        parse_examples_def Let_def)
  from builtin_prefix_rule_adds [OF alist_mm.multimap_axioms b'] b' show ?thesis by blast
qed

end
