(* ===== verification/Exec_Amend.thy ===== *)
theory Exec_Amend
  imports Exec_Approval
begin

text \<open>
  Amendments of the policy (\<open>codex-rs/execpolicy/src/amend.rs\<close>, and \<open>append_amendment_and_update\<close> and
  \<open>append_network_rule_and_update\<close> of \<open>codex-rs/core/src/exec_policy.rs\<close>): a rule that the user approved is appended to
  the rules file and added to the policy in memory.  The file operations are the argument \<open>F\<close> on a world of type
  \<open>'w\<close>; the locale \<open>policy_file\<close> states what the standard library promises of them.  JSON text of a
  string is an argument.  The update lock is held throughout, so an update is one function; the blocking task is
  taken to be joined.
\<close>

section \<open>The file\<close>

record ('w, 'i) file_ops =
  create_dir :: "'w \<Rightarrow> ('i + unit) \<times> 'w"
  already_exists :: "'i \<Rightarrow> bool"
  open_append :: "'w \<Rightarrow> ('i + unit) \<times> 'w"
  lock_file :: "'w \<Rightarrow> ('i + unit) \<times> 'w"
  seek_start :: "'w \<Rightarrow> ('i + unit) \<times> 'w"
  read_to_string :: "'w \<Rightarrow> ('i + str) \<times> 'w"
  write_all :: "str \<Rightarrow> 'w \<Rightarrow> ('i + unit) \<times> 'w"

datatype 'i amend_error =
    EmptyPrefix
  | InvalidNetworkRule str
  | MissingParent
  | CreatePolicyDir 'i
  | SerializePrefix 'i
  | SerializeNetworkRule 'i
  | OpenPolicyFile 'i
  | WritePolicyFile 'i
  | LockPolicyFile 'i
  | SeekPolicyFile 'i
  | ReadPolicyFile 'i

text \<open>\<open>op().map_err(err)?\<close> followed by the rest.\<close>

definition file_step ::
    "('w \<Rightarrow> ('i + 'a) \<times> 'w) \<Rightarrow> ('i \<Rightarrow> 'i amend_error) \<Rightarrow> ('a \<Rightarrow> 'w \<Rightarrow> ('i amend_error + 'b) \<times> 'w) \<Rightarrow>
       'w \<Rightarrow> ('i amend_error + 'b) \<times> 'w" where
  "file_step f err k w = (case f w of (Inl e, w') \<Rightarrow> (Inl (err e), w') | (Inr x, w') \<Rightarrow> k x w')"

definition write_line :: "('w, 'i) file_ops \<Rightarrow> str \<Rightarrow> 'w \<Rightarrow> ('i amend_error + unit) \<times> 'w" where
  "write_line F line = file_step (write_all F (line @ [lf_char])) WritePolicyFile (\<lambda>_ w. (Inr (), w))"

definition append_locked_line :: "('w, 'i) file_ops \<Rightarrow> str \<Rightarrow> 'w \<Rightarrow> ('i amend_error + unit) \<times> 'w" where
  "append_locked_line F line =
     file_step (open_append F) OpenPolicyFile (\<lambda>_.
     file_step (lock_file F) LockPolicyFile (\<lambda>_.
     file_step (seek_start F) SeekPolicyFile (\<lambda>_.
     file_step (read_to_string F) ReadPolicyFile (\<lambda>contents w.
       if line \<in> set (str_lines contents) then (Inr (), w)
       else if contents \<noteq> [] \<and> \<not> ends_with contents [lf_char]
       then file_step (write_all F [lf_char]) WritePolicyFile (\<lambda>_. write_line F line) w
       else write_line F line w))))"

definition append_rule_line :: "('w, 'i) file_ops \<Rightarrow> path \<Rightarrow> str \<Rightarrow> 'w \<Rightarrow> ('i amend_error + unit) \<times> 'w" where
  "append_rule_line F policy_path rule w =
     (case parent_of_path policy_path of
        None \<Rightarrow> (Inl MissingParent, w)
      | Some _ \<Rightarrow>
          (case create_dir F w of
             (Inl e, w') \<Rightarrow>
               if already_exists F e then append_locked_line F rule w' else (Inl (CreatePolicyDir e), w')
           | (Inr _, w') \<Rightarrow> append_locked_line F rule w'))"

section \<open>Rules as text\<close>

definition allow_rule_text :: "str list \<Rightarrow> str" where
  "allow_rule_text tokens =
     ''prefix_rule(pattern=['' @ join_with '', '' tokens @ ''], decision='' @ [CHR 0x22] @ ''allow'' @ [CHR 0x22] @ '')''"

definition blocking_append_allow_prefix_rule ::
    "('w, 'i) file_ops \<Rightarrow> (str \<Rightarrow> 'i + str) \<Rightarrow> path \<Rightarrow> str list \<Rightarrow> 'w \<Rightarrow> ('i amend_error + unit) \<times> 'w" where
  "blocking_append_allow_prefix_rule F to_json policy_path pre w =
     (if pre = [] then (Inl EmptyPrefix, w)
      else
        (case collect_results to_json pre of
           Inl e \<Rightarrow> (Inl (SerializePrefix e), w)
         | Inr tokens \<Rightarrow> append_rule_line F policy_path (allow_rule_text tokens) w))"

fun network_decision_text :: "decision \<Rightarrow> str" where
  "network_decision_text Allow = ''allow''"
| "network_decision_text Prompt = ''prompt''"
| "network_decision_text Forbidden = ''deny''"

definition network_rule_text ::
    "(str \<Rightarrow> 'i + str) \<Rightarrow> str \<Rightarrow> network_rule_protocol \<Rightarrow> decision \<Rightarrow> str option \<Rightarrow> 'i + str" where
  "network_rule_text to_json host protocol d j =
     and_then (to_json host) (\<lambda>host.
     and_then (to_json (as_policy_string protocol)) (\<lambda>protocol.
     and_then (to_json (network_decision_text d)) (\<lambda>d.
     and_then (case j of None \<Rightarrow> Inr [] | Some j \<Rightarrow> and_then (to_json j) (\<lambda>j. Inr [''justification='' @ j])) (\<lambda>args.
       Inr (''network_rule('' @ join_with '', '' ([''host='' @ host, ''protocol='' @ protocol, ''decision='' @ d] @ args)
         @ '')'')))))"

definition blocking_append_network_rule ::
    "('w, 'i) file_ops \<Rightarrow> (str \<Rightarrow> 'i + str) \<Rightarrow> (exec_error \<Rightarrow> str) \<Rightarrow> path \<Rightarrow> str \<Rightarrow> network_rule_protocol \<Rightarrow> decision \<Rightarrow>
       str option \<Rightarrow> 'w \<Rightarrow> ('i amend_error + unit) \<times> 'w" where
  "blocking_append_network_rule F to_json show_error policy_path host protocol d j w =
     (case normalize_network_rule_host host of
        Inl e \<Rightarrow> (Inl (InvalidNetworkRule (show_error e)), w)
      | Inr host \<Rightarrow>
          if (case j of Some raw \<Rightarrow> trim raw = [] | None \<Rightarrow> False)
          then (Inl (InvalidNetworkRule ''justification cannot be empty''), w)
          else
            (case network_rule_text to_json host protocol d j of
               Inl e \<Rightarrow> (Inl (SerializeNetworkRule e), w)
             | Inr rule \<Rightarrow> append_rule_line F policy_path rule w))"

section \<open>Updates of the manager\<close>

datatype 'i update_error = AppendRule "'i amend_error" | AddRule exec_error

definition default_policy_path :: "path \<Rightarrow> path" where
  "default_policy_path codex_home = path_join (path_join codex_home [Normal ''rules'']) [Normal ''default.rules'']"

definition already_allowed ::
    "('m, 'z) multimap_ops_scheme \<Rightarrow> process_env \<Rightarrow> 'm policy \<Rightarrow> str list \<Rightarrow> bool" where
  "already_allowed M env p command =
     (case check_multiple_with_options M env p [command] (\<lambda>_. Forbidden) resolving_options of
        None \<Rightarrow> False
      | Some e \<Rightarrow> eval_decision e = Allow
          \<and> list_ex (\<lambda>m. is_policy_match m \<and> match_decision m = Allow) (matched_rules e))"

definition append_amendment_and_update ::
    "('m, 'z) multimap_ops_scheme \<Rightarrow> process_env \<Rightarrow> ('w, 'i) file_ops \<Rightarrow> (str \<Rightarrow> 'i + str) \<Rightarrow> path \<Rightarrow> amendment \<Rightarrow>
       'm policy \<times> 'w \<Rightarrow> ('i update_error + unit) \<times> 'm policy \<times> 'w" where
  "append_amendment_and_update M env F to_json codex_home am = (\<lambda>(p, w).
     (let command = amendment_command am
      in case blocking_append_allow_prefix_rule F to_json (default_policy_path codex_home) command w of
           (Inl e, w') \<Rightarrow> (Inl (AppendRule e), p, w')
         | (Inr _, w') \<Rightarrow>
             if already_allowed M env p command then (Inr (), p, w')
             else
               (case add_prefix_rule M p command Allow of
                  Inl e \<Rightarrow> (Inl (AddRule e), p, w')
                | Inr p' \<Rightarrow> (Inr (), p', w'))))"

definition append_network_rule_and_update ::
    "('w, 'i) file_ops \<Rightarrow> (str \<Rightarrow> 'i + str) \<Rightarrow> (exec_error \<Rightarrow> str) \<Rightarrow> path \<Rightarrow> str \<Rightarrow> network_rule_protocol \<Rightarrow> decision \<Rightarrow>
       str option \<Rightarrow> 'm policy \<times> 'w \<Rightarrow> ('i update_error + unit) \<times> 'm policy \<times> 'w" where
  "append_network_rule_and_update F to_json show_error codex_home host protocol d j = (\<lambda>(p, w).
     (case blocking_append_network_rule F to_json show_error (default_policy_path codex_home) host protocol d j w of
        (Inl e, w') \<Rightarrow> (Inl (AppendRule e), p, w')
      | (Inr _, w') \<Rightarrow>
          (case add_network_rule p host protocol d j of
             Inl e \<Rightarrow> (Inl (AddRule e), p, w')
           | Inr p' \<Rightarrow> (Inr (), p', w'))))"

section \<open>Lines of the file\<close>

lemma split_on_join: "split_on d (a @ d # b) = split_on d a @ split_on d b"
proof (induction a)
  case (Cons c a)
  then show ?case by (cases "split_on d a") auto
qed simp

lemma str_lines_last:
  assumes "lf_char \<notin> set line" "\<not> ends_with line [cr_char]"
  shows "line \<in> set (str_lines (s @ lf_char # line @ [lf_char]))" "line \<in> set (str_lines (line @ [lf_char]))"
proof -
  have l: "strip_cr line = line"
    using assms(2) by (auto simp: strip_cr_def strip_suffix_Some_iff ends_with_iff split: option.splits)
  have "split_on lf_char (line @ [lf_char]) = [line, []]"
    using split_on_append [OF assms(1), of "[]"] by simp
  then show "line \<in> set (str_lines (line @ [lf_char]))"
    "line \<in> set (str_lines (s @ lf_char # line @ [lf_char]))"
    by (simp_all add: str_lines_def split_on_join l butlast_append)
qed

definition append_text :: "str \<Rightarrow> str \<Rightarrow> str" where
  "append_text contents line =
     (if line \<in> set (str_lines contents) then contents
      else contents @ (if contents \<noteq> [] \<and> \<not> ends_with contents [lf_char] then [lf_char] else []) @ line @ [lf_char])"

lemma append_text_has_line:
  assumes "lf_char \<notin> set line" "\<not> ends_with line [cr_char]"
  shows "line \<in> set (str_lines (append_text contents line))"
  using str_lines_last [OF assms] by (auto simp: append_text_def ends_with_iff)

locale policy_file =
  fixes F :: "('w, 'i) file_ops" and contents :: "'w \<Rightarrow> str"
  assumes create_dir_keeps: "create_dir F w = (r, w') \<Longrightarrow> contents w' = contents w"
    and open_keeps: "open_append F w = (r, w') \<Longrightarrow> contents w' = contents w"
    and lock_keeps: "lock_file F w = (r, w') \<Longrightarrow> contents w' = contents w"
    and seek_keeps: "seek_start F w = (r, w') \<Longrightarrow> contents w' = contents w"
    and read_keeps: "read_to_string F w = (q, w') \<Longrightarrow> contents w' = contents w"
    and read_ok: "read_to_string F w = (Inr s, w') \<Longrightarrow> s = contents w"
    and write_ok: "write_all F s w = (Inr u, w') \<Longrightarrow> contents w' = contents w @ s"
    and write_failed: "write_all F s w = (Inl e, w') \<Longrightarrow> \<exists>n. contents w' = contents w @ take n s"
begin

lemma write_line_appends:
  "write_line F line w = (r, w') \<Longrightarrow> (\<exists>ext. contents w' = contents w @ ext)
     \<and> (r = Inr () \<longrightarrow> contents w' = contents w @ line @ [lf_char])"
  using write_ok [of "line @ [lf_char]" w] write_failed [of "line @ [lf_char]" w]
  by (auto simp: write_line_def file_step_def split: prod.splits sum.splits)

lemma append_locked_line_appends:
  assumes "append_locked_line F line w = (r, w')"
  shows "(\<exists>ext. contents w' = contents w @ ext) \<and> (r = Inr () \<longrightarrow> contents w' = append_text (contents w) line)"
proof -
  obtain r1 w1 where 1: "open_append F w = (r1, w1)" by fastforce
  obtain r2 w2 where 2: "lock_file F w1 = (r2, w2)" by fastforce
  obtain r3 w3 where 3: "seek_start F w2 = (r3, w3)" by fastforce
  obtain r4 w4 where 4: "read_to_string F w3 = (r4, w4)" by fastforce
  obtain r5 w5 where 5: "write_all F [lf_char] w4 = (r5, w5)" by fastforce
  note keeps = open_keeps [OF 1] lock_keeps [OF 2] seek_keeps [OF 3] read_keeps [OF 4]
  have w5: "\<exists>ext. contents w5 = contents w @ ext" "r5 = Inr () \<Longrightarrow> contents w5 = contents w @ [lf_char]"
    using 5 keeps write_ok [of "[lf_char]" w4 "()" w5] write_failed [of "[lf_char]" w4 _ w5] by (cases r5; auto)+
  note steps = 1 2 3 4 5 keeps w5 read_ok [of w3 _ w4] write_line_appends [of line w4 r w'] write_line_appends [of line w5 r w']
  show ?thesis using assms steps
    by (cases r1; cases r2; cases r3; cases r4; cases r5)
      (auto simp: append_locked_line_def file_step_def append_text_def split: if_splits)
qed

lemma append_rule_line_appends:
  assumes "append_rule_line F path rule w = (r, w')"
  shows "(\<exists>ext. contents w' = contents w @ ext) \<and> (r = Inr () \<longrightarrow> contents w' = append_text (contents w) rule)"
proof -
  obtain r1 w1 where 1: "create_dir F w = (r1, w1)" by fastforce
  show ?thesis
    using assms create_dir_keeps [OF 1] append_locked_line_appends [of rule w1 r w'] 1
    by (auto simp: append_rule_line_def split: option.splits sum.splits if_splits)
qed

end

text \<open>A file in memory.\<close>

definition mem_file :: "(str, str) file_ops" where
  "mem_file = \<lparr>create_dir = (\<lambda>w. (Inl ''exists'', w)), already_exists = (\<lambda>_. True), open_append = (\<lambda>w. (Inr (), w)),
     lock_file = (\<lambda>w. (Inr (), w)), seek_start = (\<lambda>w. (Inr (), w)), read_to_string = (\<lambda>w. (Inr w, w)),
     write_all = (\<lambda>s w. (Inr (), w @ s))\<rparr>"

interpretation mem: policy_file mem_file "\<lambda>w. w"
  by unfold_locales (auto simp: mem_file_def)

section \<open>Properties\<close>

lemma allow_rule_text_line:
  assumes "\<forall>t \<in> set tokens. lf_char \<notin> set t"
  shows "lf_char \<notin> set (allow_rule_text tokens)" "\<not> ends_with (allow_rule_text tokens) [cr_char]"
proof -
  have "lf_char \<notin> set (join_with '', '' tokens)"
    using assms by (induction "'', ''" tokens rule: join_with.induct) auto
  then show "lf_char \<notin> set (allow_rule_text tokens)" by (auto simp: allow_rule_text_def)
  have "allow_rule_text tokens \<noteq> []" "last (allow_rule_text tokens) = CHR '')''"
    by (simp_all add: allow_rule_text_def)
  then show "\<not> ends_with (allow_rule_text tokens) [cr_char]" by (auto simp: ends_with_iff)
qed

lemma add_prefix_rule_allows:
  assumes "multimap M" "add_prefix_rule M p command Allow = Inr p'"
  shows "explicitly_allowed M env p' command"
    and "r \<in> set (mm_get M (rules_by_program p) k) \<Longrightarrow> r \<in> set (mm_get M (rules_by_program p') k)"
proof -
  obtain t ts where c: "command = t # ts" using assms(2) by (cases command) (auto simp: add_prefix_rule_def)
  let ?r = "\<lparr>pattern = \<lparr>first = t, rest = map Single ts\<rparr>, rule_decision = Allow, justification = None\<rparr>"
  have rules: "rules_by_program p' = mm_insert M (rules_by_program p) t ?r"
    using assms(2) c by (auto simp: add_prefix_rule_def)
  then show "r \<in> set (mm_get M (rules_by_program p') k)" if "r \<in> set (mm_get M (rules_by_program p) k)"
    using that by (auto simp: multimap.mm_get_insert [OF assms(1)])
  have "matches_prefix (pattern ?r) command = Some command"
    by (auto simp: matches_prefix_Some_iff c list_all2_Single intro: exI [of _ "[]"])
  then have "rule_matches ?r command = Some (PrefixRuleMatch command Allow None None)" by (simp add: rule_matches_def)
  then have m: "PrefixRuleMatch command Allow None None \<in> set (exact_matches M p' command)"
    by (auto simp: exact_matches_iff c rules multimap.mm_get_insert [OF assms(1)] intro!: bexI [of _ ?r])
  then have "matches_for_command_with_options M env p' command None resolving_options = exact_matches M p' command"
    by (intro matches_exact) auto
  then show "explicitly_allowed M env p' command"
    using m by (auto simp: explicitly_allowed_def list_ex_iff intro!: bexI [OF _ m])
qed

lemma already_allowed_explicit: "already_allowed M env p command \<Longrightarrow> explicitly_allowed M env p command"
  using policy_match_iff [of _ M env p command "\<lambda>_. Forbidden" resolving_options]
  by (simp add: already_allowed_def explicitly_allowed_def list_ex_iff check_multiple_matches split: option.splits) blast

lemma append_allow_prefix_rule_file:
  assumes "policy_file F contents" "\<forall>x t. to_json x = Inr t \<longrightarrow> lf_char \<notin> set t"
    and "blocking_append_allow_prefix_rule F to_json path command w = (r, w')"
  shows "(\<exists>ext. contents w' = contents w @ ext) \<and> (r = Inr () \<longrightarrow>
    (\<exists>tokens. collect_results to_json command = Inr tokens \<and> allow_rule_text tokens \<in> set (str_lines (contents w'))))"
proof (cases "command = [] \<or> (\<exists>e. collect_results to_json command = Inl e)")
  case True
  then show ?thesis using assms(3) by (auto simp: blocking_append_allow_prefix_rule_def split: if_splits)
next
  case False
  then obtain tokens where t: "collect_results to_json command = Inr tokens" by (cases "collect_results to_json command") auto
  have "\<forall>t \<in> set tokens. lf_char \<notin> set t"
    using list_all2_right [of "\<lambda>x y. to_json x = Inr y" command tokens] t assms(2)
    by (auto simp: collect_results_list_all2)
  note line = allow_rule_text_line [OF this]
  show ?thesis
    using policy_file.append_rule_line_appends [OF assms(1), of path "allow_rule_text tokens" w r w'] assms(3) False t
      append_text_has_line [OF line]
    by (auto simp: blocking_append_allow_prefix_rule_def)
qed

text \<open>C20: An amendment that the user approved takes effect: after success a rule of the policy allows the command, no rule is
  lost, and the rules file has the line of the new rule after everything it had before; after a failure the policy is as
  it was and the file has lost nothing.\<close>

theorem amendment_takes_effect:
  assumes "multimap M" "policy_file F contents" "\<forall>x t. to_json x = Inr t \<longrightarrow> lf_char \<notin> set t"
    and "append_amendment_and_update M env F to_json codex_home am (p, w) = (res, p', w')"
  shows "(\<exists>ext. contents w' = contents w @ ext)
    \<and> (case res of
         Inl e \<Rightarrow> p' = p
       | Inr _ \<Rightarrow> explicitly_allowed M env p' (amendment_command am)
           \<and> (\<forall>k. set (mm_get M (rules_by_program p) k) \<subseteq> set (mm_get M (rules_by_program p') k))
           \<and> (\<exists>tokens. collect_results to_json (amendment_command am) = Inr tokens
                \<and> allow_rule_text tokens \<in> set (str_lines (contents w'))))"
proof -
  let ?cmd = "amendment_command am"
  obtain r1 w1 where a: "blocking_append_allow_prefix_rule F to_json (default_policy_path codex_home) ?cmd w = (r1, w1)"
    by fastforce
  have w': "w' = w1" using assms(4) a
    by (auto simp: append_amendment_and_update_def Let_def split: sum.splits if_splits)
  have fileD: "(\<exists>ext. contents w1 = contents w @ ext) \<and> (r1 = Inr () \<longrightarrow>
      (\<exists>tokens. collect_results to_json ?cmd = Inr tokens \<and> allow_rule_text tokens \<in> set (str_lines (contents w1))))"
    by (rule append_allow_prefix_rule_file [OF assms(2,3) a])
  show ?thesis
  proof (cases r1)
    case (Inl e)
    then show ?thesis using assms(4) a fileD by (auto simp: append_amendment_and_update_def Let_def w')
  next
    case (Inr u)
    then show ?thesis using assms(4) a fileD already_allowed_explicit [of M env p ?cmd] add_prefix_rule_allows [OF assms(1), of p ?cmd]
      by (auto simp: append_amendment_and_update_def Let_def w' split: sum.splits if_splits)
  qed
qed

definition quote_json :: "str \<Rightarrow> str + str" where
  "quote_json s = Inr ([CHR 0x22] @ filter (\<lambda>c. c \<noteq> lf_char) s @ [CHR 0x22])"

theorem amendment_takes_effect_witness:
  "\<exists>p' w'. append_amendment_and_update alist_multimap no_env mem_file quote_json [RootDir, Normal ''home'']
       (amendment_of [''make'', ''test'']) (git_policy, ''# rules'') = (Inr (), p', w')
     \<and> explicitly_allowed alist_multimap no_env p' [''make'', ''test'']"
proof -
  let ?run = "append_amendment_and_update alist_multimap no_env mem_file quote_json [RootDir, Normal ''home'']
      (amendment_of [''make'', ''test'']) (git_policy, ''# rules'')"
  have run: "fst ?run = Inr ()" by code_simp
  obtain p' w' where r: "?run = (Inr (), p', w')" using run by (metis prod.collapse)
  show ?thesis
    using amendment_takes_effect [OF alist_mm.multimap_axioms mem.policy_file_axioms _ r] r
    by (auto simp: quote_json_def amendment_of_def)
qed


end
