(* ===== verification/Stream_Text.thy ===== *)
theory Stream_Text
  imports Utf8_Text
begin

text \<open>
  The interface of the stream parsers (\<open>codex-rs/utils/stream-parser/src/stream_text.rs\<close>): chunks
  of text go in, visible text and extracted payloads come out.  The locale states the contract
  that clients rely on: how the text is cut into chunks does not matter.

  A chunk is a Rust string, so it never starts inside a character: \<open>char_aligned\<close>.
\<close>

section \<open>Chunks\<close>

record 'x stream_text_chunk =
  visible_text :: str
  extracted :: "'x list"

definition chunk_empty :: "'x stream_text_chunk" where
  "chunk_empty = \<lparr>visible_text = [], extracted = []\<rparr>"

definition chunk_is_empty_text :: "'x stream_text_chunk \<Rightarrow> bool" where
  "chunk_is_empty_text c \<longleftrightarrow> visible_text c = [] \<and> extracted c = []"

text \<open>Outputs of consecutive calls, put together; payloads are joined by \<open>j\<close>.\<close>

definition chunk_join ::
    "('x list \<Rightarrow> 'x list \<Rightarrow> 'x list) \<Rightarrow> 'x stream_text_chunk \<Rightarrow> 'x stream_text_chunk \<Rightarrow>
       'x stream_text_chunk" where
  "chunk_join j a b =
     \<lparr>visible_text = visible_text a @ visible_text b, extracted = j (extracted a) (extracted b)\<rparr>"

text \<open>Feeding several chunks.\<close>

fun push_all ::
    "('s \<Rightarrow> str \<Rightarrow> ('s \<times> 'x stream_text_chunk) option) \<Rightarrow> ('x list \<Rightarrow> 'x list \<Rightarrow> 'x list) \<Rightarrow>
       's \<Rightarrow> str list \<Rightarrow> ('s \<times> 'x stream_text_chunk) option" where
  "push_all push join s [] = Some (s, chunk_empty)"
| "push_all push join s (c # cs) =
     (case push s c of
        None \<Rightarrow> None
      | Some (s1, out) \<Rightarrow>
          map_option (\<lambda>(s2, out2). (s2, chunk_join join out out2)) (push_all push join s1 cs))"

section \<open>The contract\<close>

text \<open>
  \<open>push\<close> returns \<open>None\<close> if it does not return.  \<open>valid\<close> holds of the states a constructor makes and
  the operations keep.
\<close>

locale stream_parser =
  fixes valid :: "'s \<Rightarrow> bool"
    and push :: "'s \<Rightarrow> str \<Rightarrow> ('s \<times> 'x stream_text_chunk) option"
    and flush :: "'s \<Rightarrow> 's \<times> 'x stream_text_chunk"
    and join :: "'x list \<Rightarrow> 'x list \<Rightarrow> 'x list"
  assumes push_returns: "valid s \<Longrightarrow> \<exists>s' c. push s a = Some (s', c) \<and> valid s'"
    and push_append:
      "valid s \<Longrightarrow> char_aligned b \<Longrightarrow> push s a = Some (s1, c1) \<Longrightarrow> push s1 b = Some (s2, c2) \<Longrightarrow>
         push s (a @ b) = Some (s2, chunk_join join c1 c2)"
    and join_assoc: "join (join x y) z = join x (join y z)"
    and join_Nil_left: "join [] x = x"
    and join_Nil_right: "join x [] = x"
begin

lemma chunk_join_assoc:
  "chunk_join join (chunk_join join a b) c = chunk_join join a (chunk_join join b c)"
  by (simp add: chunk_join_def join_assoc)

lemma chunk_join_empty [simp]:
  "chunk_join join c chunk_empty = c" "chunk_join join chunk_empty c = c"
  by (simp_all add: chunk_join_def chunk_empty_def join_Nil_left join_Nil_right)

lemma push_all_returns: "valid s \<Longrightarrow> \<exists>s' c. push_all push join s cs = Some (s', c) \<and> valid s'"
proof (induction cs arbitrary: s)
  case (Cons c cs)
  obtain s1 o1 where s1: "push s c = Some (s1, o1)" "valid s1"
    using push_returns [OF Cons.prems] by blast
  then show ?case using Cons.IH [OF s1(2)] by auto
qed simp

lemma push_all_append:
  assumes "push_all push join s cs = Some (s1, c1)" and "push_all push join s1 ds = Some (s2, c2)"
  shows "push_all push join s (cs @ ds) = Some (s2, chunk_join join c1 c2)"
  using assms
proof (induction cs arbitrary: s c1)
  case (Cons c cs)
  then obtain s' o1 o2 where "push s c = Some (s', o1)" "push_all push join s' cs = Some (s1, o2)"
      "c1 = chunk_join join o1 o2"
    by (auto split: option.splits)
  then show ?case using Cons.IH [of s' o2] Cons.prems(2) by (simp add: chunk_join_assoc)
qed simp

text \<open>All ways to cut a text give what the text gives in one piece.\<close>

lemma push_all_concat:
  assumes "valid s" and "list_all char_aligned cs" and "cs \<noteq> []"
  shows "push_all push join s cs = push s (concat cs)"
  using assms
proof (induction cs arbitrary: s)
  case (Cons c cs)
  obtain s1 o1 where s1: "push s c = Some (s1, o1)" "valid s1"
    using push_returns [OF Cons.prems(1)] by blast
  show ?case
  proof (cases "cs = []")
    case False
    obtain s2 o2 where s2: "push s1 (concat cs) = Some (s2, o2)"
      using push_returns [OF s1(2)] by blast
    have "char_aligned (concat cs)"
      using Cons.prems(2) by (induction cs) (auto simp: char_aligned_def hd_append)
    then have "push s (c @ concat cs) = Some (s2, chunk_join join o1 o2)"
      using push_append [OF Cons.prems(1) _ s1(1) s2] by blast
    then show ?thesis using Cons s1 s2 False by simp
  qed (use s1 in simp)
qed simp

end

section \<open>Searching across a cut\<close>

lemma starts_with_append: "starts_with s p \<Longrightarrow> starts_with (s @ b) p"
  by (auto simp: starts_with_iff)

lemma starts_with_inside: "starts_with (s @ b) p \<Longrightarrow> length p \<le> length s \<Longrightarrow> starts_with s p"
  by (simp add: starts_with_def)

lemma find_str_Some_iff:
  "find_str s p = Some i \<longleftrightarrow>
     i \<le> length s \<and> starts_with (drop i s) p \<and> (\<forall>j < i. \<not> starts_with (drop j s) p)"
proof
  assume "find_str s p = Some i"
  then show "i \<le> length s \<and> starts_with (drop i s) p \<and> (\<forall>j < i. \<not> starts_with (drop j s) p)"
    using find_str_Some [of s p i] find_str_least [of s p i]
    by (metis add_leD1 append_eq_conv_conj length_take min.absorb2 starts_with_iff)
next
  assume r: "i \<le> length s \<and> starts_with (drop i s) p \<and> (\<forall>j < i. \<not> starts_with (drop j s) p)"
  then obtain k where k: "find_str s p = Some k" using find_str_None [of s p i] by (cases "find_str s p") auto
  then have "starts_with (drop k s) p"
    using find_str_Some [OF k] by (metis add_leD1 append_eq_conv_conj length_take min.absorb2 starts_with_iff)
  then have "i \<le> k" using r by (meson not_le)
  moreover have "k \<le> i" using find_str_least [OF k] r by (meson not_le)
  ultimately show "find_str s p = Some i" using k by simp
qed

lemma find_str_append: "find_str s p = Some i \<Longrightarrow> find_str (s @ b) p = Some i"
proof -
  assume i: "find_str s p = Some i"
  then have "i + length p \<le> length s" using find_str_Some by blast
  then have "starts_with (drop j (s @ b)) p \<Longrightarrow> j \<le> i \<Longrightarrow> starts_with (drop j s) p" for j
    using starts_with_inside [of "drop j s" b p] by simp
  then show ?thesis
    using i starts_with_append [of "drop i s" p b] unfolding find_str_Some_iff by auto
qed

lemma find_str_skip:
  "\<forall>j < n. \<not> starts_with (drop j s) p \<Longrightarrow> n \<le> length s \<Longrightarrow>
     find_str s p = map_option ((+) n) (find_str (drop n s) p)"
proof (induction n arbitrary: s)
  case 0
  then show ?case by (cases "find_str s p") auto
next
  case (Suc n)
  then obtain c t where s: "s = c # t" by (cases s) auto
  then have "\<forall>j < n. \<not> starts_with (drop j t) p" "\<not> starts_with s p"
    using Suc.prems(1) by (auto simp: All_less_Suc2)
  then show ?case using Suc s by (cases "find_str (drop n t) p") auto
qed

end
