(* ===== verification/Stream_Inline_Tag.thy ===== *)
theory Stream_Inline_Tag
  imports Stream_Text
begin

text \<open>
  Hidden inline tags (\<open>codex-rs/utils/stream-parser/src/inline_hidden_tag.rs\<close> and
  \<open>citation.rs\<close>): text between an opening and a closing delimiter is removed from the visible text
  and returned as a payload.  The parser keeps back a suffix of its input that may be the start of
  a delimiter.

  The loop of \<open>push_str\<close> is a partial function, since it does not end for empty delimiters, which
  the constructor refuses.
\<close>

section \<open>The parser\<close>

record 'a inline_tag_spec =
  spec_tag :: 'a
  open_delim :: str
  close_delim :: str

record 'a extracted_inline_tag =
  ex_tag :: 'a
  ex_content :: str

record 'a active_tag =
  act_tag :: 'a
  act_close :: str
  act_content :: str

record 'a inline_parser =
  specs :: "'a inline_tag_spec list"
  pending :: str
  active :: "'a active_tag option"

text \<open>The assertions of the constructor; a failed one panics.\<close>

definition inline_new :: "'a inline_tag_spec list \<Rightarrow> 'a inline_parser option" where
  "inline_new ss =
     (if ss = [] \<or> list_ex (\<lambda>s. open_delim s = [] \<or> close_delim s = []) ss then None
      else Some \<lparr>specs = ss, pending = [], active = None\<rparr>)"

text \<open>\<open>min_by\<close> on position, then the longer delimiter, then the index.\<close>

definition open_before :: "nat \<times> nat \<times> nat \<Rightarrow> nat \<times> nat \<times> nat \<Rightarrow> bool" where
  "open_before a b =
     (case (a, b) of ((p, l, i), (p', l', i')) \<Rightarrow>
        p < p' \<or> p = p' \<and> (l' < l \<or> l = l' \<and> i < i'))"

fun min_open :: "(nat \<times> nat \<times> nat) list \<Rightarrow> (nat \<times> nat \<times> nat) option" where
  "min_open [] = None"
| "min_open (c # cs) =
     (case min_open cs of None \<Rightarrow> Some c | Some b \<Rightarrow> Some (if open_before b c then b else c))"

definition open_candidates :: "'a inline_tag_spec list \<Rightarrow> str \<Rightarrow> (nat \<times> nat \<times> nat) list" where
  "open_candidates ss pend =
     List.map_filter (\<lambda>(i, s).
       map_option (\<lambda>pos. (pos, length (open_delim s), i)) (find_str pend (open_delim s)))
       (enumerate 0 ss)"

definition find_next_open :: "'a inline_tag_spec list \<Rightarrow> str \<Rightarrow> (nat \<times> nat) option" where
  "find_next_open ss pend = map_option (\<lambda>(pos, _, i). (pos, i)) (min_open (open_candidates ss pend))"

definition longest_suffix_prefix_len :: "str \<Rightarrow> str \<Rightarrow> nat" where
  "longest_suffix_prefix_len s needle =
     (let max = min (length s) (length needle - 1)
      in case find (\<lambda>k. is_char_boundary needle k \<and> ends_with s (take k needle)) (rev [1..<Suc max]) of
           Some k \<Rightarrow> k
         | None \<Rightarrow> 0)"

definition max_open_prefix_suffix_len :: "'a inline_tag_spec list \<Rightarrow> str \<Rightarrow> nat" where
  "max_open_prefix_suffix_len ss pend =
     foldr max (map (\<lambda>s. longest_suffix_prefix_len pend (open_delim s)) ss) 0"

type_synonym 'a inline_out = "'a extracted_inline_tag stream_text_chunk"

partial_function (option) inline_loop ::
    "'a inline_tag_spec list \<Rightarrow> 'a active_tag option \<Rightarrow> str \<Rightarrow> 'a inline_out \<Rightarrow>
       ('a active_tag option \<times> str \<times> 'a inline_out) option" where
  "inline_loop ss act pend out =
     (case act of
        Some a \<Rightarrow>
          (case find_str pend (act_close a) of
             Some close_idx \<Rightarrow>
               inline_loop ss None (drop (close_idx + length (act_close a)) pend)
                 (out\<lparr>extracted := extracted out @
                    [\<lparr>ex_tag = act_tag a, ex_content = act_content a @ take close_idx pend\<rparr>]\<rparr>)
           | None \<Rightarrow>
               (let n = length pend - longest_suffix_prefix_len pend (act_close a)
                in Some (Some (a\<lparr>act_content := act_content a @ take n pend\<rparr>), drop n pend, out)))
      | None \<Rightarrow>
          (case find_next_open ss pend of
             Some (open_idx, spec_idx) \<Rightarrow>
               (let spec = ss ! spec_idx
                in inline_loop ss
                     (Some \<lparr>act_tag = spec_tag spec, act_close = close_delim spec, act_content = []\<rparr>)
                     (drop (open_idx + length (open_delim spec)) pend)
                     (out\<lparr>visible_text := visible_text out @ take open_idx pend\<rparr>))
           | None \<Rightarrow>
               (let n = length pend - max_open_prefix_suffix_len ss pend
                in Some (None, drop n pend, out\<lparr>visible_text := visible_text out @ take n pend\<rparr>))))"

declare inline_loop.simps [code]

definition inline_push_str ::
    "'a inline_parser \<Rightarrow> str \<Rightarrow> ('a inline_parser \<times> 'a inline_out) option" where
  "inline_push_str p chunk =
     map_option (\<lambda>(act, pend, out). (p\<lparr>active := act, pending := pend\<rparr>, out))
       (inline_loop (specs p) (active p) (pending p @ chunk) chunk_empty)"

definition inline_finish :: "'a inline_parser \<Rightarrow> 'a inline_parser \<times> 'a inline_out" where
  "inline_finish p =
     (case active p of
        Some a \<Rightarrow>
          (p\<lparr>active := None, pending := []\<rparr>,
           \<lparr>visible_text = [],
            extracted = [\<lparr>ex_tag = act_tag a, ex_content = act_content a @ pending p\<rparr>]\<rparr>)
      | None \<Rightarrow> (p\<lparr>pending := []\<rparr>, \<lparr>visible_text = pending p, extracted = []\<rparr>))"

section \<open>Citations\<close>

datatype citation_tag = Citation

definition CITATION_OPEN :: str where "CITATION_OPEN = ''<oai-mem-citation>''"
definition CITATION_CLOSE :: str where "CITATION_CLOSE = ''</oai-mem-citation>''"

definition citation_spec :: "citation_tag inline_tag_spec" where
  "citation_spec = \<lparr>spec_tag = Citation, open_delim = CITATION_OPEN, close_delim = CITATION_CLOSE\<rparr>"

definition citation_new :: "citation_tag inline_parser option" where
  "citation_new = inline_new [citation_spec]"

definition contents_only :: "'a inline_out \<Rightarrow> str stream_text_chunk" where
  "contents_only c = \<lparr>visible_text = visible_text c, extracted = map ex_content (extracted c)\<rparr>"

definition citation_push_str ::
    "citation_tag inline_parser \<Rightarrow> str \<Rightarrow> (citation_tag inline_parser \<times> str stream_text_chunk) option" where
  "citation_push_str p chunk = map_option (\<lambda>(p', c). (p', contents_only c)) (inline_push_str p chunk)"

definition citation_finish ::
    "citation_tag inline_parser \<Rightarrow> citation_tag inline_parser \<times> str stream_text_chunk" where
  "citation_finish p = (case inline_finish p of (p', c) \<Rightarrow> (p', contents_only c))"

definition strip_citations :: "str \<Rightarrow> (str \<times> str list) option" where
  "strip_citations t =
     Option.bind citation_new (\<lambda>p.
       map_option (\<lambda>(p1, c).
           let tail = snd (citation_finish p1)
           in (visible_text c @ visible_text tail, extracted c @ extracted tail))
         (citation_push_str p t))"

section \<open>The suffix that is kept back\<close>

lemma greatest_below:
  fixes P :: "nat \<Rightarrow> bool"
  defines "g \<equiv> \<lambda>m. (case find P (rev [1..<Suc m]) of Some k \<Rightarrow> k | None \<Rightarrow> 0)"
  shows "(g m = 0 \<or> P (g m)) \<and> g m \<le> m \<and> (\<forall>k. 1 \<le> k \<longrightarrow> k \<le> m \<longrightarrow> P k \<longrightarrow> k \<le> g m)"
  unfolding g_def by (induction m) (auto simp: le_Suc_eq split: option.splits)

definition held_back :: "str \<Rightarrow> str \<Rightarrow> nat \<Rightarrow> bool" where
  "held_back s needle k \<longleftrightarrow>
     k \<le> length s \<and> k < length needle \<and> is_char_boundary needle k \<and> ends_with s (take k needle)"

lemma longest_held: "longest_suffix_prefix_len s needle = 0 \<or> held_back s needle (longest_suffix_prefix_len s needle)"
proof -
  let ?P = "\<lambda>k. is_char_boundary needle k \<and> ends_with s (take k needle)"
  show ?thesis
    using greatest_below [of ?P "min (length s) (length needle - 1)"]
    unfolding longest_suffix_prefix_len_def Let_def held_back_def by (cases needle) auto
qed

lemma longest_le: "longest_suffix_prefix_len s needle \<le> length s"
  using longest_held [of s needle] by (auto simp: held_back_def)

lemma longest_greatest: "held_back s needle k \<Longrightarrow> k \<le> longest_suffix_prefix_len s needle"
proof (cases "k = 0")
  case False
  assume "held_back s needle k"
  then have "k \<le> min (length s) (length needle - 1)" "1 \<le> k"
    and "is_char_boundary needle k \<and> ends_with s (take k needle)"
    using False by (auto simp: held_back_def)
  then show ?thesis
    using greatest_below [of "\<lambda>k. is_char_boundary needle k \<and> ends_with s (take k needle)"
        "min (length s) (length needle - 1)"]
    unfolding longest_suffix_prefix_len_def Let_def by blast
qed simp

lemma longest_unique:
  assumes "\<And>k. 0 < k \<Longrightarrow> held_back s needle k \<longleftrightarrow> held_back t needle k"
  shows "longest_suffix_prefix_len s needle = longest_suffix_prefix_len t needle"
  using assms longest_held [of s needle] longest_held [of t needle] longest_greatest
  by (metis bot_nat_0.extremum bot_nat_0.not_eq_extremum le_antisym)

text \<open>
  A delimiter that crosses the cut between \<open>x\<close> and an aligned \<open>b\<close> begins in what is held back.
\<close>

lemma crossing_held_back:
  assumes "char_aligned b" and "starts_with (drop i x @ b) needle" and "i \<le> length x"
    and "length x - i < length needle"
  shows "held_back x needle (length x - i)"
proof -
  let ?k = "length x - i"
  obtain r where r: "drop i x @ b = needle @ r" using assms(2) by (auto simp: starts_with_iff)
  then obtain u where u: "needle = drop i x @ u" "b = u @ r"
    using assms(4) unfolding append_eq_append_conv2 by (metis le_add1 length_append length_drop not_le)
  moreover have "u \<noteq> []" using u(1) assms(4) by auto
  ultimately have take_k: "take ?k needle = drop i x" and "needle ! ?k = hd u" and "u \<noteq> []"
    using assms(3,4) by (auto simp: nth_append hd_conv_nth)
  then have "b \<noteq> [] \<and> hd b = needle ! ?k" using u(2) by simp
  then have "is_char_boundary needle ?k"
    using assms(1,4) by (auto simp: is_char_boundary_def char_aligned_def)
  then show ?thesis
    using assms(3,4) take_k by (auto simp: held_back_def ends_with_def)
qed

lemma find_across_cut:
  assumes "char_aligned b" and "find_str x needle = None"
    and "n + longest_suffix_prefix_len x needle \<le> length x"
  shows "find_str (x @ b) needle = map_option ((+) n) (find_str (drop n x @ b) needle)"
proof -
  have "\<not> starts_with (drop j (x @ b)) needle" if "j < n" for j
  proof
    assume "starts_with (drop j (x @ b)) needle"
    then have s: "starts_with (drop j x @ b) needle" using that assms(3) by simp
    show False
    proof (cases "length x - j < length needle")
      case True
      then have "length x - j \<le> longest_suffix_prefix_len x needle"
        using crossing_held_back [OF assms(1) s] longest_greatest that assms(3) by simp
      then show False using that assms(3) by simp
    next
      case False
      then have "starts_with (drop j x) needle" using starts_with_inside [OF s] by simp
      then show False using find_str_None [OF assms(2)] by blast
    qed
  qed
  then show ?thesis using find_str_skip [of n "x @ b" needle] assms(3) by simp
qed

lemma ends_with_suffix: "ends_with (drop n x @ b) p \<longleftrightarrow> ends_with (x @ b) p"
  if "length p \<le> length (drop n x @ b)" "n \<le> length x"
proof -
  have "drop (length (x @ b) - length p) (x @ b) = drop (length (drop n x @ b) - length p) (drop n (x @ b))"
    using that by simp
  moreover have "drop n (x @ b) = drop n x @ b" using that by simp
  ultimately show ?thesis using that unfolding ends_with_def by auto
qed

lemma held_back_take:
  "held_back x (take k needle) j \<Longrightarrow> k \<le> length needle \<Longrightarrow> held_back x needle j"
  by (auto simp: held_back_def is_char_boundary_def min_def split: if_splits)

lemma longest_across_cut:
  assumes "char_aligned b" and "n + longest_suffix_prefix_len x needle \<le> length x"
  shows "longest_suffix_prefix_len (x @ b) needle = longest_suffix_prefix_len (drop n x @ b) needle"
proof (rule longest_unique)
  fix k :: nat
  assume "0 < k"
  show "held_back (x @ b) needle k \<longleftrightarrow> held_back (drop n x @ b) needle k"
  proof (cases "k \<le> length (drop n x @ b)")
    case True
    then show ?thesis
      using ends_with_suffix [of "take k needle" n x b] assms(2) by (auto simp: held_back_def)
  next
    case False
    have "\<not> held_back (x @ b) needle k"
    proof
      assume h: "held_back (x @ b) needle k"
      let ?i = "length x + length b - k"
      have len: "k < length needle" "length b < k" "?i \<le> length x" "n > ?i"
        using h False assms(2) by (auto simp: held_back_def)
      have "take k needle = drop ?i x @ b"
        using h False by (auto simp: held_back_def ends_with_def)
      then have s: "starts_with (drop ?i x @ b) (take k needle)" by (simp add: starts_with_def)
      have "held_back x needle (length x - ?i)"
      proof (cases "b = []")
        case False
        then have "length x - ?i < k" using len h by (cases b) (auto simp: held_back_def)
        then have "held_back x (take k needle) (length x - ?i)"
          using crossing_held_back [OF assms(1) s] len by simp
        then show ?thesis using held_back_take len(1) by (metis less_imp_le)
      qed (use h len in \<open>simp add: held_back_def\<close>)
      then show False using longest_greatest [of x needle] len assms(2) by fastforce
    qed
    then show ?thesis using False by (auto simp: held_back_def)
  qed
qed

section \<open>The next opening delimiter\<close>

lemma open_before_total: "a \<noteq> b \<Longrightarrow> open_before a b \<or> open_before b a"
  by (cases a; cases b) (auto simp: open_before_def)

lemma open_before_trans: "open_before a b \<Longrightarrow> open_before b c \<Longrightarrow> open_before a c"
  by (cases a; cases b; cases c) (auto simp: open_before_def)

lemma open_before_asym: "open_before a b \<Longrightarrow> \<not> open_before b a"
  by (cases a; cases b) (auto simp: open_before_def)

lemma min_open_None [simp]: "min_open cs = None \<longleftrightarrow> cs = []"
  by (cases cs) (auto split: option.splits)

lemma min_open_least:
  "min_open cs = Some b \<Longrightarrow> b \<in> set cs \<and> (\<forall>c \<in> set cs. c = b \<or> open_before b c)"
proof (induction cs arbitrary: b)
  case (Cons c cs)
  show ?case
  proof (cases "min_open cs")
    case (Some d)
    note d = Cons.IH [OF Some]
    show ?thesis
    proof (cases "open_before d c")
      case True
      then show ?thesis using Cons.prems Some d by simp
    next
      case False
      then have "c = d \<or> open_before c d" using open_before_total by blast
      then have "\<forall>e \<in> set cs. e = c \<or> open_before c e" using d open_before_trans by metis
      then show ?thesis using Cons.prems Some False by simp
    qed
  qed (use Cons.prems in auto)
qed simp

lemma min_open_eq:
  assumes "b \<in> set cs" and "\<forall>c \<in> set cs. c = b \<or> open_before b c"
  shows "min_open cs = Some b"
proof -
  obtain d where d: "min_open cs = Some d" using assms(1) by (cases "min_open cs") auto
  then show ?thesis using min_open_least [OF d] assms open_before_asym by metis
qed

lemma set_open_candidates:
  "(p, l, i) \<in> set (open_candidates ss x) \<longleftrightarrow>
     i < length ss \<and> l = length (open_delim (ss ! i)) \<and> find_str x (open_delim (ss ! i)) = Some p"
  by (auto simp: open_candidates_def set_map_filter in_set_enumerate_eq intro!: bexI [of _ "(i, ss ! i)"])

definition separate_opens :: "'a inline_tag_spec list \<Rightarrow> bool" where
  "separate_opens ss \<longleftrightarrow>
     list_all (\<lambda>i. list_all (\<lambda>j. i = j \<or> \<not> sublist (open_delim (ss ! i)) (open_delim (ss ! j)))
       [0..<length ss]) [0..<length ss]"

lemma separate_opensD:
  "separate_opens ss \<Longrightarrow> i < length ss \<Longrightarrow> j < length ss \<Longrightarrow> i \<noteq> j \<Longrightarrow>
     \<not> sublist (open_delim (ss ! i)) (open_delim (ss ! j))"
  unfolding separate_opens_def list_all_iff by (metis add_0 atLeastLessThan_iff atLeastLessThan_upt le0)

text \<open>An opening that ends in \<open>x\<close> is not overtaken by one that ends later.\<close>

lemma later_open:
  assumes "starts_with (drop p x) a" and "length x < q + length c" and "q \<le> p" and "p + length a \<le> length x"
    and "starts_with (drop q (x @ b)) c"
  shows "sublist a c"
proof -
  obtain r where r: "drop p x = a @ r" using assms(1) by (auto simp: starts_with_iff)
  have "c = take (length c) (drop q x @ b)" using assms(3,5) assms(4) by (simp add: starts_with_def)
  then have "c = drop q x @ take (length c - (length x - q)) b" using assms(2-4) by simp
  moreover have "drop q x = take (p - q) (drop q x) @ drop p x"
    using assms(3) by (metis append_take_drop_id drop_drop le_add_diff_inverse2)
  ultimately have "c = take (p - q) (drop q x) @ a @ r @ take (length c - (length x - q)) b"
    using r by (metis append.assoc)
  then show ?thesis unfolding sublist_def by metis
qed

lemma find_next_open_append:
  assumes "separate_opens ss" and "find_next_open ss x = Some (p, i)"
  shows "find_next_open ss (x @ b) = Some (p, i)"
proof -
  obtain l where l: "min_open (open_candidates ss x) = Some (p, l, i)"
    using assms(2) by (auto simp: find_next_open_def)
  let ?o = "\<lambda>j. open_delim (ss ! j)"
  have i: "i < length ss" "l = length (?o i)" "find_str x (?o i) = Some p"
    using min_open_least [OF l] by (auto simp: set_open_candidates)
  have "(q, m, j) = (p, l, i) \<or> open_before (p, l, i) (q, m, j)"
    if c: "(q, m, j) \<in> set (open_candidates ss (x @ b))" for q m j
  proof (cases "find_str x (?o j)")
    case (Some q')
    then have "(q, m, j) \<in> set (open_candidates ss x)"
      using c find_str_append [OF Some] by (auto simp: set_open_candidates)
    then show ?thesis using min_open_least [OF l] by blast
  next
    case None
    have j: "j < length ss" "find_str (x @ b) (?o j) = Some q" "i \<noteq> j"
      using c None i(3) by (auto simp: set_open_candidates)
    then have s: "starts_with (drop q (x @ b)) (?o j)" by (simp add: find_str_Some_iff)
    have "length x < q + length (?o j)"
    proof (rule ccontr)
      assume "\<not> ?thesis"
      then have "starts_with (drop q x) (?o j)" using s starts_with_inside [of "drop q x" b] by simp
      then show False using find_str_None [OF None] by blast
    qed
    moreover have "starts_with (drop p x) (?o i)" "p + length (?o i) \<le> length x"
      using i(3) find_str_Some [OF i(3)] by (auto simp: find_str_Some_iff)
    moreover have "\<not> sublist (?o i) (?o j)"
      using separate_opensD [OF assms(1) i(1) j(1,3)] .
    ultimately have "p < q" using later_open s by (metis not_le)
    then show ?thesis by (simp add: open_before_def)
  qed
  then have "\<forall>c \<in> set (open_candidates ss (x @ b)). c = (p, l, i) \<or> open_before (p, l, i) c"
    by (metis prod_cases3)
  moreover have "(p, l, i) \<in> set (open_candidates ss (x @ b))"
    using i find_str_append [OF i(3)] by (simp add: set_open_candidates)
  ultimately have "min_open (open_candidates ss (x @ b)) = Some (p, l, i)" by (intro min_open_eq)
  then show ?thesis by (simp add: find_next_open_def)
qed

lemma find_next_open_Some:
  assumes "find_next_open ss x = Some (p, i)"
  shows "i < length ss \<and> find_str x (open_delim (ss ! i)) = Some p"
  using assms min_open_least [of "open_candidates ss x"] by (auto simp: find_next_open_def set_open_candidates)

lemma find_next_open_None:
  "find_next_open ss x = None \<longleftrightarrow> (\<forall>i < length ss. find_str x (open_delim (ss ! i)) = None)"
proof -
  have "xs = [] \<longleftrightarrow> (\<forall>t. t \<notin> set xs)" for xs :: "(nat \<times> nat \<times> nat) list"
    by (cases xs) auto
  then have "open_candidates ss x = [] \<longleftrightarrow> (\<forall>p l i. (p, l, i) \<notin> set (open_candidates ss x))"
    by (simp only: split_paired_All)
  also have "\<dots> \<longleftrightarrow> (\<forall>i < length ss. \<forall>p. find_str x (open_delim (ss ! i)) \<noteq> Some p)"
    unfolding set_open_candidates by (auto simp del: not_Some_eq not_None_eq) (meson not_Some_eq)
  finally show ?thesis by (simp add: find_next_open_def)
qed

lemma open_before_shift [simp]: "open_before (n + p, r) (n + p', r') \<longleftrightarrow> open_before (p, r) (p', r')"
  by (cases r; cases r') (auto simp: open_before_def)

lemma min_open_shift: "min_open (map (map_prod ((+) n) id) cs) = map_option (map_prod ((+) n) id) (min_open cs)"
  by (induction cs) (auto split: option.split)

lemma map_filter_map:
  "\<forall>x \<in> set xs. f x = map_option g (h x) \<Longrightarrow> List.map_filter f xs = map g (List.map_filter h xs)"
  by (induction xs) (auto simp: List.map_filter_simps split: option.split)

lemma find_next_open_across_cut:
  assumes "char_aligned b" and "find_next_open ss x = None"
    and n: "\<forall>i < length ss. n + longest_suffix_prefix_len x (open_delim (ss ! i)) \<le> length x"
  shows "find_next_open ss (x @ b) = map_option (\<lambda>(p, i). (n + p, i)) (find_next_open ss (drop n x @ b))"
proof -
  have "find_str (x @ b) (open_delim (ss ! i)) = map_option ((+) n) (find_str (drop n x @ b) (open_delim (ss ! i)))"
    if "i < length ss" for i
    using find_across_cut [OF assms(1)] assms(2) n that unfolding find_next_open_None by blast
  then have "open_candidates ss (x @ b) = map (map_prod ((+) n) id) (open_candidates ss (drop n x @ b))"
    unfolding open_candidates_def
    by (intro map_filter_map) (auto simp: in_set_enumerate_eq option.map_comp o_def)
  then show ?thesis by (simp add: find_next_open_def min_open_shift option.map_comp o_def case_prod_beta)
qed

section \<open>The loop\<close>

definition specs_valid :: "'a inline_tag_spec list \<Rightarrow> bool" where
  "specs_valid ss \<longleftrightarrow> ss \<noteq> [] \<and> list_all (\<lambda>s. open_delim s \<noteq> [] \<and> close_delim s \<noteq> []) ss"

definition active_valid :: "'a active_tag option \<Rightarrow> bool" where
  "active_valid act = (case act of None \<Rightarrow> True | Some a \<Rightarrow> act_close a \<noteq> [])"

lemma inline_new_valid: "inline_new ss = Some p \<Longrightarrow> specs_valid (specs p) \<and> active_valid (active p)"
  by (auto simp: inline_new_def specs_valid_def active_valid_def list_ex_iff list_all_iff split: if_splits)

lemma spec_nonempty:
  "specs_valid ss \<Longrightarrow> i < length ss \<Longrightarrow> open_delim (ss ! i) \<noteq> [] \<and> close_delim (ss ! i) \<noteq> []"
  by (simp add: specs_valid_def list_all_length)

text \<open>The loop ends: every iteration consumes a delimiter.\<close>

lemma inline_loop_returns:
  assumes "specs_valid ss" and "active_valid act"
  shows "\<exists>act' pend' out'. inline_loop ss act pend out = Some (act', pend', out') \<and> active_valid act'"
  using assms(2)
proof (induction "length pend" arbitrary: act pend out rule: less_induct)
  case less
  show ?case
  proof (cases act)
    case (Some a)
    then have a: "act_close a \<noteq> []" using less.prems by (simp add: active_valid_def)
    show ?thesis
    proof (cases "find_str pend (act_close a)")
      case (Some i)
      then have "length (drop (i + length (act_close a)) pend) < length pend"
        using a find_str_Some [OF Some] by (cases "act_close a") auto
      from less.hyps [OF this, of None] show ?thesis
        using \<open>act = Some a\<close> Some by (subst inline_loop.simps) (simp add: active_valid_def)
    qed (use a Some in \<open>subst inline_loop.simps, simp add: active_valid_def Let_def\<close>)
  next
    case None
    show ?thesis
    proof (cases "find_next_open ss pend")
      case (Some pi)
      then obtain p i where pi: "find_next_open ss pend = Some (p, i)" by (cases pi) auto
      note f = find_next_open_Some [OF pi]
      then have "length (drop (p + length (open_delim (ss ! i))) pend) < length pend"
        using spec_nonempty [OF assms(1)] find_str_Some [of pend "open_delim (ss ! i)" p]
        by (cases "open_delim (ss ! i)") auto
      moreover have "active_valid (Some \<lparr>act_tag = spec_tag (ss ! i), act_close = close_delim (ss ! i),
          act_content = []\<rparr>)"
        using spec_nonempty [OF assms(1)] f by (simp add: active_valid_def)
      ultimately show ?thesis
        using less.hyps None pi by (subst inline_loop.simps) (simp add: Let_def)
    qed (use None in \<open>subst inline_loop.simps, simp add: active_valid_def Let_def\<close>)
  qed
qed

lemma max_open_bound:
  "i < length ss \<Longrightarrow> longest_suffix_prefix_len x (open_delim (ss ! i)) \<le> max_open_prefix_suffix_len ss x"
  unfolding max_open_prefix_suffix_len_def
proof (induction ss arbitrary: i)
  case (Cons s ss)
  then show ?case by (cases i) (auto simp: le_max_iff_disj)
qed simp

lemma max_open_le: "max_open_prefix_suffix_len ss x \<le> length x"
  unfolding max_open_prefix_suffix_len_def by (induction ss) (auto simp: longest_le)

lemma max_open_across_cut:
  assumes "char_aligned b"
    and "\<forall>i < length ss. n + longest_suffix_prefix_len x (open_delim (ss ! i)) \<le> length x"
  shows "max_open_prefix_suffix_len ss (x @ b) = max_open_prefix_suffix_len ss (drop n x @ b)"
proof -
  have "map (\<lambda>s. longest_suffix_prefix_len (x @ b) (open_delim s)) ss
      = map (\<lambda>s. longest_suffix_prefix_len (drop n x @ b) (open_delim s)) ss"
    using longest_across_cut [OF assms(1)] assms(2) by (auto simp: in_set_conv_nth)
  then show ?thesis by (simp only: max_open_prefix_suffix_len_def)
qed

lemma take_cut: "n \<le> length x \<Longrightarrow> take (n + j) (x @ b) = take n x @ take j (drop n x @ b)"
  by (simp only: take_add) simp

lemma drop_cut: "n \<le> length x \<Longrightarrow> drop (n + j) (x @ b) = drop j (drop n x @ b)"
  by (simp add: add.commute flip: drop_drop)

text \<open>Closing an open tag, and leaving it open.\<close>

lemma inline_loop_close:
  "find_str x (act_close a) = Some i \<Longrightarrow>
     inline_loop ss (Some a) x out =
       inline_loop ss None (drop (i + length (act_close a)) x)
         (out\<lparr>extracted := extracted out @ [\<lparr>ex_tag = act_tag a, ex_content = act_content a @ take i x\<rparr>]\<rparr>)"
  by (subst inline_loop.simps) simp

lemma inline_loop_inside:
  "find_str x (act_close a) = None \<Longrightarrow> n = length x - longest_suffix_prefix_len x (act_close a) \<Longrightarrow>
     inline_loop ss (Some a) x out =
       Some (Some (a\<lparr>act_content := act_content a @ take n x\<rparr>), drop n x, out)"
  by (subst inline_loop.simps) (simp add: Let_def)

lemma inline_loop_open:
  "find_next_open ss x = Some (p, i) \<Longrightarrow>
     inline_loop ss None x out =
       inline_loop ss
         (Some \<lparr>act_tag = spec_tag (ss ! i), act_close = close_delim (ss ! i), act_content = []\<rparr>)
         (drop (p + length (open_delim (ss ! i))) x) (out\<lparr>visible_text := visible_text out @ take p x\<rparr>)"
  by (subst inline_loop.simps) (simp add: Let_def)

lemma inline_loop_outside:
  "find_next_open ss x = None \<Longrightarrow> n = length x - max_open_prefix_suffix_len ss x \<Longrightarrow>
     inline_loop ss None x out = Some (None, drop n x, out\<lparr>visible_text := visible_text out @ take n x\<rparr>)"
  by (subst inline_loop.simps) (simp add: Let_def)

lemma loop_inside_cut:
  assumes "char_aligned b" and none: "find_str x (act_close a) = None"
    and n: "n = length x - longest_suffix_prefix_len x (act_close a)"
  shows "inline_loop ss (Some a) (x @ b) out =
    inline_loop ss (Some (a\<lparr>act_content := act_content a @ take n x\<rparr>)) (drop n x @ b) out"
proof -
  have le: "n + longest_suffix_prefix_len x (act_close a) \<le> length x" "n \<le> length x"
    using n longest_le [of x "act_close a"] by simp_all
  note find = find_across_cut [OF assms(1) none le(1)]
  note longest = longest_across_cut [OF assms(1) le(1)]
  show ?thesis
  proof (cases "find_str (drop n x @ b) (act_close a)")
    case (Some j)
    then have "find_str (x @ b) (act_close a) = Some (n + j)" using find by simp
    then show ?thesis
      using Some le(2)
      by (simp add: inline_loop_close add.assoc take_cut drop_cut del: take_append drop_append)
  next
    case None
    let ?a = "a\<lparr>act_content := act_content a @ take n x\<rparr>"
    define m where "m = length (drop n x @ b) - longest_suffix_prefix_len (drop n x @ b) (act_close a)"
    have m: "n + m = length (x @ b) - longest_suffix_prefix_len (x @ b) (act_close a)"
      using longest le(2) longest_le [of "drop n x @ b" "act_close a"] by (simp add: m_def)
    have "find_str (x @ b) (act_close a) = None" using find None by simp
    then have "inline_loop ss (Some a) (x @ b) out =
        Some (Some (a\<lparr>act_content := act_content a @ take (n + m) (x @ b)\<rparr>), drop (n + m) (x @ b), out)"
      using m by (rule inline_loop_inside)
    moreover have "inline_loop ss (Some ?a) (drop n x @ b) out =
        Some (Some (?a\<lparr>act_content := act_content ?a @ take m (drop n x @ b)\<rparr>), drop m (drop n x @ b), out)"
      using None m_def by (intro inline_loop_inside) simp_all
    ultimately show ?thesis using le(2) by (simp add: take_cut drop_cut del: take_append drop_append)
  qed
qed

lemma loop_outside_cut:
  assumes "char_aligned b" and none: "find_next_open ss x = None"
    and n: "n = length x - max_open_prefix_suffix_len ss x"
  shows "inline_loop ss None (x @ b) out =
    inline_loop ss None (drop n x @ b) (out\<lparr>visible_text := visible_text out @ take n x\<rparr>)"
proof -
  have le: "\<forall>i < length ss. n + longest_suffix_prefix_len x (open_delim (ss ! i)) \<le> length x" "n \<le> length x"
    using n max_open_bound [of _ ss x] max_open_le [of ss x] by (auto simp: le_diff_conv add.commute)
  note find = find_next_open_across_cut [OF assms(1) none le(1)]
  note longest = max_open_across_cut [OF assms(1) le(1)]
  show ?thesis
  proof (cases "find_next_open ss (drop n x @ b)")
    case (Some pi)
    then obtain p i where pi: "find_next_open ss (drop n x @ b) = Some (p, i)" by (cases pi) auto
    then have "find_next_open ss (x @ b) = Some (n + p, i)" using find by simp
    then show ?thesis
      using pi le(2)
      by (simp add: inline_loop_open add.assoc take_cut drop_cut del: take_append drop_append)
  next
    case None
    let ?out = "out\<lparr>visible_text := visible_text out @ take n x\<rparr>"
    define m where "m = length (drop n x @ b) - max_open_prefix_suffix_len ss (drop n x @ b)"
    have m: "n + m = length (x @ b) - max_open_prefix_suffix_len ss (x @ b)"
      using longest le(2) max_open_le [of ss "drop n x @ b"] by (simp add: m_def)
    have "find_next_open ss (x @ b) = None" using find None by simp
    then have "inline_loop ss None (x @ b) out =
        Some (None, drop (n + m) (x @ b), out\<lparr>visible_text := visible_text out @ take (n + m) (x @ b)\<rparr>)"
      using m by (rule inline_loop_outside)
    moreover have "inline_loop ss None (drop n x @ b) ?out =
        Some (None, drop m (drop n x @ b), ?out\<lparr>visible_text := visible_text ?out @ take m (drop n x @ b)\<rparr>)"
      using None m_def by (rule inline_loop_outside)
    ultimately show ?thesis using le(2) by (simp add: take_cut drop_cut del: take_append drop_append)
  qed
qed

lemma inline_loop_append:
  assumes "specs_valid ss" and "separate_opens ss" and "char_aligned b" and "active_valid act"
    and "inline_loop ss act x out = Some (act1, pend1, out1)"
  shows "inline_loop ss act (x @ b) out = inline_loop ss act1 (pend1 @ b) out1"
  using assms(4,5)
proof (induction "length x" arbitrary: act x out rule: less_induct)
  case less
  show ?case
  proof (cases act)
    case (Some a)
    then have a: "act_close a \<noteq> []" using less.prems(1) by (simp add: active_valid_def)
    show ?thesis
    proof (cases "find_str x (act_close a)")
      case (Some i)
      note i = find_str_Some [OF Some]
      then have "length (drop (i + length (act_close a)) x) < length x" using a by (cases "act_close a") auto
      then show ?thesis
        using less.hyps [of "drop (i + length (act_close a)) x" None] less.prems(2) \<open>act = Some a\<close> Some i
          find_str_append [OF Some, of b]
        by (simp add: inline_loop_close active_valid_def)
    next
      case None
      then show ?thesis
        using loop_inside_cut [OF assms(3) None refl] less.prems(2) \<open>act = Some a\<close>
          inline_loop_inside [OF None refl] by auto
    qed
  next
    case None
    show ?thesis
    proof (cases "find_next_open ss x")
      case (Some pi)
      then obtain p i where pi: "find_next_open ss x = Some (p, i)" by (cases pi) auto
      let ?a = "Some \<lparr>act_tag = spec_tag (ss ! i), act_close = close_delim (ss ! i), act_content = []\<rparr>"
      note f = find_next_open_Some [OF pi]
      have i: "open_delim (ss ! i) \<noteq> []" "active_valid ?a"
        using spec_nonempty [OF assms(1)] f by (simp_all add: active_valid_def)
      have le: "p + length (open_delim (ss ! i)) \<le> length x" using f find_str_Some by blast
      then have "length (drop (p + length (open_delim (ss ! i))) x) < length x"
        using i(1) by (cases "open_delim (ss ! i)") auto
      then show ?thesis
        using less.hyps [of "drop (p + length (open_delim (ss ! i))) x" ?a] less.prems(2) None pi i(2) le
          find_next_open_append [OF assms(2) pi, of b]
        by (simp add: inline_loop_open)
    next
      case none: None
      then show ?thesis
        using loop_outside_cut [OF assms(3) none refl] less.prems(2) None inline_loop_outside [OF none refl]
        by auto
    qed
  qed
qed

section \<open>The contract of the parsers\<close>

lemma chunk_join_append_simps:
  "chunk_join (@) c chunk_empty = c" "chunk_join (@) chunk_empty c = c"
  "(chunk_join (@) a b)\<lparr>visible_text := visible_text (chunk_join (@) a b) @ v\<rparr>
     = chunk_join (@) a (b\<lparr>visible_text := visible_text b @ v\<rparr>)"
  "(chunk_join (@) a b)\<lparr>extracted := extracted (chunk_join (@) a b) @ e\<rparr>
     = chunk_join (@) a (b\<lparr>extracted := extracted b @ e\<rparr>)"
  by (simp_all add: chunk_join_def chunk_empty_def)

lemma inline_loop_join:
  assumes "specs_valid ss" and "active_valid act"
  shows "inline_loop ss act x (chunk_join (@) c out) =
    map_option (\<lambda>(act', pend', out'). (act', pend', chunk_join (@) c out')) (inline_loop ss act x out)"
  using assms(2)
proof (induction "length x" arbitrary: act x out rule: less_induct)
  case less
  show ?case
  proof (cases act)
    case (Some a)
    then have a: "act_close a \<noteq> []" using less.prems by (simp add: active_valid_def)
    show ?thesis
    proof (cases "find_str x (act_close a)")
      case (Some i)
      then have "length (drop (i + length (act_close a)) x) < length x"
        using a find_str_Some [OF Some] by (cases "act_close a") auto
      then show ?thesis
        using less.hyps [of _ None] \<open>act = Some a\<close> Some
        by (simp add: inline_loop_close chunk_join_append_simps active_valid_def)
    qed (use Some in \<open>simp add: inline_loop_inside\<close>)
  next
    case None
    show ?thesis
    proof (cases "find_next_open ss x")
      case (Some pi)
      then obtain p i where pi: "find_next_open ss x = Some (p, i)" by (cases pi) auto
      let ?a = "Some \<lparr>act_tag = spec_tag (ss ! i), act_close = close_delim (ss ! i), act_content = []\<rparr>"
      note f = find_next_open_Some [OF pi]
      have ne: "open_delim (ss ! i) \<noteq> []" "active_valid ?a"
        using spec_nonempty [OF assms(1)] f by (simp_all add: active_valid_def)
      then have "length (drop (p + length (open_delim (ss ! i))) x) < length x"
        using f find_str_Some [of x "open_delim (ss ! i)" p] by (cases "open_delim (ss ! i)") auto
      from less.hyps [OF this ne(2), of "out\<lparr>visible_text := visible_text out @ take p x\<rparr>"] show ?thesis
        unfolding None inline_loop_open [OF pi] chunk_join_append_simps .
    qed (use None in \<open>simp add: inline_loop_outside chunk_join_append_simps\<close>)
  qed
qed

definition inline_valid :: "'a inline_parser \<Rightarrow> bool" where
  "inline_valid p \<longleftrightarrow> specs_valid (specs p) \<and> separate_opens (specs p) \<and> active_valid (active p)"

lemma inline_push_append:
  assumes "inline_valid p" and "char_aligned b" and "inline_push_str p a = Some (p1, c1)"
    and "inline_push_str p1 b = Some (p2, c2)"
  shows "inline_push_str p (a @ b) = Some (p2, chunk_join (@) c1 c2)"
proof -
  obtain act1 pend1 where l1: "inline_loop (specs p) (active p) (pending p @ a) chunk_empty
      = Some (act1, pend1, c1)" and p1: "p1 = p\<lparr>active := act1, pending := pend1\<rparr>"
    using assms(3) by (auto simp: inline_push_str_def)
  have v: "specs_valid (specs p)" "separate_opens (specs p)" "active_valid (active p)"
    using assms(1) by (auto simp: inline_valid_def)
  have act1: "active_valid act1"
    using inline_loop_returns [OF v(1,3), of "pending p @ a" chunk_empty] l1 by auto
  obtain act2 pend2 where l2: "inline_loop (specs p) act1 (pend1 @ b) chunk_empty = Some (act2, pend2, c2)"
      and p2: "p2 = p1\<lparr>active := act2, pending := pend2\<rparr>"
    using assms(4) p1 by (auto simp: inline_push_str_def)
  have "inline_loop (specs p) (active p) (pending p @ a @ b) chunk_empty = Some (act2, pend2, chunk_join (@) c1 c2)"
    using inline_loop_append [OF v(1,2) assms(2) v(3) l1] inline_loop_join [OF v(1) act1, of "pend1 @ b" c1 chunk_empty] l2
    by (simp add: chunk_join_append_simps)
  then show ?thesis using p1 p2 by (simp add: inline_push_str_def)
qed

lemma inline_push_returns: "inline_valid p \<Longrightarrow> \<exists>p' c. inline_push_str p a = Some (p', c) \<and> inline_valid p'"
  using inline_loop_returns [of "specs p" "active p" "pending p @ a" chunk_empty]
  by (auto simp: inline_valid_def inline_push_str_def)

interpretation inline: stream_parser inline_valid inline_push_str inline_finish "(@)"
  by unfold_locales (use inline_push_returns inline_push_append in \<open>blast | simp\<close>)+

definition citation_valid :: "citation_tag inline_parser \<Rightarrow> bool" where
  "citation_valid p \<longleftrightarrow>
     specs p = [citation_spec] \<and> (case active p of None \<Rightarrow> True | Some a \<Rightarrow> act_close a = CITATION_CLOSE)"

lemma citation_inline_valid: "citation_valid p \<Longrightarrow> inline_valid p"
  by (auto simp: citation_valid_def inline_valid_def specs_valid_def separate_opens_def active_valid_def
      citation_spec_def CITATION_OPEN_def CITATION_CLOSE_def split: option.splits)

lemma inline_loop_close_kept:
  assumes "specs_valid ss" and "active_valid act" and "list_all (\<lambda>s. close_delim s = cl) ss"
    and "\<forall>a. act = Some a \<longrightarrow> act_close a = cl" and "inline_loop ss act x out = Some (act', pend', out')"
  shows "\<forall>a. act' = Some a \<longrightarrow> act_close a = cl"
  using assms(2,4,5)
proof (induction "length x" arbitrary: act x out rule: less_induct)
  case less
  show ?case
  proof (cases act)
    case (Some a)
    then have a: "act_close a \<noteq> []" using less.prems by (simp add: active_valid_def)
    show ?thesis
    proof (cases "find_str x (act_close a)")
      case (Some i)
      then have "length (drop (i + length (act_close a)) x) < length x"
        using a find_str_Some [OF Some] by (cases "act_close a") auto
      then show ?thesis
        using less.hyps [of "drop (i + length (act_close a)) x" None] less.prems \<open>act = Some a\<close> Some
        by (simp add: inline_loop_close active_valid_def)
    qed (use Some less.prems in \<open>auto simp: inline_loop_inside\<close>)
  next
    case None
    show ?thesis
    proof (cases "find_next_open ss x")
      case (Some pi)
      then obtain p i where pi: "find_next_open ss x = Some (p, i)" by (cases pi) auto
      let ?a = "Some \<lparr>act_tag = spec_tag (ss ! i), act_close = close_delim (ss ! i), act_content = []\<rparr>"
      note f = find_next_open_Some [OF pi]
      have ne: "open_delim (ss ! i) \<noteq> []" "active_valid ?a"
        using spec_nonempty [OF assms(1)] f by (simp_all add: active_valid_def)
      have shorter: "length (drop (p + length (open_delim (ss ! i))) x) < length x"
        using ne f find_str_Some [of x "open_delim (ss ! i)" p] by (cases "open_delim (ss ! i)") auto
      have "close_delim (ss ! i) = cl" using assms(3) f by (simp add: list_all_length)
      then have "\<forall>a. ?a = Some a \<longrightarrow> act_close a = cl" by simp
      from less.hyps [OF shorter ne(2) this] show ?thesis
        using less.prems(3) unfolding None inline_loop_open [OF pi] by blast
    qed (use None less.prems in \<open>auto simp: inline_loop_outside\<close>)
  qed
qed

lemma citation_push_inline:
  assumes "citation_valid p" and "inline_push_str p a = Some (p', c)"
  shows "citation_valid p'"
proof -
  obtain act pend where l: "inline_loop [citation_spec] (active p) (pending p @ a) chunk_empty = Some (act, pend, c)"
      and p': "p' = p\<lparr>active := act, pending := pend\<rparr>"
    using assms by (auto simp: inline_push_str_def citation_valid_def)
  have "specs_valid [citation_spec]" "active_valid (active p)" "list_all (\<lambda>s. close_delim s = CITATION_CLOSE) [citation_spec]"
    using citation_inline_valid [OF assms(1)] assms(1)
    by (auto simp: citation_valid_def inline_valid_def citation_spec_def)
  moreover have "\<forall>a. active p = Some a \<longrightarrow> act_close a = CITATION_CLOSE"
    using assms(1) by (auto simp: citation_valid_def)
  ultimately have "\<forall>a. act = Some a \<longrightarrow> act_close a = CITATION_CLOSE"
    using inline_loop_close_kept l by blast
  then show ?thesis using p' assms(1) by (auto simp: citation_valid_def split: option.splits)
qed

lemma contents_join: "contents_only (chunk_join (@) a b) = chunk_join (@) (contents_only a) (contents_only b)"
  by (simp add: contents_only_def chunk_join_def)

lemma citation_push_returns:
  assumes "citation_valid p"
  shows "\<exists>p' c. citation_push_str p a = Some (p', c) \<and> citation_valid p'"
  using inline_push_returns [OF citation_inline_valid [OF assms], of a] citation_push_inline [OF assms, of a]
  by (auto simp: citation_push_str_def)

lemma citation_push_append:
  assumes "citation_valid p" and "char_aligned b" and "citation_push_str p a = Some (p1, c1)"
    and "citation_push_str p1 b = Some (p2, c2)"
  shows "citation_push_str p (a @ b) = Some (p2, chunk_join (@) c1 c2)"
  using assms inline_push_append [OF citation_inline_valid [OF assms(1)] assms(2)]
  by (auto simp: citation_push_str_def contents_join)

interpretation citation: stream_parser citation_valid citation_push_str citation_finish "(@)"
  by unfold_locales (use citation_push_returns citation_push_append in \<open>blast | simp\<close>)+

section \<open>The reference\<close>

text \<open>
  What hiding citations means for a complete text: everything between an opening delimiter and the
  next closing one is a citation, an unclosed one reaches to the end, and the rest is visible.
\<close>

function citations_of :: "str \<Rightarrow> str \<times> str list" where
  "citations_of t =
     (case find_str t CITATION_OPEN of
        None \<Rightarrow> (t, [])
      | Some i \<Rightarrow>
          (let r = drop (i + length CITATION_OPEN) t
           in case find_str r CITATION_CLOSE of
                None \<Rightarrow> (take i t, [r])
              | Some j \<Rightarrow>
                  (let (v, cs) = citations_of (drop (j + length CITATION_CLOSE) r)
                   in (take i t @ v, take j r # cs))))"
  by pat_completeness auto
termination
proof (relation "measure length", goal_cases)
  case (2 t i r j)
  then show ?case using find_str_Some [of t CITATION_OPEN i] by (auto simp: CITATION_OPEN_def)
qed simp

declare citations_of.simps [simp del]

lemma find_citation_open:
  "find_next_open [citation_spec] x = map_option (\<lambda>p. (p, 0)) (find_str x CITATION_OPEN)"
  by (cases "find_str x CITATION_OPEN")
     (simp_all add: find_next_open_def open_candidates_def List.map_filter_def citation_spec_def)

definition close_loop :: "'a active_tag option \<times> str \<times> 'a inline_out \<Rightarrow> str \<times> str list" where
  "close_loop r = (case r of (act, pend, out) \<Rightarrow>
     (case act of
        None \<Rightarrow> (visible_text out @ pend, map ex_content (extracted out))
      | Some a \<Rightarrow> (visible_text out, map ex_content (extracted out) @ [act_content a @ pend])))"

lemma citation_loop_reference:
  "\<exists>r. inline_loop [citation_spec] None x out = Some r
     \<and> close_loop r = (visible_text out @ fst (citations_of x), map ex_content (extracted out) @ snd (citations_of x))"
proof (induction x arbitrary: out rule: citations_of.induct)
  case (1 x)
  show ?case
  proof (cases "find_str x CITATION_OPEN")
    case None
    then show ?thesis by (simp add: inline_loop_outside find_citation_open close_loop_def citations_of.simps)
  next
    case (Some i)
    let ?r = "drop (i + length CITATION_OPEN) x"
    have f: "find_next_open [citation_spec] x = Some (i, 0)" using Some by (simp add: find_citation_open)
    show ?thesis
    proof (cases "find_str ?r CITATION_CLOSE")
      case None
      then show ?thesis
        using Some f
        by (simp add: inline_loop_open inline_loop_inside close_loop_def citations_of.simps [of x]
            citation_spec_def del: drop_drop)
    next
      case s: (Some j)
      then show ?thesis
        using Some f 1 [OF Some refl s, of "out\<lparr>visible_text := visible_text out @ take i x,
          extracted := extracted out @ [\<lparr>ex_tag = Citation, ex_content = take j ?r\<rparr>]\<rparr>"]
        by (simp add: inline_loop_open inline_loop_close citations_of.simps [of x] citation_spec_def case_prod_beta)
    qed
  qed
qed

lemma citation_push_new:
  "\<exists>p c. citation_push_str \<lparr>specs = [citation_spec], pending = [], active = None\<rparr> t = Some (p, c)
     \<and> (visible_text c @ visible_text (snd (citation_finish p)), extracted c @ extracted (snd (citation_finish p)))
       = citations_of t"
proof -
  obtain act pend out where l: "inline_loop [citation_spec] None t chunk_empty = Some (act, pend, out)"
      "close_loop (act, pend, out) = citations_of t"
    using citation_loop_reference [of t chunk_empty] by (auto simp: chunk_empty_def)
  then show ?thesis
    by (cases act) (simp_all add: citation_push_str_def inline_push_str_def citation_finish_def
        inline_finish_def contents_only_def close_loop_def)
qed

lemma citation_new_eq: "citation_new = Some \<lparr>specs = [citation_spec], pending = [], active = None\<rparr>"
  by (simp add: citation_new_def inline_new_def citation_spec_def CITATION_OPEN_def CITATION_CLOSE_def)

definition citation_stream :: "str list \<Rightarrow> (str \<times> str list) option" where
  "citation_stream cs =
     Option.bind citation_new (\<lambda>p.
       map_option (\<lambda>(p1, c).
           let tail = snd (citation_finish p1)
           in (visible_text c @ visible_text tail, extracted c @ extracted tail))
         (push_all citation_push_str (@) p cs))"

section \<open>Properties\<close>

text \<open>
  the hidden-tag parser does not depend on how its input is cut: as long as no opening
  delimiter contains another one, two chunks pushed one after the other give the state and, put
  together, the output of the two in one piece.
\<close>

theorem inline_push_str_chunk_independent:
  assumes "inline_new ss = Some p0" and "separate_opens ss"
    and "list_all char_aligned (cs @ [b])"
  shows "\<exists>p c p' c'. push_all inline_push_str (@) p0 cs = Some (p, c)
    \<and> inline_push_str p b = Some (p', c')
    \<and> inline_push_str p0 (concat (cs @ [b])) = Some (p', chunk_join (@) c c')"
proof -
  have v: "inline_valid p0"
    using inline_new_valid [OF assms(1)] assms(1,2)
    by (auto simp: inline_valid_def inline_new_def split: if_splits)
  obtain p c where p: "push_all inline_push_str (@) p0 cs = Some (p, c)" "inline_valid p"
    using inline.push_all_returns [OF v] by blast
  obtain p' c' where p': "inline_push_str p b = Some (p', c')" using inline_push_returns [OF p(2)] by blast
  have "push_all inline_push_str (@) p0 (cs @ [b]) = Some (p', chunk_join (@) c c')"
    using p(1) p' inline.push_all_append by fastforce
  then show ?thesis using inline.push_all_concat [OF v assms(3)] p p' by auto
qed

lemma citation_stream_ref:
  assumes "list_all char_aligned cs"
  shows "citation_stream cs = Some (citations_of (concat cs))"
proof (cases "cs = []")
  case True
  then show ?thesis
    by (simp add: citation_stream_def citation_new_eq citation_finish_def inline_finish_def contents_only_def
        chunk_empty_def citations_of.simps CITATION_OPEN_def)
next
  case False
  have v: "citation_valid \<lparr>specs = [citation_spec], pending = [], active = None\<rparr>"
    by (simp add: citation_valid_def)
  show ?thesis
    using citation_push_new [of "concat cs"] citation.push_all_concat [OF v assms False]
    by (auto simp: citation_stream_def citation_new_eq Let_def)
qed

text \<open>
  C23: citations are stripped from a stream as they are from the complete text: for every way to
  cut a text into chunks, the visible text and the citations that the parser emits, flush
  included, are those of the text read as a whole.
\<close>

theorem citation_stream_reference:
  assumes "list_all char_aligned cs"
  shows "citation_stream cs = Some (citations_of (concat cs))"
  using assms by (rule citation_stream_ref)

text \<open>C28: \<open>strip_citations\<close> always returns, and returns the visible text and the citations.\<close>

theorem strip_citations_reference: "strip_citations t = Some (citations_of t)"
  using citation_push_new [of t] by (auto simp: strip_citations_def citation_new_eq Let_def)

theorem citation_stream_reference_witness:
  "citation_stream [''ab<oai-mem-'', ''citation>x</oai'', ''-mem-citation>c'']
   = Some (citations_of ''ab<oai-mem-citation>x</oai-mem-citation>c'')"
proof -
  have "list_all char_aligned [''ab<oai-mem-'', ''citation>x</oai'', ''-mem-citation>c'']" by code_simp
  from citation_stream_reference [OF this] show ?thesis by simp
qed

definition two_specs :: "nat inline_tag_spec list" where
  "two_specs = [\<lparr>spec_tag = 0, open_delim = ''<a>'', close_delim = ''</a>''\<rparr>,
     \<lparr>spec_tag = 1, open_delim = ''<b>'', close_delim = ''</b>''\<rparr>]"

theorem inline_push_str_chunk_independent_witness:
  "\<exists>p c p' c'. push_all inline_push_str (@) \<lparr>specs = two_specs, pending = [], active = None\<rparr>
        [''1<'', ''a>x</a''] = Some (p, c)
    \<and> inline_push_str p ''>2'' = Some (p', c')
    \<and> inline_push_str \<lparr>specs = two_specs, pending = [], active = None\<rparr> ''1<a>x</a>2''
        = Some (p', chunk_join (@) c c')"
proof -
  have "inline_new two_specs = Some \<lparr>specs = two_specs, pending = [], active = None\<rparr>"
    by (simp add: inline_new_def two_specs_def)
  moreover have "separate_opens two_specs" by (simp add: separate_opens_def two_specs_def sublist_code)
  moreover have "list_all char_aligned ([''1<'', ''a>x</a''] @ [''>2''])" by code_simp
  ultimately show ?thesis
    using inline_push_str_chunk_independent [of two_specs _ "[''1<'', ''a>x</a'']" "''>2''"] by simp
qed

section \<open>Nested opening delimiters\<close>

definition nested_specs :: "nat inline_tag_spec list" where
  "nested_specs = [\<lparr>spec_tag = 0, open_delim = ''<a>'', close_delim = ''</a>''\<rparr>,
     \<lparr>spec_tag = 1, open_delim = ''<a>b'', close_delim = ''</ab>''\<rparr>]"

text \<open>
  the preference for the longest delimiter at an offset depends on the chunks: with openers
  \<open><a>\<close> and \<open><a>b\<close> the text \<open><a>b\<close> opens the second tag in one piece, and the first one when it
  is cut before the \<open>b\<close>.
\<close>

theorem longest_opener_depends_on_chunks:
  "map_option (\<lambda>(p, c). map_option act_tag (active p))
     (inline_push_str \<lparr>specs = nested_specs, pending = [], active = None\<rparr> ''<a>b'') = Some (Some 1)
   \<and> map_option (\<lambda>(p, c). map_option act_tag (active p))
     (push_all inline_push_str (@) \<lparr>specs = nested_specs, pending = [], active = None\<rparr> [''<a>'', ''b''])
     = Some (Some 0)"
  by code_simp

end
