(* ===== verification/Stream_Tagged_Line.thy ===== *)
theory Stream_Tagged_Line
  imports Stream_Text Utf8_Text
begin

text \<open>
  Blocks marked by tags that stand alone on a line (\<open>codex-rs/utils/stream-parser/src/\<close>
  \<open>tagged_line_parser.rs\<close> and \<open>proposed_plan.rs\<close>).  The parser buffers a line as long as it may
  still be a tag and passes text on as soon as it cannot.
\<close>

section \<open>The line parser\<close>

record 'a tag_spec =
  tag_open :: str
  tag_close :: str
  tag_value :: 'a

datatype 'a tagged_segment =
    Normal str
  | TagStart 'a
  | TagDelta 'a str
  | TagEnd 'a

record 'a tagged_parser =
  tag_specs :: "'a tag_spec list"
  active_tag :: "'a option"
  detect_tag :: bool
  tag_buffer :: str

definition tagged_new :: "'a tag_spec list \<Rightarrow> 'a tagged_parser" where
  "tagged_new ss = \<lparr>tag_specs = ss, active_tag = None, detect_tag = True, tag_buffer = []\<rparr>"

fun push_segment :: "'a tagged_segment list \<Rightarrow> 'a tagged_segment \<Rightarrow> 'a tagged_segment list" where
  "push_segment segs (Normal delta) =
     (if delta = [] then segs
      else if segs = [] then [Normal delta]
      else case last segs of
             Normal existing \<Rightarrow> butlast segs @ [Normal (existing @ delta)]
           | _ \<Rightarrow> segs @ [Normal delta])"
| "push_segment segs (TagDelta tag delta) =
     (if delta = [] then segs
      else if segs = [] then [TagDelta tag delta]
      else case last segs of
             TagDelta existing_tag existing \<Rightarrow>
               if existing_tag = tag then butlast segs @ [TagDelta existing_tag (existing @ delta)]
               else segs @ [TagDelta tag delta]
           | _ \<Rightarrow> segs @ [TagDelta tag delta])"
| "push_segment segs (TagStart tag) = segs @ [TagStart tag]"
| "push_segment segs (TagEnd tag) = segs @ [TagEnd tag]"

definition text_segment :: "'a option \<Rightarrow> str \<Rightarrow> 'a tagged_segment" where
  "text_segment act s = (case act of Some tag \<Rightarrow> TagDelta tag s | None \<Rightarrow> Normal s)"

definition push_text :: "'a tagged_parser \<Rightarrow> str \<Rightarrow> 'a tagged_segment list \<Rightarrow> 'a tagged_segment list" where
  "push_text p s segs = push_segment segs (text_segment (active_tag p) s)"

definition is_tag_prefix :: "'a tagged_parser \<Rightarrow> str \<Rightarrow> bool" where
  "is_tag_prefix p slug \<longleftrightarrow>
     list_ex (\<lambda>s. starts_with (tag_open s) (trim_end slug) \<or> starts_with (tag_close s) (trim_end slug))
       (tag_specs p)"

definition match_open :: "'a tagged_parser \<Rightarrow> str \<Rightarrow> 'a option" where
  "match_open p slug = map_option tag_value (find (\<lambda>s. tag_open s = slug) (tag_specs p))"

definition match_close :: "'a tagged_parser \<Rightarrow> str \<Rightarrow> 'a option" where
  "match_close p slug = map_option tag_value (find (\<lambda>s. tag_close s = slug) (tag_specs p))"

abbreviation newline :: str where
  "newline \<equiv> [CHR 0x0A]"

definition line_slug :: "str \<Rightarrow> str" where
  "line_slug line =
     trim_end (trim_start (case strip_suffix newline line of Some l \<Rightarrow> l | None \<Rightarrow> line))"

definition finish_line ::
    "'a tagged_parser \<Rightarrow> 'a tagged_segment list \<Rightarrow> 'a tagged_parser \<times> 'a tagged_segment list" where
  "finish_line p segs =
     (let line = tag_buffer p; p1 = p\<lparr>tag_buffer := []\<rparr>; slug = line_slug line
      in if match_open p slug \<noteq> None \<and> active_tag p = None
         then (p1\<lparr>active_tag := match_open p slug, detect_tag := True\<rparr>,
               push_segment segs (TagStart (the (match_open p slug))))
         else if match_close p slug \<noteq> None \<and> active_tag p = match_close p slug
         then (p1\<lparr>active_tag := None, detect_tag := True\<rparr>,
               push_segment segs (TagEnd (the (match_close p slug))))
         else (p1\<lparr>detect_tag := True\<rparr>, push_text p1 line segs))"

type_synonym 'a parse_state = "'a tagged_parser \<times> 'a tagged_segment list \<times> str"

definition parse_char :: "str \<Rightarrow> 'a parse_state \<Rightarrow> 'a parse_state" where
  "parse_char ch st =
     (case st of (p, segs, run) \<Rightarrow>
        if detect_tag p then
          (let segs1 = (if run \<noteq> [] then push_text p run segs else segs);
               p1 = p\<lparr>tag_buffer := tag_buffer p @ ch\<rparr>
           in if ch = newline then (case finish_line p1 segs1 of (p2, segs2) \<Rightarrow> (p2, segs2, []))
              else
                (let slug = trim_start (tag_buffer p1)
                 in if slug = [] \<or> is_tag_prefix p slug then (p1, segs1, [])
                    else (p1\<lparr>tag_buffer := [], detect_tag := False\<rparr>,
                          push_text p1 (tag_buffer p1) segs1, [])))
        else if ch = newline
        then (p\<lparr>detect_tag := True\<rparr>, push_text p (run @ ch) segs, [])
        else (p, segs, run @ ch))"

definition tagged_parse ::
    "'a tagged_parser \<Rightarrow> str \<Rightarrow> 'a tagged_parser \<times> 'a tagged_segment list" where
  "tagged_parse p delta =
     (case fold parse_char (utf8_chars delta) (p, [], []) of
        (p', segs, run) \<Rightarrow> (p', if run \<noteq> [] then push_text p' run segs else segs))"

definition tagged_finish :: "'a tagged_parser \<Rightarrow> 'a tagged_parser \<times> 'a tagged_segment list" where
  "tagged_finish p =
     (let (p1, segs) =
        (if tag_buffer p \<noteq> [] then
           (let p0 = p\<lparr>tag_buffer := []\<rparr>; slug = line_slug (tag_buffer p)
            in if match_open p slug \<noteq> None \<and> active_tag p = None
               then (p0\<lparr>active_tag := match_open p slug\<rparr>,
                     push_segment [] (TagStart (the (match_open p slug))))
               else if match_close p slug \<noteq> None \<and> active_tag p = match_close p slug
               then (p0\<lparr>active_tag := None\<rparr>, push_segment [] (TagEnd (the (match_close p slug))))
               else (p0, push_text p0 (tag_buffer p) []))
         else (p, []))
      in (p1\<lparr>active_tag := None, detect_tag := True\<rparr>,
          case active_tag p1 of Some tag \<Rightarrow> push_segment segs (TagEnd tag) | None \<Rightarrow> segs))"

section \<open>Proposed plans\<close>

datatype plan_tag = ProposedPlan

datatype plan_segment =
    PlanNormal str
  | ProposedPlanStart
  | ProposedPlanDelta str
  | ProposedPlanEnd

definition OPEN_TAG :: str where "OPEN_TAG = ''<proposed_plan>''"
definition CLOSE_TAG :: str where "CLOSE_TAG = ''</proposed_plan>''"

definition plan_new :: "plan_tag tagged_parser" where
  "plan_new = tagged_new [\<lparr>tag_open = OPEN_TAG, tag_close = CLOSE_TAG, tag_value = ProposedPlan\<rparr>]"

fun map_segment :: "plan_tag tagged_segment \<Rightarrow> plan_segment" where
  "map_segment (Normal s) = PlanNormal s"
| "map_segment (TagStart _) = ProposedPlanStart"
| "map_segment (TagDelta _ s) = ProposedPlanDelta s"
| "map_segment (TagEnd _) = ProposedPlanEnd"

fun normal_text :: "plan_segment \<Rightarrow> str" where
  "normal_text (PlanNormal s) = s"
| "normal_text _ = []"

definition map_segments :: "plan_tag tagged_segment list \<Rightarrow> plan_segment stream_text_chunk" where
  "map_segments segs =
     \<lparr>visible_text = concat (map (normal_text \<circ> map_segment) segs), extracted = map map_segment segs\<rparr>"

definition plan_push_str ::
    "plan_tag tagged_parser \<Rightarrow> str \<Rightarrow> plan_tag tagged_parser \<times> plan_segment stream_text_chunk" where
  "plan_push_str p chunk = map_prod id map_segments (tagged_parse p chunk)"

definition plan_finish ::
    "plan_tag tagged_parser \<Rightarrow> plan_tag tagged_parser \<times> plan_segment stream_text_chunk" where
  "plan_finish p = map_prod id map_segments (tagged_finish p)"

definition strip_proposed_plan_blocks :: "str \<Rightarrow> str" where
  "strip_proposed_plan_blocks t =
     (let (p, c) = plan_push_str plan_new t in visible_text c @ visible_text (snd (plan_finish p)))"

fun collect_plan :: "plan_segment list \<Rightarrow> bool \<times> str \<Rightarrow> bool \<times> str" where
  "collect_plan [] acc = acc"
| "collect_plan (ProposedPlanStart # segs) (saw, plan_text) = collect_plan segs (True, [])"
| "collect_plan (ProposedPlanDelta d # segs) (saw, plan_text) = collect_plan segs (saw, plan_text @ d)"
| "collect_plan (s # segs) acc = collect_plan segs acc"

definition extract_proposed_plan_text :: "str \<Rightarrow> str option" where
  "extract_proposed_plan_text t =
     (let (p, c) = plan_push_str plan_new t;
          (saw, plan_text) = collect_plan (extracted c @ extracted (snd (plan_finish p))) (False, [])
      in if saw then Some plan_text else None)"

section \<open>Merging segments\<close>

definition merge_segments ::
    "'a tagged_segment list \<Rightarrow> 'a tagged_segment list \<Rightarrow> 'a tagged_segment list" where
  "merge_segments xs ys = foldl push_segment xs ys"

lemma push_segment_Nil: "segs \<noteq> [] \<Longrightarrow> push_segment segs s \<noteq> []"
  by (cases s) (auto split: tagged_segment.splits)

text \<open>Pushing into a later list and merging is merging and pushing.\<close>

lemma push_segment_twice:
  "push_segment (push_segment m (Normal a)) (Normal b) = push_segment m (Normal (a @ b))"
  "push_segment (push_segment m (TagDelta t a)) (TagDelta t b) = push_segment m (TagDelta t (a @ b))"
  by (cases m rule: rev_cases; auto simp: butlast_append split: tagged_segment.splits)+

lemma push_segment_snoc:
  "push_segment (ys @ [l]) s = ys @ push_segment [l] s"
  by (cases s; cases l) auto

lemma push_segment_cases:
  obtains a b where "l = Normal a" "s = Normal b" "push_segment [l] s = [Normal (a @ b)]"
  | t a b where "l = TagDelta t a" "s = TagDelta t b" "push_segment [l] s = [TagDelta t (a @ b)]"
  | "push_segment [l] s = [l]" "\<forall>m. push_segment m s = m"
  | "push_segment [l] s = [l, s]"
proof (cases s)
  case (Normal b)
  then show thesis using that(1,3,4) by (cases "b = []"; cases l) auto
next
  case (TagDelta t b)
  show thesis
  proof (cases "\<exists>a. l = TagDelta t a")
    case True
    then show thesis using TagDelta that(2) by auto
  next
    case False
    then show thesis using TagDelta that(3,4) by (cases "b = []"; cases l) auto
  qed
qed (use that(4) in auto)

lemma push_segment_pair: "foldl push_segment m (push_segment [l] s) = push_segment (push_segment m l) s"
proof (cases l s rule: push_segment_cases)
  case (1 a b)
  then show ?thesis by (simp only: foldl.simps push_segment_twice)
next
  case (2 t a b)
  then show ?thesis by (simp only: foldl.simps push_segment_twice)
next
  case 3
  then show ?thesis by (simp only: foldl.simps)
next
  case 4
  then show ?thesis by (simp only: foldl.simps)
qed

lemma merge_push: "merge_segments x (push_segment y s) = push_segment (merge_segments x y) s"
proof (cases y rule: rev_cases)
  case Nil
  then show ?thesis by (cases s) (simp_all add: merge_segments_def)
next
  case (snoc ys l)
  then show ?thesis by (simp only: merge_segments_def push_segment_snoc foldl_append push_segment_pair foldl.simps)
qed

lemma foldl_push_merge: "foldl push_segment x ys = merge_segments x (foldl push_segment [] ys)"
proof (induction ys rule: rev_induct)
  case (snoc s ys)
  then show ?case by (simp add: merge_push)
qed (simp add: merge_segments_def)

lemma merge_assoc:
  "foldl push_segment (foldl push_segment x y) z = foldl push_segment x (foldl push_segment y z)"
proof (induction z rule: rev_induct)
  case (snoc s z)
  then show ?case using merge_push [of x "foldl push_segment y z" s] by (simp add: merge_segments_def)
qed simp

lemma foldl_push_Nil: "xs \<noteq> [] \<Longrightarrow> foldl push_segment xs ys \<noteq> []"
  by (induction ys arbitrary: xs) (simp_all add: push_segment_Nil del: push_segment.simps)

section \<open>One character at a time\<close>

text \<open>The segments one character gives, before merging; text is passed on at once.\<close>

definition char_step :: "str \<Rightarrow> 'a tagged_parser \<Rightarrow> 'a tagged_parser \<times> 'a tagged_segment list" where
  "char_step ch p =
     (if detect_tag p then
        (let p1 = p\<lparr>tag_buffer := tag_buffer p @ ch\<rparr>
         in if ch = newline then finish_line p1 []
            else
              (let slug = trim_start (tag_buffer p1)
               in if slug = [] \<or> is_tag_prefix p slug then (p1, [])
                  else (p1\<lparr>tag_buffer := [], detect_tag := False\<rparr>, push_text p1 (tag_buffer p1) [])))
      else (p\<lparr>detect_tag := (ch = newline)\<rparr>, push_text p ch []))"

fun chars_run :: "str list \<Rightarrow> 'a tagged_parser \<Rightarrow> 'a tagged_parser \<times> 'a tagged_segment list" where
  "chars_run [] p = (p, [])"
| "chars_run (ch # cs) p =
     (case char_step ch p of (p1, s1) \<Rightarrow> (case chars_run cs p1 of (p2, s2) \<Rightarrow> (p2, s1 @ s2)))"

lemma chars_run_append:
  "chars_run (a @ b) p =
     (case chars_run a p of (p1, s1) \<Rightarrow> (case chars_run b p1 of (p2, s2) \<Rightarrow> (p2, s1 @ s2)))"
  by (induction a arbitrary: p) (auto split: prod.splits)

lemma push_text_split: "push_text p b (push_text p a segs) = push_text p (a @ b) segs"
  by (cases "active_tag p") (simp_all add: push_text_def text_segment_def push_segment_twice del: push_segment.simps)

lemma push_text_Nil [simp]: "push_text p [] segs = segs"
  by (cases "active_tag p") (simp_all add: push_text_def text_segment_def)

lemma push_text_active: "active_tag p = active_tag q \<Longrightarrow> push_text p = push_text q"
  by (intro ext) (simp add: push_text_def)

lemma push_text_from_empty: "foldl push_segment segs (push_text p s []) = push_text p s segs"
  using merge_push [of segs "[]" "text_segment (active_tag p) s"]
  by (simp add: push_text_def merge_segments_def)

lemma finish_line_from_empty:
  "finish_line p segs = (case finish_line p [] of (p', s) \<Rightarrow> (p', foldl push_segment segs s))"
  by (simp add: finish_line_def Let_def push_text_from_empty)

text \<open>Flushing the run after a character.\<close>

definition flush_run :: "'a parse_state \<Rightarrow> 'a tagged_parser \<times> 'a tagged_segment list" where
  "flush_run st = (case st of (p, segs, run) \<Rightarrow> (p, push_text p run segs))"

lemma flush_parse_char:
  "flush_run (parse_char ch (p, segs, run)) =
     (case char_step ch p of (p', s) \<Rightarrow> (p', foldl push_segment (push_text p run segs) s))"
proof -
  have "push_text (p\<lparr>detect_tag := d\<rparr>) = push_text p" "push_text (p\<lparr>tag_buffer := b\<rparr>) = push_text p"
    "push_text (p\<lparr>tag_buffer := b, detect_tag := d\<rparr>) = push_text p" for b d
    by (rule push_text_active, simp)+
  note same = this
  show ?thesis
  proof (cases "detect_tag p \<and> ch = newline")
    case True
    let ?p1 = "p\<lparr>tag_buffer := tag_buffer p @ ch\<rparr>"
    have "(if run \<noteq> [] then push_text p run segs else segs) = push_text p run segs" by simp
    then show ?thesis
      using True finish_line_from_empty [of ?p1 "push_text p run segs"]
      by (simp add: flush_run_def parse_char_def char_step_def Let_def split: prod.split)
  next
    case False
    have "(if run \<noteq> [] then push_text p run segs else segs) = push_text p run segs" by simp
    then show ?thesis
      using False
      by (auto simp: flush_run_def parse_char_def char_step_def Let_def push_text_from_empty
          push_text_split same)
  qed
qed

lemma flush_fold:
  "flush_run (fold parse_char cs (p, segs, run)) =
     (case chars_run cs p of (p', s) \<Rightarrow> (p', foldl push_segment (push_text p run segs) s))"
proof (induction cs arbitrary: p segs run)
  case (Cons ch cs)
  obtain q segs' run' where st: "parse_char ch (p, segs, run) = (q, segs', run')" by (metis prod_cases3)
  obtain p1 s1 where s1: "char_step ch p = (p1, s1)" by fastforce
  have "q = p1 \<and> push_text q run' segs' = foldl push_segment (push_text p run segs) s1"
    using flush_parse_char [of ch p segs run] unfolding st s1 by (auto simp: flush_run_def)
  then show ?case using Cons.IH [of q segs' run'] st s1 by (auto split: prod.split)
qed (simp add: flush_run_def)

lemma tagged_parse_chars:
  "tagged_parse p delta =
     (case chars_run (utf8_chars delta) p of (p', s) \<Rightarrow> (p', foldl push_segment [] s))"
  using flush_fold [of "utf8_chars delta" p "[]" "[]"]
  by (auto simp: tagged_parse_def flush_run_def split: prod.splits)

lemma tagged_parse_append:
  assumes "char_aligned b"
  shows "tagged_parse p (a @ b) =
    (case tagged_parse p a of (p1, s1) \<Rightarrow>
      (case tagged_parse p1 b of (p2, s2) \<Rightarrow> (p2, merge_segments s1 s2)))"
proof -
  obtain p1 s1 where 1: "chars_run (utf8_chars a) p = (p1, s1)" by fastforce
  obtain p2 s2 where 2: "chars_run (utf8_chars b) p1 = (p2, s2)" by fastforce
  show ?thesis
    by (simp add: tagged_parse_chars utf8_chars_append [OF assms] chars_run_append 1 2
        foldl_push_merge [of "foldl push_segment [] s1" s2])
qed

section \<open>The plan parser\<close>

text \<open>
  Plan segments of consecutive chunks, put together: text continues the segment before it.
\<close>

fun merge_plan_segment :: "plan_segment list \<Rightarrow> plan_segment \<Rightarrow> plan_segment list" where
  "merge_plan_segment segs (PlanNormal s) =
     (if s = [] then segs
      else if segs = [] then [PlanNormal s]
      else case last segs of
             PlanNormal t \<Rightarrow> butlast segs @ [PlanNormal (t @ s)]
           | _ \<Rightarrow> segs @ [PlanNormal s])"
| "merge_plan_segment segs (ProposedPlanDelta s) =
     (if s = [] then segs
      else if segs = [] then [ProposedPlanDelta s]
      else case last segs of
             ProposedPlanDelta t \<Rightarrow> butlast segs @ [ProposedPlanDelta (t @ s)]
           | _ \<Rightarrow> segs @ [ProposedPlanDelta s])"
| "merge_plan_segment segs s = segs @ [s]"

fun unmap_segment :: "plan_segment \<Rightarrow> plan_tag tagged_segment" where
  "unmap_segment (PlanNormal s) = Normal s"
| "unmap_segment ProposedPlanStart = TagStart ProposedPlan"
| "unmap_segment (ProposedPlanDelta s) = TagDelta ProposedPlan s"
| "unmap_segment ProposedPlanEnd = TagEnd ProposedPlan"

lemma plan_tag_eq: "(t :: plan_tag) = ProposedPlan"
  by (cases t) simp

lemma unmap_map [simp]: "unmap_segment (map_segment s) = s"
  by (cases s) (auto intro: plan_tag_eq [symmetric])

lemma map_unmap [simp]: "map_segment (unmap_segment s) = s"
  by (cases s) auto

lemma map_push_segment:
  "map map_segment (push_segment segs s) = merge_plan_segment (map map_segment segs) (map_segment s)"
proof (cases segs rule: rev_cases)
  case Nil
  then show ?thesis by (cases s) auto
next
  case (snoc ys l)
  then show ?thesis by (cases s; cases l) (auto, metis plan_tag_eq)
qed

definition join_plan_segments :: "plan_segment list \<Rightarrow> plan_segment list \<Rightarrow> plan_segment list" where
  "join_plan_segments xs ys = (if xs = [] then ys else foldl merge_plan_segment xs ys)"

lemma map_merge_segments:
  "map map_segment (foldl push_segment xs ys) = foldl merge_plan_segment (map map_segment xs) (map map_segment ys)"
  by (induction ys arbitrary: xs) (simp_all add: map_push_segment del: push_segment.simps)

lemma normal_text_push:
  "concat (map (normal_text \<circ> map_segment) (push_segment segs s))
     = concat (map (normal_text \<circ> map_segment) segs) @ normal_text (map_segment s)"
proof (cases segs rule: rev_cases)
  case Nil
  then show ?thesis by (cases s) auto
next
  case (snoc ys l)
  then show ?thesis by (cases s; cases l) auto
qed

lemma normal_text_merge:
  "concat (map (normal_text \<circ> map_segment) (foldl push_segment xs ys))
     = concat (map (normal_text \<circ> map_segment) xs) @ concat (map (normal_text \<circ> map_segment) ys)"
  by (induction ys arbitrary: xs) (simp_all add: normal_text_push del: push_segment.simps)

lemma join_plan_assoc: "join_plan_segments (join_plan_segments x y) z = join_plan_segments x (join_plan_segments y z)"
proof -
  have "map map_segment (map unmap_segment xs) = xs" for xs by (induction xs) auto
  then have fold: "foldl merge_plan_segment xs ys
      = map map_segment (foldl push_segment (map unmap_segment xs) (map unmap_segment ys))" for xs ys
    by (simp only: map_merge_segments)
  have "map unmap_segment (map map_segment xs) = xs" for xs by (induction xs) auto
  note inv = this
  have "foldl merge_plan_segment (foldl merge_plan_segment x y) z
      = foldl merge_plan_segment x (foldl merge_plan_segment y z)"
    by (simp only: fold inv merge_assoc)
  moreover have "foldl merge_plan_segment xs ys \<noteq> []" if "xs \<noteq> []" for xs ys
    using that foldl_push_Nil [of "map unmap_segment xs" "map unmap_segment ys"] by (simp add: fold)
  ultimately show ?thesis by (auto simp: join_plan_segments_def)
qed

lemma map_segments_merge:
  assumes "foldl push_segment [] s2 = s2"
  shows "map_segments (merge_segments s1 s2) = chunk_join join_plan_segments (map_segments s1) (map_segments s2)"
proof -
  have "foldl merge_plan_segment [] (map map_segment s2) = map map_segment s2"
    using map_merge_segments [of "[]" s2] assms by simp
  then show ?thesis
    by (auto simp: map_segments_def chunk_join_def merge_segments_def normal_text_merge map_merge_segments
        join_plan_segments_def)
qed

lemma tagged_parse_merged: "tagged_parse p a = (p', s) \<Longrightarrow> foldl push_segment [] s = s"
  using merge_assoc [of "[]" "[]", symmetric] by (auto simp: tagged_parse_chars split: prod.splits)

lemma plan_push_append:
  assumes "char_aligned b" and "plan_push_str p a = (p1, c1)" and "plan_push_str p1 b = (p2, c2)"
  shows "plan_push_str p (a @ b) = (p2, chunk_join join_plan_segments c1 c2)"
proof -
  obtain s1 where s1: "tagged_parse p a = (p1, s1)" "c1 = map_segments s1"
    using assms(2) by (auto simp: plan_push_str_def map_prod_def split: prod.splits)
  obtain s2 where s2: "tagged_parse p1 b = (p2, s2)" "c2 = map_segments s2"
    using assms(3) by (auto simp: plan_push_str_def map_prod_def split: prod.splits)
  show ?thesis
    using s1 s2 tagged_parse_append [OF assms(1), of p a] map_segments_merge [OF tagged_parse_merged [OF s2(1)], of s1]
    by (simp add: plan_push_str_def)
qed

interpretation plan: stream_parser "\<lambda>_. True" "\<lambda>p a. Some (plan_push_str p a)" plan_finish join_plan_segments
proof
  show "\<exists>s' c. Some (plan_push_str s a) = Some (s', c) \<and> True" for s a
    by (cases "plan_push_str s a") simp
  show "Some (plan_push_str s (a @ b)) = Some (s2, chunk_join join_plan_segments c1 c2)"
    if "char_aligned b" "Some (plan_push_str s a) = Some (s1, c1)" "Some (plan_push_str s1 b) = Some (s2, c2)"
    for s a b s1 c1 s2 c2
    using plan_push_append that by simp
qed (simp_all add: join_plan_assoc, simp_all add: join_plan_segments_def)

section \<open>A line that is given up is not a tag\<close>

definition maybe_tag :: "'a tagged_parser \<Rightarrow> str \<Rightarrow> bool" where
  "maybe_tag p u \<longleftrightarrow> trim_start u = [] \<or> is_tag_prefix p (trim_start u)"

lemma strip_trailing:
  assumes "list_all P y"
  shows "\<exists>z. rev (dropWhile P (rev (x @ y))) @ z = x"
proof -
  have "dropWhile P (rev (x @ y)) = dropWhile P (rev x)"
    unfolding rev_append by (rule dropWhile_append2) (use assms in \<open>simp add: list_all_iff\<close>)
  then have "rev (takeWhile P (rev x) @ dropWhile P (rev (x @ y))) = x" by simp
  then show ?thesis by (metis rev_append)
qed

lemma tag_line_prefix:
  assumes "list_all wf_char cs" and "trim_end (trim_start (concat cs)) = tag" and "tag \<noteq> []"
  shows "trim_start (concat (take k cs)) = [] \<or> starts_with tag (trim_end (trim_start (concat (take k cs))))"
proof -
  let ?P = is_ws_char
  let ?d = "dropWhile ?P cs"
  let ?m = "rev (dropWhile ?P (rev ?d))"
  have wf: "list_all wf_char xs" if "set xs \<subseteq> set cs" for xs using assms(1) that by (auto simp: list_all_iff)
  have wf_d: "list_all wf_char ?d" by (rule wf) (auto dest: set_dropWhileD)
  have tag: "concat ?m = tag"
    using assms(2) trim_start_chars [OF assms(1)] trim_end_chars [OF wf_d] by simp
  have d: "?d = ?m @ rev (takeWhile ?P (rev ?d))"
    by (metis rev_append rev_rev_ident takeWhile_dropWhile_id)
  have hd_d: "?d \<noteq> [] \<Longrightarrow> \<not> ?P (hd ?d)" by (rule hd_dropWhile)
  let ?j = "k - length (takeWhile ?P cs)"
  have "dropWhile ?P (take k cs) = (if length (takeWhile ?P cs) < k then take ?j ?d else [])"
  proof -
    have "take k cs = take k (takeWhile ?P cs) @ take ?j ?d"
      by (metis take_append takeWhile_dropWhile_id)
    moreover have "dropWhile ?P (take k (takeWhile ?P cs) @ ys) = dropWhile ?P ys" for ys
      by (rule dropWhile_append2) (meson in_set_takeD set_takeWhileD)
    moreover have "dropWhile ?P (take ?j ?d) = take ?j ?d"
      unfolding dropWhile_eq_self_iff using hd_d by (metis hd_take take_Nil take_eq_Nil zero_less_iff_neq_zero)
    ultimately show ?thesis by auto
  qed
  then have ts: "trim_start (concat (take k cs)) = concat (if length (takeWhile ?P cs) < k then take ?j ?d else [])"
    using trim_start_chars [of "take k cs"] wf [of "take k cs"] by (simp add: set_take_subset)
  have tj: "take ?j ?d = take ?j ?m @ take (?j - length ?m) (rev (takeWhile ?P (rev ?d)))"
    using d by (metis take_append)
  have "list_all ?P (take n (rev (takeWhile ?P (rev ?d))))" for n
    by (auto simp: list_all_iff dest!: in_set_takeD set_takeWhileD)
  then obtain z where z: "rev (dropWhile ?P (rev (take ?j ?d))) @ z = take ?j ?m"
    using strip_trailing unfolding tj by metis
  have "trim_end (concat (take ?j ?d)) = concat (rev (dropWhile ?P (rev (take ?j ?d))))"
    by (intro trim_end_chars wf) (meson in_set_takeD set_dropWhileD subsetI)
  then have "starts_with tag (trim_end (concat (take ?j ?d)))"
    unfolding starts_with_iff tag [symmetric] by (metis append.assoc append_take_drop_id concat_append z)
  then show ?thesis using ts by auto
qed

section \<open>A whole line\<close>

text \<open>Text after the start of the line was given up.\<close>

lemma run_plain_text:
  assumes "\<not> detect_tag p" and "newline \<notin> set cs"
  shows "\<exists>s. chars_run cs p = (p, s) \<and> (\<forall>segs. foldl push_segment segs s = push_text p (concat cs) segs)"
  using assms
proof (induction cs)
  case (Cons ch cs)
  then obtain s where s: "chars_run cs p = (p, s)" "\<forall>segs. foldl push_segment segs s = push_text p (concat cs) segs"
    by auto
  have "p\<lparr>detect_tag := False\<rparr> = p" using Cons.prems(1) by simp
  then have "char_step ch p = (p, push_text p ch [])" using Cons.prems by (auto simp: char_step_def)
  then show ?case using s by (simp add: push_text_from_empty push_text_split)
qed simp

lemma maybe_tag_buffer [simp]:
  "maybe_tag (p\<lparr>tag_buffer := b\<rparr>) = maybe_tag p" "maybe_tag (p\<lparr>detect_tag := d\<rparr>) = maybe_tag p"
  by (simp_all add: maybe_tag_def is_tag_prefix_def fun_eq_iff)

text \<open>
  From the start of a line: either the line may be a tag all along and is buffered, or its text is
  passed on.
\<close>

lemma run_line_start:
  assumes "detect_tag p" and "newline \<notin> set cs"
  shows "chars_run cs p = (p\<lparr>tag_buffer := tag_buffer p @ concat cs\<rparr>, [])
    \<or> (\<exists>s k. chars_run cs p = (p\<lparr>tag_buffer := [], detect_tag := False\<rparr>, s)
        \<and> (\<forall>segs. foldl push_segment segs s = push_text p (tag_buffer p @ concat cs) segs)
        \<and> \<not> maybe_tag p (tag_buffer p @ concat (take k cs)))"
  using assms
proof (induction cs arbitrary: p)
  case (Cons ch cs)
  let ?u = "tag_buffer p @ ch"
  let ?p1 = "p\<lparr>tag_buffer := ?u\<rparr>"
  have ch: "ch \<noteq> newline" "newline \<notin> set cs" using Cons.prems(2) by auto
  show ?case
  proof (cases "maybe_tag p ?u")
    case True
    then have step: "char_step ch p = (?p1, [])"
      using Cons.prems(1) ch by (auto simp: char_step_def maybe_tag_def)
    have tx: "push_text ?p1 = push_text p" by (rule push_text_active) simp
    have d: "detect_tag ?p1" using Cons.prems(1) by simp
    from Cons.IH [OF d ch(2)] show ?thesis
    proof (elim disjE exE conjE, goal_cases)
      case 1
      then show ?case using step by simp
    next
      case (2 s k)
      then show ?case using step tx by (intro disjI2 exI [of _ s] exI [of _ "Suc k"]) simp
    qed
  next
    case False
    let ?q = "p\<lparr>tag_buffer := [], detect_tag := False\<rparr>"
    have tx: "push_text ?p1 = push_text p" "push_text ?q = push_text p" by (rule push_text_active, simp)+
    have step: "char_step ch p = (?q, push_text p ?u [])"
      using Cons.prems(1) ch False tx(1) by (simp add: char_step_def maybe_tag_def Let_def)
    obtain s where "chars_run cs ?q = (?q, s)" "\<forall>segs. foldl push_segment segs s = push_text ?q (concat cs) segs"
      using run_plain_text [of ?q cs] ch by auto
    then show ?thesis
      using step tx False
      by (intro disjI2 exI [of _ "push_text p ?u [] @ s"] exI [of _ "1 :: nat"])
         (simp add: push_text_from_empty push_text_split)
  qed
qed simp

section \<open>The reference\<close>

definition plan_spec :: "plan_tag tag_spec" where
  "plan_spec = \<lparr>tag_open = OPEN_TAG, tag_close = CLOSE_TAG, tag_value = ProposedPlan\<rparr>"

text \<open>
  The meaning of a text line by line: a line whose trimmed text is the opening tag opens a plan, a
  closing one closes an open plan, every other line is text of the plan or normal text; a plan that
  is open at the end is closed.
\<close>

definition plan_line :: "bool \<Rightarrow> str \<Rightarrow> plan_segment \<times> bool" where
  "plan_line in_plan line =
     (if \<not> in_plan \<and> line_slug line = OPEN_TAG then (ProposedPlanStart, True)
      else if in_plan \<and> line_slug line = CLOSE_TAG then (ProposedPlanEnd, False)
      else if in_plan then (ProposedPlanDelta line, True)
      else (PlanNormal line, False))"

fun plan_lines :: "bool \<Rightarrow> str list \<Rightarrow> plan_segment list" where
  "plan_lines in_plan [] = (if in_plan then [ProposedPlanEnd] else [])"
| "plan_lines in_plan (l # ls) = (case plan_line in_plan l of (s, b) \<Rightarrow> s # plan_lines b ls)"

function inclusive_lines :: "str \<Rightarrow> str list" where
  "inclusive_lines s =
     (if s = [] then []
      else case split_once (CHR 0x0A) s of
             None \<Rightarrow> [s]
           | Some (a, b) \<Rightarrow> (a @ newline) # inclusive_lines b)"
  by pat_completeness auto
termination
  by (relation "measure length") (auto simp: split_once_Some_iff)

declare inclusive_lines.simps [simp del]

definition at_line_start :: "plan_tag tagged_parser \<Rightarrow> bool \<Rightarrow> bool" where
  "at_line_start p in_plan \<longleftrightarrow>
     tag_specs p = [plan_spec] \<and> detect_tag p \<and> tag_buffer p = []
   \<and> active_tag p = (if in_plan then Some ProposedPlan else None)"

lemma line_slug_newline: "line_slug (a @ newline) = trim_end (trim_start a)"
proof -
  have "strip_suffix newline (a @ newline) = Some a" by (simp add: strip_suffix_Some_iff)
  then show ?thesis by (simp add: line_slug_def)
qed

lemma line_slug_plain: "CHR 0x0A \<notin> set a \<Longrightarrow> line_slug a = trim_end (trim_start a)"
proof -
  assume "CHR 0x0A \<notin> set a"
  then have "strip_suffix newline a = None"
    by (cases "strip_suffix newline a") (auto simp: strip_suffix_Some_iff)
  then show ?thesis by (simp add: line_slug_def)
qed

lemma given_up_not_tag:
  assumes "at_line_start p b" and "list_all wf_char cs" and "\<not> maybe_tag p (concat (take k cs))"
  shows "trim_end (trim_start (concat cs)) \<noteq> OPEN_TAG \<and> trim_end (trim_start (concat cs)) \<noteq> CLOSE_TAG"
proof -
  have "OPEN_TAG \<noteq> []" "CLOSE_TAG \<noteq> []" by (simp_all add: OPEN_TAG_def CLOSE_TAG_def)
  then show ?thesis
    using tag_line_prefix [OF assms(2)] assms(1,3)
    by (auto simp: maybe_tag_def is_tag_prefix_def at_line_start_def plan_spec_def)
qed

lemma plan_new_start: "at_line_start plan_new False"
  by (simp add: at_line_start_def plan_new_def tagged_new_def plan_spec_def)

text \<open>The parser on one complete line.\<close>

lemma match_plan:
  assumes "tag_specs p = [plan_spec]"
  shows "match_open p slug = (if slug = OPEN_TAG then Some ProposedPlan else None)"
    and "match_close p slug = (if slug = CLOSE_TAG then Some ProposedPlan else None)"
  using assms by (auto simp: match_open_def match_close_def plan_spec_def)

lemma map_text_segment:
  "map_segment (text_segment (if b then Some ProposedPlan else None) l) = (if b then ProposedPlanDelta l else PlanNormal l)"
  by (simp add: text_segment_def)

lemma plan_finish_line:
  assumes "tag_specs p = [plan_spec]" and "active_tag p = (if b then Some ProposedPlan else None)"
    and "plan_line b (tag_buffer p) = (s, b')"
  shows "\<exists>p'. finish_line p [] = (p', push_segment [] (unmap_segment s)) \<and> at_line_start p' b'"
  using assms
  by (cases b) (auto simp: finish_line_def Let_def match_plan plan_line_def at_line_start_def push_text_def
      text_segment_def split: if_splits)

lemma plan_line_text:
  assumes "line_slug l \<noteq> OPEN_TAG" and "line_slug l \<noteq> CLOSE_TAG"
  shows "plan_line b l = (map_segment (text_segment (if b then Some ProposedPlan else None) l), b)"
  using assms by (simp add: plan_line_def text_segment_def)

lemma run_complete_line:
  assumes "at_line_start p b" and "list_all wf_char cs" and "newline \<notin> set cs"
    and "plan_line b (concat cs @ newline) = (seg, b')"
  shows "\<exists>p' s. chars_run (cs @ [newline]) p = (p', s) \<and> at_line_start p' b'
    \<and> (\<forall>segs. foldl push_segment segs s = push_segment segs (unmap_segment seg))"
proof -
  have start: "detect_tag p" "tag_buffer p = []" "tag_specs p = [plan_spec]"
      "active_tag p = (if b then Some ProposedPlan else None)"
    using assms(1) by (auto simp: at_line_start_def)
  from run_line_start [OF start(1) assms(3)] show ?thesis
  proof (elim disjE exE conjE, goal_cases)
    case 1
    let ?p1 = "p\<lparr>tag_buffer := concat cs @ newline\<rparr>"
    obtain p' where p': "finish_line ?p1 [] = (p', push_segment [] (unmap_segment seg))" "at_line_start p' b'"
      using plan_finish_line [of ?p1 b seg b'] start assms(4) by auto
    then have "chars_run (cs @ [newline]) p = (p', push_segment [] (unmap_segment seg))"
      using 1 start(1,2) by (simp add: chars_run_append char_step_def Let_def)
    then show ?case
      using p'(2) merge_push [of _ "[]" "unmap_segment seg"] by (simp add: merge_segments_def)
  next
    case (2 s k)
    let ?q = "p\<lparr>tag_buffer := [], detect_tag := False\<rparr>"
    have tx: "push_text ?q = push_text p" by (rule push_text_active) simp
    have "line_slug (concat cs @ newline) \<noteq> OPEN_TAG \<and> line_slug (concat cs @ newline) \<noteq> CLOSE_TAG"
      using given_up_not_tag [OF assms(1,2)] 2(3) start(2) by (simp add: line_slug_newline)
    then have seg: "unmap_segment seg = text_segment (active_tag p) (concat cs @ newline)" "b' = b"
      using plan_line_text [of "concat cs @ newline" b] assms(4) start(4) by auto
    have "chars_run (cs @ [newline]) p = (p\<lparr>tag_buffer := [], detect_tag := True\<rparr>, s @ push_text p newline [])"
      using 2(1) tx by (simp add: chars_run_append char_step_def)
    moreover have "foldl push_segment segs (s @ push_text p newline []) = push_segment segs (unmap_segment seg)" for segs
      using 2(2) start(2) seg(1) by (simp add: push_text_from_empty push_text_split) (simp add: push_text_def)
    moreover have "at_line_start (p\<lparr>tag_buffer := [], detect_tag := True\<rparr>) b'"
      using start seg(2) by (simp add: at_line_start_def)
    ultimately show ?case by blast
  qed
qed

lemma wf_text_split:
  assumes "wf_text (a @ CHR 0x0A # b)"
  shows "utf8_chars (a @ CHR 0x0A # b) = utf8_chars a @ newline # utf8_chars b \<and> wf_text a \<and> wf_text b"
proof -
  have lf: "\<not> is_cont_byte (CHR 0x0A)" "utf8_width (CHR 0x0A) = 1"
    by (simp_all add: is_cont_byte_def utf8_width_def byte_val_def)
  then have split: "utf8_chars (a @ CHR 0x0A # b) = utf8_chars a @ utf8_chars (CHR 0x0A # b)"
    by (intro utf8_chars_append) (simp add: char_aligned_def)
  then have "wf_char (CHR 0x0A # takeWhile is_cont_byte b)" using assms by (simp add: wf_text_def)
  then have t: "takeWhile is_cont_byte b = []" using lf(2) by (simp add: wf_char_def)
  then have "dropWhile is_cont_byte b = b" by (metis append_Nil takeWhile_dropWhile_id)
  then show ?thesis using split t assms by (simp add: wf_text_def)
qed

lemma newline_not_char: "CHR 0x0A \<notin> set a \<Longrightarrow> newline \<notin> set (utf8_chars a)"
  by (metis UN_I concat_utf8_chars list.set_intros(1) set_concat)

lemma finish_line_start:
  "at_line_start p b \<Longrightarrow> snd (tagged_finish p) = map unmap_segment (plan_lines b [])"
  by (simp add: at_line_start_def tagged_finish_def)

lemma finish_given_up:
  assumes "tag_buffer p = []" and "active_tag p = (if b then Some ProposedPlan else None)"
  shows "snd (tagged_finish p) = map unmap_segment (plan_lines b [])"
  using assms by (simp add: tagged_finish_def)

lemma finish_buffered:
  assumes "tag_specs p = [plan_spec]" and "active_tag p = (if b then Some ProposedPlan else None)"
    and "tag_buffer p \<noteq> []"
  shows "snd (tagged_finish p) = foldl push_segment [] (map unmap_segment (plan_lines b [tag_buffer p]))"
  using assms
  by (cases b) (auto simp: tagged_finish_def Let_def match_plan plan_line_def push_text_def text_segment_def)

lemma run_last_line:
  assumes "at_line_start p b" and "list_all wf_char cs" and "CHR 0x0A \<notin> set (concat cs)" and "concat cs \<noteq> []"
    and "chars_run cs p = (p1, s)"
  shows "foldl push_segment (foldl push_segment segs s) (snd (tagged_finish p1))
    = foldl push_segment segs (map unmap_segment (plan_lines b [concat cs]))"
proof -
  have start: "detect_tag p" "tag_buffer p = []" "tag_specs p = [plan_spec]"
      "active_tag p = (if b then Some ProposedPlan else None)"
    using assms(1) by (auto simp: at_line_start_def)
  have nl: "newline \<notin> set cs" using assms(3) by auto
  from run_line_start [OF start(1) nl] show ?thesis
  proof (elim disjE exE conjE, goal_cases)
    case 1
    then have p1: "p1 = p\<lparr>tag_buffer := concat cs\<rparr>" "s = []" using assms(5) start(2) by auto
    then have "snd (tagged_finish p1) = foldl push_segment [] (map unmap_segment (plan_lines b [concat cs]))"
      using finish_buffered [of p1 b] start assms(4) by simp
    then show ?case using p1(2) merge_assoc [of segs "[]"] by simp
  next
    case (2 s' k)
    then have p1: "p1 = p\<lparr>tag_buffer := [], detect_tag := False\<rparr>" "s = s'" using assms(5) by auto
    have "line_slug (concat cs) \<noteq> OPEN_TAG \<and> line_slug (concat cs) \<noteq> CLOSE_TAG"
      using given_up_not_tag [OF assms(1,2)] 2(3) start(2) by (simp add: line_slug_plain [OF assms(3)])
    then have "plan_lines b [concat cs]
        = map_segment (text_segment (active_tag p) (concat cs)) # plan_lines b []"
      using plan_line_text [of "concat cs" b] start(4) by simp
    moreover have "snd (tagged_finish p1) = map unmap_segment (plan_lines b [])"
      using finish_given_up [of p1 b] p1(1) start(4) by simp
    ultimately show ?case
      using 2(2) p1(2) start(2) by (simp add: push_text_def)
  qed
qed

lemma plan_run_reference:
  assumes "at_line_start p b" and "wf_text t" and "chars_run (utf8_chars t) p = (p1, s)"
  shows "foldl push_segment (foldl push_segment segs s) (snd (tagged_finish p1))
    = foldl push_segment segs (map unmap_segment (plan_lines b (inclusive_lines t)))"
  using assms
proof (induction t arbitrary: p b s segs rule: inclusive_lines.induct)
  case (1 t)
  show ?case
  proof (cases "t = []")
    case True
    then show ?thesis
      using 1(2,4) finish_line_start by (simp add: inclusive_lines.simps)
  next
    case False
    show ?thesis
    proof (cases "split_once (CHR 0x0A) t")
      case None
      then have "CHR 0x0A \<notin> set t" by (simp add: split_once_None_iff)
      then show ?thesis
        using run_last_line [OF 1(2) _ _ _ 1(4), of segs] 1(3) False None
        by (simp add: wf_text_def inclusive_lines.simps [of t])
    next
      case (Some ab)
      then obtain a r where ar: "split_once (CHR 0x0A) t = Some (a, r)" by (cases ab) auto
      then have t: "t = a @ CHR 0x0A # r" "CHR 0x0A \<notin> set a" by (auto simp: split_once_Some_iff)
      have wf: "utf8_chars t = (utf8_chars a @ [newline]) @ utf8_chars r" "wf_text a" "wf_text r"
        using wf_text_split [of a r] 1(3) t(1) by auto
      obtain seg b' where seg: "plan_line b (a @ newline) = (seg, b')" by fastforce
      obtain p' s' where p': "chars_run (utf8_chars a @ [newline]) p = (p', s')" "at_line_start p' b'"
          "\<forall>segs. foldl push_segment segs s' = push_segment segs (unmap_segment seg)"
        using run_complete_line [OF 1(2), of "utf8_chars a" seg b'] wf(2) newline_not_char [OF t(2)] seg
        by (auto simp: wf_text_def)
      obtain p2 s2 where p2: "chars_run (utf8_chars r) p' = (p2, s2)" by fastforce
      have "chars_run ((utf8_chars a @ [newline]) @ utf8_chars r) p = (p2, s' @ s2)"
        unfolding chars_run_append [of "utf8_chars a @ [newline]"] p'(1) using p2 by simp
      then have "p1 = p2" "s = s' @ s2" using 1(4) unfolding wf(1) by simp_all
      then show ?thesis
        using 1(1) [OF False ar refl p'(2) wf(3) p2 [folded \<open>p1 = p2\<close>], of "push_segment segs (unmap_segment seg)"] p'(3) seg False ar
        by (simp add: inclusive_lines.simps [of t] del: push_segment.simps)
    qed
  qed
qed

section \<open>Properties\<close>

lemma plan_push_reference:
  assumes "valid_utf8 t" and "plan_push_str plan_new t = (p, c)" and "plan_finish p = (p', tail)"
  shows "foldl merge_plan_segment (extracted c) (extracted tail)
      = foldl merge_plan_segment [] (plan_lines False (inclusive_lines t))"
    and "visible_text c @ visible_text tail = concat (map normal_text (plan_lines False (inclusive_lines t)))"
proof -
  obtain p1 s where s: "chars_run (utf8_chars t) plan_new = (p1, s)" by fastforce
  have c: "p = p1" "c = map_segments (foldl push_segment [] s)" "tail = map_segments (snd (tagged_finish p1))"
    using assms(2,3) s by (auto simp: plan_push_str_def plan_finish_def tagged_parse_chars map_prod_def
        split: prod.splits)
  have ref: "foldl push_segment (foldl push_segment [] s) (snd (tagged_finish p1))
      = foldl push_segment [] (map unmap_segment (plan_lines False (inclusive_lines t)))"
    using plan_run_reference [OF plan_new_start valid_utf8_wf_text [OF assms(1)] s] .
  show "foldl merge_plan_segment (extracted c) (extracted tail)
      = foldl merge_plan_segment [] (plan_lines False (inclusive_lines t))"
    using arg_cong [OF ref, of "map map_segment"] c by (simp add: map_merge_segments map_segments_def o_def)
  have "concat (map (normal_text \<circ> map_segment) (map unmap_segment xs)) = concat (map normal_text xs)" for xs
    by (induction xs) auto
  then show "visible_text c @ visible_text tail = concat (map normal_text (plan_lines False (inclusive_lines t)))"
    using arg_cong [OF ref, of "\<lambda>x. concat (map (normal_text \<circ> map_segment) x)"] c
    by (simp add: normal_text_merge map_segments_def)
qed

text \<open>
  removing plan blocks from a text is a matter of its lines: what is left are the lines outside
  of plans, unchanged and in order, where a plan reaches from a line with only the opening tag to
  the next line with only the closing tag or to the end.
\<close>

theorem strip_proposed_plan_blocks_reference:
  assumes "valid_utf8 t"
  shows "strip_proposed_plan_blocks t = concat (map normal_text (plan_lines False (inclusive_lines t)))"
proof -
  obtain p c where c: "plan_push_str plan_new t = (p, c)" by fastforce
  obtain p' tail where tail: "plan_finish p = (p', tail)" by fastforce
  show ?thesis
    using plan_push_reference(2) [OF assms c tail] c tail by (simp add: strip_proposed_plan_blocks_def)
qed

theorem strip_proposed_plan_blocks_reference_witness:
  "valid_utf8 [CHR 0xC3, CHR 0xA9, CHR 0x0A]
   \<and> strip_proposed_plan_blocks [CHR 0xC3, CHR 0xA9, CHR 0x0A]
     = concat (map normal_text (plan_lines False (inclusive_lines [CHR 0xC3, CHR 0xA9, CHR 0x0A])))"
proof -
  have "valid_utf8 [CHR 0xC3, CHR 0xA9, CHR 0x0A]" by code_simp
  then show ?thesis using strip_proposed_plan_blocks_reference by blast
qed

text \<open>
  the plan parser does not depend on how its input is cut: for all chunks of a text the state
  and the visible text are those of the text in one piece, and so are the segments once text
  segments that were cut apart are joined.
\<close>

theorem plan_push_str_chunk_independent:
  assumes "list_all char_aligned cs" and "cs \<noteq> []"
  shows "push_all (\<lambda>p a. Some (plan_push_str p a)) join_plan_segments plan_new cs
    = Some (plan_push_str plan_new (concat cs))"
  using plan.push_all_concat [OF _ assms] by simp

theorem plan_push_str_chunk_independent_witness:
  "push_all (\<lambda>p a. Some (plan_push_str p a)) join_plan_segments plan_new [''a<pro'', ''posed_plan>'']
    = Some (plan_push_str plan_new ''a<proposed_plan>'')"
proof -
  have "list_all char_aligned [''a<pro'', ''posed_plan>'']" by code_simp
  from plan_push_str_chunk_independent [OF this] show ?thesis by simp
qed

lemma collect_plan_append: "collect_plan (a @ b) acc = collect_plan b (collect_plan a acc)"
  by (induction a acc rule: collect_plan.induct) auto

lemma collect_merge:
  "collect_plan (merge_plan_segment segs s) acc = collect_plan [s] (collect_plan segs acc)"
proof (cases segs rule: rev_cases)
  case Nil
  then show ?thesis by (cases acc; cases s) auto
next
  case (snoc ys l)
  then show ?thesis by (cases "collect_plan ys acc"; cases s; cases l) (auto simp: collect_plan_append)
qed

lemma collect_foldl_merge:
  "collect_plan (foldl merge_plan_segment xs ys) acc = collect_plan ys (collect_plan xs acc)"
proof (induction ys arbitrary: xs)
  case (Cons y ys)
  then show ?case
    using collect_plan_append [of "[y]" ys] by (simp add: collect_merge del: merge_plan_segment.simps)
qed simp

text \<open>
  the plan extracted from a text is the text of its last plan block, line by line as it stands
  between the tags, and there is one exactly if the text has an opening tag line outside a plan.
\<close>

theorem extract_proposed_plan_text_reference:
  assumes "valid_utf8 t"
  shows "extract_proposed_plan_text t =
    (case collect_plan (plan_lines False (inclusive_lines t)) (False, []) of
       (saw, plan_text) \<Rightarrow> if saw then Some plan_text else None)"
proof -
  obtain p c where c: "plan_push_str plan_new t = (p, c)" by fastforce
  obtain p' tail where tail: "plan_finish p = (p', tail)" by fastforce
  have "collect_plan (extracted c @ extracted tail) acc = collect_plan (plan_lines False (inclusive_lines t)) acc" for acc
    using arg_cong [OF plan_push_reference(1) [OF assms c tail], of "\<lambda>x. collect_plan x acc"]
    by (simp add: collect_foldl_merge collect_plan_append)
  then show ?thesis using c tail by (simp add: extract_proposed_plan_text_def)
qed

theorem extract_proposed_plan_text_reference_witness:
  "valid_utf8 (OPEN_TAG @ newline @ ''x'')
   \<and> extract_proposed_plan_text (OPEN_TAG @ newline @ ''x'') = Some ''x''"
proof -
  have "valid_utf8 (OPEN_TAG @ newline @ ''x'')"
    "collect_plan (plan_lines False (inclusive_lines (OPEN_TAG @ newline @ ''x''))) (False, []) = (True, ''x'')"
    by code_simp+
  then show ?thesis using extract_proposed_plan_text_reference [of "OPEN_TAG @ newline @ ''x''"] by simp
qed

end
