(* ===== verification/Stream_Utf8.thy ===== *)
theory Stream_Utf8
  imports Stream_Inline_Tag Stream_Tagged_Line
begin

text \<open>
  Bytes in front of a text parser (\<open>codex-rs/utils/stream-parser/src/utf8_stream.rs\<close>): an incomplete
  character at the end of a chunk is kept until the next one, invalid bytes are refused with the
  parser as it was.  The wrapped parser is an argument, given by its operations.

  The text parser for assistant messages (\<open>assistant_text.rs\<close>) runs the citation parser and, in plan
  mode, the plan parser behind it.
\<close>

section \<open>Bytes\<close>

datatype utf8_error =
    InvalidUtf8 nat nat
  | IncompleteUtf8AtEof

record 's utf8_parser =
  inner :: 's
  pending_utf8 :: str

definition utf8_new :: "'s \<Rightarrow> 's utf8_parser" where
  "utf8_new p = \<lparr>inner = p, pending_utf8 = []\<rparr>"

definition error_len_or_0 :: "nat option \<Rightarrow> nat" where
  "error_len_or_0 e = (case e of Some n \<Rightarrow> n | None \<Rightarrow> 0)"

definition push_bytes ::
    "('s \<Rightarrow> str \<Rightarrow> ('s \<times> 'x stream_text_chunk) option) \<Rightarrow> 's utf8_parser \<Rightarrow> str \<Rightarrow>
       ('s utf8_parser \<times> (utf8_error + 'x stream_text_chunk)) option" where
  "push_bytes push st chunk =
     (let buf = pending_utf8 st @ chunk
      in case from_utf8 buf of
           None \<Rightarrow>
             map_option (\<lambda>(s, out). (\<lparr>inner = s, pending_utf8 = []\<rparr>, Inr out)) (push (inner st) buf)
         | Some (valid_up_to, Some error_len) \<Rightarrow> Some (st, Inl (InvalidUtf8 valid_up_to error_len))
         | Some (valid_up_to, None) \<Rightarrow>
             if valid_up_to = 0 then Some (st\<lparr>pending_utf8 := buf\<rparr>, Inr chunk_empty)
             else
               (case from_utf8 (take valid_up_to buf) of
                  None \<Rightarrow>
                    map_option (\<lambda>(s, out). (\<lparr>inner = s, pending_utf8 = drop valid_up_to buf\<rparr>, Inr out))
                      (push (inner st) (take valid_up_to buf))
                | Some (n, e) \<Rightarrow> Some (st, Inl (InvalidUtf8 n (error_len_or_0 e)))))"

definition utf8_finish ::
    "('s \<Rightarrow> str \<Rightarrow> ('s \<times> 'x stream_text_chunk) option) \<Rightarrow> ('s \<Rightarrow> 's \<times> 'x stream_text_chunk) \<Rightarrow>
       's utf8_parser \<Rightarrow> ('s utf8_parser \<times> (utf8_error + 'x stream_text_chunk)) option" where
  "utf8_finish push flush st =
     (case from_utf8 (pending_utf8 st) of
        Some (n, Some e) \<Rightarrow> Some (st, Inl (InvalidUtf8 n e))
      | Some (n, None) \<Rightarrow> Some (st, Inl IncompleteUtf8AtEof)
      | None \<Rightarrow>
          map_option (\<lambda>(s, out).
              (case flush s of (s', tail) \<Rightarrow>
                 (\<lparr>inner = s', pending_utf8 = []\<rparr>, Inr (chunk_join (@) out tail))))
            (if pending_utf8 st = [] then Some (inner st, chunk_empty)
             else push (inner st) (pending_utf8 st)))"

definition into_inner :: "'s utf8_parser \<Rightarrow> utf8_error + 's" where
  "into_inner st =
     (case from_utf8 (pending_utf8 st) of
        None \<Rightarrow> Inr (inner st)
      | Some (n, Some e) \<Rightarrow> Inl (InvalidUtf8 n e)
      | Some (n, None) \<Rightarrow> Inl IncompleteUtf8AtEof)"

definition into_inner_lossy :: "'s utf8_parser \<Rightarrow> 's" where
  "into_inner_lossy st = inner st"

fun push_bytes_all ::
    "('s \<Rightarrow> str \<Rightarrow> ('s \<times> 'x stream_text_chunk) option) \<Rightarrow> ('x list \<Rightarrow> 'x list \<Rightarrow> 'x list) \<Rightarrow>
       's utf8_parser \<Rightarrow> str list \<Rightarrow> ('s utf8_parser \<times> (utf8_error + 'x stream_text_chunk)) option" where
  "push_bytes_all push join st [] = Some (st, Inr chunk_empty)"
| "push_bytes_all push join st (b # bs) =
     (case push_bytes push st b of
        None \<Rightarrow> None
      | Some (st1, Inl e) \<Rightarrow> Some (st1, Inl e)
      | Some (st1, Inr c) \<Rightarrow>
          map_option (map_prod id (map_sum id (chunk_join join c))) (push_bytes_all push join st1 bs))"

section \<open>Assistant text\<close>

record assistant_chunk =
  a_visible_text :: str
  a_citations :: "str list"
  a_plan_segments :: "plan_segment list"

record assistant_parser =
  plan_mode :: bool
  citations :: "citation_tag inline_parser"
  plan :: "plan_tag tagged_parser"

definition assistant_new :: "bool \<Rightarrow> assistant_parser option" where
  "assistant_new pm =
     map_option (\<lambda>c. \<lparr>plan_mode = pm, citations = c, plan = plan_new\<rparr>) citation_new"

definition parse_visible_text :: "assistant_parser \<Rightarrow> str \<Rightarrow> assistant_parser \<times> assistant_chunk" where
  "parse_visible_text p t =
     (if \<not> plan_mode p then (p, \<lparr>a_visible_text = t, a_citations = [], a_plan_segments = []\<rparr>)
      else case plan_push_str (plan p) t of (q, c) \<Rightarrow>
        (p\<lparr>plan := q\<rparr>, \<lparr>a_visible_text = visible_text c, a_citations = [], a_plan_segments = extracted c\<rparr>))"

definition assistant_push_str ::
    "assistant_parser \<Rightarrow> str \<Rightarrow> (assistant_parser \<times> assistant_chunk) option" where
  "assistant_push_str p chunk =
     map_option (\<lambda>(q, c).
         case parse_visible_text (p\<lparr>citations := q\<rparr>) (visible_text c) of
           (p', out) \<Rightarrow> (p', out\<lparr>a_citations := extracted c\<rparr>))
       (citation_push_str (citations p) chunk)"

definition assistant_finish :: "assistant_parser \<Rightarrow> assistant_parser \<times> assistant_chunk" where
  "assistant_finish p =
     (case citation_finish (citations p) of (q, c) \<Rightarrow>
        (case parse_visible_text (p\<lparr>citations := q\<rparr>) (visible_text c) of (p1, out) \<Rightarrow>
           (let (p2, out1) =
              (if plan_mode p1 then
                 (case plan_finish (plan p1) of (r, tail) \<Rightarrow>
                    (p1\<lparr>plan := r\<rparr>,
                     if chunk_is_empty_text tail then out
                     else out\<lparr>a_visible_text := a_visible_text out @ visible_text tail,
                              a_plan_segments := a_plan_segments out @ extracted tail\<rparr>))
               else (p1, out))
            in (p2, out1\<lparr>a_citations := extracted c\<rparr>))))"

section \<open>Bytes reach the parser as text\<close>

text \<open>
  In front of any parser that keeps the contract: the bytes that were consumed went to it as whole
  characters, in pieces \<open>xs\<close>, and the rest is pending.
\<close>

definition fed ::
    "('s \<Rightarrow> str \<Rightarrow> ('s \<times> 'x stream_text_chunk) option) \<Rightarrow> ('x list \<Rightarrow> 'x list \<Rightarrow> 'x list) \<Rightarrow>
       's utf8_parser \<Rightarrow> str \<Rightarrow> 's utf8_parser \<Rightarrow> 'x stream_text_chunk \<Rightarrow> str list \<Rightarrow> bool" where
  "fed push join st bytes st' c xs \<longleftrightarrow>
     push_all push join (inner st) xs = Some (inner st', c) \<and> list_all valid_utf8 xs
   \<and> concat xs @ pending_utf8 st' = pending_utf8 st @ bytes"

lemma valid_utf8_concat: "list_all valid_utf8 xs \<Longrightarrow> valid_utf8 (concat xs)"
  by (induction xs) (simp_all add: valid_utf8_def from_utf8_valid_append)

lemma valid_utf8_rest: "valid_utf8 a \<Longrightarrow> valid_utf8 (a @ b) \<longleftrightarrow> valid_utf8 b"
  by (simp add: valid_utf8_def from_utf8_valid_append)

context stream_parser
begin

lemma push_single: "push_all push join s [a] = push s a"
  by (cases "push s a") auto

lemma push_bytes_fed:
  assumes "valid (inner st)" and "valid_utf8 (pending_utf8 st @ b @ rest)"
  shows "\<exists>st' c xs. push_bytes push st b = Some (st', Inr c) \<and> fed push join st b st' c xs \<and> valid (inner st')"
proof -
  let ?buf = "pending_utf8 st @ b"
  obtain s1 o1 where p1: "push (inner st) ?buf = Some (s1, o1)" "valid s1"
    using push_returns [OF assms(1)] by blast
  show ?thesis
  proof (cases "from_utf8 ?buf")
    case None
    then show ?thesis
      using p1 by (intro exI [of _ "\<lparr>inner = s1, pending_utf8 = []\<rparr>"] exI [of _ o1] exI [of _ "[?buf]"])
        (simp add: push_bytes_def fed_def valid_utf8_def)
  next
    case (Some ne)
    moreover have "snd ne = None"
      using Some from_utf8_invalid_append [of ?buf "fst ne" _ rest] assms(2)
      by (cases ne; cases "snd ne") (auto simp: valid_utf8_def)
    ultimately obtain n where n: "from_utf8 ?buf = Some (n, None)" by (cases ne) auto
    have v: "from_utf8 (take n ?buf) = None" using from_utf8_incomplete [OF n] by blast
    obtain s2 o2 where p2: "push (inner st) (take n ?buf) = Some (s2, o2)" "valid s2"
      using push_returns [OF assms(1)] by blast
    show ?thesis
    proof (cases "n = 0")
      case True
      then show ?thesis
        using n assms(1) by (intro exI [of _ "st\<lparr>pending_utf8 := ?buf\<rparr>"] exI [of _ chunk_empty] exI [of _ "[]"])
          (simp add: push_bytes_def fed_def)
    next
      case False
      then show ?thesis
        using n v p2
        by (intro exI [of _ "\<lparr>inner = s2, pending_utf8 = drop n ?buf\<rparr>"] exI [of _ o2] exI [of _ "[take n ?buf]"])
          (simp add: push_bytes_def fed_def valid_utf8_def Let_def del: take_append drop_append)
    qed
  qed
qed

lemma push_bytes_all_fed:
  assumes "valid (inner st)" and "valid_utf8 (pending_utf8 st @ concat bs)"
  shows "\<exists>st' c xs. push_bytes_all push join st bs = Some (st', Inr c)
    \<and> fed push join st (concat bs) st' c xs \<and> valid (inner st')"
  using assms
proof (induction bs arbitrary: st)
  case Nil
  then show ?case by (intro exI [of _ st] exI [of _ chunk_empty] exI [of _ "[]"]) (simp add: fed_def)
next
  case (Cons b bs)
  obtain st1 c1 xs1 where 1: "push_bytes push st b = Some (st1, Inr c1)" "fed push join st b st1 c1 xs1"
      "valid (inner st1)"
    using push_bytes_fed [OF Cons.prems(1), of b "concat bs"] Cons.prems(2) by auto
  have "pending_utf8 st @ concat (b # bs) = concat xs1 @ pending_utf8 st1 @ concat bs"
    using 1(2) unfolding fed_def by (metis append.assoc concat.simps(2))
  note bytes = this
  then have "valid_utf8 (pending_utf8 st1 @ concat bs)"
    using Cons.prems(2) 1(2) valid_utf8_rest valid_utf8_concat by (metis fed_def)
  then obtain st2 c2 xs2 where 2: "push_bytes_all push join st1 bs = Some (st2, Inr c2)"
      "fed push join st1 (concat bs) st2 c2 xs2" "valid (inner st2)"
    using Cons.IH [OF 1(3)] by blast
  have "fed push join st (concat (b # bs)) st2 (chunk_join join c1 c2) (xs1 @ xs2)"
    using 1(2) 2(2) push_all_append [of "inner st" xs1 "inner st1" c1 xs2 "inner st2" c2] bytes
    by (simp add: fed_def)
  then show ?case using 1(1) 2 by auto
qed

end

section \<open>Properties\<close>


definition utf8_citation_stream :: "str list \<Rightarrow> (utf8_error + str \<times> str list) option" where
  "utf8_citation_stream bs =
     Option.bind citation_new (\<lambda>p.
     Option.bind (push_bytes_all citation_push_str (@) (utf8_new p) bs) (\<lambda>(st, r).
       case r of
         Inl e \<Rightarrow> Some (Inl e)
       | Inr c \<Rightarrow>
           map_option (\<lambda>(st', r'). map_sum id
               (\<lambda>tail. (visible_text c @ visible_text tail, extracted c @ extracted tail)) r')
             (utf8_finish citation_push_str citation_finish st)))"

abbreviation fresh_citation_parser :: "citation_tag inline_parser" where
  "fresh_citation_parser \<equiv> \<lparr>specs = [citation_spec], pending = [], active = None\<rparr>"


lemma fresh_valid: "citation_valid fresh_citation_parser"
  by (simp add: citation_valid_def)

lemma citation_finish_pieces:
  assumes "citation_push_str p b = Some (p', c')" and "push_all citation_push_str (@) fresh_citation_parser xs = Some (p, c)"
  shows "push_all citation_push_str (@) fresh_citation_parser (xs @ [b]) = Some (p', chunk_join (@) c c')"
proof -
  have "push_all citation_push_str (@) p [b] = Some (p', c')"
    using assms(1) citation.push_single by simp
  then show ?thesis using citation.push_all_append [OF assms(2)] by blast
qed

text \<open>
  valid UTF-8 may be cut anywhere, even inside a character: pushed as bytes in any chunks and
  finished, a text gives the visible text and the citations of the complete text, and no error.
\<close>

theorem utf8_citation_stream_reference:
  assumes "valid_utf8 (concat bs)"
  shows "utf8_citation_stream bs = Some (Inr (citations_of (concat bs)))"
proof -
  let ?st = "utf8_new fresh_citation_parser"
  obtain st c xs where run: "push_bytes_all citation_push_str (@) ?st bs = Some (st, Inr c)"
      and fed: "fed citation_push_str (@) ?st (concat bs) st c xs" and v: "citation_valid (inner st)"
    using citation.push_bytes_all_fed [of ?st bs] assms fresh_valid by (auto simp: utf8_new_def)
  have bytes: "concat bs = concat xs @ pending_utf8 st" and xs: "list_all valid_utf8 xs"
      and all: "push_all citation_push_str (@) fresh_citation_parser xs = Some (inner st, c)"
    using fed by (auto simp: fed_def utf8_new_def)
  have pend: "valid_utf8 (pending_utf8 st)"
    using assms bytes valid_utf8_rest [OF valid_utf8_concat [OF xs]] by simp
  obtain p' c' where p': "citation_push_str (inner st) (pending_utf8 st) = Some (p', c')"
    using citation_push_returns [OF v] by blast
  have aligned: "list_all char_aligned xs" using xs valid_utf8_aligned by (auto simp: list_all_iff)
  show ?thesis
  proof (cases "pending_utf8 st = []")
    case True
    then show ?thesis
      using citation_stream_ref [OF aligned] all run bytes
      by (auto simp: utf8_citation_stream_def citation_stream_def citation_new_eq utf8_finish_def
          chunk_join_append_simps Let_def split: prod.split)
  next
    case False
    have "citation_stream (xs @ [pending_utf8 st]) = Some (citations_of (concat (xs @ [pending_utf8 st])))"
      using aligned valid_utf8_aligned [OF pend] by (intro citation_stream_ref) simp
    then show ?thesis
      using False citation_finish_pieces [OF p' all] run bytes pend p'
      by (auto simp: utf8_citation_stream_def citation_stream_def citation_new_eq utf8_finish_def
          valid_utf8_def chunk_join_def Let_def split: prod.split)
  qed
qed

theorem utf8_citation_stream_reference_witness:
  "valid_utf8 (concat [[CHR 0xC3], [CHR 0xA9] @ CITATION_OPEN @ ''x''])
   \<and> utf8_citation_stream [[CHR 0xC3], [CHR 0xA9] @ CITATION_OPEN @ ''x'']
     = Some (Inr (citations_of ([CHR 0xC3, CHR 0xA9] @ CITATION_OPEN @ ''x'')))"
proof -
  have "valid_utf8 (concat [[CHR 0xC3], [CHR 0xA9] @ CITATION_OPEN @ ''x''])" by code_simp
  with utf8_citation_stream_reference [OF this] show ?thesis by simp
qed

end
