(* ===== verification/Head_Tail_Buffer.thy ===== *)
theory Head_Tail_Buffer
  imports Rust_Prelude
begin

text \<open>
  The capped output buffer (\<open>codex-rs/core/src/unified_exec/head_tail_buffer.rs\<close>): a stable head, a
  moving tail and a count of the bytes dropped between them.  \<open>MAX_BYTES\<close>, a const parameter of the
  type, is the first argument of the operations.
\<close>

section \<open>The buffer\<close>

record head_tail_buffer =
  buf_head :: str
  buf_tail :: str
  omitted_bytes :: nat

definition buffer_default :: head_tail_buffer where
  "buffer_default = \<lparr>buf_head = [], buf_tail = [], omitted_bytes = 0\<rparr>"

definition HEAD_BUDGET :: "nat \<Rightarrow> nat" where
  "HEAD_BUDGET mb = mb div 2"

definition TAIL_BUDGET :: "nat \<Rightarrow> nat" where
  "TAIL_BUDGET mb = mb - HEAD_BUDGET mb"

definition retained_bytes :: "head_tail_buffer \<Rightarrow> nat" where
  "retained_bytes b = saturating_add (length (buf_head b)) (length (buf_tail b))"

definition total_bytes :: "head_tail_buffer \<Rightarrow> nat" where
  "total_bytes b = saturating_add (retained_bytes b) (omitted_bytes b)"

definition trim_tail_to_budget :: "nat \<Rightarrow> head_tail_buffer \<Rightarrow> head_tail_buffer" where
  "trim_tail_to_budget mb b =
     (let excess = length (buf_tail b) - TAIL_BUDGET mb
      in if excess > 0
         then b\<lparr>buf_tail := drop excess (buf_tail b), omitted_bytes := saturating_add (omitted_bytes b) excess\<rparr>
         else b)"

definition push_to_tail :: "nat \<Rightarrow> str \<Rightarrow> head_tail_buffer \<Rightarrow> head_tail_buffer" where
  "push_to_tail mb chunk b =
     (if chunk = [] then b
      else if TAIL_BUDGET mb = 0
      then b\<lparr>omitted_bytes := saturating_add (omitted_bytes b) (length chunk)\<rparr>
      else if TAIL_BUDGET mb \<le> length chunk then
        (let kept = drop (length chunk - TAIL_BUDGET mb) chunk;
             dropped = length chunk - length kept
         in b\<lparr>omitted_bytes :=
                saturating_add (saturating_add (omitted_bytes b) (length (buf_tail b))) dropped,
              buf_tail := kept\<rparr>)
      else trim_tail_to_budget mb (b\<lparr>buf_tail := buf_tail b @ chunk\<rparr>))"

definition push_chunk :: "nat \<Rightarrow> str \<Rightarrow> head_tail_buffer \<Rightarrow> head_tail_buffer" where
  "push_chunk mb chunk b =
     (if chunk = [] then b
      else if mb = 0 then b\<lparr>omitted_bytes := saturating_add (omitted_bytes b) (length chunk)\<rparr>
      else
        (let head_len = min (HEAD_BUDGET mb - length (buf_head b)) (length chunk);
             b1 = (if head_len > 0 then b\<lparr>buf_head := buf_head b @ take head_len chunk\<rparr> else b)
         in push_to_tail mb (drop head_len chunk) b1))"

definition to_bytes :: "head_tail_buffer \<Rightarrow> str" where
  "to_bytes b = buf_head b @ buf_tail b"

definition format_output_omission_marker :: "nat \<Rightarrow> str" where
  "format_output_omission_marker n = ''... '' @ show_nat n @ '' bytes omitted ...''"

definition to_bytes_with_omission_marker :: "head_tail_buffer \<Rightarrow> str" where
  "to_bytes_with_omission_marker b =
     (if omitted_bytes b = 0 then to_bytes b
      else buf_head b @ [CHR 0x0A] @ format_output_omission_marker (omitted_bytes b) @ [CHR 0x0A] @ buf_tail b)"

definition push_buffer :: "nat \<Rightarrow> head_tail_buffer \<Rightarrow> head_tail_buffer \<Rightarrow> head_tail_buffer" where
  "push_buffer mb later b =
     (let b1 = push_chunk mb (buf_head later) b;
          b2 = push_chunk mb (buf_tail later) b1
      in b2\<lparr>omitted_bytes := saturating_add (omitted_bytes b2) (omitted_bytes later)\<rparr>)"

section \<open>The summary of an output\<close>

text \<open>
  What the buffer is to hold of an output: its first \<open>HEAD_BUDGET\<close> bytes, the last \<open>TAIL_BUDGET\<close>
  of the rest, and the number of the others.
\<close>

definition last_bytes :: "nat \<Rightarrow> str \<Rightarrow> str" where
  "last_bytes n s = drop (length s - n) s"

definition summary :: "nat \<Rightarrow> str \<Rightarrow> head_tail_buffer" where
  "summary mb s =
     \<lparr>buf_head = take (HEAD_BUDGET mb) s,
      buf_tail = last_bytes (TAIL_BUDGET mb) (drop (HEAD_BUDGET mb) s),
      omitted_bytes = length s - mb\<rparr>"

lemma budgets: "HEAD_BUDGET m + TAIL_BUDGET m = m" "0 < m \<Longrightarrow> 0 < TAIL_BUDGET m"
  by (auto simp: HEAD_BUDGET_def TAIL_BUDGET_def)

lemma last_bytes_append: "last_bytes n (last_bytes n a @ b) = last_bytes n (a @ b)"
  by (cases "length a \<le> n") (auto simp: last_bytes_def add.commute)

lemma last_bytes_long: "n \<le> length b \<Longrightarrow> last_bytes n (a @ b) = last_bytes n b"
  by (simp add: last_bytes_def)

lemma drop_within: "n \<le> length x \<Longrightarrow> drop n (x @ y) = drop n x @ y"
  by simp

lemma length_last_bytes: "length (last_bytes n s) = min n (length s)"
  by (simp add: last_bytes_def)

lemma push_to_tail_tail:
  assumes "length (buf_tail b) \<le> TAIL_BUDGET m" and "omitted_bytes b + length (buf_tail b) + length chunk \<le> usize_max"
  shows "push_to_tail m chunk b =
    b\<lparr>buf_tail := last_bytes (TAIL_BUDGET m) (buf_tail b @ chunk),
      omitted_bytes := omitted_bytes b + (length (buf_tail b) + length chunk - TAIL_BUDGET m)\<rparr>"
  using assms
  by (auto simp: push_to_tail_def trim_tail_to_budget_def last_bytes_def saturating_add_def Let_def)

lemma push_chunk_summary:
  assumes "length (s @ c) \<le> usize_max"
  shows "push_chunk m c (summary m s) = summary m (s @ c)"
proof (cases "c = [] \<or> m = 0")
  case True
  then show ?thesis
  proof
    assume "m = 0"
    then show ?thesis
      using assms
      by (auto simp: push_chunk_def summary_def HEAD_BUDGET_def TAIL_BUDGET_def last_bytes_def saturating_add_def)
  qed (simp add: push_chunk_def)
next
  case False
  let ?H = "HEAD_BUDGET m" and ?T = "TAIL_BUDGET m"
  define k where "k = min (?H - length (take ?H s)) (length c)"
  let ?r = "drop k c"
  let ?b = "(summary m s)\<lparr>buf_head := take ?H s @ take k c\<rparr>"
  have m: "?H + ?T = m" by (rule budgets)
  have head: "take ?H s @ take k c = take ?H (s @ c)" by (auto simp: k_def min_def)
  have rest: "drop ?H s @ ?r = drop ?H (s @ c)" by (auto simp: k_def min_def)
  have omitted: "length s - m + (min ?T (length s - ?H) + length ?r - ?T) = length (s @ c) - m"
    using m by (auto simp: k_def)
  have "k = 0 \<Longrightarrow> ?b = summary m s" by (simp add: summary_def)
  then have "push_chunk m c (summary m s) = push_to_tail m ?r ?b"
    using False by (auto simp: push_chunk_def summary_def Let_def k_def)
  also have "\<dots> = ?b\<lparr>buf_tail := last_bytes ?T (buf_tail ?b @ ?r),
      omitted_bytes := omitted_bytes ?b + (length (buf_tail ?b) + length ?r - ?T)\<rparr>"
    using assms m by (intro push_to_tail_tail) (auto simp: summary_def length_last_bytes)
  also have "\<dots> = \<lparr>buf_head = take ?H s @ take k c, buf_tail = last_bytes ?T (last_bytes ?T (drop ?H s) @ ?r),
      omitted_bytes = length s - m + (min ?T (length s - ?H) + length ?r - ?T)\<rparr>"
    by (simp add: summary_def length_last_bytes)
  also have "\<dots> = summary m (s @ c)"
    by (simp only: head omitted last_bytes_append rest summary_def)
  finally show ?thesis .
qed

lemma summary_empty: "summary m [] = buffer_default"
  by (simp add: summary_def buffer_default_def last_bytes_def)

section \<open>Properties\<close>

text \<open>
  C24: however the output arrives in chunks, the buffer holds the summary of the whole output: its
  first half of the budget, its last bytes up to the other half, and the exact number of bytes
  between them (as long as that count fits a \<open>usize\<close>).
\<close>

theorem buffer_holds_summary:
  assumes "length (concat cs) \<le> usize_max"
  shows "fold (push_chunk m) cs buffer_default = summary m (concat cs)"
proof -
  have "fold (push_chunk m) cs (summary m s) = summary m (s @ concat cs)"
    if "length (s @ concat cs) \<le> usize_max" for s
    using that by (induction cs arbitrary: s) (simp_all add: push_chunk_summary)
  from this [of "[]"] show ?thesis using assms by (simp add: summary_empty)
qed

theorem buffer_holds_summary_witness:
  "fold (push_chunk 4) [''abc'', ''d'', ''efg''] buffer_default = summary 4 ''abcdefg''"
  using buffer_holds_summary [of "[''abc'', ''d'', ''efg'']" 4] by (simp add: usize_max_def)

lemma summary_short: "length s \<le> m \<Longrightarrow> buf_head (summary m s) @ buf_tail (summary m s) = s"
  using budgets(1) [of m] by (simp add: summary_def last_bytes_def)

text \<open>
  appending a later buffer gives the summary of the two outputs one after the other, including
  the number of omitted bytes, although the later buffer no longer has the bytes it dropped.
\<close>

theorem push_buffer_summary:
  assumes "length (a @ b) \<le> usize_max"
  shows "push_buffer m (summary m b) (summary m a) = summary m (a @ b)"
proof -
  let ?H = "HEAD_BUDGET m" and ?T = "TAIL_BUDGET m"
  let ?h = "buf_head (summary m b)" and ?t = "buf_tail (summary m b)"
  have len: "length ?h + length ?t \<le> length b" by (simp add: summary_def length_last_bytes)
  then have "push_chunk m ?t (push_chunk m ?h (summary m a)) = summary m (a @ ?h @ ?t)"
    using assms push_chunk_summary [of a ?h m] push_chunk_summary [of "a @ ?h" ?t m] by simp
  moreover have "(summary m (a @ ?h @ ?t))\<lparr>omitted_bytes :=
      saturating_add (omitted_bytes (summary m (a @ ?h @ ?t))) (length b - m)\<rparr> = summary m (a @ b)"
  proof (cases "length b \<le> m")
    case True
    then show ?thesis
      using summary_short [OF True] assms by (simp add: saturating_add_def) (simp add: summary_def)
  next
    case False
    have lens: "length ?h = ?H" "length ?t = ?T" "?H + ?T = m"
      using False budgets(1) [of m] by (auto simp: summary_def length_last_bytes)
    have "take ?H (a @ ?h @ ?t) = take ?H (a @ b)"
      using lens(1) by (simp add: summary_def)
    moreover have "last_bytes ?T (drop ?H (a @ ?h @ ?t)) = last_bytes ?T (drop ?H (a @ b))"
    proof -
      have "drop ?H ((a @ ?h) @ ?t) = drop ?H (a @ ?h) @ ?t" by (rule drop_within) (simp add: lens(1))
      then have "drop ?H (a @ ?h @ ?t) = drop ?H (a @ ?h) @ ?t" by (simp only: append.assoc)
      moreover have "drop ?H (a @ b) = drop ?H (a @ ?h) @ drop ?H b"
      proof -
        have e: "a @ b = (a @ ?h) @ drop ?H b" by (simp add: summary_def)
        have d: "drop ?H ((a @ ?h) @ drop ?H b) = drop ?H (a @ ?h) @ drop ?H b"
          by (rule drop_within) (simp add: lens(1))
        show ?thesis by (rule trans [OF arg_cong [OF e, of "drop ?H"] d])
      qed
      moreover have "last_bytes ?T ?t = last_bytes ?T (drop ?H b)"
        using last_bytes_append [of ?T "drop ?H b" "[]"] by (simp add: summary_def)
      moreover have "last_bytes ?T (drop ?H (a @ ?h) @ ?t) = last_bytes ?T ?t"
        by (rule last_bytes_long) (simp add: lens(2))
      moreover have "last_bytes ?T (drop ?H (a @ ?h) @ drop ?H b) = last_bytes ?T (drop ?H b)"
        by (rule last_bytes_long) (use lens(3) False in simp)
      ultimately show ?thesis by (simp only:)
    qed
    moreover have "length (a @ ?h @ ?t) - m + (length b - m) = length (a @ b) - m"
      using lens False by simp
    ultimately show ?thesis
      using assms lens by (simp add: summary_def saturating_add_def del: take_append drop_append)
  qed
  ultimately show ?thesis by (simp add: push_buffer_def Let_def) (simp add: summary_def)
qed

theorem push_buffer_summary_witness:
  "push_buffer 4 (summary 4 ''cdefghi'') (summary 4 ''ab'') = summary 4 ''abcdefghi''"
  using push_buffer_summary [of "''ab''" "''cdefghi''" 4] by (simp add: usize_max_def)

text \<open>
  the buffer never retains more than its budget, it accounts for every byte it was given, and
  while nothing was omitted it gives the output back as it was.
\<close>

theorem buffer_bounds:
  assumes "length (concat cs) \<le> usize_max"
  shows "retained_bytes (fold (push_chunk m) cs buffer_default) \<le> m
    \<and> total_bytes (fold (push_chunk m) cs buffer_default) = length (concat cs)
    \<and> (length (concat cs) \<le> m \<longrightarrow>
        to_bytes_with_omission_marker (fold (push_chunk m) cs buffer_default) = concat cs)"
proof -
  have "fold (push_chunk m) cs (summary m s) = summary m (s @ concat cs)"
    if "length (s @ concat cs) \<le> usize_max" for s
    using that by (induction cs arbitrary: s) (simp_all add: push_chunk_summary)
  from this [of "[]"] have b: "fold (push_chunk m) cs buffer_default = summary m (concat cs)"
    using assms by (simp add: summary_empty)
  have "length (buf_head (summary m s)) + length (buf_tail (summary m s)) = min m (length s)" for s
    using budgets(1) [of m] by (auto simp: summary_def length_last_bytes min_def)
  moreover have "to_bytes_with_omission_marker (summary m (concat cs)) = concat cs" if "length (concat cs) \<le> m"
    using summary_short [OF that] that
    by (simp add: to_bytes_with_omission_marker_def to_bytes_def) (simp add: summary_def)
  ultimately show ?thesis
    using assms unfolding b
    by (auto simp: retained_bytes_def total_bytes_def saturating_add_def) (simp_all add: summary_def)
qed

theorem buffer_bounds_witness:
  "total_bytes (fold (push_chunk 4) [''abc'', ''defg''] buffer_default) = 7"
  using buffer_bounds [of "[''abc'', ''defg'']" 4] by (simp add: usize_max_def)

end
