(* ===== verification/String_Truncate.thy ===== *)
theory String_Truncate
  imports Utf8_Text
begin

text \<open>
  Truncation of text (\<open>codex-rs/utils/string/src/truncate.rs\<close> and \<open>lib.rs\<close>): the middle of a string
  is replaced by a marker so that its beginning and its end fit a budget, never inside a character.
\<close>

section \<open>Token estimates\<close>

definition APPROX_BYTES_PER_TOKEN :: nat where
  "APPROX_BYTES_PER_TOKEN = 4"

definition approx_token_count :: "str \<Rightarrow> nat" where
  "approx_token_count s =
     saturating_add (length s) (APPROX_BYTES_PER_TOKEN - 1) div APPROX_BYTES_PER_TOKEN"

definition approx_bytes_for_tokens :: "nat \<Rightarrow> nat" where
  "approx_bytes_for_tokens tokens = saturating_mul tokens APPROX_BYTES_PER_TOKEN"

text \<open>On \<open>u64\<close>, which is as wide as \<open>usize\<close>.\<close>

definition approx_tokens_from_byte_count :: "nat \<Rightarrow> nat" where
  "approx_tokens_from_byte_count n =
     saturating_add n (APPROX_BYTES_PER_TOKEN - 1) div APPROX_BYTES_PER_TOKEN"

section \<open>Splitting\<close>

record split_state =
  prefix_end :: nat
  suffix_start :: nat
  removed_chars :: nat
  suffix_started :: bool

text \<open>One iteration over \<open>char_indices\<close>, for the character \<open>ch\<close> at \<open>idx\<close>.\<close>

definition split_step :: "nat \<Rightarrow> nat \<Rightarrow> nat \<Rightarrow> str \<Rightarrow> split_state \<Rightarrow> split_state" where
  "split_step beginning_bytes tail_start_target idx ch st =
     (if idx + length ch \<le> beginning_bytes then st\<lparr>prefix_end := idx + length ch\<rparr>
      else if tail_start_target \<le> idx
      then (if suffix_started st then st else st\<lparr>suffix_start := idx, suffix_started := True\<rparr>)
      else st\<lparr>removed_chars := saturating_add (removed_chars st) 1\<rparr>)"

fun split_chars :: "nat \<Rightarrow> nat \<Rightarrow> nat \<Rightarrow> str list \<Rightarrow> split_state \<Rightarrow> split_state" where
  "split_chars b t idx [] st = st"
| "split_chars b t idx (ch # cs) st = split_chars b t (idx + length ch) cs (split_step b t idx ch st)"

definition split_string :: "str \<Rightarrow> nat \<Rightarrow> nat \<Rightarrow> nat \<times> str \<times> str" where
  "split_string s beginning_bytes end_bytes =
     (if s = [] then (0, [], [])
      else
        (let st = split_chars beginning_bytes (length s - end_bytes) 0 (utf8_chars s)
               \<lparr>prefix_end = 0, suffix_start = length s, removed_chars = 0, suffix_started = False\<rparr>;
             ss = (if suffix_start st < prefix_end st then prefix_end st else suffix_start st)
         in (removed_chars st, take (prefix_end st) s, drop ss s)))"

definition split_budget :: "nat \<Rightarrow> nat \<times> nat" where
  "split_budget budget = (budget div 2, budget - budget div 2)"

section \<open>Truncation\<close>

definition ellipsis :: str where
  "ellipsis = [CHR 0xE2, CHR 0x80, CHR 0xA6]"

definition format_truncation_marker :: "bool \<Rightarrow> nat \<Rightarrow> str" where
  "format_truncation_marker use_tokens removed_count =
     ellipsis @ show_nat removed_count @
     (if use_tokens then '' tokens truncated'' else '' chars truncated'') @ ellipsis"

definition removed_units :: "bool \<Rightarrow> nat \<Rightarrow> nat \<Rightarrow> nat" where
  "removed_units use_tokens removed_bytes removed_chs =
     (if use_tokens then approx_tokens_from_byte_count removed_bytes else removed_chs)"

definition assemble_truncated_output :: "str \<Rightarrow> str \<Rightarrow> str \<Rightarrow> str" where
  "assemble_truncated_output p s marker = p @ marker @ s"

definition truncate_with_byte_estimate :: "str \<Rightarrow> nat \<Rightarrow> bool \<Rightarrow> str" where
  "truncate_with_byte_estimate s max_bytes use_tokens =
     (if s = [] then []
      else if max_bytes = 0
      then format_truncation_marker use_tokens (removed_units use_tokens (length s) (length (utf8_chars s)))
      else if length s \<le> max_bytes then s
      else
        (let (left_budget, right_budget) = split_budget max_bytes;
             (removed, left, right) = split_string s left_budget right_budget;
             marker = format_truncation_marker use_tokens
               (removed_units use_tokens (length s - max_bytes) removed)
         in assemble_truncated_output left right marker))"

definition truncate_middle_chars :: "str \<Rightarrow> nat \<Rightarrow> str" where
  "truncate_middle_chars s max_bytes = truncate_with_byte_estimate s max_bytes False"

definition truncate_middle_with_token_budget :: "str \<Rightarrow> nat \<Rightarrow> str \<times> nat option" where
  "truncate_middle_with_token_budget s max_tokens =
     (if s = [] then ([], None)
      else if 0 < max_tokens \<and> length s \<le> approx_bytes_for_tokens max_tokens then (s, None)
      else
        (let truncated = truncate_with_byte_estimate s (approx_bytes_for_tokens max_tokens) True
         in if truncated = s then (truncated, None) else (truncated, Some (approx_token_count s))))"

section \<open>Other string helpers\<close>

fun last_fitting :: "nat \<Rightarrow> nat \<Rightarrow> nat \<Rightarrow> str list \<Rightarrow> nat" where
  "last_fitting maxb idx last_ok [] = last_ok"
| "last_fitting maxb idx last_ok (ch # cs) =
     (let nb = idx + length ch
      in if maxb < nb then last_ok else last_fitting maxb nb nb cs)"

definition take_bytes_at_char_boundary :: "str \<Rightarrow> nat \<Rightarrow> str" where
  "take_bytes_at_char_boundary s maxb =
     (if length s \<le> maxb then s else take (last_fitting maxb 0 0 (utf8_chars s)) s)"

definition metric_char_ok :: "char \<Rightarrow> bool" where
  "metric_char_ok c \<longleftrightarrow> is_ascii_alphanumeric c \<or> c \<in> {CHR ''.'', CHR ''_'', CHR ''-'', CHR ''/''}"

definition sanitize_char :: "str \<Rightarrow> str" where
  "sanitize_char ch = (case ch of [c] \<Rightarrow> if metric_char_ok c then [c] else ''_'' | _ \<Rightarrow> ''_'')"

definition trim_underscores :: "str \<Rightarrow> str" where
  "trim_underscores s =
     rev (dropWhile (\<lambda>c. c = CHR ''_'') (rev (dropWhile (\<lambda>c. c = CHR ''_'') s)))"

definition sanitize_metric_tag_value :: "str \<Rightarrow> str" where
  "sanitize_metric_tag_value v =
     (let trimmed = trim_underscores (concat (map sanitize_char (utf8_chars v)))
      in if trimmed = [] \<or> list_all (\<lambda>c. \<not> is_ascii_alphanumeric c) trimmed then ''unspecified''
         else if length trimmed \<le> 256 then trimmed else take 256 trimmed)"

definition parse_markdown_hash_location_point :: "str \<Rightarrow> (str \<times> str option) option" where
  "parse_markdown_hash_location_point point =
     Option.bind (strip_prefix ''L'' point) (\<lambda>p.
       case split_once (CHR ''C'') p of
         Some (line, column) \<Rightarrow> Some (line, Some column)
       | None \<Rightarrow> Some (p, None))"

definition location_point :: "str \<times> str option \<Rightarrow> str" where
  "location_point p = (case p of (line, column) \<Rightarrow>
     line @ (case column of Some c \<Rightarrow> '':'' @ c | None \<Rightarrow> []))"

definition normalize_markdown_hash_location_suffix :: "str \<Rightarrow> str option" where
  "normalize_markdown_hash_location_suffix sfx =
     Option.bind (strip_prefix ''#'' sfx) (\<lambda>fragment.
       let (start, end) = (case split_once (CHR ''-'') fragment of
              Some (a, b) \<Rightarrow> (a, Some b)
            | None \<Rightarrow> (fragment, None))
       in Option.bind (parse_markdown_hash_location_point start) (\<lambda>sp.
            case end of
              None \<Rightarrow> Some ('':'' @ location_point sp)
            | Some e \<Rightarrow>
                map_option (\<lambda>ep. '':'' @ location_point sp @ ''-'' @ location_point ep)
                  (parse_markdown_hash_location_point e)))"

section \<open>What splitting gives\<close>

lemma utf8_chars_nonempty: "list_all (\<lambda>c. c \<noteq> []) (utf8_chars s)"
  by (induction s rule: utf8_chars.induct) auto

text \<open>A prefix of the characters that is as long as the budget allows.\<close>

lemma longest_prefix:
  "\<exists>P R. cs = P @ R \<and> length (concat P) \<le> b \<and> (R \<noteq> [] \<longrightarrow> b < length (concat P) + length (hd R))"
proof (induction cs arbitrary: b)
  case (Cons c cs)
  show ?case
  proof (cases "length c \<le> b")
    case True
    obtain P R where "cs = P @ R" "length (concat P) \<le> b - length c"
        "R \<noteq> [] \<longrightarrow> b - length c < length (concat P) + length (hd R)"
      using Cons by blast
    then show ?thesis using True by (intro exI [of _ "c # P"] exI [of _ R]) auto
  qed (auto intro: exI [of _ "[]"])
qed simp

lemma split_chars_prefix:
  "idx + length (concat P) \<le> b \<Longrightarrow>
     split_chars b t idx (P @ R) st =
       split_chars b t (idx + length (concat P)) R
         (st\<lparr>prefix_end := if P = [] then prefix_end st else idx + length (concat P)\<rparr>)"
proof (induction P arbitrary: idx st)
  case (Cons c P)
  then show ?case
    using Cons.IH [of "idx + length c" "st\<lparr>prefix_end := idx + length c\<rparr>"]
    by (simp add: split_step_def add.assoc)
qed simp

lemma split_chars_suffix:
  "suffix_started st \<Longrightarrow> t \<le> idx \<Longrightarrow> b < idx + 1 \<Longrightarrow> list_all (\<lambda>c. c \<noteq> []) cs \<Longrightarrow>
     split_chars b t idx cs st = st"
proof (induction cs arbitrary: idx)
  case (Cons c cs)
  then have "\<not> idx + length c \<le> b" by (cases c) auto
  then show ?case using Cons by (simp add: split_step_def)
qed simp

lemma split_chars_rest:
  assumes "list_all (\<lambda>c. c \<noteq> []) cs" and "cs \<noteq> [] \<longrightarrow> b < idx + length (hd cs)"
    and "\<not> suffix_started st" and "removed_chars st + length cs \<le> usize_max"
  shows "\<exists>M S. cs = M @ S
    \<and> split_chars b t idx cs st = st\<lparr>removed_chars := removed_chars st + length M,
        suffix_start := if S = [] then suffix_start st else idx + length (concat M),
        suffix_started := S \<noteq> []\<rparr>
    \<and> (M \<noteq> [] \<longrightarrow> idx + length (concat (butlast M)) < t)
    \<and> (S \<noteq> [] \<longrightarrow> t \<le> idx + length (concat M))"
  using assms
proof (induction cs arbitrary: idx st)
  case Nil
  then show ?case by (cases st) simp
next
  case (Cons c cs)
  have c: "0 < length c" "b < idx + length c" using Cons.prems by auto
  show ?case
  proof (cases "t \<le> idx")
    case True
    let ?st = "st\<lparr>suffix_start := idx, suffix_started := True\<rparr>"
    have "split_step b t idx c st = ?st" using True c Cons.prems(3) by (simp add: split_step_def)
    moreover have "split_chars b t (idx + length c) cs ?st = ?st"
      using split_chars_suffix [of ?st t "idx + length c" b cs] True c Cons.prems(1) by simp
    ultimately show ?thesis
      using True by (intro exI [of _ "[]"] exI [of _ "c # cs"]) simp
  next
    case False
    let ?st = "st\<lparr>removed_chars := removed_chars st + 1\<rparr>"
    have step: "split_step b t idx c st = ?st"
      using False c Cons.prems(4) by (simp add: split_step_def saturating_add_def)
    have "cs \<noteq> [] \<longrightarrow> b < idx + length c + length (hd cs)" using c by auto
    then obtain M S where "cs = M @ S"
        "split_chars b t (idx + length c) cs ?st = ?st\<lparr>removed_chars := removed_chars ?st + length M,
          suffix_start := if S = [] then suffix_start ?st else idx + length c + length (concat M),
          suffix_started := S \<noteq> []\<rparr>"
        "M \<noteq> [] \<longrightarrow> idx + length c + length (concat (butlast M)) < t"
        "S \<noteq> [] \<longrightarrow> t \<le> idx + length c + length (concat M)"
      using Cons.IH [of "idx + length c" ?st] Cons.prems by auto
    then show ?thesis
      using step False by (intro exI [of _ "c # M"] exI [of _ S]) (auto simp: add.assoc)
  qed
qed

lemma split_string_parts:
  assumes "length s \<le> usize_max"
  shows "\<exists>P M S. utf8_chars s = P @ M @ S \<and> split_string s b e = (length M, concat P, concat S)
    \<and> length (concat P) \<le> b \<and> length (concat S) \<le> e
    \<and> (M \<noteq> [] \<longrightarrow> b < length (concat P) + length (hd M) \<and> e < length (last M) + length (concat S))"
proof (cases "s = []")
  case True
  then show ?thesis by (intro exI [of _ "[]"]) (simp add: split_string_def)
next
  case False
  let ?cs = "utf8_chars s" and ?t = "length s - e"
  let ?st0 = "\<lparr>prefix_end = 0, suffix_start = length s, removed_chars = 0, suffix_started = False\<rparr>"
  obtain P R where P: "?cs = P @ R" "length (concat P) \<le> b" "R \<noteq> [] \<longrightarrow> b < length (concat P) + length (hd R)"
    using longest_prefix [of ?cs b] by blast
  let ?k = "length (concat P)"
  let ?st1 = "?st0\<lparr>prefix_end := ?k\<rparr>"
  have s: "s = concat P @ concat R" using P(1) by (metis concat_append concat_utf8_chars)
  have R: "list_all (\<lambda>c. c \<noteq> []) R" using utf8_chars_nonempty [of s] P(1) by simp
  have "length R \<le> length (concat R)" using R
  proof (induction R)
    case (Cons a R)
    then show ?case by (cases a) auto
  qed simp
  then have small: "removed_chars ?st1 + length R \<le> usize_max" and fresh: "\<not> suffix_started ?st1"
    using assms s by simp_all
  obtain M S where M: "R = M @ S"
      and run: "split_chars b ?t ?k R ?st1 = ?st1\<lparr>removed_chars := removed_chars ?st1 + length M,
        suffix_start := if S = [] then suffix_start ?st1 else ?k + length (concat M), suffix_started := S \<noteq> []\<rparr>"
      and m: "M \<noteq> [] \<longrightarrow> ?k + length (concat (butlast M)) < ?t" and S: "S \<noteq> [] \<longrightarrow> ?t \<le> ?k + length (concat M)"
    using split_chars_rest [OF R P(3) fresh small, of ?t] by blast
  have len: "length s = ?k + length (concat M) + length (concat S)" using s M by simp
  have "split_chars b ?t 0 ?cs ?st0 = split_chars b ?t ?k R ?st1"
    using split_chars_prefix [of 0 P b ?t R ?st0] P by (cases P) auto
  then have "split_string s b e = (length M, take ?k s, drop (?k + length (concat M)) s)"
    using False run len by (simp add: split_string_def)
  also have "\<dots> = (length M, concat P, concat S)" using s M by simp
  finally have "split_string s b e = (length M, concat P, concat S)" .
  moreover have "length (concat S) \<le> e" using S len by (cases "S = []") auto
  moreover have "e < length (last M) + length (concat S)" if "M \<noteq> []"
  proof -
    have "length (concat M) = length (concat (butlast M)) + length (last M)"
      using that by (cases M rule: rev_cases) simp_all
    then show ?thesis using m len that by simp
  qed
  moreover have "b < ?k + length (hd M)" if "M \<noteq> []" using P(3) M that by simp
  ultimately show ?thesis using P(1,2) M by (intro exI [of _ P] exI [of _ M] exI [of _ S]) simp
qed

text \<open>The middle of a text longer than the budget is cut out at character boundaries: what is kept at
  either end fits its half of the budget and could not be one character longer, and the marker states the
  number of characters removed.\<close>

theorem truncate_middle_chars_keeps_ends:
  assumes "length s \<le> usize_max" "0 < n" "n < length s"
  shows "\<exists>P M S. utf8_chars s = P @ M @ S \<and> M \<noteq> []
    \<and> truncate_middle_chars s n = concat P @ format_truncation_marker False (length M) @ concat S
    \<and> length (concat P) \<le> n div 2 \<and> length (concat S) \<le> n - n div 2
    \<and> n div 2 < length (concat P) + length (hd M) \<and> n - n div 2 < length (last M) + length (concat S)"
proof -
  obtain P M S where *: "utf8_chars s = P @ M @ S"
      "split_string s (n div 2) (n - n div 2) = (length M, concat P, concat S)"
      "length (concat P) \<le> n div 2" "length (concat S) \<le> n - n div 2"
      "M \<noteq> [] \<longrightarrow> n div 2 < length (concat P) + length (hd M) \<and> n - n div 2 < length (last M) + length (concat S)"
    using split_string_parts [OF assms(1)] by blast
  have "s = concat P @ concat M @ concat S" using *(1) by (metis concat_append concat_utf8_chars)
  then have "length s = length (concat P) + length (concat M) + length (concat S)" by simp
  then have M: "M \<noteq> []" using assms(3) *(3,4) by auto
  have "s \<noteq> []" "\<not> length s \<le> n" using assms by auto
  then have "truncate_middle_chars s n = concat P @ format_truncation_marker False (length M) @ concat S"
    using * assms by (simp add: truncate_middle_chars_def truncate_with_byte_estimate_def split_budget_def
        removed_units_def assemble_truncated_output_def)
  then show ?thesis using * M by blast
qed

theorem truncate_middle_chars_keeps_ends_witness:
  "\<exists>P M S. utf8_chars ''abcdefgh'' = P @ M @ S \<and> M \<noteq> []
    \<and> truncate_middle_chars ''abcdefgh'' 4 = concat P @ format_truncation_marker False (length M) @ concat S
    \<and> length (concat P) \<le> 2 \<and> length (concat S) \<le> 2
    \<and> 2 < length (concat P) + length (hd M) \<and> 2 < length (last M) + length (concat S)"
  using truncate_middle_chars_keeps_ends [of "''abcdefgh''" 4] by (simp add: usize_max_def)

text \<open>The prefix taken by \<open>take_bytes_at_char_boundary\<close> is the longest one that fits and is whole characters.\<close>

lemma last_fitting_prefix:
  "\<exists>P R. cs = P @ R \<and> last_fitting maxb idx idx cs = idx + length (concat P)
    \<and> (P \<noteq> [] \<longrightarrow> idx + length (concat P) \<le> maxb) \<and> (R \<noteq> [] \<longrightarrow> maxb < idx + length (concat P) + length (hd R))"
proof (induction cs arbitrary: idx)
  case (Cons c cs)
  show ?case
  proof (cases "maxb < idx + length c")
    case True
    then show ?thesis by (intro exI [of _ "[]"] exI [of _ "c # cs"]) simp
  next
    case False
    obtain P R where "cs = P @ R" "last_fitting maxb (idx + length c) (idx + length c) cs = idx + length c + length (concat P)"
        "P \<noteq> [] \<longrightarrow> idx + length c + length (concat P) \<le> maxb"
        "R \<noteq> [] \<longrightarrow> maxb < idx + length c + length (concat P) + length (hd R)"
      using Cons [of "idx + length c"] by blast
    then show ?thesis using False
      by (intro exI [of _ "c # P"] exI [of _ R]) (cases "P = []", auto simp: Let_def add.assoc)
  qed
qed simp

lemma take_bytes_at_char_boundary_longest:
  "\<exists>P R. utf8_chars s = P @ R \<and> take_bytes_at_char_boundary s n = concat P \<and> length (concat P) \<le> n
    \<and> (R \<noteq> [] \<longrightarrow> n < length (concat P) + length (hd R))"
proof (cases "length s \<le> n")
  case True
  then show ?thesis by (intro exI [of _ "utf8_chars s"] exI [of _ "[]"]) (simp add: take_bytes_at_char_boundary_def)
next
  case False
  obtain P R where P: "utf8_chars s = P @ R" "last_fitting n 0 0 (utf8_chars s) = length (concat P)"
      "P \<noteq> [] \<longrightarrow> length (concat P) \<le> n" "R \<noteq> [] \<longrightarrow> n < length (concat P) + length (hd R)"
    using last_fitting_prefix [of "utf8_chars s" n 0, unfolded add_0] by blast
  have "s = concat P @ concat R" using P(1) by (metis concat_append concat_utf8_chars)
  then have "take (length (concat P)) s = concat P" by (metis append_eq_conv_conj)
  moreover have "length (concat P) \<le> n" using P(3) by (cases "P = []") auto
  ultimately show ?thesis using False P by (intro exI [of _ P] exI [of _ R]) (simp add: take_bytes_at_char_boundary_def)
qed

text \<open>A sanitised metric tag is never empty, at most 256 bytes long and made of the permitted characters.\<close>

lemma sanitize_char_ok: "list_all metric_char_ok (sanitize_char ch)"
  by (auto simp: sanitize_char_def metric_char_ok_def split: list.split)

lemma set_trim_underscores: "set (trim_underscores s) \<subseteq> set s"
  by (auto simp: trim_underscores_def dest!: set_dropWhileD)

lemma sanitize_metric_tag_value_ok:
  "sanitize_metric_tag_value v \<noteq> [] \<and> length (sanitize_metric_tag_value v) \<le> 256
   \<and> list_all metric_char_ok (sanitize_metric_tag_value v)"
proof -
  let ?t = "trim_underscores (concat (map sanitize_char (utf8_chars v)))"
  have "list_all metric_char_ok ?t"
    using set_trim_underscores [of "concat (map sanitize_char (utf8_chars v))"] sanitize_char_ok
    by (fastforce simp: list_all_iff)
  then have "list_all metric_char_ok (take 256 ?t)" "list_all metric_char_ok ?t"
    by (auto simp: list_all_iff dest: in_set_takeD)
  then show ?thesis
    by (auto simp: sanitize_metric_tag_value_def Let_def metric_char_ok_def is_ascii_alphanumeric_def
        is_ascii_digit_def is_ascii_lower_def byte_val_def)
qed

end
