(* ===== verification/Output_Truncation.thy ===== *)
theory Output_Truncation
  imports String_Truncate
begin

text \<open>
  Truncation of tool output (\<open>codex-rs/utils/output-truncation/src/lib.rs\<close>) under a \<open>TruncationPolicy\<close>
  (\<open>codex-rs/protocol/src/protocol.rs\<close>), a budget in bytes or in estimated tokens.  Text is cut in the
  middle; images and encrypted content are always kept; audio is kept while its estimated cost fits.  The
  estimate of the cost of an audio item is an argument, as it is in the code.
\<close>

section \<open>Policies and items\<close>

datatype truncation_policy = Bytes nat | Tokens nat

fun token_budget :: "truncation_policy \<Rightarrow> nat" where
  "token_budget (Bytes n) = approx_tokens_from_byte_count n"
| "token_budget (Tokens n) = n"

fun byte_budget :: "truncation_policy \<Rightarrow> nat" where
  "byte_budget (Bytes n) = n"
| "byte_budget (Tokens n) = approx_bytes_for_tokens n"

datatype image_detail = DetailAuto | DetailLow | DetailHigh | DetailOriginal

datatype content_item =
    InputText str
  | is_InputImage: InputImage str "image_detail option"
  | is_InputAudio: InputAudio str
  | EncryptedContent str

fun item_text :: "content_item \<Rightarrow> str option" where
  "item_text (InputText t) = Some t"
| "item_text _ = None"

section \<open>Truncating one text\<close>

definition truncate_text :: "str \<Rightarrow> truncation_policy \<Rightarrow> str" where
  "truncate_text content policy =
     (case policy of
        Bytes n \<Rightarrow> truncate_middle_chars content n
      | Tokens n \<Rightarrow> fst (truncate_middle_with_token_budget content n))"

definition formatted_truncate_text :: "str \<Rightarrow> truncation_policy \<Rightarrow> str" where
  "formatted_truncate_text content policy =
     (if length content \<le> byte_budget policy then content
      else ''Warning: truncated output (original token count: '' @ show_nat (approx_token_count content)
           @ '')'' @ [lf_char] @ ''Total output lines: '' @ show_nat (length (str_lines content))
           @ [lf_char, lf_char] @ truncate_text content policy)"

section \<open>Truncating the items of a tool call\<close>

definition push_text_segment :: "str \<Rightarrow> str \<Rightarrow> str" where
  "push_text_segment combined t = (if combined \<noteq> [] then combined @ [lf_char] @ t else combined @ t)"

definition combine_segments :: "str list \<Rightarrow> str" where
  "combine_segments segs = foldl push_text_segment [] segs"

definition formatted_truncate_text_content_items_with_policy ::
    "content_item list \<Rightarrow> truncation_policy \<Rightarrow> content_item list \<times> nat option" where
  "formatted_truncate_text_content_items_with_policy items policy =
     (let text_segments = List.map_filter item_text items
      in if text_segments = [] then (items, None)
         else
           (let combined = combine_segments text_segments
            in if length combined \<le> byte_budget policy then (items, None)
               else (InputText (formatted_truncate_text combined policy)
                       # filter (\<lambda>i. item_text i = None) items,
                     Some (approx_token_count combined))))"

text \<open>The loop state of \<open>truncate_function_output_items_with_policy\<close>.\<close>

record trunc_state =
  trunc_out :: "content_item list"
  remaining_budget :: nat
  omitted_text_items :: nat
  omitted_audio_items :: nat

definition text_cost :: "truncation_policy \<Rightarrow> str \<Rightarrow> nat" where
  "text_cost policy t = (case policy of Bytes _ \<Rightarrow> length t | Tokens _ \<Rightarrow> approx_token_count t)"

definition audio_cost :: "truncation_policy \<Rightarrow> nat \<Rightarrow> nat" where
  "audio_cost policy c = (case policy of Bytes _ \<Rightarrow> approx_bytes_for_tokens c | Tokens _ \<Rightarrow> c)"

definition snippet_policy :: "truncation_policy \<Rightarrow> nat \<Rightarrow> truncation_policy" where
  "snippet_policy policy remaining = (case policy of Bytes _ \<Rightarrow> Bytes remaining | Tokens _ \<Rightarrow> Tokens remaining)"

definition push_item :: "content_item \<Rightarrow> trunc_state \<Rightarrow> trunc_state" where
  "push_item item st = st\<lparr>trunc_out := trunc_out st @ [item]\<rparr>"

fun truncate_item :: "truncation_policy \<Rightarrow> (str \<Rightarrow> nat) \<Rightarrow> content_item \<Rightarrow> trunc_state \<Rightarrow> trunc_state" where
  "truncate_item policy estimate (InputText t) st =
     (if remaining_budget st = 0 then st\<lparr>omitted_text_items := omitted_text_items st + 1\<rparr>
      else if text_cost policy t \<le> remaining_budget st
      then (push_item (InputText t) st)\<lparr>remaining_budget := remaining_budget st - text_cost policy t\<rparr>
      else
        (let snippet = truncate_text t (snippet_policy policy (remaining_budget st));
             st1 = (if snippet = [] then st\<lparr>omitted_text_items := omitted_text_items st + 1\<rparr>
                    else push_item (InputText snippet) st)
         in st1\<lparr>remaining_budget := 0\<rparr>))"
| "truncate_item policy estimate (InputImage url detail) st = push_item (InputImage url detail) st"
| "truncate_item policy estimate (InputAudio url) st =
     (let cost = audio_cost policy (estimate url)
      in if cost \<le> remaining_budget st
         then (push_item (InputAudio url) st)\<lparr>remaining_budget := remaining_budget st - cost\<rparr>
         else st\<lparr>omitted_audio_items := omitted_audio_items st + 1\<rparr>)"
| "truncate_item policy estimate (EncryptedContent c) st = push_item (EncryptedContent c) st"

definition initial_budget :: "truncation_policy \<Rightarrow> nat" where
  "initial_budget policy = (case policy of Bytes _ \<Rightarrow> byte_budget policy | Tokens _ \<Rightarrow> token_budget policy)"

definition omitted_notice :: "nat \<Rightarrow> str \<Rightarrow> content_item list" where
  "omitted_notice n what =
     (if 0 < n then [InputText (''[omitted '' @ show_nat n @ '' '' @ what @ '' items ...]'')] else [])"

definition truncate_function_output_items_with_policy ::
    "content_item list \<Rightarrow> truncation_policy \<Rightarrow> (str \<Rightarrow> nat) \<Rightarrow> content_item list" where
  "truncate_function_output_items_with_policy items policy estimate =
     (let st = fold (truncate_item policy estimate) items
            \<lparr>trunc_out = [], remaining_budget = initial_budget policy, omitted_text_items = 0, omitted_audio_items = 0\<rparr>
      in trunc_out st @ omitted_notice (omitted_text_items st) ''text''
           @ omitted_notice (omitted_audio_items st) ''audio'')"

text \<open>The largest \<open>i64\<close>.\<close>

definition i64_max :: int where
  "i64_max = 2 ^ 63 - 1"

definition approx_tokens_from_byte_count_i64 :: "int \<Rightarrow> int" where
  "approx_tokens_from_byte_count_i64 n =
     (if n \<le> 0 then 0
      else (let t = int (approx_tokens_from_byte_count (nat n)) in if t \<le> i64_max then t else i64_max))"

section \<open>What truncation keeps\<close>

fun always_kept :: "content_item \<Rightarrow> bool" where
  "always_kept (InputImage _ _) = True"
| "always_kept (EncryptedContent _) = True"
| "always_kept _ = False"

fun audio_url :: "content_item \<Rightarrow> str option" where
  "audio_url (InputAudio u) = Some u"
| "audio_url _ = None"

fun item_cost :: "truncation_policy \<Rightarrow> (str \<Rightarrow> nat) \<Rightarrow> content_item \<Rightarrow> nat" where
  "item_cost policy estimate (InputText t) = text_cost policy t"
| "item_cost policy estimate (InputAudio u) = audio_cost policy (estimate u)"
| "item_cost policy estimate _ = 0"

definition total_audio_cost :: "truncation_policy \<Rightarrow> (str \<Rightarrow> nat) \<Rightarrow> content_item list \<Rightarrow> nat" where
  "total_audio_cost policy estimate items =
     sum_list (map (\<lambda>u. audio_cost policy (estimate u)) (List.map_filter audio_url items))"

lemma total_audio_cost_append [simp]:
  "total_audio_cost policy estimate (xs @ ys) = total_audio_cost policy estimate xs + total_audio_cost policy estimate ys"
  by (simp add: total_audio_cost_def List.map_filter_def)

lemma omitted_notice_kinds [simp]:
  "filter always_kept (omitted_notice n w) = []" "List.map_filter audio_url (omitted_notice n w) = []"
  "total_audio_cost policy estimate (omitted_notice n w) = 0"
  by (simp_all add: omitted_notice_def total_audio_cost_def List.map_filter_def)

declare map_filter_append [simp]

lemma truncate_item_kinds:
  "filter always_kept (trunc_out (truncate_item policy estimate item st))
     = filter always_kept (trunc_out st) @ filter always_kept [item]"
  "\<exists>us. subseq us (List.map_filter audio_url [item])
     \<and> List.map_filter audio_url (trunc_out (truncate_item policy estimate item st))
       = List.map_filter audio_url (trunc_out st) @ us"
  by (cases item; force simp: push_item_def Let_def List.map_filter_def)+

lemma truncate_item_cost:
  "total_audio_cost policy estimate (trunc_out (truncate_item policy estimate item st))
     + remaining_budget (truncate_item policy estimate item st)
   \<le> total_audio_cost policy estimate (trunc_out st) + remaining_budget st"
  by (cases item) (auto simp: push_item_def Let_def total_audio_cost_def List.map_filter_def)

lemma truncate_fold_kinds:
  "filter always_kept (trunc_out (fold (truncate_item policy estimate) items st))
     = filter always_kept (trunc_out st) @ filter always_kept items"
  by (induction items arbitrary: st) (simp_all add: truncate_item_kinds(1) del: truncate_item.simps)

lemma truncate_fold_audio:
  "\<exists>us. subseq us (List.map_filter audio_url items)
     \<and> List.map_filter audio_url (trunc_out (fold (truncate_item policy estimate) items st))
       = List.map_filter audio_url (trunc_out st) @ us"
proof (induction items arbitrary: st)
  case (Cons item items)
  let ?st = "truncate_item policy estimate item st"
  obtain us where us: "subseq us (List.map_filter audio_url [item])"
      "List.map_filter audio_url (trunc_out ?st) = List.map_filter audio_url (trunc_out st) @ us"
    using truncate_item_kinds(2) by blast
  obtain vs where vs: "subseq vs (List.map_filter audio_url items)"
      "List.map_filter audio_url (trunc_out (fold (truncate_item policy estimate) items ?st))
       = List.map_filter audio_url (trunc_out ?st) @ vs"
    using Cons by blast
  have "subseq (us @ vs) (List.map_filter audio_url ([item] @ items))"
    unfolding map_filter_append using us(1) vs(1) by (rule list_emb_append_mono)
  then show ?case using us(2) vs(2) by (intro exI [of _ "us @ vs"]) simp
qed simp

lemma truncate_fold_cost:
  "total_audio_cost policy estimate (trunc_out (fold (truncate_item policy estimate) items st))
     + remaining_budget (fold (truncate_item policy estimate) items st)
   \<le> total_audio_cost policy estimate (trunc_out st) + remaining_budget st"
proof (induction items arbitrary: st)
  case (Cons item items)
  show ?case using Cons [of "truncate_item policy estimate item st"] truncate_item_cost [of policy estimate item st]
    by simp
qed simp

text \<open>Truncation never loses an image or an encrypted item and never reorders them; the audio items that
  survive are a subsequence of the given ones whose estimated cost fits the budget, for any estimate.\<close>

theorem truncate_items_keeps_media:
  "filter always_kept (truncate_function_output_items_with_policy items policy estimate) = filter always_kept items
   \<and> subseq (List.map_filter audio_url (truncate_function_output_items_with_policy items policy estimate))
       (List.map_filter audio_url items)
   \<and> total_audio_cost policy estimate (truncate_function_output_items_with_policy items policy estimate)
       \<le> initial_budget policy"
proof -
  let ?init = "\<lparr>trunc_out = [], remaining_budget = initial_budget policy, omitted_text_items = 0, omitted_audio_items = 0\<rparr>"
  let ?st = "fold (truncate_item policy estimate) items ?init"
  have "filter always_kept (trunc_out ?st) = filter always_kept items"
    using truncate_fold_kinds [of policy estimate items ?init] by simp
  moreover have "subseq (List.map_filter audio_url (trunc_out ?st)) (List.map_filter audio_url items)"
    using truncate_fold_audio [of items policy estimate ?init] by (auto simp: List.map_filter_def)
  moreover have "total_audio_cost policy estimate (trunc_out ?st) \<le> initial_budget policy"
    using truncate_fold_cost [of policy estimate items ?init] by (simp add: total_audio_cost_def List.map_filter_def)
  ultimately show ?thesis
    by (simp add: truncate_function_output_items_with_policy_def Let_def)
qed

lemma truncate_fold_fits:
  assumes "list_all (\<lambda>i. item_text i \<noteq> Some []) items" "length (concat (List.map_filter item_text items)) \<le> usize_max - 3"
    "sum_list (map (item_cost policy estimate) items) \<le> remaining_budget st"
  shows "trunc_out (fold (truncate_item policy estimate) items st) = trunc_out st @ items
    \<and> omitted_text_items (fold (truncate_item policy estimate) items st) = omitted_text_items st
    \<and> omitted_audio_items (fold (truncate_item policy estimate) items st) = omitted_audio_items st"
  using assms
proof (induction items arbitrary: st)
  case (Cons item items)
  have small: "length t \<le> usize_max - 3" if "item = InputText t" for t
    using Cons.prems(2) that by (simp add: List.map_filter_def)
  have pos: "0 < text_cost policy t" if "item = InputText t" for t
  proof -
    have "t \<noteq> []" "4 \<le> length t + 3" using Cons.prems(1) that by (cases t; simp)+
    then show ?thesis using small [OF that] div_le_mono [of 4 "length t + 3" 4]
      by (cases policy) (simp_all add: text_cost_def approx_token_count_def APPROX_BYTES_PER_TOKEN_def
          saturating_add_exact usize_max_def)
  qed
  have "\<exists>r. truncate_item policy estimate item st = st\<lparr>trunc_out := trunc_out st @ [item], remaining_budget := r\<rparr>
      \<and> remaining_budget st \<le> r + item_cost policy estimate item"
    using Cons.prems(3) pos by (cases item) (auto simp: push_item_def Let_def intro!: exI)
  then obtain r where r: "truncate_item policy estimate item st = st\<lparr>trunc_out := trunc_out st @ [item], remaining_budget := r\<rparr>"
      "remaining_budget st \<le> r + item_cost policy estimate item"
    by blast
  have "length (concat (List.map_filter item_text items)) \<le> usize_max - 3"
    using Cons.prems(2) by (cases item) (simp_all add: List.map_filter_def)
  then show ?case using Cons.IH [of "st\<lparr>trunc_out := trunc_out st @ [item], remaining_budget := r\<rparr>"] Cons.prems r by simp
qed simp

text \<open>When no text is empty and the estimated cost of all items fits the budget, nothing is changed.\<close>

theorem truncate_items_unchanged:
  assumes "list_all (\<lambda>i. item_text i \<noteq> Some []) items"
    "length (concat (List.map_filter item_text items)) \<le> usize_max - 3"
    "sum_list (map (item_cost policy estimate) items) \<le> initial_budget policy"
  shows "truncate_function_output_items_with_policy items policy estimate = items"
  using truncate_fold_fits [OF assms(1,2), of policy estimate "\<lparr>trunc_out = [],
      remaining_budget = initial_budget policy, omitted_text_items = 0, omitted_audio_items = 0\<rparr>"] assms(3)
  by (simp add: truncate_function_output_items_with_policy_def omitted_notice_def)

theorem truncate_items_unchanged_witness:
  "truncate_function_output_items_with_policy [InputText ''hello'', InputAudio ''a'', InputText ''abc'']
     (Tokens 5) (\<lambda>_. 2) = [InputText ''hello'', InputAudio ''a'', InputText ''abc'']"
  by (rule truncate_items_unchanged)
    (simp_all add: List.map_filter_def usize_max_def text_cost_def audio_cost_def approx_token_count_def
      initial_budget_def saturating_add_def APPROX_BYTES_PER_TOKEN_def)

text \<open>The merged form: what does not fit is replaced by one text followed by all items that are not text.\<close>

lemma formatted_items_merged:
  "formatted_truncate_text_content_items_with_policy items policy = (out, Some n) \<Longrightarrow>
    \<exists>t. out = InputText t # filter (\<lambda>i. item_text i = None) items
     \<and> n = approx_token_count (combine_segments (List.map_filter item_text items))"
  "formatted_truncate_text_content_items_with_policy items policy = (out, None) \<Longrightarrow> out = items"
  by (auto simp: formatted_truncate_text_content_items_with_policy_def Let_def split: if_splits)

text \<open>The number of tokens never exceeds the range of \<open>i64\<close> and is the rounded-up quotient by four.\<close>

lemma approx_tokens_i64_quotient:
  "0 \<le> n \<Longrightarrow> n \<le> i64_max \<Longrightarrow> approx_tokens_from_byte_count_i64 n = (n + 3) div 4"
  by (auto simp: approx_tokens_from_byte_count_i64_def approx_tokens_from_byte_count_def saturating_add_def
      APPROX_BYTES_PER_TOKEN_def usize_max_def i64_max_def Let_def nat_add_distrib zdiv_int)

end
