(* ===== verification/Context_Items.thy ===== *)
theory Context_Items
  imports Output_Truncation
begin

text \<open>
  The items of a conversation (\<open>ResponseItem\<close> and its parts in \<open>codex-rs/protocol/src/models.rs\<close>,
  \<open>ResponseItemEnvelope\<close> in \<open>codex-rs/history/src/lib.rs\<close>).  Fields that no modelled operation inspects
  (JSON values, statuses, actions, the rest of the metadata) have the type parameter \<open>'j\<close>.
\<close>

section \<open>Contents\<close>

datatype message_content =
    MsgInputText str
  | is_MsgInputImage: MsgInputImage str "image_detail option"
  | is_MsgInputAudio: MsgInputAudio str
  | MsgOutputText str

datatype agent_content = AgentInputText str | AgentEncryptedContent str

datatype message_phase = Commentary | FinalAnswer

datatype output_body = BodyText str | BodyItems "content_item list"

record output_payload =
  body :: output_body
  success :: "bool option"

definition payload_from_text :: "str \<Rightarrow> output_payload" where
  "payload_from_text s = \<lparr>body = BodyText s, success = None\<rparr>"

record 'j passthrough =
  meta_turn_id :: "str option"
  meta_other :: 'j

section \<open>Items\<close>

datatype 'j response_item =
    AdditionalTools (item_id: "str option") str "'j list"
  | Message (item_id: "str option") str "message_content list" "message_phase option"
      (item_meta: "'j passthrough option")
  | AgentMessage (item_id: "str option") str str "agent_content list" (item_meta: "'j passthrough option")
  | Reasoning (item_id: "str option") "'j list" "'j list option" "str option" (item_meta: "'j passthrough option")
  | LocalShellCall (item_id: "str option") "str option" 'j 'j (item_meta: "'j passthrough option")
  | FunctionCall (item_id: "str option") str "str option" str "str list option" str
      (item_meta: "'j passthrough option")
  | ToolSearchCall (item_id: "str option") "str option" "str option" str 'j (item_meta: "'j passthrough option")
  | FunctionCallOutput (item_id: "str option") str output_payload (item_meta: "'j passthrough option")
  | CustomToolCall (item_id: "str option") "str option" str str "str option" str
      (item_meta: "'j passthrough option")
  | CustomToolCallOutput (item_id: "str option") str "str option" output_payload
      (item_meta: "'j passthrough option")
  | ToolSearchOutput (item_id: "str option") "str option" str str "'j list" (item_meta: "'j passthrough option")
  | WebSearchCall (item_id: "str option") "str option" "'j option" (item_meta: "'j passthrough option")
  | ImageGenerationCall (item_id: "str option") str "str option" str (item_meta: "'j passthrough option")
  | Compaction (item_id: "str option") str (item_meta: "'j passthrough option")
  | CompactionTrigger
  | ContextCompaction (item_id: "str option") "str option" (item_meta: "'j passthrough option")
  | OtherItem

text \<open>\<open>internal_chat_message_metadata_passthrough\<close> and the non-empty turn id.\<close>

fun metadata_passthrough :: "'j response_item \<Rightarrow> 'j passthrough option" where
  "metadata_passthrough (AdditionalTools _ _ _) = None"
| "metadata_passthrough CompactionTrigger = None"
| "metadata_passthrough OtherItem = None"
| "metadata_passthrough item = item_meta item"

definition item_turn_id :: "'j response_item \<Rightarrow> str option" where
  "item_turn_id item =
     Option.bind (Option.bind (metadata_passthrough item) meta_turn_id) (\<lambda>t. if t = [] then None else Some t)"

text \<open>\<open>CodexHarnessMetadata\<close> is its only field.\<close>

record 'j envelope =
  env_item :: "'j response_item"
  env_metadata :: "bool option"

definition envelope_new :: "'j response_item \<Rightarrow> 'j envelope" where
  "envelope_new item = \<lparr>env_item = item, env_metadata = None\<rparr>"

end
