(* ===== verification/Context_Normalize.thy ===== *)
theory Context_Normalize
  imports Context_Items
begin

text \<open>
  Normalisation of the conversation before it is sent (\<open>codex-rs/core/src/context_manager/normalize.rs\<close>):
  every call gets an output, outputs without a call are removed, and media that the model cannot read
  are replaced.  \<open>error_or_panic\<close> panics in a debug build, which is the argument \<open>debug\<close>, and only logs in a release
  build; a panic is \<open>None\<close>.  The version 5 UUID of a name is an argument.
\<close>

section \<open>Calls and outputs\<close>

fun function_output_id :: "'j response_item \<Rightarrow> str option" where
  "function_output_id (FunctionCallOutput _ c _ _) = Some c"
| "function_output_id _ = None"

fun tool_search_output_id :: "'j response_item \<Rightarrow> str option" where
  "tool_search_output_id (ToolSearchOutput _ c _ _ _ _) = c"
| "tool_search_output_id _ = None"

fun custom_tool_output_id :: "'j response_item \<Rightarrow> str option" where
  "custom_tool_output_id (CustomToolCallOutput _ c _ _ _) = Some c"
| "custom_tool_output_id _ = None"

fun function_call_id :: "'j response_item \<Rightarrow> str option" where
  "function_call_id (FunctionCall _ _ _ _ _ c _) = Some c"
| "function_call_id (LocalShellCall _ c _ _ _) = c"
| "function_call_id _ = None"

fun tool_search_call_id :: "'j response_item \<Rightarrow> str option" where
  "tool_search_call_id (ToolSearchCall _ c _ _ _ _) = c"
| "tool_search_call_id _ = None"

fun custom_tool_call_id :: "'j response_item \<Rightarrow> str option" where
  "custom_tool_call_id (CustomToolCall _ _ c _ _ _ _) = Some c"
| "custom_tool_call_id _ = None"

definition collect_ids :: "('j response_item \<Rightarrow> str option) \<Rightarrow> 'j envelope list \<Rightarrow> str list" where
  "collect_ids f items = List.map_filter (\<lambda>e. f (env_item e)) items"

section \<open>Missing outputs\<close>

definition synthetic_output_id :: "(str \<Rightarrow> str) \<Rightarrow> str \<Rightarrow> str option \<Rightarrow> str option" where
  "synthetic_output_id uuid_v5 pre source =
     (case source of
        Some s \<Rightarrow> if s = [] then None else Some (pre @ ''_'' @ uuid_v5 (pre @ '':'' @ s))
      | None \<Rightarrow> None)"

definition aborted_output :: "(str \<Rightarrow> str) \<Rightarrow> str option \<Rightarrow> str \<Rightarrow> 'j response_item" where
  "aborted_output uuid_v5 source c =
     FunctionCallOutput (synthetic_output_id uuid_v5 ''fco'' source) c (payload_from_text ''aborted'') None"

text \<open>
  The output to insert after an item, and whether \<open>error_or_panic\<close> is called for it.  The three lists are
  the ids of the outputs present.
\<close>

fun missing_output ::
    "(str \<Rightarrow> str) \<Rightarrow> str list \<Rightarrow> str list \<Rightarrow> str list \<Rightarrow> 'j response_item \<Rightarrow> (bool \<times> 'j response_item) option" where
  "missing_output uuid_v5 fs ts cs (FunctionCall i _ _ _ _ c _) =
     (if c \<in> set fs then None else Some (False, aborted_output uuid_v5 i c))"
| "missing_output uuid_v5 fs ts cs (ToolSearchCall i (Some c) _ _ _ _) =
     (if c \<in> set ts then None
      else Some (False, ToolSearchOutput (synthetic_output_id uuid_v5 ''tso'' i) (Some c)
             ''completed'' ''client'' [] None))"
| "missing_output uuid_v5 fs ts cs (CustomToolCall i _ c _ _ _ _) =
     (if c \<in> set cs then None
      else Some (True, CustomToolCallOutput (synthetic_output_id uuid_v5 ''ctco'' i) c None
             (payload_from_text ''aborted'') None))"
| "missing_output uuid_v5 fs ts cs (LocalShellCall i (Some c) _ _ _) =
     (if c \<in> set fs then None else Some (True, aborted_output uuid_v5 i c))"
| "missing_output uuid_v5 fs ts cs _ = None"

definition missing_for :: "(str \<Rightarrow> str) \<Rightarrow> 'j envelope list \<Rightarrow> 'j envelope \<Rightarrow> (bool \<times> 'j response_item) option" where
  "missing_for uuid_v5 items e =
     missing_output uuid_v5 (collect_ids function_output_id items) (collect_ids tool_search_output_id items)
       (collect_ids custom_tool_output_id items) (env_item e)"

definition missing_outputs_to_insert ::
    "(str \<Rightarrow> str) \<Rightarrow> 'j envelope list \<Rightarrow> (bool \<times> nat \<times> 'j envelope) list" where
  "missing_outputs_to_insert uuid_v5 items =
     List.map_filter (\<lambda>(idx, e). map_option (\<lambda>(report, item). (report, idx, envelope_new item))
       (missing_for uuid_v5 items e)) (enumerate 0 items)"

definition vec_insert :: "nat \<Rightarrow> 'a \<Rightarrow> 'a list \<Rightarrow> 'a list" where
  "vec_insert i x xs = take i xs @ x # drop i xs"

definition ensure_call_outputs_present ::
    "bool \<Rightarrow> (str \<Rightarrow> str) \<Rightarrow> 'j envelope list \<Rightarrow> 'j envelope list option" where
  "ensure_call_outputs_present debug uuid_v5 items =
     (let missing = missing_outputs_to_insert uuid_v5 items
      in if debug \<and> list_ex fst missing then None
         else Some (fold (\<lambda>(_, idx, out). vec_insert (idx + 1) out) (rev missing) items))"

section \<open>Orphan outputs\<close>

fun is_orphan :: "str list \<Rightarrow> str list \<Rightarrow> str list \<Rightarrow> 'j response_item \<Rightarrow> bool" where
  "is_orphan fs ts cs (FunctionCallOutput _ c _ _) = (c \<notin> set fs)"
| "is_orphan fs ts cs (CustomToolCallOutput _ c _ _ _) = (c \<notin> set cs)"
| "is_orphan fs ts cs (ToolSearchOutput _ (Some c) _ execution _ _) = (execution \<noteq> ''server'' \<and> c \<notin> set ts)"
| "is_orphan fs ts cs _ = False"

definition orphan_in :: "'j envelope list \<Rightarrow> 'j envelope \<Rightarrow> bool" where
  "orphan_in items e =
     is_orphan (collect_ids function_call_id items) (collect_ids tool_search_call_id items)
       (collect_ids custom_tool_call_id items) (env_item e)"

definition orphan_positions :: "'j envelope list \<Rightarrow> nat list" where
  "orphan_positions items = map fst (filter (\<lambda>(_, e). orphan_in items e) (enumerate 0 items))"

text \<open>\<open>retain\<close> with the peekable iterator over the positions.\<close>

fun retain_except :: "nat list \<Rightarrow> nat \<Rightarrow> 'a list \<Rightarrow> 'a list" where
  "retain_except ps position [] = []"
| "retain_except ps position (x # xs) =
     (if ps \<noteq> [] \<and> hd ps = position then retain_except (tl ps) (position + 1) xs
      else x # retain_except ps (position + 1) xs)"

definition remove_orphan_outputs :: "bool \<Rightarrow> 'j envelope list \<Rightarrow> 'j envelope list option" where
  "remove_orphan_outputs debug items =
     (let ps = orphan_positions items
      in if debug \<and> ps \<noteq> [] then None
         else if ps \<noteq> [] then Some (retain_except ps 0 items)
         else Some items)"

section \<open>Removing the counterpart of an item\<close>

fun remove_first_matching :: "('j response_item \<Rightarrow> bool) \<Rightarrow> 'j envelope list \<Rightarrow> 'j envelope list" where
  "remove_first_matching p [] = []"
| "remove_first_matching p (e # es) = (if p (env_item e) then es else e # remove_first_matching p es)"

fun is_function_call :: "str \<Rightarrow> 'j response_item \<Rightarrow> bool" where
  "is_function_call c (FunctionCall _ _ _ _ _ c' _) = (c' = c)"
| "is_function_call c _ = False"

fun is_local_shell_call :: "str \<Rightarrow> 'j response_item \<Rightarrow> bool" where
  "is_local_shell_call c (LocalShellCall _ c' _ _ _) = (c' = Some c)"
| "is_local_shell_call c _ = False"

fun remove_corresponding_for :: "'j envelope list \<Rightarrow> 'j response_item \<Rightarrow> 'j envelope list" where
  "remove_corresponding_for items (FunctionCall _ _ _ _ _ c _) =
     remove_first_matching (\<lambda>i. function_output_id i = Some c) items"
| "remove_corresponding_for items (FunctionCallOutput _ c _ _) =
     (if list_ex (\<lambda>e. is_function_call c (env_item e)) items then remove_first_matching (is_function_call c) items
      else remove_first_matching (is_local_shell_call c) items)"
| "remove_corresponding_for items (ToolSearchCall _ (Some c) _ _ _ _) =
     remove_first_matching (\<lambda>i. tool_search_output_id i = Some c) items"
| "remove_corresponding_for items (ToolSearchOutput _ (Some c) _ _ _ _) =
     remove_first_matching (\<lambda>i. tool_search_call_id i = Some c) items"
| "remove_corresponding_for items (CustomToolCall _ _ c _ _ _ _) =
     remove_first_matching (\<lambda>i. custom_tool_output_id i = Some c) items"
| "remove_corresponding_for items (CustomToolCallOutput _ c _ _ _) =
     remove_first_matching (\<lambda>i. custom_tool_call_id i = Some c) items"
| "remove_corresponding_for items (LocalShellCall _ (Some c) _ _ _) =
     remove_first_matching (\<lambda>i. function_output_id i = Some c) items"
| "remove_corresponding_for items _ = items"

section \<open>Media\<close>

datatype input_modality = TextModality | ImageModality | AudioModality

definition IMAGE_CONTENT_OMITTED_PLACEHOLDER :: str where
  "IMAGE_CONTENT_OMITTED_PLACEHOLDER = ''image content omitted because you do not support image input''"

definition AUDIO_CONTENT_OMITTED_PLACEHOLDER :: str where
  "AUDIO_CONTENT_OMITTED_PLACEHOLDER = ''audio content omitted because you do not support audio input''"

fun strip_image_content :: "message_content \<Rightarrow> message_content" where
  "strip_image_content (MsgInputImage _ _) = MsgInputText IMAGE_CONTENT_OMITTED_PLACEHOLDER"
| "strip_image_content c = c"

fun strip_image_item :: "content_item \<Rightarrow> content_item" where
  "strip_image_item (InputImage _ _) = InputText IMAGE_CONTENT_OMITTED_PLACEHOLDER"
| "strip_image_item c = c"

fun strip_audio_content :: "message_content \<Rightarrow> message_content" where
  "strip_audio_content (MsgInputAudio _) = MsgInputText AUDIO_CONTENT_OMITTED_PLACEHOLDER"
| "strip_audio_content c = c"

fun strip_audio_item :: "content_item \<Rightarrow> content_item" where
  "strip_audio_item (InputAudio _) = InputText AUDIO_CONTENT_OMITTED_PLACEHOLDER"
| "strip_audio_item c = c"

definition map_payload_items :: "(content_item \<Rightarrow> content_item) \<Rightarrow> output_payload \<Rightarrow> output_payload" where
  "map_payload_items f p =
     (case body p of BodyText _ \<Rightarrow> p | BodyItems items \<Rightarrow> p\<lparr>body := BodyItems (map f items)\<rparr>)"

fun strip_images_of :: "'j response_item \<Rightarrow> 'j response_item" where
  "strip_images_of (Message i role content phase m) = Message i role (map strip_image_content content) phase m"
| "strip_images_of (FunctionCallOutput i c out m) = FunctionCallOutput i c (map_payload_items strip_image_item out) m"
| "strip_images_of (CustomToolCallOutput i c n out m) =
     CustomToolCallOutput i c n (map_payload_items strip_image_item out) m"
| "strip_images_of (ImageGenerationCall i s r _ m) = ImageGenerationCall i s r [] m"
| "strip_images_of item = item"

fun strip_audio_of :: "'j response_item \<Rightarrow> 'j response_item" where
  "strip_audio_of (Message i role content phase m) = Message i role (map strip_audio_content content) phase m"
| "strip_audio_of (FunctionCallOutput i c out m) = FunctionCallOutput i c (map_payload_items strip_audio_item out) m"
| "strip_audio_of (CustomToolCallOutput i c n out m) =
     CustomToolCallOutput i c n (map_payload_items strip_audio_item out) m"
| "strip_audio_of item = item"

definition map_env_item :: "('j response_item \<Rightarrow> 'j response_item) \<Rightarrow> 'j envelope \<Rightarrow> 'j envelope" where
  "map_env_item f e = e\<lparr>env_item := f (env_item e)\<rparr>"

definition strip_images_when_unsupported :: "input_modality list \<Rightarrow> 'j envelope list \<Rightarrow> 'j envelope list" where
  "strip_images_when_unsupported modalities items =
     (if ImageModality \<in> set modalities then items else map (map_env_item strip_images_of) items)"

definition strip_audio_when_unsupported :: "input_modality list \<Rightarrow> 'j envelope list \<Rightarrow> 'j envelope list" where
  "strip_audio_when_unsupported modalities items =
     (if AudioModality \<in> set modalities then items else map (map_env_item strip_audio_of) items)"

definition normalize_history ::
    "bool \<Rightarrow> (str \<Rightarrow> str) \<Rightarrow> input_modality list \<Rightarrow> 'j envelope list \<Rightarrow> 'j envelope list option" where
  "normalize_history debug uuid_v5 modalities items =
     Option.bind (ensure_call_outputs_present debug uuid_v5 items) (\<lambda>items.
     Option.bind (remove_orphan_outputs debug items) (\<lambda>items.
       Some (strip_audio_when_unsupported modalities (strip_images_when_unsupported modalities items))))"

section \<open>The passes as functions of each item\<close>

definition with_output :: "(str \<Rightarrow> str) \<Rightarrow> 'j envelope list \<Rightarrow> 'j envelope \<Rightarrow> 'j envelope list" where
  "with_output uuid_v5 items e =
     e # (case missing_for uuid_v5 items e of None \<Rightarrow> [] | Some (_, out) \<Rightarrow> [envelope_new out])"

lemma insert_after_each:
  "length pre = n \<Longrightarrow>
   fold (\<lambda>(_, idx, out). vec_insert (idx + 1) out)
     (rev (List.map_filter (\<lambda>(idx, e). map_option (\<lambda>(b, x). (b, idx, h x)) (g e)) (enumerate n es))) (pre @ es)
   = pre @ concat (map (\<lambda>e. e # (case g e of None \<Rightarrow> [] | Some (_, x) \<Rightarrow> [h x])) es)"
proof (induction es arbitrary: pre n)
  case (Cons e es)
  have IH: "fold (\<lambda>(_, idx, out). vec_insert (idx + 1) out)
      (rev (List.map_filter (\<lambda>(idx, e). map_option (\<lambda>(b, x). (b, idx, h x)) (g e)) (enumerate (Suc n) es))) (pre @ e # es)
    = pre @ e # concat (map (\<lambda>e. e # (case g e of None \<Rightarrow> [] | Some (_, x) \<Rightarrow> [h x])) es)"
    using Cons.IH [of "pre @ [e]" "Suc n"] Cons.prems by simp
  show ?case
  proof (cases "g e")
    case None
    then show ?thesis using IH by (simp add: map_filter_simps)
  next
    case (Some p)
    obtain b x where p: "p = (b, x)" by (cases p)
    show ?thesis using IH Cons.prems Some
      by (simp add: map_filter_simps p) (simp add: vec_insert_def)
  qed
qed (simp add: List.map_filter_def)

lemma ensure_call_outputs_present_eq:
  "ensure_call_outputs_present debug uuid_v5 items =
     (if debug \<and> list_ex fst (missing_outputs_to_insert uuid_v5 items) then None
      else Some (concat (map (with_output uuid_v5 items) items)))"
  using insert_after_each [of "[]" 0 envelope_new "missing_for uuid_v5 items" items]
  by (simp add: ensure_call_outputs_present_def missing_outputs_to_insert_def with_output_def [abs_def] Let_def)

lemma retain_except_filter:
  "retain_except (map fst (filter (\<lambda>(_, e). P e) (enumerate n es))) n es = filter (\<lambda>e. \<not> P e) es"
proof (induction es arbitrary: n)
  case (Cons e es)
  let ?ps = "map fst (filter (\<lambda>(_, e). P e) (enumerate (Suc n) es))"
  have "\<forall>q \<in> set ?ps. n < q" by (auto simp: in_set_enumerate_eq)
  then have "?ps = [] \<or> hd ?ps \<noteq> n" by (cases ?ps) auto
  then show ?case using Cons [of "Suc n"] by auto
qed simp

lemma orphan_positions_Nil_iff: "orphan_positions items = [] \<longleftrightarrow> list_all (\<lambda>e. \<not> orphan_in items e) items"
proof -
  have "e \<in> set items \<longleftrightarrow> (\<exists>i. (i, e) \<in> set (enumerate 0 items))" for e
    by (auto simp: in_set_conv_nth [of e items] in_set_enumerate_eq)
  then show ?thesis
    unfolding orphan_positions_def list_all_iff by (auto simp: filter_empty_conv)
qed

lemma remove_orphan_outputs_eq:
  "remove_orphan_outputs debug items =
     (if debug \<and> list_ex (orphan_in items) items then None else Some (filter (\<lambda>e. \<not> orphan_in items e) items))"
proof -
  have "list_ex (orphan_in items) items \<longleftrightarrow> orphan_positions items \<noteq> []"
    unfolding orphan_positions_Nil_iff by (auto simp: list_ex_iff list_all_iff)
  moreover have "retain_except (orphan_positions items) 0 items = filter (\<lambda>e. \<not> orphan_in items e) items"
    unfolding orphan_positions_def by (rule retain_except_filter)
  moreover have "filter (\<lambda>e. \<not> orphan_in items e) items = items" if "orphan_positions items = []"
    using that unfolding orphan_positions_Nil_iff by (simp add: filter_id_conv list_all_iff)
  ultimately show ?thesis by (simp add: remove_orphan_outputs_def Let_def)
qed

section \<open>Pairing\<close>

text \<open>The outputs of tool searches that need a call: those that were not made by the server.\<close>

fun client_search_output_id :: "'j response_item \<Rightarrow> str option" where
  "client_search_output_id (ToolSearchOutput _ c _ execution _ _) = (if execution = ''server'' then None else c)"
| "client_search_output_id _ = None"

definition calls_answered :: "'j envelope list \<Rightarrow> bool" where
  "calls_answered items \<longleftrightarrow>
     set (collect_ids function_call_id items) \<subseteq> set (collect_ids function_output_id items)
   \<and> set (collect_ids tool_search_call_id items) \<subseteq> set (collect_ids tool_search_output_id items)
   \<and> set (collect_ids custom_tool_call_id items) \<subseteq> set (collect_ids custom_tool_output_id items)"

definition outputs_called :: "'j envelope list \<Rightarrow> bool" where
  "outputs_called items \<longleftrightarrow>
     set (collect_ids function_output_id items) \<subseteq> set (collect_ids function_call_id items)
   \<and> set (collect_ids client_search_output_id items) \<subseteq> set (collect_ids tool_search_call_id items)
   \<and> set (collect_ids custom_tool_output_id items) \<subseteq> set (collect_ids custom_tool_call_id items)"

lemma in_collect_ids: "c \<in> set (collect_ids f items) \<longleftrightarrow> (\<exists>e \<in> set items. f (env_item e) = Some c)"
  by (auto simp: collect_ids_def set_map_filter)

lemma orphan_in_iff:
  "orphan_in items e \<longleftrightarrow>
     (\<exists>c. function_output_id (env_item e) = Some c \<and> c \<notin> set (collect_ids function_call_id items)
        \<or> client_search_output_id (env_item e) = Some c \<and> c \<notin> set (collect_ids tool_search_call_id items)
        \<or> custom_tool_output_id (env_item e) = Some c \<and> c \<notin> set (collect_ids custom_tool_call_id items))"
  unfolding orphan_in_def
  by (cases "(collect_ids function_call_id items, collect_ids tool_search_call_id items,
      collect_ids custom_tool_call_id items, env_item e)" rule: is_orphan.cases) auto

lemma outputs_called_iff: "outputs_called items \<longleftrightarrow> list_all (\<lambda>e. \<not> orphan_in items e) items"
  unfolding orphan_in_iff outputs_called_def list_all_iff by (auto simp: subset_iff in_collect_ids)

lemma orphan_no_call:
  "orphan_in items e \<Longrightarrow> function_call_id (env_item e) = None \<and> tool_search_call_id (env_item e) = None
     \<and> custom_tool_call_id (env_item e) = None"
  unfolding orphan_in_iff by (cases "env_item e") auto

lemma missing_output_ids:
  "missing_output u fs ts cs item = Some (b, out) \<Longrightarrow>
     function_call_id out = None \<and> tool_search_call_id out = None \<and> custom_tool_call_id out = None
   \<and> function_output_id out = function_call_id item \<and> tool_search_output_id out = tool_search_call_id item
   \<and> client_search_output_id out = tool_search_call_id item \<and> custom_tool_output_id out = custom_tool_call_id item"
  by (cases "(u, fs, ts, cs, item)" rule: missing_output.cases)
    (auto simp: aborted_output_def split: if_splits)

lemma missing_output_None:
  "missing_output u fs ts cs item = None \<longleftrightarrow>
     (\<forall>c. (function_call_id item = Some c \<longrightarrow> c \<in> set fs) \<and> (tool_search_call_id item = Some c \<longrightarrow> c \<in> set ts)
        \<and> (custom_tool_call_id item = Some c \<longrightarrow> c \<in> set cs))"
  by (cases "(u, fs, ts, cs, item)" rule: missing_output.cases) auto

text \<open>What the first pass adds are outputs for calls that are there.\<close>

lemma in_with_output:
  "x \<in> set (with_output u items e) \<longleftrightarrow> x = e \<or> (\<exists>b out. missing_for u items e = Some (b, out) \<and> x = envelope_new out)"
  by (cases "missing_for u items e") (auto simp: with_output_def)

lemma envelope_new_item [simp]: "env_item (envelope_new item) = item"
  by (simp add: envelope_new_def)

lemma calls_with_outputs:
  assumes "f \<in> {function_call_id, tool_search_call_id, custom_tool_call_id}"
  shows "set (collect_ids f (concat (map (with_output u items) items))) = set (collect_ids f items)"
proof -
  have "f out = None" if "missing_for u items e = Some (b, out)" for e b out
    using missing_output_ids [OF that [unfolded missing_for_def]] assms by auto
  then show ?thesis by (fastforce simp: in_collect_ids in_with_output)
qed

lemma with_outputs_answered: "calls_answered (concat (map (with_output u items) items))"
proof -
  let ?out = "concat (map (with_output u items) items)"
  have *: "c \<in> set (collect_ids g ?out)"
    if e: "e \<in> set items" "f (env_item e) = Some c" and
      none: "missing_for u items e = None \<Longrightarrow> c \<in> set (collect_ids g items)" and
      some: "\<And>b out. missing_for u items e = Some (b, out) \<Longrightarrow> g out = f (env_item e)" for f g e c
  proof (cases "missing_for u items e")
    case None
    then obtain x where "x \<in> set items" "g (env_item x) = Some c" using none by (auto simp: in_collect_ids)
    then have "x \<in> set ?out" "g (env_item x) = Some c" by (auto simp: in_with_output)
    then show ?thesis unfolding in_collect_ids by blast
  next
    case (Some p)
    then obtain b out where "missing_for u items e = Some (b, out)" by (cases p) auto
    then have "envelope_new out \<in> set ?out" "g out = Some c" using e some by (auto simp: in_with_output)
    then show ?thesis by (force simp: in_collect_ids)
  qed
  show ?thesis
    unfolding calls_answered_def calls_with_outputs [of function_call_id u items, simplified]
      calls_with_outputs [of tool_search_call_id u items, simplified]
      calls_with_outputs [of custom_tool_call_id u items, simplified]
    by (intro conjI subsetI; subst (asm) in_collect_ids; elim bexE; rule *; assumption?)
      (auto simp: missing_for_def missing_output_None dest: missing_output_ids)
qed

lemma calls_without_orphans:
  assumes "f \<in> {function_call_id, tool_search_call_id, custom_tool_call_id}"
  shows "set (collect_ids f (filter (\<lambda>e. \<not> orphan_in items e) items)) = set (collect_ids f items)"
  using assms orphan_no_call [of items] by (fastforce simp: in_collect_ids)

lemma orphan_in_without_orphans:
  "orphan_in (filter (\<lambda>e. \<not> orphan_in items e) items) e \<longleftrightarrow> orphan_in items e"
  unfolding orphan_in_iff [of "filter (\<lambda>e. \<not> orphan_in items e) items"] orphan_in_iff [of items e]
  by (simp add: calls_without_orphans)

lemma without_orphans_called: "outputs_called (filter (\<lambda>e. \<not> orphan_in items e) items)"
  unfolding outputs_called_iff by (simp add: orphan_in_without_orphans list_all_iff)

lemma called_output_kept:
  assumes "e \<in> set items" "g (env_item e) = Some c" "c \<in> set (collect_ids f items)"
    "(g, f) \<in> {(function_output_id, function_call_id), (tool_search_output_id, tool_search_call_id),
       (custom_tool_output_id, custom_tool_call_id)}"
  shows "c \<in> set (collect_ids g (filter (\<lambda>e. \<not> orphan_in items e) items))"
proof -
  have "\<not> orphan_in items e" using assms(2-4) unfolding orphan_in_iff by (cases "env_item e") auto
  then show ?thesis using assms(1,2) by (auto simp: in_collect_ids)
qed

lemma without_orphans_answered:
  assumes "calls_answered items"
  shows "calls_answered (filter (\<lambda>e. \<not> orphan_in items e) items)"
proof -
  have "c \<in> set (collect_ids g (filter (\<lambda>e. \<not> orphan_in items e) items))"
    if c: "c \<in> set (collect_ids f items)" and sub: "set (collect_ids f items) \<subseteq> set (collect_ids g items)" and
      gf: "(g, f) \<in> {(function_output_id, function_call_id), (tool_search_output_id, tool_search_call_id),
         (custom_tool_output_id, custom_tool_call_id)}" for c f g
  proof -
    obtain e where "e \<in> set items" "g (env_item e) = Some c" using c sub by (auto simp: in_collect_ids subset_iff)
    then show ?thesis using c gf by (rule called_output_kept)
  qed
  then show ?thesis
    using assms by (auto simp: calls_answered_def calls_without_orphans)
qed

section \<open>Media\<close>

fun image_free :: "'j response_item \<Rightarrow> bool" where
  "image_free (Message _ _ content _ _) = list_all (\<lambda>c. \<not> is_MsgInputImage c) content"
| "image_free (FunctionCallOutput _ _ out _) =
     (case body out of BodyText _ \<Rightarrow> True | BodyItems items \<Rightarrow> list_all (\<lambda>c. \<not> is_InputImage c) items)"
| "image_free (CustomToolCallOutput _ _ _ out _) =
     (case body out of BodyText _ \<Rightarrow> True | BodyItems items \<Rightarrow> list_all (\<lambda>c. \<not> is_InputImage c) items)"
| "image_free (ImageGenerationCall _ _ _ result _) = (result = [])"
| "image_free _ = True"

fun audio_free :: "'j response_item \<Rightarrow> bool" where
  "audio_free (Message _ _ content _ _) = list_all (\<lambda>c. \<not> is_MsgInputAudio c) content"
| "audio_free (FunctionCallOutput _ _ out _) =
     (case body out of BodyText _ \<Rightarrow> True | BodyItems items \<Rightarrow> list_all (\<lambda>c. \<not> is_InputAudio c) items)"
| "audio_free (CustomToolCallOutput _ _ _ out _) =
     (case body out of BodyText _ \<Rightarrow> True | BodyItems items \<Rightarrow> list_all (\<lambda>c. \<not> is_InputAudio c) items)"
| "audio_free _ = True"

lemma strip_keeps_ids [simp]:
  "function_call_id (strip_images_of i) = function_call_id i" "function_call_id (strip_audio_of i) = function_call_id i"
  "tool_search_call_id (strip_images_of i) = tool_search_call_id i"
  "tool_search_call_id (strip_audio_of i) = tool_search_call_id i"
  "custom_tool_call_id (strip_images_of i) = custom_tool_call_id i"
  "custom_tool_call_id (strip_audio_of i) = custom_tool_call_id i"
  "function_output_id (strip_images_of i) = function_output_id i"
  "function_output_id (strip_audio_of i) = function_output_id i"
  "tool_search_output_id (strip_images_of i) = tool_search_output_id i"
  "tool_search_output_id (strip_audio_of i) = tool_search_output_id i"
  "client_search_output_id (strip_images_of i) = client_search_output_id i"
  "client_search_output_id (strip_audio_of i) = client_search_output_id i"
  "custom_tool_output_id (strip_images_of i) = custom_tool_output_id i"
  "custom_tool_output_id (strip_audio_of i) = custom_tool_output_id i"
  by (cases i; simp)+

lemma collect_ids_map_env_item:
  "(\<And>i. f (g i) = f i) \<Longrightarrow> collect_ids f (map (map_env_item g) items) = collect_ids f items"
  by (induction items) (simp_all add: collect_ids_def map_env_item_def map_filter_simps split: option.split)

lemma strip_keeps_pairs [simp]:
  "calls_answered (strip_images_when_unsupported ms items) = calls_answered items"
  "calls_answered (strip_audio_when_unsupported ms items) = calls_answered items"
  "outputs_called (strip_images_when_unsupported ms items) = outputs_called items"
  "outputs_called (strip_audio_when_unsupported ms items) = outputs_called items"
  by (simp_all add: strip_images_when_unsupported_def strip_audio_when_unsupported_def calls_answered_def
      outputs_called_def collect_ids_map_env_item)

lemma strip_content_free [simp]:
  "\<not> is_MsgInputImage (strip_image_content c)" "\<not> is_InputImage (strip_image_item d)"
  "\<not> is_MsgInputAudio (strip_audio_content c)" "\<not> is_InputAudio (strip_audio_item d)"
  "is_MsgInputImage (strip_audio_content c) = is_MsgInputImage c" "is_InputImage (strip_audio_item d) = is_InputImage d"
  by (cases c; cases d; simp)+

lemma strip_free [simp]:
  "image_free (strip_images_of i)" "audio_free (strip_audio_of i)"
  "image_free (strip_audio_of i) = image_free i"
  by (cases i; simp add: map_payload_items_def list_all_iff split: output_body.split)+

section \<open>Normalising again\<close>

lemma answered_nothing_missing:
  assumes "calls_answered items" "e \<in> set items"
  shows "missing_for u items e = None"
  using assms unfolding missing_for_def missing_output_None calls_answered_def
  by (auto simp: subset_iff in_collect_ids)

lemma missing_outputs_Nil:
  assumes "calls_answered items"
  shows "missing_outputs_to_insert u items = []"
proof -
  have "(\<lambda>(idx, e). map_option (\<lambda>(report, item). (report, idx, envelope_new item)) (missing_for u items e)) x = None"
    if "x \<in> set (enumerate 0 items)" for x
    using that answered_nothing_missing [OF assms, of "snd x" u] nth_mem [of "fst x" items]
    by (auto simp: in_set_enumerate_eq split: prod.split)
  then show ?thesis unfolding missing_outputs_to_insert_def List.map_filter_def by (auto simp: filter_empty_conv)
qed

lemma ensure_call_outputs_present_id:
  "calls_answered items \<Longrightarrow> ensure_call_outputs_present debug u items = Some items"
  by (simp add: ensure_call_outputs_present_def missing_outputs_Nil)

lemma remove_orphan_outputs_id: "outputs_called items \<Longrightarrow> remove_orphan_outputs debug items = Some items"
  unfolding outputs_called_iff orphan_positions_Nil_iff [symmetric] by (simp add: remove_orphan_outputs_def)

lemma strip_content_id:
  "\<not> is_MsgInputImage c \<Longrightarrow> strip_image_content c = c" "\<not> is_InputImage d \<Longrightarrow> strip_image_item d = d"
  "\<not> is_MsgInputAudio c \<Longrightarrow> strip_audio_content c = c" "\<not> is_InputAudio d \<Longrightarrow> strip_audio_item d = d"
  by (cases c; cases d; simp)+

lemma map_payload_items_id:
  "(\<And>items. body p = BodyItems items \<Longrightarrow> map f items = items) \<Longrightarrow> map_payload_items f p = p"
  by (cases p) (auto simp: map_payload_items_def split: output_body.split)

lemma strip_images_of_id: "image_free i \<Longrightarrow> strip_images_of i = i"
  by (cases i) (auto simp: list_all_iff strip_content_id intro!: map_idI map_payload_items_id)

lemma strip_audio_of_id: "audio_free i \<Longrightarrow> strip_audio_of i = i"
  by (cases i) (auto simp: list_all_iff strip_content_id intro!: map_idI map_payload_items_id)

lemma strip_images_id:
  "ImageModality \<in> set ms \<or> list_all (\<lambda>e. image_free (env_item e)) items \<Longrightarrow>
     strip_images_when_unsupported ms items = items"
  by (auto simp: strip_images_when_unsupported_def map_env_item_def list_all_iff strip_images_of_id intro!: map_idI)

lemma strip_audio_id:
  "AudioModality \<in> set ms \<or> list_all (\<lambda>e. audio_free (env_item e)) items \<Longrightarrow>
     strip_audio_when_unsupported ms items = items"
  by (auto simp: strip_audio_when_unsupported_def map_env_item_def list_all_iff strip_audio_of_id intro!: map_idI)

lemma normalize_history_release:
  "normalize_history debug u ms items = Some out \<Longrightarrow> normalize_history False u ms items = Some out"
  by (auto simp: normalize_history_def ensure_call_outputs_present_eq remove_orphan_outputs_eq
      split: if_splits bind_splits)

lemma normalized_history:
  assumes "normalize_history debug u ms items = Some out"
  shows "calls_answered out \<and> outputs_called out
     \<and> (ImageModality \<in> set ms \<or> list_all (\<lambda>e. image_free (env_item e)) out)
     \<and> (AudioModality \<in> set ms \<or> list_all (\<lambda>e. audio_free (env_item e)) out)"
proof -
  let ?a = "concat (map (with_output u items) items)"
  let ?b = "filter (\<lambda>e. \<not> orphan_in ?a e) ?a"
  have out: "out = strip_audio_when_unsupported ms (strip_images_when_unsupported ms ?b)"
    using normalize_history_release [OF assms]
    by (simp add: normalize_history_def ensure_call_outputs_present_eq remove_orphan_outputs_eq)
  have "calls_answered out" "outputs_called out"
    using without_orphans_answered [OF with_outputs_answered [of u items]]
    by (simp_all add: without_orphans_called out)
  moreover have "ImageModality \<in> set ms \<or> list_all (\<lambda>e. image_free (env_item e)) out"
    "AudioModality \<in> set ms \<or> list_all (\<lambda>e. audio_free (env_item e)) out"
    by (simp_all add: strip_images_when_unsupported_def strip_audio_when_unsupported_def list_all_iff
        map_env_item_def out)
  ultimately show ?thesis by blast
qed

text \<open>C25: In a release build normalisation always returns a conversation in which every call has an output of
  its kind and every output has its call (server-side tool searches apart), without images or audio that the
  model does not support.\<close>

theorem normalize_history_pairs:
  "\<exists>out. normalize_history False uuid_v5 modalities items = Some out \<and> calls_answered out \<and> outputs_called out
     \<and> (ImageModality \<in> set modalities \<or> list_all (\<lambda>e. image_free (env_item e)) out)
     \<and> (AudioModality \<in> set modalities \<or> list_all (\<lambda>e. audio_free (env_item e)) out)"
proof -
  have "\<exists>out. normalize_history False uuid_v5 modalities items = Some out"
    by (simp add: normalize_history_def ensure_call_outputs_present_eq remove_orphan_outputs_eq)
  then show ?thesis using normalized_history by blast
qed

text \<open>A normalised conversation is stable: normalising it again, even in a debug build, panics nowhere and
  changes nothing.\<close>

theorem normalize_history_stable:
  assumes "normalize_history debug uuid_v5 modalities items = Some out"
  shows "normalize_history debug' uuid_v5' modalities out = Some out"
  using normalized_history [OF assms]
  by (simp add: normalize_history_def ensure_call_outputs_present_id remove_orphan_outputs_id strip_images_id
      strip_audio_id)

definition sample_history :: "unit envelope list" where
  "sample_history =
     [envelope_new (Message None ''user'' [MsgInputText ''hi'', MsgInputImage ''data:'' None] None None),
      envelope_new (FunctionCall (Some ''fc_1'') ''shell'' None ''ls'' None ''call1'' None),
      envelope_new (FunctionCallOutput None ''other'' (payload_from_text ''late'') None)]"

lemma sample_history_normalized:
  "normalize_history False id [TextModality] sample_history =
     Some [envelope_new (Message None ''user'' [MsgInputText ''hi'', MsgInputText IMAGE_CONTENT_OMITTED_PLACEHOLDER] None None),
      envelope_new (FunctionCall (Some ''fc_1'') ''shell'' None ''ls'' None ''call1'' None),
      envelope_new (FunctionCallOutput (Some ''fco_fco:fc_1'') ''call1'' (payload_from_text ''aborted'') None)]"
  by code_simp

theorem normalize_history_stable_witness:
  "normalize_history True id [TextModality] (the (normalize_history False id [TextModality] sample_history))
     = Some (the (normalize_history False id [TextModality] sample_history))"
  using normalize_history_stable [OF sample_history_normalized, of True id] sample_history_normalized by simp

end
