(* ===== verification/Context_History.thy ===== *)
theory Context_History
  imports Context_Normalize
begin

text \<open>
  The conversation history (\<open>codex-rs/core/src/context_manager/history.rs\<close>): recording items with truncation,
  the history for a prompt, rollback, removal of the oldest item, and token estimates.  The classification
  of message contents (contextual fragments, model-switch texts, inter-agent messages) is the argument
  \<open>kinds\<close>; JSON serialisation, image decoding and the audio estimate are arguments too.  The reference context
  and the world state are opaque.
\<close>

section \<open>Integers of 64 bits and the product with a double\<close>

definition sat_i64 :: "int \<Rightarrow> int" where
  "sat_i64 x = max (- (2 ^ 63)) (min x i64_max)"

definition wrap_i64 :: "int \<Rightarrow> int" where
  "wrap_i64 x = (x + 2 ^ 63) mod 2 ^ 64 - 2 ^ 63"

definition i64_of_usize :: "nat \<Rightarrow> int" where
  "i64_of_usize n = min (int n) i64_max"

fun bit_len :: "nat \<Rightarrow> nat" where
  "bit_len n = (if n = 0 then 0 else Suc (bit_len (n div 2)))"

declare bit_len.simps [simp del]

text \<open>Rounding to 53 significant bits, to the nearest and to even on ties.\<close>

definition round_f64 :: "nat \<Rightarrow> nat" where
  "round_f64 m =
     (let e = bit_len m - 53; q = m div 2 ^ e; r = m mod 2 ^ e
      in if e = 0 then m
         else if 2 ^ (e - 1) < r \<or> r = 2 ^ (e - 1) \<and> odd q then (q + 1) * 2 ^ e
         else q * 2 ^ e)"

text \<open>\<open>(n as f64 * multiplier).ceil() as usize\<close> for the multiplier \<open>mant / 2 ^ k\<close>.\<close>

definition mul_ceil :: "nat \<Rightarrow> nat \<Rightarrow> nat \<Rightarrow> nat" where
  "mul_ceil mant k n = min usize_max ((round_f64 (round_f64 n * mant) + (2 ^ k - 1)) div 2 ^ k)"

fun policy_mul :: "nat \<Rightarrow> nat \<Rightarrow> truncation_policy \<Rightarrow> truncation_policy" where
  "policy_mul mant k (Bytes n) = Bytes (mul_ceil mant k n)"
| "policy_mul mant k (Tokens n) = Tokens (mul_ceil mant k n)"

text \<open>The double nearest to 1.2.\<close>

definition serialization_budget :: "truncation_policy \<Rightarrow> truncation_policy" where
  "serialization_budget policy = policy_mul 5404319552844595 52 policy"

section \<open>Token usage\<close>

record 'n token_usage =
  input_tokens :: int
  cached_input_tokens :: int
  cache_write_input_tokens :: int
  output_tokens :: int
  reasoning_output_tokens :: int
  total_tokens :: int
  codex_rollout_budget_units :: "'n option"

definition usage_default :: "'n token_usage" where
  "usage_default = \<lparr>input_tokens = 0, cached_input_tokens = 0, cache_write_input_tokens = 0, output_tokens = 0,
     reasoning_output_tokens = 0, total_tokens = 0, codex_rollout_budget_units = None\<rparr>"

definition usage_add_assign :: "'n token_usage \<Rightarrow> 'n token_usage \<Rightarrow> 'n token_usage" where
  "usage_add_assign u v = u\<lparr>input_tokens := wrap_i64 (input_tokens u + input_tokens v),
     cached_input_tokens := wrap_i64 (cached_input_tokens u + cached_input_tokens v),
     cache_write_input_tokens := wrap_i64 (cache_write_input_tokens u + cache_write_input_tokens v),
     output_tokens := wrap_i64 (output_tokens u + output_tokens v),
     reasoning_output_tokens := wrap_i64 (reasoning_output_tokens u + reasoning_output_tokens v),
     total_tokens := wrap_i64 (total_tokens u + total_tokens v)\<rparr>"

record 'n token_usage_info =
  total_token_usage :: "'n token_usage"
  last_token_usage :: "'n token_usage"
  model_context_window :: "int option"

definition append_last_usage :: "'n token_usage \<Rightarrow> 'n token_usage_info \<Rightarrow> 'n token_usage_info" where
  "append_last_usage u info =
     info\<lparr>total_token_usage := usage_add_assign (total_token_usage info) u, last_token_usage := u\<rparr>"

definition new_or_append ::
    "'n token_usage_info option \<Rightarrow> 'n token_usage option \<Rightarrow> int option \<Rightarrow> 'n token_usage_info option" where
  "new_or_append info last_usage window =
     (if info = None \<and> last_usage = None then None
      else
        (let i0 = (case info of Some i \<Rightarrow> i
             | None \<Rightarrow> \<lparr>total_token_usage = usage_default, last_token_usage = usage_default,
                 model_context_window = window\<rparr>);
             i1 = (case last_usage of Some u \<Rightarrow> append_last_usage u i0 | None \<Rightarrow> i0)
         in Some (case window of Some w \<Rightarrow> i1\<lparr>model_context_window := Some w\<rparr> | None \<Rightarrow> i1)))"

definition fill_to_context_window :: "int \<Rightarrow> 'n token_usage_info \<Rightarrow> 'n token_usage_info" where
  "fill_to_context_window window info =
     (let delta = max (wrap_i64 (window - total_tokens (total_token_usage info))) 0
      in \<lparr>total_token_usage = usage_default\<lparr>total_tokens := window\<rparr>,
          last_token_usage = usage_default\<lparr>total_tokens := delta\<rparr>,
          model_context_window = Some window\<rparr>)"

definition full_context_window :: "int \<Rightarrow> 'n token_usage_info" where
  "full_context_window window =
     fill_to_context_window window \<lparr>total_token_usage = usage_default, last_token_usage = usage_default,
       model_context_window = Some window\<rparr>"

section \<open>The manager\<close>

record ('j, 'r, 'w, 'n) context_manager =
  cm_items :: "'j envelope list"
  history_version :: nat
  token_info :: "'n token_usage_info option"
  reference_context_item :: "'r option"
  world_state_baseline :: "'w option"

definition context_new :: "('j, 'r, 'w, 'n) context_manager" where
  "context_new = \<lparr>cm_items = [], history_version = 0, token_info = new_or_append None None None,
     reference_context_item = None, world_state_baseline = None\<rparr>"

definition set_token_usage_full :: "int \<Rightarrow> ('j, 'r, 'w, 'n) context_manager \<Rightarrow> ('j, 'r, 'w, 'n) context_manager" where
  "set_token_usage_full window cm =
     cm\<lparr>token_info := Some (case token_info cm of
          Some info \<Rightarrow> fill_to_context_window window info
        | None \<Rightarrow> full_context_window window)\<rparr>"

definition update_token_info ::
    "'n token_usage \<Rightarrow> int option \<Rightarrow> ('j, 'r, 'w, 'n) context_manager \<Rightarrow> ('j, 'r, 'w, 'n) context_manager" where
  "update_token_info usage window cm = cm\<lparr>token_info := new_or_append (token_info cm) (Some usage) window\<rparr>"

text \<open>
  \<open>update_world_state\<close>: the fragments rendered against the old baseline, the full state or a patch for the
  rollout, and the new baseline.
\<close>

definition update_world_state ::
    "('w option \<Rightarrow> 'j response_item list \<Rightarrow> 'f list) \<Rightarrow> ('w \<Rightarrow> 'i) \<Rightarrow> ('w \<Rightarrow> 'w \<Rightarrow> 'i option) \<Rightarrow> 'w \<Rightarrow>
       ('j, 'r, 'w, 'n) context_manager \<Rightarrow> 'f list \<times> 'i option \<times> ('j, 'r, 'w, 'n) context_manager" where
  "update_world_state render_diff full_item merge_patch snapshot cm =
     (render_diff (world_state_baseline cm) (map env_item (cm_items cm)),
      (case world_state_baseline cm of
         None \<Rightarrow> Some (full_item snapshot)
       | Some previous \<Rightarrow> merge_patch snapshot previous),
      cm\<lparr>world_state_baseline := Some snapshot\<rparr>)"

section \<open>Recording\<close>

fun is_api_message :: "'j response_item \<Rightarrow> bool" where
  "is_api_message (Message _ role _ _ _) = (role \<noteq> ''system'')"
| "is_api_message CompactionTrigger = False"
| "is_api_message OtherItem = False"
| "is_api_message _ = True"

definition truncate_function_output_payload ::
    "(str \<Rightarrow> nat) \<Rightarrow> output_payload \<Rightarrow> truncation_policy \<Rightarrow> output_payload" where
  "truncate_function_output_payload audio_tokens out policy =
     \<lparr>body = (case body out of
          BodyText content \<Rightarrow> BodyText (truncate_text content policy)
        | BodyItems items \<Rightarrow> BodyItems (truncate_function_output_items_with_policy items policy audio_tokens)),
      success = success out\<rparr>"

fun process_item :: "(str \<Rightarrow> nat) \<Rightarrow> truncation_policy \<Rightarrow> 'j response_item \<Rightarrow> 'j response_item" where
  "process_item audio_tokens policy (FunctionCallOutput i c out m) =
     FunctionCallOutput i c (truncate_function_output_payload audio_tokens out (serialization_budget policy)) m"
| "process_item audio_tokens policy (CustomToolCallOutput i c n out m) =
     CustomToolCallOutput i c n (truncate_function_output_payload audio_tokens out (serialization_budget policy)) m"
| "process_item audio_tokens policy item = item"

definition record_annotated_items ::
    "(str \<Rightarrow> nat) \<Rightarrow> 'j envelope list \<Rightarrow> truncation_policy \<Rightarrow>
       ('j, 'r, 'w, 'n) context_manager \<Rightarrow> ('j, 'r, 'w, 'n) context_manager" where
  "record_annotated_items audio_tokens items policy cm =
     cm\<lparr>cm_items := cm_items cm @
        map (map_env_item (process_item audio_tokens policy)) (filter (\<lambda>e. is_api_message (env_item e)) items)\<rparr>"

definition record_items ::
    "(str \<Rightarrow> nat) \<Rightarrow> 'j response_item list \<Rightarrow> truncation_policy \<Rightarrow>
       ('j, 'r, 'w, 'n) context_manager \<Rightarrow> ('j, 'r, 'w, 'n) context_manager" where
  "record_items audio_tokens items policy cm =
     record_annotated_items audio_tokens (map envelope_new items) policy cm"

definition for_prompt ::
    "bool \<Rightarrow> (str \<Rightarrow> str) \<Rightarrow> input_modality list \<Rightarrow> ('j, 'r, 'w, 'n) context_manager \<Rightarrow> 'j response_item list option" where
  "for_prompt debug uuid_v5 modalities cm =
     map_option (map env_item) (normalize_history debug uuid_v5 modalities (cm_items cm))"

section \<open>Removal and rollback\<close>

definition replace_annotated ::
    "'j envelope list \<Rightarrow> ('j, 'r, 'w, 'n) context_manager \<Rightarrow> ('j, 'r, 'w, 'n) context_manager" where
  "replace_annotated items cm =
     cm\<lparr>cm_items := items, history_version := saturating_add (history_version cm) 1, world_state_baseline := None\<rparr>"

definition remove_first_item :: "('j, 'r, 'w, 'n) context_manager \<Rightarrow> ('j, 'r, 'w, 'n) context_manager" where
  "remove_first_item cm =
     (case cm_items cm of
        [] \<Rightarrow> cm
      | removed # items \<Rightarrow>
          cm\<lparr>cm_items := remove_corresponding_for items (env_item removed), world_state_baseline := None\<rparr>)"

record content_kinds =
  contextual_user :: "message_content list \<Rightarrow> bool"
  contextual_dev :: "message_content list \<Rightarrow> bool"
  non_contextual_dev :: "message_content list \<Rightarrow> bool"
  inter_agent :: "message_content list \<Rightarrow> bool"
  model_switch_text :: "str \<Rightarrow> bool"

fun is_user_turn_boundary :: "content_kinds \<Rightarrow> 'j response_item \<Rightarrow> bool" where
  "is_user_turn_boundary kinds (AgentMessage _ _ _ _ _) = True"
| "is_user_turn_boundary kinds (Message _ role content _ _) =
     (role = ''user'' \<and> \<not> contextual_user kinds content \<or> role = ''assistant'' \<and> inter_agent kinds content)"
| "is_user_turn_boundary kinds _ = False"

definition user_message_positions :: "content_kinds \<Rightarrow> 'j envelope list \<Rightarrow> nat list" where
  "user_message_positions kinds items =
     map fst (filter (\<lambda>(_, e). is_user_turn_boundary kinds (env_item e)) (enumerate 0 items))"

text \<open>
  The walk backwards from the cut; the flag says whether the reference context must be cleared.
\<close>

fun trim_pre_turn_context_updates ::
    "content_kinds \<Rightarrow> 'j envelope list \<Rightarrow> nat \<Rightarrow> nat \<Rightarrow> nat \<times> bool" where
  "trim_pre_turn_context_updates kinds snapshot first_idx 0 = (0, False)"
| "trim_pre_turn_context_updates kinds snapshot first_idx (Suc cut_idx) =
     (if Suc cut_idx \<le> first_idx then (Suc cut_idx, False)
      else case env_item (snapshot ! cut_idx) of
             Message _ role content _ _ \<Rightarrow>
               if role = ''developer'' \<and> contextual_dev kinds content then
                 (let (c, clear) = trim_pre_turn_context_updates kinds snapshot first_idx cut_idx
                  in (c, clear \<or> non_contextual_dev kinds content))
               else if role = ''user'' \<and> contextual_user kinds content
               then trim_pre_turn_context_updates kinds snapshot first_idx cut_idx
               else (Suc cut_idx, False)
           | _ \<Rightarrow> (Suc cut_idx, False))"

fun is_model_switch :: "content_kinds \<Rightarrow> message_content \<Rightarrow> bool" where
  "is_model_switch kinds (MsgInputText t) = model_switch_text kinds t"
| "is_model_switch kinds _ = False"

text \<open>\<open>retain_mut\<close>: developer messages of the first turn lose their model-switch texts; empty ones are dropped.\<close>

fun retain_developer :: "content_kinds \<Rightarrow> str \<Rightarrow> 'j envelope \<Rightarrow> 'j envelope option" where
  "retain_developer kinds turn e =
     (case env_item e of
        Message i role content phase m \<Rightarrow>
          if item_turn_id (env_item e) = Some turn \<and> role = ''developer'' then
            (let content' = filter (\<lambda>c. \<not> is_model_switch kinds c) content
             in if content' = [] then None else Some (e\<lparr>env_item := Message i role content' phase m\<rparr>))
          else Some e
      | _ \<Rightarrow> Some e)"

definition drop_last_n_user_turns ::
    "content_kinds \<Rightarrow> nat \<Rightarrow> ('j, 'r, 'w, 'n) context_manager \<Rightarrow> ('j, 'r, 'w, 'n) context_manager" where
  "drop_last_n_user_turns kinds num_turns cm =
     (if num_turns = 0 then cm
      else
        (let snapshot = cm_items cm; positions = user_message_positions kinds snapshot
         in case positions of
              [] \<Rightarrow> replace_annotated snapshot cm
            | first_idx # _ \<Rightarrow>
                (let cut0 = (if length positions \<le> num_turns then first_idx
                             else positions ! (length positions - num_turns));
                     (cut_idx, clear) = trim_pre_turn_context_updates kinds snapshot first_idx cut0;
                     retained = take cut_idx snapshot;
                     retained' = (case (cut_idx = first_idx, item_turn_id (env_item (snapshot ! first_idx))) of
                         (True, Some turn) \<Rightarrow> List.map_filter (retain_developer kinds turn) retained
                       | _ \<Rightarrow> retained);
                     cm' = (if clear then cm\<lparr>reference_context_item := None\<rparr> else cm)
                 in replace_annotated retained' cm')))"

section \<open>Token estimates\<close>

definition estimate_reasoning_length :: "nat \<Rightarrow> nat" where
  "estimate_reasoning_length encoded_len = saturating_mul encoded_len 3 div 4 - 650"

definition estimate_encrypted_function_output_length :: "nat \<Rightarrow> nat" where
  "estimate_encrypted_function_output_length encoded_len = (saturating_mul encoded_len 9 + 15) div 16"

text \<open>\<open>s.get(..n)\<close> and \<open>eq_ignore_ascii_case\<close>.\<close>

definition str_get_to :: "str \<Rightarrow> nat \<Rightarrow> str option" where
  "str_get_to s n = (if n \<le> length s \<and> is_char_boundary s n then Some (take n s) else None)"

definition eq_ignore_ascii_case :: "str \<Rightarrow> str \<Rightarrow> bool" where
  "eq_ignore_ascii_case a b \<longleftrightarrow> to_ascii_lowercase a = to_ascii_lowercase b"

definition has_prefix_ignore_case :: "str \<Rightarrow> str \<Rightarrow> bool" where
  "has_prefix_ignore_case s p = (case str_get_to s (length p) of None \<Rightarrow> False | Some q \<Rightarrow> eq_ignore_ascii_case q p)"

definition parse_base64_data_url :: "str \<Rightarrow> str \<Rightarrow> str option" where
  "parse_base64_data_url url media_type_prefix =
     (if \<not> has_prefix_ignore_case url ''data:'' then None
      else
        (case split_once (CHR '','') url of
           None \<Rightarrow> None
         | Some (metadata, payload) \<Rightarrow>
             (let parts = split_on (CHR '';'') (drop (length ''data:'') metadata)
              in if \<not> has_prefix_ignore_case (hd parts) media_type_prefix then None
                 else if \<not> list_ex (\<lambda>part. eq_ignore_ascii_case part ''base64'') (tl parts) then None
                 else Some payload)))"

definition parse_base64_image_data_url :: "str \<Rightarrow> str option" where
  "parse_base64_image_data_url url = parse_base64_data_url url ''image/''"

definition parse_base64_audio_data_url :: "str \<Rightarrow> str option" where
  "parse_base64_audio_data_url url = parse_base64_data_url url ''audio/''"

definition RESIZED_IMAGE_BYTES_ESTIMATE :: int where
  "RESIZED_IMAGE_BYTES_ESTIMATE = 7373"

definition ORIGINAL_IMAGE_PATCH_SIZE :: int where
  "ORIGINAL_IMAGE_PATCH_SIZE = 32"

definition ORIGINAL_IMAGE_MAX_PATCHES :: nat where
  "ORIGINAL_IMAGE_MAX_PATCHES = 10000"

text \<open>The size of the decoded image is an argument: base64 and image decoding are third-party code.\<close>

definition estimate_original_image_bytes :: "(str \<Rightarrow> (nat \<times> nat) option) \<Rightarrow> str \<Rightarrow> int option" where
  "estimate_original_image_bytes image_size url =
     Option.bind (parse_base64_image_data_url url) (\<lambda>payload.
       map_option (\<lambda>(width, height).
         let patches = (\<lambda>n. sat_i64 (int n + (ORIGINAL_IMAGE_PATCH_SIZE - 1)) div ORIGINAL_IMAGE_PATCH_SIZE);
             patch_count = min (nat (sat_i64 (patches width * patches height))) ORIGINAL_IMAGE_MAX_PATCHES
         in i64_of_usize (approx_bytes_for_tokens patch_count))
         (image_size payload))"

definition estimate_image_bytes :: "(str \<Rightarrow> (nat \<times> nat) option) \<Rightarrow> str \<Rightarrow> image_detail option \<Rightarrow> int" where
  "estimate_image_bytes image_size url detail =
     (if detail = Some DetailOriginal
      then (case estimate_original_image_bytes image_size url of Some n \<Rightarrow> n | None \<Rightarrow> RESIZED_IMAGE_BYTES_ESTIMATE)
      else RESIZED_IMAGE_BYTES_ESTIMATE)"

text \<open>The two running sums of an adjustment over the payload and replacement sizes found in an item.\<close>

definition accumulate_adjustment :: "(int \<times> int) list \<Rightarrow> int \<times> int" where
  "accumulate_adjustment entries =
     foldl (\<lambda>(p, r) (dp, dr). (sat_i64 (p + dp), sat_i64 (r + dr))) (0, 0) entries"

fun item_images :: "'j response_item \<Rightarrow> (str \<times> image_detail option) list" where
  "item_images (Message _ _ content _ _) =
     List.map_filter (\<lambda>c. case c of MsgInputImage u d \<Rightarrow> Some (u, d) | _ \<Rightarrow> None) content"
| "item_images (FunctionCallOutput _ _ out _) =
     (case body out of BodyItems items \<Rightarrow> List.map_filter (\<lambda>c. case c of InputImage u d \<Rightarrow> Some (u, d) | _ \<Rightarrow> None) items
      | BodyText _ \<Rightarrow> [])"
| "item_images (CustomToolCallOutput _ _ _ out _) =
     (case body out of BodyItems items \<Rightarrow> List.map_filter (\<lambda>c. case c of InputImage u d \<Rightarrow> Some (u, d) | _ \<Rightarrow> None) items
      | BodyText _ \<Rightarrow> [])"
| "item_images _ = []"

fun item_audios :: "'j response_item \<Rightarrow> str list" where
  "item_audios (Message _ _ content _ _) =
     List.map_filter (\<lambda>c. case c of MsgInputAudio u \<Rightarrow> Some u | _ \<Rightarrow> None) content"
| "item_audios (FunctionCallOutput _ _ out _) =
     (case body out of BodyItems items \<Rightarrow> List.map_filter audio_url items | BodyText _ \<Rightarrow> [])"
| "item_audios (CustomToolCallOutput _ _ _ out _) =
     (case body out of BodyItems items \<Rightarrow> List.map_filter audio_url items | BodyText _ \<Rightarrow> [])"
| "item_audios _ = []"

fun item_encrypted :: "'j response_item \<Rightarrow> str list" where
  "item_encrypted (FunctionCallOutput _ _ out _) =
     (case body out of BodyItems items \<Rightarrow> List.map_filter (\<lambda>c. case c of EncryptedContent x \<Rightarrow> Some x | _ \<Rightarrow> None) items
      | BodyText _ \<Rightarrow> [])"
| "item_encrypted (AgentMessage _ _ _ content _) =
     List.map_filter (\<lambda>c. case c of AgentEncryptedContent x \<Rightarrow> Some x | _ \<Rightarrow> None) content"
| "item_encrypted _ = []"

record 'j estimators =
  json_len :: "'j response_item \<Rightarrow> nat option"
  image_size :: "str \<Rightarrow> (nat \<times> nat) option"
  audio_tokens :: "str \<Rightarrow> nat"

definition image_data_url_estimate_adjustment :: "'j estimators \<Rightarrow> 'j response_item \<Rightarrow> int \<times> int" where
  "image_data_url_estimate_adjustment est item =
     accumulate_adjustment (List.map_filter (\<lambda>(url, detail).
       map_option (\<lambda>payload. (i64_of_usize (length payload), estimate_image_bytes (image_size est) url detail))
         (parse_base64_image_data_url url)) (item_images item))"

definition audio_data_url_estimate_adjustment :: "'j estimators \<Rightarrow> 'j response_item \<Rightarrow> int \<times> int" where
  "audio_data_url_estimate_adjustment est item =
     accumulate_adjustment (List.map_filter (\<lambda>url.
       map_option (\<lambda>payload. (i64_of_usize (length payload),
           i64_of_usize (approx_bytes_for_tokens (audio_tokens est url))))
         (parse_base64_audio_data_url url)) (item_audios item))"

definition encrypted_function_output_estimate_adjustment :: "'j response_item \<Rightarrow> int \<times> int" where
  "encrypted_function_output_estimate_adjustment item =
     accumulate_adjustment (map (\<lambda>x. (i64_of_usize (length x),
       i64_of_usize (estimate_encrypted_function_output_length (length x)))) (item_encrypted item))"

definition estimate_serialized_bytes :: "'j estimators \<Rightarrow> 'j response_item \<Rightarrow> int" where
  "estimate_serialized_bytes est item =
     (let raw0 = (case json_len est item of Some n \<Rightarrow> i64_of_usize n | None \<Rightarrow> 0);
          (image_payload, image_replacement) = image_data_url_estimate_adjustment est item;
          (audio_payload, audio_replacement) = audio_data_url_estimate_adjustment est item;
          (enc_payload, enc_replacement) = encrypted_function_output_estimate_adjustment item;
          raw1 = sat_i64 (sat_i64 (sat_i64 (sat_i64 (raw0 - image_payload) + image_replacement) - audio_payload)
            + audio_replacement)
      in sat_i64 (sat_i64 (raw1 - enc_payload) + enc_replacement))"

fun estimate_response_item_model_visible_bytes :: "'j estimators \<Rightarrow> 'j response_item \<Rightarrow> int" where
  "estimate_response_item_model_visible_bytes est (Reasoning _ _ _ (Some content) _) =
     i64_of_usize (estimate_reasoning_length (length content))"
| "estimate_response_item_model_visible_bytes est (Compaction _ content _) =
     i64_of_usize (estimate_reasoning_length (length content))"
| "estimate_response_item_model_visible_bytes est (ContextCompaction _ (Some content) _) =
     i64_of_usize (estimate_reasoning_length (length content))"
| "estimate_response_item_model_visible_bytes est item = estimate_serialized_bytes est item"

definition estimate_item_token_count :: "'j estimators \<Rightarrow> 'j response_item \<Rightarrow> int" where
  "estimate_item_token_count est item =
     approx_tokens_from_byte_count_i64 (estimate_response_item_model_visible_bytes est item)"

definition sum_estimates :: "'j estimators \<Rightarrow> 'j response_item list \<Rightarrow> int" where
  "sum_estimates est items = foldl (\<lambda>acc item. sat_i64 (acc + estimate_item_token_count est item)) 0 items"

definition estimate_token_count_with_base_instructions ::
    "'j estimators \<Rightarrow> str \<Rightarrow> ('j, 'r, 'w, 'n) context_manager \<Rightarrow> int option" where
  "estimate_token_count_with_base_instructions est base_text cm =
     Some (sat_i64 (i64_of_usize (approx_token_count base_text) + sum_estimates est (map env_item (cm_items cm))))"

fun is_model_generated_item :: "'j response_item \<Rightarrow> bool" where
  "is_model_generated_item (Message _ role _ _ _) = (role = ''assistant'')"
| "is_model_generated_item (Reasoning _ _ _ _ _) = True"
| "is_model_generated_item (FunctionCall _ _ _ _ _ _ _) = True"
| "is_model_generated_item (ToolSearchCall _ _ _ _ _ _) = True"
| "is_model_generated_item (WebSearchCall _ _ _ _) = True"
| "is_model_generated_item (ImageGenerationCall _ _ _ _ _) = True"
| "is_model_generated_item (CustomToolCall _ _ _ _ _ _ _) = True"
| "is_model_generated_item (LocalShellCall _ _ _ _ _) = True"
| "is_model_generated_item (Compaction _ _ _) = True"
| "is_model_generated_item (ContextCompaction _ _ _) = True"
| "is_model_generated_item _ = False"

text \<open>\<open>Iterator::rposition\<close>.\<close>

fun rposition :: "('a \<Rightarrow> bool) \<Rightarrow> 'a list \<Rightarrow> nat option" where
  "rposition P [] = None"
| "rposition P (x # xs) =
     (case rposition P xs of Some i \<Rightarrow> Some (Suc i) | None \<Rightarrow> if P x then Some 0 else None)"

definition items_after_last_model_generated_item :: "('j, 'r, 'w, 'n) context_manager \<Rightarrow> 'j response_item list" where
  "items_after_last_model_generated_item cm =
     map env_item (drop (case rposition (\<lambda>e. is_model_generated_item (env_item e)) (cm_items cm) of
         Some i \<Rightarrow> i + 1
       | None \<Rightarrow> length (cm_items cm)) (cm_items cm))"

fun has_encrypted_reasoning :: "'j response_item \<Rightarrow> bool" where
  "has_encrypted_reasoning (Reasoning _ _ _ (Some _) _) = True"
| "has_encrypted_reasoning _ = False"

definition get_non_last_reasoning_items_tokens ::
    "'j estimators \<Rightarrow> content_kinds \<Rightarrow> ('j, 'r, 'w, 'n) context_manager \<Rightarrow> int" where
  "get_non_last_reasoning_items_tokens est kinds cm =
     (case rposition (\<lambda>e. is_user_turn_boundary kinds (env_item e)) (cm_items cm) of
        None \<Rightarrow> 0
      | Some last_user \<Rightarrow> sum_estimates est (filter has_encrypted_reasoning (map env_item (take last_user (cm_items cm)))))"

definition get_total_token_usage ::
    "'j estimators \<Rightarrow> content_kinds \<Rightarrow> bool \<Rightarrow> ('j, 'r, 'w, 'n) context_manager \<Rightarrow> int" where
  "get_total_token_usage est kinds server_reasoning_included cm =
     (let last_tokens = (case token_info cm of Some info \<Rightarrow> total_tokens (last_token_usage info) | None \<Rightarrow> 0);
          after = sum_estimates est (items_after_last_model_generated_item cm)
      in if server_reasoning_included then sat_i64 (last_tokens + after)
         else sat_i64 (sat_i64 (last_tokens + get_non_last_reasoning_items_tokens est kinds cm) + after))"

section \<open>Rollback\<close>

abbreviation turn_count :: "content_kinds \<Rightarrow> 'j envelope list \<Rightarrow> nat" where
  "turn_count kinds items \<equiv> length (filter (\<lambda>e. is_user_turn_boundary kinds (env_item e)) items)"

lemma enumerate_positions_length: "length (filter (\<lambda>(_, e). P e) (enumerate n xs)) = length (filter P xs)"
  by (induction xs arbitrary: n) auto

lemma user_message_positions_length [simp]:
  "length (user_message_positions kinds items) = turn_count kinds items"
  by (simp add: user_message_positions_def enumerate_positions_length)

lemma enumerate_positions_nth:
  "i < length (filter P xs) \<Longrightarrow>
     (let q = map fst (filter (\<lambda>(_, e). P e) (enumerate n xs)) ! i
      in n \<le> q \<and> q - n < length xs \<and> P (xs ! (q - n)) \<and> length (filter P (take (q - n) xs)) = i)"
proof (induction xs arbitrary: n i)
  case (Cons x xs)
  show ?case
  proof (cases "P x \<and> i = 0")
    case False
    define j where "j = (if P x then i - 1 else i)"
    define q where "q = map fst (filter (\<lambda>(_, e). P e) (enumerate (Suc n) xs)) ! j"
    have j: "j < length (filter P xs)" using Cons.prems False by (auto simp: j_def split: if_splits)
    have q: "Suc n \<le> q" "q - Suc n < length xs" "P (xs ! (q - Suc n))" "length (filter P (take (q - Suc n) xs)) = j"
      using Cons.IH [OF j, of "Suc n"] by (auto simp: q_def Let_def)
    have "map fst (filter (\<lambda>(_, e). P e) (enumerate n (x # xs))) ! i = q"
      using False by (cases i) (auto simp: q_def j_def)
    moreover have "q - n = Suc (q - Suc n)" using q(1) by simp
    ultimately show ?thesis using q False by (auto simp: j_def Let_def)
  qed simp
qed simp

lemma user_message_positions_nth:
  assumes "i < turn_count kinds items"
  shows "user_message_positions kinds items ! i < length items"
    "is_user_turn_boundary kinds (env_item (items ! (user_message_positions kinds items ! i)))"
    "turn_count kinds (take (user_message_positions kinds items ! i) items) = i"
  using enumerate_positions_nth [OF assms, of 0] by (simp_all add: user_message_positions_def Let_def)

lemma filter_take_Suc:
  "n < length xs \<Longrightarrow> \<not> P (xs ! n) \<Longrightarrow> filter P (take (Suc n) xs) = filter P (take n xs)"
  by (simp add: take_Suc_conv_app_nth)

text \<open>The walk stops at the first turn and passes over no boundary.\<close>

lemma trim_pre_turn_context_updates_spec:
  "c \<le> length s \<Longrightarrow> trim_pre_turn_context_updates kinds s f c = (c', b) \<Longrightarrow>
     c' \<le> c \<and> turn_count kinds (take c' s) = turn_count kinds (take c s)
   \<and> (f < c \<longrightarrow> is_user_turn_boundary kinds (env_item (s ! f)) \<longrightarrow> f < c') \<and> (c \<le> f \<longrightarrow> c' = c)"
proof (induction kinds s f c arbitrary: c' b rule: trim_pre_turn_context_updates.induct)
  case (2 kinds s f k)
  show ?case
  proof (cases "f < c' \<and> c' = Suc k \<or> Suc k \<le> f")
    case True
    then show ?thesis using "2.prems"(2) by auto
  next
    case False
    then obtain i role content ph m where msg: "env_item (s ! k) = Message i role content ph m"
        and role: "role = ''developer'' \<and> contextual_dev kinds content \<or> role = ''user'' \<and> contextual_user kinds content"
      using "2.prems"(2) by (auto split: response_item.splits if_splits)
    then have no: "\<not> is_user_turn_boundary kinds (env_item (s ! k))" by auto
    obtain b' where rec: "trim_pre_turn_context_updates kinds s f k = (c', b')"
      using "2.prems"(2) False msg role by (auto split: if_splits prod.splits)
    have IH: "c' \<le> k \<and> turn_count kinds (take c' s) = turn_count kinds (take k s)
        \<and> (f < k \<longrightarrow> is_user_turn_boundary kinds (env_item (s ! f)) \<longrightarrow> f < c') \<and> (k \<le> f \<longrightarrow> c' = k)"
    proof (cases "role = ''developer'' \<and> contextual_dev kinds content")
      case True
      then show ?thesis using "2.IH"(1) [OF _ msg True _ rec] False "2.prems"(1) by simp
    next
      case dev: False
      then have "role = ''user'' \<and> contextual_user kinds content" using role by blast
      then show ?thesis using "2.IH"(2) [OF _ msg dev _ _ rec] False "2.prems"(1) by simp
    qed
    moreover have "turn_count kinds (take (Suc k) s) = turn_count kinds (take k s)"
      using no "2.prems"(1) by (simp add: filter_take_Suc)
    moreover have "f < k" if "f < Suc k" "is_user_turn_boundary kinds (env_item (s ! f))"
      using that no by (cases "f = k") auto
    ultimately show ?thesis using False by auto
  qed
qed auto

lemma retain_developer_no_turn:
  assumes "list_all (\<lambda>e. \<not> is_user_turn_boundary kinds (env_item e)) items"
  shows "turn_count kinds (List.map_filter (retain_developer kinds turn) items) = 0"
proof -
  have "\<not> is_user_turn_boundary kinds (env_item y)"
    if "retain_developer kinds turn x = Some y" "\<not> is_user_turn_boundary kinds (env_item x)" for x y
    using that by (auto simp: Let_def split: response_item.splits if_splits)
  then show ?thesis using assms by (fastforce simp: set_map_filter list_all_iff filter_empty_conv)
qed

lemma drop_last_n_user_turns_cut:
  assumes "0 < n" "0 < turn_count kinds (cm_items cm)"
  shows "\<exists>k items. cm_items (drop_last_n_user_turns kinds n cm) = items \<and> k \<le> length (cm_items cm)
    \<and> turn_count kinds (take k (cm_items cm)) = turn_count kinds (cm_items cm) - n
    \<and> (items = take k (cm_items cm)
       \<or> turn_count kinds (cm_items cm) \<le> n \<and> (\<exists>turn. items = List.map_filter (retain_developer kinds turn) (take k (cm_items cm))))"
proof -
  let ?s = "cm_items cm" and ?ps = "user_message_positions kinds (cm_items cm)"
  let ?m = "turn_count kinds (cm_items cm)"
  define p where "p = ?ps ! (?m - n)"
  define f where "f = ?ps ! 0"
  obtain r where cons: "?ps = f # r" using assms(2) user_message_positions_length [of kinds ?s]
    by (cases ?ps) (auto simp: f_def)
  have i: "?m - n < ?m" using assms by simp
  note P = user_message_positions_nth [OF i, folded p_def]
  note F = user_message_positions_nth [OF assms(2), folded f_def]
  have cut0: "(if length (f # r) \<le> n then f else (f # r) ! (length (f # r) - n)) = p"
    unfolding cons [symmetric] user_message_positions_length by (simp add: p_def f_def)
  obtain c clear where t: "trim_pre_turn_context_updates kinds ?s f p = (c, clear)"
    by (cases "trim_pre_turn_context_updates kinds ?s f p")
  have T: "c \<le> p" "turn_count kinds (take c ?s) = ?m - n" "p \<le> f \<longrightarrow> c = p" "f < p \<longrightarrow> f < c"
    using trim_pre_turn_context_updates_spec [OF _ t] P F by auto
  have cf: "?m \<le> n" if "c = f"
  proof (rule ccontr)
    assume "\<not> ?m \<le> n"
    then have "turn_count kinds (take p ?s) \<noteq> turn_count kinds (take f ?s)" using P(3) F(3) by simp
    then show False using T that by (metis linorder_not_le nat_neq_iff)
  qed
  have "drop_last_n_user_turns kinds n cm = replace_annotated
      (case (c = f, item_turn_id (env_item (?s ! f))) of
         (True, Some turn) \<Rightarrow> List.map_filter (retain_developer kinds turn) (take c ?s)
       | _ \<Rightarrow> take c ?s) (if clear then cm\<lparr>reference_context_item := None\<rparr> else cm)"
    unfolding drop_last_n_user_turns_def Let_def cons list.case cut0 t prod.case using assms(1) by simp
  then have "cm_items (drop_last_n_user_turns kinds n cm) =
      (case (c = f, item_turn_id (env_item (?s ! f))) of
         (True, Some turn) \<Rightarrow> List.map_filter (retain_developer kinds turn) (take c ?s)
       | _ \<Rightarrow> take c ?s)" by (simp add: replace_annotated_def)
  then show ?thesis using T(1,2) P(1) cf
    by (cases "c = f") (auto intro!: exI [of _ c] split: option.splits)
qed

text \<open>Rolling back \<open>n\<close> turns leaves exactly \<open>n\<close> turns fewer (none if there were not more), and when turns
  remain the history is a prefix of what it was.\<close>

theorem drop_last_n_user_turns_count:
  "turn_count kinds (cm_items (drop_last_n_user_turns kinds n cm)) = turn_count kinds (cm_items cm) - n
   \<and> (turn_count kinds (cm_items cm) \<le> n \<or> prefix (cm_items (drop_last_n_user_turns kinds n cm)) (cm_items cm))"
proof (cases "0 < n \<and> 0 < turn_count kinds (cm_items cm)")
  case True
  obtain k items where k: "cm_items (drop_last_n_user_turns kinds n cm) = items"
      "turn_count kinds (take k (cm_items cm)) = turn_count kinds (cm_items cm) - n"
      "items = take k (cm_items cm) \<or> turn_count kinds (cm_items cm) \<le> n
         \<and> (\<exists>turn. items = List.map_filter (retain_developer kinds turn) (take k (cm_items cm)))"
    using drop_last_n_user_turns_cut [of n kinds cm] True by blast
  then show ?thesis
    using retain_developer_no_turn [of kinds "take k (cm_items cm)"]
    by (auto simp: filter_empty_conv list_all_iff take_is_prefix)
next
  case False
  then have "n = 0 \<or> user_message_positions kinds (cm_items cm) = []"
    unfolding length_0_conv [symmetric] user_message_positions_length by simp
  then have "cm_items (drop_last_n_user_turns kinds n cm) = cm_items cm"
    by (auto simp: drop_last_n_user_turns_def replace_annotated_def)
  then show ?thesis using False by auto
qed

section \<open>Removing the oldest item\<close>

text \<open>Every call id and every output id of a kind occurs once.\<close>

definition ids_distinct :: "'j envelope list \<Rightarrow> bool" where
  "ids_distinct items \<longleftrightarrow>
     list_all (\<lambda>f. distinct (collect_ids f items))
       [function_call_id, function_output_id, tool_search_call_id, tool_search_output_id,
        custom_tool_call_id, custom_tool_output_id]"

lemma collect_ids_Cons:
  "collect_ids f (e # es) = (case f (env_item e) of None \<Rightarrow> collect_ids f es | Some c \<Rightarrow> c # collect_ids f es)"
  by (simp add: collect_ids_def map_filter_simps split: option.split)

lemma collect_ids_Nil [simp]: "collect_ids f [] = []"
  by (simp add: collect_ids_def map_filter_simps)

lemma collect_ids_remove_same:
  "distinct (collect_ids f es) \<Longrightarrow>
     collect_ids f (remove_first_matching (\<lambda>i. f i = Some c) es) = remove1 c (collect_ids f es)"
  by (induction es) (auto simp: collect_ids_Cons split: option.splits)

text \<open>An item has an id of one kind only.\<close>

definition excludes :: "('j response_item \<Rightarrow> str option) \<Rightarrow> ('j response_item \<Rightarrow> str option) \<Rightarrow> bool" where
  "excludes f g \<longleftrightarrow> (\<forall>i. f i \<noteq> None \<longrightarrow> g i = None)"

lemma collect_ids_remove_other:
  "excludes f g \<Longrightarrow> collect_ids g (remove_first_matching (\<lambda>i. f i = Some c) es) = collect_ids g es"
  by (induction es) (auto simp: collect_ids_Cons excludes_def split: option.splits)

lemma excludesI: "(\<And>i. f i = None \<or> g i = None) \<Longrightarrow> excludes f g"
  unfolding excludes_def by metis

lemma id_kinds_exclusive [simp]:
  "excludes function_call_id function_output_id" "excludes function_call_id tool_search_call_id" "excludes function_call_id tool_search_output_id" "excludes function_call_id custom_tool_call_id" "excludes function_call_id custom_tool_output_id" "excludes function_call_id client_search_output_id"
  "excludes function_output_id function_call_id" "excludes function_output_id tool_search_call_id" "excludes function_output_id tool_search_output_id" "excludes function_output_id custom_tool_call_id" "excludes function_output_id custom_tool_output_id" "excludes function_output_id client_search_output_id"
  "excludes tool_search_call_id function_call_id" "excludes tool_search_call_id function_output_id" "excludes tool_search_call_id tool_search_output_id" "excludes tool_search_call_id custom_tool_call_id" "excludes tool_search_call_id custom_tool_output_id" "excludes tool_search_call_id client_search_output_id"
  "excludes tool_search_output_id function_call_id" "excludes tool_search_output_id function_output_id" "excludes tool_search_output_id tool_search_call_id" "excludes tool_search_output_id custom_tool_call_id" "excludes tool_search_output_id custom_tool_output_id"
  "excludes custom_tool_call_id function_call_id" "excludes custom_tool_call_id function_output_id" "excludes custom_tool_call_id tool_search_call_id" "excludes custom_tool_call_id tool_search_output_id" "excludes custom_tool_call_id custom_tool_output_id" "excludes custom_tool_call_id client_search_output_id"
  "excludes custom_tool_output_id function_call_id" "excludes custom_tool_output_id function_output_id" "excludes custom_tool_output_id tool_search_call_id" "excludes custom_tool_output_id tool_search_output_id" "excludes custom_tool_output_id custom_tool_call_id" "excludes custom_tool_output_id client_search_output_id"
  by (rule excludesI, case_tac i; simp)+

lemma distinct_collect_ids_unique:
  "distinct (collect_ids f es) \<Longrightarrow> x \<in> set es \<Longrightarrow> y \<in> set es \<Longrightarrow> f (env_item x) = Some c \<Longrightarrow>
     f (env_item y) = Some c \<Longrightarrow> x = y"
  by (induction es) (force simp: collect_ids_Cons in_collect_ids split: option.splits)+

lemma remove_first_matching_cong:
  "(\<And>e. e \<in> set es \<Longrightarrow> p (env_item e) = q (env_item e)) \<Longrightarrow> remove_first_matching p es = remove_first_matching q es"
  by (induction es) auto

lemma function_call_id_cases:
  "function_call_id i = Some c \<longleftrightarrow> is_function_call c i \<or> is_local_shell_call c i"
  by (cases i) auto

text \<open>With distinct ids the call of a removed output is the one with its id, of either sort.\<close>

lemma remove_call_of_output:
  assumes "distinct (collect_ids function_call_id items)"
  shows "remove_corresponding_for items (FunctionCallOutput i c out m) =
    remove_first_matching (\<lambda>x. function_call_id x = Some c) items"
proof (cases "list_ex (\<lambda>e. is_function_call c (env_item e)) items")
  case True
  then obtain x where x: "x \<in> set items" "is_function_call c (env_item x)" by (auto simp: list_ex_iff)
  have "is_function_call c (env_item y) \<longleftrightarrow> function_call_id (env_item y) = Some c" if "y \<in> set items" for y
    using distinct_collect_ids_unique [OF assms that x(1), of c] x(2) by (auto simp: function_call_id_cases)
  then show ?thesis using True by (auto intro: remove_first_matching_cong)
next
  case False
  then show ?thesis
    by (auto simp: list_ex_iff function_call_id_cases intro!: remove_first_matching_cong)
qed

lemma client_search_output_in:
  "client_search_output_id i = Some c \<Longrightarrow> tool_search_output_id i = Some c"
  by (cases i) (auto split: if_splits)

lemma set_client_search_removed:
  assumes "distinct (collect_ids tool_search_output_id es)"
  shows "set (collect_ids client_search_output_id (remove_first_matching (\<lambda>i. tool_search_output_id i = Some c) es))
    \<subseteq> set (collect_ids client_search_output_id es) - {c}"
proof
  fix d assume "d \<in> set (collect_ids client_search_output_id (remove_first_matching (\<lambda>i. tool_search_output_id i = Some c) es))"
  then obtain e where e: "e \<in> set (remove_first_matching (\<lambda>i. tool_search_output_id i = Some c) es)"
      "client_search_output_id (env_item e) = Some d" by (auto simp: in_collect_ids)
  have "set (remove_first_matching p es) \<subseteq> set es" for p :: "'a response_item \<Rightarrow> bool" by (induction es) auto
  moreover have "d \<in> set (collect_ids tool_search_output_id (remove_first_matching (\<lambda>i. tool_search_output_id i = Some c) es))"
    using e client_search_output_in by (auto simp: in_collect_ids)
  ultimately show "d \<in> set (collect_ids client_search_output_id es) - {c}"
    using e assms by (auto simp: in_collect_ids [of _ client_search_output_id] collect_ids_remove_same)
qed

lemmas pairing_defs = calls_answered_def outputs_called_def ids_distinct_def

lemma remove_corresponding_pairs:
  assumes "calls_answered (e # items)" "outputs_called (e # items)" "ids_distinct (e # items)"
  shows "calls_answered (remove_corresponding_for items (env_item e))
    \<and> outputs_called (remove_corresponding_for items (env_item e))
    \<and> ids_distinct (remove_corresponding_for items (env_item e))"
proof (cases "env_item e")
  case (FunctionCallOutput i c out m)
  have d: "distinct (collect_ids function_call_id items)"
    using assms(3) by (auto simp: ids_distinct_def collect_ids_Cons split: option.splits)
  show ?thesis unfolding FunctionCallOutput remove_call_of_output [OF d]
    using assms FunctionCallOutput
    by (auto simp: pairing_defs collect_ids_Cons collect_ids_remove_same collect_ids_remove_other)
next
  case (ToolSearchCall i c st ex args m)
  show ?thesis
  proof (cases c)
    case (Some d)
    have "distinct (collect_ids tool_search_output_id items)"
      using assms(3) by (auto simp: ids_distinct_def collect_ids_Cons split: option.splits)
    from set_client_search_removed [OF this, of d] show ?thesis
      using assms ToolSearchCall Some
      by (auto simp: pairing_defs collect_ids_Cons collect_ids_remove_same collect_ids_remove_other)
  qed (use assms ToolSearchCall in \<open>simp add: pairing_defs collect_ids_Cons\<close>)
next
  case (ToolSearchOutput i c st ex tools m)
  have "set (collect_ids client_search_output_id items) \<subseteq> set (collect_ids tool_search_output_id items)"
    using client_search_output_in by (force simp: in_collect_ids)
  then show ?thesis using assms ToolSearchOutput
    by (cases c) (auto simp: pairing_defs collect_ids_Cons collect_ids_remove_same collect_ids_remove_other split: if_splits)
next
  case (LocalShellCall i c st act m)
  then show ?thesis using assms
    by (cases c) (auto simp: pairing_defs collect_ids_Cons collect_ids_remove_same collect_ids_remove_other)
qed (use assms in \<open>auto simp: pairing_defs collect_ids_Cons collect_ids_remove_same collect_ids_remove_other\<close>)

text \<open>Dropping the oldest item together with its counterpart keeps the conversation paired: if every call is
  answered, every output has its call and no id occurs twice in its kind, then this is still so.\<close>

theorem remove_first_item_keeps_pairs:
  assumes "calls_answered (cm_items cm)" "outputs_called (cm_items cm)" "ids_distinct (cm_items cm)"
  shows "calls_answered (cm_items (remove_first_item cm)) \<and> outputs_called (cm_items (remove_first_item cm))
    \<and> ids_distinct (cm_items (remove_first_item cm))"
  using assms remove_corresponding_pairs by (cases "cm_items cm") (auto simp: remove_first_item_def)

definition sample_manager :: "(unit, unit, unit, unit) context_manager" where
  "sample_manager = context_new\<lparr>cm_items :=
     [envelope_new (FunctionCall None ''shell'' None ''ls'' None ''c1'' None),
      envelope_new (Message None ''assistant'' [MsgOutputText ''ok''] None None),
      envelope_new (FunctionCallOutput None ''c1'' (payload_from_text ''files'') None)]\<rparr>"

lemma sample_manager_paired:
  "calls_answered (cm_items sample_manager)" "outputs_called (cm_items sample_manager)"
  "ids_distinct (cm_items sample_manager)"
  by (simp_all add: sample_manager_def pairing_defs collect_ids_Cons)

theorem remove_first_item_keeps_pairs_witness:
  "calls_answered (cm_items (remove_first_item sample_manager)) \<and> outputs_called (cm_items (remove_first_item sample_manager))
    \<and> ids_distinct (cm_items (remove_first_item sample_manager))"
  by (rule remove_first_item_keeps_pairs) (rule sample_manager_paired)+

section \<open>Bounds of the estimates\<close>

lemma sat_i64_range: "- (2 ^ 63) \<le> sat_i64 x \<and> sat_i64 x \<le> i64_max"
  by (simp add: sat_i64_def i64_max_def)

lemma approx_tokens_i64_nonneg: "0 \<le> approx_tokens_from_byte_count_i64 n"
  by (simp add: approx_tokens_from_byte_count_i64_def Let_def i64_max_def)

lemma sat_i64_ge: "a \<le> x \<Longrightarrow> a \<le> i64_max \<Longrightarrow> a \<le> sat_i64 x"
  by (simp add: sat_i64_def)

lemma sum_estimates_nonneg: "0 \<le> sum_estimates est items"
proof -
  have step: "0 \<le> acc \<Longrightarrow> 0 \<le> sat_i64 (acc + estimate_item_token_count est item)" for acc item
    by (rule sat_i64_ge) (simp_all add: estimate_item_token_count_def approx_tokens_i64_nonneg i64_max_def)
  have "0 \<le> acc \<Longrightarrow> 0 \<le> foldl (\<lambda>acc item. sat_i64 (acc + estimate_item_token_count est item)) acc items" for acc
    by (induction items arbitrary: acc) (simp_all add: step)
  then show ?thesis by (simp add: sum_estimates_def)
qed

lemma reasoning_tokens_nonneg: "0 \<le> get_non_last_reasoning_items_tokens est kinds cm"
  by (simp add: get_non_last_reasoning_items_tokens_def sum_estimates_nonneg split: option.split)

text \<open>Locally added items never lower the usage reported by the server, whether or not reasoning is counted.\<close>

lemma get_total_token_usage_ge:
  assumes "token_info cm = Some info" "total_tokens (last_token_usage info) \<le> i64_max"
  shows "total_tokens (last_token_usage info) \<le> get_total_token_usage est kinds included cm
    \<and> get_total_token_usage est kinds included cm \<le> i64_max"
proof -
  let ?t = "total_tokens (last_token_usage info)"
  have up: "?t \<le> sat_i64 (?t + n)" if "0 \<le> n" for n using that assms(2) by (simp add: sat_i64_ge)
  have "?t \<le> sat_i64 (sat_i64 (?t + get_non_last_reasoning_items_tokens est kinds cm) + n)" if "0 \<le> n" for n
    using sat_i64_ge [OF _ assms(2)] up [OF reasoning_tokens_nonneg] that by (metis add_increasing2)
  then show ?thesis
    using assms(1) up [OF sum_estimates_nonneg [of est "items_after_last_model_generated_item cm"]] sat_i64_range
    by (simp add: get_total_token_usage_def Let_def sum_estimates_nonneg)
qed

text \<open>Scaling by the double next to 1.2 never makes a budget smaller.\<close>

lemma bit_len_lower: "m \<noteq> 0 \<Longrightarrow> 2 ^ (bit_len m - 1) \<le> m"
proof (induction m rule: bit_len.induct)
  case (1 m)
  show ?case
  proof (cases "m div 2 = 0")
    case True
    then show ?thesis using "1.prems" by (simp add: bit_len.simps [of m] bit_len.simps [of 0])
  next
    case False
    have "bit_len m = Suc (bit_len (m div 2))" using "1.prems" by (simp add: bit_len.simps [of m])
    moreover have "bit_len (m div 2) \<noteq> 0" using False by (subst bit_len.simps) simp
    moreover have "2 ^ (bit_len (m div 2) - 1) \<le> m div 2" using "1.IH" "1.prems" False by simp
    ultimately have "2 ^ (bit_len m - 1) \<le> 2 * (m div 2)"
      by (cases "bit_len (m div 2)") simp_all
    also have "\<dots> \<le> m" by simp
    finally show ?thesis .
  qed
qed

lemma round_f64_lower: "m * (2 ^ 52 - 1) \<le> round_f64 m * 2 ^ 52"
proof (cases "bit_len m \<le> 53")
  case True
  then show ?thesis by (simp add: round_f64_def Let_def)
next
  case False
  define e where "e = bit_len m - 53"
  have m0: "m \<noteq> 0" using False by (cases "m = 0") (simp_all add: bit_len.simps [of 0])
  have "2 ^ (52 + e) \<le> m" using bit_len_lower [OF m0] False by (simp add: e_def)
  then have small: "2 ^ 52 * 2 ^ e \<le> m" by (simp add: power_add)
  have "m div 2 ^ e * 2 ^ e \<le> round_f64 m" using False by (simp add: round_f64_def Let_def e_def)
  moreover have "m \<le> m div 2 ^ e * 2 ^ e + 2 ^ e"
  proof -
    have "m div 2 ^ e * 2 ^ e + m mod 2 ^ e = m" by (rule div_mult_mod_eq)
    moreover have "m mod 2 ^ e < 2 ^ e" by simp
    ultimately show ?thesis by linarith
  qed
  ultimately have "m \<le> round_f64 m + 2 ^ e" by linarith
  then have "m * 2 ^ 52 \<le> round_f64 m * 2 ^ 52 + 2 ^ 52 * 2 ^ e"
    using mult_le_mono1 [of m "round_f64 m + 2 ^ e" "2 ^ 52"] by (simp add: algebra_simps)
  then show ?thesis using small by (simp add: algebra_simps)
qed

lemma mul_ceil_ge:
  assumes "n \<le> usize_max"
  shows "n \<le> mul_ceil 5404319552844595 52 n"
proof -
  let ?a = "round_f64 n" let ?b = "round_f64 (?a * 5404319552844595)"
  have 1: "n * (2 ^ 52 - 1) \<le> ?a * 2 ^ 52" by (rule round_f64_lower)
  have 2: "?a * 5404319552844595 * (2 ^ 52 - 1) \<le> ?b * 2 ^ 52" by (rule round_f64_lower)
  have "n * 4503599627370495 * 5404319552844595 * 4503599627370495 \<le> ?a * 4503599627370496 * 5404319552844595 * 4503599627370495"
    using 1 by (simp add: mult_le_mono1)
  also have "\<dots> = ?a * 5404319552844595 * 4503599627370495 * 4503599627370496" by simp
  also have "\<dots> \<le> ?b * 4503599627370496 * 4503599627370496"
    using 2 by (simp add: mult_le_mono1)
  finally have "n * 4503599627370496 \<le> ?b" by simp
  then have "n \<le> (?b + (2 ^ 52 - 1)) div 2 ^ 52"
    using div_le_mono [of "n * 4503599627370496" "?b + (2 ^ 52 - 1)" "2 ^ 52"] by simp
  then show ?thesis using assms by (simp add: mul_ceil_def)
qed

end
