(* ===== verification/Agent_Path.thy ===== *)
theory Agent_Path
  imports Rust_Prelude
begin

text \<open>
  Paths of agents in the tree of a session (\<open>codex-rs/protocol/src/agent_path.rs\<close>): \<open>/root\<close>, the agents below
  it, and \<open>/morpheus\<close>.  An \<open>AgentPath\<close> is the string it wraps; the invariant of the type is
  \<open>agent_path_ok\<close>.
\<close>

section \<open>Validation\<close>

definition AGENT_ROOT :: str where "AGENT_ROOT = ''/root''"
definition MORPHEUS :: str where "MORPHEUS = ''/morpheus''"
definition ROOT_SEGMENT :: str where "ROOT_SEGMENT = ''root''"

definition backquoted :: "str \<Rightarrow> str" where
  "backquoted s = [CHR 0x60] @ s @ [CHR 0x60]"

definition agent_name_char :: "char \<Rightarrow> bool" where
  "agent_name_char c \<longleftrightarrow> is_ascii_lower c \<or> is_ascii_digit c \<or> c = CHR ''_''"

definition validate_agent_name :: "str \<Rightarrow> str + unit" where
  "validate_agent_name agent_name =
     (if agent_name = [] then Inl ''agent_name must not be empty''
      else if agent_name = ROOT_SEGMENT then Inl (''agent_name '' @ backquoted ''root'' @ '' is reserved'')
      else if agent_name = ''.'' \<or> agent_name = ''..''
      then Inl (''agent_name '' @ backquoted agent_name @ '' is reserved'')
      else if CHR ''/'' \<in> set agent_name then Inl (''agent_name must not contain '' @ backquoted ''/'')
      else if \<not> list_all agent_name_char agent_name
      then Inl ''agent_name must use only lowercase letters, digits, and underscores''
      else Inr ())"

fun validate_segments :: "str list \<Rightarrow> str + unit" where
  "validate_segments [] = Inr ()"
| "validate_segments (s # ss) = and_then (validate_agent_name s) (\<lambda>_. validate_segments ss)"

definition start_error :: str where
  "start_error = ''absolute agent paths must start with '' @ backquoted ''/root'' @ '' or be '' @ backquoted ''/morpheus''"

definition validate_absolute_path :: "str \<Rightarrow> str + unit" where
  "validate_absolute_path path =
     (if path = MORPHEUS then Inr ()
      else
        (case strip_prefix ''/'' path of
           None \<Rightarrow> Inl start_error
         | Some stripped \<Rightarrow>
             (case split_on (CHR ''/'') stripped of
                [] \<Rightarrow> Inl ''absolute agent path must not be empty''
              | root # segments \<Rightarrow>
                  if root \<noteq> ROOT_SEGMENT then Inl start_error
                  else if ends_with stripped ''/''
                  then Inl (''absolute agent path must not end with '' @ backquoted ''/'')
                  else validate_segments segments)))"

definition validate_relative_reference :: "str \<Rightarrow> str + unit" where
  "validate_relative_reference ref =
     (if ends_with ref ''/'' then Inl (''relative agent path must not end with '' @ backquoted ''/'')
      else validate_segments (split_on (CHR ''/'') ref))"

section \<open>Operations\<close>

definition path_from_string :: "str \<Rightarrow> str + str" where
  "path_from_string path = and_then (validate_absolute_path path) (\<lambda>_. Inr path)"

definition path_is_root :: "str \<Rightarrow> bool" where
  "path_is_root p \<longleftrightarrow> p = AGENT_ROOT"

definition path_name :: "str \<Rightarrow> str" where
  "path_name p =
     (if path_is_root p then ROOT_SEGMENT
      else (let segment = last (split_on (CHR ''/'') p) in if segment = [] then ROOT_SEGMENT else segment))"

definition agent_path_join :: "str \<Rightarrow> str \<Rightarrow> str + str" where
  "agent_path_join p agent_name =
     and_then (validate_agent_name agent_name) (\<lambda>_. path_from_string (p @ ''/'' @ agent_name))"

definition agent_path_resolve :: "str \<Rightarrow> str \<Rightarrow> str + str" where
  "agent_path_resolve p ref =
     (if ref = [] then Inl ''agent path must not be empty''
      else if ref = AGENT_ROOT then Inr AGENT_ROOT
      else if starts_with ref ''/'' then path_from_string ref
      else and_then (validate_relative_reference ref) (\<lambda>_. path_from_string (p @ ''/'' @ ref)))"

section \<open>The language of paths\<close>

definition agent_name_ok :: "str \<Rightarrow> bool" where
  "agent_name_ok n \<longleftrightarrow> n \<noteq> [] \<and> n \<noteq> ''root'' \<and> list_all agent_name_char n"

definition tree_path :: "str list \<Rightarrow> str" where
  "tree_path names = ''/root'' @ concat (map (\<lambda>n. CHR ''/'' # n) names)"

definition agent_path_ok :: "str \<Rightarrow> bool" where
  "agent_path_ok p \<longleftrightarrow> p = ''/morpheus'' \<or> (\<exists>names. list_all agent_name_ok names \<and> p = tree_path names)"

lemma agent_name_char_not_slash: "agent_name_char c \<Longrightarrow> c \<noteq> CHR ''/'' \<and> c \<noteq> CHR ''.''"
  by (auto simp: agent_name_char_def is_ascii_lower_def is_ascii_digit_def byte_val_def)

lemma agent_name_ok_no_slash: "agent_name_ok n \<Longrightarrow> CHR ''/'' \<notin> set n"
  using agent_name_char_not_slash by (auto simp: agent_name_ok_def list_all_iff)

lemma validate_agent_name_iff: "validate_agent_name n = Inr () \<longleftrightarrow> agent_name_ok n"
proof -
  have "\<not> list_all agent_name_char n" if "CHR ''/'' \<in> set n \<or> n = ''.'' \<or> n = ''..''"
  proof -
    have "\<not> agent_name_char (CHR ''/'')" "\<not> agent_name_char (CHR ''.'')" using agent_name_char_not_slash by blast+
    moreover have "CHR ''/'' \<in> set n \<or> CHR ''.'' \<in> set n" using that by fastforce
    ultimately show ?thesis unfolding list_all_iff by blast
  qed
  then show ?thesis
    by (cases "n = [] \<or> n = ''root''") (auto simp: validate_agent_name_def agent_name_ok_def ROOT_SEGMENT_def)
qed

lemma validate_segments_iff: "validate_segments ss = Inr () \<longleftrightarrow> list_all agent_name_ok ss"
  by (induction ss) (auto simp: validate_agent_name_iff)

lemma split_on_names:
  "CHR ''/'' \<notin> set r \<Longrightarrow> list_all (\<lambda>n. CHR ''/'' \<notin> set n) names \<Longrightarrow>
     split_on (CHR ''/'') (r @ concat (map (\<lambda>n. CHR ''/'' # n) names)) = r # names"
proof (induction names arbitrary: r)
  case (Cons n names)
  then show ?case by (simp add: split_on_append)
qed (simp add: split_on_none)

lemma join_with_names: "join_with [d] (r # names) = r @ concat (map (\<lambda>n. d # n) names)"
  by (induction names arbitrary: r) auto

lemma names_no_slash: "list_all agent_name_ok names \<Longrightarrow> list_all (\<lambda>n. CHR ''/'' \<notin> set n) names"
  using agent_name_ok_no_slash by (auto simp: list_all_iff)

lemma tree_path_not_slash_end:
  assumes "list_all agent_name_ok names"
  shows "\<not> ends_with (''root'' @ concat (map (\<lambda>n. CHR ''/'' # n) names)) ''/''"
proof (cases names rule: rev_cases)
  case (snoc ns n)
  then have "n \<noteq> []" "CHR ''/'' \<notin> set n" using assms agent_name_ok_no_slash by (auto simp: agent_name_ok_def)
  then have "last n \<noteq> CHR ''/''" using last_in_set [of n] by force
  then have "last (''root'' @ concat (map (\<lambda>n. CHR ''/'' # n) names)) \<noteq> CHR ''/''"
    using snoc \<open>n \<noteq> []\<close> by simp
  moreover have "last x = c" if "x = r @ [c]" for x r :: str and c using that by simp
  ultimately show ?thesis unfolding ends_with_iff by blast
qed (simp add: ends_with_def)

lemma tree_path_unfold: "tree_path names = CHR ''/'' # ''root'' @ concat (map (\<lambda>n. CHR ''/'' # n) names)"
  by (simp add: tree_path_def)

lemma validate_tree_path: "list_all agent_name_ok names \<Longrightarrow> validate_absolute_path (tree_path names) = Inr ()"
  using split_on_names [of "''root''" names] names_no_slash [of names] tree_path_not_slash_end [of names]
  by (simp add: validate_absolute_path_def tree_path_unfold MORPHEUS_def ROOT_SEGMENT_def strip_prefix_def
      validate_segments_iff)

lemma validate_absolute_path_sound:
  assumes "validate_absolute_path p = Inr ()"
  shows "agent_path_ok p"
proof (cases "p = ''/morpheus''")
  case False
  then obtain r segs where p: "p = CHR ''/'' # r" and segs: "split_on (CHR ''/'') r = ''root'' # segs"
      and ok: "list_all agent_name_ok segs"
    using assms by (auto simp: validate_absolute_path_def MORPHEUS_def ROOT_SEGMENT_def strip_prefix_Some_iff
        validate_segments_iff split: option.splits list.splits if_splits)
  have "r = ''root'' @ concat (map (\<lambda>n. CHR ''/'' # n) segs)"
    using join_split_on [of "CHR ''/''" r] unfolding segs join_with_names by simp
  then show ?thesis using ok p by (auto simp: agent_path_ok_def tree_path_unfold)
qed (simp add: agent_path_ok_def)

text \<open>A string is accepted as an agent path exactly if it is \<open>/morpheus\<close> or \<open>/root\<close> followed by well-formed
  names, and then it is kept as it is.\<close>

theorem path_from_string_iff: "path_from_string s = Inr p \<longleftrightarrow> p = s \<and> agent_path_ok s"
proof -
  have "validate_absolute_path s = Inr ()" if "agent_path_ok s"
    using that validate_tree_path unfolding agent_path_ok_def
    by (elim disjE exE conjE) (simp_all add: validate_absolute_path_def [of "''/morpheus''"] MORPHEUS_def)
  then show ?thesis using validate_absolute_path_sound by (auto simp: path_from_string_def)
qed

lemma path_from_string_tree: "list_all agent_name_ok names \<Longrightarrow> path_from_string (tree_path names) = Inr (tree_path names)"
  by (simp add: path_from_string_def validate_tree_path)

text \<open>Joining a name to a path of the tree gives the path of the child, whose name it is.\<close>

lemma agent_path_join_tree:
  assumes "list_all agent_name_ok names" "agent_name_ok n"
  shows "agent_path_join (tree_path names) n = Inr (tree_path (names @ [n])) \<and> path_name (tree_path (names @ [n])) = n"
proof -
  have "tree_path names @ ''/'' @ n = tree_path (names @ [n])" by (simp add: tree_path_def)
  then have "agent_path_join (tree_path names) n = Inr (tree_path (names @ [n]))"
    using assms path_from_string_tree [of "names @ [n]"] validate_agent_name_iff [of n] by (simp add: agent_path_join_def)
  moreover have "tree_path (names @ [n]) \<noteq> AGENT_ROOT" by (simp add: tree_path_def AGENT_ROOT_def)
  moreover have "split_on (CHR ''/'') (tree_path (names @ [n])) = [] # ''root'' # names @ [n]"
    using split_on_names [of "[]" "''root'' # names @ [n]"] names_no_slash [of "names @ [n]"] assms
    by (simp add: tree_path_def)
  ultimately show ?thesis using assms(2) by (simp add: path_name_def path_is_root_def agent_name_ok_def)
qed

lemma agent_path_resolve_ok: "agent_path_resolve p ref = Inr q \<Longrightarrow> agent_path_ok q"
proof -
  have "agent_path_ok AGENT_ROOT" unfolding agent_path_ok_def AGENT_ROOT_def
    by (intro disjI2 exI [of _ "[]"]) (simp add: tree_path_def)
  moreover have "path_from_string s = Inr q \<Longrightarrow> agent_path_ok q" for s
    using validate_absolute_path_sound by (auto simp: path_from_string_def)
  ultimately show "agent_path_resolve p ref = Inr q \<Longrightarrow> agent_path_ok q"
    by (auto simp: agent_path_resolve_def split: if_splits)
qed

end
