(* ===== verification/Agent_Registry.thy ===== *)
theory Agent_Registry
  imports Agent_Path
begin

text \<open>
  The registry of the agents of a session (\<open>codex-rs/core/src/agent/registry.rs\<close>), shared by all of them.  Every
  critical section of the mutex is one function on the registry; the atomic counter is its field
  \<open>total_count\<close>.  Concurrent use is a step relation whose steps are the critical sections and the single
  atomic operations: the load and the compare-and-exchange of the counting loop, and the two halves of
  releasing an agent or dropping a reservation.  A thread id is its text.
\<close>

section \<open>State\<close>

record agent_metadata =
  agent_id :: "str option"
  agent_path :: "str option"
  agent_nickname :: "str option"
  agent_role :: "str option"

definition metadata_default :: agent_metadata where
  "metadata_default = \<lparr>agent_id = None, agent_path = None, agent_nickname = None, agent_role = None\<rparr>"

record 'e registered_agent =
  reg_path :: str
  evicted :: "'e list option"

definition registered_new :: "str \<Rightarrow> 'e registered_agent" where
  "registered_new path = \<lparr>reg_path = path, evicted = None\<rparr>"

record 'e registry =
  agent_tree :: "str \<rightharpoonup> agent_metadata"
  thread_paths :: "str \<rightharpoonup> 'e registered_agent"
  used_agent_nicknames :: "str set"
  nickname_reset_count :: nat
  total_count :: nat

definition registry_default :: "'e registry" where
  "registry_default = \<lparr>agent_tree = Map.empty, thread_paths = Map.empty, used_agent_nicknames = {},
     nickname_reset_count = 0, total_count = 0\<rparr>"

definition is_root_agent :: "agent_metadata \<Rightarrow> bool" where
  "is_root_agent md = (case agent_path md of None \<Rightarrow> False | Some p \<Rightarrow> path_is_root p)"

section \<open>Names\<close>

definition ordinal_suffix :: "nat \<Rightarrow> str" where
  "ordinal_suffix value =
     (if 11 \<le> value mod 100 \<and> value mod 100 \<le> 13 then ''th''
      else if value mod 10 = 1 then ''st''
      else if value mod 10 = 2 then ''nd''
      else if value mod 10 = 3 then ''rd''
      else ''th'')"

definition format_agent_nickname :: "str \<Rightarrow> nat \<Rightarrow> str" where
  "format_agent_nickname name reset_count =
     (if reset_count = 0 then name
      else name @ '' the '' @ show_nat (reset_count + 1) @ ordinal_suffix (reset_count + 1))"

text \<open>\<open>IndexedRandom::choose\<close> picks any element; \<open>pick\<close> stands for the random number.\<close>

definition random_choose :: "nat \<Rightarrow> 'a list \<Rightarrow> 'a option" where
  "random_choose pick xs = (if xs = [] then None else Some (xs ! (pick mod length xs)))"

definition reserve_agent_nickname ::
    "nat \<Rightarrow> str list \<Rightarrow> str option \<Rightarrow> 'e registry \<Rightarrow> str option \<times> 'e registry" where
  "reserve_agent_nickname pick names preferred r =
     (case preferred of
        Some p \<Rightarrow> (Some p, r\<lparr>used_agent_nicknames := insert p (used_agent_nicknames r)\<rparr>)
      | None \<Rightarrow>
          if names = [] then (None, r)
          else
            (case random_choose pick (filter (\<lambda>n. n \<notin> used_agent_nicknames r)
                    (map (\<lambda>n. format_agent_nickname n (nickname_reset_count r)) names)) of
               Some n \<Rightarrow> (Some n, r\<lparr>used_agent_nicknames := insert n (used_agent_nicknames r)\<rparr>)
             | None \<Rightarrow>
                 (let r1 = r\<lparr>used_agent_nicknames := {}, nickname_reset_count := nickname_reset_count r + 1\<rparr>
                  in case random_choose pick names of
                       None \<Rightarrow> (None, r1)
                     | Some name \<Rightarrow>
                         (let n = format_agent_nickname name (nickname_reset_count r1)
                          in (Some n, r1\<lparr>used_agent_nicknames := insert n (used_agent_nicknames r1)\<rparr>)))))"

section \<open>Critical sections\<close>

definition register_root_thread :: "str \<Rightarrow> 'e registry \<Rightarrow> 'e registry" where
  "register_root_thread t r =
     (let tree = (case agent_tree r AGENT_ROOT of
            Some _ \<Rightarrow> agent_tree r
          | None \<Rightarrow> (agent_tree r)(AGENT_ROOT \<mapsto> metadata_default\<lparr>agent_id := Some t, agent_path := Some AGENT_ROOT\<rparr>))
      in case agent_id (the (tree AGENT_ROOT)) of
           Some root_thread \<Rightarrow>
             r\<lparr>agent_tree := tree, thread_paths := (thread_paths r)(root_thread \<mapsto> registered_new AGENT_ROOT)\<rparr>
         | None \<Rightarrow> r\<lparr>agent_tree := tree\<rparr>)"

definition agent_id_for_path :: "str \<Rightarrow> 'e registry \<Rightarrow> str option" where
  "agent_id_for_path p r = Option.bind (agent_tree r p) agent_id"

definition agent_metadata_for_thread :: "str \<Rightarrow> 'e registry \<Rightarrow> agent_metadata option" where
  "agent_metadata_for_thread t r = Option.bind (thread_paths r t) (\<lambda>a. agent_tree r (reg_path a))"

definition set_evicted :: "str \<Rightarrow> 'e list option \<Rightarrow> 'e registry \<Rightarrow> 'e registry" where
  "set_evicted t envs r =
     (case thread_paths r t of
        None \<Rightarrow> r
      | Some a \<Rightarrow> r\<lparr>thread_paths := (thread_paths r)(t \<mapsto> a\<lparr>evicted := envs\<rparr>)\<rparr>)"

definition save_evicted_environments :: "str \<Rightarrow> 'e list \<Rightarrow> 'e registry \<Rightarrow> 'e registry" where
  "save_evicted_environments t envs r = set_evicted t (Some envs) r"

definition clear_evicted_environments :: "str \<Rightarrow> 'e registry \<Rightarrow> 'e registry" where
  "clear_evicted_environments t r = set_evicted t None r"

definition evicted_environments :: "str \<Rightarrow> 'e registry \<Rightarrow> 'e list option" where
  "evicted_environments t r = Option.bind (thread_paths r t) evicted"

definition is_live :: "agent_metadata \<Rightarrow> bool" where
  "is_live md \<longleftrightarrow> agent_id md \<noteq> None \<and> \<not> is_root_agent md"

text \<open>The keys of \<open>live_agents\<close>.\<close>

definition live_agents :: "'e registry \<Rightarrow> str set" where
  "live_agents r = {k. \<exists>md. agent_tree r k = Some md \<and> is_live md}"

text \<open>The critical section of \<open>release_spawned_thread\<close> says whether the counter must be lowered.\<close>

definition remove_thread :: "str \<Rightarrow> 'e registry \<Rightarrow> bool \<times> 'e registry" where
  "remove_thread t r =
     (case thread_paths r t of
        None \<Rightarrow> (False, r)
      | Some a \<Rightarrow>
          ((case agent_tree r (reg_path a) of None \<Rightarrow> False | Some md \<Rightarrow> \<not> is_root_agent md),
           r\<lparr>thread_paths := (thread_paths r)(t := None), agent_tree := (agent_tree r)(reg_path a := None)\<rparr>))"

definition register_spawned_thread :: "agent_metadata \<Rightarrow> 'e registry \<Rightarrow> 'e registry" where
  "register_spawned_thread md r =
     (case agent_id md of
        None \<Rightarrow> r
      | Some t \<Rightarrow>
          (let key = (case agent_path md of Some p \<Rightarrow> p | None \<Rightarrow> ''thread:'' @ t);
               r1 = (case agent_nickname md of
                   Some n \<Rightarrow> r\<lparr>used_agent_nicknames := insert n (used_agent_nicknames r)\<rparr>
                 | None \<Rightarrow> r);
               tree = (case thread_paths r1 t of
                   Some previous \<Rightarrow>
                     if reg_path previous \<noteq> key then (agent_tree r1)(reg_path previous := None) else agent_tree r1
                 | None \<Rightarrow> agent_tree r1);
               paths = (thread_paths r1)(t \<mapsto> registered_new key);
               paths' = (case Option.bind (tree key) agent_id of
                   Some t' \<Rightarrow> if t' \<noteq> t then paths(t' := None) else paths
                 | None \<Rightarrow> paths)
           in r1\<lparr>agent_tree := tree(key \<mapsto> md), thread_paths := paths'\<rparr>))"

definition reserve_agent_path :: "str \<Rightarrow> 'e registry \<Rightarrow> str + 'e registry" where
  "reserve_agent_path p r =
     (case agent_tree r p of
        Some _ \<Rightarrow> Inl (''agent path '' @ backquoted p @ '' already exists'')
      | None \<Rightarrow> Inr (r\<lparr>agent_tree := (agent_tree r)(p \<mapsto> metadata_default\<lparr>agent_path := Some p\<rparr>)\<rparr>))"

definition release_reserved_agent_path :: "str \<Rightarrow> 'e registry \<Rightarrow> 'e registry" where
  "release_reserved_agent_path p r =
     (case agent_tree r p of
        Some md \<Rightarrow> if agent_id md = None then r\<lparr>agent_tree := (agent_tree r)(p := None)\<rparr> else r
      | None \<Rightarrow> r)"

section \<open>Concurrent use\<close>

record reservation =
  reserved_agent_nickname :: "str option"
  reserved_agent_path :: "str option"

definition reservation_new :: reservation where
  "reservation_new = \<lparr>reserved_agent_nickname = None, reserved_agent_path = None\<rparr>"

text \<open>A reservation is held, or it is being dropped and has released its path already.\<close>

datatype slot = Held reservation | Dropping

text \<open>
  Clients are numbered.  \<open>attempts\<close> holds the local \<open>current\<close> of a client in the loop of
  \<open>try_increment_spawned\<close>; \<open>pending_subs\<close> counts the calls of \<open>release_spawned_thread\<close> between their two halves.
\<close>

record 'e agent_system =
  reg :: "'e registry"
  attempts :: "nat \<rightharpoonup> nat"
  reservations :: "nat \<rightharpoonup> slot"
  pending_subs :: nat

definition system_init :: "'e agent_system" where
  "system_init = \<lparr>reg = registry_default, attempts = Map.empty, reservations = Map.empty, pending_subs = 0\<rparr>"

definition add_count :: "'e registry \<Rightarrow> 'e registry" where
  "add_count r = r\<lparr>total_count := total_count r + 1\<rparr>"

definition sub_count :: "'e registry \<Rightarrow> 'e registry" where
  "sub_count r = r\<lparr>total_count := total_count r - 1\<rparr>"

inductive agent_step :: "nat option \<Rightarrow> 'e agent_system \<Rightarrow> 'e agent_system \<Rightarrow> bool" for limit where
  load: "limit = Some m \<Longrightarrow> attempts s c = None \<Longrightarrow> reservations s c = None \<Longrightarrow>
    agent_step limit s (s\<lparr>attempts := (attempts s)(c \<mapsto> total_count (reg s))\<rparr>)"
| limit_reached: "limit = Some m \<Longrightarrow> attempts s c = Some current \<Longrightarrow> m \<le> current \<Longrightarrow>
    agent_step limit s (s\<lparr>attempts := (attempts s)(c := None)\<rparr>)"
| exchanged: "limit = Some m \<Longrightarrow> attempts s c = Some current \<Longrightarrow> current < m \<Longrightarrow> total_count (reg s) = current \<Longrightarrow>
    agent_step limit s (s\<lparr>reg := add_count (reg s), attempts := (attempts s)(c := None),
      reservations := (reservations s)(c \<mapsto> Held reservation_new)\<rparr>)"
| exchange_failed: "limit = Some m \<Longrightarrow> attempts s c = Some current \<Longrightarrow> current < m \<Longrightarrow>
    agent_step limit s (s\<lparr>attempts := (attempts s)(c \<mapsto> total_count (reg s))\<rparr>)"
| reserve_unlimited: "limit = None \<Longrightarrow> reservations s c = None \<Longrightarrow>
    agent_step limit s (s\<lparr>reg := add_count (reg s), reservations := (reservations s)(c \<mapsto> Held reservation_new)\<rparr>)"
| reserve_nickname: "reservations s c = Some (Held v) \<Longrightarrow>
    reserve_agent_nickname pick names preferred (reg s) = (n, r) \<Longrightarrow>
    agent_step limit s (s\<lparr>reg := r, reservations := (reservations s)(c \<mapsto>
      Held (case n of Some _ \<Rightarrow> v\<lparr>reserved_agent_nickname := n\<rparr> | None \<Rightarrow> v))\<rparr>)"
| reserve_path: "reservations s c = Some (Held v) \<Longrightarrow> reserve_agent_path p (reg s) = Inr r \<Longrightarrow>
    agent_step limit s (s\<lparr>reg := r, reservations := (reservations s)(c \<mapsto> Held (v\<lparr>reserved_agent_path := Some p\<rparr>))\<rparr>)"
| commit: "reservations s c = Some (Held v) \<Longrightarrow>
    agent_step limit s (s\<lparr>reg := register_spawned_thread md (reg s), reservations := (reservations s)(c := None)\<rparr>)"
| drop_path: "reservations s c = Some (Held v) \<Longrightarrow>
    agent_step limit s (s\<lparr>reg := (case reserved_agent_path v of
        Some p \<Rightarrow> release_reserved_agent_path p (reg s) | None \<Rightarrow> reg s),
      reservations := (reservations s)(c \<mapsto> Dropping)\<rparr>)"
| drop_count: "reservations s c = Some Dropping \<Longrightarrow>
    agent_step limit s (s\<lparr>reg := sub_count (reg s), reservations := (reservations s)(c := None)\<rparr>)"
| release_remove: "remove_thread t (reg s) = (counted, r) \<Longrightarrow>
    agent_step limit s (s\<lparr>reg := r, pending_subs := pending_subs s + (if counted then 1 else 0)\<rparr>)"
| release_count: "0 < pending_subs s \<Longrightarrow>
    agent_step limit s (s\<lparr>reg := sub_count (reg s), pending_subs := pending_subs s - 1\<rparr>)"
| register_root: "agent_step limit s (s\<lparr>reg := register_root_thread t (reg s)\<rparr>)"
| evict: "agent_step limit s (s\<lparr>reg := set_evicted t envs (reg s)\<rparr>)"

inductive agent_reachable :: "nat option \<Rightarrow> 'e agent_system \<Rightarrow> bool" for limit where
  init: "agent_reachable limit system_init"
| step: "agent_reachable limit s \<Longrightarrow> agent_step limit s s' \<Longrightarrow> agent_reachable limit s'"

section \<open>The invariant\<close>

text \<open>
  A thread is registered under a path whose entry bears its id; and the live agents, the open reservations
  and the releases under way are covered by the counter, which respects the limit.
\<close>

definition registry_ok :: "'e registry \<Rightarrow> bool" where
  "registry_ok r \<longleftrightarrow> finite (dom (agent_tree r))
   \<and> (\<forall>t a. thread_paths r t = Some a \<longrightarrow> (\<exists>md. agent_tree r (reg_path a) = Some md \<and> agent_id md = Some t))"

definition agent_inv :: "nat option \<Rightarrow> 'e agent_system \<Rightarrow> bool" where
  "agent_inv limit s \<longleftrightarrow> registry_ok (reg s) \<and> finite (dom (reservations s))
   \<and> card (live_agents (reg s)) + card (dom (reservations s)) + pending_subs s \<le> total_count (reg s)
   \<and> (\<forall>m. limit = Some m \<longrightarrow> total_count (reg s) \<le> m)"

lemma finite_live_agents: "registry_ok r \<Longrightarrow> finite (live_agents r)"
  unfolding registry_ok_def live_agents_def by (erule conjE, erule rev_finite_subset) auto

lemma live_agents_cong: "agent_tree r' = agent_tree r \<Longrightarrow> live_agents r' = live_agents r"
  by (simp add: live_agents_def)

lemma registry_ok_cong:
  "agent_tree r' = agent_tree r \<Longrightarrow> thread_paths r' = thread_paths r \<Longrightarrow> registry_ok r' = registry_ok r"
  by (simp add: registry_ok_def)

lemma count_fields [simp]:
  "agent_tree (add_count r) = agent_tree r" "thread_paths (add_count r) = thread_paths r"
  "total_count (add_count r) = total_count r + 1" "agent_tree (sub_count r) = agent_tree r"
  "thread_paths (sub_count r) = thread_paths r" "total_count (sub_count r) = total_count r - 1"
  by (simp_all add: add_count_def sub_count_def)

lemma count_ok [simp]:
  "registry_ok (add_count r) = registry_ok r" "registry_ok (sub_count r) = registry_ok r"
  "live_agents (add_count r) = live_agents r" "live_agents (sub_count r) = live_agents r"
  by (simp_all add: registry_ok_def live_agents_def)

lemma reserve_agent_nickname_keeps:
  assumes "reserve_agent_nickname pick names preferred r = (n, r')"
  shows "agent_tree r' = agent_tree r \<and> thread_paths r' = thread_paths r \<and> total_count r' = total_count r"
  using assms by (auto simp: reserve_agent_nickname_def Let_def split: option.splits if_splits)

text \<open>Writing an entry that bore no id disturbs no registered thread.\<close>

lemma registry_okD:
  "registry_ok r \<Longrightarrow> thread_paths r t = Some a \<Longrightarrow> \<exists>md. agent_tree r (reg_path a) = Some md \<and> agent_id md = Some t"
  by (simp add: registry_ok_def)

lemma registry_ok_write:
  assumes "registry_ok r" "\<And>md. agent_tree r p = Some md \<Longrightarrow> agent_id md = None"
  shows "registry_ok (r\<lparr>agent_tree := (agent_tree r)(p := x)\<rparr>)"
proof -
  have "reg_path a \<noteq> p" if "thread_paths r t = Some a" for t a
    using registry_okD [OF assms(1) that] assms(2) by auto
  moreover have "finite (dom ((agent_tree r)(p := x)))"
    using assms(1) by (cases x) (simp_all add: registry_ok_def)
  ultimately show ?thesis using assms(1) by (simp add: registry_ok_def)
qed

lemma live_agents_write:
  assumes "\<And>md. agent_tree r p = Some md \<Longrightarrow> \<not> is_live md" "\<And>md. x = Some md \<Longrightarrow> \<not> is_live md"
  shows "live_agents (r\<lparr>agent_tree := (agent_tree r)(p := x)\<rparr>) = live_agents r"
proof -
  have "(\<exists>md. ((agent_tree r)(p := x)) k = Some md \<and> is_live md) = (\<exists>md. agent_tree r k = Some md \<and> is_live md)" for k
    using assms by (cases "k = p") auto
  then show ?thesis by (simp add: live_agents_def)
qed

lemma reserve_agent_path_keeps:
  assumes "reserve_agent_path p r = Inr r'"
  shows "live_agents r' = live_agents r \<and> total_count r' = total_count r \<and> (registry_ok r \<longrightarrow> registry_ok r')"
proof -
  have *: "agent_tree r p = None" "r' = r\<lparr>agent_tree := (agent_tree r)(p \<mapsto> metadata_default\<lparr>agent_path := Some p\<rparr>)\<rparr>"
    using assms by (auto simp: reserve_agent_path_def split: option.splits)
  then show ?thesis
    using registry_ok_write [of r p] live_agents_write [of r p "Some (metadata_default\<lparr>agent_path := Some p\<rparr>)"]
    by (simp add: is_live_def metadata_default_def)
qed

lemma release_reserved_agent_path_cases:
  "release_reserved_agent_path p r = r
   \<or> (\<exists>md. agent_tree r p = Some md \<and> agent_id md = None
          \<and> release_reserved_agent_path p r = r\<lparr>agent_tree := (agent_tree r)(p := None)\<rparr>)"
  by (simp add: release_reserved_agent_path_def split: option.split)

lemma release_reserved_agent_path_keeps:
  "live_agents (release_reserved_agent_path p r) = live_agents r"
  "total_count (release_reserved_agent_path p r) = total_count r"
  "registry_ok r \<Longrightarrow> registry_ok (release_reserved_agent_path p r)"
  using release_reserved_agent_path_cases [of p r] live_agents_write [of r p None] registry_ok_write [of r p None]
  by (auto simp: is_live_def)

lemma set_evicted_keeps:
  "agent_tree (set_evicted t envs r) = agent_tree r" "total_count (set_evicted t envs r) = total_count r"
  "registry_ok r \<Longrightarrow> registry_ok (set_evicted t envs r)"
  by (auto simp: set_evicted_def registry_ok_def split: option.splits)

lemma register_root_thread_keeps:
  "live_agents (register_root_thread t r) = live_agents r"
  "total_count (register_root_thread t r) = total_count r"
  "registry_ok r \<Longrightarrow> registry_ok (register_root_thread t r)"
proof -
  let ?md = "metadata_default\<lparr>agent_id := Some t, agent_path := Some AGENT_ROOT\<rparr>"
  have new: "registry_ok (r\<lparr>agent_tree := (agent_tree r)(AGENT_ROOT \<mapsto> ?md)\<rparr>)"
    if "agent_tree r AGENT_ROOT = None" "registry_ok r"
    using registry_ok_write [of r AGENT_ROOT "Some ?md"] that by simp
  have live: "live_agents (r\<lparr>agent_tree := (agent_tree r)(AGENT_ROOT \<mapsto> ?md)\<rparr>) = live_agents r"
    if "agent_tree r AGENT_ROOT = None"
    using live_agents_write [of r AGENT_ROOT "Some ?md"] that
    by (simp add: is_live_def is_root_agent_def path_is_root_def)
  show "live_agents (register_root_thread t r) = live_agents r"
    using live by (auto simp: register_root_thread_def live_agents_def Let_def split: option.split)
  show "total_count (register_root_thread t r) = total_count r"
    by (simp add: register_root_thread_def Let_def split: option.split)
  show "registry_ok (register_root_thread t r)" if "registry_ok r"
    using that new by (auto simp: register_root_thread_def registry_ok_def registered_new_def metadata_default_def
        Let_def split: option.split)
qed

text \<open>Removing a registered thread removes one live agent exactly when the counter is to be lowered.\<close>

lemma registry_ok_unregister:
  assumes "registry_ok r" "thread_paths r t = Some a"
  shows "registry_ok (r\<lparr>thread_paths := (thread_paths r)(t := None), agent_tree := (agent_tree r)(reg_path a := None)\<rparr>)"
proof -
  have "reg_path b \<noteq> reg_path a" if "thread_paths r t' = Some b" "t' \<noteq> t" for t' b
    using registry_okD [OF assms] registry_okD [OF assms(1) that(1)] that(2) by auto
  then show ?thesis using assms(1) by (simp add: registry_ok_def)
qed

lemma live_agents_unregister:
  "live_agents (r\<lparr>thread_paths := P, agent_tree := (agent_tree r)(k := None)\<rparr>) = live_agents r - {k}"
  by (auto simp: live_agents_def)

lemma remove_thread_keeps:
  assumes "registry_ok r" "remove_thread t r = (counted, r')"
  shows "registry_ok r'" "total_count r' = total_count r"
    "card (live_agents r') + (if counted then 1 else 0) = card (live_agents r)"
proof -
  consider "thread_paths r t = None" "r' = r" "\<not> counted"
    | a md where "thread_paths r t = Some a" "agent_tree r (reg_path a) = Some md" "agent_id md = Some t"
        "counted = is_live md"
        "r' = r\<lparr>thread_paths := (thread_paths r)(t := None), agent_tree := (agent_tree r)(reg_path a := None)\<rparr>"
    using assms(2) registry_okD [OF assms(1), of t]
    by (cases "thread_paths r t") (auto simp: remove_thread_def is_live_def)
  then have "registry_ok r' \<and> total_count r' = total_count r
      \<and> card (live_agents r') + (if counted then 1 else 0) = card (live_agents r)"
  proof cases
    case 1
    then show ?thesis using assms(1) by simp
  next
    case 2
    have live: "counted \<longleftrightarrow> reg_path a \<in> live_agents r" using 2 by (simp add: live_agents_def)
    have "card (live_agents r - {reg_path a}) + (if counted then 1 else 0) = card (live_agents r)"
      using live finite_live_agents [OF assms(1)] card_Suc_Diff1 [of "live_agents r" "reg_path a"]
      by (cases counted) simp_all
    then show ?thesis
      using registry_ok_unregister [OF assms(1) 2(1)] 2(5) live_agents_unregister [of r] by simp
  qed
  then show "registry_ok r'" "total_count r' = total_count r"
    "card (live_agents r') + (if counted then 1 else 0) = card (live_agents r)" by simp_all
qed

lemma displace_thread:
  "(case x of Some t' \<Rightarrow> if t' \<noteq> t then P(t \<mapsto> v, t' := None) else P(t \<mapsto> v) | None \<Rightarrow> P(t \<mapsto> v))
   = (\<lambda>u. if u = t then Some v else if x = Some u then None else P u)"
  by (cases x) (auto simp: fun_eq_iff)

text \<open>Registering a thread displaces what the thread and the path held before, and adds at most one live agent.\<close>

lemma register_spawned_thread_form:
  assumes "agent_id md = Some t"
  obtains key tree U where
    "tree = agent_tree r \<or> (\<exists>a. thread_paths r t = Some a \<and> reg_path a \<noteq> key \<and> tree = (agent_tree r)(reg_path a := None))"
    "register_spawned_thread md r = r\<lparr>agent_tree := tree(key \<mapsto> md), used_agent_nicknames := U,
       thread_paths := (\<lambda>u. if u = t then Some (registered_new key)
          else if Option.bind (tree key) agent_id = Some u then None else thread_paths r u)\<rparr>"
    "\<And>p. agent_path md = Some p \<Longrightarrow> key = p"
proof -
  define key where "key = (case agent_path md of Some p \<Rightarrow> p | None \<Rightarrow> ''thread:'' @ t)"
  define tree where "tree = (case thread_paths r t of
      Some previous \<Rightarrow> if reg_path previous \<noteq> key then (agent_tree r)(reg_path previous := None) else agent_tree r
    | None \<Rightarrow> agent_tree r)"
  define U where
    "U = (case agent_nickname md of Some n \<Rightarrow> insert n (used_agent_nicknames r) | None \<Rightarrow> used_agent_nicknames r)"
  have "tree = agent_tree r \<or>
      (\<exists>a. thread_paths r t = Some a \<and> reg_path a \<noteq> key \<and> tree = (agent_tree r)(reg_path a := None))"
    by (cases "thread_paths r t") (simp_all add: tree_def)
  moreover have "register_spawned_thread md r = r\<lparr>agent_tree := tree(key \<mapsto> md), used_agent_nicknames := U,
      thread_paths := (case Option.bind (tree key) agent_id of
         Some t' \<Rightarrow> if t' \<noteq> t then (thread_paths r)(t \<mapsto> registered_new key, t' := None)
                   else (thread_paths r)(t \<mapsto> registered_new key)
       | None \<Rightarrow> (thread_paths r)(t \<mapsto> registered_new key))\<rparr>"
    using assms
    by (cases "agent_nickname md"; cases "thread_paths r t")
      (simp_all add: register_spawned_thread_def Let_def key_def tree_def U_def cong: option.case_cong if_cong)
  moreover have "\<And>p. agent_path md = Some p \<Longrightarrow> key = p" by (simp add: key_def)
  ultimately show thesis using that unfolding displace_thread by blast
qed

lemma register_spawned_thread_keeps:
  assumes ok: "registry_ok r"
  shows "registry_ok (register_spawned_thread md r)"
    "total_count (register_spawned_thread md r) = total_count r"
    "card (live_agents (register_spawned_thread md r)) \<le> card (live_agents r) + 1"
proof -
  have "registry_ok (register_spawned_thread md r) \<and> total_count (register_spawned_thread md r) = total_count r
    \<and> card (live_agents (register_spawned_thread md r)) \<le> card (live_agents r) + 1"
  proof (cases "agent_id md")
    case None
    then show ?thesis using ok by (simp add: register_spawned_thread_def)
  next
    case (Some t)
    obtain key tree U where tree: "tree = agent_tree r \<or>
        (\<exists>a. thread_paths r t = Some a \<and> reg_path a \<noteq> key \<and> tree = (agent_tree r)(reg_path a := None))"
      and R: "register_spawned_thread md r = r\<lparr>agent_tree := tree(key \<mapsto> md), used_agent_nicknames := U,
       thread_paths := (\<lambda>u. if u = t then Some (registered_new key)
          else if Option.bind (tree key) agent_id = Some u then None else thread_paths r u)\<rparr>"
      by (rule register_spawned_thread_form [OF Some])
    have fin: "finite (dom tree)" using tree ok by (auto simp: registry_ok_def)
    have same: "tree (reg_path b) = agent_tree r (reg_path b)" if "thread_paths r u = Some b" "u \<noteq> t" for u b
      using tree registry_okD [OF ok that(1)] registry_okD [OF ok, of t] that(2) by auto
    have "\<exists>m. (tree(key \<mapsto> md)) (reg_path b) = Some m \<and> agent_id m = Some u"
      if "thread_paths r u = Some b" "u \<noteq> t" "Option.bind (tree key) agent_id \<noteq> Some u" for u b
      using same [OF that(1,2)] registry_okD [OF ok that(1)] that(3) by (cases "reg_path b = key") auto
    then have "registry_ok (register_spawned_thread md r)"
      using fin Some by (simp add: R registry_ok_def registered_new_def)
    moreover have "live_agents (register_spawned_thread md r) \<subseteq> insert key (live_agents r)"
      using tree by (auto simp: R live_agents_def split: if_splits)
    then have "card (live_agents (register_spawned_thread md r)) \<le> card (insert key (live_agents r))"
      by (rule card_mono [rotated]) (simp add: finite_live_agents ok)
    ultimately show ?thesis
      using card_insert_le_m1 [of 1] finite_live_agents [OF ok] by (simp add: R card_insert_if split: if_splits)
  qed
  then show "registry_ok (register_spawned_thread md r)" "total_count (register_spawned_thread md r) = total_count r"
    "card (live_agents (register_spawned_thread md r)) \<le> card (live_agents r) + 1" by simp_all
qed


lemmas registry_keeps = reserve_agent_path_keeps release_reserved_agent_path_keeps set_evicted_keeps
  register_root_thread_keeps register_spawned_thread_keeps

lemma finite_dom_fun_upd: "finite (dom f) \<Longrightarrow> finite (dom (f(c := x)))"
  by (cases x) simp_all

lemma card_dom_set:
  "finite (dom f) \<Longrightarrow> card (dom (f(c \<mapsto> x))) = card (dom f) + (if f c = None then 1 else 0)"
  by (cases "c \<in> dom f") (simp_all add: insert_absorb domIff)

lemma card_dom_unset:
  assumes "finite (dom f)" "f c = Some x"
  shows "card (dom (f(c := None))) + 1 = card (dom f)"
  using assms card_Suc_Diff1 [of "dom f" c] by (simp add: domI)

lemma agent_step_inv:
  assumes "agent_step limit s s'" "agent_inv limit s"
  shows "agent_inv limit s'"
  using assms
proof (induction rule: agent_step.induct)
  case (exchanged m s c current)
  then show ?case by (simp add: agent_inv_def card_dom_set finite_dom_fun_upd del: dom_fun_upd)
next
  case (reserve_unlimited s c)
  then show ?case by (simp add: agent_inv_def card_dom_set finite_dom_fun_upd del: dom_fun_upd)
next
  case (reserve_nickname s c v pick names preferred n r)
  note * = reserve_agent_nickname_keeps [OF reserve_nickname.hyps(2)]
  then have "registry_ok r = registry_ok (reg s)" "live_agents r = live_agents (reg s)"
    using registry_ok_cong [of r "reg s"] live_agents_cong [of r "reg s"] by blast+
  then show ?case using * reserve_nickname.prems reserve_nickname.hyps(1)
    by (simp add: agent_inv_def card_dom_set finite_dom_fun_upd del: dom_fun_upd)
next
  case (reserve_path s c v p r)
  then show ?case using reserve_agent_path_keeps [OF reserve_path.hyps(2)]
    by (simp add: agent_inv_def card_dom_set finite_dom_fun_upd del: dom_fun_upd)
next
  case (commit s c v md)
  then have ok: "registry_ok (reg s)" by (simp add: agent_inv_def)
  show ?case using commit register_spawned_thread_keeps [OF ok, of md] card_dom_unset [of "reservations s" c]
    by (simp add: agent_inv_def finite_dom_fun_upd del: dom_fun_upd)
next
  case (drop_path s c v)
  then show ?case
    by (simp add: agent_inv_def card_dom_set finite_dom_fun_upd release_reserved_agent_path_keeps
        del: dom_fun_upd split: option.split)
next
  case (drop_count s c)
  then show ?case using card_dom_unset [of "reservations s" c Dropping]
    by (auto simp add: agent_inv_def finite_dom_fun_upd simp del: dom_fun_upd)
next
  case (release_remove t s counted r)
  then have ok: "registry_ok (reg s)" by (simp add: agent_inv_def)
  show ?case using release_remove.prems remove_thread_keeps [OF ok release_remove.hyps]
    by (auto simp: agent_inv_def)
next
  case (release_count s)
  then show ?case by (auto simp: agent_inv_def)
next
  case (evict s t envs)
  then show ?case
    by (simp add: agent_inv_def set_evicted_keeps live_agents_cong [OF set_evicted_keeps(1)])
qed (simp_all add: agent_inv_def register_root_thread_keeps)

lemma system_init_inv: "agent_inv limit system_init"
  by (simp add: agent_inv_def system_init_def registry_default_def registry_ok_def live_agents_def)

lemma agent_reachable_inv: "agent_reachable limit s \<Longrightarrow> agent_inv limit s"
  by (induction rule: agent_reachable.induct) (auto intro: system_init_inv agent_step_inv)


lemma agent_metadata_for_thread_id:
  "registry_ok r \<Longrightarrow> agent_metadata_for_thread t r = Some md \<Longrightarrow> agent_id md = Some t"
  using registry_okD [of r t] by (cases "thread_paths r t") (fastforce simp: agent_metadata_for_thread_def)+

lemma register_spawned_lookup:
  assumes ok: "registry_ok r" and new: "agent_id new = Some t" "agent_path new = Some p"
  shows "agent_metadata_for_thread t (register_spawned_thread new r) = Some new"
    "agent_id_for_path p (register_spawned_thread new r) = Some t"
    "u \<noteq> t \<Longrightarrow> agent_metadata_for_thread u r = Some other \<Longrightarrow> agent_id_for_path p r \<noteq> Some u \<Longrightarrow>
       agent_metadata_for_thread u (register_spawned_thread new r) = Some other"
proof -
  obtain tree U where tree: "tree = agent_tree r \<or>
      (\<exists>a. thread_paths r t = Some a \<and> reg_path a \<noteq> p \<and> tree = (agent_tree r)(reg_path a := None))"
    and R: "register_spawned_thread new r = r\<lparr>agent_tree := tree(p \<mapsto> new), used_agent_nicknames := U,
     thread_paths := (\<lambda>u. if u = t then Some (registered_new p)
        else if Option.bind (tree p) agent_id = Some u then None else thread_paths r u)\<rparr>"
    by (rule register_spawned_thread_form [OF new(1)]) (use new(2) in auto)
  show "agent_metadata_for_thread t (register_spawned_thread new r) = Some new"
    "agent_id_for_path p (register_spawned_thread new r) = Some t"
    by (simp_all add: R agent_metadata_for_thread_def agent_id_for_path_def registered_new_def new)
  assume u: "u \<noteq> t" "agent_metadata_for_thread u r = Some other" "agent_id_for_path p r \<noteq> Some u"
  then obtain b where b: "thread_paths r u = Some b" "agent_tree r (reg_path b) = Some other" "agent_id other = Some u"
    using agent_metadata_for_thread_id [OF ok u(2)] by (cases "thread_paths r u") (auto simp: agent_metadata_for_thread_def)
  have "reg_path b \<noteq> p" using b u(3) by (auto simp: agent_id_for_path_def)
  moreover have "reg_path b \<noteq> reg_path a" if "thread_paths r t = Some a" for a
    using registry_okD [OF ok that] b u(1) by auto
  moreover have "tree p = agent_tree r p" using tree by auto
  ultimately show "agent_metadata_for_thread u (register_spawned_thread new r) = Some other"
    using tree b u by (auto simp: R agent_metadata_for_thread_def agent_id_for_path_def)
qed

section \<open>Properties\<close>


text \<open>One client takes the only slot, spawns an agent and a second client is refused.\<close>

definition worker :: agent_metadata where
  "worker = metadata_default\<lparr>agent_id := Some ''t1'', agent_path := Some ''/root/a''\<rparr>"

definition one_agent :: "nat agent_system" where
  "one_agent = system_init\<lparr>reg := register_spawned_thread worker (add_count registry_default)\<rparr>"

lemma one_agent_reachable: "agent_reachable (Some 1) one_agent"
proof -
  let ?s1 = "(system_init :: nat agent_system)\<lparr>attempts := [0 \<mapsto> 0]\<rparr>"
  let ?s2 = "?s1\<lparr>reg := add_count registry_default, attempts := Map.empty, reservations := [0 \<mapsto> Held reservation_new]\<rparr>"
  have "agent_step (Some 1) system_init ?s1"
    using agent_step.load [of "Some 1" 1 "system_init :: nat agent_system" 0]
    by (simp add: system_init_def registry_default_def)
  moreover have "agent_step (Some 1) ?s1 ?s2"
    using agent_step.exchanged [of "Some 1" 1 ?s1 0 0] by (simp add: system_init_def registry_default_def)
  moreover have "agent_step (Some 1) ?s2 one_agent"
    using agent_step.commit [of ?s2 0 reservation_new "Some 1" worker] by (simp add: system_init_def one_agent_def)
  ultimately show ?thesis by (blast intro: agent_reachable.intros)
qed


text \<open>In every reachable state the metadata found for a thread bears that thread's id, and committing a
  reservation for a thread makes it the agent found for its thread and for its path, while the agents of the other
  threads, but for the one displaced from the path, are still found as before.\<close>

theorem agent_lookup_correct:
  assumes "agent_reachable limit s"
  shows "(agent_metadata_for_thread t (reg s) = Some md \<longrightarrow> agent_id md = Some t)
    \<and> (agent_id new = Some t \<and> agent_path new = Some p \<longrightarrow>
        agent_metadata_for_thread t (register_spawned_thread new (reg s)) = Some new
        \<and> agent_id_for_path p (register_spawned_thread new (reg s)) = Some t
        \<and> (u \<noteq> t \<and> agent_metadata_for_thread u (reg s) = Some other \<and> agent_id_for_path p (reg s) \<noteq> Some u \<longrightarrow>
             agent_metadata_for_thread u (register_spawned_thread new (reg s)) = Some other))"
proof -
  have ok: "registry_ok (reg s)" using agent_reachable_inv [OF assms] by (simp add: agent_inv_def)
  show ?thesis
    using register_spawned_lookup [OF ok] agent_metadata_for_thread_id [OF ok] by blast
qed

theorem agent_lookup_correct_witness:
  "agent_metadata_for_thread ''t1'' (register_spawned_thread worker (reg one_agent)) = Some worker"
  using agent_lookup_correct [OF one_agent_reachable, of "''t1''" worker worker "''/root/a''"]
  by (simp add: worker_def)

text \<open>The counting loop makes progress: a client whose last read is below the limit gets its reservation within
  two steps of its own as long as the counter stays below the limit, even when its read is out of date, and a client
  that has read the limit leaves the loop at once without a reservation.\<close>

theorem reserve_spawn_slot_progress:
  assumes "attempts s c = Some current"
  shows "(current < m \<and> total_count (reg s) < m \<longrightarrow>
      (\<exists>s1 s2. agent_step (Some m) s s1 \<and> agent_step (Some m) s1 s2
        \<and> reservations s2 c = Some (Held reservation_new) \<and> attempts s2 c = None
        \<and> total_count (reg s2) = total_count (reg s) + 1))
    \<and> (m \<le> current \<longrightarrow> (\<exists>s1. agent_step (Some m) s s1 \<and> attempts s1 c = None \<and> reg s1 = reg s
        \<and> reservations s1 = reservations s))"
proof (intro conjI impI)
  assume "current < m \<and> total_count (reg s) < m"
  then have lt: "current < m" "total_count (reg s) < m" by simp_all
  let ?s1 = "s\<lparr>attempts := (attempts s)(c \<mapsto> total_count (reg s))\<rparr>"
  have "agent_step (Some m) s ?s1" by (rule agent_step.exchange_failed [OF refl assms lt(1)])
  moreover have "agent_step (Some m) ?s1 (?s1\<lparr>reg := add_count (reg ?s1), attempts := (attempts ?s1)(c := None),
      reservations := (reservations ?s1)(c \<mapsto> Held reservation_new)\<rparr>)"
    using lt by (intro agent_step.exchanged [OF refl]) simp_all
  ultimately show "\<exists>s1 s2. agent_step (Some m) s s1 \<and> agent_step (Some m) s1 s2
        \<and> reservations s2 c = Some (Held reservation_new) \<and> attempts s2 c = None
        \<and> total_count (reg s2) = total_count (reg s) + 1" by fastforce
next
  assume "m \<le> current"
  then have "agent_step (Some m) s (s\<lparr>attempts := (attempts s)(c := None)\<rparr>)"
    using assms by (intro agent_step.limit_reached [OF refl])
  then show "\<exists>s1. agent_step (Some m) s s1 \<and> attempts s1 c = None \<and> reg s1 = reg s \<and> reservations s1 = reservations s"
    by fastforce
qed

theorem reserve_spawn_slot_progress_witness:
  "\<exists>s1 s2. agent_step (Some 2) (one_agent\<lparr>attempts := [3 \<mapsto> 0]\<rparr>) s1 \<and> agent_step (Some 2) s1 s2
     \<and> reservations s2 3 = Some (Held reservation_new) \<and> total_count (reg s2) = 2"
proof -
  have "total_count (reg one_agent) = 1"
    by (simp add: one_agent_def register_spawned_thread_def worker_def metadata_default_def registry_default_def
        system_init_def add_count_def Let_def)
  then show ?thesis
    using reserve_spawn_slot_progress [of "one_agent\<lparr>attempts := [3 \<mapsto> 0]\<rparr>" 3 0 2] by fastforce
qed

end
