(* ===== verification/Ip_Address.thy ===== *)
theory Ip_Address
  imports Rust_Prelude "HOL-Library.Word"
begin

text \<open>
  Addresses of the standard library (\<open>std::net\<close>), as far as the network proxy uses them: an IPv4 address
  is a 32-bit word, an IPv6 address is the list of its eight 16-bit segments.  The parser of address texts
  is a cursor over the bytes, each reader returning its value and the rest or failing without moving.
\<close>

unbundle bit_operations_syntax

type_synonym ipv4_addr = "32 word"
type_synonym ipv6_addr = "16 word list"

datatype ip_addr = V4 ipv4_addr | V6 ipv6_addr

definition ipv4_new :: "int \<Rightarrow> int \<Rightarrow> int \<Rightarrow> int \<Rightarrow> ipv4_addr" where
  "ipv4_new a b c d = word_of_int (((a * 256 + b) * 256 + c) * 256 + d)"

definition ipv4_octet :: "nat \<Rightarrow> ipv4_addr \<Rightarrow> int" where
  "ipv4_octet i ip = uint ip div 256 ^ (3 - i) mod 256"

section \<open>Classification\<close>

definition ipv4_is_loopback :: "ipv4_addr \<Rightarrow> bool" where
  "ipv4_is_loopback ip \<longleftrightarrow> ipv4_octet 0 ip = 127"

definition ipv4_is_private :: "ipv4_addr \<Rightarrow> bool" where
  "ipv4_is_private ip \<longleftrightarrow>
     ipv4_octet 0 ip = 10
     \<or> ipv4_octet 0 ip = 172 \<and> 16 \<le> ipv4_octet 1 ip \<and> ipv4_octet 1 ip \<le> 31
     \<or> ipv4_octet 0 ip = 192 \<and> ipv4_octet 1 ip = 168"

definition ipv4_is_link_local :: "ipv4_addr \<Rightarrow> bool" where
  "ipv4_is_link_local ip \<longleftrightarrow> ipv4_octet 0 ip = 169 \<and> ipv4_octet 1 ip = 254"

definition ipv4_is_unspecified :: "ipv4_addr \<Rightarrow> bool" where
  "ipv4_is_unspecified ip \<longleftrightarrow> ip = 0"

definition ipv4_is_multicast :: "ipv4_addr \<Rightarrow> bool" where
  "ipv4_is_multicast ip \<longleftrightarrow> 224 \<le> ipv4_octet 0 ip \<and> ipv4_octet 0 ip \<le> 239"

definition ipv4_is_broadcast :: "ipv4_addr \<Rightarrow> bool" where
  "ipv4_is_broadcast ip \<longleftrightarrow> ip = 0xFFFFFFFF"

definition ipv6_is_loopback :: "ipv6_addr \<Rightarrow> bool" where
  "ipv6_is_loopback segs \<longleftrightarrow> segs = [0, 0, 0, 0, 0, 0, 0, 1]"

definition ipv6_is_unspecified :: "ipv6_addr \<Rightarrow> bool" where
  "ipv6_is_unspecified segs \<longleftrightarrow> segs = [0, 0, 0, 0, 0, 0, 0, 0]"

definition ipv6_is_multicast :: "ipv6_addr \<Rightarrow> bool" where
  "ipv6_is_multicast segs \<longleftrightarrow> hd segs AND 0xFF00 = 0xFF00"

definition ipv6_is_unique_local :: "ipv6_addr \<Rightarrow> bool" where
  "ipv6_is_unique_local segs \<longleftrightarrow> hd segs AND 0xFE00 = 0xFC00"

definition ipv6_is_unicast_link_local :: "ipv6_addr \<Rightarrow> bool" where
  "ipv6_is_unicast_link_local segs \<longleftrightarrow> hd segs AND 0xFFC0 = 0xFE80"

text \<open>\<open>Ipv6Addr::to_ipv4\<close>: addresses compatible with or mapped from an IPv4 address.\<close>

fun ipv6_to_ipv4 :: "ipv6_addr \<Rightarrow> ipv4_addr option" where
  "ipv6_to_ipv4 [a, b, c, d, e, f, g, h] =
     (if a = 0 \<and> b = 0 \<and> c = 0 \<and> d = 0 \<and> e = 0 \<and> (f = 0 \<or> f = 0xFFFF)
      then Some (word_of_int (uint g * 65536 + uint h)) else None)"
| "ipv6_to_ipv4 _ = None"

fun ip_is_loopback :: "ip_addr \<Rightarrow> bool" where
  "ip_is_loopback (V4 ip) = ipv4_is_loopback ip"
| "ip_is_loopback (V6 ip) = ipv6_is_loopback ip"

section \<open>Parsing\<close>

definition to_digit :: "int \<Rightarrow> char \<Rightarrow> int option" where
  "to_digit radix c =
     (let d = (if is_ascii_digit c then int (byte_val c) - 48
               else if is_ascii_lower c then int (byte_val c) - 87
               else if is_ascii_upper c then int (byte_val c) - 55 else radix)
      in if d < radix then Some d else None)"

fun read_digits :: "int \<Rightarrow> int \<Rightarrow> nat \<Rightarrow> int \<Rightarrow> nat \<Rightarrow> str \<Rightarrow> (int \<times> nat \<times> str) option" where
  "read_digits radix max_val max_digits acc n [] = Some (acc, n, [])"
| "read_digits radix max_val max_digits acc n (c # s) =
     (case to_digit radix c of
        None \<Rightarrow> Some (acc, n, c # s)
      | Some d \<Rightarrow>
          if max_val < acc * radix + d \<or> max_digits < Suc n then None
          else read_digits radix max_val max_digits (acc * radix + d) (Suc n) s)"

definition read_number :: "int \<Rightarrow> int \<Rightarrow> nat \<Rightarrow> bool \<Rightarrow> str \<Rightarrow> (int \<times> str) option" where
  "read_number radix max_val max_digits allow_zero_prefix s =
     (case read_digits radix max_val max_digits 0 0 s of
        None \<Rightarrow> None
      | Some (v, n, r) \<Rightarrow>
          if n = 0 then None
          else if \<not> allow_zero_prefix \<and> starts_with s ''0'' \<and> 1 < n then None
          else Some (v, r))"

definition read_separator :: "char \<Rightarrow> nat \<Rightarrow> (str \<Rightarrow> ('a \<times> str) option) \<Rightarrow> str \<Rightarrow> ('a \<times> str) option" where
  "read_separator sep i f s =
     (if i = 0 then f s else (case s of c # r \<Rightarrow> if c = sep then f r else None | [] \<Rightarrow> None))"

definition read_octet :: "nat \<Rightarrow> str \<Rightarrow> (int \<times> str) option" where
  "read_octet i = read_separator (CHR ''.'') i (read_number 10 255 3 False)"

definition read_ipv4_addr :: "str \<Rightarrow> (ipv4_addr \<times> str) option" where
  "read_ipv4_addr s =
     Option.bind (read_octet 0 s) (\<lambda>(a, s). Option.bind (read_octet 1 s) (\<lambda>(b, s).
     Option.bind (read_octet 2 s) (\<lambda>(c, s). Option.bind (read_octet 3 s) (\<lambda>(d, s).
       Some (ipv4_new a b c d, s)))))"

text \<open>The groups read into \<open>n\<close> remaining slots from position \<open>i\<close>, and whether an IPv4 address ended them.\<close>

fun read_groups :: "nat \<Rightarrow> nat \<Rightarrow> str \<Rightarrow> 16 word list \<times> bool \<times> str" where
  "read_groups 0 i s = ([], False, s)"
| "read_groups (Suc n) i s =
     (case (if 0 < n then read_separator (CHR '':'') i read_ipv4_addr s else None) of
        Some (ip, r) \<Rightarrow> ([word_of_int (uint ip div 65536), word_of_int (uint ip mod 65536)], True, r)
      | None \<Rightarrow>
          (case read_separator (CHR '':'') i (read_number 16 65535 4 True) s of
             Some (g, r) \<Rightarrow> (case read_groups n (Suc i) r of (gs, v4, r') \<Rightarrow> (word_of_int g # gs, v4, r'))
           | None \<Rightarrow> ([], False, s)))"

definition read_ipv6_addr :: "str \<Rightarrow> (ipv6_addr \<times> str) option" where
  "read_ipv6_addr s =
     (case read_groups 8 0 s of (head, head_ipv4, r) \<Rightarrow>
        if length head = 8 then Some (head, r)
        else if head_ipv4 then None
        else (case strip_prefix ''::'' r of
                None \<Rightarrow> None
              | Some r \<Rightarrow>
                  (case read_groups (8 - (length head + 1)) 0 r of (back, _, r) \<Rightarrow>
                     Some (head @ replicate (8 - length head - length back) 0 @ back, r))))"

text \<open>\<open>str::parse::<IpAddr>\<close>.\<close>

definition parse_ip :: "str \<Rightarrow> ip_addr option" where
  "parse_ip s =
     (case read_ipv4_addr s of
        Some (ip, r) \<Rightarrow> if r = [] then Some (V4 ip) else None
      | None \<Rightarrow>
          (case read_ipv6_addr s of
             Some (ip, r) \<Rightarrow> if r = [] then Some (V6 ip) else None
           | None \<Rightarrow> None))"

section \<open>What addresses are made of\<close>

definition is_ip_char :: "char \<Rightarrow> bool" where
  "is_ip_char c \<longleftrightarrow> to_digit 16 c \<noteq> None \<or> c = CHR ''.'' \<or> c = CHR '':''"

text \<open>A reader consumes a part of its input that is made of such characters.\<close>

definition reads_ip :: "(str \<Rightarrow> ('a \<times> str) option) \<Rightarrow> bool" where
  "reads_ip f \<longleftrightarrow> (\<forall>s a r. f s = Some (a, r) \<longrightarrow> (\<exists>p. s = p @ r \<and> list_all is_ip_char p))"

lemma reads_ipE:
  assumes "reads_ip f" "f s = Some (a, r)"
  obtains p where "s = p @ r" "list_all is_ip_char p"
  using assms unfolding reads_ip_def by blast

lemma to_digit_ip_char: "to_digit radix c = Some d \<Longrightarrow> radix \<le> 16 \<Longrightarrow> is_ip_char c"
  by (auto simp: is_ip_char_def to_digit_def Let_def split: if_splits)

lemma read_digits_ip:
  "read_digits radix m k acc n s = Some (v, n', r) \<Longrightarrow> radix \<le> 16 \<Longrightarrow> \<exists>p. s = p @ r \<and> list_all is_ip_char p"
proof (induction s arbitrary: acc n)
  case (Cons c s)
  show ?case
  proof (cases "to_digit radix c")
    case (Some d)
    then obtain p where "s = p @ r" "list_all is_ip_char p" using Cons by (auto split: if_splits)
    then show ?thesis using to_digit_ip_char [OF Some Cons.prems(2)] by (intro exI [of _ "c # p"]) simp
  qed (use Cons.prems in simp)
qed simp

lemma reads_ip_number: "radix \<le> 16 \<Longrightarrow> reads_ip (read_number radix m k z)"
  by (auto simp: reads_ip_def read_number_def split: option.splits if_splits dest: read_digits_ip)

lemma reads_ip_separator:
  assumes "reads_ip f" "is_ip_char sep"
  shows "reads_ip (read_separator sep i f)"
  unfolding reads_ip_def
proof (intro allI impI)
  fix s a r
  assume "read_separator sep i f s = Some (a, r)"
  then consider "f s = Some (a, r)" | t where "s = sep # t" "f t = Some (a, r)"
    by (auto simp: read_separator_def split: if_splits list.splits)
  then show "\<exists>p. s = p @ r \<and> list_all is_ip_char p"
  proof cases
    case 2
    then obtain p where "t = p @ r" "list_all is_ip_char p" using assms(1) unfolding reads_ip_def by blast
    then show ?thesis using 2 assms(2) by (intro exI [of _ "sep # p"]) simp
  qed (use assms(1) in \<open>auto simp: reads_ip_def\<close>)
qed

lemma reads_ip_bind:
  assumes "reads_ip f" "\<And>a. reads_ip (g a)"
  shows "reads_ip (\<lambda>s. Option.bind (f s) (\<lambda>(a, s). g a s))"
  unfolding reads_ip_def
proof (intro allI impI)
  fix s b r
  assume "Option.bind (f s) (\<lambda>(a, s). g a s) = Some (b, r)"
  then obtain a t where "f s = Some (a, t)" "g a t = Some (b, r)" by (auto simp: bind_eq_Some_conv)
  then obtain p q where "s = p @ t" "list_all is_ip_char p" "t = q @ r" "list_all is_ip_char q"
    using assms unfolding reads_ip_def by blast
  then show "\<exists>p. s = p @ r \<and> list_all is_ip_char p" by (intro exI [of _ "p @ q"]) simp
qed

lemma reads_ip_return: "reads_ip (\<lambda>s. Some (a, s))"
  by (simp add: reads_ip_def)

lemma reads_ip_octet: "reads_ip (read_octet i)"
  unfolding read_octet_def by (intro reads_ip_separator reads_ip_number) (simp_all add: is_ip_char_def)

lemma reads_ip_ipv4: "reads_ip read_ipv4_addr"
proof -
  have "read_ipv4_addr = (\<lambda>s. Option.bind (read_octet 0 s) (\<lambda>(a, s). Option.bind (read_octet 1 s) (\<lambda>(b, s).
     Option.bind (read_octet 2 s) (\<lambda>(c, s). Option.bind (read_octet 3 s) (\<lambda>(d, s). Some (ipv4_new a b c d, s))))))"
    by (rule ext) (simp add: read_ipv4_addr_def)
  moreover have "reads_ip \<dots>" by (intro reads_ip_bind reads_ip_octet reads_ip_return)
  ultimately show ?thesis by (simp only:)
qed

lemma read_groups_ip:
  "read_groups n i s = (gs, v4, r) \<Longrightarrow> (\<exists>p. s = p @ r \<and> list_all is_ip_char p) \<and> length gs \<le> n"
proof (induction n arbitrary: i s gs v4)
  case (Suc n)
  let ?v = "if 0 < n then read_separator (CHR '':'') i read_ipv4_addr s else None"
  let ?g = "read_separator (CHR '':'') i (read_number 16 65535 4 True) s"
  have colon: "is_ip_char (CHR '':'')" by (simp add: is_ip_char_def)
  show ?case
  proof (cases ?v)
    case (Some x)
    then show ?thesis using Suc.prems reads_ip_separator [OF reads_ip_ipv4 colon, of i]
      by (cases x) (auto simp: reads_ip_def split: if_splits)
  next
    case None
    show ?thesis
    proof (cases ?g)
      case (Some x)
      obtain g t where x: "x = (g, t)" by (cases x)
      obtain gs' v' r' where rec: "read_groups n (Suc i) t = (gs', v', r')" by (metis prod_cases3)
      obtain p where p: "s = p @ t" "list_all is_ip_char p"
        by (rule reads_ipE [OF reads_ip_separator [OF reads_ip_number colon], of 16 i 65535 4 True]) (use Some x in simp_all)
      have eq: "r = r'" "length gs = Suc (length gs')" using Suc.prems None Some x rec by auto
      obtain q where "t = q @ r" "list_all is_ip_char q" "length gs' \<le> n" using Suc.IH [OF rec [folded eq(1)]] by auto
      then show ?thesis using p eq by (intro conjI exI [of _ "p @ q"]) auto
    qed (use Suc.prems None in auto)
  qed
qed simp

lemma reads_ip_ipv6: "reads_ip read_ipv6_addr"
  unfolding reads_ip_def
proof (intro allI impI)
  fix s a r
  assume read: "read_ipv6_addr s = Some (a, r)"
  obtain h v t where h: "read_groups 8 0 s = (h, v, t)" by (metis prod_cases3)
  obtain p where p: "s = p @ t" "list_all is_ip_char p" using read_groups_ip [OF h] by auto
  show "\<exists>p. s = p @ r \<and> list_all is_ip_char p"
  proof (cases "length h = 8")
    case False
    then obtain u where u: "strip_prefix ''::'' t = Some u"
      using read h by (auto simp: read_ipv6_addr_def split: if_splits option.splits)
    obtain b w t' where b: "read_groups (8 - (length h + 1)) 0 u = (b, w, t')" by (metis prod_cases3)
    obtain q where "u = q @ t'" "list_all is_ip_char q" using read_groups_ip [OF b] by auto
    moreover have "t' = r" using read h False u b by (auto simp: read_ipv6_addr_def split: if_splits)
    moreover have "t = ''::'' @ u" using u by (simp add: strip_prefix_Some_iff)
    ultimately show ?thesis using p by (intro exI [of _ "p @ ''::'' @ q"]) (simp add: is_ip_char_def)
  qed (use read h p in \<open>auto simp: read_ipv6_addr_def\<close>)
qed

lemma parse_ip_chars: "parse_ip s = Some ip \<Longrightarrow> list_all is_ip_char s"
  by (auto simp: parse_ip_def split: option.splits if_splits elim: reads_ipE [OF reads_ip_ipv4] reads_ipE [OF reads_ip_ipv6])

lemma read_ipv6_segments:
  assumes "read_ipv6_addr s = Some (segs, r)"
  shows "length segs = 8"
proof -
  obtain h v t where h: "read_groups 8 0 s = (h, v, t)" by (metis prod_cases3)
  show ?thesis
  proof (cases "length h = 8")
    case False
    then have less: "length h < 8" using read_groups_ip [OF h] by simp
    obtain u where u: "strip_prefix ''::'' t = Some u"
      using assms h False by (auto simp: read_ipv6_addr_def split: if_splits option.splits)
    obtain b w t' where b: "read_groups (8 - (length h + 1)) 0 u = (b, w, t')" by (metis prod_cases3)
    have "length b \<le> 8 - (length h + 1)" using read_groups_ip [OF b] by simp
    moreover have "segs = h @ replicate (8 - length h - length b) 0 @ b"
      using assms h False u b by (auto simp: read_ipv6_addr_def split: if_splits)
    ultimately show ?thesis using less by simp
  qed (use assms h in \<open>auto simp: read_ipv6_addr_def\<close>)
qed

lemma parse_ip_segments: "parse_ip s = Some (V6 segs) \<Longrightarrow> length segs = 8"
  by (auto simp: parse_ip_def split: option.splits if_splits dest: read_ipv6_segments)

end
