(* ===== verification/Network_Policy.thy ===== *)
theory Network_Policy
  imports Ip_Address
begin

text \<open>
  Hosts and domain patterns of the network proxy (\<open>codex-rs/network-proxy/src/policy.rs\<close>): normalisation of
  hosts, addresses that are not public, patterns with a leading wildcard, their expansion to globs and
  their comparison with the patterns of a managed configuration.

  The crate \<open>globset\<close> is the record \<open>glob_lib\<close>, and \<open>url::Host::parse\<close> followed by \<open>to_string\<close> is a function
  argument.  Their documented behaviour on the patterns of the policy is stated as the predicates \<open>glob_ok\<close> and
  \<open>url_host_ok\<close>.
\<close>

definition trim_end_char :: "char \<Rightarrow> str \<Rightarrow> str" where
  "trim_end_char c s = rev (dropWhile (\<lambda>x. x = c) (rev s))"

text \<open>\<open>str::split_once\<close> at a text.\<close>

definition split_once_str :: "str \<Rightarrow> str \<Rightarrow> (str \<times> str) option" where
  "split_once_str d s = map_option (\<lambda>i. (take i s, drop (i + length d) s)) (find_str s d)"

section \<open>Hosts\<close>

definition unscoped_ip_literal :: "str \<Rightarrow> str option" where
  "unscoped_ip_literal host =
     (case split_once (CHR ''%'') host of
        None \<Rightarrow> None
      | Some (ip, _) \<Rightarrow> if parse_ip ip = None then None else Some ip)"

definition scoped_with :: "str \<Rightarrow> str \<Rightarrow> str option" where
  "scoped_with delimiter host =
     (case split_once_str delimiter host of
        None \<Rightarrow> None
      | Some (ip, scope) \<Rightarrow> if parse_ip ip = None then None else Some (ip @ ''%'' @ scope))"

definition normalize_ip_literal :: "str \<Rightarrow> str option" where
  "normalize_ip_literal host =
     (if parse_ip host \<noteq> None then Some host
      else (case scoped_with ''%25'' host of
              Some r \<Rightarrow> Some r
            | None \<Rightarrow> scoped_with ''%'' host))"

definition normalize_dns_host_or_ip_literal :: "str \<Rightarrow> str" where
  "normalize_dns_host_or_ip_literal host =
     (let host = trim_end_char (CHR ''.'') (to_ascii_lowercase host)
      in case normalize_ip_literal host of Some ip \<Rightarrow> ip | None \<Rightarrow> host)"

definition normalize_host :: "str \<Rightarrow> str" where
  "normalize_host s =
     (let host = trim s
      in case (if starts_with host ''['' then find_str host '']'' else None) of
           Some e \<Rightarrow> normalize_dns_host_or_ip_literal (drop 1 (take e host))
         | None \<Rightarrow>
             if length (filter (\<lambda>b. b = CHR '':'') host) = 1
             then normalize_dns_host_or_ip_literal (hd (split_on (CHR '':'') host))
             else normalize_dns_host_or_ip_literal host)"

text \<open>\<open>Host::parse\<close>: the normalised host, unless it is empty.\<close>

definition host_parse :: "str \<Rightarrow> str option" where
  "host_parse input = (let normalized = normalize_host input in if normalized = [] then None else Some normalized)"

definition is_loopback_host :: "str \<Rightarrow> bool" where
  "is_loopback_host host =
     (let host = (case unscoped_ip_literal host of Some ip \<Rightarrow> ip | None \<Rightarrow> host)
      in if host = ''localhost'' then True
         else (case parse_ip host of Some ip \<Rightarrow> ip_is_loopback ip | None \<Rightarrow> False))"

section \<open>Addresses that are not public\<close>

definition ipv4_in_cidr :: "ipv4_addr \<Rightarrow> ipv4_addr \<Rightarrow> nat \<Rightarrow> bool" where
  "ipv4_in_cidr ip base bits =
     (let m = (if bits = 0 then 0 else push_bit (32 - bits) (- 1)) in ip AND m = base AND m)"

definition is_non_public_ipv4 :: "ipv4_addr \<Rightarrow> bool" where
  "is_non_public_ipv4 ip \<longleftrightarrow>
     ipv4_is_loopback ip
     \<or> ipv4_is_private ip
     \<or> ipv4_is_link_local ip
     \<or> ipv4_is_unspecified ip
     \<or> ipv4_is_multicast ip
     \<or> ipv4_is_broadcast ip
     \<or> ipv4_in_cidr ip (ipv4_new 0 0 0 0) 8
     \<or> ipv4_in_cidr ip (ipv4_new 100 64 0 0) 10
     \<or> ipv4_in_cidr ip (ipv4_new 192 0 0 0) 24
     \<or> ipv4_in_cidr ip (ipv4_new 192 0 2 0) 24
     \<or> ipv4_in_cidr ip (ipv4_new 198 18 0 0) 15
     \<or> ipv4_in_cidr ip (ipv4_new 198 51 100 0) 24
     \<or> ipv4_in_cidr ip (ipv4_new 203 0 113 0) 24
     \<or> ipv4_in_cidr ip (ipv4_new 240 0 0 0) 4"

definition is_non_public_ipv6 :: "ipv6_addr \<Rightarrow> bool" where
  "is_non_public_ipv6 ip \<longleftrightarrow>
     (case ipv6_to_ipv4 ip of
        Some v4 \<Rightarrow> is_non_public_ipv4 v4 \<or> ipv6_is_loopback ip
      | None \<Rightarrow>
          ipv6_is_loopback ip
          \<or> ipv6_is_unspecified ip
          \<or> ipv6_is_multicast ip
          \<or> ipv6_is_unique_local ip
          \<or> ipv6_is_unicast_link_local ip)"

fun is_non_public_ip :: "ip_addr \<Rightarrow> bool" where
  "is_non_public_ip (V4 ip) = is_non_public_ipv4 ip"
| "is_non_public_ip (V6 ip) = is_non_public_ipv6 ip"

section \<open>Domain patterns\<close>

definition normalize_pattern :: "str \<Rightarrow> str" where
  "normalize_pattern s =
     (let pattern = trim s
      in if pattern = ''*'' then ''*''
         else
           (let (pre, remainder) =
                  (case strip_prefix ''**.'' pattern of
                     Some domain \<Rightarrow> (''**.'', domain)
                   | None \<Rightarrow>
                       (case strip_prefix ''*.'' pattern of
                          Some domain \<Rightarrow> (''*.'', domain)
                        | None \<Rightarrow> ([], pattern)));
                remainder = normalize_host remainder
            in if pre = [] then remainder else pre @ remainder))"

datatype domain_pattern = ApexAndSubdomains str | SubdomainsOnly str | ExactDomain str

definition parse_domain :: "str \<Rightarrow> (str \<Rightarrow> domain_pattern) \<Rightarrow> domain_pattern" where
  "parse_domain domain build =
     (let domain = trim domain in if domain = [] then ExactDomain [] else build domain)"

definition domain_pattern_parse :: "str \<Rightarrow> domain_pattern" where
  "domain_pattern_parse s =
     (let input = trim s
      in if input = [] then ExactDomain []
         else (case strip_prefix ''**.'' input of
                 Some domain \<Rightarrow> parse_domain domain ApexAndSubdomains
               | None \<Rightarrow>
                   (case strip_prefix ''*.'' input of
                      Some domain \<Rightarrow> parse_domain domain SubdomainsOnly
                    | None \<Rightarrow> ExactDomain input)))"

definition parse_domain_for_constraints :: "(str \<Rightarrow> str option) \<Rightarrow> str \<Rightarrow> str" where
  "parse_domain_for_constraints url_host s =
     (let domain = trim_end_char (CHR ''.'') (trim s)
      in if domain = [] then []
         else
           (let host = (if starts_with domain ''['' \<and> ends_with domain '']'' then drop 1 (take (length domain - 1) domain) else domain)
            in if contains_str host ''*'' \<or> contains_str host ''?'' \<or> contains_str host ''%'' then domain
               else (case url_host host of Some h \<Rightarrow> h | None \<Rightarrow> [])))"

definition parse_for_constraints :: "(str \<Rightarrow> str option) \<Rightarrow> str \<Rightarrow> domain_pattern" where
  "parse_for_constraints url_host s =
     (let input = trim s
      in if input = [] then ExactDomain []
         else (case strip_prefix ''**.'' input of
                 Some domain \<Rightarrow> ApexAndSubdomains (parse_domain_for_constraints url_host domain)
               | None \<Rightarrow>
                   (case strip_prefix ''*.'' input of
                      Some domain \<Rightarrow> SubdomainsOnly (parse_domain_for_constraints url_host domain)
                    | None \<Rightarrow> ExactDomain (parse_domain_for_constraints url_host input))))"

definition normalize_domain :: "str \<Rightarrow> str" where
  "normalize_domain domain = to_ascii_lowercase (trim_end_char (CHR ''.'') domain)"

definition domain_eq :: "str \<Rightarrow> str \<Rightarrow> bool" where
  "domain_eq left right \<longleftrightarrow> normalize_domain left = normalize_domain right"

definition is_subdomain_or_equal :: "str \<Rightarrow> str \<Rightarrow> bool" where
  "is_subdomain_or_equal child parent =
     (let child = normalize_domain child; parent = normalize_domain parent
      in if child = parent then True else ends_with child (''.'' @ parent))"

definition is_strict_subdomain :: "str \<Rightarrow> str \<Rightarrow> bool" where
  "is_strict_subdomain child parent =
     (let child = normalize_domain child; parent = normalize_domain parent
      in child \<noteq> parent \<and> ends_with child (''.'' @ parent))"

fun pattern_allows :: "domain_pattern \<Rightarrow> domain_pattern \<Rightarrow> bool" where
  "pattern_allows (ExactDomain domain) candidate =
     (case candidate of ExactDomain c \<Rightarrow> domain_eq c domain | _ \<Rightarrow> False)"
| "pattern_allows (SubdomainsOnly domain) candidate =
     (case candidate of
        ExactDomain c \<Rightarrow> is_strict_subdomain c domain
      | SubdomainsOnly c \<Rightarrow> is_subdomain_or_equal c domain
      | ApexAndSubdomains c \<Rightarrow> is_strict_subdomain c domain)"
| "pattern_allows (ApexAndSubdomains domain) candidate =
     (case candidate of
        ExactDomain c \<Rightarrow> is_subdomain_or_equal c domain
      | SubdomainsOnly c \<Rightarrow> is_subdomain_or_equal c domain
      | ApexAndSubdomains c \<Rightarrow> is_subdomain_or_equal c domain)"

definition expand_domain_pattern :: "str \<Rightarrow> str list" where
  "expand_domain_pattern pattern =
     (case domain_pattern_parse pattern of
        ExactDomain domain \<Rightarrow> [domain]
      | SubdomainsOnly domain \<Rightarrow> [''?*.'' @ domain]
      | ApexAndSubdomains domain \<Rightarrow> [domain, ''?*.'' @ domain])"

definition is_global_wildcard_domain_pattern :: "str \<Rightarrow> bool" where
  "is_global_wildcard_domain_pattern pattern \<longleftrightarrow>
     list_ex (\<lambda>c. c = ''*'') (expand_domain_pattern (normalize_pattern pattern))"

section \<open>Compilation to globs\<close>

record ('g, 's, 'e) glob_lib =
  glob_build :: "str \<Rightarrow> 'e + 'g"
  glob_matches :: "'g \<Rightarrow> str \<Rightarrow> bool"
  globset_build :: "'g list \<Rightarrow> 'e + 's"
  globset_is_match :: "'s \<Rightarrow> str \<Rightarrow> bool"

datatype global_wildcard = AllowGlobalWildcard | RejectGlobalWildcard

datatype 'e compile_error = UnsupportedGlobalWildcard | InvalidGlobPattern str 'e | GlobSetError 'e

text \<open>The candidates of one pattern are added unless they were seen before.\<close>

fun add_candidates ::
    "('g, 's, 'e) glob_lib \<Rightarrow> str list \<Rightarrow> str list \<times> 'g list \<Rightarrow> 'e compile_error + str list \<times> 'g list" where
  "add_candidates L [] acc = Inr acc"
| "add_candidates L (c # cs) (seen, globs) =
     (if c \<in> set seen then add_candidates L cs (seen, globs)
      else (case glob_build L c of
              Inl e \<Rightarrow> Inl (InvalidGlobPattern c e)
            | Inr g \<Rightarrow> add_candidates L cs (seen @ [c], globs @ [g])))"

fun add_patterns ::
    "('g, 's, 'e) glob_lib \<Rightarrow> global_wildcard \<Rightarrow> str list \<Rightarrow> str list \<times> 'g list \<Rightarrow> 'e compile_error + str list \<times> 'g list" where
  "add_patterns L w [] acc = Inr acc"
| "add_patterns L w (p # ps) acc =
     (if w = RejectGlobalWildcard \<and> is_global_wildcard_domain_pattern p then Inl UnsupportedGlobalWildcard
      else and_then (add_candidates L (expand_domain_pattern (normalize_pattern p)) acc) (add_patterns L w ps))"

definition compile_globset_with_policy ::
    "('g, 's, 'e) glob_lib \<Rightarrow> str list \<Rightarrow> global_wildcard \<Rightarrow> 'e compile_error + 's" where
  "compile_globset_with_policy L patterns w =
     and_then (add_patterns L w patterns ([], [])) (\<lambda>(_, globs). map_err GlobSetError (globset_build L globs))"

definition compile_allowlist_globset :: "('g, 's, 'e) glob_lib \<Rightarrow> str list \<Rightarrow> 'e compile_error + 's" where
  "compile_allowlist_globset L patterns = compile_globset_with_policy L patterns AllowGlobalWildcard"

definition compile_denylist_globset :: "('g, 's, 'e) glob_lib \<Rightarrow> str list \<Rightarrow> 'e compile_error + 's" where
  "compile_denylist_globset L patterns = compile_globset_with_policy L patterns RejectGlobalWildcard"

section \<open>The ranges of addresses that are not public\<close>

text \<open>The special-purpose ranges, from the registry that the comments of the code refer to.\<close>

definition special_ranges :: "(ipv4_addr \<times> ipv4_addr) list" where
  "special_ranges =
     [(ipv4_new 0 0 0 0, ipv4_new 0 255 255 255), (ipv4_new 10 0 0 0, ipv4_new 10 255 255 255),
      (ipv4_new 100 64 0 0, ipv4_new 100 127 255 255), (ipv4_new 127 0 0 0, ipv4_new 127 255 255 255),
      (ipv4_new 169 254 0 0, ipv4_new 169 254 255 255), (ipv4_new 172 16 0 0, ipv4_new 172 31 255 255),
      (ipv4_new 192 0 0 0, ipv4_new 192 0 0 255), (ipv4_new 192 0 2 0, ipv4_new 192 0 2 255),
      (ipv4_new 192 168 0 0, ipv4_new 192 168 255 255), (ipv4_new 198 18 0 0, ipv4_new 198 19 255 255),
      (ipv4_new 198 51 100 0, ipv4_new 198 51 100 255), (ipv4_new 203 0 113 0, ipv4_new 203 0 113 255),
      (ipv4_new 224 0 0 0, ipv4_new 255 255 255 255)]"

lemma and_not_mask_eq_iff:
  fixes a b :: "'a::len word"
  shows "a AND NOT (mask n) = b AND NOT (mask n) \<longleftrightarrow> drop_bit n a = drop_bit n b"
proof
  have "drop_bit n x = drop_bit n (x AND NOT (mask n))" for x :: "'a word"
    by (rule bit_eqI) (auto simp: bit_simps dest: bit_imp_le_length)
  then show "drop_bit n a = drop_bit n b" if "a AND NOT (mask n) = b AND NOT (mask n)" using that by metis
next
  have "x AND NOT (mask n) = push_bit n (drop_bit n x)" for x :: "'a word"
    by (rule bit_eqI) (auto simp: bit_simps)
  then show "a AND NOT (mask n) = b AND NOT (mask n)" if "drop_bit n a = drop_bit n b" using that by metis
qed

lemma ipv4_in_cidr_iff:
  assumes "0 < bits" "bits \<le> 32"
  shows "ipv4_in_cidr ip base bits \<longleftrightarrow> uint ip div 2 ^ (32 - bits) = uint base div 2 ^ (32 - bits)"
proof -
  have id: "take_bit 32 (uint w) = uint w" for w :: ipv4_addr
    using uint_lt2p [of w] by (intro take_bit_int_eq_self) auto
  have "ipv4_in_cidr ip base bits \<longleftrightarrow> drop_bit (32 - bits) ip = drop_bit (32 - bits) base"
    using assms by (simp add: ipv4_in_cidr_def Let_def and_not_mask_eq_iff)
  also have "\<dots> \<longleftrightarrow> uint (drop_bit (32 - bits) ip) = uint (drop_bit (32 - bits) base)" by (rule word_uint_eq_iff)
  finally show ?thesis unfolding unsigned_drop_bit_eq by (simp add: drop_bit_eq_div id)
qed

lemma uint_ipv4_new:
  assumes "0 \<le> a" "a < 256" "0 \<le> b" "b < 256" "0 \<le> c" "c < 256" "0 \<le> d" "d < 256"
  shows "uint (ipv4_new a b c d) = ((a * 256 + b) * 256 + c) * 256 + d"
  unfolding ipv4_new_def using assms by (subst uint_word_of_int) (simp add: mod_pos_pos_trivial)

lemma octet_0: "ipv4_octet 0 ip = uint ip div 16777216"
proof -
  have "uint ip < 4294967296" using uint_lt2p [of ip] by simp
  then have "uint ip div 16777216 < 256" by (simp add: div_less_iff_less_mult)
  then show ?thesis by (simp add: ipv4_octet_def mod_pos_pos_trivial pos_imp_zdiv_nonneg_iff)
qed

lemma octet_1: "ipv4_octet 1 ip = uint ip div 65536 - ipv4_octet 0 ip * 256"
proof -
  have "uint ip div 16777216 = uint ip div 65536 div 256" by (simp add: zdiv_zmult2_eq [symmetric])
  then show ?thesis unfolding octet_0 by (simp add: ipv4_octet_def minus_mult_div_eq_mod [symmetric] mult.commute)
qed

lemma le_div_iff: "0 < k \<Longrightarrow> c \<le> x div k \<longleftrightarrow> c * k \<le> x" for x k c :: int
proof
  assume "0 < k" "c \<le> x div k"
  then have "c * k \<le> x div k * k" by simp
  then show "c * k \<le> x" using pos_mod_sign [of k x] div_mult_mod_eq [of x k] \<open>0 < k\<close> by linarith
next
  assume "0 < k" "c * k \<le> x"
  then show "c \<le> x div k" using zdiv_mono1 [of "c * k" x k] by simp
qed

lemma div_le_iff: "0 < k \<Longrightarrow> x div k \<le> c \<longleftrightarrow> x \<le> c * k + (k - 1)" for x k c :: int
  using le_div_iff [of k "c + 1" x] by (auto simp: algebra_simps)

lemma div_eq_iff_between: "0 < k \<Longrightarrow> x div k = c \<longleftrightarrow> c * k \<le> x \<and> x \<le> c * k + (k - 1)" for x k c :: int
  using le_div_iff [of k c x] div_le_iff [of k x c] by (simp only: eq_iff [of "x div k" c]) blast

lemmas ipv4_classes = ipv4_is_loopback_def ipv4_is_private_def ipv4_is_link_local_def ipv4_is_multicast_def
  ipv4_is_unspecified_def ipv4_is_broadcast_def

text \<open>C36: The test for addresses that are not public holds exactly for the addresses in the special-purpose ranges.\<close>

theorem is_non_public_ipv4_ranges:
  "is_non_public_ipv4 ip \<longleftrightarrow> list_ex (\<lambda>(lo, hi). lo \<le> ip \<and> ip \<le> hi) special_ranges"
proof -
  define x where "x = uint ip"
  have x: "0 \<le> x" "x < 4294967296" using uint_lt2p [of ip] by (simp_all add: x_def)
  have eqs: "ip = 0 \<longleftrightarrow> x = 0" "ip = 0xFFFFFFFF \<longleftrightarrow> x = 4294967295"
    by (simp_all add: x_def word_uint_eq_iff)
  define o1 where "o1 = x div 65536 - x div 16777216 * 256"
  have pairs: "x div 16777216 = c \<and> a \<le> o1 \<and> o1 \<le> b \<longleftrightarrow> c * 256 + a \<le> x div 65536 \<and> x div 65536 \<le> c * 256 + b"
    if "0 \<le> a" "b < 256" for a b c :: int
  proof -
    have "x div 16777216 = c \<and> a \<le> x div 65536 - c * 256 \<and> x div 65536 - c * 256 \<le> b \<longleftrightarrow>
        c * 256 + a \<le> x div 65536 \<and> x div 65536 \<le> c * 256 + b"
      using that by (simp add: le_div_iff div_le_iff div_eq_iff_between) linarith
    then show ?thesis unfolding o1_def by blast
  qed
  have single: "x div 16777216 = c \<and> o1 = a \<longleftrightarrow> x div 65536 = c * 256 + a" if "0 \<le> a" "a < 256" for a c :: int
    using pairs [of a a c] that by (auto simp: eq_iff [of o1 a] eq_iff [of "x div 65536"])
  have intervals:
    "x div 16777216 = 127 \<longleftrightarrow> 2130706432 \<le> x \<and> x \<le> 2147483647"
    "x div 16777216 = 10 \<longleftrightarrow> 167772160 \<le> x \<and> x \<le> 184549375"
    "x div 65536 = 49320 \<longleftrightarrow> 3232235520 \<le> x \<and> x \<le> 3232301055"
    "x div 65536 = 43518 \<longleftrightarrow> 2851995648 \<le> x \<and> x \<le> 2852061183"
    "x div 16777216 = 0 \<longleftrightarrow> 0 \<le> x \<and> x \<le> 16777215"
    "x div 4194304 = 401 \<longleftrightarrow> 1681915904 \<le> x \<and> x \<le> 1686110207"
    "x div 256 = 12582912 \<longleftrightarrow> 3221225472 \<le> x \<and> x \<le> 3221225727"
    "x div 256 = 12582914 \<longleftrightarrow> 3221225984 \<le> x \<and> x \<le> 3221226239"
    "x div 131072 = 25353 \<longleftrightarrow> 3323068416 \<le> x \<and> x \<le> 3323199487"
    "x div 256 = 12989284 \<longleftrightarrow> 3325256704 \<le> x \<and> x \<le> 3325256959"
    "x div 256 = 13303921 \<longleftrightarrow> 3405803776 \<le> x \<and> x \<le> 3405804031"
    "44048 \<le> x div 65536 \<and> x div 65536 \<le> 44063 \<longleftrightarrow> 2886729728 \<le> x \<and> x \<le> 2887778303"
    by (simp_all add: div_eq_iff_between le_div_iff div_le_iff)
  have zero: "x = 0 \<Longrightarrow> 0 \<le> x \<and> x \<le> 16777215" by simp
  have top: "224 \<le> x div 16777216 \<and> x div 16777216 \<le> 239 \<or> x = 4294967295 \<or> x div 268435456 = 15 \<longleftrightarrow>
      3758096384 \<le> x \<and> x \<le> 4294967295"
    by (simp add: div_eq_iff_between le_div_iff div_le_iff) linarith
  have "is_non_public_ipv4 ip \<longleftrightarrow>
     x div 16777216 = 127
     \<or> x div 16777216 = 10 \<or> 44048 \<le> x div 65536 \<and> x div 65536 \<le> 44063 \<or> x div 65536 = 49320
     \<or> x div 65536 = 43518 \<or> 224 \<le> x div 16777216 \<and> x div 16777216 \<le> 239
     \<or> x = 0 \<or> x = 4294967295
     \<or> x div 16777216 = 0 \<or> x div 4194304 = 401 \<or> x div 256 = 12582912 \<or> x div 256 = 12582914
     \<or> x div 131072 = 25353 \<or> x div 256 = 12989284 \<or> x div 256 = 13303921 \<or> x div 268435456 = 15"
    using pairs [of 16 31 172] single [of 168 192] single [of 254 169]
    unfolding is_non_public_ipv4_def ipv4_classes octet_1 octet_0 eqs x_def [symmetric] o1_def [symmetric]
    by (simp add: ipv4_in_cidr_iff uint_ipv4_new x_def [symmetric]) blast
  also have "\<dots> \<longleftrightarrow>
     0 \<le> x \<and> x \<le> 16777215 \<or> 167772160 \<le> x \<and> x \<le> 184549375 \<or> 1681915904 \<le> x \<and> x \<le> 1686110207
     \<or> 2130706432 \<le> x \<and> x \<le> 2147483647 \<or> 2851995648 \<le> x \<and> x \<le> 2852061183 \<or> 2886729728 \<le> x \<and> x \<le> 2887778303
     \<or> 3221225472 \<le> x \<and> x \<le> 3221225727 \<or> 3221225984 \<le> x \<and> x \<le> 3221226239 \<or> 3232235520 \<le> x \<and> x \<le> 3232301055
     \<or> 3323068416 \<le> x \<and> x \<le> 3323199487 \<or> 3325256704 \<le> x \<and> x \<le> 3325256959 \<or> 3405803776 \<le> x \<and> x \<le> 3405804031
     \<or> 3758096384 \<le> x \<and> x \<le> 4294967295"
    unfolding intervals top [symmetric] using zero by argo
  also have "\<dots> \<longleftrightarrow> list_ex (\<lambda>(lo, hi). lo \<le> ip \<and> ip \<le> hi) special_ranges"
    by (simp add: special_ranges_def word_le_def uint_ipv4_new x_def)
  finally show ?thesis .
qed

section \<open>What patterns mean\<close>

text \<open>Domain names in normal form: lower-case labels, the last of which starts with a letter.\<close>

definition label_char :: "char \<Rightarrow> bool" where
  "label_char c \<longleftrightarrow> is_ascii_lower c \<or> is_ascii_digit c \<or> c = CHR ''-'' \<or> c = CHR ''.''"

definition plain_domain :: "str \<Rightarrow> bool" where
  "plain_domain d \<longleftrightarrow>
     list_all label_char d \<and> d \<noteq> [] \<and> hd d \<noteq> CHR ''.'' \<and> last d \<noteq> CHR ''.''
     \<and> (case last (split_on (CHR ''.'') d) of [] \<Rightarrow> False | c # _ \<Rightarrow> is_ascii_lower c)"

definition plain_hostname :: "str \<Rightarrow> bool" where
  "plain_hostname h \<longleftrightarrow> list_all (\<lambda>c. byte_val c < 128) h \<and> to_ascii_lowercase h = h"

text \<open>The documented meaning of a pattern and the hosts that it covers.\<close>

definition spec_pattern :: "str \<Rightarrow> domain_pattern" where
  "spec_pattern p =
     (case strip_prefix ''**.'' p of
        Some d \<Rightarrow> ApexAndSubdomains d
      | None \<Rightarrow> (case strip_prefix ''*.'' p of Some d \<Rightarrow> SubdomainsOnly d | None \<Rightarrow> ExactDomain p))"

fun pattern_domain :: "domain_pattern \<Rightarrow> str" where
  "pattern_domain (ApexAndSubdomains d) = d"
| "pattern_domain (SubdomainsOnly d) = d"
| "pattern_domain (ExactDomain d) = d"

definition proper_subdomain :: "str \<Rightarrow> str \<Rightarrow> bool" where
  "proper_subdomain h d \<longleftrightarrow> ends_with h (''.'' @ d) \<and> h \<noteq> ''.'' @ d"

fun covers :: "domain_pattern \<Rightarrow> str \<Rightarrow> bool" where
  "covers (ExactDomain d) h \<longleftrightarrow> h = d"
| "covers (SubdomainsOnly d) h \<longleftrightarrow> proper_subdomain h d"
| "covers (ApexAndSubdomains d) h \<longleftrightarrow> h = d \<or> proper_subdomain h d"

definition plain_pattern :: "str \<Rightarrow> bool" where
  "plain_pattern p \<longleftrightarrow> plain_domain (pattern_domain (spec_pattern p))"

text \<open>The behaviour of \<open>globset\<close> that the policy relies on.\<close>

definition glob_ok :: "('g, 's, 'e) glob_lib \<Rightarrow> bool" where
  "glob_ok L \<longleftrightarrow>
     (\<forall>gs S h. globset_build L gs = Inr S \<longrightarrow> (globset_is_match L S h \<longleftrightarrow> (\<exists>g \<in> set gs. glob_matches L g h)))
     \<and> (\<forall>d g h. plain_domain d \<longrightarrow> plain_hostname h \<longrightarrow> glob_build L d = Inr g \<longrightarrow> (glob_matches L g h \<longleftrightarrow> h = d))
     \<and> (\<forall>d g h. plain_domain d \<longrightarrow> plain_hostname h \<longrightarrow> glob_build L (''?*.'' @ d) = Inr g \<longrightarrow>
          (glob_matches L g h \<longleftrightarrow> proper_subdomain h d))"

text \<open>The behaviour of \<open>url::Host::parse\<close>: a name in normal form is kept or refused.\<close>

definition url_host_ok :: "(str \<Rightarrow> str option) \<Rightarrow> bool" where
  "url_host_ok url_host \<longleftrightarrow> (\<forall>d. plain_domain d \<longrightarrow> url_host d = None \<or> url_host d = Some d)"

lemma label_char_range: "label_char c \<Longrightarrow> 45 \<le> byte_val c \<and> byte_val c \<le> 122 \<and> \<not> is_ascii_upper c"
  by (auto simp: label_char_def is_ascii_lower_def is_ascii_digit_def is_ascii_upper_def byte_val_def)

lemma label_char_neq:
  assumes "list_all label_char d"
  shows "CHR ''['' \<notin> set d" "CHR '':'' \<notin> set d" "CHR ''*'' \<notin> set d" "CHR ''?'' \<notin> set d" "CHR ''%'' \<notin> set d"
  using assms by (auto simp: list_all_iff label_char_def is_ascii_lower_def is_ascii_digit_def byte_val_def)

lemma trim_end_char_id: "d = [] \<or> last d \<noteq> c \<Longrightarrow> trim_end_char c d = d"
  by (cases d rule: rev_cases) (auto simp: trim_end_char_def)

lemma ascii_lower_label: "label_char c \<Longrightarrow> ascii_lower c = c"
  using label_char_range [of c] by (simp add: ascii_lower_def)

lemma lowercase_label: "list_all label_char d \<Longrightarrow> to_ascii_lowercase d = d"
  by (induction d) (auto simp: to_ascii_lowercase_def ascii_lower_label)

lemma ws_len_visible: "33 \<le> byte_val c \<Longrightarrow> byte_val c < 128 \<Longrightarrow> ws_len (c # s) = 0 \<and> ws_len_rev (c # s) = 0"
  by (cases s; cases "tl s") (auto simp: is_ws_byte_def is_ws2_def is_ws3_def)

lemma trim_id:
  assumes "s = [] \<or> 33 \<le> byte_val (hd s) \<and> byte_val (hd s) < 128 \<and> 33 \<le> byte_val (last s) \<and> byte_val (last s) < 128"
  shows "trim s = s"
proof (cases s)
  case (Cons c t)
  have start: "trim_start s = s" using assms Cons ws_len_visible [of c t] by (intro trim_start_id) auto
  have "rev s = last s # tl (rev s)" using Cons by (metis list.distinct(1) hd_rev hd_Cons_tl rev_is_Nil_conv)
  then have "ws_len_rev (rev s) = 0" using assms Cons ws_len_visible [of "last s" "tl (rev s)"] by auto
  then show ?thesis using start by (simp add: trim_def trim_end_fixed_iff)
qed simp

text \<open>A pattern in plain form: an optional wildcard before a name in normal form.\<close>

lemma plain_pattern_cases:
  assumes "plain_pattern p"
  obtains d where "plain_domain d" "p = d" "spec_pattern p = ExactDomain d" "strip_prefix ''**.'' p = None" "strip_prefix ''*.'' p = None"
    | d where "plain_domain d" "p = ''*.'' @ d" "spec_pattern p = SubdomainsOnly d" "strip_prefix ''**.'' p = None" "strip_prefix ''*.'' p = Some d"
    | d where "plain_domain d" "p = ''**.'' @ d" "spec_pattern p = ApexAndSubdomains d" "strip_prefix ''**.'' p = Some d"
proof (cases "strip_prefix ''**.'' p")
  case (Some d)
  then have "p = ''**.'' @ d" by (simp only: strip_prefix_Some_iff)
  then show thesis using Some assms that(3) [of d] by (simp add: plain_pattern_def spec_pattern_def)
next
  case None
  show thesis
  proof (cases "strip_prefix ''*.'' p")
    case (Some d)
    then have "p = ''*.'' @ d" by (simp only: strip_prefix_Some_iff)
    then show thesis using Some None assms that(2) [of d] by (simp add: plain_pattern_def spec_pattern_def)
  qed (use None assms that(1) in \<open>simp add: plain_pattern_def spec_pattern_def\<close>)
qed

lemma plain_domain_ends:
  assumes "plain_domain d"
  shows "d \<noteq> []" "list_all label_char d" "33 \<le> byte_val (hd d)" "byte_val (hd d) < 128" "33 \<le> byte_val (last d)" "byte_val (last d) < 128"
proof -
  show "d \<noteq> []" "list_all label_char d" using assms by (auto simp: plain_domain_def)
  then have "label_char (hd d)" "label_char (last d)" by (auto simp: list_all_iff)
  then show "33 \<le> byte_val (hd d)" "byte_val (hd d) < 128" "33 \<le> byte_val (last d)" "byte_val (last d) < 128"
    using label_char_range by force+
qed

lemma trim_plain_domain: "plain_domain d \<Longrightarrow> trim d = d"
  using plain_domain_ends by (intro trim_id) blast

lemma trim_plain_pattern: "plain_pattern p \<Longrightarrow> trim p = p \<and> p \<noteq> [] \<and> p \<noteq> ''*''"
  by (erule plain_pattern_cases)
    (use plain_domain_ends label_char_neq(3) in \<open>force simp: trim_plain_domain intro!: trim_id simp: byte_val_def\<close>)+

lemma find_str_notin: "c \<notin> set s \<Longrightarrow> find_str s (c # p) = None"
  by (induction s) (auto simp: starts_with_def)

lemma starts_with_notin: "c \<notin> set s \<Longrightarrow> \<not> starts_with s (c # p)"
  by (auto simp: starts_with_iff)

lemma contains_str_notin: "c \<notin> set s \<Longrightarrow> \<not> contains_str s (c # p)"
  by (simp add: contains_str_def find_str_notin)

lemma normalize_ip_literal_plain:
  "CHR ''%'' \<notin> set d \<Longrightarrow> (case normalize_ip_literal d of Some ip \<Rightarrow> ip | None \<Rightarrow> d) = d"
  by (simp add: normalize_ip_literal_def scoped_with_def split_once_str_def find_str_notin)

lemma plain_domain_trim_dot: "plain_domain d \<Longrightarrow> trim_end_char (CHR ''.'') d = d"
  by (rule trim_end_char_id) (simp add: plain_domain_def)

lemma normalize_host_plain:
  assumes "plain_domain d"
  shows "normalize_host d = d"
proof -
  note neq = label_char_neq [OF plain_domain_ends(2) [OF assms]]
  have dns: "normalize_dns_host_or_ip_literal d = d"
    using lowercase_label [OF plain_domain_ends(2) [OF assms]] plain_domain_trim_dot [OF assms]
      normalize_ip_literal_plain [OF neq(5)]
    by (simp add: normalize_dns_host_or_ip_literal_def Let_def)
  have "filter (\<lambda>b. b = CHR '':'') d = []" using neq(2) by (simp add: filter_empty_conv) blast
  then show ?thesis
    using dns neq(1) by (simp add: normalize_host_def trim_plain_domain [OF assms] Let_def starts_with_notin)
qed

lemma spec_of_plain:
  assumes "plain_pattern p"
  shows "normalize_pattern p = p" and "domain_pattern_parse p = spec_pattern p"
  using assms trim_plain_pattern [OF assms]
  by (auto elim!: plain_pattern_cases simp: normalize_pattern_def domain_pattern_parse_def parse_domain_def
      normalize_host_plain trim_plain_domain plain_domain_ends Let_def)

lemma expand_plain:
  assumes "plain_pattern p"
  shows "expand_domain_pattern (normalize_pattern p) =
    (case spec_pattern p of ExactDomain d \<Rightarrow> [d] | SubdomainsOnly d \<Rightarrow> [''?*.'' @ d] | ApexAndSubdomains d \<Rightarrow> [d, ''?*.'' @ d])"
  by (simp add: expand_domain_pattern_def spec_of_plain [OF assms])

lemma parse_domain_for_constraints_plain:
  assumes "plain_domain d"
  shows "parse_domain_for_constraints url_host d = (case url_host d of Some h \<Rightarrow> h | None \<Rightarrow> [])"
  using label_char_neq [OF plain_domain_ends(2) [OF assms]] plain_domain_ends(1) [OF assms]
  by (simp add: parse_domain_for_constraints_def trim_plain_domain plain_domain_trim_dot assms contains_str_notin
      starts_with_notin Let_def)

text \<open>The pattern of a plain entry as the comparison sees it: with its own domain, or with none.\<close>

lemma parse_for_constraints_plain:
  assumes "plain_pattern p" "url_host_ok url_host"
  obtains "parse_for_constraints url_host p = spec_pattern p" "url_host (pattern_domain (spec_pattern p)) \<noteq> None"
    | "pattern_domain (parse_for_constraints url_host p) = []" "url_host (pattern_domain (spec_pattern p)) = None"
  using assms(1)
proof (rule plain_pattern_cases)
  fix d
  assume d: "plain_domain d"
  have "url_host d = None \<or> url_host d = Some d" using assms(2) d by (simp add: url_host_ok_def)
  note facts = this parse_domain_for_constraints_plain [OF d, of url_host] trim_plain_pattern [OF assms(1)]
  { assume "p = d" "spec_pattern p = ExactDomain d" "strip_prefix ''**.'' p = None" "strip_prefix ''*.'' p = None"
    then show ?thesis using facts that by (auto simp: parse_for_constraints_def Let_def) }
  { assume "p = ''*.'' @ d" "spec_pattern p = SubdomainsOnly d" "strip_prefix ''**.'' p = None" "strip_prefix ''*.'' p = Some d"
    then show ?thesis using facts that by (auto simp: parse_for_constraints_def Let_def) }
  { assume "p = ''**.'' @ d" "spec_pattern p = ApexAndSubdomains d" "strip_prefix ''**.'' p = Some d"
    then show ?thesis using facts that by (auto simp: parse_for_constraints_def Let_def) }
qed

section \<open>Comparison and compilation agree with the meaning\<close>

lemma normalize_domain_plain: "plain_domain d \<Longrightarrow> normalize_domain d = d"
  by (simp add: normalize_domain_def plain_domain_trim_dot lowercase_label plain_domain_ends)

lemma normalize_domain_Nil [simp]: "normalize_domain [] = []"
  by (simp add: normalize_domain_def trim_end_char_def to_ascii_lowercase_def)

lemma proper_subdomain_trans: "proper_subdomain a b \<Longrightarrow> proper_subdomain b c \<Longrightarrow> proper_subdomain a c"
  by (auto simp: proper_subdomain_def ends_with_iff)

lemma strict_subdomain_plain:
  assumes "plain_domain c" "plain_domain d"
  shows "is_strict_subdomain c d \<longleftrightarrow> proper_subdomain c d"
proof -
  have "c \<noteq> ''.'' @ d" using assms by (auto simp: plain_domain_def)
  moreover have "c = d \<Longrightarrow> \<not> ends_with c (''.'' @ d)" by (auto simp: ends_with_iff)
  ultimately show ?thesis
    using assms by (auto simp: is_strict_subdomain_def normalize_domain_plain proper_subdomain_def Let_def)
qed

lemma subdomain_or_equal_plain:
  assumes "plain_domain c" "plain_domain d"
  shows "is_subdomain_or_equal c d \<longleftrightarrow> c = d \<or> proper_subdomain c d"
  using strict_subdomain_plain [OF assms] assms
  by (auto simp: is_subdomain_or_equal_def is_strict_subdomain_def normalize_domain_plain Let_def)

lemma pattern_allows_covers:
  assumes "pattern_allows p q" "plain_domain (pattern_domain p)" "plain_domain (pattern_domain q)" "covers q h"
  shows "covers p h"
  using assms by (cases p; cases q)
    (auto simp: domain_eq_def normalize_domain_plain strict_subdomain_plain subdomain_or_equal_plain
      intro: proper_subdomain_trans)

text \<open>A candidate whose domain could not be read is allowed by no plain pattern.\<close>

lemma pattern_allows_unread:
  assumes "plain_domain (pattern_domain p)" "pattern_domain q = []"
  shows "\<not> pattern_allows p q"
proof -
  have ne: "normalize_domain (pattern_domain p) \<noteq> []" using assms(1) by (simp add: normalize_domain_plain plain_domain_ends)
  have "\<not> domain_eq [] (pattern_domain p)" "\<not> is_subdomain_or_equal [] (pattern_domain p)" "\<not> is_strict_subdomain [] (pattern_domain p)"
    using ne by (auto simp: domain_eq_def is_subdomain_or_equal_def is_strict_subdomain_def ends_with_iff Let_def)
  then show ?thesis using assms(2) by (cases p; cases q) auto
qed

lemma add_candidates_globs:
  assumes "add_candidates L cs (seen, globs) = Inr (seen', globs')"
    and "list_all2 (\<lambda>c g. glob_build L c = Inr g) seen globs"
  shows "list_all2 (\<lambda>c g. glob_build L c = Inr g) seen' globs' \<and> set seen' = set seen \<union> set cs"
  using assms
proof (induction cs arbitrary: seen globs)
  case (Cons c cs)
  show ?case
  proof (cases "c \<in> set seen")
    case True
    then show ?thesis using Cons by auto
  next
    case False
    then obtain g where g: "glob_build L c = Inr g" and rec: "add_candidates L cs (seen @ [c], globs @ [g]) = Inr (seen', globs')"
      using Cons.prems(1) by (auto split: sum.splits)
    have "list_all2 (\<lambda>c g. glob_build L c = Inr g) (seen @ [c]) (globs @ [g])"
      using Cons.prems(2) g by (simp add: list_all2_appendI)
    from Cons.IH [OF rec this] show ?thesis by auto
  qed
qed auto

lemma add_patterns_globs:
  assumes "add_patterns L w ps (seen, globs) = Inr (seen', globs')"
    and "list_all2 (\<lambda>c g. glob_build L c = Inr g) seen globs"
  shows "list_all2 (\<lambda>c g. glob_build L c = Inr g) seen' globs'
    \<and> set seen' = set seen \<union> (\<Union>p \<in> set ps. set (expand_domain_pattern (normalize_pattern p)))"
  using assms
proof (induction ps arbitrary: seen globs)
  case (Cons p ps)
  then obtain s1 g1 where c: "add_candidates L (expand_domain_pattern (normalize_pattern p)) (seen, globs) = Inr (s1, g1)"
    and rec: "add_patterns L w ps (s1, g1) = Inr (seen', globs')"
    by (auto split: if_splits)
  note one = add_candidates_globs [OF c Cons.prems(2)]
  show ?case using Cons.IH [OF rec] one by auto
qed simp

lemma globset_matches_candidates:
  assumes "compile_globset_with_policy L ps w = Inr S" "glob_ok L"
  shows "globset_is_match L S h \<longleftrightarrow>
    (\<exists>p \<in> set ps. \<exists>c \<in> set (expand_domain_pattern (normalize_pattern p)). \<exists>g. glob_build L c = Inr g \<and> glob_matches L g h)"
proof -
  obtain seen globs where add: "add_patterns L w ps ([], []) = Inr (seen, globs)" and build: "globset_build L globs = Inr S"
    using assms(1) by (auto simp: compile_globset_with_policy_def)
  have globs: "list_all2 (\<lambda>c g. glob_build L c = Inr g) seen globs"
    and seen: "set seen = (\<Union>p \<in> set ps. set (expand_domain_pattern (normalize_pattern p)))"
    using add_patterns_globs [OF add] by auto
  have "globset_is_match L S h \<longleftrightarrow> (\<exists>g \<in> set globs. glob_matches L g h)" using assms(2) build by (simp add: glob_ok_def)
  also have "\<dots> \<longleftrightarrow> (\<exists>c \<in> set seen. \<exists>g. glob_build L c = Inr g \<and> glob_matches L g h)"
    using globs by (fastforce simp: list_all2_conv_all_nth in_set_conv_nth)
  finally show ?thesis using seen by auto
qed

lemma compile_candidates_build:
  assumes "compile_globset_with_policy L ps w = Inr S" "p \<in> set ps" "c \<in> set (expand_domain_pattern (normalize_pattern p))"
  shows "\<exists>g. glob_build L c = Inr g"
proof -
  obtain seen globs where add: "add_patterns L w ps ([], []) = Inr (seen, globs)"
    using assms(1) by (auto simp: compile_globset_with_policy_def)
  have "list_all2 (\<lambda>c g. glob_build L c = Inr g) seen globs" "c \<in> set seen"
    using add_patterns_globs [OF add] assms(2,3) by auto
  then show ?thesis by (auto simp: list_all2_conv_all_nth in_set_conv_nth)
qed

lemma plain_glob_covers:
  assumes "glob_ok L" "plain_pattern p" "plain_hostname h"
    and build: "\<And>c. c \<in> set (expand_domain_pattern (normalize_pattern p)) \<Longrightarrow> \<exists>g. glob_build L c = Inr g"
  shows "(\<exists>c \<in> set (expand_domain_pattern (normalize_pattern p)). \<exists>g. glob_build L c = Inr g \<and> glob_matches L g h)
    \<longleftrightarrow> covers (spec_pattern p) h"
proof -
  have plain: "plain_domain (pattern_domain (spec_pattern p))" using assms(2) by (simp add: plain_pattern_def)
  have exact: "glob_matches L g h \<longleftrightarrow> h = d" if "glob_build L d = Inr g" "plain_domain d" for d g
    using assms(1,3) that by (simp add: glob_ok_def)
  have sub: "glob_matches L g h \<longleftrightarrow> proper_subdomain h d" if "glob_build L (''?*.'' @ d) = Inr g" "plain_domain d" for d g
    using assms(1,3) that unfolding glob_ok_def by blast
  show ?thesis
    using plain build exact sub unfolding expand_plain [OF assms(2)]
    by (cases "spec_pattern p") (fastforce)+
qed

lemma globset_matches_covers:
  assumes "glob_ok L" "compile_globset_with_policy L patterns w = Inr S" "\<forall>p \<in> set patterns. plain_pattern p" "plain_hostname h"
  shows "globset_is_match L S h \<longleftrightarrow> (\<exists>p \<in> set patterns. covers (spec_pattern p) h)"
proof -
  have "(\<exists>c \<in> set (expand_domain_pattern (normalize_pattern p)). \<exists>g. glob_build L c = Inr g \<and> glob_matches L g h)
      \<longleftrightarrow> covers (spec_pattern p) h" if "p \<in> set patterns" for p
    by (rule plain_glob_covers [OF assms(1) bspec [OF assms(3) that] assms(4)]) (rule compile_candidates_build [OF assms(2) that])
  then show ?thesis unfolding globset_matches_candidates [OF assms(2,1)] by (rule bex_cong [OF refl])
qed

text \<open>On hosts in normal form, the compiled list of plain patterns matches exactly the hosts that the documentation of the
  patterns says: a name matches itself, \<open>*.name\<close> its proper subdomains and \<open>**.name\<close> both.\<close>

theorem compiled_patterns_match_documentation:
  assumes "glob_ok L" "compile_globset_with_policy L patterns w = Inr S" "\<forall>p \<in> set patterns. plain_pattern p" "plain_hostname h"
  shows "globset_is_match L S h \<longleftrightarrow> (\<exists>p \<in> set patterns. covers (spec_pattern p) h)"
  using assms by (rule globset_matches_covers)

text \<open>A library of globs for names and leading wildcards, on which the properties are exercised.\<close>

definition simple_globs :: "(str, str list, unit) glob_lib" where
  "simple_globs =
     (let m = (\<lambda>g h. if g = ''*'' then True
            else (case strip_prefix ''?*.'' g of Some d \<Rightarrow> proper_subdomain h d | None \<Rightarrow> h = g))
      in \<lparr>glob_build = Inr, glob_matches = m, globset_build = Inr, globset_is_match = (\<lambda>S h. list_ex (\<lambda>g. m g h) S)\<rparr>)"

lemma simple_globs_ok: "glob_ok simple_globs"
proof -
  have "strip_prefix ''?*.'' d = None" "d \<noteq> ''*''" if "plain_domain d" for d
    using label_char_neq(3,4) [OF plain_domain_ends(2) [OF that]] by (auto simp: strip_prefix_None_iff)
  moreover have "strip_prefix ''?*.'' (CHR ''?'' # CHR ''*'' # CHR ''.'' # d) = Some d" for d by (simp add: strip_prefix_def)
  ultimately show ?thesis by (auto simp: glob_ok_def simple_globs_def list_ex_iff Let_def)
qed

theorem compiled_patterns_match_documentation_witness:
  "\<exists>S. compile_globset_with_policy simple_globs [''*.example.com'', ''crates.io''] RejectGlobalWildcard = Inr S
     \<and> globset_is_match simple_globs S ''api.example.com'' \<and> \<not> globset_is_match simple_globs S ''example.com''"
proof -
  let ?ps = "[''*.example.com'', ''crates.io'']"
  obtain S where S: "compile_globset_with_policy simple_globs ?ps RejectGlobalWildcard = Inr S"
    by (rule that [of "[''?*.example.com'', ''crates.io'']"]) code_simp
  have plain: "\<forall>p \<in> set ?ps. plain_pattern p" "plain_hostname ''api.example.com''" "plain_hostname ''example.com''" by code_simp+
  have "\<exists>p \<in> set ?ps. covers (spec_pattern p) ''api.example.com''" "\<not> (\<exists>p \<in> set ?ps. covers (spec_pattern p) ''example.com'')"
    by code_simp+
  then show ?thesis
    using S compiled_patterns_match_documentation [OF simple_globs_ok S plain(1,2)]
      compiled_patterns_match_documentation [OF simple_globs_ok S plain(1,3)] by blast
qed

end
