(* ===== verification/Network_Config.thy ===== *)
theory Network_Config
  imports Network_Policy Absolute_Path "HOL-Library.List_Lexorder" "HOL-Library.Char_ord"
begin

text \<open>
  The configuration of the network proxy (\<open>codex-rs/network-proxy/src/config.rs\<close>, and the configuration types
  of \<open>mitm_hook.rs\<close>): permissions of domains and sockets, their updates, and the addresses that the proxy
  listens on.  \<open>Url::parse\<close> is an argument that returns the parts of an address.  A \<open>BTreeMap\<close> is the list of its
  entries in the order of the keys.
\<close>

section \<open>Ordered maps\<close>

fun btree_insert :: "str \<Rightarrow> 'v \<Rightarrow> (str \<times> 'v) list \<Rightarrow> (str \<times> 'v) list" where
  "btree_insert k v [] = [(k, v)]"
| "btree_insert k v ((k', v') # m) =
     (if k = k' then (k, v) # m else if k < k' then (k, v) # (k', v') # m else (k', v') # btree_insert k v m)"

lemma map_of_btree_insert: "sorted (map fst m) \<Longrightarrow> map_of (btree_insert k v m) = (map_of m)(k \<mapsto> v)"
  by (induction m) (auto simp: fun_eq_iff)

section \<open>Types\<close>

datatype network_domain_permission = NoneDomain | AllowDomain | DenyDomain

fun permission_rank :: "network_domain_permission \<Rightarrow> nat" where
  "permission_rank NoneDomain = 0"
| "permission_rank AllowDomain = 1"
| "permission_rank DenyDomain = 2"

record domain_entry =
  de_pattern :: str
  de_permission :: network_domain_permission

datatype socket_permission = AllowSocket | DenySocket

datatype network_mode = Limited | Full

record injected_header_config =
  ihc_name :: str
  ihc_secret_env_var :: "str option"
  ihc_secret_file :: "str option"
  ihc_prefix :: "str option"

record 'j hook_match_config =
  hmc_methods :: "str list"
  hmc_path_prefixes :: "str list"
  hmc_query :: "(str \<times> str list) list"
  hmc_headers :: "(str \<times> str list) list"
  hmc_body :: "'j option"

record hook_actions_config =
  hac_strip_request_headers :: "str list"
  hac_inject_request_headers :: "injected_header_config list"

record 'j mitm_hook_config =
  mhc_host :: str
  mhc_matcher :: "'j hook_match_config"
  mhc_actions :: hook_actions_config

record 'j network_proxy_config =
  nc_enabled :: bool
  nc_proxy_url :: str
  nc_enable_socks5 :: bool
  nc_socks_url :: str
  nc_enable_socks5_udp :: bool
  nc_allow_upstream_proxy :: bool
  nc_allow_non_loopback_proxy :: bool
  nc_allow_all_unix_sockets :: bool
  nc_mode :: network_mode
  nc_domains :: "domain_entry list option"
  nc_unix_sockets :: "(str \<times> socket_permission) list option"
  nc_allow_local_binding :: bool
  nc_mitm :: bool
  nc_credential_broker :: bool
  nc_credential_broker_openai_host :: "str option"
  nc_allow_plaintext_credential_injection :: bool
  nc_mitm_hooks :: "'j mitm_hook_config list"

definition default_proxy_url :: str where "default_proxy_url = ''http://127.0.0.1:3128''"
definition default_socks_url :: str where "default_socks_url = ''http://127.0.0.1:8081''"

definition default_network_proxy_config :: "'j network_proxy_config" where
  "default_network_proxy_config =
     \<lparr>nc_enabled = False, nc_proxy_url = default_proxy_url, nc_enable_socks5 = True, nc_socks_url = default_socks_url,
      nc_enable_socks5_udp = True, nc_allow_upstream_proxy = True, nc_allow_non_loopback_proxy = False,
      nc_allow_all_unix_sockets = False, nc_mode = Full, nc_domains = None, nc_unix_sockets = None,
      nc_allow_local_binding = False, nc_mitm = False, nc_credential_broker = False,
      nc_credential_broker_openai_host = None, nc_allow_plaintext_credential_injection = False, nc_mitm_hooks = []\<rparr>"

definition allows_method :: "network_mode \<Rightarrow> str \<Rightarrow> bool" where
  "allows_method mode m \<longleftrightarrow> (case mode of Full \<Rightarrow> True | Limited \<Rightarrow> m \<in> {''GET'', ''HEAD'', ''OPTIONS''})"

section \<open>Permissions of domains\<close>

definition effective_step ::
    "str list \<times> (str \<rightharpoonup> network_domain_permission) \<Rightarrow> domain_entry \<Rightarrow> str list \<times> (str \<rightharpoonup> network_domain_permission)" where
  "effective_step acc e =
     (case acc of (order, m) \<Rightarrow>
        (let order = (if m (de_pattern e) = None then order @ [de_pattern e] else order);
             current = (case m (de_pattern e) of None \<Rightarrow> de_permission e | Some p \<Rightarrow> p);
             current = (if permission_rank current < permission_rank (de_permission e) then de_permission e else current)
         in (order, m(de_pattern e \<mapsto> current))))"

fun take_effective :: "str list \<Rightarrow> (str \<rightharpoonup> network_domain_permission) \<Rightarrow> domain_entry list" where
  "take_effective [] m = []"
| "take_effective (p # ps) m =
     (case m p of
        None \<Rightarrow> take_effective ps m
      | Some q \<Rightarrow> \<lparr>de_pattern = p, de_permission = q\<rparr> # take_effective ps (m(p := None)))"

definition effective_entries :: "domain_entry list \<Rightarrow> domain_entry list" where
  "effective_entries es = (case foldl effective_step ([], Map.empty) es of (order, m) \<Rightarrow> take_effective order m)"

definition domain_entries :: "'j network_proxy_config \<Rightarrow> network_domain_permission \<Rightarrow> str list option" where
  "domain_entries cfg perm =
     (case nc_domains cfg of
        None \<Rightarrow> None
      | Some es \<Rightarrow>
          (let ps = map de_pattern (filter (\<lambda>e. de_permission e = perm) (effective_entries es))
           in if ps = [] then None else Some ps))"

definition allowed_domains :: "'j network_proxy_config \<Rightarrow> str list option" where
  "allowed_domains cfg = domain_entries cfg AllowDomain"

definition denied_domains :: "'j network_proxy_config \<Rightarrow> str list option" where
  "denied_domains cfg = domain_entries cfg DenyDomain"

abbreviation or_empty :: "'a list option \<Rightarrow> 'a list" where
  "or_empty x \<equiv> (case x of None \<Rightarrow> [] | Some xs \<Rightarrow> xs)"

definition allow_unix_sockets :: "'j network_proxy_config \<Rightarrow> str list" where
  "allow_unix_sockets cfg =
     (case nc_unix_sockets cfg of
        None \<Rightarrow> []
      | Some es \<Rightarrow> map fst (filter (\<lambda>(_, p). p = AllowSocket) es))"

abbreviation some_unless_empty :: "'a list \<Rightarrow> 'a list option" where
  "some_unless_empty xs \<equiv> (if xs = [] then None else Some xs)"

definition set_domain_entries ::
    "'j network_proxy_config \<Rightarrow> str list \<Rightarrow> network_domain_permission \<Rightarrow> 'j network_proxy_config" where
  "set_domain_entries cfg entries perm =
     (let kept = filter (\<lambda>e. de_permission e \<noteq> perm) (or_empty (nc_domains cfg));
          es = foldl (\<lambda>es entry.
                 if list_ex (\<lambda>e. de_pattern e = entry \<and> de_permission e = perm) es then es
                 else es @ [\<lparr>de_pattern = entry, de_permission = perm\<rparr>]) kept entries
      in cfg\<lparr>nc_domains := some_unless_empty es\<rparr>)"

definition set_allowed_domains :: "'j network_proxy_config \<Rightarrow> str list \<Rightarrow> 'j network_proxy_config" where
  "set_allowed_domains cfg entries = set_domain_entries cfg entries AllowDomain"

definition set_denied_domains :: "'j network_proxy_config \<Rightarrow> str list \<Rightarrow> 'j network_proxy_config" where
  "set_denied_domains cfg entries = set_domain_entries cfg entries DenyDomain"

definition upsert_domain_permission ::
    "'j network_proxy_config \<Rightarrow> str \<Rightarrow> network_domain_permission \<Rightarrow> (str \<Rightarrow> str) \<Rightarrow> 'j network_proxy_config" where
  "upsert_domain_permission cfg host perm normal =
     (let normalized = normal host;
          es = filter (\<lambda>e. normal (de_pattern e) \<noteq> normalized) (or_empty (nc_domains cfg))
               @ [\<lparr>de_pattern = host, de_permission = perm\<rparr>]
      in cfg\<lparr>nc_domains := some_unless_empty es\<rparr>)"

definition set_unix_socket_entries ::
    "'j network_proxy_config \<Rightarrow> str list \<Rightarrow> socket_permission \<Rightarrow> 'j network_proxy_config" where
  "set_unix_socket_entries cfg entries perm =
     (let kept = filter (\<lambda>(_, p). p \<noteq> perm) (or_empty (nc_unix_sockets cfg));
          es = foldl (\<lambda>m entry. btree_insert entry perm m) kept entries
      in cfg\<lparr>nc_unix_sockets := some_unless_empty es\<rparr>)"

definition set_allow_unix_sockets :: "'j network_proxy_config \<Rightarrow> str list \<Rightarrow> 'j network_proxy_config" where
  "set_allow_unix_sockets cfg entries = set_unix_socket_entries cfg entries AllowSocket"

section \<open>Credential broker\<close>

record url_parts =
  url_scheme :: str
  url_username :: str
  url_password :: "str option"
  url_host_str :: "str option"
  url_port :: "int option"

definition trusted_credential_broker_host :: "(str \<Rightarrow> url_parts option) \<Rightarrow> str \<Rightarrow> str option" where
  "trusted_credential_broker_host url_parse base_url =
     (case url_parse base_url of
        None \<Rightarrow> None
      | Some u \<Rightarrow>
          if url_scheme u = ''https'' \<and> url_username u = [] \<and> url_password u = None
          then map_option normalize_host (url_host_str u) else None)"

definition set_credential_broker_enabled :: "'j network_proxy_config \<Rightarrow> bool \<Rightarrow> 'j network_proxy_config" where
  "set_credential_broker_enabled cfg on = cfg\<lparr>nc_credential_broker := on, nc_mitm := nc_mitm cfg \<or> on\<rparr>"

definition set_credential_broker_openai_base_url ::
    "(str \<Rightarrow> url_parts option) \<Rightarrow> 'j network_proxy_config \<Rightarrow> str option \<Rightarrow> 'j network_proxy_config" where
  "set_credential_broker_openai_base_url url_parse cfg base_url =
     cfg\<lparr>nc_credential_broker_openai_host := Option.bind base_url (trusted_credential_broker_host url_parse)\<rparr>"

section \<open>Listening addresses\<close>

record socket_addr =
  sa_ip :: ip_addr
  sa_port :: int

definition loopback_addr :: "int \<Rightarrow> socket_addr" where
  "loopback_addr port = \<lparr>sa_ip = V4 (ipv4_new 127 0 0 1), sa_port = port\<rparr>"

definition clamp_non_loopback :: "socket_addr \<Rightarrow> bool \<Rightarrow> socket_addr" where
  "clamp_non_loopback addr allow_non_loopback =
     (if ip_is_loopback (sa_ip addr) then addr
      else if allow_non_loopback then addr
      else loopback_addr (sa_port addr))"

definition clamp_bind_addrs :: "socket_addr \<Rightarrow> socket_addr \<Rightarrow> 'j network_proxy_config \<Rightarrow> socket_addr \<times> socket_addr" where
  "clamp_bind_addrs http socks cfg =
     (let http = clamp_non_loopback http (nc_allow_non_loopback_proxy cfg);
          socks = clamp_non_loopback socks (nc_allow_non_loopback_proxy cfg)
      in if allow_unix_sockets cfg = [] \<and> \<not> nc_allow_all_unix_sockets cfg then (http, socks)
         else (loopback_addr (sa_port http), loopback_addr (sa_port socks)))"

datatype config_error =
    MissingHost str
  | RelativeSocketPath str
  | InvalidSocketAllowlist nat config_error
  | InvalidProxyUrl str config_error
  | InvalidSocksUrl str config_error
  | ProxyPortNotFixed
  | SocksPortNotFixed

datatype validated_unix_socket_path = NativeSocket path | UnixStyleAbsolute str

definition unix_style_absolute_parse :: "str \<Rightarrow> str option" where
  "unix_style_absolute_parse value = (if starts_with value ''/'' then Some value else None)"

text \<open>\<open>AbsolutePathBuf::from_absolute_path\<close> of an absolute path is its lexical normal form.\<close>

lemma from_absolute_path_of_absolute:
  assumes "is_absolute (path_components s)"
  shows "from_absolute_path home cwd s = Inr (normalize_path (path_components s))"
proof -
  have "strip_prefix ''~'' s = None" using assms by (auto simp: is_absolute_path_components starts_with_iff strip_prefix_None_iff)
  then show ?thesis using assms by (simp add: from_absolute_path_def maybe_expand_home_directory_def absolutize_def)
qed

definition socket_path_parse :: "str \<Rightarrow> config_error + validated_unix_socket_path" where
  "socket_path_parse socket_path =
     (if is_absolute (path_components socket_path) then Inr (NativeSocket (normalize_path (path_components socket_path)))
      else (case unix_style_absolute_parse socket_path of
              Some p \<Rightarrow> Inr (UnixStyleAbsolute p)
            | None \<Rightarrow> Inl (RelativeSocketPath socket_path)))"

definition validate_unix_socket_allowlist_paths :: "'j network_proxy_config \<Rightarrow> config_error + unit" where
  "validate_unix_socket_allowlist_paths cfg =
     and_then (collect_results (\<lambda>(index, p). map_err (InvalidSocketAllowlist index) (socket_path_parse p))
        (enumerate 0 (allow_unix_sockets cfg))) (\<lambda>_. Inr ())"

record socket_address_parts =
  sap_host :: str
  sap_port :: int

text \<open>\<open>str::parse::<u16>\<close>: an optional sign and decimal digits within the range.\<close>

definition parse_u16 :: "str \<Rightarrow> int option" where
  "parse_u16 s =
     (let digits = (case strip_prefix ''+'' s of Some r \<Rightarrow> r | None \<Rightarrow> s)
      in case read_digits 10 65535 (length digits) 0 0 digits of
           Some (v, n, []) \<Rightarrow> if n = 0 then None else Some v
         | _ \<Rightarrow> None)"

abbreviation or_port :: "int option \<Rightarrow> int \<Rightarrow> int" where
  "or_port p d \<equiv> (case p of Some x \<Rightarrow> x | None \<Rightarrow> d)"

definition parse_host_port_fallback :: "str \<Rightarrow> int \<Rightarrow> config_error + socket_address_parts" where
  "parse_host_port_fallback input default_port =
     (let without_scheme = (case split_once_str ''://'' input of Some (_, rest) \<Rightarrow> rest | None \<Rightarrow> input);
          host_port = hd (split_on (CHR ''/'') without_scheme);
          host_port = (case rsplit_once (CHR ''@'') host_port of Some (_, rest) \<Rightarrow> rest | None \<Rightarrow> host_port)
      in case (if starts_with host_port ''['' then find_str host_port '']'' else None) of
           Some e \<Rightarrow>
             (let host = drop 1 (take e host_port);
                  port = or_port (Option.bind (strip_prefix '':'' (drop (e + 1) host_port)) parse_u16) default_port
              in if host = [] then Inl (MissingHost input) else Inr \<lparr>sap_host = host, sap_port = port\<rparr>)
         | None \<Rightarrow>
             (case (if length (filter (\<lambda>b. b = CHR '':'') host_port) = 1 then rsplit_once (CHR '':'') host_port else None) of
                Some (host, port) \<Rightarrow>
                  if host = [] then Inl (MissingHost input)
                  else Inr \<lparr>sap_host = host, sap_port = or_port (parse_u16 port) default_port\<rparr>
              | None \<Rightarrow>
                  if host_port = [] then Inl (MissingHost input)
                  else Inr \<lparr>sap_host = host_port, sap_port = default_port\<rparr>))"

definition trim_brackets :: "str \<Rightarrow> str" where
  "trim_brackets s =
     (let b = (\<lambda>c. c = CHR ''['' \<or> c = CHR '']'') in rev (dropWhile b (rev (dropWhile b s))))"

definition parse_host_port :: "(str \<Rightarrow> url_parts option) \<Rightarrow> str \<Rightarrow> int \<Rightarrow> config_error + socket_address_parts" where
  "parse_host_port url_parse url default_port =
     (let trimmed = trim url
      in if trimmed = [] then Inl (MissingHost url)
         else if (case parse_ip trimmed of Some (V6 _) \<Rightarrow> True | _ \<Rightarrow> False) \<and> \<not> starts_with trimmed ''[''
         then Inr \<lparr>sap_host = trimmed, sap_port = default_port\<rparr>
         else
           (let candidate = (if contains_str trimmed ''://'' then trimmed else ''http://'' @ trimmed)
            in case Option.bind (url_parse candidate) (\<lambda>u. map_option (\<lambda>h. (h, url_port u)) (url_host_str u)) of
                 Some (host, port) \<Rightarrow>
                   (let host = trim_brackets host
                    in if host = [] then Inl (MissingHost url)
                       else Inr \<lparr>sap_host = host, sap_port = or_port port default_port\<rparr>)
               | None \<Rightarrow> parse_host_port_fallback trimmed default_port))"

definition resolve_addr :: "(str \<Rightarrow> url_parts option) \<Rightarrow> str \<Rightarrow> int \<Rightarrow> config_error + socket_addr" where
  "resolve_addr url_parse url default_port =
     and_then (parse_host_port url_parse url default_port) (\<lambda>parts.
       (let host = (if to_ascii_lowercase (sap_host parts) = ''localhost'' then ''127.0.0.1'' else sap_host parts)
        in Inr (case parse_ip host of
                  Some ip \<Rightarrow> \<lparr>sa_ip = ip, sa_port = sap_port parts\<rparr>
                | None \<Rightarrow> loopback_addr (sap_port parts))))"

definition format_host_and_port :: "str \<Rightarrow> int \<Rightarrow> str" where
  "format_host_and_port host port =
     (if contains_str host '':'' then ''['' @ host @ '']:'' @ show_nat (nat port) else host @ '':'' @ show_nat (nat port))"

definition host_and_port_from_network_addr :: "(str \<Rightarrow> url_parts option) \<Rightarrow> str \<Rightarrow> int \<Rightarrow> str" where
  "host_and_port_from_network_addr url_parse value default_port =
     (let trimmed = trim value
      in if trimmed = [] then ''<missing>''
         else (case parse_host_port url_parse trimmed default_port of
                 Inl _ \<Rightarrow> format_host_and_port trimmed default_port
               | Inr parts \<Rightarrow> format_host_and_port (sap_host parts) (sap_port parts)))"

definition resolve_runtime ::
    "(str \<Rightarrow> url_parts option) \<Rightarrow> 'j network_proxy_config \<Rightarrow> config_error + socket_addr \<times> socket_addr" where
  "resolve_runtime url_parse cfg =
     and_then (validate_unix_socket_allowlist_paths cfg) (\<lambda>_.
     and_then (map_err (InvalidProxyUrl (nc_proxy_url cfg)) (resolve_addr url_parse (nc_proxy_url cfg) 3128)) (\<lambda>http.
     and_then (map_err (InvalidSocksUrl (nc_socks_url cfg)) (resolve_addr url_parse (nc_socks_url cfg) 8081)) (\<lambda>socks.
       Inr (clamp_bind_addrs http socks cfg))))"

definition managed_proxy_ports :: "(str \<Rightarrow> url_parts option) \<Rightarrow> 'j network_proxy_config \<Rightarrow> config_error + int list" where
  "managed_proxy_ports url_parse cfg =
     and_then (resolve_runtime url_parse cfg) (\<lambda>(http, socks).
       if sa_port http = 0 then Inl ProxyPortNotFixed
       else if nc_enable_socks5 cfg \<and> sa_port socks = 0 then Inl SocksPortNotFixed
       else Inr (remdups_adj (sort (sa_port http # (if nc_enable_socks5 cfg then [sa_port socks] else [])))))"

section \<open>Properties of the configuration\<close>

lemma domain_entry_mem_iff:
  "\<lparr>de_pattern = p, de_permission = q\<rparr> \<in> A \<longleftrightarrow> (\<exists>e \<in> A. de_pattern e = p \<and> de_permission e = q)"
proof
  assume "\<exists>e \<in> A. de_pattern e = p \<and> de_permission e = q"
  then obtain e where "e \<in> A" "de_pattern e = p" "de_permission e = q" by blast
  then show "\<lparr>de_pattern = p, de_permission = q\<rparr> \<in> A" by (cases e) simp
qed force

lemma domain_entry_eq_iff: "e = \<lparr>de_pattern = p, de_permission = q\<rparr> \<longleftrightarrow> de_pattern e = p \<and> de_permission e = q"
  for e :: domain_entry
  by (cases e) auto

text \<open>The effective entries: one per pattern, with the strictest permission of the pattern.\<close>

definition strictest_in :: "domain_entry list \<Rightarrow> str \<Rightarrow> network_domain_permission \<Rightarrow> bool" where
  "strictest_in es p q \<longleftrightarrow>
     (\<exists>e \<in> set es. de_pattern e = p \<and> de_permission e = q)
     \<and> (\<forall>e \<in> set es. de_pattern e = p \<longrightarrow> permission_rank (de_permission e) \<le> permission_rank q)"

lemma effective_fold:
  assumes "foldl effective_step ([], Map.empty) es = (order, m)"
  shows "distinct order \<and> set order = de_pattern ` set es \<and> (\<forall>p. p \<notin> de_pattern ` set es \<longrightarrow> m p = None)
    \<and> (\<forall>p \<in> de_pattern ` set es. \<exists>q. m p = Some q \<and> strictest_in es p q)"
  using assms
proof (induction es arbitrary: order m rule: rev_induct)
  case (snoc e es)
  obtain o1 m1 where 1: "foldl effective_step ([], Map.empty) es = (o1, m1)" by (metis surj_pair)
  note IH = snoc.IH [OF 1]
  have new: "(order, m) = effective_step (o1, m1) e" using snoc.prems 1 by simp
  have other: "strictest_in (es @ [e]) p q" if "strictest_in es p q" "p \<noteq> de_pattern e" for p q
    using that by (auto simp: strictest_in_def)
  show ?case
  proof (cases "de_pattern e \<in> de_pattern ` set es")
    case False
    then have "order = o1 @ [de_pattern e]" "m = m1(de_pattern e \<mapsto> de_permission e)"
      using new IH by (auto simp: effective_step_def)
    moreover have "de_pattern x \<noteq> de_pattern e" if "x \<in> set es" for x using False that by (metis image_eqI)
    then have "strictest_in (es @ [e]) (de_pattern e) (de_permission e)" by (auto simp: strictest_in_def)
    ultimately show ?thesis using IH False other by fastforce
  next
    case True
    then obtain q where q: "m1 (de_pattern e) = Some q" "strictest_in es (de_pattern e) q" using IH by blast
    define q' where "q' = (if permission_rank q < permission_rank (de_permission e) then de_permission e else q)"
    have "order = o1" "m = m1(de_pattern e \<mapsto> q')" using new q by (auto simp: effective_step_def q'_def)
    moreover have "strictest_in (es @ [e]) (de_pattern e) q'" using q by (fastforce simp: strictest_in_def q'_def)
    moreover have "de_pattern ` set (es @ [e]) = de_pattern ` set es" using True by auto
    ultimately show ?thesis using IH other True by (auto simp del: set_append)
  qed
qed simp

lemma take_effective_iff:
  "distinct order \<Longrightarrow> e \<in> set (take_effective order m) \<longleftrightarrow> de_pattern e \<in> set order \<and> m (de_pattern e) = Some (de_permission e)"
proof (induction order arbitrary: m)
  case (Cons p ps)
  then show ?case by (cases "m p") (auto simp: domain_entry_eq_iff)
qed simp

lemma effective_entries_iff:
  "e \<in> set (effective_entries es) \<longleftrightarrow> strictest_in es (de_pattern e) (de_permission e)"
proof -
  obtain order m where f: "foldl effective_step ([], Map.empty) es = (order, m)" by (metis surj_pair)
  note facts = effective_fold [OF f]
  have rank: "permission_rank a = permission_rank b \<Longrightarrow> a = b" for a b by (cases a; cases b) auto
  have unique: "q = q'" if "strictest_in es p q" "strictest_in es p q'" for p q q'
    using that unfolding strictest_in_def by (metis antisym rank)
  have mem: "p \<in> de_pattern ` set es" if "strictest_in es p q" for p q using that by (auto simp: strictest_in_def)
  have "e \<in> set (effective_entries es) \<longleftrightarrow> de_pattern e \<in> set order \<and> m (de_pattern e) = Some (de_permission e)"
    using take_effective_iff [of order e m] facts f by (simp add: effective_entries_def)
  then show ?thesis using facts unique mem by (metis option.inject)
qed

lemma set_domain_entries_of: "p \<in> set (or_empty (domain_entries cfg perm)) \<longleftrightarrow> strictest_in (or_empty (nc_domains cfg)) p perm"
proof (cases "nc_domains cfg")
  case (Some es)
  have "set (or_empty (domain_entries cfg perm)) = de_pattern ` {e \<in> set (effective_entries es). de_permission e = perm}"
    using Some by (auto simp: domain_entries_def filter_empty_conv Let_def)
  moreover have "\<exists>e :: domain_entry. strictest_in es (de_pattern e) (de_permission e) \<and> de_pattern e = p \<and> de_permission e = perm"
    if "strictest_in es p perm"
    using that by (intro exI [of _ "\<lparr>de_pattern = p, de_permission = perm\<rparr>"]) simp
  ultimately show ?thesis using Some effective_entries_iff [of _ es] by (auto simp: image_iff)
qed (simp add: domain_entries_def strictest_in_def)

text \<open>Denying wins: a pattern is denied if any entry denies it, and allowed only if none does.\<close>

lemma denied_domains_iff:
  "p \<in> set (or_empty (denied_domains cfg)) \<longleftrightarrow> \<lparr>de_pattern = p, de_permission = DenyDomain\<rparr> \<in> set (or_empty (nc_domains cfg))"
proof -
  have "permission_rank x \<le> 2" for x by (cases x) auto
  then show ?thesis unfolding denied_domains_def set_domain_entries_of domain_entry_mem_iff by (auto simp: strictest_in_def)
qed

lemma allowed_domains_iff:
  "p \<in> set (or_empty (allowed_domains cfg)) \<longleftrightarrow>
     \<lparr>de_pattern = p, de_permission = AllowDomain\<rparr> \<in> set (or_empty (nc_domains cfg))
     \<and> p \<notin> set (or_empty (denied_domains cfg))"
proof -
  have "permission_rank x \<le> 1 \<longleftrightarrow> x \<noteq> DenyDomain" for x by (cases x) auto
  then show ?thesis
    unfolding allowed_domains_def set_domain_entries_of denied_domains_iff domain_entry_mem_iff
    by (auto simp: strictest_in_def)
qed

lemma loopback_addr_is_loopback [simp]: "ip_is_loopback (sa_ip (loopback_addr port))"
  by (simp add: loopback_addr_def ipv4_is_loopback_def octet_0 uint_ipv4_new)

lemma clamp_bind_addrs_loopback:
  assumes "\<not> nc_allow_non_loopback_proxy cfg \<or> allow_unix_sockets cfg \<noteq> [] \<or> nc_allow_all_unix_sockets cfg"
  shows "ip_is_loopback (sa_ip (fst (clamp_bind_addrs a b cfg))) \<and> ip_is_loopback (sa_ip (snd (clamp_bind_addrs a b cfg)))"
  using assms by (cases "nc_allow_non_loopback_proxy cfg") (simp_all add: clamp_bind_addrs_def clamp_non_loopback_def Let_def)

text \<open>The proxy listens on loopback addresses only, unless the configuration allows others and enables no Unix sockets.\<close>

theorem proxy_listens_on_loopback:
  assumes "resolve_runtime url_parse cfg = Inr (http, socks)"
    and "\<not> nc_allow_non_loopback_proxy cfg \<or> allow_unix_sockets cfg \<noteq> [] \<or> nc_allow_all_unix_sockets cfg"
  shows "ip_is_loopback (sa_ip http) \<and> ip_is_loopback (sa_ip socks)"
  using assms clamp_bind_addrs_loopback [OF assms(2)] by (auto simp: resolve_runtime_def) (metis fst_conv snd_conv)+

theorem proxy_listens_on_loopback_witness:
  "\<exists>http socks. resolve_runtime (\<lambda>_. None) (default_network_proxy_config\<lparr>nc_proxy_url := ''0.0.0.0:99''\<rparr> :: unit network_proxy_config)
       = Inr (http, socks) \<and> sa_port http = 99 \<and> ip_is_loopback (sa_ip http) \<and> ip_is_loopback (sa_ip socks)"
proof -
  let ?cfg = "default_network_proxy_config\<lparr>nc_proxy_url := ''0.0.0.0:99''\<rparr> :: unit network_proxy_config"
  have run: "resolve_runtime (\<lambda>_. None) ?cfg = Inr (loopback_addr 99, loopback_addr 8081)" by code_simp
  have "\<not> nc_allow_non_loopback_proxy ?cfg" by code_simp
  then show ?thesis using proxy_listens_on_loopback [OF run] run by (auto simp: loopback_addr_def)
qed

section \<open>Serialised permissions\<close>

text \<open>The wire form is a map from patterns to permissions; JSON itself is left out.\<close>

definition serialize_domains :: "domain_entry list \<Rightarrow> (str \<times> network_domain_permission) list" where
  "serialize_domains es = foldl (\<lambda>m e. btree_insert (de_pattern e) (de_permission e) m) [] (effective_entries es)"

definition deserialize_domains :: "(str \<times> network_domain_permission) list \<Rightarrow> domain_entry list" where
  "deserialize_domains m = map (\<lambda>(p, q). \<lparr>de_pattern = p, de_permission = q\<rparr>) m"

lemma set_btree_insert_new: "k \<notin> fst ` set m \<Longrightarrow> set (btree_insert k v m) = insert (k, v) (set m)"
proof (induction m)
  case (Cons x m)
  then show ?case by (cases x; cases "k < fst x") auto
qed simp

lemma set_fold_btree_insert:
  assumes "distinct (map de_pattern es)" "fst ` set m \<inter> de_pattern ` set es = {}"
  shows "set (foldl (\<lambda>m e. btree_insert (de_pattern e) (de_permission e) m) m es)
    = set m \<union> (\<lambda>e. (de_pattern e, de_permission e)) ` set es"
  using assms
proof (induction es arbitrary: m)
  case (Cons e es)
  have new: "set (btree_insert (de_pattern e) (de_permission e) m) = insert (de_pattern e, de_permission e) (set m)"
    using Cons.prems(2) by (intro set_btree_insert_new) auto
  have "fst ` set (btree_insert (de_pattern e) (de_permission e) m) \<inter> de_pattern ` set es = {}"
    using Cons.prems new by auto
  then show ?case using Cons.IH [of "btree_insert (de_pattern e) (de_permission e) m"] Cons.prems(1) new by auto
qed simp

lemma take_effective_distinct: "distinct order \<Longrightarrow> distinct (map de_pattern (take_effective order m))"
proof (induction order arbitrary: m)
  case (Cons p ps)
  then show ?case by (cases "m p") (auto simp: take_effective_iff image_iff)
qed simp

lemma effective_entries_distinct: "distinct (map de_pattern (effective_entries es))"
proof -
  obtain order m where f: "foldl effective_step ([], Map.empty) es = (order, m)" by (metis surj_pair)
  then show ?thesis using effective_fold [OF f] take_effective_distinct by (simp add: effective_entries_def)
qed

lemma strictest_unique: "strictest_in es p q \<Longrightarrow> strictest_in es p q' \<Longrightarrow> q = q'"
  unfolding strictest_in_def by (metis antisym permission_rank.cases permission_rank.simps(1-3) nat.distinct(1) numeral_eq_one_iff
      semiring_norm(85) zero_neq_numeral zero_neq_one)

text \<open>Permissions that are written to the wire and read back have, for every pattern, the same effective permission: the strictest of
  the entries for the pattern.\<close>

theorem domain_permissions_round_trip:
  "strictest_in (deserialize_domains (serialize_domains es)) p q \<longleftrightarrow> strictest_in es p q"
proof -
  have "set (serialize_domains es) = {(p, q). strictest_in es p q}"
    using set_fold_btree_insert [OF effective_entries_distinct, of "[]" es] effective_entries_iff [of _ es]
    by (auto simp: serialize_domains_def image_iff) (metis domain_entry.select_convs(1,2))
  then have "set (deserialize_domains (serialize_domains es)) = {e. strictest_in es (de_pattern e) (de_permission e)}"
    by (auto simp: deserialize_domains_def image_iff) (metis domain_entry.surjective old.unit.exhaust)
  then have read: "e \<in> set (deserialize_domains (serialize_domains es)) \<longleftrightarrow> strictest_in es (de_pattern e) (de_permission e)" for e
    by simp
  show ?thesis
  proof
    assume "strictest_in es p q"
    then have "\<lparr>de_pattern = p, de_permission = q\<rparr> \<in> set (deserialize_domains (serialize_domains es))" using read by simp
    then show "strictest_in (deserialize_domains (serialize_domains es)) p q"
      using read strictest_unique \<open>strictest_in es p q\<close> unfolding strictest_in_def [of "deserialize_domains (serialize_domains es)"]
      by (metis domain_entry.select_convs(1,2) order_refl)
  next
    assume "strictest_in (deserialize_domains (serialize_domains es)) p q"
    then show "strictest_in es p q" using read by (auto simp: strictest_in_def [of "deserialize_domains (serialize_domains es)"])
  qed
qed

end
