(* ===== verification/Mitm_Hook.thy ===== *)
theory Mitm_Hook
  imports Network_Config
begin

text \<open>
  Hooks on intercepted requests (\<open>codex-rs/network-proxy/src/mitm_hook.rs\<close>) and the paths they authorise
  (\<open>authorization_path.rs\<close>): validation of the configured hooks, their compilation with the secrets they inject, and
  the evaluation of a request.

  The crates for headers, globs and form encoding, the process environment and the secret files are the record
  \<open>hook_lib\<close>; a header name is its normalised text.
\<close>

section \<open>Paths\<close>

definition decode_hex_digit :: "char \<Rightarrow> nat option" where
  "decode_hex_digit b =
     (let v = byte_val b
      in if is_ascii_digit b then Some (v - 48)
         else if 97 \<le> v \<and> v \<le> 102 then Some (v - 97 + 10)
         else if 65 \<le> v \<and> v \<le> 70 then Some (v - 65 + 10)
         else None)"

text \<open>The loop over a segment, with the dots counted and whether another character was seen.\<close>

fun safe_segment_from :: "nat \<Rightarrow> bool \<Rightarrow> str \<Rightarrow> bool" where
  "safe_segment_from dots non_dot [] \<longleftrightarrow> non_dot \<or> dots \<notin> {1, 2}"
| "safe_segment_from dots non_dot (c # s) \<longleftrightarrow>
     (if c = CHR ''.'' then safe_segment_from (dots + 1) non_dot s
      else if c = CHR 0x5C then False
      else if c = CHR ''%'' then
        (case s of
           h # l # r \<Rightarrow>
             (case (decode_hex_digit h, decode_hex_digit l) of
                (Some high, Some low) \<Rightarrow>
                  (let decoded = char_of (high * 16 + low) :: char
                   in if decoded \<in> {CHR ''%'', CHR ''/'', CHR 0x5C} then False
                      else if decoded = CHR ''.'' then safe_segment_from (dots + 1) non_dot r
                      else safe_segment_from dots True r)
              | _ \<Rightarrow> False)
         | _ \<Rightarrow> False)
      else safe_segment_from dots True s)"

definition is_safe_segment_for_authorization :: "str \<Rightarrow> bool" where
  "is_safe_segment_for_authorization segment = safe_segment_from 0 False segment"

definition is_safe_for_authorization :: "str \<Rightarrow> bool" where
  "is_safe_for_authorization path \<longleftrightarrow> list_all is_safe_segment_for_authorization (split_on (CHR ''/'') path)"

section \<open>Compiled hooks\<close>

record compiled_glob =
  cg_pattern :: str
  cg_literal_separator :: bool

datatype path_matcher = PrefixPath str | GlobPath compiled_glob
datatype value_matcher = ExactValue str | GlobValue compiled_glob
datatype matcher_pattern = LiteralPattern str | GlobPattern str
datatype secret_source = EnvVarSecret str | FileSecret path

record constraint =
  con_name :: str
  con_allowed_values :: "value_matcher list"

record 'v resolved_injected_header =
  rih_name :: str
  rih_value :: 'v
  rih_source :: secret_source

record hook_matcher =
  hm_methods :: "str list"
  hm_path_prefixes :: "path_matcher list"
  hm_query :: "constraint list"
  hm_headers :: "constraint list"

record 'v hook_actions =
  ha_strip_request_headers :: "str list"
  ha_inject_request_headers :: "'v resolved_injected_header list"

record 'v mitm_hook =
  mh_host :: str
  mh_matcher :: hook_matcher
  mh_actions :: "'v hook_actions"

datatype 'v hook_evaluation = NoHooksForHost | Matched "'v hook_actions" | HookedHostNoMatch

record 'v hook_lib =
  hl_header_name :: "str \<Rightarrow> str option"
  hl_header_value :: "str \<Rightarrow> 'v option"
  hl_value_to_str :: "'v \<Rightarrow> str option"
  hl_glob_valid :: "str \<Rightarrow> bool \<Rightarrow> bool"
  hl_glob_match :: "str \<Rightarrow> bool \<Rightarrow> str \<Rightarrow> bool"
  hl_form_urlencoded :: "str \<Rightarrow> (str \<times> str) list"
  hl_env_var :: "str \<Rightarrow> str option"
  hl_read_to_string :: "path \<Rightarrow> str option"

record 'v http_request =
  rq_method :: str
  rq_path :: str
  rq_query :: "str option"
  rq_headers :: "(str \<times> 'v) list"

datatype hook_error =
    MitmNotEnabled
  | EmptyHost
  | WildcardHost
  | EmptyMethod
  | NoMethods
  | EmptyPathPrefix
  | NoPathPrefixes
  | EmptyGlob
  | InvalidGlob str
  | BodyNotSupported
  | EmptyQueryKey
  | NoQueryValues str
  | InvalidMatcherFor str hook_error
  | InvalidHeaderName str
  | EmptySecretEnvVar
  | EmptySecretFile
  | RelativeSecretFile str
  | NotOneSecret
  | MissingEnvVar str
  | UnreadableSecretFile path
  | InvalidHeaderValue str
  | InvalidInjectedHeader str hook_error
  | InHook nat str hook_error

section \<open>Validation and compilation\<close>

definition LITERAL_PREFIX :: str where "LITERAL_PREFIX = ''literal:''"
definition PATTERN_PREFIX :: str where "PATTERN_PREFIX = ''pattern:''"

definition parse_matcher_pattern :: "str \<Rightarrow> hook_error + matcher_pattern" where
  "parse_matcher_pattern pattern =
     (case strip_prefix LITERAL_PREFIX pattern of
        Some literal \<Rightarrow> Inr (LiteralPattern literal)
      | None \<Rightarrow>
          (case strip_prefix PATTERN_PREFIX pattern of
             None \<Rightarrow> Inr (LiteralPattern pattern)
           | Some g \<Rightarrow> if g = [] then Inl EmptyGlob else Inr (GlobPattern g)))"

definition compile_glob_matcher :: "'v hook_lib \<Rightarrow> str \<Rightarrow> bool \<Rightarrow> hook_error + compiled_glob" where
  "compile_glob_matcher K pattern literal_separator =
     (if hl_glob_valid K pattern literal_separator
      then Inr \<lparr>cg_pattern = pattern, cg_literal_separator = literal_separator\<rparr>
      else Inl (InvalidGlob pattern))"

definition glob_is_match :: "'v hook_lib \<Rightarrow> compiled_glob \<Rightarrow> str \<Rightarrow> bool" where
  "glob_is_match K g candidate = hl_glob_match K (cg_pattern g) (cg_literal_separator g) candidate"

definition compile_path_matcher :: "'v hook_lib \<Rightarrow> str \<Rightarrow> hook_error + path_matcher" where
  "compile_path_matcher K p =
     and_then (parse_matcher_pattern p) (\<lambda>m. case m of
        LiteralPattern literal \<Rightarrow> if literal = [] then Inl EmptyPathPrefix else Inr (PrefixPath literal)
      | GlobPattern g \<Rightarrow> and_then (compile_glob_matcher K g True) (\<lambda>c. Inr (GlobPath c)))"

definition compile_path_matchers :: "'v hook_lib \<Rightarrow> str list \<Rightarrow> hook_error + path_matcher list" where
  "compile_path_matchers K = collect_results (compile_path_matcher K)"

definition compile_value_matcher :: "'v hook_lib \<Rightarrow> str \<Rightarrow> hook_error + value_matcher" where
  "compile_value_matcher K v =
     and_then (parse_matcher_pattern v) (\<lambda>m. case m of
        LiteralPattern literal \<Rightarrow> Inr (ExactValue literal)
      | GlobPattern g \<Rightarrow> and_then (compile_glob_matcher K g False) (\<lambda>c. Inr (GlobValue c)))"

definition compile_value_matchers :: "'v hook_lib \<Rightarrow> str list \<Rightarrow> hook_error + value_matcher list" where
  "compile_value_matchers K = collect_results (compile_value_matcher K)"

definition normalize_hook_host :: "str \<Rightarrow> hook_error + str" where
  "normalize_hook_host host =
     (let normalized = normalize_host host
      in if normalized = [] then Inl EmptyHost
         else if contains_str normalized ''*'' then Inl WildcardHost
         else Inr normalized)"

definition to_ascii_uppercase :: "str \<Rightarrow> str" where
  "to_ascii_uppercase s = map (\<lambda>c. if is_ascii_lower c then char_of (byte_val c - 32) else c) s"

definition normalize_methods :: "str list \<Rightarrow> hook_error + str list" where
  "normalize_methods = collect_results (\<lambda>m.
     (let normalized = to_ascii_uppercase (trim m) in if normalized = [] then Inl EmptyMethod else Inr normalized))"

definition normalize_query_name :: "str \<Rightarrow> hook_error + str" where
  "normalize_query_name name = (if name = [] then Inl EmptyQueryKey else Inr name)"

definition parse_header_name :: "'v hook_lib \<Rightarrow> str \<Rightarrow> hook_error + str" where
  "parse_header_name K name = ok_or (InvalidHeaderName name) (hl_header_name K name)"

definition parse_secret_file :: "str \<Rightarrow> hook_error + path" where
  "parse_secret_file p =
     (if trim p = [] then Inl EmptySecretFile
      else if \<not> is_absolute (path_components p) then Inl (RelativeSecretFile p)
      else Inr (normalize_path (path_components p)))"

definition validate_query_constraints :: "'v hook_lib \<Rightarrow> (str \<times> str list) list \<Rightarrow> hook_error + unit" where
  "validate_query_constraints K query =
     and_then (collect_results (\<lambda>(name, values).
       and_then (normalize_query_name name) (\<lambda>normalized.
         if normalized = [] then Inl EmptyQueryKey
         else if values = [] then Inl (NoQueryValues name)
         else map_err (InvalidMatcherFor name) (compile_value_matchers K values))) query) (\<lambda>_. Inr ())"

definition validate_header_constraints :: "'v hook_lib \<Rightarrow> (str \<times> str list) list \<Rightarrow> hook_error + unit" where
  "validate_header_constraints K headers =
     and_then (collect_results (\<lambda>(name, values).
       and_then (parse_header_name K name) (\<lambda>_.
         map_err (InvalidMatcherFor name) (compile_value_matchers K values))) headers) (\<lambda>_. Inr ())"

definition validate_strip_request_headers :: "'v hook_lib \<Rightarrow> str list \<Rightarrow> hook_error + unit" where
  "validate_strip_request_headers K names = and_then (collect_results (parse_header_name K) names) (\<lambda>_. Inr ())"

definition validate_injected_headers :: "'v hook_lib \<Rightarrow> injected_header_config list \<Rightarrow> hook_error + unit" where
  "validate_injected_headers K headers =
     and_then (collect_results (\<lambda>h.
       and_then (parse_header_name K (ihc_name h)) (\<lambda>_.
         case (ihc_secret_env_var h, ihc_secret_file h) of
           (Some v, None) \<Rightarrow> if trim v = [] then Inl EmptySecretEnvVar else Inr ()
         | (None, Some f) \<Rightarrow> and_then (parse_secret_file f) (\<lambda>_. Inr ())
         | _ \<Rightarrow> Inl NotOneSecret)) headers) (\<lambda>_. Inr ())"

definition validate_mitm_hook :: "'v hook_lib \<Rightarrow> nat \<Rightarrow> 'j mitm_hook_config \<Rightarrow> hook_error + unit" where
  "validate_mitm_hook K i hook =
     (let m = mhc_matcher hook; a = mhc_actions hook
      in and_then (map_err (InHook i ''host'') (normalize_hook_host (mhc_host hook))) (\<lambda>host.
         and_then (map_err (InHook i ''match.methods'') (normalize_methods (hmc_methods m))) (\<lambda>methods.
         if methods = [] then Inl (InHook i ''match.methods'' NoMethods)
         else and_then (map_err (InHook i ''match.path_prefixes'') (compile_path_matchers K (hmc_path_prefixes m))) (\<lambda>prefixes.
         if prefixes = [] then Inl (InHook i ''match.path_prefixes'' NoPathPrefixes)
         else if hmc_body m \<noteq> None then Inl (InHook i ''match.body'' BodyNotSupported)
         else and_then (map_err (InHook i ''match.query'') (validate_query_constraints K (hmc_query m))) (\<lambda>_.
         and_then (map_err (InHook i ''match.headers'') (validate_header_constraints K (hmc_headers m))) (\<lambda>_.
         and_then (map_err (InHook i ''actions.strip_request_headers'')
                     (validate_strip_request_headers K (hac_strip_request_headers a))) (\<lambda>_.
         and_then (map_err (InHook i ''actions.inject_request_headers'')
                     (validate_injected_headers K (hac_inject_request_headers a))) (\<lambda>_.
         if host = [] then Inl (InHook i ''host'' EmptyHost) else Inr ()))))))))"

definition validate_mitm_hook_config :: "'v hook_lib \<Rightarrow> 'j network_proxy_config \<Rightarrow> hook_error + unit" where
  "validate_mitm_hook_config K cfg =
     (if nc_mitm_hooks cfg = [] then Inr ()
      else if \<not> nc_mitm cfg then Inl MitmNotEnabled
      else and_then (collect_results (\<lambda>(i, hook). validate_mitm_hook K i hook) (enumerate 0 (nc_mitm_hooks cfg))) (\<lambda>_. Inr ()))"

text \<open>A secret file is read and trimmed.\<close>

definition compile_injected_header :: "'v hook_lib \<Rightarrow> injected_header_config \<Rightarrow> hook_error + 'v resolved_injected_header" where
  "compile_injected_header K h =
     and_then (parse_header_name K (ihc_name h)) (\<lambda>name.
     and_then (case (ihc_secret_env_var h, ihc_secret_file h) of
                 (Some env_var, None) \<Rightarrow>
                   and_then (ok_or (MissingEnvVar env_var) (hl_env_var K env_var)) (\<lambda>v. Inr (v, EnvVarSecret env_var))
               | (None, Some secret_file) \<Rightarrow>
                   and_then (parse_secret_file secret_file) (\<lambda>p.
                   and_then (ok_or (UnreadableSecretFile p) (map_option trim (hl_read_to_string K p))) (\<lambda>v. Inr (v, FileSecret p)))
               | _ \<Rightarrow> Inl NotOneSecret) (\<lambda>(secret, source).
     and_then (ok_or (InvalidHeaderValue (ihc_name h))
                 (hl_header_value K ((case ihc_prefix h of Some p \<Rightarrow> p | None \<Rightarrow> []) @ secret))) (\<lambda>v.
       Inr \<lparr>rih_name = name, rih_value = v, rih_source = source\<rparr>)))"

definition compile_query_constraint :: "'v hook_lib \<Rightarrow> str \<times> str list \<Rightarrow> hook_error + constraint" where
  "compile_query_constraint K q =
     (case q of (name, values) \<Rightarrow>
        and_then (normalize_query_name name) (\<lambda>n. and_then (compile_value_matchers K values) (\<lambda>vs.
          Inr \<lparr>con_name = n, con_allowed_values = vs\<rparr>)))"

definition compile_header_constraint :: "'v hook_lib \<Rightarrow> str \<times> str list \<Rightarrow> hook_error + constraint" where
  "compile_header_constraint K q =
     (case q of (name, values) \<Rightarrow>
        and_then (parse_header_name K name) (\<lambda>n. and_then (compile_value_matchers K values) (\<lambda>vs.
          Inr \<lparr>con_name = n, con_allowed_values = vs\<rparr>)))"

definition compile_mitm_hook :: "'v hook_lib \<Rightarrow> 'j mitm_hook_config \<Rightarrow> hook_error + 'v mitm_hook" where
  "compile_mitm_hook K hook =
     (let m = mhc_matcher hook; a = mhc_actions hook
      in and_then (normalize_hook_host (mhc_host hook)) (\<lambda>host.
         and_then (normalize_methods (hmc_methods m)) (\<lambda>methods.
         and_then (compile_path_matchers K (hmc_path_prefixes m)) (\<lambda>prefixes.
         and_then (collect_results (compile_query_constraint K) (hmc_query m)) (\<lambda>query.
         and_then (collect_results (compile_header_constraint K) (hmc_headers m)) (\<lambda>headers.
         and_then (collect_results (parse_header_name K) (hac_strip_request_headers a)) (\<lambda>strip.
         and_then (collect_results (\<lambda>h. map_err (InvalidInjectedHeader (ihc_name h)) (compile_injected_header K h))
                     (hac_inject_request_headers a)) (\<lambda>inject.
           Inr \<lparr>mh_host = host,
                mh_matcher = \<lparr>hm_methods = methods, hm_path_prefixes = prefixes, hm_query = query, hm_headers = headers\<rparr>,
                mh_actions = \<lparr>ha_strip_request_headers = strip, ha_inject_request_headers = inject\<rparr>\<rparr>))))))))"

fun compile_hooks_into ::
    "'v hook_lib \<Rightarrow> 'j mitm_hook_config list \<Rightarrow> (str \<rightharpoonup> 'v mitm_hook list) \<Rightarrow> hook_error + (str \<rightharpoonup> 'v mitm_hook list)" where
  "compile_hooks_into K [] m = Inr m"
| "compile_hooks_into K (c # cs) m =
     and_then (compile_mitm_hook K c) (\<lambda>hook.
       compile_hooks_into K cs (m(mh_host hook \<mapsto> or_empty (m (mh_host hook)) @ [hook])))"

definition compile_mitm_hooks :: "'v hook_lib \<Rightarrow> 'j network_proxy_config \<Rightarrow> hook_error + (str \<rightharpoonup> 'v mitm_hook list)" where
  "compile_mitm_hooks K cfg =
     and_then (validate_mitm_hook_config K cfg) (\<lambda>_. compile_hooks_into K (nc_mitm_hooks cfg) Map.empty)"

section \<open>Evaluation\<close>

fun path_matcher_matches :: "'v hook_lib \<Rightarrow> path_matcher \<Rightarrow> str \<Rightarrow> bool" where
  "path_matcher_matches K (PrefixPath p) candidate = starts_with candidate p"
| "path_matcher_matches K (GlobPath g) candidate = glob_is_match K g candidate"

fun value_matcher_matches :: "'v hook_lib \<Rightarrow> value_matcher \<Rightarrow> str \<Rightarrow> bool" where
  "value_matcher_matches K (ExactValue v) candidate \<longleftrightarrow> v = candidate"
| "value_matcher_matches K (GlobValue g) candidate = glob_is_match K g candidate"

definition path_matches :: "'v hook_lib \<Rightarrow> path_matcher list \<Rightarrow> str \<Rightarrow> bool" where
  "path_matches K ms p = list_ex (\<lambda>m. path_matcher_matches K m p) ms"

definition query_matches :: "'v hook_lib \<Rightarrow> constraint list \<Rightarrow> 'v http_request \<Rightarrow> bool" where
  "query_matches K cs req =
     (if cs = [] then True
      else
        (let actual = hl_form_urlencoded K (case rq_query req of Some q \<Rightarrow> q | None \<Rightarrow> [])
         in list_all (\<lambda>c. list_ex (\<lambda>(n, v). n = con_name c \<and> list_ex (\<lambda>m. value_matcher_matches K m v) (con_allowed_values c)) actual) cs))"

definition headers_match :: "'v hook_lib \<Rightarrow> constraint list \<Rightarrow> 'v http_request \<Rightarrow> bool" where
  "headers_match K cs req =
     list_all (\<lambda>c.
       (let actual = map snd (filter (\<lambda>(n, _). n = con_name c) (rq_headers req))
        in if actual = [] then False
           else if con_allowed_values c = [] then True
           else list_ex (\<lambda>v. case hl_value_to_str K v of
                               None \<Rightarrow> False
                             | Some s \<Rightarrow> list_ex (\<lambda>m. value_matcher_matches K m s) (con_allowed_values c)) actual)) cs"

definition hook_matches :: "'v hook_lib \<Rightarrow> 'v mitm_hook \<Rightarrow> 'v http_request \<Rightarrow> bool" where
  "hook_matches K hook req =
     (if \<not> list_ex (\<lambda>m. m = to_ascii_uppercase (rq_method req)) (hm_methods (mh_matcher hook)) then False
      else if \<not> is_safe_for_authorization (rq_path req) \<or> \<not> path_matches K (hm_path_prefixes (mh_matcher hook)) (rq_path req) then False
      else if \<not> query_matches K (hm_query (mh_matcher hook)) req then False
      else headers_match K (hm_headers (mh_matcher hook)) req)"

definition evaluate_mitm_hooks :: "'v hook_lib \<Rightarrow> (str \<rightharpoonup> 'v mitm_hook list) \<Rightarrow> str \<Rightarrow> 'v http_request \<Rightarrow> 'v hook_evaluation" where
  "evaluate_mitm_hooks K hooks_by_host host req =
     (case hooks_by_host (normalize_host host) of
        None \<Rightarrow> NoHooksForHost
      | Some hooks \<Rightarrow>
          (case List.find (\<lambda>h. hook_matches K h req) hooks of
             Some hook \<Rightarrow> Matched (mh_actions hook)
           | None \<Rightarrow> HookedHostNoMatch))"

section \<open>Authorised paths\<close>

text \<open>Percent-decoding as an upstream server does it: a well-formed escape is decoded, anything else is kept.\<close>

fun percent_decode :: "str \<Rightarrow> str" where
  "percent_decode [] = []"
| "percent_decode (c # s) =
     (if c = CHR ''%''
      then (case s of
              h # l # r \<Rightarrow>
                (case (decode_hex_digit h, decode_hex_digit l) of
                   (Some high, Some low) \<Rightarrow> char_of (high * 16 + low) # percent_decode r
                 | _ \<Rightarrow> c # percent_decode s)
            | _ \<Rightarrow> c # percent_decode s)
      else c # percent_decode s)"

lemma percent_decode_plain: "CHR ''%'' \<notin> set s \<Longrightarrow> percent_decode s = s"
  by (induction s rule: percent_decode.induct) auto

lemma hex_digit_slash [simp]: "decode_hex_digit (CHR ''/'') = None"
  by (simp add: decode_hex_digit_def is_ascii_digit_def byte_val_def)

text \<open>What the loop guarantees of the decoded segment, for the dots and other characters seen before it.\<close>

lemma safe_segment_decoded:
  "safe_segment_from dots non_dot s \<Longrightarrow> CHR ''/'' \<notin> set s \<Longrightarrow>
     set (percent_decode s) \<inter> {CHR ''%'', CHR ''/'', CHR 0x5C} = {}
     \<and> (non_dot \<or> list_ex (\<lambda>c. c \<noteq> CHR ''.'') (percent_decode s) \<or> dots + length (percent_decode s) \<notin> {1, 2})"
proof (induction s arbitrary: dots non_dot rule: length_induct)
  case (1 s)
  show ?case
  proof (cases s)
    case (Cons c t)
    show ?thesis
    proof (cases "c = CHR ''%''")
      case True
      then obtain h l r where t: "t = h # l # r" using "1.prems" Cons by (auto split: list.splits)
      then obtain high low where d: "decode_hex_digit h = Some high" "decode_hex_digit l = Some low"
        using "1.prems" Cons True by (auto split: option.splits)
      define x :: char where "x = char_of (high * 16 + low)"
      have x: "x \<notin> {CHR ''%'', CHR ''/'', CHR 0x5C}"
        and rec: "safe_segment_from (if x = CHR ''.'' then dots + 1 else dots) (non_dot \<or> x \<noteq> CHR ''.'') r"
        using "1.prems" Cons True t d by (auto simp: x_def Let_def split: if_splits)
      have dec: "percent_decode s = x # percent_decode r" using True Cons t d by (simp add: x_def)
      have "length r < length s" "CHR ''/'' \<notin> set r" using "1.prems" Cons t by auto
      then show ?thesis using "1.IH" rec x unfolding dec by (fastforce split: if_splits)
    next
      case False
      then have dec: "percent_decode s = c # percent_decode t" using Cons by simp
      have rec: "safe_segment_from (if c = CHR ''.'' then dots + 1 else dots) (non_dot \<or> c \<noteq> CHR ''.'') t" and "c \<noteq> CHR 0x5C"
        using "1.prems" Cons False by (auto split: if_splits)
      moreover have "length t < length s" "CHR ''/'' \<notin> set t" "c \<noteq> CHR ''/''" using "1.prems" Cons by auto
      ultimately show ?thesis using "1.IH" False unfolding dec by (fastforce split: if_splits)
    qed
  qed (use "1.prems" in simp)
qed

text \<open>Every escape of a safe segment is complete, so decoding does not reach beyond it.\<close>

lemma safe_segment_decode_append:
  "safe_segment_from dots non_dot s \<Longrightarrow> percent_decode (s @ t) = percent_decode s @ percent_decode t"
proof (induction s arbitrary: dots non_dot rule: length_induct)
  case (1 s)
  show ?case
  proof (cases s)
    case (Cons c u)
    show ?thesis
    proof (cases "c = CHR ''%''")
      case True
      then obtain h l r where u: "u = h # l # r" using "1.prems" Cons by (auto split: list.splits)
      then obtain high low where d: "decode_hex_digit h = Some high" "decode_hex_digit l = Some low"
        using "1.prems" Cons True by (auto split: option.splits)
      have "\<exists>dots' nd'. safe_segment_from dots' nd' r"
        using "1.prems" Cons True u d by (auto simp: Let_def split: if_splits)
      moreover have "length r < length s" using Cons u by simp
      ultimately show ?thesis using "1.IH" True Cons u d by auto
    next
      case False
      have "\<exists>dots' nd'. safe_segment_from dots' nd' u" using "1.prems" Cons False by (auto split: if_splits)
      then show ?thesis using "1.IH" False Cons by auto
    qed
  qed simp
qed

lemma safe_segments_decode:
  assumes "list_all is_safe_segment_for_authorization segs" "segs \<noteq> []" "\<forall>f \<in> set segs. CHR ''/'' \<notin> set f"
  shows "percent_decode (join_with ''/'' segs) = join_with ''/'' (map percent_decode segs)"
  using assms
proof (induction segs rule: induct_list012)
  case (3 f g fs)
  have "percent_decode (f @ ''/'' @ join_with ''/'' (g # fs)) = percent_decode f @ percent_decode (''/'' @ join_with ''/'' (g # fs))"
    using "3.prems"(1) safe_segment_decode_append by (auto simp: is_safe_segment_for_authorization_def)
  then show ?case using 3 by simp
qed auto

text \<open>C35: A path that a hook may authorise means the same to the hook and to every server behind it: decoding its escapes
  changes neither the number nor the borders of its segments, no decoded segment is \<open>.\<close> or \<open>..\<close>, and the decoded path has
  no backslash and does not change when it is decoded again.\<close>

theorem authorised_paths_are_unambiguous:
  assumes "is_safe_for_authorization path"
  shows "split_on (CHR ''/'') (percent_decode path) = map percent_decode (split_on (CHR ''/'') path)
    \<and> {''.'', ''..''} \<inter> set (split_on (CHR ''/'') (percent_decode path)) = {}
    \<and> CHR 0x5C \<notin> set (percent_decode path)
    \<and> percent_decode (percent_decode path) = percent_decode path"
proof -
  let ?segs = "split_on (CHR ''/'') path"
  have safe: "list_all is_safe_segment_for_authorization ?segs" using assms by (simp add: is_safe_for_authorization_def)
  have no_slash: "\<forall>f \<in> set ?segs. CHR ''/'' \<notin> set f" by (simp add: split_on_fields)
  have good: "set (percent_decode f) \<inter> {CHR ''%'', CHR ''/'', CHR 0x5C} = {} \<and> percent_decode f \<notin> {''.'', ''..''}"
    if "f \<in> set ?segs" for f
    using safe_segment_decoded [of 0 False f] safe no_slash that
    by (auto simp: is_safe_segment_for_authorization_def list_all_iff)
  have dec: "percent_decode path = join_with ''/'' (map percent_decode ?segs)"
    using safe_segments_decode [OF safe _ no_slash] by (simp add: join_split_on)
  have split: "split_on (CHR ''/'') (percent_decode path) = map percent_decode ?segs"
    unfolding dec using good by (intro split_join) (auto simp: list_all_iff)
  have chars: "set (join_with ''/'' fs) \<subseteq> {CHR ''/''} \<union> \<Union> (set ` set fs)" for fs
    by (induction fs rule: induct_list012) auto
  have clean: "CHR 0x5C \<notin> \<Union> (set ` set (map percent_decode ?segs))" "CHR ''%'' \<notin> \<Union> (set ` set (map percent_decode ?segs))"
    using good by auto
  have bs: "CHR 0x5C \<notin> set (percent_decode path)" "CHR ''%'' \<notin> set (percent_decode path)"
    using chars [of "map percent_decode ?segs", folded dec] clean by auto
  have dots: "{''.'', ''..''} \<inter> set (split_on (CHR ''/'') (percent_decode path)) = {}"
  proof (rule equals0I)
    fix y
    assume "y \<in> {''.'', ''..''} \<inter> set (split_on (CHR ''/'') (percent_decode path))"
    then obtain f where "f \<in> set ?segs" "y = percent_decode f" "y \<in> {''.'', ''..''}" unfolding split by auto
    then show False using good [of f] by simp
  qed
  show ?thesis using split dots bs(1) percent_decode_plain [OF bs(2)] by blast
qed

theorem authorised_paths_are_unambiguous_witness:
  "is_safe_for_authorization ''/v1/a%20b/...'' \<and> percent_decode (percent_decode ''/v1/a%20b/...'') = percent_decode ''/v1/a%20b/...''"
proof -
  have "is_safe_for_authorization ''/v1/a%20b/...''" by code_simp
  then show ?thesis using authorised_paths_are_unambiguous by blast
qed

section \<open>What a match means\<close>

lemma compile_hooks_into_source:
  assumes "compile_hooks_into K cs m = Inr m'" "m' host = Some hooks" "hook \<in> set hooks"
  shows "hook \<in> set (or_empty (m host)) \<or> (\<exists>c \<in> set cs. compile_mitm_hook K c = Inr hook \<and> mh_host hook = host)"
  using assms
proof (induction cs arbitrary: m)
  case (Cons c cs)
  then obtain h where h: "compile_mitm_hook K c = Inr h"
    and rec: "compile_hooks_into K cs (m(mh_host h \<mapsto> or_empty (m (mh_host h)) @ [h])) = Inr m'" by auto
  show ?case using Cons.IH [OF rec Cons.prems(2,3)] h by (auto split: if_splits)
qed simp

lemma compile_mitm_hook_fields:
  assumes "compile_mitm_hook K c = Inr hook"
  shows "mh_host hook = normalize_host (mhc_host c)"
    and "set (hm_methods (mh_matcher hook)) = (\<lambda>m. to_ascii_uppercase (trim m)) ` set (hmc_methods (mhc_matcher c))"
    and "compile_path_matchers K (hmc_path_prefixes (mhc_matcher c)) = Inr (hm_path_prefixes (mh_matcher hook))"
proof -
  have methods: "set ys = (\<lambda>m. to_ascii_uppercase (trim m)) ` set xs" if "normalize_methods xs = Inr ys" for xs ys
    using that unfolding normalize_methods_def collect_results_list_all2
    by (induction rule: list_all2_induct) (auto simp: Let_def split: if_splits)
  show "mh_host hook = normalize_host (mhc_host c)"
    using assms by (auto simp: compile_mitm_hook_def normalize_hook_host_def Let_def split: if_splits)
  show "set (hm_methods (mh_matcher hook)) = (\<lambda>m. to_ascii_uppercase (trim m)) ` set (hmc_methods (mhc_matcher c))"
    using assms methods by (auto simp: compile_mitm_hook_def Let_def)
  show "compile_path_matchers K (hmc_path_prefixes (mhc_matcher c)) = Inr (hm_path_prefixes (mh_matcher hook))"
    using assms by (auto simp: compile_mitm_hook_def Let_def)
qed


definition sample_hook_lib :: "str hook_lib" where
  "sample_hook_lib =
     \<lparr>hl_header_name = (\<lambda>n. Some (to_ascii_lowercase n)), hl_header_value = Some, hl_value_to_str = Some,
      hl_glob_valid = (\<lambda>_ _. True), hl_glob_match = (\<lambda>p _ c. c = p), hl_form_urlencoded = (\<lambda>_. []),
      hl_env_var = (\<lambda>n. if n = ''TOKEN'' then Some ''s3cret'' else None), hl_read_to_string = (\<lambda>_. None)\<rparr>"

definition sample_hook_config :: "unit network_proxy_config" where
  "sample_hook_config = default_network_proxy_config\<lparr>nc_mitm := True, nc_mitm_hooks :=
     [\<lparr>mhc_host = ''API.example.com'',
       mhc_matcher = \<lparr>hmc_methods = [''post''], hmc_path_prefixes = [''/v1/''], hmc_query = [], hmc_headers = [], hmc_body = None\<rparr>,
       mhc_actions = \<lparr>hac_strip_request_headers = [],
         hac_inject_request_headers = [\<lparr>ihc_name = ''Authorization'', ihc_secret_env_var = Some ''TOKEN'', ihc_secret_file = None,
           ihc_prefix = Some ''Bearer ''\<rparr>]\<rparr>\<rparr>]\<rparr>"

definition sample_post :: "str http_request" where
  "sample_post = \<lparr>rq_method = ''POST'', rq_path = ''/v1/x'', rq_query = None, rq_headers = []\<rparr>"


end
