(* ===== verification/Network_Constraints.thy ===== *)
theory Network_Constraints
  imports Mitm_Hook
begin

text \<open>
  Managed constraints on the configuration of the network proxy and the state that is compiled from a configuration
  (\<open>codex-rs/network-proxy/src/state.rs\<close>).

  The libraries are the record \<open>state_lib\<close>: globs, header values and files of the hooks, \<open>url::Host::parse\<close>, and
  \<open>MitmState::new\<close>, which reads or makes certificates.  Errors carry the values of their messages; where a message
  lists the elements of a \<open>HashSet\<close>, the list has the order of the entries that the set was built from.
\<close>

record network_constraints =
  nx_enabled :: "bool option"
  nx_mode :: "network_mode option"
  nx_allow_upstream_proxy :: "bool option"
  nx_allow_non_loopback_proxy :: "bool option"
  nx_allow_all_unix_sockets :: "bool option"
  nx_allowed_domains :: "str list option"
  nx_allowlist_expansion :: "bool option"
  nx_denied_domains :: "str list option"
  nx_denylist_expansion :: "bool option"
  nx_allow_unix_sockets :: "str list option"
  nx_allow_local_binding :: "bool option"

definition default_network_constraints :: network_constraints where
  "default_network_constraints =
     \<lparr>nx_enabled = None, nx_mode = None, nx_allow_upstream_proxy = None, nx_allow_non_loopback_proxy = None,
      nx_allow_all_unix_sockets = None, nx_allowed_domains = None, nx_allowlist_expansion = None, nx_denied_domains = None,
      nx_denylist_expansion = None, nx_allow_unix_sockets = None, nx_allow_local_binding = None\<rparr>"

datatype constraint_value =
    TextValue str
  | ModeValue network_mode
  | EntriesValue "str list"
  | HookErrorValue hook_error

datatype constraint_error = InvalidValue (ce_field: str) (ce_candidate: constraint_value) (ce_allowed: constraint_value)

record ('g, 's, 'e, 'v, 'm) state_lib =
  sl_globs :: "('g, 's, 'e) glob_lib"
  sl_hooks :: "'v hook_lib"
  sl_url_host :: "str \<Rightarrow> str option"
  sl_mitm_new :: "bool \<Rightarrow> 'e + 'm"

datatype 'e state_error =
    ConfigInvalid config_error
  | BrokerRequiresMitm
  | ConstraintViolated constraint_error
  | PatternsInvalid "'e compile_error"
  | HooksInvalid hook_error
  | MitmFailed 'e
  | InvalidNetworkHost
  | ConstrainedByManagedConfig str constraint_error
  | UpdateFailed str "'e state_error"
  | CannotReload

section \<open>Constraints\<close>

abbreviation ensure_that :: "bool \<Rightarrow> 'e \<Rightarrow> 'e + unit" where
  "ensure_that b e \<equiv> (if b then Inr () else Inl e)"

fun network_mode_rank :: "network_mode \<Rightarrow> nat" where
  "network_mode_rank Limited = 0"
| "network_mode_rank Full = 1"

definition validate_non_global_wildcard_domain_patterns :: "str \<Rightarrow> str list \<Rightarrow> constraint_error + unit" where
  "validate_non_global_wildcard_domain_patterns field patterns =
     (case List.find is_global_wildcard_domain_pattern patterns of
        Some p \<Rightarrow> Inl (InvalidValue field (TextValue (trim p))
          (TextValue ''exact hosts or scoped wildcards like *.example.com or **.example.com''))
      | None \<Rightarrow> Inr ())"

definition invalid_mitm_hook_configuration :: "hook_error \<Rightarrow> constraint_error" where
  "invalid_mitm_hook_configuration e =
     InvalidValue ''network.mitm_hooks'' (HookErrorValue e) (TextValue ''valid MITM hook configuration'')"

definition managed_off :: "str \<Rightarrow> constraint_error" where
  "managed_off field = InvalidValue field (TextValue ''true'') (TextValue ''false (disabled by managed config)'')"

definition validate_mode :: "network_mode \<Rightarrow> network_mode option \<Rightarrow> constraint_error + unit" where
  "validate_mode mode max_mode =
     (case max_mode of
        None \<Rightarrow> Inr ()
      | Some m \<Rightarrow> ensure_that (network_mode_rank mode \<le> network_mode_rank m) (InvalidValue ''network.mode'' (ModeValue mode) (ModeValue m)))"

definition validate_switches :: "'j network_proxy_config \<Rightarrow> network_constraints \<Rightarrow> constraint_error + unit" where
  "validate_switches cfg nx =
     and_then (ensure_that (nc_enabled cfg \<longrightarrow> nx_enabled nx \<noteq> Some False) (managed_off ''network.enabled'')) (\<lambda>_.
     and_then (validate_mode (nc_mode cfg) (nx_mode nx)) (\<lambda>_.
     and_then (ensure_that (nc_allow_upstream_proxy cfg \<longrightarrow> nx_allow_upstream_proxy nx \<noteq> Some False) (managed_off ''network.allow_upstream_proxy'')) (\<lambda>_.
     and_then (ensure_that (nc_allow_non_loopback_proxy cfg \<longrightarrow> nx_allow_non_loopback_proxy nx \<noteq> Some False)
                 (managed_off ''network.dangerously_allow_non_loopback_proxy'')) (\<lambda>_.
     and_then (ensure_that (nc_allow_all_unix_sockets cfg \<longrightarrow>
                  (case nx_allow_all_unix_sockets nx of Some b \<Rightarrow> b | None \<Rightarrow> nx_allow_unix_sockets nx = None))
                 (managed_off ''network.dangerously_allow_all_unix_sockets'')) (\<lambda>_.
       ensure_that (nc_allow_local_binding cfg \<longrightarrow> nx_allow_local_binding nx \<noteq> Some False) (managed_off ''network.allow_local_binding''))))))"

abbreviation lower_entries :: "str list \<Rightarrow> str list" where
  "lower_entries xs \<equiv> map to_ascii_lowercase xs"

definition validate_allowed_domains ::
    "(str \<Rightarrow> str option) \<Rightarrow> str list \<Rightarrow> str list \<Rightarrow> network_constraints \<Rightarrow> constraint_error + unit" where
  "validate_allowed_domains url_host candidate denied nx =
     (case nx_allowed_domains nx of
        None \<Rightarrow> Inr ()
      | Some managed \<Rightarrow>
          and_then (validate_non_global_wildcard_domain_patterns ''network.allowed_domains'' managed) (\<lambda>_.
            (let required = lower_entries managed;
                 overrides = set (lower_entries denied);
                 candidates = set (lower_entries candidate)
             in case nx_allowlist_expansion nx of
                  Some True \<Rightarrow>
                    (let missing = remdups (filter (\<lambda>e. e \<notin> candidates \<and> e \<notin> overrides) required)
                     in ensure_that (missing = []) (InvalidValue ''network.allowed_domains''
                          (TextValue ''missing managed allowed_domains entries'') (EntriesValue missing)))
                | Some False \<Rightarrow>
                    ensure_that (candidates = set required - overrides)
                      (InvalidValue ''network.allowed_domains'' (EntriesValue candidate) (TextValue ''must match managed allowed_domains''))
                | None \<Rightarrow>
                    (let patterns = map (parse_for_constraints url_host) managed;
                         invalid = filter (\<lambda>e. \<not> list_ex (\<lambda>m. pattern_allows m (parse_for_constraints url_host e)) patterns) candidate
                     in ensure_that (invalid = []) (InvalidValue ''network.allowed_domains'' (EntriesValue invalid)
                          (TextValue ''subset of managed allowed_domains''))))))"

definition validate_denied_domains :: "str list \<Rightarrow> network_constraints \<Rightarrow> constraint_error + unit" where
  "validate_denied_domains candidate nx =
     (case nx_denied_domains nx of
        None \<Rightarrow> Inr ()
      | Some managed \<Rightarrow>
          and_then (validate_non_global_wildcard_domain_patterns ''network.denied_domains'' managed) (\<lambda>_.
            (let required = lower_entries managed; candidates = set (lower_entries candidate)
             in if nx_denylist_expansion nx = Some False
                then ensure_that (candidates = set required)
                       (InvalidValue ''network.denied_domains'' (EntriesValue candidate) (TextValue ''must match managed denied_domains''))
                else (let missing = remdups (filter (\<lambda>e. e \<notin> candidates) required)
                      in ensure_that (missing = []) (InvalidValue ''network.denied_domains''
                           (TextValue ''missing managed denied_domains entries'') (EntriesValue missing))))))"

definition validate_allow_unix_sockets :: "str list \<Rightarrow> network_constraints \<Rightarrow> constraint_error + unit" where
  "validate_allow_unix_sockets candidate nx =
     (case nx_allow_unix_sockets nx of
        None \<Rightarrow> Inr ()
      | Some managed \<Rightarrow>
          (let invalid = filter (\<lambda>e. to_ascii_lowercase e \<notin> set (lower_entries managed)) candidate
           in ensure_that (invalid = []) (InvalidValue ''network.allow_unix_sockets'' (EntriesValue invalid)
                (TextValue ''subset of managed allow_unix_sockets''))))"

definition validate_policy_against_constraints ::
    "('g, 's, 'e, 'v, 'm) state_lib \<Rightarrow> 'j network_proxy_config \<Rightarrow> network_constraints \<Rightarrow> constraint_error + unit" where
  "validate_policy_against_constraints L cfg nx =
     (let allowed = or_empty (allowed_domains cfg); denied = or_empty (denied_domains cfg)
      in and_then (map_err invalid_mitm_hook_configuration (validate_mitm_hook_config (sl_hooks L) cfg)) (\<lambda>_.
         and_then (validate_non_global_wildcard_domain_patterns ''network.denied_domains'' denied) (\<lambda>_.
         and_then (validate_switches cfg nx) (\<lambda>_.
         and_then (validate_allowed_domains (sl_url_host L) allowed denied nx) (\<lambda>_.
         and_then (validate_denied_domains denied nx) (\<lambda>_.
           validate_allow_unix_sockets (allow_unix_sockets cfg) nx))))))"

section \<open>Compiled state\<close>

record blocked_request =
  br_host :: str
  br_reason :: str
  br_client :: "str option"
  br_method :: "str option"
  br_mode :: "network_mode option"
  br_protocol :: str
  br_execution_id :: "str option"
  br_decision :: "str option"
  br_source :: "str option"
  br_port :: "int option"
  br_timestamp :: int

record ('j, 's, 'v, 'm) config_state =
  cs_config :: "'j network_proxy_config"
  cs_brokerage_created_default_allowlist :: bool
  cs_allow_set :: 's
  cs_deny_set :: 's
  cs_mitm :: "'m option"
  cs_mitm_hooks :: "str \<rightharpoonup> 'v mitm_hook list"
  cs_constraints :: network_constraints
  cs_blocked :: "blocked_request list"
  cs_blocked_total :: int

text \<open>The first part of \<open>build_config_state\<close>: what the broker changes in the configuration.\<close>

definition broker_defaults :: "'j network_proxy_config \<Rightarrow> network_constraints \<Rightarrow> 'j network_proxy_config \<times> bool" where
  "broker_defaults cfg nx =
     (let cfg = (if nx_enabled nx = Some False then cfg\<lparr>nc_credential_broker := False\<rparr> else cfg);
          created_proxy = (nc_credential_broker cfg \<and> \<not> nc_enabled cfg);
          created_allowlist = (created_proxy \<and> allowed_domains cfg = None \<and> nx_allowed_domains nx = None);
          cfg = (if created_proxy then cfg\<lparr>nc_enabled := True\<rparr> else cfg);
          cfg = (if created_allowlist then set_allowed_domains cfg [''*''] else cfg)
      in (cfg, created_allowlist))"

definition build_config_state ::
    "('g, 's, 'e, 'v, 'm) state_lib \<Rightarrow> 'j network_proxy_config \<Rightarrow> network_constraints \<Rightarrow> 'e state_error + ('j, 's, 'v, 'm) config_state" where
  "build_config_state L config nx =
     (case broker_defaults config nx of (cfg, created_allowlist) \<Rightarrow>
        and_then (map_err ConfigInvalid (validate_unix_socket_allowlist_paths cfg)) (\<lambda>_.
        and_then (ensure_that (\<not> nc_credential_broker cfg \<or> nc_mitm cfg) BrokerRequiresMitm) (\<lambda>_.
          (let allowed = or_empty (allowed_domains cfg); denied = or_empty (denied_domains cfg)
           in and_then (map_err ConstraintViolated (validate_non_global_wildcard_domain_patterns ''network.denied_domains'' denied)) (\<lambda>_.
              and_then (map_err PatternsInvalid (compile_denylist_globset (sl_globs L) denied)) (\<lambda>deny_set.
              and_then (map_err PatternsInvalid (compile_allowlist_globset (sl_globs L) allowed)) (\<lambda>allow_set.
              and_then (map_err HooksInvalid (compile_mitm_hooks (sl_hooks L) cfg)) (\<lambda>hooks.
              and_then (if nc_mitm cfg then map_err MitmFailed (and_then (sl_mitm_new L (nc_allow_upstream_proxy cfg)) (\<lambda>m. Inr (Some m)))
                        else Inr None) (\<lambda>mitm.
                Inr \<lparr>cs_config = cfg, cs_brokerage_created_default_allowlist = created_allowlist, cs_allow_set = allow_set,
                     cs_deny_set = deny_set, cs_mitm = mitm, cs_mitm_hooks = hooks, cs_constraints = nx, cs_blocked = [],
                     cs_blocked_total = 0\<rparr>)))))))))"

section \<open>What the validation guarantees\<close>

lemma validate_non_global_iff:
  "validate_non_global_wildcard_domain_patterns f ps = Inr () \<longleftrightarrow> (\<forall>p \<in> set ps. \<not> is_global_wildcard_domain_pattern p)"
proof (cases "List.find is_global_wildcard_domain_pattern ps")
  case (Some p)
  then have "p \<in> set ps" "is_global_wildcard_domain_pattern p" by (auto simp: find_Some_iff)
  then show ?thesis using Some by (auto simp: validate_non_global_wildcard_domain_patterns_def)
next
  case None
  then show ?thesis using None [unfolded find_None_iff] by (auto simp: validate_non_global_wildcard_domain_patterns_def)
qed

definition allowed_within :: "(str \<Rightarrow> str option) \<Rightarrow> str list \<Rightarrow> str list \<Rightarrow> network_constraints \<Rightarrow> bool" where
  "allowed_within url_host allowed denied nx \<longleftrightarrow>
     (case nx_allowed_domains nx of
        None \<Rightarrow> True
      | Some managed \<Rightarrow>
          (\<forall>p \<in> set managed. \<not> is_global_wildcard_domain_pattern p)
          \<and> (case nx_allowlist_expansion nx of
               Some True \<Rightarrow> to_ascii_lowercase ` set managed \<subseteq> to_ascii_lowercase ` (set allowed \<union> set denied)
             | Some False \<Rightarrow> to_ascii_lowercase ` set allowed = to_ascii_lowercase ` set managed - to_ascii_lowercase ` set denied
             | None \<Rightarrow> \<forall>e \<in> set allowed. \<exists>m \<in> set managed. pattern_allows (parse_for_constraints url_host m) (parse_for_constraints url_host e)))"

definition denied_within :: "str list \<Rightarrow> network_constraints \<Rightarrow> bool" where
  "denied_within denied nx \<longleftrightarrow>
     (case nx_denied_domains nx of
        None \<Rightarrow> True
      | Some managed \<Rightarrow>
          (\<forall>p \<in> set managed. \<not> is_global_wildcard_domain_pattern p)
          \<and> to_ascii_lowercase ` set managed \<subseteq> to_ascii_lowercase ` set denied
          \<and> (nx_denylist_expansion nx = Some False \<longrightarrow> to_ascii_lowercase ` set denied \<subseteq> to_ascii_lowercase ` set managed))"

definition sockets_within :: "str list \<Rightarrow> network_constraints \<Rightarrow> bool" where
  "sockets_within sockets nx \<longleftrightarrow>
     (case nx_allow_unix_sockets nx of
        None \<Rightarrow> True | Some managed \<Rightarrow> to_ascii_lowercase ` set sockets \<subseteq> to_ascii_lowercase ` set managed)"

lemma validate_allowed_domains_iff:
  "validate_allowed_domains url_host allowed denied nx = Inr () \<longleftrightarrow> allowed_within url_host allowed denied nx"
  by (auto simp: validate_allowed_domains_def allowed_within_def validate_non_global_iff filter_empty_conv list_ex_iff Let_def
      split: option.splits bool.splits)

lemma validate_denied_domains_iff: "validate_denied_domains denied nx = Inr () \<longleftrightarrow> denied_within denied nx"
  by (auto simp: validate_denied_domains_def denied_within_def validate_non_global_iff filter_empty_conv Let_def split: option.splits)

lemma validate_allow_unix_sockets_iff: "validate_allow_unix_sockets sockets nx = Inr () \<longleftrightarrow> sockets_within sockets nx"
  by (auto simp: validate_allow_unix_sockets_def sockets_within_def filter_empty_conv Let_def split: option.splits)

definition mode_within :: "network_mode \<Rightarrow> network_constraints \<Rightarrow> bool" where
  "mode_within mode nx \<longleftrightarrow> (case nx_mode nx of None \<Rightarrow> True | Some m \<Rightarrow> network_mode_rank mode \<le> network_mode_rank m)"

definition switches_within :: "'j network_proxy_config \<Rightarrow> network_constraints \<Rightarrow> bool" where
  "switches_within cfg nx \<longleftrightarrow>
     (nc_enabled cfg \<longrightarrow> nx_enabled nx \<noteq> Some False)
     \<and> (nc_allow_upstream_proxy cfg \<longrightarrow> nx_allow_upstream_proxy nx \<noteq> Some False)
     \<and> (nc_allow_non_loopback_proxy cfg \<longrightarrow> nx_allow_non_loopback_proxy nx \<noteq> Some False)
     \<and> (nc_allow_all_unix_sockets cfg \<longrightarrow>
          (case nx_allow_all_unix_sockets nx of Some b \<Rightarrow> b | None \<Rightarrow> nx_allow_unix_sockets nx = None))
     \<and> (nc_allow_local_binding cfg \<longrightarrow> nx_allow_local_binding nx \<noteq> Some False)"

lemma validate_switches_iff: "validate_switches cfg nx = Inr () \<longleftrightarrow> mode_within (nc_mode cfg) nx \<and> switches_within cfg nx"
  by (auto simp: validate_switches_def validate_mode_def mode_within_def switches_within_def split: option.splits)

lemma validate_policy_iff:
  "validate_policy_against_constraints L cfg nx = Inr () \<longleftrightarrow>
     validate_mitm_hook_config (sl_hooks L) cfg = Inr ()
     \<and> (\<forall>p \<in> set (or_empty (denied_domains cfg)). \<not> is_global_wildcard_domain_pattern p)
     \<and> mode_within (nc_mode cfg) nx \<and> switches_within cfg nx
     \<and> allowed_within (sl_url_host L) (or_empty (allowed_domains cfg)) (or_empty (denied_domains cfg)) nx
     \<and> denied_within (or_empty (denied_domains cfg)) nx
     \<and> sockets_within (allow_unix_sockets cfg) nx"
  by (auto simp: validate_policy_against_constraints_def validate_non_global_iff validate_switches_iff
      validate_allowed_domains_iff validate_denied_domains_iff validate_allow_unix_sockets_iff Let_def)

text \<open>Plain patterns are in lower case.\<close>

lemma lowercase_append: "to_ascii_lowercase (a @ b) = to_ascii_lowercase a @ to_ascii_lowercase b"
  by (simp add: to_ascii_lowercase_def)

lemma lowercase_plain_pattern: "plain_pattern p \<Longrightarrow> to_ascii_lowercase p = p"
proof (erule plain_pattern_cases)
  have star: "to_ascii_lowercase ''*.'' = ''*.''" "to_ascii_lowercase ''**.'' = ''**.''" by code_simp+
  fix d assume "plain_domain d"
  then have d: "to_ascii_lowercase d = d" by (intro lowercase_label plain_domain_ends)
  { assume "p = d" then show ?thesis using d by simp }
  { assume "p = ''*.'' @ d" then show ?thesis using d star by (simp only: lowercase_append) }
  { assume "p = ''**.'' @ d" then show ?thesis using d star by (simp only: lowercase_append) }
qed

lemma lowercase_image_plain: "\<forall>p \<in> set ps. plain_pattern p \<Longrightarrow> to_ascii_lowercase ` set ps = set ps"
  by (auto simp: lowercase_plain_pattern image_iff)

text \<open>Every managed pattern has a domain that the crate \<open>url\<close> reads.\<close>

abbreviation readable :: "(str \<Rightarrow> str option) \<Rightarrow> str \<Rightarrow> bool" where
  "readable url_host p \<equiv> url_host (pattern_domain (spec_pattern p)) \<noteq> None"

lemma managed_allows_covers:
  assumes "pattern_allows (parse_for_constraints url_host m) (parse_for_constraints url_host e)"
    and "plain_pattern m" "plain_pattern e" "url_host_ok url_host" "readable url_host m" "covers (spec_pattern e) h"
  shows "covers (spec_pattern m) h"
proof -
  have plain: "plain_domain (pattern_domain (spec_pattern m))" "plain_domain (pattern_domain (spec_pattern e))"
    using assms(2,3) by (simp_all add: plain_pattern_def)
  have m: "parse_for_constraints url_host m = spec_pattern m"
    by (rule parse_for_constraints_plain [OF assms(2,4)]) (use assms(5) in simp_all)
  have "pattern_domain (parse_for_constraints url_host e) \<noteq> []"
    using assms(1) pattern_allows_unread [OF plain(1)] unfolding m by blast
  note read = this
  have "parse_for_constraints url_host e = spec_pattern e"
    by (rule parse_for_constraints_plain [OF assms(3,4)]) (use read in simp_all)
  then show ?thesis using pattern_allows_covers [OF _ plain assms(6)] assms(1) m by simp
qed

lemma allowed_within_covers:
  assumes "allowed_within url_host allowed denied nx" "nx_allowed_domains nx = Some managed" "nx_allowlist_expansion nx \<noteq> Some True"
    and "\<forall>p \<in> set managed. plain_pattern p \<and> readable url_host p" "\<forall>p \<in> set allowed. plain_pattern p" "url_host_ok url_host"
    and "\<exists>p \<in> set allowed. covers (spec_pattern p) h"
  shows "\<exists>p \<in> set managed. covers (spec_pattern p) h"
proof -
  obtain e where e: "e \<in> set allowed" "covers (spec_pattern e) h" using assms(7) by blast
  show ?thesis
  proof (cases "nx_allowlist_expansion nx")
    case None
    then obtain m where "m \<in> set managed" "pattern_allows (parse_for_constraints url_host m) (parse_for_constraints url_host e)"
      using assms(1,2) e(1) by (auto simp: allowed_within_def)
    then show ?thesis using managed_allows_covers assms(4,5,6) e by blast
  next
    case (Some b)
    then have "\<not> b" using assms(3) by simp
    then have "to_ascii_lowercase ` set allowed \<subseteq> to_ascii_lowercase ` set managed"
      using assms(1,2) Some by (auto simp: allowed_within_def)
    then have "set allowed \<subseteq> set managed" using lowercase_image_plain assms(4,5) by metis
    then show ?thesis using e by blast
  qed
qed

lemma denied_within_covers:
  assumes "denied_within denied nx" "nx_denied_domains nx = Some managed"
    and "\<forall>p \<in> set managed. plain_pattern p" "\<forall>p \<in> set denied. plain_pattern p"
  shows "set managed \<subseteq> set denied"
  using assms(1,2) lowercase_image_plain [OF assms(3)] lowercase_image_plain [OF assms(4)] by (simp add: denied_within_def)

section \<open>Updates of the domain lists\<close>

lemma foldl_add_missing:
  "set (foldl (\<lambda>es entry. if list_ex (\<lambda>e. de_pattern e = entry \<and> de_permission e = perm) es then es
      else es @ [\<lparr>de_pattern = entry, de_permission = perm\<rparr>]) es0 entries)
   = set es0 \<union> (\<lambda>p. \<lparr>de_pattern = p, de_permission = perm\<rparr>) ` set entries"
proof (induction entries arbitrary: es0)
  case (Cons x entries)
  have "list_ex (\<lambda>e. de_pattern e = x \<and> de_permission e = perm) es0 \<longleftrightarrow> \<lparr>de_pattern = x, de_permission = perm\<rparr> \<in> set es0"
    by (auto simp: list_ex_iff domain_entry_mem_iff)
  then show ?case using Cons.IH by auto
qed simp

lemma or_empty_some_unless_empty [simp]: "or_empty (some_unless_empty xs) = xs"
  by simp

lemma set_domain_entries_entries:
  "set (or_empty (nc_domains (set_domain_entries cfg entries perm))) =
     {e \<in> set (or_empty (nc_domains cfg)). de_permission e \<noteq> perm} \<union> (\<lambda>p. \<lparr>de_pattern = p, de_permission = perm\<rparr>) ` set entries"
proof -
  let ?es = "foldl (\<lambda>es entry. if list_ex (\<lambda>e. de_pattern e = entry \<and> de_permission e = perm) es then es
      else es @ [\<lparr>de_pattern = entry, de_permission = perm\<rparr>]) (filter (\<lambda>e. de_permission e \<noteq> perm) (or_empty (nc_domains cfg))) entries"
  have "nc_domains (set_domain_entries cfg entries perm) = some_unless_empty ?es" by (simp add: set_domain_entries_def Let_def)
  then have "or_empty (nc_domains (set_domain_entries cfg entries perm)) = ?es" by (simp only: or_empty_some_unless_empty)
  then show ?thesis by (simp only: foldl_add_missing set_filter)
qed

lemma denied_set_allowed_domains:
  "set (or_empty (denied_domains (set_allowed_domains cfg entries))) = set (or_empty (denied_domains cfg))"
  by (rule set_eqI) (auto simp only: denied_domains_iff set_allowed_domains_def set_domain_entries_entries Un_iff image_iff mem_Collect_eq
      domain_entry.simps network_domain_permission.distinct simp_thms)

lemma denied_set_denied_domains:
  "set (or_empty (denied_domains (set_denied_domains cfg entries))) = set entries"
  by (rule set_eqI) (auto simp only: denied_domains_iff set_denied_domains_def set_domain_entries_entries Un_iff image_iff mem_Collect_eq
      domain_entry.simps)

lemma allowed_set_allowed_domains:
  "set (or_empty (allowed_domains (set_allowed_domains cfg entries))) = set entries - set (or_empty (denied_domains cfg))"
  using denied_set_allowed_domains [of cfg entries] set_domain_entries_entries [of cfg entries AllowDomain]
  by (intro set_eqI) (simp only: allowed_domains_iff set_allowed_domains_def, auto)

lemma allowed_set_denied_domains:
  "set (or_empty (allowed_domains (set_denied_domains cfg entries))) \<subseteq>
     {p. \<lparr>de_pattern = p, de_permission = AllowDomain\<rparr> \<in> set (or_empty (nc_domains cfg))} - set entries"
  using denied_set_denied_domains [of cfg entries] set_domain_entries_entries [of cfg entries DenyDomain]
  by (intro subsetI) (simp only: allowed_domains_iff set_denied_domains_def, auto)

section \<open>Compiled states\<close>

text \<open>What the broker would change has been changed.\<close>

definition broker_settled :: "'j network_proxy_config \<Rightarrow> network_constraints \<Rightarrow> bool" where
  "broker_settled cfg nx \<longleftrightarrow> (nc_credential_broker cfg \<longrightarrow> nc_enabled cfg \<and> nx_enabled nx \<noteq> Some False)"

lemma broker_defaults_settled: "broker_settled cfg nx \<Longrightarrow> broker_defaults cfg nx = (cfg, False)"
proof -
  assume settled: "broker_settled cfg nx"
  have "cfg\<lparr>nc_credential_broker := False\<rparr> = cfg" if "nx_enabled nx = Some False"
    using settled that by (cases cfg) (simp add: broker_settled_def)
  then show ?thesis using settled by (simp add: broker_settled_def broker_defaults_def Let_def)
qed

lemma set_allowed_domains_fields [simp]:
  "nc_enabled (set_allowed_domains cfg es) = nc_enabled cfg"
  "nc_credential_broker (set_allowed_domains cfg es) = nc_credential_broker cfg"
  "nc_mitm (set_allowed_domains cfg es) = nc_mitm cfg"
  "nc_mitm_hooks (set_allowed_domains cfg es) = nc_mitm_hooks cfg"
  "nc_mode (set_allowed_domains cfg es) = nc_mode cfg"
  "switches_within (set_allowed_domains cfg es) nx = switches_within cfg nx"
  "allow_unix_sockets (set_allowed_domains cfg es) = allow_unix_sockets cfg"
  "validate_mitm_hook_config K (set_allowed_domains cfg es) = validate_mitm_hook_config K cfg"
  by (simp_all add: set_allowed_domains_def set_domain_entries_def Let_def switches_within_def allow_unix_sockets_def
      validate_mitm_hook_config_def)

lemma domains_cong:
  "nc_domains cfg' = nc_domains cfg \<Longrightarrow> allowed_domains cfg' = allowed_domains cfg \<and> denied_domains cfg' = denied_domains cfg"
  by (simp add: allowed_domains_def denied_domains_def domain_entries_def)

lemma denied_within_cong: "set d = set d' \<Longrightarrow> denied_within d nx = denied_within d' nx"
  by (cases "nx_denied_domains nx") (simp_all add: denied_within_def)

lemma broker_defaults_valid:
  assumes "broker_defaults cfg nx = (cfg', b)" "validate_policy_against_constraints L cfg nx = Inr ()"
  shows "broker_settled cfg' nx \<and> validate_policy_against_constraints L cfg' nx = Inr ()"
proof -
  define c1 where "c1 = (if nx_enabled nx = Some False then cfg\<lparr>nc_credential_broker := False\<rparr> else cfg)"
  define created where "created \<longleftrightarrow> nc_credential_broker c1 \<and> \<not> nc_enabled c1"
  define c2 where "c2 = (if created then c1\<lparr>nc_enabled := True\<rparr> else c1)"
  have cfg': "cfg' = (if b then set_allowed_domains c2 [''*''] else c2)" and b: "b \<Longrightarrow> nx_allowed_domains nx = None"
    using assms(1) by (auto simp: broker_defaults_def Let_def c1_def created_def c2_def)
  have settled: "broker_settled cfg' nx"
    by (auto simp: cfg' c2_def c1_def created_def broker_settled_def)
  have c2: "validate_policy_against_constraints L c2 nx = Inr ()"
  proof -
    have dom: "allowed_domains c2 = allowed_domains cfg \<and> denied_domains c2 = denied_domains cfg"
      by (rule domains_cong) (simp add: c2_def c1_def)
    have rest: "nc_mode c2 = nc_mode cfg" "allow_unix_sockets c2 = allow_unix_sockets cfg"
      "validate_mitm_hook_config (sl_hooks L) c2 = validate_mitm_hook_config (sl_hooks L) cfg"
      by (simp_all add: c2_def c1_def allow_unix_sockets_def validate_mitm_hook_config_def)
    have "switches_within cfg nx \<Longrightarrow> switches_within c2 nx"
      by (auto simp: switches_within_def c2_def c1_def created_def)
    then show ?thesis using assms(2) dom rest unfolding validate_policy_iff by simp
  qed
  have "validate_policy_against_constraints L cfg' nx = Inr ()"
  proof (cases b)
    case True
    then have "allowed_within u a d nx" for u a d using b by (simp add: allowed_within_def)
    moreover have "denied_within (or_empty (denied_domains cfg')) nx = denied_within (or_empty (denied_domains c2)) nx"
      by (rule denied_within_cong) (simp only: cfg' True if_True denied_set_allowed_domains)
    ultimately show ?thesis
      using c2 unfolding validate_policy_iff by (simp only: cfg' True if_True denied_set_allowed_domains set_allowed_domains_fields) blast
  qed (use c2 cfg' in simp)
  then show ?thesis using settled by blast
qed

text \<open>A state whose configuration is within its constraints, with the sets and hooks that were compiled from it.\<close>

definition state_valid :: "('g, 's, 'e, 'v, 'm) state_lib \<Rightarrow> ('j, 's, 'v, 'm) config_state \<Rightarrow> bool" where
  "state_valid L st \<longleftrightarrow>
     validate_policy_against_constraints L (cs_config st) (cs_constraints st) = Inr ()
     \<and> broker_settled (cs_config st) (cs_constraints st)
     \<and> compile_allowlist_globset (sl_globs L) (or_empty (allowed_domains (cs_config st))) = Inr (cs_allow_set st)
     \<and> compile_denylist_globset (sl_globs L) (or_empty (denied_domains (cs_config st))) = Inr (cs_deny_set st)
     \<and> compile_mitm_hooks (sl_hooks L) (cs_config st) = Inr (cs_mitm_hooks st)
     \<and> (cs_mitm st \<noteq> None \<longleftrightarrow> nc_mitm (cs_config st))"

lemma build_config_state_valid:
  assumes "build_config_state L cfg nx = Inr st" "validate_policy_against_constraints L cfg nx = Inr ()"
  shows "state_valid L st \<and> cs_constraints st = nx \<and> cs_config st = fst (broker_defaults cfg nx)
    \<and> cs_blocked st = [] \<and> cs_blocked_total st = 0"
proof -
  obtain cfg' b where d: "broker_defaults cfg nx = (cfg', b)" by (cases "broker_defaults cfg nx")
  note valid = broker_defaults_valid [OF d assms(2)]
  obtain mitm where "(if nc_mitm cfg' then map_err MitmFailed (and_then (sl_mitm_new L (nc_allow_upstream_proxy cfg')) (\<lambda>m. Inr (Some m)))
      else Inr None) = Inr mitm" and fields: "cs_config st = cfg'" "cs_constraints st = nx" "cs_blocked st = []" "cs_blocked_total st = 0"
      "cs_mitm st = mitm"
    and sets: "compile_allowlist_globset (sl_globs L) (or_empty (allowed_domains cfg')) = Inr (cs_allow_set st)"
      "compile_denylist_globset (sl_globs L) (or_empty (denied_domains cfg')) = Inr (cs_deny_set st)"
      "compile_mitm_hooks (sl_hooks L) cfg' = Inr (cs_mitm_hooks st)"
    using assms(1) d by (auto simp: build_config_state_def Let_def simp del: sum.simps)
  moreover have "cs_mitm st \<noteq> None \<longleftrightarrow> nc_mitm cfg'" using calculation by (cases "cs_mitm st") (auto split: if_splits)
  ultimately show ?thesis using valid d by (simp add: state_valid_def)
qed

end
