(* ===== verification/Network_State.thy ===== *)
theory Network_State
  imports Network_Constraints Credential_Broker
begin

text \<open>
  The live state of the network proxy (\<open>codex-rs/network-proxy/src/runtime.rs\<close>).  A handle shares the state behind its locks
  with every clone and carries the identity of an execution.  An operation is a function on the shared state; the
  sections that the code runs under one lock are definitions of their own, so that the loops that read,
  compute and commit can be interleaved with other tasks.

  The reloader's answer, the lookup of a host name, \<open>fs::canonicalize\<close> and the clock are arguments.
\<close>

datatype host_block_reason = Denied | NotAllowed | NotAllowedLocal

definition REASON_DENIED :: str where "REASON_DENIED = ''denied''"
definition REASON_NOT_ALLOWED :: str where "REASON_NOT_ALLOWED = ''not_allowed''"
definition REASON_NOT_ALLOWED_LOCAL :: str where "REASON_NOT_ALLOWED_LOCAL = ''not_allowed_local''"

fun host_block_reason_as_str :: "host_block_reason \<Rightarrow> str" where
  "host_block_reason_as_str Denied = REASON_DENIED"
| "host_block_reason_as_str NotAllowed = REASON_NOT_ALLOWED"
| "host_block_reason_as_str NotAllowedLocal = REASON_NOT_ALLOWED_LOCAL"

datatype host_block_decision = HostAllowed | HostBlocked host_block_reason

record blocked_request_args =
  bra_host :: str
  bra_reason :: str
  bra_client :: "str option"
  bra_method :: "str option"
  bra_mode :: "network_mode option"
  bra_protocol :: str
  bra_decision :: "str option"
  bra_source :: "str option"
  bra_port :: "int option"

definition blocked_request_new :: "int \<Rightarrow> blocked_request_args \<Rightarrow> blocked_request" where
  "blocked_request_new now a =
     \<lparr>br_host = bra_host a, br_reason = bra_reason a, br_client = bra_client a, br_method = bra_method a, br_mode = bra_mode a,
      br_protocol = bra_protocol a, br_execution_id = None, br_decision = bra_decision a, br_source = bra_source a,
      br_port = bra_port a, br_timestamp = now\<rparr>"

definition MAX_BLOCKED_EVENTS :: nat where "MAX_BLOCKED_EVENTS = 200"

record execution_attribution =
  ea_environment_id :: str
  ea_execution_id :: str

record ('j, 's, 'v, 'm) network_proxy_state =
  np_state :: "('j, 's, 'v, 'm) config_state"
  np_broker :: broker_state
  np_observed :: bool
  np_attributions :: "str \<rightharpoonup> execution_attribution"

record proxy_handle =
  ph_environment_id :: "str option"
  ph_execution_id :: "str option"

text \<open>The reloaders of the repository: one refuses to reload, one returns the state it was made with.\<close>

datatype ('j, 's, 'v, 'm) config_reloader = StaticConfigReloader | StaticNetworkProxyReloader "('j, 's, 'v, 'm) config_state"

fun maybe_reload :: "('j, 's, 'v, 'm) config_reloader \<Rightarrow> 'e state_error + ('j, 's, 'v, 'm) config_state option" where
  "maybe_reload StaticConfigReloader = Inr None"
| "maybe_reload (StaticNetworkProxyReloader st) = Inr None"

fun reload_now :: "('j, 's, 'v, 'm) config_reloader \<Rightarrow> 'e state_error + ('j, 's, 'v, 'm) config_state" where
  "reload_now StaticConfigReloader = Inl CannotReload"
| "reload_now (StaticNetworkProxyReloader st) = Inr st"

section \<open>Construction and execution tokens\<close>

definition with_reloader :: "('j, 's, 'v, 'm) config_state \<Rightarrow> bool \<Rightarrow> ('j, 's, 'v, 'm) network_proxy_state \<times> proxy_handle" where
  "with_reloader st observed =
     (\<lparr>np_state = st, np_broker = broker_configure (broker_new (nc_credential_broker (cs_config st))) (cs_config st),
       np_observed = observed, np_attributions = Map.empty\<rparr>,
      \<lparr>ph_environment_id = None, ph_execution_id = None\<rparr>)"

definition register_execution ::
    "str \<Rightarrow> str \<Rightarrow> str \<Rightarrow> ('j, 's, 'v, 'm) network_proxy_state \<Rightarrow> ('j, 's, 'v, 'm) network_proxy_state" where
  "register_execution token environment execution np =
     np\<lparr>np_attributions := (np_attributions np)(token \<mapsto> \<lparr>ea_environment_id = environment, ea_execution_id = execution\<rparr>)\<rparr>"

definition unregister_execution :: "str \<Rightarrow> ('j, 's, 'v, 'm) network_proxy_state \<Rightarrow> ('j, 's, 'v, 'm) network_proxy_state" where
  "unregister_execution token np = np\<lparr>np_attributions := (np_attributions np)(token := None)\<rparr>"

definition for_execution_token :: "('j, 's, 'v, 'm) network_proxy_state \<Rightarrow> str \<Rightarrow> proxy_handle option" where
  "for_execution_token np token =
     map_option (\<lambda>a. \<lparr>ph_environment_id = Some (ea_environment_id a), ph_execution_id = Some (ea_execution_id a)\<rparr>)
       (np_attributions np token)"

section \<open>Reloading\<close>

text \<open>The sections of a reload: the broker is configured, the log of blocked requests is read, the new state is written.\<close>

definition configure_broker ::
    "('j, 's, 'v, 'm) config_state \<Rightarrow> ('j, 's, 'v, 'm) network_proxy_state \<Rightarrow> ('j, 's, 'v, 'm) network_proxy_state" where
  "configure_broker new np = np\<lparr>np_broker := broker_configure (np_broker np) (cs_config new)\<rparr>"

definition write_state ::
    "('j, 's, 'v, 'm) config_state \<Rightarrow> blocked_request list \<Rightarrow> int \<Rightarrow> ('j, 's, 'v, 'm) network_proxy_state \<Rightarrow> ('j, 's, 'v, 'm) network_proxy_state" where
  "write_state new blocked n np = np\<lparr>np_state := new\<lparr>cs_blocked := blocked, cs_blocked_total := n\<rparr>\<rparr>"

definition reload_if_needed ::
    "'e state_error + ('j, 's, 'v, 'm) config_state option \<Rightarrow> ('j, 's, 'v, 'm) network_proxy_state
      \<Rightarrow> 'e state_error + ('j, 's, 'v, 'm) network_proxy_state" where
  "reload_if_needed answer np =
     (case answer of
        Inl e \<Rightarrow> Inl e
      | Inr None \<Rightarrow> Inr np
      | Inr (Some new) \<Rightarrow>
          (let np = configure_broker new np
           in Inr (write_state new (cs_blocked (np_state np)) (cs_blocked_total (np_state np)) np)))"

definition force_reload_write ::
    "('j, 's, 'v, 'm) config_state \<Rightarrow> ('j, 's, 'v, 'm) network_proxy_state \<Rightarrow> ('j, 's, 'v, 'm) network_proxy_state" where
  "force_reload_write new np = np\<lparr>np_state := new\<lparr>cs_blocked := cs_blocked (np_state np)\<rparr>\<rparr>"

definition force_reload ::
    "'e state_error + ('j, 's, 'v, 'm) config_state \<Rightarrow> ('j, 's, 'v, 'm) network_proxy_state
      \<Rightarrow> 'e state_error + ('j, 's, 'v, 'm) network_proxy_state" where
  "force_reload answer np = and_then answer (\<lambda>new. Inr (force_reload_write new (configure_broker new np)))"

definition replace_write ::
    "('j, 's, 'v, 'm) config_state \<Rightarrow> ('j, 's, 'v, 'm) network_proxy_state \<Rightarrow> ('j, 's, 'v, 'm) network_proxy_state" where
  "replace_write new np = write_state new (cs_blocked (np_state np)) (cs_blocked_total (np_state np)) np"

definition replace_config_state ::
    "'e state_error + ('j, 's, 'v, 'm) config_state option \<Rightarrow> ('j, 's, 'v, 'm) config_state \<Rightarrow> ('j, 's, 'v, 'm) network_proxy_state
      \<Rightarrow> 'e state_error + ('j, 's, 'v, 'm) network_proxy_state" where
  "replace_config_state answer new np =
     and_then (reload_if_needed answer np) (\<lambda>np. Inr (replace_write new (configure_broker new np)))"

section \<open>Hosts\<close>

text \<open>The result of a lookup under a time limit.\<close>

datatype dns_lookup = Resolved "ip_addr list" | LookupFailed | LookupTimedOut

definition host_resolves_to_non_public_ip :: "(str \<Rightarrow> int \<Rightarrow> dns_lookup) \<Rightarrow> str \<Rightarrow> int \<Rightarrow> bool" where
  "host_resolves_to_non_public_ip lookup host port =
     (case parse_ip host of
        Some ip \<Rightarrow> is_non_public_ip ip
      | None \<Rightarrow>
          (case lookup host port of
             Resolved addrs \<Rightarrow> list_ex is_non_public_ip addrs
           | LookupFailed \<Rightarrow> True
           | LookupTimedOut \<Rightarrow> True))"

definition globset_matches_host_or_unscoped :: "('g, 's, 'e) glob_lib \<Rightarrow> 's \<Rightarrow> str \<Rightarrow> bool" where
  "globset_matches_host_or_unscoped G S host \<longleftrightarrow>
     globset_is_match G S host
     \<or> (case unscoped_ip_literal host of Some ip \<Rightarrow> globset_is_match G S ip | None \<Rightarrow> False)"

definition is_explicit_local_allowlisted :: "str list \<Rightarrow> str \<Rightarrow> bool" where
  "is_explicit_local_allowlisted allowed host =
     (let unscoped = unscoped_ip_literal host
      in list_ex (\<lambda>pattern.
           (let pattern = trim pattern
            in if pattern = ''*'' \<or> starts_with pattern ''*.'' \<or> starts_with pattern ''**.'' then False
               else if CHR ''*'' \<in> set pattern \<or> CHR ''?'' \<in> set pattern then False
               else (let normalized = normalize_host pattern
                     in normalized = host \<or> (case unscoped of Some ip \<Rightarrow> normalized = ip | None \<Rightarrow> False)))) allowed)"

definition local_literal :: "str \<Rightarrow> bool" where
  "local_literal host =
     (let no_scope = (case unscoped_ip_literal host of Some ip \<Rightarrow> ip | None \<Rightarrow> host)
      in if is_loopback_host host then True
         else (case parse_ip no_scope of Some ip \<Rightarrow> is_non_public_ip ip | None \<Rightarrow> False))"

definition local_network_blocked :: "(str \<Rightarrow> int \<Rightarrow> dns_lookup) \<Rightarrow> str list \<Rightarrow> str \<Rightarrow> int \<Rightarrow> bool" where
  "local_network_blocked lookup allowed host port =
     (if local_literal host then \<not> is_explicit_local_allowlisted allowed host
      else host_resolves_to_non_public_ip lookup host port)"

definition decide_host ::
    "('g, 's, 'e) glob_lib \<Rightarrow> (str \<Rightarrow> int \<Rightarrow> dns_lookup) \<Rightarrow> ('j, 's, 'v, 'm) config_state \<Rightarrow> str \<Rightarrow> int \<Rightarrow> host_block_decision" where
  "decide_host G lookup st host_in port =
     (case host_parse host_in of
        None \<Rightarrow> HostBlocked NotAllowed
      | Some host \<Rightarrow>
          (let allowed = allowed_domains (cs_config st)
           in if globset_matches_host_or_unscoped G (cs_deny_set st) host then HostBlocked Denied
              else if \<not> nc_allow_local_binding (cs_config st) \<and> local_network_blocked lookup (or_empty allowed) host port
                then HostBlocked NotAllowedLocal
              else if allowed = None \<or> \<not> globset_matches_host_or_unscoped G (cs_allow_set st) host then HostBlocked NotAllowed
              else HostAllowed))"

definition host_blocked ::
    "('g, 's, 'e, 'v, 'm) state_lib \<Rightarrow> (str \<Rightarrow> int \<Rightarrow> dns_lookup) \<Rightarrow> 'e state_error + ('j, 's, 'v, 'm) config_state option
      \<Rightarrow> str \<Rightarrow> int \<Rightarrow> ('j, 's, 'v, 'm) network_proxy_state \<Rightarrow> 'e state_error + ('j, 's, 'v, 'm) network_proxy_state \<times> host_block_decision" where
  "host_blocked L lookup answer host port np =
     and_then (reload_if_needed answer np) (\<lambda>np. Inr (np, decide_host (sl_globs L) lookup (np_state np) host port))"

section \<open>The log of blocked requests\<close>

definition u64_max :: int where "u64_max = 18446744073709551615"

definition u64_saturating_add :: "int \<Rightarrow> int \<Rightarrow> int" where
  "u64_saturating_add a b = min u64_max (a + b)"

text \<open>The loop that removes the oldest entries.\<close>

function drop_oldest :: "blocked_request list \<Rightarrow> blocked_request list" where
  "drop_oldest bs = (if length bs > MAX_BLOCKED_EVENTS then drop_oldest (tl bs) else bs)"
  by pat_completeness auto
termination
  by (relation "measure length") (auto simp: MAX_BLOCKED_EVENTS_def)

declare drop_oldest.simps [simp del]

definition push_blocked :: "blocked_request \<Rightarrow> ('j, 's, 'v, 'm) config_state \<Rightarrow> ('j, 's, 'v, 'm) config_state" where
  "push_blocked entry st =
     st\<lparr>cs_blocked := drop_oldest (cs_blocked st @ [entry]), cs_blocked_total := u64_saturating_add (cs_blocked_total st) 1\<rparr>"

text \<open>The second component is what the observer is told.\<close>

definition record_blocked ::
    "'e state_error + ('j, 's, 'v, 'm) config_state option \<Rightarrow> proxy_handle \<Rightarrow> blocked_request \<Rightarrow> ('j, 's, 'v, 'm) network_proxy_state
      \<Rightarrow> 'e state_error + ('j, 's, 'v, 'm) network_proxy_state \<times> blocked_request option" where
  "record_blocked answer h entry np =
     and_then (reload_if_needed answer np) (\<lambda>np.
       (let entry = entry\<lparr>br_execution_id := ph_execution_id h\<rparr>
        in Inr (np\<lparr>np_state := push_blocked entry (np_state np)\<rparr>, if np_observed np then Some entry else None)))"

definition blocked_snapshot ::
    "'e state_error + ('j, 's, 'v, 'm) config_state option \<Rightarrow> ('j, 's, 'v, 'm) network_proxy_state
      \<Rightarrow> 'e state_error + ('j, 's, 'v, 'm) network_proxy_state \<times> blocked_request list" where
  "blocked_snapshot answer np = and_then (reload_if_needed answer np) (\<lambda>np. Inr (np, cs_blocked (np_state np)))"

definition take_blocked :: "('j, 's, 'v, 'm) network_proxy_state \<Rightarrow> ('j, 's, 'v, 'm) network_proxy_state \<times> blocked_request list" where
  "take_blocked np = (np\<lparr>np_state := (np_state np)\<lparr>cs_blocked := []\<rparr>\<rparr>, cs_blocked (np_state np))"

definition drain_blocked ::
    "'e state_error + ('j, 's, 'v, 'm) config_state option \<Rightarrow> ('j, 's, 'v, 'm) network_proxy_state
      \<Rightarrow> 'e state_error + ('j, 's, 'v, 'm) network_proxy_state \<times> blocked_request list" where
  "drain_blocked answer np = and_then (reload_if_needed answer np) (\<lambda>np. Inr (take_blocked np))"

section \<open>Sockets, methods and credentials\<close>

text \<open>\<open>supported\<close> is whether the target is macOS, and \<open>canonicalize\<close> the call of the file system.\<close>

fun socket_listed :: "(path \<Rightarrow> path option) \<Rightarrow> path \<Rightarrow> str list \<Rightarrow> bool" where
  "socket_listed canonicalize requested [] = False"
| "socket_listed canonicalize requested (a # as) =
     (case socket_path_parse a of
        Inr (NativeSocket p) \<Rightarrow>
          if p = requested then True
          else if canonicalize requested \<noteq> None \<and> canonicalize p = canonicalize requested then True
          else socket_listed canonicalize requested as
      | _ \<Rightarrow> socket_listed canonicalize requested as)"

definition unix_socket_allowed :: "bool \<Rightarrow> (path \<Rightarrow> path option) \<Rightarrow> 'j network_proxy_config \<Rightarrow> str \<Rightarrow> bool" where
  "unix_socket_allowed supported canonicalize cfg p =
     (if \<not> supported then False
      else if \<not> is_absolute (path_components p) then False
      else if nc_allow_all_unix_sockets cfg then True
      else socket_listed canonicalize (normalize_path (path_components p)) (allow_unix_sockets cfg))"

definition is_unix_socket_allowed ::
    "bool \<Rightarrow> (path \<Rightarrow> path option) \<Rightarrow> 'e state_error + ('j, 's, 'v, 'm) config_state option \<Rightarrow> str \<Rightarrow> ('j, 's, 'v, 'm) network_proxy_state
      \<Rightarrow> 'e state_error + ('j, 's, 'v, 'm) network_proxy_state \<times> bool" where
  "is_unix_socket_allowed supported canonicalize answer p np =
     and_then (reload_if_needed answer np) (\<lambda>np. Inr (np, unix_socket_allowed supported canonicalize (cs_config (np_state np)) p))"

definition method_allowed ::
    "'e state_error + ('j, 's, 'v, 'm) config_state option \<Rightarrow> str \<Rightarrow> ('j, 's, 'v, 'm) network_proxy_state
      \<Rightarrow> 'e state_error + ('j, 's, 'v, 'm) network_proxy_state \<times> bool" where
  "method_allowed answer m np =
     and_then (reload_if_needed answer np) (\<lambda>np. Inr (np, allows_method (nc_mode (cs_config (np_state np))) m))"

datatype mitm_requirement = NoMitm | TlsMitm | AlwaysMitm

definition host_mitm_requirement ::
    "'e state_error + ('j, 's, 'v, 'm) config_state option \<Rightarrow> str \<Rightarrow> ('j, 's, 'v, 'm) network_proxy_state
      \<Rightarrow> 'e state_error + ('j, 's, 'v, 'm) network_proxy_state \<times> mitm_requirement" where
  "host_mitm_requirement answer host np =
     and_then (reload_if_needed answer np) (\<lambda>np.
       (let normalized = normalize_host host
        in Inr (np, if cs_mitm_hooks (np_state np) normalized \<noteq> None then AlwaysMitm
                    else if host_requires_mitm (np_broker np) normalized then TlsMitm
                    else NoMitm)))"

definition evaluate_mitm_hook_request ::
    "('g, 's, 'e, 'v, 'm) state_lib \<Rightarrow> 'e state_error + ('j, 's, 'v, 'm) config_state option \<Rightarrow> str \<Rightarrow> 'v http_request
      \<Rightarrow> ('j, 's, 'v, 'm) network_proxy_state \<Rightarrow> 'e state_error + ('j, 's, 'v, 'm) network_proxy_state \<times> 'v hook_evaluation" where
  "evaluate_mitm_hook_request L answer host req np =
     and_then (reload_if_needed answer np) (\<lambda>np. Inr (np, evaluate_mitm_hooks (sl_hooks L) (cs_mitm_hooks (np_state np)) host req))"

section \<open>Updates that are computed outside the lock\<close>

definition mode_candidate :: "network_mode \<Rightarrow> ('j, 's, 'v, 'm) network_proxy_state \<Rightarrow> 'j network_proxy_config \<times> network_constraints" where
  "mode_candidate mode np = ((cs_config (np_state np))\<lparr>nc_mode := mode\<rparr>, cs_constraints (np_state np))"

definition mode_commit ::
    "network_mode \<Rightarrow> network_constraints \<Rightarrow> ('j, 's, 'v, 'm) network_proxy_state \<Rightarrow> ('j, 's, 'v, 'm) network_proxy_state option" where
  "mode_commit mode nx np =
     (if cs_constraints (np_state np) \<noteq> nx then None
      else Some (np\<lparr>np_state := (np_state np)\<lparr>cs_config := (cs_config (np_state np))\<lparr>nc_mode := mode\<rparr>\<rparr>\<rparr>))"

text \<open>\<open>answers\<close> are the reloader's answers and \<open>others\<close> what other tasks do between the read and the commit of an attempt.\<close>

partial_function (option) set_network_mode ::
    "('g, 's, 'e, 'v, 'm) state_lib \<Rightarrow> (nat \<Rightarrow> 'e state_error + ('j, 's, 'v, 'm) config_state option)
      \<Rightarrow> (nat \<Rightarrow> ('j, 's, 'v, 'm) network_proxy_state \<Rightarrow> ('j, 's, 'v, 'm) network_proxy_state) \<Rightarrow> network_mode \<Rightarrow> nat
      \<Rightarrow> ('j, 's, 'v, 'm) network_proxy_state \<Rightarrow> (('j, 's, 'v, 'm) network_proxy_state \<times> ('e state_error + unit)) option" where
  "set_network_mode L answers others mode n np =
     (case reload_if_needed (answers n) np of
        Inl e \<Rightarrow> Some (np, Inl e)
      | Inr np \<Rightarrow>
          (case mode_candidate mode np of (candidate, nx) \<Rightarrow>
             (case validate_policy_against_constraints L candidate nx of
                Inl e \<Rightarrow> Some (np, Inl (ConstrainedByManagedConfig ''network.mode'' e))
              | Inr _ \<Rightarrow>
                  (let np = others n np
                   in case mode_commit mode nx np of
                        Some np \<Rightarrow> Some (np, Inr ())
                      | None \<Rightarrow> set_network_mode L answers others mode (Suc n) np))))"

datatype domain_list_kind = AllowList | DenyList

fun list_name :: "domain_list_kind \<Rightarrow> str" where
  "list_name AllowList = ''allowlist''"
| "list_name DenyList = ''denylist''"

fun constraint_field :: "domain_list_kind \<Rightarrow> str" where
  "constraint_field AllowList = ''network.allowed_domains''"
| "constraint_field DenyList = ''network.denied_domains''"

fun list_permission :: "domain_list_kind \<Rightarrow> network_domain_permission" where
  "list_permission AllowList = AllowDomain"
| "list_permission DenyList = DenyDomain"

fun list_entries :: "domain_list_kind \<Rightarrow> 'j network_proxy_config \<Rightarrow> str list" where
  "list_entries AllowList cfg = or_empty (allowed_domains cfg)"
| "list_entries DenyList cfg = or_empty (denied_domains cfg)"

fun opposite_entries :: "domain_list_kind \<Rightarrow> 'j network_proxy_config \<Rightarrow> str list" where
  "opposite_entries AllowList cfg = or_empty (denied_domains cfg)"
| "opposite_entries DenyList cfg = or_empty (allowed_domains cfg)"

text \<open>The part of an attempt before the write lock: nothing to do, or the configuration and constraints that were read and the
  state that was computed from them.\<close>

definition prepare_domain_update ::
    "('g, 's, 'e, 'v, 'm) state_lib \<Rightarrow> str \<Rightarrow> domain_list_kind \<Rightarrow> ('j, 's, 'v, 'm) config_state
      \<Rightarrow> 'e state_error + ('j network_proxy_config \<times> network_constraints \<times> ('j, 's, 'v, 'm) config_state) option" where
  "prepare_domain_update L normalized target st =
     (let previous = cs_config st; nx = cs_constraints st;
          target_contains = list_ex (\<lambda>e. normalize_host e = normalized) (list_entries target previous);
          opposite_contains = list_ex (\<lambda>e. normalize_host e = normalized) (opposite_entries target previous)
      in if target_contains \<and> \<not> opposite_contains then Inr None
         else
           (let candidate = upsert_domain_permission previous normalized (list_permission target) normalize_host
            in and_then (map_err (ConstrainedByManagedConfig (constraint_field target)) (validate_policy_against_constraints L candidate nx)) (\<lambda>_.
               and_then (map_err (UpdateFailed (list_name target)) (build_config_state L candidate nx)) (\<lambda>new.
                 Inr (Some (previous, nx, new\<lparr>cs_blocked := cs_blocked st, cs_blocked_total := cs_blocked_total st\<rparr>))))))"

definition domain_commit ::
    "'j network_proxy_config \<Rightarrow> network_constraints \<Rightarrow> ('j, 's, 'v, 'm) config_state \<Rightarrow> ('j, 's, 'v, 'm) network_proxy_state
      \<Rightarrow> ('j, 's, 'v, 'm) network_proxy_state option" where
  "domain_commit previous nx new np =
     (if cs_constraints (np_state np) \<noteq> nx \<or> cs_config (np_state np) \<noteq> previous then None else Some (np\<lparr>np_state := new\<rparr>))"

partial_function (option) update_domain_loop ::
    "('g, 's, 'e, 'v, 'm) state_lib \<Rightarrow> (nat \<Rightarrow> 'e state_error + ('j, 's, 'v, 'm) config_state option)
      \<Rightarrow> (nat \<Rightarrow> ('j, 's, 'v, 'm) network_proxy_state \<Rightarrow> ('j, 's, 'v, 'm) network_proxy_state) \<Rightarrow> str \<Rightarrow> domain_list_kind \<Rightarrow> nat
      \<Rightarrow> ('j, 's, 'v, 'm) network_proxy_state \<Rightarrow> (('j, 's, 'v, 'm) network_proxy_state \<times> ('e state_error + unit)) option" where
  "update_domain_loop L answers others normalized target n np =
     (case reload_if_needed (answers n) np of
        Inl e \<Rightarrow> Some (np, Inl e)
      | Inr np \<Rightarrow>
          (case prepare_domain_update L normalized target (np_state np) of
             Inl e \<Rightarrow> Some (np, Inl e)
           | Inr None \<Rightarrow> Some (np, Inr ())
           | Inr (Some (previous, nx, new)) \<Rightarrow>
               (let np = others n np
                in case domain_commit previous nx new np of
                     Some np \<Rightarrow> Some (np, Inr ())
                   | None \<Rightarrow> update_domain_loop L answers others normalized target (Suc n) np)))"

definition update_domain_list ::
    "('g, 's, 'e, 'v, 'm) state_lib \<Rightarrow> (nat \<Rightarrow> 'e state_error + ('j, 's, 'v, 'm) config_state option)
      \<Rightarrow> (nat \<Rightarrow> ('j, 's, 'v, 'm) network_proxy_state \<Rightarrow> ('j, 's, 'v, 'm) network_proxy_state) \<Rightarrow> str \<Rightarrow> domain_list_kind
      \<Rightarrow> ('j, 's, 'v, 'm) network_proxy_state \<Rightarrow> (('j, 's, 'v, 'm) network_proxy_state \<times> ('e state_error + unit)) option" where
  "update_domain_list L answers others host target np =
     (case host_parse host of
        None \<Rightarrow> Some (np, Inl InvalidNetworkHost)
      | Some normalized \<Rightarrow> update_domain_loop L answers others normalized target 0 np)"

text \<open>The entries that a log of a policy change names, in order.\<close>

fun log_entries :: "str list \<Rightarrow> str set \<Rightarrow> str set \<Rightarrow> str list" where
  "log_entries [] seen wanted = []"
| "log_entries (e # es) seen wanted =
     (let key = to_ascii_lowercase e
      in if key \<notin> seen \<and> key \<in> wanted then e # log_entries es (insert key seen) wanted
         else log_entries es (insert key seen) wanted)"

definition log_domain_list_changes :: "str list \<Rightarrow> str list \<Rightarrow> str list \<times> str list" where
  "log_domain_list_changes previous next =
     (let previous_set = set (lower_entries previous); next_set = set (lower_entries next)
      in (log_entries next {} (next_set - previous_set), log_entries previous {} (previous_set - next_set)))"

section \<open>Interleaved updates\<close>

datatype ('j, 's, 'v, 'm) pending =
    PendingMode network_mode network_constraints
  | PendingDomain "'j network_proxy_config" network_constraints "('j, 's, 'v, 'm) config_state"
  | PendingReload "('j, 's, 'v, 'm) config_state" "blocked_request list" int

type_synonym ('j, 's, 'v, 'm) proxy_system = "('j, 's, 'v, 'm) network_proxy_state \<times> (nat \<rightharpoonup> ('j, 's, 'v, 'm) pending)"

text \<open>The states that reach the proxy from outside: compiled from a configuration that was validated.\<close>

definition delivered :: "('g, 's, 'e, 'v, 'm) state_lib \<Rightarrow> ('j, 's, 'v, 'm) config_state \<Rightarrow> bool" where
  "delivered L st \<longleftrightarrow>
     (\<exists>cfg nx. validate_policy_against_constraints L cfg nx = Inr () \<and> build_config_state L cfg nx = Inr st)"

text \<open>The tasks of the proxy, one section under a lock at a time.  \<open>t\<close> names a task between its read and its write.\<close>

inductive proxy_step :: "('g, 's, 'e, 'v, 'm) state_lib \<Rightarrow> ('j, 's, 'v, 'm) proxy_system \<Rightarrow> ('j, 's, 'v, 'm) proxy_system \<Rightarrow> bool"
  for L where
  configure: "delivered L new \<Longrightarrow> proxy_step L (np, ps) (configure_broker new np, ps)"
| read_reload: "delivered L new \<Longrightarrow> ps t = None \<Longrightarrow>
    proxy_step L (np, ps) (np, ps(t \<mapsto> PendingReload new (cs_blocked (np_state np)) (cs_blocked_total (np_state np))))"
| write_reload: "ps t = Some (PendingReload new blocked n) \<Longrightarrow> proxy_step L (np, ps) (write_state new blocked n np, ps(t := None))"
| force: "delivered L new \<Longrightarrow> proxy_step L (np, ps) (force_reload_write new np, ps)"
| replace: "delivered L new \<Longrightarrow> proxy_step L (np, ps) (replace_write new np, ps)"
| blocked: "proxy_step L (np, ps) (np\<lparr>np_state := push_blocked entry (np_state np)\<rparr>, ps)"
| drain: "take_blocked np = (np', out) \<Longrightarrow> proxy_step L (np, ps) (np', ps)"
| read_mode: "mode_candidate mode np = (candidate, nx) \<Longrightarrow> validate_policy_against_constraints L candidate nx = Inr () \<Longrightarrow> ps t = None \<Longrightarrow>
    proxy_step L (np, ps) (np, ps(t \<mapsto> PendingMode mode nx))"
| commit_mode: "ps t = Some (PendingMode mode nx) \<Longrightarrow> mode_commit mode nx np = Some np' \<Longrightarrow> proxy_step L (np, ps) (np', ps(t := None))"
| retry_mode: "ps t = Some (PendingMode mode nx) \<Longrightarrow> mode_commit mode nx np = None \<Longrightarrow> proxy_step L (np, ps) (np, ps(t := None))"
| read_domain: "prepare_domain_update L host target (np_state np) = Inr (Some (previous, nx, new)) \<Longrightarrow> ps t = None \<Longrightarrow>
    proxy_step L (np, ps) (np, ps(t \<mapsto> PendingDomain previous nx new))"
| commit_domain: "ps t = Some (PendingDomain previous nx new) \<Longrightarrow> domain_commit previous nx new np = Some np' \<Longrightarrow>
    proxy_step L (np, ps) (np', ps(t := None))"
| retry_domain: "ps t = Some (PendingDomain previous nx new) \<Longrightarrow> domain_commit previous nx new np = None \<Longrightarrow>
    proxy_step L (np, ps) (np, ps(t := None))"

inductive proxy_reachable :: "('g, 's, 'e, 'v, 'm) state_lib \<Rightarrow> ('j, 's, 'v, 'm) proxy_system \<Rightarrow> bool" for L where
  start: "delivered L st \<Longrightarrow> with_reloader st observed = (np, h) \<Longrightarrow> proxy_reachable L (np, Map.empty)"
| step: "proxy_reachable L s \<Longrightarrow> proxy_step L s s' \<Longrightarrow> proxy_reachable L s'"

section \<open>The invariant\<close>

definition log_ok :: "blocked_request list \<Rightarrow> int \<Rightarrow> bool" where
  "log_ok blocked n \<longleftrightarrow> length blocked \<le> MAX_BLOCKED_EVENTS \<and> 0 \<le> n \<and> n \<le> u64_max"

definition state_ok :: "('g, 's, 'e, 'v, 'm) state_lib \<Rightarrow> ('j, 's, 'v, 'm) config_state \<Rightarrow> bool" where
  "state_ok L st \<longleftrightarrow> state_valid L st \<and> log_ok (cs_blocked st) (cs_blocked_total st)"

fun pending_ok :: "('g, 's, 'e, 'v, 'm) state_lib \<Rightarrow> ('j, 's, 'v, 'm) pending \<Rightarrow> bool" where
  "pending_ok L (PendingMode mode nx) \<longleftrightarrow> mode_within mode nx"
| "pending_ok L (PendingDomain previous nx new) \<longleftrightarrow> state_ok L new \<and> cs_constraints new = nx"
| "pending_ok L (PendingReload new blocked n) \<longleftrightarrow> state_valid L new \<and> log_ok blocked n"

definition system_ok :: "('g, 's, 'e, 'v, 'm) state_lib \<Rightarrow> ('j, 's, 'v, 'm) proxy_system \<Rightarrow> bool" where
  "system_ok L s \<longleftrightarrow> state_ok L (np_state (fst s)) \<and> (\<forall>t p. snd s t = Some p \<longrightarrow> pending_ok L p)"

lemma drop_oldest_eq: "drop_oldest bs = drop (length bs - MAX_BLOCKED_EVENTS) bs"
proof (induction bs rule: drop_oldest.induct)
  case (1 bs)
  show ?case
  proof (cases "length bs > MAX_BLOCKED_EVENTS")
    case True
    then obtain b list where bs: "bs = b # list" by (cases bs) simp_all
    have "drop_oldest bs = drop (length list - MAX_BLOCKED_EVENTS) list"
      using True 1 bs by (subst drop_oldest.simps) simp
    then show ?thesis using True by (simp add: bs Suc_diff_le)
  qed (simp add: drop_oldest.simps)
qed

lemma log_ok_push: "log_ok (cs_blocked st) (cs_blocked_total st) \<Longrightarrow> log_ok (cs_blocked (push_blocked e st)) (cs_blocked_total (push_blocked e st))"
  by (auto simp: log_ok_def push_blocked_def drop_oldest_eq u64_saturating_add_def u64_max_def)

lemma state_valid_log [simp]:
  "state_valid L (st\<lparr>cs_blocked := b, cs_blocked_total := n\<rparr>) = state_valid L st"
  "state_valid L (st\<lparr>cs_blocked := b\<rparr>) = state_valid L st"
  by (simp_all add: state_valid_def)

lemma delivered_ok: "delivered L st \<Longrightarrow> state_ok L st \<and> cs_blocked_total st = 0"
  by (auto simp: delivered_def state_ok_def log_ok_def u64_max_def dest: build_config_state_valid)

lemma mode_update_same:
  "allowed_domains (cfg\<lparr>nc_mode := m\<rparr>) = allowed_domains cfg" "denied_domains (cfg\<lparr>nc_mode := m\<rparr>) = denied_domains cfg"
  "allow_unix_sockets (cfg\<lparr>nc_mode := m\<rparr>) = allow_unix_sockets cfg"
  "switches_within (cfg\<lparr>nc_mode := m\<rparr>) nx = switches_within cfg nx"
  "validate_mitm_hook_config K (cfg\<lparr>nc_mode := m\<rparr>) = validate_mitm_hook_config K cfg"
  "compile_mitm_hooks K (cfg\<lparr>nc_mode := m\<rparr>) = compile_mitm_hooks K cfg"
  "broker_settled (cfg\<lparr>nc_mode := m\<rparr>) nx = broker_settled cfg nx"
  by (simp_all add: allowed_domains_def denied_domains_def domain_entries_def allow_unix_sockets_def switches_within_def
      validate_mitm_hook_config_def compile_mitm_hooks_def broker_settled_def)

lemma mode_commit_ok:
  assumes "state_ok L (np_state np)" "mode_within mode nx" "mode_commit mode nx np = Some np'"
  shows "state_ok L (np_state np')"
proof -
  let ?st = "np_state np"
  have np': "np_state np' = ?st\<lparr>cs_config := (cs_config ?st)\<lparr>nc_mode := mode\<rparr>\<rparr>" and nx: "cs_constraints ?st = nx"
    using assms(3) by (auto simp: mode_commit_def split: if_splits)
  have "validate_policy_against_constraints L ((cs_config ?st)\<lparr>nc_mode := mode\<rparr>) nx = Inr ()"
    using assms(1,2) nx by (simp only: state_ok_def state_valid_def validate_policy_iff mode_update_same) simp
  then show ?thesis using assms(1) nx by (simp add: np' state_ok_def state_valid_def mode_update_same)
qed

lemma prepare_domain_update_ok:
  assumes "prepare_domain_update L host target st = Inr (Some (previous, nx, new))" "state_ok L st"
  shows "state_ok L new \<and> cs_constraints new = nx"
proof -
  obtain built candidate where "build_config_state L candidate nx = Inr built" "validate_policy_against_constraints L candidate nx = Inr ()"
    and new: "new = built\<lparr>cs_blocked := cs_blocked st, cs_blocked_total := cs_blocked_total st\<rparr>"
    using assms(1) by (auto simp: prepare_domain_update_def Let_def split: if_splits)
  then have "state_valid L built \<and> cs_constraints built = nx" using build_config_state_valid by blast
  then show ?thesis using assms(2) by (simp add: new state_ok_def)
qed

lemma proxy_step_ok:
  assumes "proxy_step L s s'" "system_ok L s"
  shows "system_ok L s'"
  using assms
proof (induction rule: proxy_step.induct)
  case (read_reload new ps t np)
  then show ?case using delivered_ok [OF read_reload(1)] by (auto simp: system_ok_def state_ok_def)
next
  case (write_reload ps t new blocked n np)
  then have "pending_ok L (PendingReload new blocked n)" unfolding system_ok_def snd_conv by blast
  then show ?case using write_reload by (auto simp: system_ok_def state_ok_def write_state_def)
next
  case (force new np ps)
  then show ?case using delivered_ok [of L new] by (auto simp: system_ok_def state_ok_def force_reload_write_def log_ok_def)
next
  case (replace new np ps)
  then show ?case using delivered_ok [of L new] by (auto simp: system_ok_def state_ok_def replace_write_def write_state_def)
next
  case (blocked np ps entry)
  then show ?case using log_ok_push [of "np_state np" entry] by (auto simp: system_ok_def state_ok_def push_blocked_def)
next
  case (drain np np' out ps)
  then show ?case by (auto simp: system_ok_def state_ok_def take_blocked_def log_ok_def)
next
  case (read_mode mode np candidate nx ps t)
  then have "mode_within mode nx" by (auto simp: mode_candidate_def validate_policy_iff)
  then show ?case using read_mode by (auto simp: system_ok_def)
next
  case (commit_mode ps t mode nx np np')
  then have "mode_within mode nx" unfolding system_ok_def snd_conv by (metis pending_ok.simps(1))
  then show ?case using commit_mode mode_commit_ok by (auto simp: system_ok_def)
next
  case (read_domain host target np previous nx new ps t)
  then show ?case using prepare_domain_update_ok [OF read_domain(1)] by (auto simp: system_ok_def)
next
  case (commit_domain ps t previous nx new np np')
  then have "pending_ok L (PendingDomain previous nx new)" unfolding system_ok_def snd_conv by blast
  then show ?case using commit_domain by (auto simp: system_ok_def domain_commit_def split: if_splits)
qed (auto simp: system_ok_def configure_broker_def)

lemma proxy_reachable_ok: "proxy_reachable L s \<Longrightarrow> system_ok L s"
proof (induction rule: proxy_reachable.induct)
  case (start st observed np h)
  then show ?case using delivered_ok [OF start(1)] by (auto simp: system_ok_def with_reloader_def)
qed (rule proxy_step_ok)

section \<open>What the proxy guarantees\<close>

text \<open>C3: However the tasks of the proxy interleave (reloads, replaced configurations, changes of the mode and of the domain lists that
  are computed outside the lock, the log), the live configuration satisfies the managed constraints, its sets and hooks
  are the ones compiled from it, and the log of blocked requests holds at most 200 entries.\<close>

theorem live_policy_satisfies_constraints:
  assumes "proxy_reachable L (np, ps)"
  shows "validate_policy_against_constraints L (cs_config (np_state np)) (cs_constraints (np_state np)) = Inr ()
    \<and> compile_allowlist_globset (sl_globs L) (or_empty (allowed_domains (cs_config (np_state np)))) = Inr (cs_allow_set (np_state np))
    \<and> compile_denylist_globset (sl_globs L) (or_empty (denied_domains (cs_config (np_state np)))) = Inr (cs_deny_set (np_state np))
    \<and> compile_mitm_hooks (sl_hooks L) (cs_config (np_state np)) = Inr (cs_mitm_hooks (np_state np))
    \<and> length (cs_blocked (np_state np)) \<le> MAX_BLOCKED_EVENTS"
  using proxy_reachable_ok [OF assms] by (simp add: system_ok_def state_ok_def state_valid_def log_ok_def)

text \<open>A host is covered by a pattern directly, or, for an address with a scope, through the address.\<close>

definition host_covered :: "str \<Rightarrow> str \<Rightarrow> bool" where
  "host_covered p h \<longleftrightarrow>
     covers (spec_pattern p) h \<or> (case unscoped_ip_literal h of Some ip \<Rightarrow> covers (spec_pattern p) ip | None \<Rightarrow> False)"

lemma host_covered_iff:
  "host_covered p h \<longleftrightarrow> covers (spec_pattern p) h \<or> (\<exists>ip. unscoped_ip_literal h = Some ip \<and> covers (spec_pattern p) ip)"
  by (simp add: host_covered_def split: option.splits)

lemma split_once_prefix: "split_once c s = Some (a, b) \<Longrightarrow> set a \<subseteq> set s \<and> s = a @ c # b"
  by (auto simp: split_once_Some_iff)

lemma unscoped_plain_host: "unscoped_ip_literal h = Some ip \<Longrightarrow> plain_hostname h \<Longrightarrow> plain_hostname ip"
  by (auto simp: unscoped_ip_literal_def plain_hostname_def to_ascii_lowercase_def list_all_iff split: option.splits prod.splits if_splits
      dest!: split_once_prefix)

lemma globset_matches_host:
  assumes "glob_ok G" "compile_globset_with_policy G patterns w = Inr S" "\<forall>p \<in> set patterns. plain_pattern p" "plain_hostname h"
  shows "globset_matches_host_or_unscoped G S h \<longleftrightarrow> (\<exists>p \<in> set patterns. host_covered p h)"
proof (cases "unscoped_ip_literal h")
  case None
  then show ?thesis
    using globset_matches_covers [OF assms] by (simp add: globset_matches_host_or_unscoped_def host_covered_def)
next
  case (Some ip)
  have "plain_hostname ip" by (rule unscoped_plain_host [OF Some assms(4)])
  then show ?thesis
    using Some globset_matches_covers [OF assms(1,2,3)] assms(4)
    by (auto simp: globset_matches_host_or_unscoped_def host_covered_def)
qed

lemma decide_host_allowed:
  assumes "decide_host G lookup st host port = HostAllowed"
  obtains h where "host_parse host = Some h" "\<not> globset_matches_host_or_unscoped G (cs_deny_set st) h"
    "globset_matches_host_or_unscoped G (cs_allow_set st) h"
    "nc_allow_local_binding (cs_config st) \<or> \<not> local_network_blocked lookup (or_empty (allowed_domains (cs_config st))) h port"
  using assms by (auto simp: decide_host_def Let_def split: option.splits if_splits)

lemma explicit_local_entry:
  assumes "is_explicit_local_allowlisted allowed h"
  shows "\<exists>p \<in> set allowed. CHR ''*'' \<notin> set (trim p) \<and> (normalize_host (trim p) = h \<or> unscoped_ip_literal h = Some (normalize_host (trim p)))"
  using assms by (auto simp: is_explicit_local_allowlisted_def list_ex_iff Let_def split: option.splits if_splits)

text \<open>A host that passes the check of the local network.\<close>

definition not_local_unless_listed :: "(str \<Rightarrow> int \<Rightarrow> dns_lookup) \<Rightarrow> str list \<Rightarrow> str \<Rightarrow> int \<Rightarrow> bool" where
  "not_local_unless_listed lookup allowed h port \<longleftrightarrow>
     (if local_literal h
      then \<exists>p \<in> set allowed. CHR ''*'' \<notin> set (trim p) \<and> (normalize_host (trim p) = h \<or> unscoped_ip_literal h = Some (normalize_host (trim p)))
      else (\<exists>ip. parse_ip h = Some ip \<and> \<not> is_non_public_ip ip)
         \<or> (\<exists>addrs. parse_ip h = None \<and> lookup h port = Resolved addrs \<and> (\<forall>ip \<in> set addrs. \<not> is_non_public_ip ip)))"

lemma local_network_passed: "\<not> local_network_blocked lookup allowed h port \<Longrightarrow> not_local_unless_listed lookup allowed h port"
  using explicit_local_entry [of allowed h]
  by (auto simp: local_network_blocked_def not_local_unless_listed_def host_resolves_to_non_public_ip_def list_ex_iff
      split: if_splits option.splits dns_lookup.splits)

text \<open>The patterns of a configuration and of its constraints are names with an optional wildcard, in normal form.\<close>

definition plain_state :: "(str \<Rightarrow> str option) \<Rightarrow> ('j, 's, 'v, 'm) config_state \<Rightarrow> bool" where
  "plain_state url_host st \<longleftrightarrow>
     (\<forall>p \<in> set (or_empty (allowed_domains (cs_config st))) \<union> set (or_empty (denied_domains (cs_config st)))
        \<union> set (or_empty (nx_denied_domains (cs_constraints st))). plain_pattern p)
     \<and> (\<forall>p \<in> set (or_empty (nx_allowed_domains (cs_constraints st))). plain_pattern p \<and> readable url_host p)"

text \<open>A host that the compiled list of denied patterns does not match is denied by no pattern, managed ones included.\<close>

lemma deny_set_sound:
  assumes "state_valid L st" "\<not> globset_matches_host_or_unscoped (sl_globs L) (cs_deny_set st) h"
    and "glob_ok (sl_globs L)" "plain_state url_host st" "plain_hostname h"
  shows "\<forall>p \<in> set (or_empty (denied_domains (cs_config st))) \<union> set (or_empty (nx_denied_domains (cs_constraints st))). \<not> host_covered p h"
proof -
  let ?denied = "or_empty (denied_domains (cs_config st))"
  have within: "denied_within ?denied (cs_constraints st)" using assms(1) unfolding state_valid_def validate_policy_iff by blast
  have plain: "\<forall>p \<in> set ?denied. plain_pattern p" "\<forall>p \<in> set (or_empty (nx_denied_domains (cs_constraints st))). plain_pattern p"
    using assms(4) unfolding plain_state_def by blast+
  have "compile_globset_with_policy (sl_globs L) ?denied RejectGlobalWildcard = Inr (cs_deny_set st)"
    using assms(1) unfolding state_valid_def compile_denylist_globset_def by blast
  from globset_matches_host [OF assms(3) this plain(1) assms(5)] have deny: "\<forall>p \<in> set ?denied. \<not> host_covered p h"
    using assms(2) by blast
  have "set (or_empty (nx_denied_domains (cs_constraints st))) \<subseteq> set ?denied"
    using denied_within_covers [OF within _ _ plain(1)] plain(2) by (cases "nx_denied_domains (cs_constraints st)") auto
  then show ?thesis using deny by blast
qed

lemma decide_host_sound:
  assumes "state_valid L st" "decide_host (sl_globs L) lookup st host port = HostAllowed"
    and "glob_ok (sl_globs L)" "url_host_ok (sl_url_host L)" "plain_state (sl_url_host L) st" "plain_hostname (normalize_host host)"
  shows "(\<forall>p \<in> set (or_empty (denied_domains (cs_config st))) \<union> set (or_empty (nx_denied_domains (cs_constraints st))).
      \<not> host_covered p (normalize_host host))
    \<and> (\<exists>p \<in> set (or_empty (allowed_domains (cs_config st))). host_covered p (normalize_host host))
    \<and> (\<forall>managed. nx_allowed_domains (cs_constraints st) = Some managed \<longrightarrow>
         nx_allowlist_expansion (cs_constraints st) \<noteq> Some True \<longrightarrow> (\<exists>p \<in> set managed. host_covered p (normalize_host host)))
    \<and> (nc_allow_local_binding (cs_config st)
       \<or> not_local_unless_listed lookup (or_empty (allowed_domains (cs_config st))) (normalize_host host) port)"
proof -
  let ?st = st and ?h = "normalize_host host"
  let ?allowed = "or_empty (allowed_domains (cs_config ?st))" and ?denied = "or_empty (denied_domains (cs_config ?st))"
  note valid = assms(1)
  then have within: "allowed_within (sl_url_host L) ?allowed ?denied (cs_constraints ?st)"
    unfolding state_valid_def validate_policy_iff by blast
  have plain: "\<forall>p \<in> set ?allowed. plain_pattern p"
    "\<forall>p \<in> set (or_empty (nx_allowed_domains (cs_constraints ?st))). plain_pattern p \<and> readable (sl_url_host L) p"
    using assms(5) unfolding plain_state_def by blast+
  obtain h where h: "host_parse host = Some h" "\<not> globset_matches_host_or_unscoped (sl_globs L) (cs_deny_set ?st) h"
    "globset_matches_host_or_unscoped (sl_globs L) (cs_allow_set ?st) h"
    and local: "nc_allow_local_binding (cs_config ?st) \<or> \<not> local_network_blocked lookup ?allowed h port"
    by (rule decide_host_allowed [OF assms(2)])
  have hh: "h = ?h" using h(1) by (auto simp: host_parse_def Let_def split: if_splits)
  have comp: "compile_globset_with_policy (sl_globs L) ?allowed AllowGlobalWildcard = Inr (cs_allow_set ?st)"
    using valid unfolding state_valid_def compile_allowlist_globset_def by blast
  have allow: "\<exists>p \<in> set ?allowed. host_covered p ?h"
    using globset_matches_host [OF assms(3) comp plain(1) assms(6)] h(3) hh by blast
  have denied: "\<forall>p \<in> set ?denied \<union> set (or_empty (nx_denied_domains (cs_constraints ?st))). \<not> host_covered p ?h"
    using deny_set_sound [OF valid _ assms(3,5,6)] h(2) unfolding hh by blast
  have managed: "\<exists>p \<in> set managed. host_covered p ?h"
    if "nx_allowed_domains (cs_constraints ?st) = Some managed" "nx_allowlist_expansion (cs_constraints ?st) \<noteq> Some True" for managed
  proof -
    have "\<forall>p \<in> set managed. plain_pattern p \<and> readable (sl_url_host L) p" using plain(2) that(1) by simp
    note to_managed = allowed_within_covers [OF within that this plain(1) assms(4)]
    show ?thesis using allow to_managed unfolding host_covered_iff by blast
  qed
  show ?thesis using denied allow managed local local_network_passed unfolding hh by blast
qed


section \<open>Updates return and take effect\<close>

lemma mode_loop_returns:
  assumes "\<forall>n \<ge> k. \<forall>x. others n x = x"
  shows "\<exists>r. set_network_mode L answers others mode n np = Some r"
proof (induction "k - n" arbitrary: n np)
  case 0
  then have "others n x = x" for x using assms by simp
  then show ?case
    by (subst set_network_mode.simps)
      (auto simp: mode_candidate_def mode_commit_def Let_def split: sum.splits)
next
  case (Suc m)
  have IH: "\<exists>r. set_network_mode L answers others mode (Suc n) np' = Some r" for np' using Suc.hyps by simp
  then show ?case
    by (subst set_network_mode.simps) (auto simp: mode_candidate_def Let_def split: sum.splits option.splits)
qed

lemma prepare_domain_update_read:
  "prepare_domain_update L host target st = Inr (Some (previous, nx, new)) \<Longrightarrow> previous = cs_config st \<and> nx = cs_constraints st"
  by (auto simp: prepare_domain_update_def Let_def split: if_splits)

lemma domain_loop_returns:
  assumes "\<forall>n \<ge> k. \<forall>x. others n x = x"
  shows "\<exists>r. update_domain_loop L answers others host target n np = Some r"
proof (induction "k - n" arbitrary: n np)
  case 0
  then have "others n x = x" for x using assms by simp
  then show ?case
    by (subst update_domain_loop.simps)
      (auto simp: domain_commit_def Let_def split: sum.splits option.splits dest: prepare_domain_update_read)
next
  case (Suc m)
  have IH: "\<exists>r. update_domain_loop L answers others host target (Suc n) np' = Some r" for np' using Suc.hyps by simp
  then show ?case
    by (subst update_domain_loop.simps) (auto simp: Let_def split: sum.splits option.splits)
qed

text \<open>C38: The loops that retry an update when another task came between the read and the write return as soon as the other tasks stop
  interfering, whatever the reloader answers.\<close>

theorem updates_return:
  assumes "\<forall>n \<ge> k. \<forall>x. others n x = x"
  shows "(\<exists>r. set_network_mode L answers others mode 0 np = Some r) \<and> (\<exists>r. update_domain_list L answers others host target np = Some r)"
  using mode_loop_returns [OF assms, of L answers mode 0 np] domain_loop_returns [OF assms, of L answers _ target 0 np]
  by (auto simp: update_domain_list_def split: option.splits)

lemma upsert_entries:
  "set (or_empty (nc_domains (upsert_domain_permission cfg host perm normal))) =
     {e \<in> set (or_empty (nc_domains cfg)). normal (de_pattern e) \<noteq> normal host} \<union> {\<lparr>de_pattern = host, de_permission = perm\<rparr>}"
  unfolding upsert_domain_permission_def Let_def by (simp add: Un_commute)

lemma upsert_fields [simp]:
  "nc_credential_broker (upsert_domain_permission cfg host perm normal) = nc_credential_broker cfg"
  "nc_enabled (upsert_domain_permission cfg host perm normal) = nc_enabled cfg"
  by (simp_all add: upsert_domain_permission_def Let_def)

lemma upsert_lists:
  assumes "normal host = host"
  shows "p \<in> set (or_empty (denied_domains (upsert_domain_permission cfg host perm normal))) \<longleftrightarrow>
      (if normal p = host then p = host \<and> perm = DenyDomain else p \<in> set (or_empty (denied_domains cfg)))"
    and "p \<in> set (or_empty (allowed_domains (upsert_domain_permission cfg host perm normal))) \<longleftrightarrow>
      (if normal p = host then p = host \<and> perm = AllowDomain else p \<in> set (or_empty (allowed_domains cfg)))"
proof -
  have mem: "\<lparr>de_pattern = p, de_permission = q\<rparr> \<in> set (or_empty (nc_domains (upsert_domain_permission cfg host perm normal))) \<longleftrightarrow>
      (if normal p = host then p = host \<and> perm = q else \<lparr>de_pattern = p, de_permission = q\<rparr> \<in> set (or_empty (nc_domains cfg)))" for q
    unfolding upsert_entries using assms by auto
  show denied: "p \<in> set (or_empty (denied_domains (upsert_domain_permission cfg host perm normal))) \<longleftrightarrow>
      (if normal p = host then p = host \<and> perm = DenyDomain else p \<in> set (or_empty (denied_domains cfg)))"
    unfolding denied_domains_iff mem by simp
  show "p \<in> set (or_empty (allowed_domains (upsert_domain_permission cfg host perm normal))) \<longleftrightarrow>
      (if normal p = host then p = host \<and> perm = AllowDomain else p \<in> set (or_empty (allowed_domains cfg)))"
    unfolding allowed_domains_iff mem denied
    using network_domain_permission.distinct(5) by (cases "normal p = host") (simp_all only: if_True if_False simp_thms, metis)
qed

text \<open>The lists after an update: the host is in the target list, not in the other, and the other hosts are as before.\<close>

definition list_updated :: "str \<Rightarrow> domain_list_kind \<Rightarrow> 'j network_proxy_config \<Rightarrow> 'j network_proxy_config \<Rightarrow> bool" where
  "list_updated h target cfg cfg' \<longleftrightarrow>
     (\<exists>e \<in> set (list_entries target cfg'). normalize_host e = h) \<and> (\<forall>e \<in> set (opposite_entries target cfg'). normalize_host e \<noteq> h)
     \<and> (\<forall>e. normalize_host e \<noteq> h \<longrightarrow>
          (e \<in> set (list_entries target cfg') \<longleftrightarrow> e \<in> set (list_entries target cfg))
          \<and> (e \<in> set (opposite_entries target cfg') \<longleftrightarrow> e \<in> set (opposite_entries target cfg)))"

lemma upsert_updates:
  assumes "normalize_host h = h"
  shows "list_updated h target cfg (upsert_domain_permission cfg h (list_permission target) normalize_host)"
proof (cases target)
  case AllowList
  note lists = upsert_lists [where normal = normalize_host and perm = AllowDomain, OF assms, of _ cfg]
  show ?thesis
    unfolding list_updated_def AllowList list_entries.simps opposite_entries.simps list_permission.simps Ball_def Bex_def lists
    using assms by (auto simp only: network_domain_permission.distinct if_True if_False simp_thms split: if_splits)
next
  case DenyList
  note lists = upsert_lists [where normal = normalize_host and perm = DenyDomain, OF assms, of _ cfg]
  show ?thesis
    unfolding list_updated_def DenyList list_entries.simps opposite_entries.simps list_permission.simps Ball_def Bex_def lists
    using assms by (auto simp only: network_domain_permission.distinct if_True if_False simp_thms split: if_splits)
qed

text \<open>C37: An update of a domain list that no other task disturbs returns.  It fails and leaves the state as it was, or succeeds: then the
  host is in the list, it is not in the opposite list, all other entries are unchanged and so are the constraints and the
  log.\<close>

theorem domain_update_takes_effect:
  assumes "proxy_reachable L (np, ps)" "host_parse host = Some h" "normalize_host h = h"
  shows "\<exists>np' r. update_domain_list L (\<lambda>_. Inr None) (\<lambda>_ x. x) host target np = Some (np', r)
    \<and> (r \<noteq> Inr () \<longrightarrow> np' = np)
    \<and> (r = Inr () \<longrightarrow> list_updated h target (cs_config (np_state np)) (cs_config (np_state np'))
         \<and> cs_constraints (np_state np') = cs_constraints (np_state np) \<and> cs_blocked (np_state np') = cs_blocked (np_state np))"
proof -
  let ?st = "np_state np"
  have settled: "broker_settled (cs_config ?st) (cs_constraints ?st)"
    using proxy_reachable_ok [OF assms(1)] by (simp add: system_ok_def state_ok_def state_valid_def)
  have run: "update_domain_list L (\<lambda>_. Inr None) (\<lambda>_ x. x) host target np =
      (case prepare_domain_update L h target ?st of
         Inl e \<Rightarrow> Some (np, Inl e)
       | Inr None \<Rightarrow> Some (np, Inr ())
       | Inr (Some (previous, nx, new)) \<Rightarrow> Some (np\<lparr>np_state := new\<rparr>, Inr ()))"
    unfolding update_domain_list_def assms(2) option.case
    by (subst update_domain_loop.simps)
      (auto simp: reload_if_needed_def domain_commit_def Let_def split: sum.splits option.splits dest: prepare_domain_update_read)
  consider e where "prepare_domain_update L h target ?st = Inl e" | "prepare_domain_update L h target ?st = Inr None"
    | previous nx new where "prepare_domain_update L h target ?st = Inr (Some (previous, nx, new))"
    by (metis (no_types) obj_sumE option.exhaust surj_pair)
  then show ?thesis
  proof cases
    case 1
    then show ?thesis using run by simp
  next
    case 2
    then have "list_updated h target (cs_config ?st) (cs_config ?st)"
      by (auto simp: prepare_domain_update_def list_updated_def list_ex_iff Let_def split: if_splits)
    then show ?thesis using run 2 by auto
  next
    case 3
    define candidate where "candidate = upsert_domain_permission (cs_config ?st) h (list_permission target) normalize_host"
    obtain built where built: "build_config_state L candidate (cs_constraints ?st) = Inr built"
        "validate_policy_against_constraints L candidate (cs_constraints ?st) = Inr ()"
      and new: "new = built\<lparr>cs_blocked := cs_blocked ?st, cs_blocked_total := cs_blocked_total ?st\<rparr>"
      using 3 by (auto simp: prepare_domain_update_def candidate_def Let_def split: if_splits)
    have "broker_settled candidate (cs_constraints ?st)" using settled by (simp add: broker_settled_def candidate_def)
    then have "cs_config built = candidate" "cs_constraints built = cs_constraints ?st"
      using build_config_state_valid [OF built] broker_defaults_settled [of candidate] by simp_all
    then show ?thesis using run 3 upsert_updates [OF assms(3), of target "cs_config ?st"] by (simp add: new candidate_def)
  qed
qed

text \<open>C39: The log of blocked requests keeps the last 200 requests in order, and the counter counts all of them up to the
  largest 64-bit number.\<close>

theorem log_keeps_the_last_requests:
  assumes "length (cs_blocked st) \<le> MAX_BLOCKED_EVENTS" "0 \<le> cs_blocked_total st" "cs_blocked_total st \<le> u64_max"
  shows "cs_blocked (fold push_blocked es st) = drop (length (cs_blocked st @ es) - MAX_BLOCKED_EVENTS) (cs_blocked st @ es)
    \<and> cs_blocked_total (fold push_blocked es st) = min u64_max (cs_blocked_total st + int (length es))"
  using assms
proof (induction es rule: rev_induct)
  case (snoc e es)
  then have IH: "cs_blocked (fold push_blocked es st) = drop (length (cs_blocked st @ es) - MAX_BLOCKED_EVENTS) (cs_blocked st @ es)"
    "cs_blocked_total (fold push_blocked es st) = min u64_max (cs_blocked_total st + int (length es))" by blast+
  have "drop (length (drop k xs @ [e]) - m) (drop k xs @ [e]) = drop (length (xs @ [e]) - m) (xs @ [e])" if "k = length xs - m" for k m xs
    using that by (cases "length xs \<le> m") (auto simp: drop_Cons' Suc_diff_le)
  then have "cs_blocked (fold push_blocked (es @ [e]) st) =
      drop (length (cs_blocked st @ es @ [e]) - MAX_BLOCKED_EVENTS) (cs_blocked st @ es @ [e])"
    using IH(1) by (simp add: push_blocked_def drop_oldest_eq del: length_drop length_append drop_append)
  moreover have "cs_blocked_total (fold push_blocked (es @ [e]) st) = min u64_max (cs_blocked_total st + int (length (es @ [e])))"
    using IH(2) by (simp add: push_blocked_def u64_saturating_add_def u64_max_def)
  ultimately show ?case by blast
qed (auto simp: u64_max_def)

section \<open>Behaviour at the edges\<close>

text \<open>An entry is compared with the managed patterns as it is written, but compiled without what follows a single colon.  With a
  character that keeps it from being read as a host, a name outside the managed domain passes.\<close>

lemma managed_check_keeps_port_suffix:
  "validate_allowed_domains Some [''evil.com:%.example.com''] []
     (default_network_constraints\<lparr>nx_allowed_domains := Some [''*.example.com'']\<rparr>) = Inr ()
   \<and> expand_domain_pattern (normalize_pattern ''evil.com:%.example.com'') = [''evil.com'']"
  by code_simp

text \<open>A request that is recorded between the read and the write of an update is lost from the log.\<close>

lemma update_loses_concurrent_entry:
  assumes "prepare_domain_update L host target (np_state np) = Inr (Some (previous, nx, new))"
  shows "\<exists>np'. domain_commit previous nx new (np\<lparr>np_state := push_blocked entry (np_state np)\<rparr>) = Some np'
    \<and> cs_blocked (np_state np') = cs_blocked (np_state np) \<and> cs_blocked_total (np_state np') = cs_blocked_total (np_state np)"
proof -
  have "cs_blocked new = cs_blocked (np_state np)" "cs_blocked_total new = cs_blocked_total (np_state np)"
    using assms by (auto simp: prepare_domain_update_def Let_def split: if_splits)
  then show ?thesis
    using prepare_domain_update_read [OF assms] by (auto simp: domain_commit_def push_blocked_def)
qed

text \<open>A forced reload keeps the log and starts the counter again.\<close>

lemma force_reload_resets_counter:
  assumes "delivered L new"
  shows "cs_blocked (np_state (force_reload_write new np)) = cs_blocked (np_state np)
    \<and> cs_blocked_total (np_state (force_reload_write new np)) = 0"
  using delivered_ok [OF assms] by (simp add: force_reload_write_def)

section \<open>A proxy\<close>

definition sample_state_lib :: "(str, str list, unit, str, unit) state_lib" where
  "sample_state_lib = \<lparr>sl_globs = simple_globs, sl_hooks = sample_hook_lib, sl_url_host = Some, sl_mitm_new = (\<lambda>_. Inr ())\<rparr>"

definition sample_constraints :: network_constraints where
  "sample_constraints = default_network_constraints\<lparr>nx_allowed_domains := Some [''crates.io'', ''*.example.com''],
     nx_allowlist_expansion := Some False, nx_denied_domains := Some [''bad.example.com'']\<rparr>"

definition sample_proxy_config :: "unit network_proxy_config" where
  "sample_proxy_config =
     set_denied_domains (set_allowed_domains (default_network_proxy_config\<lparr>nc_enabled := True\<rparr>) [''crates.io'', ''*.example.com''])
       [''bad.example.com'']"

definition sample_config_state :: "(unit, str list, str, unit) config_state" where
  "sample_config_state = projr (build_config_state sample_state_lib sample_proxy_config sample_constraints)"

lemma sample_delivered: "delivered sample_state_lib sample_config_state"
proof -
  have "\<not> isl (build_config_state sample_state_lib sample_proxy_config sample_constraints)" by code_simp
  then have "build_config_state sample_state_lib sample_proxy_config sample_constraints = Inr sample_config_state"
    by (cases "build_config_state sample_state_lib sample_proxy_config sample_constraints") (simp_all add: sample_config_state_def)
  moreover have "validate_policy_against_constraints sample_state_lib sample_proxy_config sample_constraints = Inr ()" by code_simp
  ultimately show ?thesis by (auto simp: delivered_def)
qed

definition sample_proxy :: "(unit, str list, str, unit) network_proxy_state" where
  "sample_proxy = fst (with_reloader sample_config_state False)"

lemma sample_reachable: "proxy_reachable sample_state_lib (sample_proxy, Map.empty)"
  by (rule proxy_reachable.start [OF sample_delivered, of False _ "snd (with_reloader sample_config_state False)"])
    (simp add: sample_proxy_def)

definition sample_lookup :: "str \<Rightarrow> int \<Rightarrow> dns_lookup" where
  "sample_lookup host port = (if host = ''api.example.com'' then Resolved [V4 (ipv4_new 93 184 215 14)] else LookupFailed)"

theorem live_policy_satisfies_constraints_witness:
  "validate_policy_against_constraints sample_state_lib (cs_config (np_state sample_proxy)) (cs_constraints (np_state sample_proxy)) = Inr ()"
  using live_policy_satisfies_constraints [OF sample_reachable] by blast


theorem updates_return_witness:
  "\<exists>r. update_domain_list sample_state_lib (\<lambda>_. Inr None) (\<lambda>n x. if n < 3 then sample_proxy else x) ''x.org'' AllowList sample_proxy = Some r"
  using updates_return [of 3 "\<lambda>n x. if n < 3 then sample_proxy else x" sample_state_lib "\<lambda>_. Inr None" Full sample_proxy "''x.org''" AllowList] by simp

theorem domain_update_takes_effect_witness:
  "\<exists>np'. update_domain_list sample_state_lib (\<lambda>_. Inr None) (\<lambda>_ x. x) ''crates.io'' DenyList sample_proxy = Some (np', Inr ())
     \<and> list_updated ''crates.io'' DenyList (cs_config (np_state sample_proxy)) (cs_config (np_state np'))"
proof -
  have h: "host_parse ''crates.io'' = Some ''crates.io''" "normalize_host ''crates.io'' = ''crates.io''" by code_simp+
  have "\<not> isl (prepare_domain_update sample_state_lib ''crates.io'' DenyList (np_state sample_proxy))" by code_simp
  then obtain x where x: "prepare_domain_update sample_state_lib ''crates.io'' DenyList (np_state sample_proxy) = Inr x"
    by (cases "prepare_domain_update sample_state_lib ''crates.io'' DenyList (np_state sample_proxy)") simp_all
  obtain np' r where run: "update_domain_list sample_state_lib (\<lambda>_. Inr None) (\<lambda>_ x. x) ''crates.io'' DenyList sample_proxy = Some (np', r)"
    and ok: "r = Inr () \<Longrightarrow> list_updated ''crates.io'' DenyList (cs_config (np_state sample_proxy)) (cs_config (np_state np'))"
    using domain_update_takes_effect [OF sample_reachable h, of DenyList] by blast
  have "r = Inr ()" using run x unfolding update_domain_list_def h(1) option.case
    by (subst (asm) update_domain_loop.simps)
      (auto simp: reload_if_needed_def domain_commit_def Let_def split: option.splits dest: prepare_domain_update_read)
  then show ?thesis using run ok by blast
qed

definition sample_blocked :: blocked_request where
  "sample_blocked = blocked_request_new 0 \<lparr>bra_host = ''h'', bra_reason = ''denied'', bra_client = None, bra_method = None, bra_mode = None,
     bra_protocol = ''http'', bra_decision = None, bra_source = None, bra_port = None\<rparr>"

theorem log_keeps_the_last_requests_witness:
  "cs_blocked_total (fold push_blocked (replicate 300 sample_blocked) sample_config_state) = 300
   \<and> length (cs_blocked (fold push_blocked (replicate 300 sample_blocked) sample_config_state)) = 200"
proof -
  have start: "cs_blocked sample_config_state = []" "cs_blocked_total sample_config_state = 0"
    using build_config_state_valid sample_delivered by (auto simp: delivered_def)
  show ?thesis
    using log_keeps_the_last_requests [of sample_config_state "replicate 300 sample_blocked"] start
    by (simp add: MAX_BLOCKED_EVENTS_def u64_max_def)
qed

end
