(* ===== verification/Network_Decision.thy ===== *)
theory Network_Decision
  imports Network_State Network_Types Utf8_Text
begin

text \<open>
  Decisions on requests and connections (\<open>codex-rs/network-proxy/src/network_policy.rs\<close>, \<open>connect_policy.rs\<close>, \<open>attribution.rs\<close>,
  \<open>remote_config.rs\<close> and \<open>environment_policy.rs\<close>): the policy for hosts with an optional decider, the check of the address at
  the time of the connection, the frame that attributes a connection to an execution, and the settings that leave for
  another executor.

  The decider is a function argument.  The hosts of the crate \<open>rama\<close> are a datatype, and its rendering of a host is an argument.
  A stream is the bytes that arrive before it ends.
\<close>

datatype network_protocol = HttpProtocol | HttpsConnect | Socks5Tcp | Socks5Udp

fun as_policy_protocol :: "network_protocol \<Rightarrow> str" where
  "as_policy_protocol HttpProtocol = ''http''"
| "as_policy_protocol HttpsConnect = ''https_connect''"
| "as_policy_protocol Socks5Tcp = ''socks5_tcp''"
| "as_policy_protocol Socks5Udp = ''socks5_udp''"

fun policy_decision_as_str :: "network_policy_decision \<Rightarrow> str" where
  "policy_decision_as_str NetDeny = ''deny''"
| "policy_decision_as_str NetAsk = ''ask''"

fun decision_source_as_str :: "network_decision_source \<Rightarrow> str" where
  "decision_source_as_str BaselinePolicy = ''baseline_policy''"
| "decision_source_as_str ModeGuard = ''mode_guard''"
| "decision_source_as_str ProxyState = ''proxy_state''"
| "decision_source_as_str Decider = ''decider''"

record network_policy_request_args =
  nqa_protocol :: network_protocol
  nqa_host :: str
  nqa_port :: int
  nqa_environment_id :: "str option"
  nqa_client_addr :: "str option"
  nqa_method :: "str option"
  nqa_command :: "str option"
  nqa_exec_policy_hint :: "str option"

record 'd network_policy_request =
  nq_protocol :: network_protocol
  nq_host :: str
  nq_port :: int
  nq_environment_id :: "str option"
  nq_client_addr :: "str option"
  nq_method :: "str option"
  nq_command :: "str option"
  nq_exec_policy_hint :: "str option"
  nq_execution_id :: "str option"
  nq_disconnect :: "'d option"

definition network_policy_request_new :: "network_policy_request_args \<Rightarrow> 'd network_policy_request" where
  "network_policy_request_new a =
     \<lparr>nq_protocol = nqa_protocol a, nq_host = nqa_host a, nq_port = nqa_port a, nq_environment_id = nqa_environment_id a,
      nq_client_addr = nqa_client_addr a, nq_method = nqa_method a, nq_command = nqa_command a,
      nq_exec_policy_hint = nqa_exec_policy_hint a, nq_execution_id = None, nq_disconnect = None\<rparr>"

datatype network_decision = AllowNetwork | DenyNetwork (nd_reason: str) (nd_source: network_decision_source) (nd_decision: network_policy_decision)

definition REASON_POLICY_DENIED :: str where "REASON_POLICY_DENIED = ''policy_denied''"

definition deny_with_source :: "str \<Rightarrow> network_decision_source \<Rightarrow> network_decision" where
  "deny_with_source reason source = DenyNetwork (if reason = [] then REASON_POLICY_DENIED else reason) source NetDeny"

definition ask_with_source :: "str \<Rightarrow> network_decision_source \<Rightarrow> network_decision" where
  "ask_with_source reason source = DenyNetwork (if reason = [] then REASON_POLICY_DENIED else reason) source NetAsk"

definition decision_deny :: "str \<Rightarrow> network_decision" where "decision_deny reason = deny_with_source reason Decider"

definition decision_ask :: "str \<Rightarrow> network_decision" where "decision_ask reason = ask_with_source reason Decider"

fun map_decider_decision :: "network_decision \<Rightarrow> network_decision" where
  "map_decider_decision AllowNetwork = AllowNetwork"
| "map_decider_decision (DenyNetwork reason _ decision) = DenyNetwork reason Decider decision"

section \<open>Audit events\<close>

record policy_audit_event =
  pae_timestamp :: str
  pae_scope :: str
  pae_decision :: str
  pae_source :: str
  pae_reason :: str
  pae_protocol :: network_protocol
  pae_host :: str
  pae_port :: int
  pae_method :: "str option"
  pae_client :: "str option"
  pae_policy_override :: bool

record block_decision_args =
  bda_source :: network_decision_source
  bda_reason :: str
  bda_protocol :: network_protocol
  bda_server_address :: str
  bda_server_port :: int
  bda_method :: "str option"
  bda_client_addr :: "str option"

definition non_domain_audit_event :: "str \<Rightarrow> block_decision_args \<Rightarrow> str \<Rightarrow> policy_audit_event" where
  "non_domain_audit_event now a decision =
     \<lparr>pae_timestamp = now, pae_scope = ''non_domain'', pae_decision = decision, pae_source = decision_source_as_str (bda_source a),
      pae_reason = bda_reason a, pae_protocol = bda_protocol a, pae_host = bda_server_address a, pae_port = bda_server_port a,
      pae_method = bda_method a, pae_client = bda_client_addr a, pae_policy_override = False\<rparr>"

definition block_decision_audit_event :: "str \<Rightarrow> block_decision_args \<Rightarrow> policy_audit_event" where
  "block_decision_audit_event now a = non_domain_audit_event now a ''deny''"

definition allow_decision_audit_event :: "str \<Rightarrow> block_decision_args \<Rightarrow> policy_audit_event" where
  "allow_decision_audit_event now a = non_domain_audit_event now a ''allow''"

definition domain_audit_event :: "str \<Rightarrow> 'd network_policy_request \<Rightarrow> network_decision \<Rightarrow> bool \<Rightarrow> policy_audit_event" where
  "domain_audit_event now request decision policy_override =
     (let (d, source, reason) =
            (case decision of
               AllowNetwork \<Rightarrow>
                 (''allow'', if policy_override then Decider else BaselinePolicy,
                  if policy_override then host_block_reason_as_str NotAllowed else ''allow'')
             | DenyNetwork reason source d \<Rightarrow> (policy_decision_as_str d, source, reason))
      in \<lparr>pae_timestamp = now, pae_scope = ''domain'', pae_decision = d, pae_source = decision_source_as_str source,
          pae_reason = reason, pae_protocol = nq_protocol request, pae_host = nq_host request, pae_port = nq_port request,
          pae_method = nq_method request, pae_client = nq_client_addr request, pae_policy_override = policy_override\<rparr>)"

section \<open>The policy for hosts\<close>

definition decide_with ::
    "('d network_policy_request \<Rightarrow> network_decision) option \<Rightarrow> proxy_handle \<Rightarrow> 'd network_policy_request \<Rightarrow> host_block_decision
      \<Rightarrow> network_decision \<times> bool" where
  "decide_with decider h request d =
     (case d of
        HostAllowed \<Rightarrow> (AllowNetwork, False)
      | HostBlocked NotAllowed \<Rightarrow>
          (case decider of
             Some decide \<Rightarrow>
               (let request = (if nq_environment_id request = None then request\<lparr>nq_environment_id := ph_environment_id h\<rparr> else request);
                    request = request\<lparr>nq_execution_id := ph_execution_id h\<rparr>;
                    decision = map_decider_decision (decide request)
                in (decision, decision = AllowNetwork))
           | None \<Rightarrow> (deny_with_source (host_block_reason_as_str NotAllowed) BaselinePolicy, False))
      | HostBlocked reason \<Rightarrow> (deny_with_source (host_block_reason_as_str reason) BaselinePolicy, False))"

definition evaluate_host_policy ::
    "('g, 's, 'e, 'v, 'm) state_lib \<Rightarrow> (str \<Rightarrow> int \<Rightarrow> dns_lookup) \<Rightarrow> 'e state_error + ('j, 's, 'v, 'm) config_state option \<Rightarrow> str
      \<Rightarrow> ('d network_policy_request \<Rightarrow> network_decision) option \<Rightarrow> proxy_handle \<Rightarrow> 'd network_policy_request
      \<Rightarrow> ('j, 's, 'v, 'm) network_proxy_state \<Rightarrow> 'e state_error + ('j, 's, 'v, 'm) network_proxy_state \<times> network_decision \<times> policy_audit_event" where
  "evaluate_host_policy L lookup answer now decider h request np =
     and_then (host_blocked L lookup answer (nq_host request) (nq_port request) np) (\<lambda>(np, host_decision).
       (let (decision, policy_override) = decide_with decider h request host_decision
        in Inr (np, decision, domain_audit_event now request decision policy_override)))"

section \<open>Connections\<close>

datatype target_host = AddressHost ip_addr | NameHost str

fun is_non_public_target :: "target_host \<Rightarrow> bool" where
  "is_non_public_target (AddressHost ip) = is_non_public_ip ip"
| "is_non_public_target (NameHost name) = ascii_caseless_eq (trim_end_char (CHR ''.'') name) ''localhost''"

fun target_matches_non_public_addr :: "target_host \<Rightarrow> ip_addr \<Rightarrow> bool" where
  "target_matches_non_public_addr (AddressHost ip) addr \<longleftrightarrow> ip = addr"
| "target_matches_non_public_addr (NameHost name) addr \<longleftrightarrow>
     ascii_caseless_eq (trim_end_char (CHR ''.'') name) ''localhost'' \<and> ip_is_loopback addr"

datatype 'e connect_error = ReadConfig "'e state_error" | EvaluateTarget "'e state_error" | RejectedByPolicy

text \<open>The answers of the reloader: at the read of the configuration and at the decision on the host.\<close>

definition allows_non_public_target ::
    "('g, 's, 'e, 'v, 'm) state_lib \<Rightarrow> (str \<Rightarrow> int \<Rightarrow> dns_lookup) \<Rightarrow> (target_host \<Rightarrow> str)
      \<Rightarrow> 'e state_error + ('j, 's, 'v, 'm) config_state option \<Rightarrow> 'e state_error + ('j, 's, 'v, 'm) config_state option
      \<Rightarrow> target_host \<Rightarrow> int \<Rightarrow> ip_addr \<Rightarrow> ('j, 's, 'v, 'm) network_proxy_state
      \<Rightarrow> 'e connect_error + ('j, 's, 'v, 'm) network_proxy_state \<times> bool" where
  "allows_non_public_target L lookup render answer1 answer2 host port addr np =
     and_then (map_err ReadConfig (reload_if_needed answer1 np)) (\<lambda>np.
       if nc_allow_local_binding (cs_config (np_state np)) then Inr (np, True)
       else if \<not> target_matches_non_public_addr host addr then Inr (np, False)
       else and_then (map_err EvaluateTarget (host_blocked L lookup answer2 (render host) port np)) (\<lambda>(np, d).
         Inr (np, d = HostAllowed)))"

text \<open>The address that the connection is opened to.\<close>

definition target_checked_connect ::
    "('g, 's, 'e, 'v, 'm) state_lib \<Rightarrow> (str \<Rightarrow> int \<Rightarrow> dns_lookup) \<Rightarrow> (target_host \<Rightarrow> str)
      \<Rightarrow> 'e state_error + ('j, 's, 'v, 'm) config_state option \<Rightarrow> 'e state_error + ('j, 's, 'v, 'm) config_state option
      \<Rightarrow> target_host \<Rightarrow> int \<Rightarrow> socket_addr \<Rightarrow> ('j, 's, 'v, 'm) network_proxy_state
      \<Rightarrow> 'e connect_error + ('j, 's, 'v, 'm) network_proxy_state \<times> socket_addr" where
  "target_checked_connect L lookup render answer1 answer2 host port addr np =
     (if is_non_public_ip (sa_ip addr)
      then and_then (allows_non_public_target L lookup render answer1 answer2 host port (sa_ip addr) np) (\<lambda>(np, ok).
             if ok then Inr (np, addr) else Inl RejectedByPolicy)
      else Inr (np, addr))"

section \<open>Attribution of connections\<close>

definition ATTRIBUTION_FRAME_MAGIC :: str where
  "ATTRIBUTION_FRAME_MAGIC = CHR 0x00 # ''CDXPXY1''"

definition MAX_ATTRIBUTION_TOKEN_LEN :: nat where "MAX_ATTRIBUTION_TOKEN_LEN = 128"

datatype attribution_error =
    EmptyConnection
  | InvalidFrame
  | InvalidTokenLength
  | UnexpectedEof
  | TokenNotUtf8
  | UnknownToken
  | EnvironmentMismatch

text \<open>\<open>read_exact\<close> of the bytes that arrive.\<close>

definition read_exact :: "nat \<Rightarrow> str \<Rightarrow> attribution_error + str \<times> str" where
  "read_exact n s = (if length s < n then Inl UnexpectedEof else Inr (take n s, drop n s))"

definition u16_from_be_bytes :: "str \<Rightarrow> nat" where
  "u16_from_be_bytes bs = byte_val (bs ! 0) * 256 + byte_val (bs ! 1)"

definition u16_to_be_bytes :: "nat \<Rightarrow> str" where
  "u16_to_be_bytes n = [char_of (n div 256), char_of (n mod 256)]"

text \<open>The token, if there is one, and the rest of the stream.\<close>

definition read_attribution_token :: "str \<Rightarrow> attribution_error + str option \<times> str" where
  "read_attribution_token s =
     (if s = [] then Inl EmptyConnection
      else if hd s \<noteq> hd ATTRIBUTION_FRAME_MAGIC then Inr (None, s)
      else and_then (read_exact (length ATTRIBUTION_FRAME_MAGIC) s) (\<lambda>(magic, s).
        if magic \<noteq> ATTRIBUTION_FRAME_MAGIC then Inl InvalidFrame
        else and_then (read_exact 2 s) (\<lambda>(len, s).
          (let token_len = u16_from_be_bytes len
           in if token_len = 0 \<or> token_len > MAX_ATTRIBUTION_TOKEN_LEN then Inl InvalidTokenLength
              else and_then (read_exact token_len s) (\<lambda>(token, s).
                if valid_utf8 token then Inr (Some token, s) else Inl TokenNotUtf8)))))"

definition write_attribution_frame :: "str \<Rightarrow> attribution_error + str" where
  "write_attribution_frame token =
     (if token = [] \<or> length token > MAX_ATTRIBUTION_TOKEN_LEN then Inl InvalidTokenLength
      else Inr (ATTRIBUTION_FRAME_MAGIC @ u16_to_be_bytes (length token) @ token))"

text \<open>The handle that serves the connection, and the rest of the stream.\<close>

definition bind_connection ::
    "('j, 's, 'v, 'm) network_proxy_state \<Rightarrow> proxy_handle \<Rightarrow> str option \<Rightarrow> str \<Rightarrow> attribution_error + proxy_handle \<times> str" where
  "bind_connection np h environment_id s =
     and_then (read_attribution_token s) (\<lambda>(token, s).
     and_then (case token of
                 Some t \<Rightarrow> (case for_execution_token np t of Some bound \<Rightarrow> Inr bound | None \<Rightarrow> Inl UnknownToken)
               | None \<Rightarrow> Inr h) (\<lambda>bound.
       (case (environment_id, ph_environment_id bound) of
          (Some expected, Some actual) \<Rightarrow> if actual \<noteq> expected then Inl EnvironmentMismatch else Inr (bound, s)
        | _ \<Rightarrow> Inr (bound, s))))"

section \<open>Settings that leave the process\<close>

record environment_network_policy =
  enp_domains :: "domain_entry list option"
  enp_unix_sockets :: "(str \<times> socket_permission) list option"
  enp_allow_upstream_proxy :: bool
  enp_allow_all_unix_sockets :: bool
  enp_allow_local_binding :: bool
  enp_managed_allowed_domains_only :: bool

definition environment_policy_from_config :: "'j network_proxy_config \<Rightarrow> bool \<Rightarrow> environment_network_policy" where
  "environment_policy_from_config cfg managed_only =
     \<lparr>enp_domains = nc_domains cfg, enp_unix_sockets = nc_unix_sockets cfg, enp_allow_upstream_proxy = nc_allow_upstream_proxy cfg,
      enp_allow_all_unix_sockets = nc_allow_all_unix_sockets cfg, enp_allow_local_binding = nc_allow_local_binding cfg,
      enp_managed_allowed_domains_only = managed_only\<rparr>"

record remote_network_proxy_config =
  rnc_enabled :: bool
  rnc_enable_socks5 :: bool
  rnc_enable_socks5_udp :: bool
  rnc_allow_upstream_proxy :: bool
  rnc_allow_all_unix_sockets :: bool
  rnc_mode :: network_mode
  rnc_domains :: "domain_entry list option"
  rnc_unix_sockets :: "(str \<times> socket_permission) list option"
  rnc_allow_local_binding :: bool

definition remote_from_effective_config :: "'j network_proxy_config \<Rightarrow> remote_network_proxy_config option" where
  "remote_from_effective_config cfg =
     (if nc_enabled cfg \<and> (nc_mitm cfg \<or> nc_credential_broker cfg \<or> nc_allow_plaintext_credential_injection cfg \<or> nc_mitm_hooks cfg \<noteq> [])
      then None
      else Some \<lparr>rnc_enabled = nc_enabled cfg, rnc_enable_socks5 = nc_enable_socks5 cfg, rnc_enable_socks5_udp = nc_enable_socks5_udp cfg,
        rnc_allow_upstream_proxy = nc_allow_upstream_proxy cfg, rnc_allow_all_unix_sockets = nc_allow_all_unix_sockets cfg,
        rnc_mode = nc_mode cfg, rnc_domains = nc_domains cfg, rnc_unix_sockets = nc_unix_sockets cfg,
        rnc_allow_local_binding = nc_allow_local_binding cfg\<rparr>)"

definition into_network_proxy_config :: "remote_network_proxy_config \<Rightarrow> 'j network_proxy_config" where
  "into_network_proxy_config r =
     default_network_proxy_config\<lparr>nc_enabled := rnc_enabled r, nc_enable_socks5 := rnc_enable_socks5 r,
       nc_enable_socks5_udp := rnc_enable_socks5_udp r, nc_allow_upstream_proxy := rnc_allow_upstream_proxy r,
       nc_allow_all_unix_sockets := rnc_allow_all_unix_sockets r, nc_mode := rnc_mode r, nc_domains := rnc_domains r,
       nc_unix_sockets := rnc_unix_sockets r, nc_allow_local_binding := rnc_allow_local_binding r\<rparr>"

record remote_launch_config =
  rlc_proxy :: remote_network_proxy_config
  rlc_environment_id :: "str option"
  rlc_execution_id :: "str option"
  rlc_policy_decision_timeout_ms :: "int option"

definition remote_launch_new :: "remote_network_proxy_config \<Rightarrow> remote_launch_config" where
  "remote_launch_new proxy =
     \<lparr>rlc_proxy = proxy, rlc_environment_id = None, rlc_execution_id = None, rlc_policy_decision_timeout_ms = None\<rparr>"

definition launch_for_execution :: "remote_launch_config \<Rightarrow> str \<Rightarrow> str \<Rightarrow> remote_launch_config" where
  "launch_for_execution launch environment execution =
     launch\<lparr>rlc_environment_id := Some environment, rlc_execution_id := Some execution\<rparr>"

text \<open>\<open>None\<close>: the proxy of the launch is not enabled.\<close>

definition from_remote_launch_config ::
    "('g, 's, 'e, 'v, 'm) state_lib \<Rightarrow> remote_launch_config
      \<Rightarrow> 'e state_error option + ('j, 's, 'v, 'm) network_proxy_state \<times> proxy_handle" where
  "from_remote_launch_config L launch =
     (if \<not> rnc_enabled (rlc_proxy launch) then Inl None
      else and_then (map_err Some (build_config_state L (into_network_proxy_config (rlc_proxy launch)) default_network_constraints)) (\<lambda>st.
        (case with_reloader st False of (np, h) \<Rightarrow>
           Inr (np, h\<lparr>ph_environment_id := rlc_environment_id launch, ph_execution_id := rlc_execution_id launch\<rparr>))))"

section \<open>Deciders\<close>

lemma decide_host_not_allowed:
  assumes "decide_host G lookup st host port \<in> {HostAllowed, HostBlocked NotAllowed}" "host_parse host = Some h"
  shows "\<not> globset_matches_host_or_unscoped G (cs_deny_set st) h"
    and "nc_allow_local_binding (cs_config st) \<or> \<not> local_network_blocked lookup (or_empty (allowed_domains (cs_config st))) h port"
  using assms by (auto simp: decide_host_def Let_def split: if_splits)

lemma evaluate_host_policy_allow:
  assumes "evaluate_host_policy L lookup answer now decider h request np = Inr (np', AllowNetwork, event)"
  obtains "decide_host (sl_globs L) lookup (np_state np') (nq_host request) (nq_port request) = HostAllowed"
    | decide request' where "decide_host (sl_globs L) lookup (np_state np') (nq_host request) (nq_port request) = HostBlocked NotAllowed"
      "decider = Some decide" "decide request' = AllowNetwork" "nq_host request' = nq_host request" "pae_policy_override event"
proof -
  obtain np1 where reload: "reload_if_needed answer np = Inr np1" using assms by (auto simp: evaluate_host_policy_def host_blocked_def)
  define d where "d = decide_host (sl_globs L) lookup (np_state np1) (nq_host request) (nq_port request)"
  obtain x policy_override where x: "decide_with decider h request d = (x, policy_override)" by (cases "decide_with decider h request d")
  have np1: "np1 = np'" and run: "decide_with decider h request d = (AllowNetwork, pae_policy_override event)"
    using assms x by (auto simp: evaluate_host_policy_def host_blocked_def reload d_def [symmetric] domain_audit_event_def)
  have "map_decider_decision x = AllowNetwork \<longleftrightarrow> x = AllowNetwork" for x by (cases x) auto
  then show thesis
    using run that unfolding d_def np1 by (auto simp: decide_with_def deny_with_source_def Let_def
        split: host_block_decision.splits host_block_reason.splits option.splits if_splits)
qed

text \<open>C4: A decider can admit hosts that are not listed, and nothing else: whatever it answers, a request that is allowed goes to a host
  that no pattern denies, neither of the configuration nor a managed one, and that is not local unless it is listed.  If
  the host is not covered by an allowed pattern, the decider allowed it and the audit event says so.\<close>

theorem decider_never_overrides_denials:
  assumes "evaluate_host_policy L lookup answer now decider handle request np = Inr (np', AllowNetwork, event)"
    and "proxy_reachable L (np', ps)" "host_parse (nq_host request) = Some h"
    and "glob_ok (sl_globs L)" "plain_state (sl_url_host L) (np_state np')" "plain_hostname h"
  shows "(\<forall>p \<in> set (or_empty (denied_domains (cs_config (np_state np')))) \<union> set (or_empty (nx_denied_domains (cs_constraints (np_state np')))).
      \<not> host_covered p h)
    \<and> (nc_allow_local_binding (cs_config (np_state np'))
       \<or> not_local_unless_listed lookup (or_empty (allowed_domains (cs_config (np_state np')))) h (nq_port request))
    \<and> ((\<exists>p \<in> set (or_empty (allowed_domains (cs_config (np_state np')))). host_covered p h)
       \<or> (\<exists>decide request'. decider = Some decide \<and> decide request' = AllowNetwork \<and> nq_host request' = nq_host request
            \<and> pae_policy_override event))"
proof -
  let ?st = "np_state np'"
  have valid: "state_valid L ?st" using proxy_reachable_ok [OF assms(2)] by (simp add: system_ok_def state_ok_def)
  have decision: "decide_host (sl_globs L) lookup ?st (nq_host request) (nq_port request) \<in> {HostAllowed, HostBlocked NotAllowed}"
    by (rule evaluate_host_policy_allow [OF assms(1)]) simp_all
  note facts = decide_host_not_allowed [OF decision assms(3)]
  have denied: "\<forall>p \<in> set (or_empty (denied_domains (cs_config ?st))) \<union> set (or_empty (nx_denied_domains (cs_constraints ?st))). \<not> host_covered p h"
    by (rule deny_set_sound [OF valid facts(1) assms(4,5,6)])
  have allowed: "\<exists>p \<in> set (or_empty (allowed_domains (cs_config ?st))). host_covered p h"
    if allow: "decide_host (sl_globs L) lookup ?st (nq_host request) (nq_port request) = HostAllowed"
  proof -
    have plain: "\<forall>p \<in> set (or_empty (allowed_domains (cs_config ?st))). plain_pattern p" using assms(5) unfolding plain_state_def by blast
    have comp: "compile_globset_with_policy (sl_globs L) (or_empty (allowed_domains (cs_config ?st))) AllowGlobalWildcard = Inr (cs_allow_set ?st)"
      using valid unfolding state_valid_def compile_allowlist_globset_def by blast
    obtain h' where "host_parse (nq_host request) = Some h'" "globset_matches_host_or_unscoped (sl_globs L) (cs_allow_set ?st) h'"
      by (rule decide_host_allowed [OF allow])
    then show ?thesis using globset_matches_host [OF assms(4) comp plain assms(6)] assms(3) by auto
  qed
  have admitted: "(\<exists>p \<in> set (or_empty (allowed_domains (cs_config ?st))). host_covered p h)
       \<or> (\<exists>decide request'. decider = Some decide \<and> decide request' = AllowNetwork \<and> nq_host request' = nq_host request
            \<and> pae_policy_override event)"
  proof (rule evaluate_host_policy_allow [OF assms(1)])
    assume "decide_host (sl_globs L) lookup ?st (nq_host request) (nq_port request) = HostAllowed"
    then show ?thesis using allowed by blast
  next
    fix decide request'
    assume "decider = Some decide" "decide request' = AllowNetwork" "nq_host request' = nq_host request" "pae_policy_override event"
    then show ?thesis by blast
  qed
  show ?thesis using denied facts(2) local_network_passed admitted by blast
qed

section \<open>Addresses of connections\<close>

text \<open>C31: The address of a connection is checked again when it is opened.  Unless local networks are allowed, a connection to an address
  that is not public is opened only if the request named that very address, or \<open>localhost\<close> for a loopback address, and
  the policy allows it as a local host that is listed; a name that is resolved again to a local address is
  rejected.\<close>

theorem rebinding_is_stopped:
  assumes "target_checked_connect L lookup render (Inr None) (Inr None) host port addr np = Inr (np', addr')"
    and "\<not> nc_allow_local_binding (cs_config (np_state np))" "is_non_public_ip (sa_ip addr')"
  shows "addr' = addr \<and> np' = np
    \<and> (host = AddressHost (sa_ip addr)
       \<or> (\<exists>name. host = NameHost name \<and> to_ascii_lowercase (trim_end_char (CHR ''.'') name) = ''localhost'' \<and> ip_is_loopback (sa_ip addr)))
    \<and> decide_host (sl_globs L) lookup (np_state np) (render host) port = HostAllowed
    \<and> not_local_unless_listed lookup (or_empty (allowed_domains (cs_config (np_state np)))) (normalize_host (render host)) port"
proof -
  have same: "addr' = addr"
    using assms(1) by (auto simp: target_checked_connect_def split: if_splits prod.splits)
  have low: "to_ascii_lowercase ''localhost'' = ''localhost''" by code_simp
  have np: "np' = np" and matches: "target_matches_non_public_addr host (sa_ip addr)"
    and allowed: "decide_host (sl_globs L) lookup (np_state np) (render host) port = HostAllowed"
    using assms by (auto simp: target_checked_connect_def allows_non_public_target_def reload_if_needed_def host_blocked_def same
        split: if_splits)
  obtain h where "host_parse (render host) = Some h"
    "\<not> local_network_blocked lookup (or_empty (allowed_domains (cs_config (np_state np)))) h port"
    using decide_host_allowed [OF allowed] assms(2) by metis
  then have "not_local_unless_listed lookup (or_empty (allowed_domains (cs_config (np_state np)))) (normalize_host (render host)) port"
    using local_network_passed by (auto simp: host_parse_def Let_def split: if_splits)
  then show ?thesis using same np matches allowed low by (cases host) auto
qed

section \<open>Attribution\<close>

lemma be_bytes_roundtrip: "n < 65536 \<Longrightarrow> u16_from_be_bytes (u16_to_be_bytes n) = n"
  by (simp add: u16_from_be_bytes_def u16_to_be_bytes_def byte_val_def div_less_iff_less_mult)

lemma to_be_from_be: "length bs = 2 \<Longrightarrow> u16_to_be_bytes (u16_from_be_bytes bs) = bs"
proof -
  assume "length bs = 2"
  then obtain a b where bs: "bs = [a, b]" by (auto simp: numeral_2_eq_2 length_Suc_conv)
  have "byte_val b < 256" by (simp add: byte_val_def)
  then show ?thesis by (simp add: bs u16_from_be_bytes_def u16_to_be_bytes_def) (simp add: byte_val_def)
qed

lemma read_exact_append: "length a = n \<Longrightarrow> read_exact n (a @ b) = Inr (a, b)"
  by (simp add: read_exact_def)

text \<open>Reading a token is the inverse of writing its frame.\<close>

lemma read_attribution_token_iff:
  "read_attribution_token s = Inr (Some token, rest) \<longleftrightarrow>
     (\<exists>frame. write_attribution_frame token = Inr frame \<and> valid_utf8 token \<and> s = frame @ rest)"
proof
  assume "\<exists>frame. write_attribution_frame token = Inr frame \<and> valid_utf8 token \<and> s = frame @ rest"
  then have ok: "token \<noteq> []" "length token \<le> MAX_ATTRIBUTION_TOKEN_LEN" "valid_utf8 token"
    and s: "s = ATTRIBUTION_FRAME_MAGIC @ u16_to_be_bytes (length token) @ token @ rest"
    by (auto simp: write_attribution_frame_def split: if_splits)
  have len: "u16_from_be_bytes (u16_to_be_bytes (length token)) = length token"
    using ok(2) by (intro be_bytes_roundtrip) (simp add: MAX_ATTRIBUTION_TOKEN_LEN_def)
  have two: "length (u16_to_be_bytes (length token)) = 2" by (simp add: u16_to_be_bytes_def)
  have "s \<noteq> []" "hd s = hd ATTRIBUTION_FRAME_MAGIC" by (simp_all add: s ATTRIBUTION_FRAME_MAGIC_def)
  then show "read_attribution_token s = Inr (Some token, rest)"
    using ok len unfolding read_attribution_token_def
    by (simp add: s read_exact_append read_exact_append [OF two] Let_def)
next
  assume read: "read_attribution_token s = Inr (Some token, rest)"
  then obtain magic s1 len s2 where r1: "read_exact (length ATTRIBUTION_FRAME_MAGIC) s = Inr (magic, s1)" "magic = ATTRIBUTION_FRAME_MAGIC"
    and r2: "read_exact 2 s1 = Inr (len, s2)" and r3: "read_exact (u16_from_be_bytes len) s2 = Inr (token, rest)"
    and ok: "u16_from_be_bytes len \<noteq> 0" "u16_from_be_bytes len \<le> MAX_ATTRIBUTION_TOKEN_LEN" "valid_utf8 token"
    by (auto simp: read_attribution_token_def Let_def split: if_splits)
  have split: "s' = a @ b \<and> length a = n" if "read_exact n s' = Inr (a, b)" for n s' a b
    using that by (auto simp: read_exact_def split: if_splits)
  have "s = ATTRIBUTION_FRAME_MAGIC @ len @ token @ rest" "length len = 2" "length token = u16_from_be_bytes len"
    using split [OF r1(1)] split [OF r2] split [OF r3] r1(2) by auto
  then show "\<exists>frame. write_attribution_frame token = Inr frame \<and> valid_utf8 token \<and> s = frame @ rest"
    using ok to_be_from_be [of len] by (auto simp: write_attribution_frame_def)
qed


section \<open>Remote executors\<close>

lemma default_constraints_validate:
  assumes "nc_mitm_hooks cfg = []" "\<forall>p \<in> set (or_empty (denied_domains cfg)). \<not> is_global_wildcard_domain_pattern p"
  shows "validate_policy_against_constraints L cfg default_network_constraints = Inr ()"
  using assms unfolding validate_policy_iff
  by (simp add: validate_mitm_hook_config_def default_network_constraints_def mode_within_def switches_within_def
      allowed_within_def denied_within_def sockets_within_def)

lemma into_network_proxy_config_fields [simp]:
  "nc_mitm_hooks (into_network_proxy_config r) = []" "nc_credential_broker (into_network_proxy_config r) = False"
  "nc_mitm (into_network_proxy_config r) = False" "nc_allow_non_loopback_proxy (into_network_proxy_config r) = False"
  "nc_domains (into_network_proxy_config r) = rnc_domains r" "nc_mode (into_network_proxy_config r) = rnc_mode r"
  "nc_allow_local_binding (into_network_proxy_config r) = rnc_allow_local_binding r"
  "nc_enabled (into_network_proxy_config r) = rnc_enabled r"
  by (simp_all add: into_network_proxy_config_def default_network_proxy_config_def)

text \<open>A proxy that an executor starts from the settings of this process enforces the same lists of domains, the same mode and the same
  rule for local networks, has no interception, hooks or credentials and listens on loopback only.\<close>

theorem remote_proxy_enforces_same_policy:
  assumes "remote_from_effective_config cfg = Some r" "rlc_proxy launch = r" "from_remote_launch_config L launch = Inr (np, h)"
  shows "proxy_reachable L (np, Map.empty)
    \<and> allowed_domains (cs_config (np_state np)) = allowed_domains cfg \<and> denied_domains (cs_config (np_state np)) = denied_domains cfg
    \<and> nc_mode (cs_config (np_state np)) = nc_mode cfg \<and> nc_allow_local_binding (cs_config (np_state np)) = nc_allow_local_binding cfg
    \<and> cs_mitm (np_state np) = None \<and> cs_mitm_hooks (np_state np) = Map.empty \<and> bs_enabled (np_broker np) = False
    \<and> nc_allow_non_loopback_proxy (cs_config (np_state np)) = False
    \<and> nc_mitm cfg = False \<and> nc_credential_broker cfg = False \<and> nc_mitm_hooks cfg = []"
proof -
  let ?cfg = "into_network_proxy_config r :: 'c network_proxy_config" and ?nx = default_network_constraints
  obtain st where build: "build_config_state L ?cfg ?nx = Inr st" and np: "np = fst (with_reloader st False)" and on: "rnc_enabled r"
    using assms(2,3) by (auto simp: from_remote_launch_config_def with_reloader_def split: if_splits)
  have settled: "broker_defaults ?cfg ?nx = (?cfg, False)" by (rule broker_defaults_settled) (simp add: broker_settled_def)
  have "validate_non_global_wildcard_domain_patterns ''network.denied_domains'' (or_empty (denied_domains ?cfg)) = Inr ()"
    using build by (auto simp: build_config_state_def settled Let_def)
  then have valid: "validate_policy_against_constraints L ?cfg ?nx = Inr ()"
    by (intro default_constraints_validate) (simp_all only: into_network_proxy_config_fields validate_non_global_iff)
  note st = build_config_state_valid [OF build valid]
  have cfg: "cs_config st = ?cfg" using st settled by simp
  have hooks: "cs_mitm_hooks st = Map.empty" "cs_mitm st = None"
    using st cfg by (auto simp: state_valid_def compile_mitm_hooks_def)
  have "proxy_reachable L (np, Map.empty)"
    by (rule proxy_reachable.start [of L st False _ "snd (with_reloader st False)"])
      (use build valid in \<open>auto simp: delivered_def np\<close>)
  moreover have "np_state np = st" "bs_enabled (np_broker np) = False"
    by (simp_all add: np with_reloader_def broker_configure_def broker_new_def cfg Let_def)
  moreover have "allowed_domains ?cfg = allowed_domains cfg \<and> denied_domains ?cfg = denied_domains cfg"
    "rnc_mode r = nc_mode cfg" "rnc_allow_local_binding r = nc_allow_local_binding cfg"
    "nc_mitm cfg = False" "nc_credential_broker cfg = False" "nc_mitm_hooks cfg = []"
    using assms(1) on
    by (auto simp: remote_from_effective_config_def allowed_domains_def denied_domains_def domain_entries_def split: if_splits)
  ultimately show ?thesis using hooks by (simp add: cfg)
qed

section \<open>Witnesses\<close>

definition unlisted_request :: "unit network_policy_request" where
  "unlisted_request = network_policy_request_new \<lparr>nqa_protocol = HttpsConnect, nqa_host = ''other.org'', nqa_port = 443,
     nqa_environment_id = None, nqa_client_addr = None, nqa_method = None, nqa_command = None, nqa_exec_policy_hint = None\<rparr>"

definition public_lookup :: "str \<Rightarrow> int \<Rightarrow> dns_lookup" where
  "public_lookup host port = Resolved [V4 (ipv4_new 93 184 215 14)]"

abbreviation no_identity :: proxy_handle where
  "no_identity \<equiv> \<lparr>ph_environment_id = None, ph_execution_id = None\<rparr>"

theorem decider_never_overrides_denials_witness:
  "\<exists>event. evaluate_host_policy sample_state_lib public_lookup (Inr None) ''now'' (Some (\<lambda>_. AllowNetwork)) no_identity unlisted_request sample_proxy
       = Inr (sample_proxy, AllowNetwork, event) \<and> pae_policy_override event
     \<and> (\<forall>p \<in> set (or_empty (denied_domains (cs_config (np_state sample_proxy)))). \<not> host_covered p ''other.org'')"
proof -
  let ?L = sample_state_lib
  define event where "event = domain_audit_event ''now'' unlisted_request AllowNetwork True"
  have "decide_host (sl_globs ?L) public_lookup (np_state sample_proxy) (nq_host unlisted_request) (nq_port unlisted_request)
      = HostBlocked NotAllowed" by code_simp
  then have run: "evaluate_host_policy ?L public_lookup (Inr None) ''now'' (Some (\<lambda>_. AllowNetwork)) no_identity unlisted_request sample_proxy
      = Inr (sample_proxy, AllowNetwork, event)"
    by (simp add: evaluate_host_policy_def host_blocked_def reload_if_needed_def decide_with_def event_def Let_def)
  have h: "host_parse (nq_host unlisted_request) = Some ''other.org''" by code_simp
  have plain: "plain_state (sl_url_host ?L) (np_state sample_proxy)" "plain_hostname ''other.org''" by code_simp+
  have libs: "glob_ok (sl_globs ?L)" using simple_globs_ok by (simp add: sample_state_lib_def)
  have over: "pae_policy_override event" unfolding event_def by code_simp
  show ?thesis
    using run over decider_never_overrides_denials [OF run sample_reachable h libs plain] by blast
qed

definition loopback_config_state :: "(unit, str list, str, unit) config_state" where
  "loopback_config_state = projr (build_config_state sample_state_lib
     (set_allowed_domains (default_network_proxy_config\<lparr>nc_enabled := True\<rparr>) [''localhost'']) default_network_constraints)"

definition loopback_proxy :: "(unit, str list, str, unit) network_proxy_state" where
  "loopback_proxy = fst (with_reloader loopback_config_state False)"

theorem rebinding_is_stopped_witness:
  "decide_host simple_globs public_lookup (np_state loopback_proxy) ''localhost'' 80 = HostAllowed
   \<and> (\<forall>np' a. target_checked_connect sample_state_lib public_lookup (\<lambda>_. ''localhost'') (Inr None) (Inr None) (NameHost ''evil.org'') 80
         (loopback_addr 80) loopback_proxy \<noteq> Inr (np', a))"
proof -
  let ?run = "\<lambda>name. target_checked_connect sample_state_lib public_lookup (\<lambda>_. ''localhost'') (Inr None) (Inr None) (NameHost name) 80
         (loopback_addr 80) loopback_proxy"
  have off: "\<not> nc_allow_local_binding (cs_config (np_state loopback_proxy))" by code_simp
  have np: "is_non_public_ip (sa_ip (loopback_addr 80))" by code_simp
  have globs: "sl_globs sample_state_lib = simple_globs" by (simp add: sample_state_lib_def)
  have "target_matches_non_public_addr (NameHost ''LOCALHOST.'') (sa_ip (loopback_addr 80))" by code_simp
  moreover have allowed: "decide_host (sl_globs sample_state_lib) public_lookup (np_state loopback_proxy) ''localhost'' 80 = HostAllowed" by code_simp
  ultimately have ok: "?run ''LOCALHOST.'' = Inr (loopback_proxy, loopback_addr 80)"
    using np off by (simp add: target_checked_connect_def allows_non_public_target_def reload_if_needed_def host_blocked_def
        del: target_matches_non_public_addr.simps)
  have one: "decide_host simple_globs public_lookup (np_state loopback_proxy) ''localhost'' 80 = HostAllowed"
    using rebinding_is_stopped [OF ok off np] unfolding globs by blast
  have evil: "to_ascii_lowercase (trim_end_char (CHR ''.'') ''evil.org'') \<noteq> ''localhost''" by code_simp
  have "?run ''evil.org'' \<noteq> Inr (np', a)" for np' a
  proof
    assume run: "?run ''evil.org'' = Inr (np', a)"
    then have "a = loopback_addr 80" by (auto simp: target_checked_connect_def split: if_splits)
    then show False using rebinding_is_stopped [OF run off] np evil by blast
  qed
  then show ?thesis using one by blast
qed


definition remote_settings :: remote_network_proxy_config where
  "remote_settings = the (remote_from_effective_config sample_proxy_config)"

theorem remote_proxy_enforces_same_policy_witness:
  "\<exists>np h. from_remote_launch_config sample_state_lib (remote_launch_new remote_settings) = Inr (np, h)
     \<and> denied_domains (cs_config (np_state np) :: unit network_proxy_config) = Some [''bad.example.com'']"
proof -
  have r: "remote_from_effective_config sample_proxy_config = Some remote_settings" by code_simp
  have l: "rlc_proxy (remote_launch_new remote_settings) = remote_settings" by (simp add: remote_launch_new_def)
  have "\<not> isl (from_remote_launch_config sample_state_lib (remote_launch_new remote_settings)
      :: unit state_error option + (unit, str list, str, unit) network_proxy_state \<times> proxy_handle)" by code_simp
  then obtain np h where run: "from_remote_launch_config sample_state_lib (remote_launch_new remote_settings)
      = Inr (np :: (unit, str list, str, unit) network_proxy_state, h)"
    by (cases "from_remote_launch_config sample_state_lib (remote_launch_new remote_settings)
        :: unit state_error option + (unit, str list, str, unit) network_proxy_state \<times> proxy_handle") auto
  have "denied_domains sample_proxy_config = Some [''bad.example.com'']" by code_simp
  then show ?thesis using run remote_proxy_enforces_same_policy [OF r l run] by auto
qed

end
