(* ===== verification/Network_Spec.thy ===== *)
theory Network_Spec
  imports Network_Decision Exec_Policy Permission_Profile
begin

text \<open>
  The proxy of a session (\<open>codex-rs/core/src/config/network_proxy_spec.rs\<close>) and the network section of the managed requirements
  (\<open>codex-rs/config/src/config_requirements.rs\<close>): requirements overwrite the user's configuration and become constraints, the rules of
  the execution policy add domains, and the result is validated before a proxy is started.  Reading TOML is left out; the raw
  section is a record.
\<close>

section \<open>Requirements\<close>

datatype toml_domain_permission = TomlAllow | TomlDeny

datatype toml_socket_permission = TomlAllowSocket | TomlDenySocket

definition toml_allowed_domains :: "(str \<times> toml_domain_permission) list \<Rightarrow> str list option" where
  "toml_allowed_domains es = some_unless_empty (map fst (filter (\<lambda>(_, p). p = TomlAllow) es))"

definition toml_denied_domains :: "(str \<times> toml_domain_permission) list \<Rightarrow> str list option" where
  "toml_denied_domains es = some_unless_empty (map fst (filter (\<lambda>(_, p). p = TomlDeny) es))"

definition toml_allow_unix_sockets :: "(str \<times> toml_socket_permission) list \<Rightarrow> str list" where
  "toml_allow_unix_sockets es = map fst (filter (\<lambda>(_, p). p = TomlAllowSocket) es)"

record network_requirements =
  rq_enabled :: "bool option"
  rq_http_port :: "nat option"
  rq_socks_port :: "nat option"
  rq_allow_upstream_proxy :: "bool option"
  rq_allow_non_loopback_proxy :: "bool option"
  rq_allow_all_unix_sockets :: "bool option"
  rq_domains :: "(str \<times> toml_domain_permission) list option"
  rq_managed_allowed_domains_only :: "bool option"
  rq_unix_sockets :: "(str \<times> toml_socket_permission) list option"
  rq_allow_local_binding :: "bool option"

text \<open>The section as it is written, with the older lists.\<close>

record raw_network_requirements = network_requirements +
  raw_allowed_domains :: "str list option"
  raw_denied_domains :: "str list option"
  raw_allow_unix_sockets :: "str list option"

datatype requirements_error = DomainsWithLegacyLists | SocketsWithLegacyList

definition legacy_domain_permissions_from_lists ::
    "str list option \<Rightarrow> str list option \<Rightarrow> (str \<times> toml_domain_permission) list option" where
  "legacy_domain_permissions_from_lists allowed denied =
     (let entries = foldl (\<lambda>m p. btree_insert p TomlAllow m) [] (or_empty allowed);
          entries = foldl (\<lambda>m p. btree_insert p TomlDeny m) entries (or_empty denied)
      in some_unless_empty entries)"

definition legacy_unix_socket_permissions_from_list :: "str list option \<Rightarrow> (str \<times> toml_socket_permission) list option" where
  "legacy_unix_socket_permissions_from_list sockets =
     some_unless_empty (foldl (\<lambda>m p. btree_insert p TomlAllowSocket m) [] (or_empty sockets))"

definition requirements_from_raw :: "raw_network_requirements \<Rightarrow> requirements_error + network_requirements" where
  "requirements_from_raw raw =
     (if rq_domains raw \<noteq> None \<and> (raw_allowed_domains raw \<noteq> None \<or> raw_denied_domains raw \<noteq> None) then Inl DomainsWithLegacyLists
      else if rq_unix_sockets raw \<noteq> None \<and> raw_allow_unix_sockets raw \<noteq> None then Inl SocketsWithLegacyList
      else Inr ((network_requirements.truncate raw)
        \<lparr>rq_domains := (case rq_domains raw of
             Some d \<Rightarrow> Some d
           | None \<Rightarrow> legacy_domain_permissions_from_lists (raw_allowed_domains raw) (raw_denied_domains raw)),
         rq_unix_sockets := (case rq_unix_sockets raw of
             Some s \<Rightarrow> Some s
           | None \<Rightarrow> legacy_unix_socket_permissions_from_list (raw_allow_unix_sockets raw))\<rparr>))"

section \<open>The specification of a proxy\<close>

record 'j network_proxy_spec =
  ns_base_config :: "'j network_proxy_config"
  ns_requirements :: "network_requirements option"
  ns_config :: "'j network_proxy_config"
  ns_constraints :: network_constraints
  ns_hard_deny_allowlist_misses :: bool

fun managed_sandbox_active :: "('e, 'n) permission_profile \<Rightarrow> bool" where
  "managed_sandbox_active (Managed _ _) = True"
| "managed_sandbox_active _ = False"

definition managed_allowed_domains_only :: "network_requirements \<Rightarrow> bool" where
  "managed_allowed_domains_only rq = (rq_managed_allowed_domains_only rq = Some True)"

definition allowlist_expansion_enabled :: "('e, 'n) permission_profile \<Rightarrow> bool \<Rightarrow> bool" where
  "allowlist_expansion_enabled profile hard_deny = (managed_sandbox_active profile \<and> \<not> hard_deny)"

definition denylist_expansion_enabled :: "('e, 'n) permission_profile \<Rightarrow> bool" where
  "denylist_expansion_enabled profile = managed_sandbox_active profile"

definition merge_domain_lists :: "str list \<Rightarrow> str list \<Rightarrow> str list" where
  "merge_domain_lists managed user_entries =
     foldl (\<lambda>m entry. if list_ex (\<lambda>e. ascii_caseless_eq e entry) m then m else m @ [entry]) managed user_entries"

text \<open>The settings that overwrite the configuration.\<close>

definition apply_switches ::
    "network_requirements \<Rightarrow> 'j network_proxy_config \<times> network_constraints \<Rightarrow> 'j network_proxy_config \<times> network_constraints" where
  "apply_switches rq x =
     (let (cfg, nx) = x;
          (cfg, nx) = (case rq_enabled rq of Some b \<Rightarrow> (cfg\<lparr>nc_enabled := b\<rparr>, nx\<lparr>nx_enabled := Some b\<rparr>) | None \<Rightarrow> (cfg, nx));
          cfg = (case rq_http_port rq of Some p \<Rightarrow> cfg\<lparr>nc_proxy_url := ''http://127.0.0.1:'' @ show_nat p\<rparr> | None \<Rightarrow> cfg);
          cfg = (case rq_socks_port rq of Some p \<Rightarrow> cfg\<lparr>nc_socks_url := ''http://127.0.0.1:'' @ show_nat p\<rparr> | None \<Rightarrow> cfg);
          (cfg, nx) = (case rq_allow_upstream_proxy rq of
            Some b \<Rightarrow> (cfg\<lparr>nc_allow_upstream_proxy := b\<rparr>, nx\<lparr>nx_allow_upstream_proxy := Some b\<rparr>) | None \<Rightarrow> (cfg, nx));
          (cfg, nx) = (case rq_allow_non_loopback_proxy rq of
            Some b \<Rightarrow> (cfg\<lparr>nc_allow_non_loopback_proxy := b\<rparr>, nx\<lparr>nx_allow_non_loopback_proxy := Some b\<rparr>) | None \<Rightarrow> (cfg, nx))
      in case rq_allow_all_unix_sockets rq of
           Some b \<Rightarrow> (cfg\<lparr>nc_allow_all_unix_sockets := b\<rparr>, nx\<lparr>nx_allow_all_unix_sockets := Some b\<rparr>) | None \<Rightarrow> (cfg, nx))"

definition apply_allowed_domains ::
    "network_requirements \<Rightarrow> ('e, 'n) permission_profile \<Rightarrow> bool \<Rightarrow> 'j network_proxy_config \<times> network_constraints
      \<Rightarrow> 'j network_proxy_config \<times> network_constraints" where
  "apply_allowed_domains rq profile hard_deny x =
     (case x of (cfg, nx) \<Rightarrow>
        (let expand = allowlist_expansion_enabled profile hard_deny;
             listed = Option.bind (rq_domains rq) toml_allowed_domains;
             managed = (if hard_deny then Some (or_empty listed) else listed)
         in case managed of
              None \<Rightarrow> (cfg, nx)
            | Some m \<Rightarrow>
                (set_allowed_domains cfg (if expand then merge_domain_lists m (or_empty (allowed_domains cfg)) else m),
                 nx\<lparr>nx_allowed_domains := Some m, nx_allowlist_expansion := Some expand\<rparr>)))"

definition apply_denied_domains ::
    "network_requirements \<Rightarrow> ('e, 'n) permission_profile \<Rightarrow> 'j network_proxy_config \<times> network_constraints
      \<Rightarrow> 'j network_proxy_config \<times> network_constraints" where
  "apply_denied_domains rq profile x =
     (case x of (cfg, nx) \<Rightarrow>
        (let expand = denylist_expansion_enabled profile
         in case Option.bind (rq_domains rq) toml_denied_domains of
              None \<Rightarrow> (cfg, nx)
            | Some m \<Rightarrow>
                (set_denied_domains cfg (if expand then merge_domain_lists m (or_empty (denied_domains cfg)) else m),
                 nx\<lparr>nx_denied_domains := Some m, nx_denylist_expansion := Some expand\<rparr>)))"

definition apply_sockets ::
    "network_requirements \<Rightarrow> 'j network_proxy_config \<times> network_constraints \<Rightarrow> 'j network_proxy_config \<times> network_constraints" where
  "apply_sockets rq x =
     (let (cfg, nx) = x;
          (cfg, nx) = (case rq_unix_sockets rq of
            Some es \<Rightarrow> (set_allow_unix_sockets cfg (toml_allow_unix_sockets es), nx\<lparr>nx_allow_unix_sockets := Some (toml_allow_unix_sockets es)\<rparr>)
          | None \<Rightarrow> (cfg, nx))
      in case rq_allow_local_binding rq of
           Some b \<Rightarrow> (cfg\<lparr>nc_allow_local_binding := b\<rparr>, nx\<lparr>nx_allow_local_binding := Some b\<rparr>) | None \<Rightarrow> (cfg, nx))"

definition apply_requirements ::
    "'j network_proxy_config \<Rightarrow> network_requirements \<Rightarrow> ('e, 'n) permission_profile \<Rightarrow> bool \<Rightarrow> 'j network_proxy_config \<times> network_constraints" where
  "apply_requirements cfg rq profile hard_deny =
     apply_sockets rq (apply_denied_domains rq profile (apply_allowed_domains rq profile hard_deny
       (apply_switches rq (cfg, default_network_constraints))))"

definition from_config_and_constraints ::
    "('g, 's, 'err, 'v, 'm) state_lib \<Rightarrow> 'j network_proxy_config \<Rightarrow> network_requirements option \<Rightarrow> ('e, 'n) permission_profile
      \<Rightarrow> constraint_error + 'j network_proxy_spec" where
  "from_config_and_constraints L base requirements profile =
     (let hard_deny = (case requirements of Some rq \<Rightarrow> managed_allowed_domains_only rq | None \<Rightarrow> False);
          (cfg, nx) = (case requirements of
             Some rq \<Rightarrow> apply_requirements base rq profile hard_deny
           | None \<Rightarrow> (base, default_network_constraints))
      in and_then (validate_policy_against_constraints L cfg nx) (\<lambda>_.
           Inr \<lparr>ns_base_config = base, ns_requirements = requirements, ns_config = cfg, ns_constraints = nx,
                ns_hard_deny_allowlist_misses = hard_deny\<rparr>))"

definition recompute_for_permission_profile ::
    "('g, 's, 'err, 'v, 'm) state_lib \<Rightarrow> 'j network_proxy_spec \<Rightarrow> ('e, 'n) permission_profile \<Rightarrow> constraint_error + 'j network_proxy_spec" where
  "recompute_for_permission_profile L spec profile = from_config_and_constraints L (ns_base_config spec) (ns_requirements spec) profile"

definition upsert_network_domains :: "'j network_proxy_config \<Rightarrow> str list \<Rightarrow> bool \<Rightarrow> 'j network_proxy_config" where
  "upsert_network_domains cfg hosts allow =
     fst (foldl (\<lambda>(cfg, incoming) host.
        if host \<in> set incoming then (cfg, incoming)
        else (upsert_domain_permission cfg host (if allow then AllowDomain else DenyDomain) normalize_host, host # incoming)) (cfg, []) hosts)"

definition apply_exec_policy_network_rules :: "'j network_proxy_config \<Rightarrow> 'p policy \<Rightarrow> 'j network_proxy_config" where
  "apply_exec_policy_network_rules cfg p =
     (case compiled_network_domains p of (allowed, denied) \<Rightarrow>
        upsert_network_domains (upsert_network_domains cfg allowed True) denied False)"

definition with_exec_policy_network_rules ::
    "('g, 's, 'err, 'v, 'm) state_lib \<Rightarrow> 'j network_proxy_spec \<Rightarrow> 'p policy \<Rightarrow> constraint_error + 'j network_proxy_spec" where
  "with_exec_policy_network_rules L spec p =
     (let spec = spec\<lparr>ns_config := apply_exec_policy_network_rules (ns_config spec) p\<rparr>
      in and_then (validate_policy_against_constraints L (ns_config spec) (ns_constraints spec)) (\<lambda>_. Inr spec))"

definition build_config_state_for_spec ::
    "('g, 's, 'err, 'v, 'm) state_lib \<Rightarrow> 'j network_proxy_spec \<Rightarrow> 'err state_error + ('j, 's, 'v, 'm) config_state" where
  "build_config_state_for_spec L spec = build_config_state L (ns_config spec) (ns_constraints spec)"

text \<open>The decider of a proxy that is started.\<close>

definition proxy_decider ::
    "'j network_proxy_spec \<Rightarrow> ('e, 'n) permission_profile \<Rightarrow> ('d network_policy_request \<Rightarrow> network_decision) option \<Rightarrow> bool
      \<Rightarrow> ('d network_policy_request \<Rightarrow> network_decision) option" where
  "proxy_decider spec profile decider approval_flow =
     (if approval_flow \<and> \<not> ns_hard_deny_allowlist_misses spec
      then (case decider of
              Some d \<Rightarrow> Some d
            | None \<Rightarrow> if managed_sandbox_active profile then Some (\<lambda>_. decision_ask ''not_allowed'') else None)
      else None)"

definition start_proxy ::
    "('g, 's, 'err, 'v, 'm) state_lib \<Rightarrow> 'j network_proxy_spec \<Rightarrow> ('e, 'n) permission_profile
      \<Rightarrow> ('d network_policy_request \<Rightarrow> network_decision) option \<Rightarrow> bool \<Rightarrow> bool
      \<Rightarrow> 'err state_error + ('j, 's, 'v, 'm) network_proxy_state \<times> ('j, 's, 'v, 'm) config_reloader \<times> ('d network_policy_request \<Rightarrow> network_decision) option" where
  "start_proxy L spec profile decider observed approval_flow =
     and_then (build_config_state_for_spec L spec) (\<lambda>st.
       Inr (fst (with_reloader st observed), StaticNetworkProxyReloader st, proxy_decider spec profile decider approval_flow))"

definition apply_to_started_proxy ::
    "('g, 's, 'err, 'v, 'm) state_lib \<Rightarrow> 'j network_proxy_spec \<Rightarrow> ('j, 's, 'v, 'm) config_reloader \<Rightarrow> ('j, 's, 'v, 'm) network_proxy_state
      \<Rightarrow> 'err state_error + ('j, 's, 'v, 'm) network_proxy_state" where
  "apply_to_started_proxy L spec reloader np =
     and_then (build_config_state_for_spec L spec) (\<lambda>st. replace_config_state (maybe_reload reloader) st np)"

definition spec_environment_policy :: "'j network_proxy_spec \<Rightarrow> environment_network_policy" where
  "spec_environment_policy spec = environment_policy_from_config (ns_config spec) (ns_hard_deny_allowlist_misses spec)"

section \<open>Requirements reach the proxy\<close>

lemma merge_domain_lists_managed: "set managed \<subseteq> set (merge_domain_lists managed user)"
  unfolding merge_domain_lists_def by (induction user rule: rev_induct) auto

lemma merge_domain_lists_sources: "set (merge_domain_lists managed user) \<subseteq> set managed \<union> set user"
  unfolding merge_domain_lists_def by (induction user rule: rev_induct) auto

text \<open>A specification that was made is validated, and it keeps that when rules of the execution policy are applied.\<close>

definition spec_valid :: "('g, 's, 'err, 'v, 'm) state_lib \<Rightarrow> 'j network_proxy_spec \<Rightarrow> bool" where
  "spec_valid L spec \<longleftrightarrow> validate_policy_against_constraints L (ns_config spec) (ns_constraints spec) = Inr ()"

lemma from_config_spec_valid: "from_config_and_constraints L base rq profile = Inr spec \<Longrightarrow> spec_valid L spec"
  by (auto simp: from_config_and_constraints_def spec_valid_def Let_def split: prod.split_asm)

lemma with_exec_policy_spec_valid:
  "with_exec_policy_network_rules L spec p = Inr spec' \<Longrightarrow>
     spec_valid L spec' \<and> ns_constraints spec' = ns_constraints spec \<and> ns_hard_deny_allowlist_misses spec' = ns_hard_deny_allowlist_misses spec"
  by (auto simp: with_exec_policy_network_rules_def spec_valid_def Let_def)

lemma built_spec_delivered: "spec_valid L spec \<Longrightarrow> build_config_state_for_spec L spec = Inr st \<Longrightarrow> delivered L st"
  by (auto simp: build_config_state_for_spec_def spec_valid_def delivered_def)

lemma start_proxy_reachable:
  assumes "start_proxy L spec profile decider observed flow = Inr (np, reloader, d)" "spec_valid L spec"
  shows "proxy_reachable L (np, Map.empty) \<and> cs_constraints (np_state np) = ns_constraints spec
    \<and> d = proxy_decider spec profile decider flow"
proof -
  obtain st where st: "build_config_state_for_spec L spec = Inr st" and np: "np = fst (with_reloader st observed)"
    and d: "d = proxy_decider spec profile decider flow"
    using assms(1) by (auto simp: start_proxy_def)
  have "cs_constraints st = ns_constraints spec"
    using build_config_state_valid assms(2) st by (auto simp: build_config_state_for_spec_def spec_valid_def)
  moreover have "proxy_reachable L (np, Map.empty)"
    by (rule proxy_reachable.start [OF built_spec_delivered [OF assms(2) st], of observed _ "snd (with_reloader st observed)"])
      (simp add: np)
  ultimately show ?thesis using st d by (simp add: np with_reloader_def)
qed

text \<open>The constraints of a specification with requirements.\<close>

lemma apply_switches_domains:
  "apply_switches rq (cfg, nx) = (cfg', nx') \<Longrightarrow>
     nx_allowed_domains nx' = nx_allowed_domains nx \<and> nx_denied_domains nx' = nx_denied_domains nx
     \<and> nx_allowlist_expansion nx' = nx_allowlist_expansion nx"
  by (auto simp: apply_switches_def Let_def split: option.splits prod.splits)

lemma apply_sockets_domains:
  "apply_sockets rq (cfg, nx) = (cfg', nx') \<Longrightarrow>
     nx_allowed_domains nx' = nx_allowed_domains nx \<and> nx_denied_domains nx' = nx_denied_domains nx
     \<and> nx_allowlist_expansion nx' = nx_allowlist_expansion nx"
  by (auto simp: apply_sockets_def Let_def split: option.splits prod.splits)

lemma apply_requirements_constraints:
  assumes "apply_requirements cfg rq profile hard = (cfg', nx)"
  shows "nx_allowed_domains nx = (if hard then Some (or_empty (Option.bind (rq_domains rq) toml_allowed_domains))
      else Option.bind (rq_domains rq) toml_allowed_domains)"
    and "nx_denied_domains nx = Option.bind (rq_domains rq) toml_denied_domains"
    and "nx_allowed_domains nx \<noteq> None \<Longrightarrow> nx_allowlist_expansion nx = Some (managed_sandbox_active profile \<and> \<not> hard)"
proof -
  obtain c1 x1 where 1: "apply_switches rq (cfg, default_network_constraints) = (c1, x1)" by (metis surj_pair)
  obtain c2 x2 where 2: "apply_allowed_domains rq profile hard (c1, x1) = (c2, x2)" by (metis surj_pair)
  obtain c3 x3 where 3: "apply_denied_domains rq profile (c2, x2) = (c3, x3)" by (metis surj_pair)
  have 4: "apply_sockets rq (c3, x3) = (cfg', nx)" using assms by (simp add: apply_requirements_def 1 2 3)
  have x1: "nx_allowed_domains x1 = None" "nx_denied_domains x1 = None"
    using apply_switches_domains [OF 1] by (simp_all add: default_network_constraints_def)
  have x2: "nx_allowed_domains x2 = (if hard then Some (or_empty (Option.bind (rq_domains rq) toml_allowed_domains))
      else Option.bind (rq_domains rq) toml_allowed_domains)" "nx_denied_domains x2 = None"
    "nx_allowed_domains x2 \<noteq> None \<Longrightarrow> nx_allowlist_expansion x2 = Some (managed_sandbox_active profile \<and> \<not> hard)"
    using 2 x1 by (auto simp: apply_allowed_domains_def allowlist_expansion_enabled_def Let_def split: option.splits if_splits)
  have x3: "nx_allowed_domains x3 = nx_allowed_domains x2" "nx_allowlist_expansion x3 = nx_allowlist_expansion x2"
    "nx_denied_domains x3 = Option.bind (rq_domains rq) toml_denied_domains"
    using 3 x2(2) by (auto simp: apply_denied_domains_def Let_def split: option.splits)
  show "nx_allowed_domains nx = (if hard then Some (or_empty (Option.bind (rq_domains rq) toml_allowed_domains))
      else Option.bind (rq_domains rq) toml_allowed_domains)"
    and "nx_denied_domains nx = Option.bind (rq_domains rq) toml_denied_domains"
    and "nx_allowed_domains nx \<noteq> None \<Longrightarrow> nx_allowlist_expansion nx = Some (managed_sandbox_active profile \<and> \<not> hard)"
    using apply_sockets_domains [OF 4] x2 x3 by auto
qed

lemma broker_defaults_denied:
  "set (or_empty (denied_domains (fst (broker_defaults cfg nx)))) = set (or_empty (denied_domains cfg))"
proof -
  define c1 where "c1 = (if nx_enabled nx = Some False then cfg\<lparr>nc_credential_broker := False\<rparr> else cfg)"
  define c2 where "c2 = (if nc_credential_broker c1 \<and> \<not> nc_enabled c1 then c1\<lparr>nc_enabled := True\<rparr> else c1)"
  have "denied_domains c2 = denied_domains cfg" using domains_cong [of c2 cfg] by (simp add: c2_def c1_def)
  moreover have "fst (broker_defaults cfg nx) = c2 \<or> fst (broker_defaults cfg nx) = set_allowed_domains c2 [''*'']"
    by (auto simp: broker_defaults_def Let_def c2_def c1_def)
  ultimately show ?thesis using denied_set_allowed_domains [of c2 "[''*'']"] by metis
qed

lemma started_proxy_denied:
  assumes "start_proxy L spec profile decider observed flow = Inr (np, reloader, d)" "spec_valid L spec"
  shows "set (or_empty (denied_domains (cs_config (np_state np)))) = set (or_empty (denied_domains (ns_config spec)))"
proof -
  obtain st where st: "build_config_state L (ns_config spec) (ns_constraints spec) = Inr st" and np: "np_state np = st"
    using assms(1) by (auto simp: start_proxy_def build_config_state_for_spec_def with_reloader_def)
  then have "cs_config st = fst (broker_defaults (ns_config spec) (ns_constraints spec))"
    using build_config_state_valid assms(2) by (auto simp: spec_valid_def)
  then show ?thesis using broker_defaults_denied np by metis
qed

section \<open>Rules of the execution policy\<close>

text \<open>The denied patterns as a set.\<close>

definition denied_set :: "'j network_proxy_config \<Rightarrow> str set" where
  "denied_set cfg = set (or_empty (denied_domains cfg))"

lemma denied_set_upsert:
  assumes "plain_domain host"
  shows "denied_set (upsert_domain_permission cfg host DenyDomain normalize_host) \<supseteq> insert host {p \<in> denied_set cfg. plain_domain p}"
proof
  fix p assume p: "p \<in> insert host {p \<in> denied_set cfg. plain_domain p}"
  then have "normalize_host p = p" using assms normalize_host_plain by blast
  then show "p \<in> denied_set (upsert_domain_permission cfg host DenyDomain normalize_host)"
    using p unfolding denied_set_def upsert_lists(1) [where normal = normalize_host, OF normalize_host_plain [OF assms]]
    by (cases "p = host") (simp_all only: if_True if_False simp_thms insert_iff mem_Collect_eq)
qed

lemma upsert_network_domains_denies:
  assumes "\<forall>g \<in> set hosts. plain_domain g"
  shows "set hosts \<subseteq> denied_set (upsert_network_domains cfg hosts False)"
proof -
  let ?step = "\<lambda>(cfg, incoming) host. if host \<in> set incoming then (cfg, incoming)
    else (upsert_domain_permission cfg host (if False then AllowDomain else DenyDomain) normalize_host, host # incoming)"
  have "set hosts \<subseteq> denied_set (fst (foldl ?step (cfg, []) hosts)) \<and> set (snd (foldl ?step (cfg, []) hosts)) = set hosts"
    using assms
  proof (induction hosts rule: rev_induct)
    case (snoc h hs)
    obtain c inc where run: "foldl ?step (cfg, []) hs = (c, inc)"
      by (cases "foldl ?step (cfg, []) hs")
    have plain: "plain_domain h" "\<forall>g \<in> set hs. plain_domain g" using snoc.prems by auto
    have IH: "set hs \<subseteq> denied_set c" "set inc = set hs" using snoc.IH [OF plain(2)] unfolding run by simp_all
    show ?case
    proof (cases "h \<in> set inc")
      case True
      then show ?thesis using IH run by auto
    next
      case False
      have "set (hs @ [h]) \<subseteq> denied_set (upsert_domain_permission c h DenyDomain normalize_host)"
        using denied_set_upsert [OF plain(1), of c] IH(1) plain(2) by auto
      moreover have "foldl ?step (cfg, []) (hs @ [h]) = (upsert_domain_permission c h DenyDomain normalize_host, h # inc)"
        using run False by simp
      ultimately show ?thesis using IH(2) by simp
    qed
  qed simp
  then show ?thesis unfolding upsert_network_domains_def by blast
qed

section \<open>From the requirements to a request\<close>

lemma toml_allowed_set: "set (or_empty (Option.bind ds toml_allowed_domains)) = {p. (p, TomlAllow) \<in> set (or_empty ds)}"
  by (cases ds) (auto simp: toml_allowed_domains_def filter_empty_conv image_iff)

lemma toml_denied_set: "set (or_empty (Option.bind ds toml_denied_domains)) = {p. (p, TomlDeny) \<in> set (or_empty ds)}"
  by (cases ds) (auto simp: toml_denied_domains_def filter_empty_conv image_iff)

lemma spec_constraints:
  assumes "from_config_and_constraints L base (Some rq) profile = Inr spec"
  obtains cfg where "apply_requirements base rq profile (managed_allowed_domains_only rq) = (cfg, ns_constraints spec)"
    "ns_hard_deny_allowlist_misses spec = managed_allowed_domains_only rq"
  using assms by (auto simp: from_config_and_constraints_def Let_def split: prod.split_asm)

lemma maybe_reload_none [simp]: "maybe_reload r = Inr None"
  by (cases r) simp_all

text \<open>C0: When the requirements of the organisation fix the allowed domains, a request is allowed only to hosts that they allow and do not
  deny, whatever the user's configuration, the rules of the execution policy and a decider say, from the moment the proxy
  is started.\<close>

theorem fixed_domains_bound_every_request:
  assumes "from_config_and_constraints L base (Some rq) profile = Inr spec0" "managed_allowed_domains_only rq"
    and "with_exec_policy_network_rules L spec0 pol = Inr spec"
    and "start_proxy L spec profile decider observed flow = Inr (np, reloader, d)"
    and "evaluate_host_policy L lookup (maybe_reload reloader) now d handle request np = Inr (np', AllowNetwork, event)"
    and "glob_ok (sl_globs L)" "url_host_ok (sl_url_host L)" "plain_state (sl_url_host L) (np_state np)"
    and "plain_hostname (normalize_host (nq_host request))"
  shows "(\<exists>p. (p, TomlAllow) \<in> set (or_empty (rq_domains rq)) \<and> host_covered p (normalize_host (nq_host request)))
    \<and> (\<forall>p. (p, TomlDeny) \<in> set (or_empty (rq_domains rq)) \<longrightarrow> \<not> host_covered p (normalize_host (nq_host request)))"
proof -
  let ?h = "normalize_host (nq_host request)" and ?nx = "ns_constraints spec"
  obtain cfg where rq: "apply_requirements base rq profile True = (cfg, ns_constraints spec0)" and hard: "ns_hard_deny_allowlist_misses spec0"
    using spec_constraints [OF assms(1)] assms(2) by metis
  note spec = with_exec_policy_spec_valid [OF assms(3)]
  note nx = apply_requirements_constraints [OF rq]
  have start: "proxy_reachable L (np, Map.empty)" "cs_constraints (np_state np) = ?nx" "d = None"
    using start_proxy_reachable [OF assms(4)] spec hard by (auto simp: proxy_decider_def)
  have np': "np' = np" using assms(5) by (auto simp: evaluate_host_policy_def host_blocked_def reload_if_needed_def Let_def split: prod.split_asm)
  have allowed: "decide_host (sl_globs L) lookup (np_state np) (nq_host request) (nq_port request) = HostAllowed"
    by (rule evaluate_host_policy_allow [OF assms(5)]) (use np' start(3) in auto)
  have valid: "state_valid L (np_state np)" using proxy_reachable_ok [OF start(1)] by (simp add: system_ok_def state_ok_def)
  note sound = decide_host_sound [OF valid allowed assms(6-9)]
  have constraints: "nx_allowed_domains ?nx = Some (or_empty (Option.bind (rq_domains rq) toml_allowed_domains))"
    "nx_allowlist_expansion ?nx \<noteq> Some True" "nx_denied_domains ?nx = Option.bind (rq_domains rq) toml_denied_domains"
    using nx spec by simp_all
  have "\<exists>p \<in> set (or_empty (Option.bind (rq_domains rq) toml_allowed_domains)). host_covered p ?h"
    using sound constraints(1,2) unfolding start(2) by blast
  moreover have "\<forall>p \<in> set (or_empty (Option.bind (rq_domains rq) toml_denied_domains)). \<not> host_covered p ?h"
    using sound unfolding start(2) constraints(3) by blast
  ultimately show ?thesis unfolding toml_allowed_set toml_denied_set by blast
qed

text \<open>C0: A host that the rules of the execution policy forbid is not reached through the proxy: with the rules applied to its
  specification, no request to the host is allowed, not even by a decider.\<close>

theorem forbidden_network_hosts_stay_closed:
  assumes "with_exec_policy_network_rules L spec0 pol = Inr spec"
    and "f \<in> set (snd (compiled_network_domains pol))" "\<forall>g \<in> set (snd (compiled_network_domains pol)). plain_domain g"
    and "start_proxy L spec profile decider observed flow = Inr (np, reloader, d)"
    and "normalize_host (nq_host request) = f" "glob_ok (sl_globs L)" "plain_state (sl_url_host L) (np_state np)"
  shows "evaluate_host_policy L lookup (maybe_reload reloader) now d handle request np \<noteq> Inr (np', AllowNetwork, event)"
proof
  assume run: "evaluate_host_policy L lookup (maybe_reload reloader) now d handle request np = Inr (np', AllowNetwork, event)"
  note spec = with_exec_policy_spec_valid [OF assms(1)]
  have cfg: "ns_config spec = apply_exec_policy_network_rules (ns_config spec0) pol"
    using assms(1) by (auto simp: with_exec_policy_network_rules_def Let_def)
  have "f \<in> denied_set (ns_config spec)"
    using upsert_network_domains_denies [OF assms(3)] assms(2) unfolding cfg apply_exec_policy_network_rules_def
    by (cases "compiled_network_domains pol") auto
  then have denied: "f \<in> set (or_empty (denied_domains (cs_config (np_state np))))"
    using started_proxy_denied [OF assms(4)] spec unfolding denied_set_def by blast
  have plain: "plain_domain f" using assms(2,3) by blast
  have np': "np' = np" using run by (auto simp: evaluate_host_policy_def host_blocked_def reload_if_needed_def Let_def split: prod.split_asm)
  have decision: "decide_host (sl_globs L) lookup (np_state np) (nq_host request) (nq_port request) \<in> {HostAllowed, HostBlocked NotAllowed}"
    by (rule evaluate_host_policy_allow [OF run]) (simp_all add: np')
  have host: "host_parse (nq_host request) = Some f" using assms(5) plain by (auto simp: host_parse_def plain_domain_def)
  have valid: "state_valid L (np_state np)"
    using start_proxy_reachable [OF assms(4)] spec proxy_reachable_ok [of L "(np, Map.empty)"] by (simp add: system_ok_def state_ok_def)
  have "plain_hostname f"
    using plain_domain_ends(2) [OF plain] label_char_range lowercase_label by (force simp: plain_hostname_def list_all_iff)
  from deny_set_sound [OF valid decide_host_not_allowed(1) [OF decision host] assms(6,7) this]
  have "\<not> host_covered f f" using denied by blast
  moreover have "plain_pattern f" using denied assms(7) unfolding plain_state_def by blast
  then have "covers (spec_pattern f) f"
    using label_char_neq(3) [OF plain_domain_ends(2) [OF plain]] by (elim plain_pattern_cases) simp_all
  ultimately show False by (simp add: host_covered_def)
qed

section \<open>Witnesses\<close>

definition sample_requirements :: network_requirements where
  "sample_requirements = \<lparr>rq_enabled = Some True, rq_http_port = None, rq_socks_port = None, rq_allow_upstream_proxy = None,
     rq_allow_non_loopback_proxy = None, rq_allow_all_unix_sockets = None,
     rq_domains = Some [(''bad.example.com'', TomlDeny), (''crates.io'', TomlAllow)], rq_managed_allowed_domains_only = Some True,
     rq_unix_sockets = None, rq_allow_local_binding = None\<rparr>"

definition user_network_config :: "unit network_proxy_config" where
  "user_network_config = set_allowed_domains default_network_proxy_config [''other.org'']"

definition network_profile :: "(unit, unit) permission_profile" where
  "network_profile = Managed (ManagedRestricted [] None) ()"

definition network_rule_policy :: "unit policy" where
  "network_rule_policy = policy_from_parts ()
     [\<lparr>nr_host = ''evil.org'', nr_protocol = Https, nr_decision = Forbidden, nr_justification = None\<rparr>] Map.empty"

text \<open>What the requirements and the rules make of the user's configuration.\<close>

definition managed_constraints :: network_constraints where
  "managed_constraints = default_network_constraints\<lparr>nx_enabled := Some True, nx_allowed_domains := Some [''crates.io''],
     nx_allowlist_expansion := Some False, nx_denied_domains := Some [''bad.example.com''], nx_denylist_expansion := Some True\<rparr>"

definition managed_spec0 :: "unit network_proxy_spec" where
  "managed_spec0 = \<lparr>ns_base_config = user_network_config, ns_requirements = Some sample_requirements,
     ns_config = default_network_proxy_config\<lparr>nc_enabled := True,
       nc_domains := Some [\<lparr>de_pattern = ''crates.io'', de_permission = AllowDomain\<rparr>, \<lparr>de_pattern = ''bad.example.com'', de_permission = DenyDomain\<rparr>]\<rparr>,
     ns_constraints = managed_constraints, ns_hard_deny_allowlist_misses = True\<rparr>"

definition managed_spec :: "unit network_proxy_spec" where
  "managed_spec = managed_spec0\<lparr>ns_config := default_network_proxy_config\<lparr>nc_enabled := True,
     nc_domains := Some [\<lparr>de_pattern = ''crates.io'', de_permission = AllowDomain\<rparr>, \<lparr>de_pattern = ''bad.example.com'', de_permission = DenyDomain\<rparr>,
       \<lparr>de_pattern = ''evil.org'', de_permission = DenyDomain\<rparr>]\<rparr>\<rparr>"

definition managed_state :: "(unit, str list, str, unit) config_state" where
  "managed_state = projr (build_config_state_for_spec sample_state_lib managed_spec)"

definition managed_proxy :: "(unit, str list, str, unit) network_proxy_state" where
  "managed_proxy = fst (with_reloader managed_state False)"

lemma managed_state_built: "build_config_state_for_spec sample_state_lib managed_spec = Inr managed_state"
proof -
  have "\<not> isl (build_config_state_for_spec sample_state_lib managed_spec)" by code_simp
  then show ?thesis unfolding managed_state_def by (cases "build_config_state_for_spec sample_state_lib managed_spec") simp_all
qed

lemma managed_run:
  "from_config_and_constraints sample_state_lib user_network_config (Some sample_requirements) network_profile = Inr managed_spec0"
  "with_exec_policy_network_rules sample_state_lib managed_spec0 network_rule_policy = Inr managed_spec"
  by code_simp+

lemma managed_start:
  "start_proxy sample_state_lib managed_spec network_profile (Some (\<lambda>_. AllowNetwork)) False True
     = Inr (managed_proxy, StaticNetworkProxyReloader managed_state, None :: (unit network_policy_request \<Rightarrow> network_decision) option)"
proof -
  have "ns_hard_deny_allowlist_misses managed_spec" by code_simp
  then show ?thesis by (simp add: start_proxy_def managed_state_built proxy_decider_def managed_proxy_def)
qed

lemma sample_libs_ok: "glob_ok (sl_globs sample_state_lib)" "url_host_ok (sl_url_host sample_state_lib)"
  using simple_globs_ok by (simp_all add: sample_state_lib_def url_host_ok_def)

definition crates_request :: "unit network_policy_request" where
  "crates_request = unlisted_request\<lparr>nq_host := ''Crates.io''\<rparr>"

theorem fixed_domains_bound_every_request_witness:
  "\<exists>event. evaluate_host_policy sample_state_lib public_lookup (maybe_reload (StaticNetworkProxyReloader managed_state)) ''now'' None no_identity
       crates_request managed_proxy = Inr (managed_proxy, AllowNetwork, event)
     \<and> (\<exists>p. (p, TomlAllow) \<in> set (or_empty (rq_domains sample_requirements)) \<and> host_covered p (normalize_host ''Crates.io''))"
proof -
  define event where "event = domain_audit_event ''now'' crates_request AllowNetwork False"
  have "decide_host (sl_globs sample_state_lib) public_lookup (np_state managed_proxy) (nq_host crates_request) (nq_port crates_request)
      = HostAllowed" by code_simp
  then have run: "evaluate_host_policy sample_state_lib public_lookup (maybe_reload (StaticNetworkProxyReloader managed_state)) ''now'' None
      no_identity crates_request managed_proxy = Inr (managed_proxy, AllowNetwork, event)"
    by (simp add: evaluate_host_policy_def host_blocked_def reload_if_needed_def decide_with_def event_def Let_def)
  have only: "managed_allowed_domains_only sample_requirements" by code_simp
  have plain: "plain_state (sl_url_host sample_state_lib) (np_state managed_proxy)" by code_simp
  have h: "plain_hostname (normalize_host (nq_host crates_request))" by code_simp
  have host: "nq_host crates_request = ''Crates.io''" by code_simp
  show ?thesis
    using run fixed_domains_bound_every_request [OF managed_run(1) only managed_run(2) managed_start run sample_libs_ok plain h] unfolding host by blast
qed

theorem forbidden_network_hosts_stay_closed_witness:
  "\<forall>np' event. evaluate_host_policy sample_state_lib public_lookup (maybe_reload (StaticNetworkProxyReloader managed_state)) ''now'' None
     no_identity (unlisted_request\<lparr>nq_host := ''evil.org:443''\<rparr>) managed_proxy \<noteq> Inr (np', AllowNetwork, event)"
proof -
  have f: "''evil.org'' \<in> set (snd (compiled_network_domains network_rule_policy))"
    "\<forall>g \<in> set (snd (compiled_network_domains network_rule_policy)). plain_domain g" by code_simp+
  have h: "normalize_host (nq_host (unlisted_request\<lparr>nq_host := ''evil.org:443''\<rparr>)) = ''evil.org''" by code_simp
  have plain: "plain_state (sl_url_host sample_state_lib) (np_state managed_proxy)" by code_simp
  show ?thesis
    using forbidden_network_hosts_stay_closed [OF managed_run(2) f managed_start h sample_libs_ok(1) plain] by blast
qed

end
