(* ===== verification/Spec2Isabelle.thy ===== *)
theory Spec2Isabelle
  imports Patch_Safety Fs_Policy_Raw Exec_Policy_Parser Exec_Amend Stream_Utf8 Head_Tail_Buffer Output_Truncation Context_History
    Agent_Registry Network_Spec
begin

text \<open>
  \<^bold>\<open>The program.\<close>  The repository is a learning service whose agent runtime is the Rust workspace
  \<open>src/runtime/codex-rs\<close>.  An agent proposes commands and patches and reads their output.  The parts
  modelled here are those that decide and compute on the agent's behalf:

  \<^item> the execution policy (\<open>execpolicy\<close>), which says whether a command may run, must be confirmed or is
    forbidden, and which network domains may be reached;
  \<^item> the approval of commands (\<open>core/src/exec_policy.rs\<close>), which splits a command into the commands of its script
    (\<open>shell-command/src/bash.rs\<close>), asks the policy about each, searches for danger where no rule decides
    (\<open>is_dangerous_command.rs\<close>), and appends the rules that the user approves (\<open>execpolicy/src/amend.rs\<close>);
  \<^item> the file-system permissions (\<open>protocol/src/permissions.rs\<close>, \<open>models.rs\<close>, \<open>sandboxing/src/policy_transforms.rs\<close>), which say
    what may be read and written, are granted to single calls, and are intersected and merged;
  \<^item> the tool orchestrator (\<open>core/src/tools/orchestrator.rs\<close>, \<open>tools/sandboxing.rs\<close>, \<open>sandboxing/src/manager.rs\<close>), which runs
    every tool call: approval, choice of the sandbox, attempt, and a second attempt after a denial;
  \<^item> the patch tool (\<open>apply-patch\<close>), which recognises invocations, parses the patches of the model, finds the lines they
    quote and changes files, and the assessment of patches (\<open>core/src/safety.rs\<close>, \<open>core/src/apply_patch.rs\<close> and the handler
    and runtime of the tool), which approves a patch without a question if the permissions cover it;
  \<^item> the stream parsers (\<open>utils/stream-parser\<close>), which separate hidden markup from the visible text while
    a reply arrives in pieces;
  \<^item> the bounded output of processes (\<open>core/src/unified_exec\<close>) and the truncation of tool output
    (\<open>utils/string\<close>, \<open>utils/output-truncation\<close>);
  \<^item> the conversation history (\<open>core/src/context_manager\<close>), which records the items of a conversation, truncates
    tool output with the previous part, prepares the history for the model and estimates its size;
  \<^item> the registry of agents (\<open>core/src/agent/registry.rs\<close>), which all agents of a session share and which limits
    their number, and the paths that name them (\<open>protocol/src/agent_path.rs\<close>).

  \<^bold>\<open>Conventions.\<close>  A \<open>String\<close> is its UTF-8 bytes, a \<open>char list\<close> named \<^typ>\<open>str\<close>; byte indices of the code are
  indices of the list, and characters are recovered by \<open>utf8_chars\<close>.  \<open>Result\<close> is a sum type with the
  error on the left, \<open>Option\<close> is \<open>option\<close>, a panic is \<open>None\<close> or an error constructor of its own.  \<open>usize\<close> is
  \<open>nat\<close> with saturation at \<open>usize_max\<close> written out where the code saturates.  Mutable receivers are passed and returned.
  Code outside the sources is an argument: the Starlark interpreter (the sequence of builtin calls), the bash parser of
  tree-sitter (a function from scripts to trees, and the matches of a query), JSON strings,
  glob patterns (a compiler that may refuse), the conversion between paths and URLs, the disk and the process environment
  (the record \<open>fs_host\<close>), the text of Seatbelt profiles, unified diffs, the clock, lower-casing beyond ASCII,
  multimaps, shell quoting, the file system and path interfaces of \<open>apply-patch\<close>, writers, the
  estimate of audio costs, the length of JSON texts, the decoded size of images, the classification of
  contextual messages, version 5 UUIDs and random choices.

  \<^bold>\<open>Theories.\<close>
  \<^item> \<open>Rust_Prelude\<close>: results, saturating arithmetic, the string operations of the standard library.
    \<open>Utf8_Text\<close>: characters, validation as \<open>str::from_utf8\<close> does it, trimming by characters.
  \<^item> \<open>Absolute_Path\<close> (\<open>utils/absolute-path\<close>): lexical normalisation, absolute paths.
  \<^item> \<open>Exec_Rule\<close>, \<open>Exec_Policy\<close>, \<open>Exec_Policy_Parser\<close> (\<open>execpolicy\<close>: \<open>rule.rs\<close>, \<open>decision.rs\<close>, \<open>error.rs\<close>,
    \<open>executable_name.rs\<close>; \<open>policy.rs\<close>; \<open>parser.rs\<close>).  A rule bounds the outcome of every command it
    matches, overlays never relax, the strictest match decides, executables are resolved only to listed
    paths, and a policy file is accepted only if its examples hold.
  \<^item> \<open>Shell_Bash\<close> (\<open>shell-command\<close>: \<open>bash.rs\<close>, \<open>shell_detect.rs\<close>): the two readings of a script on its syntax tree; every
    command that is decided on is also searched for danger.  \<open>Dangerous_Command\<close> (\<open>is_dangerous_command.rs\<close>): the search
    is exact up to its depth and fails closed beyond it.
  \<^item> \<open>Exec_Approval\<close> (\<open>core/src/exec_policy.rs\<close>, \<open>model_policy.rs\<close>, \<open>executable_identity.rs\<close>): what runs unasked is allowed by
    rules or harmless, an unfamiliar shell gains no trust from its script, questions respect the approval mode,
    and not honouring allowing rules never relaxes a decision.  \<open>Exec_Amend\<close> (\<open>amend.rs\<close> and the updates of the manager):
    an amendment takes effect in memory and in the rules file, whose operations are the locale \<open>policy_file\<close>.
  \<^item> \<open>Fs_Policy\<close> (\<open>protocol/src/permissions.rs\<close>): entries, their resolution and precedence, access to a path, protected
    metadata directories; the most specific entry decides and the tests for access to the whole disk are sound.
    \<open>Fs_Policy_Update\<close>: the operations that add entries, in the locale \<open>entry_appending\<close>, and legacy policies.  \<open>Fs_Policy_Roots\<close>:
    the writable roots and unreadable paths handed to sandboxes; the metadata of a workspace stays protected.
    \<open>Fs_Policy_Raw\<close>: the serialised form.
  \<^item> \<open>Permission_Profile\<close> (\<open>models.rs\<close>): profiles and the policies at run time.  \<open>Permission_Transforms\<close>
    (\<open>policy_transforms.rs\<close>): merging, intersecting and applying permissions of a call; an intersection reads and writes within
    what was granted, and denials survive.
  \<^item> \<open>Tool_Sandboxing\<close> (\<open>sandboxing/src/manager.rs\<close>, \<open>core/src/tools/sandboxing.rs\<close>, \<open>tools/handlers/mod.rs\<close>): the default requirements, cached approvals, requested
    permissions, the choice and set-up of a sandbox.  \<open>Tool_Orchestrator\<close> (\<open>orchestrator.rs\<close>): a call as a function on effects
    (approvals and attempts), whose trace is recorded by \<open>logged\<close>: an attempt outside the sandbox was approved, and denied reads
    keep every attempt confined.
  \<^item> This theory joins them: a tool call for a forced removal without a deciding rule attempts nothing unasked.
  \<^item> \<open>Patch_Types\<close>, \<open>Patch_Parser\<close> (\<open>parser.rs\<close>, \<open>streaming_parser.rs\<close>) and \<open>Patch_Grammar\<close> (the documented
    grammar): cutting the input does not matter, what parses is well formed, every text of the grammar
    parses to its meaning.
  \<^item> \<open>Patch_Seek\<close> (\<open>seek_sequence.rs\<close>), \<open>Patch_Text_File\<close> (\<open>text_file.rs\<close>), \<open>Patch_File_Update\<close>
    (\<open>file_update.rs\<close>): the search, the lines of a file and their round trip, the replacements and the
    new contents in both update modes.
  \<^item> \<open>Patch_Apply\<close> (\<open>lib.rs\<close>): the hunks on a file system given by the locale \<open>text_fs\<close>, which is interpreted
    on an in-memory file system.  A delta reported as exact replays and reverts the change of the files
    even when the application fails half way.
  \<^item> \<open>Patch_Invocation\<close> (\<open>invocation.rs\<close>): from an argument list to a verified action.  \<open>Patch_Reparse\<close>: the text that is kept
    reparses to the same files.  \<open>Patch_Footprint\<close>: a patch changes no file outside its targets, for every file system of the
    locale \<open>guarded_fs\<close>.  \<open>Patch_Safety\<close>: assessment, delegation and execution; a patch that is approved without a question
    writes within the policy.
  \<^item> \<open>Stream_Text\<close> (the trait as the locale \<open>stream_parser\<close>), \<open>Stream_Inline_Tag\<close>, \<open>Stream_Tagged_Line\<close>,
    \<open>Stream_Utf8\<close>: the parsers interpret the locale, so their output does not depend on the chunks, and
    they agree with definitions on the complete text.
  \<^item> \<open>Head_Tail_Buffer\<close>: the buffer refines the summary (head, tail, omitted bytes) of the whole output.
  \<^item> \<open>String_Truncate\<close>, \<open>Output_Truncation\<close>: what is cut, what is kept, and the budgets.

  \<^item> \<open>Context_Items\<close> (\<open>protocol/src/models.rs\<close>, \<open>history/src/lib.rs\<close>), \<open>Context_Normalize\<close> (\<open>normalize.rs\<close>),
    \<open>Context_History\<close> (\<open>history.rs\<close>): after normalisation calls and outputs are paired and normalising again
    changes nothing; rollback removes exactly the turns asked for; removal of the oldest item keeps the pairs.
  \<^item> \<open>Agent_Path\<close>: the language of accepted paths.  \<open>Agent_Registry\<close>: the critical sections as functions, and
    the steps \<open>agent_step\<close> of concurrent clients between them; in every reachable state the limit holds, the counter does
    not underflow and lookups agree, and the lock-free counting loop makes progress.

  \<^bold>\<open>Loops.\<close>  Loops over finite data are structural recursion.  The loop of the hidden-tag parser is a
  \<open>partial_function (option)\<close>, and it is proved to return.  The search for danger recurs on the nesting depth, which
  the code bounds by 8, and the traversals of syntax trees on the size of their stack.  No definition uses fuel.

  \<^bold>\<open>Not modelled.\<close>  Symbolic links and permissions of a real file system (they are behind the interface),
  the third-party crates for unified diffs, globs and tree-sitter, the text of sandbox profiles and the Linux sandbox helper, the
  Windows rules and sandboxes, loading of rules files, the question to the user or reviewer behind an approval (an effect of
  the orchestrator), regular expressions, and the rest of the runtime: the application server, the session loop, configuration,
  the state database and wire types.
\<close>

section \<open>Properties across components\<close>

lemma forced_rm_not_skipped:
  assumes "c \<in> set (commands_for_exec_policy parse (req_command req))"
    and "matches_for_command_with_options M env (request_policy M policy req) c None resolving_options = []"
    and "(wraps parse)\<^sup>*\<^sup>* c d" "forced_rm d"
    and "create_exec_approval_requirement_for_command M env parse quote policy req = Some r"
  shows "r \<noteq> Skip b a" "req_approval_policy req = Never \<Longrightarrow> \<exists>reason. r = Refuse reason"
proof -
  have danger: "dangerous_command_match parse c \<noteq> None" by (rule forced_rm_dangerous [OF assms(3,4)])
  show skip: "r \<noteq> Skip b a" for b a
    using skip_segment(1) [of M env parse quote policy req _ b a c] assms(1,2,5) danger
    by (auto simp: create_exec_approval_requirement_for_command_def runs_freely_def)
  have "r \<noteq> NeedsApproval s a" if "req_approval_policy req = Never" for s a
    using requirement_NeedsApproval [of M env parse quote policy req _ s a] assms(5) that
    by (auto simp: create_exec_approval_requirement_for_command_def prompt_is_rejected_by_policy_def)
  then show "\<exists>reason. r = Refuse reason" if "req_approval_policy req = Never" using that skip by (cases r) auto
qed

text \<open>C1: From the syntax tree to the process: if a command of the script, on which no rule decides, removes files by
  force, itself or through any number of wrappers (\<open>sudo\<close>, \<open>env\<close>, \<open>trap\<close>, nested scripts), then the tool call with the
  requirement of the request attempts nothing before it was approved; and when the user does not want to be asked, it
  asks nothing and attempts nothing.\<close>

theorem forced_rm_never_runs_unasked:
  assumes "c \<in> set (commands_for_exec_policy parse (req_command req))"
    and "matches_for_command_with_options M env (request_policy M policy req) c None resolving_options = []"
    and "(wraps parse)\<^sup>*\<^sup>* c d" "forced_rm d"
    and "create_exec_approval_requirement_for_command M env parse quote policy req = Some r"
    and "tool_exec_approval_requirement tool = Some r" and "\<not> tool_wants_no_sandbox_approval tool Never"
    and "orchestrator_run macos H (logged E) tool (req_approval_policy req) strict m (s, []) = ((s', l), res)"
  shows "(l = before @ Ran a b # after \<longrightarrow> (\<exists>q. Asked q True \<in> set before))
    \<and> (req_approval_policy req = Never \<longrightarrow> l = [])"
proof -
  note not_skip = forced_rm_not_skipped [OF assms(1-5)]
  have r: "tool_requirement tool (req_approval_policy req) = r" using assms(6) by (simp add: tool_requirement_def)
  have "(l = before @ Ran a b # after \<longrightarrow> (\<exists>q. Asked q True \<in> set before))
    \<and> (tool_requirement tool (req_approval_policy req) = Refuse reason \<longrightarrow> l = [] \<and> res = Inl (ToolRejected reason))" for reason
    by (rule attempts_follow_requirement [OF assms(8,7)]) (use r not_skip(1) in auto)
  then show ?thesis using r not_skip(2) by auto
qed

theorem forced_rm_never_runs_unasked_witness:
  "\<exists>r. create_exec_approval_requirement_for_command alist_multimap no_env sample_parse (\<lambda>_. None) git_policy
     (sample_request [''sudo'', ''rm'', ''-rf'', ''/''] \<lparr>req_approval_policy := Never\<rparr>) = Some r
   \<and> snd (fst (orchestrator_run False plain_host (logged sample_effects)
         ((sample_tool confined_profile)\<lparr>tool_exec_approval_requirement := Some r\<rparr>) Never False False (0, []))) = []"
proof -
  let ?req = "sample_request [''sudo'', ''rm'', ''-rf'', ''/''] \<lparr>req_approval_policy := Never\<rparr>"
  let ?c = "[''sudo'', ''rm'', ''-rf'', ''/'']"
  have c: "?c \<in> set (commands_for_exec_policy sample_parse (req_command ?req))" by code_simp
  have m: "matches_for_command_with_options alist_multimap no_env (request_policy alist_multimap git_policy ?req) ?c None
      resolving_options = []" by code_simp
  have "executable_name_lookup_key ''sudo'' = Some ''sudo''" by code_simp
  then have w: "(wraps sample_parse)\<^sup>*\<^sup>* ?c [''rm'', ''-rf'', ''/'']" by (blast intro: wraps.sudo)
  have rm: "forced_rm [''rm'', ''-rf'', ''/'']" by code_simp
  obtain r where r: "create_exec_approval_requirement_for_command alist_multimap no_env sample_parse (\<lambda>_. None) git_policy ?req
      = Some r"
    by (cases "create_exec_approval_requirement_for_command alist_multimap no_env sample_parse (\<lambda>_. None) git_policy ?req")
      (auto simp: create_exec_approval_requirement_for_command_def create_exec_approval_requirement_for_parsed_commands_def
        Let_def check_multiple_None_iff commands_for_exec_policy_def split: option.splits list.splits)
  let ?tool = "(sample_tool confined_profile)\<lparr>tool_exec_approval_requirement := Some r\<rparr>"
  obtain s' l res where run: "orchestrator_run False plain_host (logged sample_effects) ?tool (req_approval_policy ?req) False False
      (0, []) = ((s', l), res)" by (metis prod.exhaust)
  have "l = []"
    using forced_rm_never_runs_unasked [OF c m w rm r _ _ run]
    by (simp add: sample_request_def sample_tool_def wants_no_sandbox_approval_default_def)
  then show ?thesis using r run by (simp add: sample_request_def)
qed

end
